(* ===== verification/Prelude.thy ===== *)
theory Prelude
  imports Main "HOL-Library.List_Lexorder" "HOL-Library.Char_ord" "HOL-Library.AList"
begin

text \<open>
  What every component shares: the JavaScript values the source relies on (errors as values of
  a sum, strings with the index conventions of \<open>substring\<close>, \<open>substr\<close>, \<open>indexOf\<close> and
  \<open>lastIndexOf\<close>, arrays with \<open>splice\<close>, objects as association lists in insertion order,
  numbers printed and parsed in base 36) and the generic lemmas about them.

  A JavaScript string is a list of characters: the code only compares characters with the
  newline and with the ASCII characters of the changeset syntax, and otherwise moves them
  around. A JavaScript number is an \<open>int\<close>: every number of the modelled code is a length, a
  position, a revision or an attribute number, far below the \<open>2 ^ 53\<close> up to which a double is
  exact.
\<close>

named_theorems jsstr \<open>the defining equations of the string, array and object operations\<close>

declare split_paired_Ex [simp del] split_paired_All [simp del]

subsection \<open>Errors\<close>

text \<open>
  \<open>Easysync\<close> is \<open>Changeset.error\<close> (an \<open>Error\<close> with \<open>e.easysync\<close> set), with the fixed part of
  its message; \<open>JsError\<close> any other \<open>throw new Error\<close>; \<open>TypeError\<close> and \<open>ReferenceError\<close> the ones
  the interpreter throws. \<open>Diverges\<close> is no exception: it is the value of a loop that never ends, so a
  theorem that a function returns \<open>Inr\<close> says in particular that it terminates.
\<close>

datatype js_error =
    Easysync string
  | JsError string
  | TypeError string
  | ReferenceError string
  | Diverges

type_synonym 'a res = "js_error + 'a"

definition bindE :: "'a res \<Rightarrow> ('a \<Rightarrow> 'b res) \<Rightarrow> 'b res" where
  "bindE m f = (case m of Inl e \<Rightarrow> Inl e | Inr x \<Rightarrow> f x)"

lemma bindE_simps [simp]: "bindE (Inl e) f = Inl e" "bindE (Inr x) f = f x"
  by (simp_all add: bindE_def)

lemma bindE_cong [fundef_cong]:
  assumes "m = m'" and "\<And>x. m' = Inr x \<Longrightarrow> f x = g x"
  shows "bindE m f = bindE m' g"
  using assms by (cases m') simp_all

lemma bindE_eq_Inr: "bindE m f = Inr y \<longleftrightarrow> (\<exists>x. m = Inr x \<and> f x = Inr y)"
  by (cases m) simp_all

lemma bindE_eq_Inl: "bindE m f = Inl e \<longleftrightarrow> m = Inl e \<or> (\<exists>x. m = Inr x \<and> f x = Inl e)"
  by (cases m) simp_all

lemma bindE_assoc: "bindE (bindE m f) g = bindE m (\<lambda>x. bindE (f x) g)"
  by (cases m) simp_all

text \<open>A loop over an array whose body may throw.\<close>

fun foldE :: "('a \<Rightarrow> 's \<Rightarrow> 's res) \<Rightarrow> 'a list \<Rightarrow> 's \<Rightarrow> 's res" where
  "foldE f [] s = Inr s"
| "foldE f (x # xs) s = bindE (f x s) (foldE f xs)"

lemma foldE_append [simp]: "foldE f (xs @ ys) s = bindE (foldE f xs s) (foldE f ys)"
  by (induction xs arbitrary: s) (auto simp: bindE_def split: sum.splits)

lemma foldE_total: "(\<And>x s. f x s = Inr (g x s)) \<Longrightarrow> foldE f xs s = Inr (fold g xs s)"
  by (induction xs arbitrary: s) auto

text \<open>\<open>Changeset.assert\<close> with its fixed message.\<close>

definition assertE :: "bool \<Rightarrow> string \<Rightarrow> unit res" where
  "assertE b msg = (if b then Inr () else Inl (Easysync msg))"

lemma assertE_True [simp]: "b \<Longrightarrow> assertE b msg = Inr ()"
  by (simp add: assertE_def)

lemma assertE_eq_Inr [simp]: "assertE b msg = Inr u \<longleftrightarrow> b"
  by (simp add: assertE_def)

subsection \<open>Strings\<close>

abbreviation nl :: char where "nl \<equiv> CHR 0x0A"

definition js_substring :: "string \<Rightarrow> int \<Rightarrow> int \<Rightarrow> string" where
  "js_substring s a b =
     (let n = int (length s); a' = max 0 (min a n); b' = max 0 (min b n);
          lo = min a' b'; hi = max a' b'
      in take (nat (hi - lo)) (drop (nat lo) s))"

definition js_from :: "string \<Rightarrow> int \<Rightarrow> string" where
  "js_from s a = js_substring s a (int (length s))"

definition js_substr :: "string \<Rightarrow> int \<Rightarrow> int \<Rightarrow> string" where
  "js_substr s i n =
     (let i' = (if i < 0 then max 0 (int (length s) + i) else i)
      in take (nat n) (drop (nat i') s))"

fun find_sub :: "string \<Rightarrow> string \<Rightarrow> nat option" where
  "find_sub p [] = (if p = [] then Some 0 else None)"
| "find_sub p (c # s) =
     (if take (length p) (c # s) = p then Some 0 else map_option Suc (find_sub p s))"

definition js_indexOf :: "string \<Rightarrow> string \<Rightarrow> int \<Rightarrow> int" where
  "js_indexOf s p i =
     (let k = nat i in case find_sub p (drop k s) of None \<Rightarrow> - 1 | Some j \<Rightarrow> int (k + j))"

fun rfind_sub :: "string \<Rightarrow> string \<Rightarrow> nat \<Rightarrow> int" where
  "rfind_sub p s 0 = (if take (length p) s = p then 0 else - 1)"
| "rfind_sub p s (Suc i) =
     (if take (length p) (drop (Suc i) s) = p then int (Suc i) else rfind_sub p s i)"

definition js_lastIndexOf :: "string \<Rightarrow> string \<Rightarrow> int \<Rightarrow> int" where
  "js_lastIndexOf s p i =
     (if length p \<le> length s then rfind_sub p s (nat (min i (int (length s) - int (length p))))
      else - 1)"

definition js_slice :: "'a list \<Rightarrow> int \<Rightarrow> int \<Rightarrow> 'a list" where
  "js_slice s a b =
     (let n = int (length s);
          a' = (if a < 0 then max 0 (n + a) else min a n);
          b' = (if b < 0 then max 0 (n + b) else min b n)
      in take (nat (b' - a')) (drop (nat a') s))"

definition count_nl :: "string \<Rightarrow> int" where
  "count_nl s = int (length (filter (\<lambda>c. c = nl) s))"

lemma count_nl_simps [simp]:
  "count_nl [] = 0"
  "count_nl (c # s) = (if c = nl then 1 + count_nl s else count_nl s)"
  "count_nl (s @ t) = count_nl s + count_nl t"
  by (simp_all add: count_nl_def)

lemma count_nl_nonneg: "0 \<le> count_nl s"
  by (simp add: count_nl_def)

lemma count_nl_0_iff: "count_nl s = 0 \<longleftrightarrow> nl \<notin> set s"
  by (auto simp: count_nl_def filter_empty_conv)

lemma count_nl_pos_iff: "0 < count_nl s \<longleftrightarrow> nl \<in> set s"
  using count_nl_0_iff [of s] count_nl_nonneg [of s] by linarith

declare js_substring_def [jsstr] js_from_def [jsstr] js_substr_def [jsstr] js_indexOf_def [jsstr]
  js_lastIndexOf_def [jsstr] js_slice_def [jsstr]

lemma js_substr_nonneg: "0 \<le> i \<Longrightarrow> js_substr s i n = take (nat n) (drop (nat i) s)"
  by (simp add: js_substr_def)

lemma js_substring_mid:
  "0 \<le> a \<Longrightarrow> a \<le> b \<Longrightarrow> b \<le> int (length s)
   \<Longrightarrow> js_substring s a b = take (nat (b - a)) (drop (nat a) s)"
  by (simp add: js_substring_def)

lemma js_from_nonneg: "0 \<le> a \<Longrightarrow> js_from s a = drop (nat a) s"
  by (auto simp: js_from_def js_substring_def min_def max_def Let_def)

lemma js_substring_append:
  "js_substring (a @ b @ c) (int (length a)) (int (length (a @ b))) = b"
  by (simp add: js_substring_def Let_def)

lemma js_from_append: "js_from (a @ c) (int (length a)) = c"
  by (simp add: js_from_nonneg)

lemma find_sub_single_None [simp]: "find_sub [c] s = None \<longleftrightarrow> c \<notin> set s"
  by (induction s) auto

lemma find_sub_single_Some:
  "find_sub [c] s = Some j \<longleftrightarrow> j < length s \<and> s ! j = c \<and> c \<notin> set (take j s)"
proof (induction s arbitrary: j)
  case Nil
  then show ?case by simp
next
  case (Cons d s)
  then show ?case by (cases j) auto
qed

lemma find_sub_append_first [simp]: "c \<notin> set s \<Longrightarrow> find_sub [c] (s @ c # t) = Some (length s)"
  by (simp add: find_sub_single_Some)

subsection \<open>Arrays and objects\<close>

definition js_splice :: "'a list \<Rightarrow> int \<Rightarrow> int \<Rightarrow> 'a list \<Rightarrow> 'a list" where
  "js_splice xs i n ys =
     (let m = int (length xs);
          i' = (if i < 0 then max 0 (m + i) else min i m);
          n' = max 0 (min n (m - i'))
      in take (nat i') xs @ ys @ drop (nat (i' + n')) xs)"

declare js_splice_def [jsstr]

text \<open>
  \<open>lines[i]\<close> outside the array is \<open>undefined\<close>, an error as soon as it is used as a string.
\<close>

definition js_nth :: "'a list \<Rightarrow> int \<Rightarrow> 'a res" where
  "js_nth xs i =
     (if 0 \<le> i \<and> i < int (length xs) then Inr (xs ! nat i) else Inl (TypeError ''undefined''))"

text \<open>
  An object used as a dictionary is the list of its entries in insertion order, which is the
  order of \<open>for (k in obj)\<close>.
\<close>

type_synonym ('k, 'v) obj = "('k \<times> 'v) list"

definition obj_get :: "('k, 'v) obj \<Rightarrow> 'k \<Rightarrow> 'v option" where
  "obj_get ob k = map_of ob k"

definition obj_put :: "('k, 'v) obj \<Rightarrow> 'k \<Rightarrow> 'v \<Rightarrow> ('k, 'v) obj" where
  "obj_put ob k v = AList.update k v ob"

definition obj_delete :: "('k, 'v) obj \<Rightarrow> 'k \<Rightarrow> ('k, 'v) obj" where
  "obj_delete ob k = AList.delete k ob"

lemma obj_get_Nil [simp]: "obj_get [] k = None"
  by (simp add: obj_get_def)

lemma obj_get_put [simp]: "obj_get (obj_put ob k v) j = (if j = k then Some v else obj_get ob j)"
  by (simp add: obj_get_def obj_put_def update_conv)

lemma obj_get_delete [simp]: "obj_get (obj_delete ob k) j = (if j = k then None else obj_get ob j)"
  by (simp add: obj_get_def obj_delete_def delete_conv)

subsection \<open>Numbers in base 36\<close>

text \<open>\<open>[0-9a-z]\<close>, the digits of a base-36 number.\<close>

definition is_alnum :: "char \<Rightarrow> bool" where
  "is_alnum c =
     (let k = (of_char c :: int) in (48 \<le> k \<and> k \<le> 57) \<or> (97 \<le> k \<and> k \<le> 122))"

definition digits36 :: string where
  "digits36 = ''0123456789abcdefghijklmnopqrstuvwxyz''"

definition val36 :: "char \<Rightarrow> int" where
  "val36 c = (let k = (of_char c :: int) in if k \<le> 57 then k - 48 else k - 87)"

function num36 :: "int \<Rightarrow> string" where
  "num36 n =
     (if n < 36 then [digits36 ! nat n] else num36 (n div 36) @ [digits36 ! nat (n mod 36)])"
  by pat_completeness auto
termination by (relation "measure nat") auto

declare num36.simps [simp del]

lemma digits36_ok: "0 \<le> d \<Longrightarrow> d < 36 \<Longrightarrow> is_alnum (digits36 ! nat d) \<and> val36 (digits36 ! nat d) = d"
proof -
  assume "0 \<le> d" "d < 36"
  moreover have "list_all (\<lambda>d. is_alnum (digits36 ! nat d) \<and> val36 (digits36 ! nat d) = d) [0..35]"
    by code_simp
  ultimately show ?thesis by (simp add: list_all_iff)
qed

lemma num36_alnum: "0 \<le> n \<Longrightarrow> num36 n \<noteq> [] \<and> list_all is_alnum (num36 n)"
proof (induction n rule: num36.induct)
  case (1 n)
  show ?case
  proof (cases "n < 36")
    case True
    with 1 show ?thesis by (subst (1 2) num36.simps) (simp add: digits36_ok)
  next
    case False
    with 1 have "list_all is_alnum (num36 (n div 36))" by simp
    with False show ?thesis by (subst (1 2) num36.simps) (simp add: digits36_ok)
  qed
qed

lemma num36_not_Nil [simp]: "0 \<le> n \<Longrightarrow> num36 n \<noteq> []"
  using num36_alnum by blast

lemma num36_set: "0 \<le> n \<Longrightarrow> c \<in> set (num36 n) \<Longrightarrow> is_alnum c"
  using num36_alnum by (auto simp: list_all_iff)

end
