(* ===== verification/Ops.thy ===== *)
theory Ops
  imports Prelude
begin

text \<open>
  Operations and operation streams of \<open>infrastructure/ace/www/easysync2.js\<close>: the mutable
  operation object, the numbers of the wire format, \<open>opIterator\<close> (the lexer of a packed
  operation string) and \<open>opAssembler\<close> (its printer), with the round trip between them.
\<close>

subsection \<open>Numbers of the wire format\<close>

text \<open>
  \<open>parseInt(str, 36)\<close>, here always on a string of \<open>[0-9a-z]\<close> digits that a regular expression
  has matched; \<open>num.toString(36).toLowerCase()\<close>.
\<close>

definition parseNum :: "string \<Rightarrow> int" where
  "parseNum s = foldl (\<lambda>a c. 36 * a + val36 c) 0 s"

definition numToString :: "int \<Rightarrow> string" where
  "numToString n = (if n < 0 then CHR ''-'' # num36 (- n) else num36 n)"

lemma parseNum_snoc: "parseNum (s @ [c]) = 36 * parseNum s + val36 c"
  by (simp add: parseNum_def)

lemma parseNum_Nil [simp]: "parseNum [] = 0"
  by (simp add: parseNum_def)

lemma parseNum_num36: "0 \<le> n \<Longrightarrow> parseNum (num36 n) = n"
proof (induction n rule: num36.induct)
  case (1 n)
  show ?case
  proof (cases "n < 36")
    case True
    with 1 show ?thesis by (subst num36.simps) (simp add: parseNum_def digits36_ok)
  next
    case False
    with 1 have "parseNum (num36 (n div 36)) = n div 36" by simp
    with False show ?thesis
      by (subst num36.simps) (simp add: parseNum_snoc digits36_ok)
  qed
qed

lemma parseNum_numToString [simp]: "0 \<le> n \<Longrightarrow> parseNum (numToString n) = n"
  by (simp add: numToString_def parseNum_num36)

lemma val36_nonneg: "is_alnum c \<Longrightarrow> 0 \<le> val36 c"
  by (auto simp: is_alnum_def val36_def Let_def)

lemma parseNum_nonneg: "list_all is_alnum s \<Longrightarrow> 0 \<le> parseNum s"
  by (induction s rule: rev_induct) (auto simp: parseNum_snoc val36_nonneg)

lemma numToString_alnum:
  "0 \<le> n \<Longrightarrow> numToString n \<noteq> [] \<and> list_all is_alnum (numToString n)"
  by (simp add: numToString_def num36_alnum)

subsection \<open>The operation object\<close>

text \<open>The opcodes \<open>''\<close>, \<open>'='\<close>, \<open>'-'\<close> and \<open>'+'\<close>.\<close>

datatype opcode = NoOp | Keep | Del | Ins

record op =
  opcode :: opcode
  chars :: int
  lines :: int
  attribs :: string

fun opcodeStr :: "opcode \<Rightarrow> string" where
  "opcodeStr NoOp = ''''"
| "opcodeStr Keep = ''=''"
| "opcodeStr Del = ''-''"
| "opcodeStr Ins = ''+''"

definition newOp :: "opcode \<Rightarrow> op" where
  "newOp c = \<lparr>opcode = c, chars = 0, lines = 0, attribs = ''''\<rparr>"

text \<open>\<open>clearOp\<close>, \<open>cloneOp\<close> and \<open>copyOp\<close> return the object they create or overwrite.\<close>

definition clearOp :: "op \<Rightarrow> op" where
  "clearOp o1 = o1\<lparr>opcode := NoOp, chars := 0, lines := 0, attribs := ''''\<rparr>"

definition cloneOp :: "op \<Rightarrow> op" where
  "cloneOp o1 = \<lparr>opcode = opcode o1, chars = chars o1, lines = lines o1, attribs = attribs o1\<rparr>"

definition copyOp :: "op \<Rightarrow> op \<Rightarrow> op" where
  "copyOp op1 op2 = op2\<lparr>opcode := opcode op1, chars := chars op1, lines := lines op1,
     attribs := attribs op1\<rparr>"

lemma copyOp_eq [simp]: "copyOp op1 op2 = op1"
  by (simp add: copyOp_def)

lemma clearOp_opcode [simp]: "opcode (clearOp o1) = NoOp"
  by (simp add: clearOp_def)

subsection \<open>The lexer\<close>

text \<open>
  \<open>opIterator\<close> runs the regular expression
  \<^verbatim>\<open>/((?:\*[0-9a-z]+)*)(?:\|([0-9a-z]+))?([-+=])([0-9a-z]+)|\?|/g\<close> at the current index. Its
  last alternative is empty, so a match always starts at that index. The groups are over
  disjoint sets of characters, so the greedy reading is the only one and no backtracking
  changes the result: the attributes (\<open>lex_stars\<close>), the optional line count (\<open>lex_lines\<close>),
  the opcode and the character count (\<open>lex_op\<close>).
\<close>

lemma length_dropWhile_less_Suc [termination_simp]: "length (dropWhile P xs) < Suc (length xs)"
  by (simp add: length_dropWhile_le less_Suc_eq_le)

fun lex_stars :: "string \<Rightarrow> string \<times> string" where
  "lex_stars [] = ([], [])"
| "lex_stars (c # s) =
     (if c = CHR ''*'' \<and> takeWhile is_alnum s \<noteq> []
      then (let (a, r) = lex_stars (dropWhile is_alnum s)
            in (c # takeWhile is_alnum s @ a, r))
      else ([], c # s))"

definition lex_lines :: "string \<Rightarrow> string option \<times> string" where
  "lex_lines s =
     (case s of
        c # s' \<Rightarrow>
          if c = CHR ''|'' \<and> takeWhile is_alnum s' \<noteq> []
          then (Some (takeWhile is_alnum s'), dropWhile is_alnum s')
          else (None, s)
      | [] \<Rightarrow> (None, s))"

fun char_opcode :: "char \<Rightarrow> opcode" where
  "char_opcode c =
     (if c = CHR ''='' then Keep else if c = CHR ''-'' then Del
      else if c = CHR ''+'' then Ins else NoOp)"

text \<open>The groups 1 to 4 of a match.\<close>

record op_match =
  m_attribs :: string
  m_lines :: "string option"
  m_opcode :: opcode
  m_chars :: string

definition lex_op :: "string \<Rightarrow> (op_match \<times> string) option" where
  "lex_op s =
     (let (a, s1) = lex_stars s; (l, s2) = lex_lines s1
      in case s2 of
           [] \<Rightarrow> None
         | c # s3 \<Rightarrow>
             if char_opcode c \<noteq> NoOp \<and> takeWhile is_alnum s3 \<noteq> []
             then Some (\<lparr>m_attribs = a, m_lines = l, m_opcode = char_opcode c,
                         m_chars = takeWhile is_alnum s3\<rparr>, dropWhile is_alnum s3)
             else None)"

text \<open>
  The iterator: the string, \<open>curIndex\<close>, \<open>prevIndex\<close> and \<open>regexResult\<close>, which is \<open>None\<close> where
  \<open>regexResult[0]\<close> is the empty string.
\<close>

record opIter =
  it_str :: string
  it_cur :: nat
  it_prev :: nat
  it_res :: "op_match option"

text \<open>\<open>exec\<close> from an index past the end returns \<open>null\<close>, whose \<open>[0]\<close> is a \<open>TypeError\<close>.\<close>

definition nextRegexMatch :: "string \<Rightarrow> nat \<Rightarrow> opIter res" where
  "nextRegexMatch s cur =
     (if length s < cur then Inl (TypeError ''null'')
      else case lex_op (drop cur s) of
        Some (m, rest) \<Rightarrow>
          Inr \<lparr>it_str = s, it_cur = length s - length rest, it_prev = cur, it_res = Some m\<rparr>
      | None \<Rightarrow>
          if take 1 (drop cur s) = ''?''
          then Inl (Easysync ''Hit error opcode in op stream'')
          else Inr \<lparr>it_str = s, it_cur = cur, it_prev = cur, it_res = None\<rparr>)"

definition opIterator :: "string \<Rightarrow> nat \<Rightarrow> opIter res" where
  "opIterator opsStr startIndex = nextRegexMatch opsStr startIndex"

definition hasNext :: "opIter \<Rightarrow> bool" where
  "hasNext it = (it_res it \<noteq> None)"

text \<open>\<open>next\<close>: the operation it fills in and the advanced iterator; it looks one match ahead.\<close>

definition opNext :: "opIter \<Rightarrow> (op \<times> opIter) res" where
  "opNext it =
     (case it_res it of
        Some m \<Rightarrow>
          bindE (nextRegexMatch (it_str it) (it_cur it)) (\<lambda>it'.
            Inr (\<lparr>opcode = m_opcode m, chars = parseNum (m_chars m),
                  lines = (case m_lines m of None \<Rightarrow> 0 | Some l \<Rightarrow> parseNum l),
                  attribs = m_attribs m\<rparr>, it'))
      | None \<Rightarrow> Inr (newOp NoOp, it))"

definition lastIndex :: "opIter \<Rightarrow> nat" where
  "lastIndex it = it_prev it"

subsection \<open>The lexer always advances\<close>

lemma lex_stars_length: "length (snd (lex_stars s)) \<le> length s"
proof (induction s rule: lex_stars.induct)
  case (2 c s)
  then show ?case
    using length_dropWhile_le [of is_alnum s]
    by (auto simp: case_prod_beta Let_def le_SucI)
qed simp

lemma lex_lines_length: "length (snd (lex_lines s)) \<le> length s"
  by (auto simp: lex_lines_def length_dropWhile_le le_SucI split: list.splits)

lemma lex_op_length: "lex_op s = Some (m, rest) \<Longrightarrow> length rest < length s"
proof -
  assume lex: "lex_op s = Some (m, rest)"
  obtain a s1 l s2 where eqs: "lex_stars s = (a, s1)" "lex_lines s1 = (l, s2)"
    by fastforce
  with lex obtain c s3 where s2: "s2 = c # s3" and "rest = dropWhile is_alnum s3"
    by (auto simp: lex_op_def split: list.splits if_splits)
  then have "length rest < length s2"
    using length_dropWhile_le [of is_alnum s3] by simp
  with eqs lex_stars_length [of s] lex_lines_length [of s1] show ?thesis by simp
qed

text \<open>What remains to be read: it shrinks with every \<open>next\<close>.\<close>

definition iter_size :: "opIter \<Rightarrow> nat" where
  "iter_size it =
     (case it_res it of None \<Rightarrow> 0 | Some _ \<Rightarrow> Suc (length (it_str it) - it_cur it))"

lemma nextRegexMatch_size:
  "nextRegexMatch s cur = Inr it \<Longrightarrow> iter_size it \<le> length s - cur"
  by (auto simp: nextRegexMatch_def iter_size_def dest!: lex_op_length
        split: if_splits option.splits)

lemma opNext_size [termination_simp]:
  "hasNext it \<Longrightarrow> opNext it = Inr (o1, it') \<Longrightarrow> iter_size it' < iter_size it"
  by (auto simp: opNext_def hasNext_def iter_size_def [of it] bindE_eq_Inr less_Suc_eq_le
        dest: nextRegexMatch_size)

subsection \<open>Loops over a stream\<close>

text \<open>
  \<open>while (iter.hasNext()) { var op = iter.next(); body }\<close>, the loop most operations are made
  of: \<open>body\<close> is the loop body as a function of the operation and the state it updates.
\<close>

function forOps :: "opIter \<Rightarrow> (op \<Rightarrow> 's \<Rightarrow> 's res) \<Rightarrow> 's \<Rightarrow> 's res" where
  "forOps it body s =
     (if hasNext it
      then bindE (opNext it) (\<lambda>(o1, it'). bindE (body o1 s) (\<lambda>s'. forOps it' body s'))
      else Inr s)"
  by pat_completeness auto
termination
  by (relation "measure (\<lambda>(it, _). iter_size it)") (auto intro: opNext_size)

declare forOps.simps [simp del]

text \<open>The operations an iterator yields, when it runs to its end without an error.\<close>

definition iter_ops :: "opIter \<Rightarrow> op list res" where
  "iter_ops it = forOps it (\<lambda>o1 os. Inr (os @ [o1])) []"

definition parse_ops :: "string \<Rightarrow> op list res" where
  "parse_ops s = bindE (opIterator s 0) iter_ops"

text \<open>An iterator that has the operations \<open>os\<close> ahead of it.\<close>

fun yields :: "opIter \<Rightarrow> op list \<Rightarrow> bool" where
  "yields it [] = (\<not> hasNext it)"
| "yields it (o1 # os) = (hasNext it \<and>
     (case opNext it of Inl _ \<Rightarrow> False | Inr (o2, it') \<Rightarrow> o2 = o1 \<and> yields it' os))"

lemma yields_ConsE:
  assumes "yields it (o1 # os)"
  obtains it' where "hasNext it" "opNext it = Inr (o1, it')" "yields it' os"
  using assms by (auto split: sum.splits)

lemma forOps_yields: "yields it os \<Longrightarrow> forOps it body s = foldE body os s"
proof (induction os arbitrary: it s)
  case Nil
  then show ?case by (subst forOps.simps) simp
next
  case (Cons o1 os)
  from Cons.prems obtain it' where
    it: "hasNext it" "opNext it = Inr (o1, it')" "yields it' os"
    by (rule yields_ConsE)
  show ?case
    by (subst forOps.simps) (simp add: it Cons.IH [OF it(3)] bindE_def split: sum.splits)
qed

lemma foldE_collect: "foldE (\<lambda>x acc. Inr (acc @ [x])) xs acc = Inr (acc @ xs)"
  by (induction xs arbitrary: acc) auto

lemma forOps_collect_yields:
  "forOps it (\<lambda>o1 acc. Inr (acc @ [o1])) acc = Inr os \<Longrightarrow> \<exists>os'. os = acc @ os' \<and> yields it os'"
proof (induction "iter_size it" arbitrary: it acc rule: less_induct)
  case less
  show ?case
  proof (cases "hasNext it")
    case False
    with less.prems show ?thesis by (subst (asm) forOps.simps) (auto intro: exI [of _ "[]"])
  next
    case True
    with less.prems obtain o1 it' where nxt: "opNext it = Inr (o1, it')"
      and rest: "forOps it' (\<lambda>o1 acc. Inr (acc @ [o1])) (acc @ [o1]) = Inr os"
      by (subst (asm) forOps.simps) (auto simp: bindE_eq_Inr)
    from less.hyps [OF opNext_size [OF True nxt] rest] obtain os' where
      "os = (acc @ [o1]) @ os'" "yields it' os'" by blast
    with True nxt show ?thesis by (intro exI [of _ "o1 # os'"]) simp
  qed
qed

lemma iter_ops_yields: "iter_ops it = Inr os \<longleftrightarrow> yields it os"
  using forOps_collect_yields [of it "[]" os]
  by (auto simp: iter_ops_def forOps_yields foldE_collect)

lemma parse_opsE:
  assumes "parse_ops s = Inr os"
  obtains it where "opIterator s 0 = Inr it" "yields it os"
  using assms by (auto simp: parse_ops_def bindE_eq_Inr iter_ops_yields)

lemma parse_opsI: "opIterator s 0 = Inr it \<Longrightarrow> yields it os \<Longrightarrow> parse_ops s = Inr os"
  by (simp add: parse_ops_def iter_ops_yields)

subsection \<open>The printer\<close>

text \<open>\<open>opAssembler\<close>: the array \<open>pieces\<close> of the strings pushed so far.\<close>

type_synonym opAssem = "string list"

definition opAssembler :: opAssem where
  "opAssembler = []"

definition oa_append :: "op \<Rightarrow> opAssem \<Rightarrow> opAssem" where
  "oa_append o1 pieces =
     pieces @ [attribs o1]
       @ (if lines o1 \<noteq> 0 then [''|'', numToString (lines o1)] else [])
       @ [opcodeStr (opcode o1)] @ [numToString (chars o1)]"

definition oa_toString :: "opAssem \<Rightarrow> string" where
  "oa_toString pieces = concat pieces"

definition oa_clear :: "opAssem \<Rightarrow> opAssem" where
  "oa_clear pieces = []"

text \<open>\<open>opString\<close> and \<open>stringOp\<close>, used when debugging.\<close>

definition opString :: "op \<Rightarrow> string" where
  "opString o1 =
     (if opcode o1 = NoOp then ''null'' else oa_toString (oa_append o1 opAssembler))"

definition stringOp :: "string \<Rightarrow> op res" where
  "stringOp s = bindE (opIterator s 0) (\<lambda>it. bindE (opNext it) (\<lambda>(o1, _). Inr o1))"

definition opStr :: "op \<Rightarrow> string" where
  "opStr o1 = attribs o1 @ (if lines o1 \<noteq> 0 then CHR ''|'' # numToString (lines o1) else [])
     @ opcodeStr (opcode o1) @ numToString (chars o1)"

definition encode :: "op list \<Rightarrow> string" where
  "encode os = concat (map opStr os)"

lemma encode_simps [simp]:
  "encode [] = []" "encode (o1 # os) = opStr o1 @ encode os" "encode (os @ ps) = encode os @ encode ps"
  by (simp_all add: encode_def)

lemma oa_append_concat [simp]: "concat (oa_append o1 pieces) = concat pieces @ opStr o1"
  by (simp add: oa_append_def opStr_def)

subsection \<open>Printing and reading back\<close>

text \<open>Attribute strings are sequences of \<open>*\<close> and a number: exactly what \<open>lex_stars\<close> consumes.\<close>

definition is_attribs :: "string \<Rightarrow> bool" where
  "is_attribs s = (lex_stars s = (s, []))"

text \<open>An operation the printer may be given: an opcode, non-negative counts, readable attributes.\<close>

definition lexable :: "op \<Rightarrow> bool" where
  "lexable o1 = (opcode o1 \<noteq> NoOp \<and> 0 \<le> chars o1 \<and> 0 \<le> lines o1 \<and> is_attribs (attribs o1))"

text \<open>No character of the rest continues what has just been read.\<close>

definition stops :: "string \<Rightarrow> bool" where
  "stops r = (case r of [] \<Rightarrow> True | c # _ \<Rightarrow> \<not> is_alnum c)"

lemma is_alnum_syntax [simp]:
  "\<not> is_alnum CHR ''*''" "\<not> is_alnum CHR ''|''" "\<not> is_alnum CHR ''=''"
  "\<not> is_alnum CHR ''+''" "\<not> is_alnum CHR ''-''" "\<not> is_alnum CHR ''$''"
  "\<not> is_alnum CHR ''?''" "\<not> is_alnum CHR ''>''" "\<not> is_alnum CHR ''<''"
  by (simp_all add: is_alnum_def)

lemma takeWhile_alnum_append:
  "list_all is_alnum d \<Longrightarrow> stops r \<Longrightarrow> takeWhile is_alnum (d @ r) = d"
  by (cases r) (auto simp: stops_def list_all_iff takeWhile_eq_all_conv takeWhile_append2)

lemma dropWhile_alnum_append:
  "list_all is_alnum d \<Longrightarrow> stops r \<Longrightarrow> dropWhile is_alnum (d @ r) = r"
  by (cases r) (auto simp: stops_def list_all_iff dropWhile_append2)

lemma stops_dropWhile [simp]: "stops (dropWhile is_alnum s)"
  by (induction s) (auto simp: stops_def)

lemma stops_append: "stops a \<Longrightarrow> stops r \<Longrightarrow> stops (a @ r)"
  by (cases a) (auto simp: stops_def)

lemma takeWhile_stops: "stops r \<Longrightarrow> takeWhile is_alnum r = []"
  using takeWhile_alnum_append [of "[]" r] by simp

lemma lex_stars_append:
  "is_attribs a \<Longrightarrow> stops r \<Longrightarrow> lex_stars r = ([], r) \<Longrightarrow> lex_stars (a @ r) = (a, r)"
proof (induction a rule: lex_stars.induct)
  case 1
  then show ?case by simp
next
  case (2 c s)
  let ?d = "takeWhile is_alnum s" and ?s' = "dropWhile is_alnum s"
  from 2 have c: "c = CHR ''*''" "?d \<noteq> []" and s': "is_attribs ?s'"
    by (auto simp: is_attribs_def case_prod_beta split: if_splits)
       (metis append_same_eq prod.collapse takeWhile_dropWhile_id append_eq_append_conv)
  have st: "stops (?s' @ r)"
    by (rule stops_append [OF stops_dropWhile 2(3)])
  have all: "list_all is_alnum ?d" by (auto simp: list_all_iff dest: set_takeWhileD)
  have sr: "s @ r = ?d @ (?s' @ r)" by simp
  have tw: "takeWhile is_alnum (s @ r) = ?d"
    by (subst sr) (rule takeWhile_alnum_append [OF all st])
  have dw: "dropWhile is_alnum (s @ r) = ?s' @ r"
    by (subst sr) (rule dropWhile_alnum_append [OF all st])
  from 2(1) [OF _ s' 2(3,4)] c have "lex_stars (?s' @ r) = (?s', r)" by simp
  then show ?case using c by (simp add: tw dw)
qed

lemma is_attribs_Nil [simp]: "is_attribs []"
  by (simp add: is_attribs_def)

lemma is_attribs_ConsD: "is_attribs (c # s) \<Longrightarrow> c = CHR ''*''"
  by (auto simp: is_attribs_def split: if_splits)

text \<open>Where an operation string can be cut: at its end, or before a star, a bar or an opcode.\<close>

definition op_start :: "string \<Rightarrow> bool" where
  "op_start r = (case r of [] \<Rightarrow> True | c # _ \<Rightarrow> c \<in> set ''*|=-+'')"

lemma op_start_stops: "op_start r \<Longrightarrow> stops r"
  by (auto simp: op_start_def stops_def split: list.splits)

lemma op_start_append: "op_start a \<Longrightarrow> op_start r \<Longrightarrow> op_start (a @ r)"
  by (cases a) (auto simp: op_start_def)

lemma opcodeStr_char:
  "opcode o1 \<noteq> NoOp \<Longrightarrow> \<exists>c. opcodeStr (opcode o1) = [c] \<and> c \<in> set ''=-+'' \<and> char_opcode c = opcode o1"
  by (cases "opcode o1") auto

lemma op_start_opStr: "lexable o1 \<Longrightarrow> op_start (opStr o1 @ r)"
  using opcodeStr_char [of o1] is_attribs_ConsD
  by (cases "attribs o1") (auto simp: op_start_def opStr_def lexable_def)

lemma op_start_encode: "list_all lexable os \<Longrightarrow> op_start (encode os)"
  by (cases os) (simp_all add: op_start_opStr op_start_def [of "[]"])

lemma lex_lines_None: "(case r of [] \<Rightarrow> True | c # _ \<Rightarrow> c \<noteq> CHR ''|'') \<Longrightarrow> lex_lines r = (None, r)"
  by (auto simp: lex_lines_def split: list.splits)

lemma lex_lines_Some:
  "d \<noteq> [] \<Longrightarrow> list_all is_alnum d \<Longrightarrow> stops r \<Longrightarrow> lex_lines (CHR ''|'' # d @ r) = (Some d, r)"
  by (simp add: lex_lines_def takeWhile_alnum_append dropWhile_alnum_append)

lemma lex_op_opStr:
  assumes "lexable o1" and "stops r"
  shows "lex_op (opStr o1 @ r) =
    Some (\<lparr>m_attribs = attribs o1,
           m_lines = (if lines o1 \<noteq> 0 then Some (numToString (lines o1)) else None),
           m_opcode = opcode o1, m_chars = numToString (chars o1)\<rparr>, r)"
proof -
  from assms(1) have pos: "0 \<le> chars o1" "0 \<le> lines o1" and at: "is_attribs (attribs o1)"
    and nop: "opcode o1 \<noteq> NoOp" by (auto simp: lexable_def)
  obtain c where c: "opcodeStr (opcode o1) = [c]" "c \<in> set ''=-+''" "char_opcode c = opcode o1"
    using opcodeStr_char [OF nop] by blast
  let ?t = "c # numToString (chars o1) @ r"
  let ?l = "(if lines o1 \<noteq> 0 then CHR ''|'' # numToString (lines o1) else []) @ ?t"
  note ch = numToString_alnum [OF pos(1)] and ln = numToString_alnum [OF pos(2)]
  have "stops ?l" "lex_stars ?l = ([], ?l)" using c(2) by (auto simp: stops_def)
  then have stars: "lex_stars (attribs o1 @ ?l) = (attribs o1, ?l)"
    by (rule lex_stars_append [OF at])
  have "stops ?t" "c \<noteq> CHR ''|''" using c(2) by (auto simp: stops_def)
  then have lns: "lex_lines ?l =
      (if lines o1 \<noteq> 0 then Some (numToString (lines o1)) else None, ?t)"
    using lex_lines_Some [of "numToString (lines o1)" ?t] ln by (auto simp: lex_lines_None)
  have "opStr o1 @ r = attribs o1 @ ?l" using c(1) by (simp add: opStr_def)
  then show ?thesis
    using stars lns c nop ch assms(2)
    by (simp add: lex_op_def takeWhile_alnum_append dropWhile_alnum_append del: char_opcode.simps)
qed

lemma lex_op_Nil [simp]: "lex_op [] = None"
  by (simp add: lex_op_def lex_lines_def)

lemma yields_encode:
  "list_all lexable os
   \<Longrightarrow> \<exists>it. nextRegexMatch (p @ encode os) (length p) = Inr it \<and> yields it os"
proof (induction os arbitrary: p)
  case Nil
  then show ?case by (simp add: nextRegexMatch_def hasNext_def)
next
  case (Cons o1 os)
  then have o1: "lexable o1" and os: "list_all lexable os" by auto
  from Cons.IH [OF os, of "p @ opStr o1"] obtain it where
    it: "nextRegexMatch (p @ encode (o1 # os)) (length p + length (opStr o1)) = Inr it"
      "yields it os" by auto
  let ?m = "\<lparr>m_attribs = attribs o1,
      m_lines = (if lines o1 \<noteq> 0 then Some (numToString (lines o1)) else None),
      m_opcode = opcode o1, m_chars = numToString (chars o1)\<rparr>"
  let ?it = "\<lparr>it_str = p @ encode (o1 # os), it_cur = length p + length (opStr o1),
      it_prev = length p, it_res = Some ?m\<rparr>"
  have "nextRegexMatch (p @ encode (o1 # os)) (length p) = Inr ?it"
    using lex_op_opStr [OF o1 op_start_stops [OF op_start_encode [OF os]]]
    by (simp add: nextRegexMatch_def)
  moreover have "yields ?it (o1 # os)"
    using it o1 by (simp add: hasNext_def opNext_def lexable_def)
  ultimately show ?case by blast
qed

lemma opIterator_encode:
  "list_all lexable os \<Longrightarrow> \<exists>it. opIterator (encode os) 0 = Inr it \<and> yields it os"
  using yields_encode [of os "[]"] by (simp add: opIterator_def)

text \<open>
  C18. Printing and reading back: the operations that \<open>opAssembler\<close> prints are exactly those that
  \<open>opIterator\<close> yields on the printed string, for any sequence of operations with an opcode,
  non-negative counts and readable attributes. Nothing of one operation runs into the next.
\<close>

theorem parse_ops_assembled:
  assumes "list_all lexable os"
  shows "parse_ops (oa_toString (fold oa_append os opAssembler)) = Inr os"
proof -
  have "\<And>pieces. concat (fold oa_append os pieces) = concat pieces @ encode os"
    by (induction os) simp_all
  then have "oa_toString (fold oa_append os opAssembler) = encode os"
    by (simp add: oa_toString_def opAssembler_def)
  with opIterator_encode [OF assms] show ?thesis by (auto intro: parse_opsI)
qed

theorem parse_ops_assembled_witness:
  "let os = [\<lparr>opcode = Keep, chars = 40, lines = 2, attribs = ''*1*z''\<rparr>,
             \<lparr>opcode = Del, chars = 3, lines = 0, attribs = ''''\<rparr>]
   in list_all lexable os \<and> parse_ops (oa_toString (fold oa_append os opAssembler)) = Inr os"
proof -
  let ?os = "[\<lparr>opcode = Keep, chars = 40, lines = 2, attribs = ''*1*z''\<rparr>,
             \<lparr>opcode = Del, chars = 3, lines = 0, attribs = ''''\<rparr>]"
  have h: "list_all lexable ?os"
    by (simp add: lexable_def is_attribs_def is_alnum_def)
  then show ?thesis using parse_ops_assembled [OF h] by (simp only: Let_def simp_thms)
qed

end
