(* ===== verification/AttribPools.thy ===== *)
theory AttribPools
  imports Ops
begin

text \<open>
  \<open>AttribPool\<close> of \<open>infrastructure/ace/www/easysync2.js\<close>: the numbered pool of the attribute
  (key, value) pairs that operations refer to as \<open>*n\<close>, its laws as the locale
  \<open>attribute_pool\<close>, and \<open>makeAttribsString\<close> and \<open>moveOpsToNewPool\<close>, which go through it.
\<close>

type_synonym attrib = "string \<times> string"

record pool =
  numToAttrib :: "(int, attrib) obj"
  attribToNum :: "(string, int) obj"
  nextNum :: int

definition AttribPool :: pool where
  "AttribPool = \<lparr>numToAttrib = [], attribToNum = [], nextNum = 0\<rparr>"

text \<open>\<open>String(attrib)\<close> of a two-element array joins the elements with a comma.\<close>

definition attribStr :: "attrib \<Rightarrow> string" where
  "attribStr a = fst a @ '','' @ snd a"

definition putAttrib :: "attrib \<Rightarrow> bool \<Rightarrow> pool \<Rightarrow> int \<times> pool" where
  "putAttrib a dontAddIfAbsent p =
     (case obj_get (attribToNum p) (attribStr a) of
        Some n \<Rightarrow> (n, p)
      | None \<Rightarrow>
          if dontAddIfAbsent then (- 1, p)
          else (nextNum p,
                p\<lparr>nextNum := nextNum p + 1,
                  attribToNum := obj_put (attribToNum p) (attribStr a) (nextNum p),
                  numToAttrib := obj_put (numToAttrib p) (nextNum p) (fst a, snd a)\<rparr>))"

definition getAttrib :: "pool \<Rightarrow> int \<Rightarrow> attrib option" where
  "getAttrib p n = obj_get (numToAttrib p) n"

definition getAttribKey :: "pool \<Rightarrow> int \<Rightarrow> string" where
  "getAttribKey p n = (case obj_get (numToAttrib p) n of None \<Rightarrow> '''' | Some pair \<Rightarrow> fst pair)"

definition getAttribValue :: "pool \<Rightarrow> int \<Rightarrow> string" where
  "getAttribValue p n = (case obj_get (numToAttrib p) n of None \<Rightarrow> '''' | Some pair \<Rightarrow> snd pair)"

definition eachAttrib :: "pool \<Rightarrow> (string \<Rightarrow> string \<Rightarrow> 's \<Rightarrow> 's) \<Rightarrow> 's \<Rightarrow> 's" where
  "eachAttrib p func s = fold (\<lambda>(_, pair). func (fst pair) (snd pair)) (numToAttrib p) s"

record poolJson =
  pj_numToAttrib :: "(int, attrib) obj"
  pj_nextNum :: int

definition toJsonable :: "pool \<Rightarrow> poolJson" where
  "toJsonable p = \<lparr>pj_numToAttrib = numToAttrib p, pj_nextNum = nextNum p\<rparr>"

definition fromJsonable :: "poolJson \<Rightarrow> pool" where
  "fromJsonable ob =
     \<lparr>numToAttrib = pj_numToAttrib ob,
      attribToNum = fold (\<lambda>(n, pair) m. obj_put m (attribStr pair) n) (pj_numToAttrib ob) [],
      nextNum = pj_nextNum ob\<rparr>"

subsection \<open>The invariant of a pool\<close>

text \<open>
  The two tables describe each other and the numbers in use are those below \<open>nextNum\<close>.
\<close>

definition pool_wf :: "pool \<Rightarrow> bool" where
  "pool_wf p =
     (0 \<le> nextNum p \<and>
      distinct (map fst (numToAttrib p)) \<and>
      (\<forall>n. (getAttrib p n \<noteq> None) = (0 \<le> n \<and> n < nextNum p)) \<and>
      (\<forall>n a. getAttrib p n = Some a \<longrightarrow> obj_get (attribToNum p) (attribStr a) = Some n) \<and>
      (\<forall>s n. obj_get (attribToNum p) s = Some n \<longrightarrow>
         (\<exists>a. getAttrib p n = Some a \<and> attribStr a = s)))"

lemma pool_wf_empty: "pool_wf AttribPool"
  by (simp add: pool_wf_def AttribPool_def getAttrib_def)

lemma pool_wf_bound: "pool_wf p \<Longrightarrow> getAttrib p n = Some a \<Longrightarrow> 0 \<le> n \<and> n < nextNum p"
  unfolding pool_wf_def by (metis option.distinct(1))

lemma distinct_obj_put: "distinct (map fst ob) \<Longrightarrow> distinct (map fst (obj_put ob k v))"
  by (simp add: obj_put_def distinct_update)

lemma pool_wf_num:
  "pool_wf p \<Longrightarrow> getAttrib p n = Some a \<Longrightarrow> obj_get (attribToNum p) (attribStr a) = Some n"
  unfolding pool_wf_def by blast

lemma pool_wf_attrib:
  "pool_wf p \<Longrightarrow> obj_get (attribToNum p) s = Some n \<Longrightarrow> \<exists>a. getAttrib p n = Some a \<and> attribStr a = s"
  unfolding pool_wf_def by blast

lemma pool_wf_dom: "pool_wf p \<Longrightarrow> (getAttrib p n = None) = (n < 0 \<or> nextNum p \<le> n)"
  unfolding pool_wf_def by (metis linorder_not_less)

lemma pool_wf_next: "pool_wf p \<Longrightarrow> 0 \<le> nextNum p"
  by (simp add: pool_wf_def)

lemma putAttrib_present:
  "pool_wf p \<Longrightarrow> getAttrib p n = Some a \<Longrightarrow> attribStr b = attribStr a \<Longrightarrow> putAttrib b d p = (n, p)"
  by (simp add: putAttrib_def pool_wf_num)

lemma putAttrib_wf:
  assumes wf: "pool_wf p" and put: "putAttrib a d p = (n, p')"
  shows "pool_wf p'"
proof (cases "obj_get (attribToNum p) (attribStr a)")
  case (Some m)
  with put wf show ?thesis by (simp add: putAttrib_def)
next
  case None
  have fresh: "getAttrib p (nextNum p) = None"
    using wf unfolding pool_wf_def by (metis less_irrefl)
  show ?thesis
  proof (cases d)
    case True
    with None put wf show ?thesis by (simp add: putAttrib_def)
  next
    case False
    with None put have p': "p' = p\<lparr>nextNum := nextNum p + 1,
        attribToNum := obj_put (attribToNum p) (attribStr a) (nextNum p),
        numToAttrib := obj_put (numToAttrib p) (nextNum p) (fst a, snd a)\<rparr>"
      by (auto simp: putAttrib_def)
    have get: "getAttrib p' m = (if m = nextNum p then Some a else getAttrib p m)" for m
      by (simp add: p' getAttrib_def)
    have num: "obj_get (attribToNum p') s =
        (if s = attribStr a then Some (nextNum p) else obj_get (attribToNum p) s)" for s
      by (simp add: p')
    have dom: "(getAttrib p' m \<noteq> None) = (0 \<le> m \<and> m < nextNum p')" for m
    proof -
      have np: "nextNum p' = nextNum p + 1" by (simp add: p')
      show ?thesis
        using pool_wf_dom [OF wf, of m] pool_wf_next [OF wf]
        by (cases "m = nextNum p"; cases "getAttrib p m") (auto simp: get np)
    qed
    have fwd: "obj_get (attribToNum p') (attribStr b) = Some m" if "getAttrib p' m = Some b" for m b
      using that pool_wf_num [OF wf, of m b] None by (auto simp: get num split: if_splits)
    have bwd: "\<exists>b. getAttrib p' m = Some b \<and> attribStr b = s"
      if "obj_get (attribToNum p') s = Some m" for m s
    proof (cases "s = attribStr a")
      case True
      with that show ?thesis by (simp add: get num)
    next
      case False
      with that have "obj_get (attribToNum p) s = Some m" by (simp add: num)
      from pool_wf_attrib [OF wf this] obtain b where "getAttrib p m = Some b" "attribStr b = s"
        by blast
      with fresh show ?thesis by (auto simp: get)
    qed
    have dist: "distinct (map fst (numToAttrib p'))"
      using wf by (simp add: p' pool_wf_def distinct_obj_put)
    have pos: "0 \<le> nextNum p'" using wf by (simp add: p' pool_wf_def)
    show ?thesis unfolding pool_wf_def using pos dist dom fwd bwd by blast
  qed
qed

lemma putAttrib_keeps:
  assumes wf: "pool_wf p" and put: "putAttrib a d p = (n, p')" and old: "getAttrib p m = Some b"
  shows "getAttrib p' m = Some b"
proof -
  have "m \<noteq> nextNum p" using pool_wf_bound [OF wf old] by simp
  with put old show ?thesis
    by (auto simp: putAttrib_def getAttrib_def split: option.splits if_splits)
qed

lemma putAttrib_gets:
  assumes wf: "pool_wf p" and put: "putAttrib a False p = (n, p')"
  shows "\<exists>b. getAttrib p' n = Some b \<and> attribStr b = attribStr a"
proof (cases "obj_get (attribToNum p) (attribStr a)")
  case (Some m)
  with put pool_wf_attrib [OF wf Some] show ?thesis by (simp add: putAttrib_def)
next
  case None
  with put have "getAttrib p' n = Some a" by (auto simp: putAttrib_def getAttrib_def)
  then show ?thesis by blast
qed

subsection \<open>The pool as an interface\<close>

text \<open>
  What the clients of a pool rely on: a stored attribute can be read back under the number that
  \<open>put\<close> returned, up to the string the pool compares attributes by, and no number ever changes
  its meaning.
\<close>

locale attribute_pool =
  fixes put :: "attrib \<Rightarrow> 'p \<Rightarrow> int \<times> 'p"
    and get :: "'p \<Rightarrow> int \<Rightarrow> attrib option"
    and key :: "attrib \<Rightarrow> string"
    and wf :: "'p \<Rightarrow> bool"
  assumes put_wf: "wf p \<Longrightarrow> put a p = (n, p') \<Longrightarrow> wf p'"
    and put_get: "wf p \<Longrightarrow> put a p = (n, p') \<Longrightarrow> \<exists>b. get p' n = Some b \<and> key b = key a"
    and put_keeps: "wf p \<Longrightarrow> put a p = (n, p') \<Longrightarrow> get p m = Some b \<Longrightarrow> get p' m = Some b"
    and put_again: "wf p \<Longrightarrow> get p m = Some b \<Longrightarrow> key a = key b \<Longrightarrow> put a p = (m, p)"
    and get_nonneg: "wf p \<Longrightarrow> get p m = Some b \<Longrightarrow> 0 \<le> m"
begin

lemma put_nonneg: "wf p \<Longrightarrow> put a p = (n, p') \<Longrightarrow> 0 \<le> n"
  using put_get put_wf get_nonneg by blast

lemma put_inj:
  assumes "wf p" and "put a p = (n, p1)" and "put b p1 = (n, p2)"
  shows "key a = key b"
proof -
  obtain a' where a': "get p1 n = Some a'" "key a' = key a"
    using put_get [OF assms(1,2)] by blast
  have wf1: "wf p1" using put_wf [OF assms(1,2)] .
  obtain b' where "get p2 n = Some b'" "key b' = key b"
    using put_get [OF wf1 assms(3)] by blast
  moreover have "get p2 n = Some a'" using put_keeps [OF wf1 assms(3) a'(1)] .
  ultimately show ?thesis using a'(2) by simp
qed

lemma put_idem: "wf p \<Longrightarrow> put a p = (n, p') \<Longrightarrow> put a p' = (n, p')"
  using put_get put_wf put_again by metis

end

interpretation ap: attribute_pool "\<lambda>a. putAttrib a False" getAttrib attribStr pool_wf
proof unfold_locales
  show "\<And>p a n p'. pool_wf p \<Longrightarrow> putAttrib a False p = (n, p') \<Longrightarrow> pool_wf p'"
    by (rule putAttrib_wf)
  show "\<And>p a n p'. pool_wf p \<Longrightarrow> putAttrib a False p = (n, p')
      \<Longrightarrow> \<exists>b. getAttrib p' n = Some b \<and> attribStr b = attribStr a"
    by (rule putAttrib_gets)
  show "\<And>p a n p' m b. pool_wf p \<Longrightarrow> putAttrib a False p = (n, p') \<Longrightarrow> getAttrib p m = Some b
      \<Longrightarrow> getAttrib p' m = Some b"
    by (rule putAttrib_keeps)
  show "\<And>p m b a. pool_wf p \<Longrightarrow> getAttrib p m = Some b \<Longrightarrow> attribStr a = attribStr b
      \<Longrightarrow> putAttrib a False p = (m, p)"
    by (rule putAttrib_present)
  show "\<And>p m b. pool_wf p \<Longrightarrow> getAttrib p m = Some b \<Longrightarrow> 0 \<le> m"
    using pool_wf_bound by blast
qed

lemma json_attribToNum:
  assumes wf: "pool_wf p"
  shows "obj_get (attribToNum (fromJsonable (toJsonable p))) s = obj_get (attribToNum p) s"
proof -
  have get: "(n, a) \<in> set (numToAttrib p) \<longleftrightarrow> getAttrib p n = Some a" for n a
    using wf by (simp add: pool_wf_def getAttrib_def obj_get_def map_of_eq_Some_iff)
  have "obj_get (fold (\<lambda>(n, pair) m. obj_put m (attribStr pair) n) ob m0) s =
      (if \<exists>n a. (n, a) \<in> set ob \<and> attribStr a = s then obj_get (attribToNum p) s else obj_get m0 s)"
    if "set ob \<subseteq> set (numToAttrib p)" for ob m0
    using that
  proof (induction ob arbitrary: m0)
    case (Cons na ob)
    obtain n a where na: "na = (n, a)" by fastforce
    with Cons.prems get have "obj_get (attribToNum p) (attribStr a) = Some n"
      using pool_wf_num [OF wf, of n a] by auto
    with Cons na show ?case by auto
  qed simp
  note f = this [OF subset_refl, of "[]"]
  have "obj_get (attribToNum p) s = None" if "\<nexists>n a. (n, a) \<in> set (numToAttrib p) \<and> attribStr a = s"
    using that pool_wf_attrib [OF wf, of s] get by (cases "obj_get (attribToNum p) s") auto
  with f show ?thesis by (simp add: fromJsonable_def toJsonable_def)
qed

lemma json_getAttrib: "getAttrib (fromJsonable (toJsonable p)) n = getAttrib p n"
  by (simp add: getAttrib_def fromJsonable_def toJsonable_def)

lemma pool_json_wf: "pool_wf p \<Longrightarrow> pool_wf (fromJsonable (toJsonable p))"
proof -
  assume wf: "pool_wf p"
  have "nextNum (fromJsonable (toJsonable p)) = nextNum p"
    "numToAttrib (fromJsonable (toJsonable p)) = numToAttrib p"
    by (simp_all add: fromJsonable_def toJsonable_def)
  with wf show ?thesis unfolding pool_wf_def json_attribToNum [OF wf] json_getAttrib by simp
qed

text \<open>
  A pool survives \<open>toJsonable\<close> and \<open>fromJsonable\<close>: the pool read back is well formed, gives every number the
  same attribute, and finds or adds every attribute under the same number as the original.
\<close>

theorem pool_json_roundtrip:
  assumes "pool_wf p"
  shows "pool_wf (fromJsonable (toJsonable p)) \<and>
    getAttrib (fromJsonable (toJsonable p)) n = getAttrib p n \<and>
    fst (putAttrib a d (fromJsonable (toJsonable p))) = fst (putAttrib a d p)"
proof (intro conjI)
  have n: "nextNum (fromJsonable (toJsonable p)) = nextNum p"
    by (simp_all add: fromJsonable_def toJsonable_def)
  show "pool_wf (fromJsonable (toJsonable p))" by (rule pool_json_wf [OF assms])
  show "fst (putAttrib a d (fromJsonable (toJsonable p))) = fst (putAttrib a d p)"
    by (simp add: putAttrib_def json_attribToNum [OF assms] n(1) split: option.split)
qed (rule json_getAttrib)

theorem pool_json_roundtrip_witness:
  "fst (putAttrib (''b'', ''1'') False
     (fromJsonable (toJsonable (snd (putAttrib (''a'', ''1'') False AttribPool))))) = 1"
proof -
  have "pool_wf (snd (putAttrib (''a'', ''1'') False AttribPool))"
    using ap.put_wf [OF pool_wf_empty] by (metis prod.collapse)
  from pool_json_roundtrip [OF this, of 0 "(''b'', ''1'')" False] show ?thesis
    by (simp add: putAttrib_def AttribPool_def attribStr_def)
qed

text \<open>
  An attribute whose key has no comma is determined by its \<open>String(attrib)\<close>; a pool whose keys have none
  never confuses two attributes.
\<close>

definition plainKey :: "attrib \<Rightarrow> bool" where
  "plainKey a = (CHR 0x2C \<notin> set (fst a))"

definition plainPool :: "pool \<Rightarrow> bool" where
  "plainPool p = (\<forall>(_, a)\<in>set (numToAttrib p). plainKey a)"

lemma plain_append_inj:
  "x \<notin> set xs \<Longrightarrow> x \<notin> set xs' \<Longrightarrow> xs @ x # ys = xs' @ x # ys' \<Longrightarrow> xs = xs' \<and> ys = ys'"
  by (induction xs arbitrary: xs') (auto simp: Cons_eq_append_conv append_eq_Cons_conv)

lemma plainKey_inj: "plainKey a \<Longrightarrow> plainKey b \<Longrightarrow> attribStr a = attribStr b \<Longrightarrow> a = b"
  using plain_append_inj [of "CHR 0x2C" "fst a" "fst b" "snd a" "snd b"]
  by (cases a; cases b) (auto simp: attribStr_def plainKey_def)

lemma plainPool_get: "plainPool p \<Longrightarrow> getAttrib p n = Some a \<Longrightarrow> plainKey a"
  unfolding plainPool_def getAttrib_def obj_get_def by (auto dest!: map_of_SomeD)

lemma plain_put: "\<forall>(_, a)\<in>set ob. plainKey a \<Longrightarrow> plainKey a \<Longrightarrow> \<forall>(_, a)\<in>set (obj_put ob n a). plainKey a"
proof (induction ob)
  case (Cons x ob)
  then show ?case by (cases x) (auto simp: obj_put_def)
qed (simp add: obj_put_def)

lemma putAttrib_plain: "plainPool p \<Longrightarrow> plainKey a \<Longrightarrow> putAttrib a d p = (n, p') \<Longrightarrow> plainPool p'"
  using plain_put [of "numToAttrib p" a "nextNum p"]
  by (auto simp: putAttrib_def plainPool_def split: option.splits if_splits)

text \<open>
  C22. \<open>putAttrib\<close> on a well-formed pool: the pool stays well formed, the returned number reads back
  as an attribute with the same \<open>String(attrib)\<close>, which the pool compares by, and as the attribute
  itself when neither its key nor a key of the pool has a comma; an attribute the pool has keeps its
  number and the pool is not changed, one it does not have gets the next number; no number in use
  changes its meaning, and putting the same attribute again changes nothing.
\<close>

theorem putAttrib_laws:
  assumes "pool_wf p" and "putAttrib a False p = (n, p')"
  shows "pool_wf p' \<and> (\<exists>b. getAttrib p' n = Some b \<and> attribStr b = attribStr a) \<and>
    (plainPool p \<and> plainKey a \<longrightarrow> plainPool p' \<and> getAttrib p' n = Some a) \<and>
    (\<forall>m. getAttrib p m = Some a \<longrightarrow> n = m \<and> p' = p) \<and>
    ((\<forall>m b. getAttrib p m = Some b \<longrightarrow> attribStr b \<noteq> attribStr a) \<longrightarrow> n = nextNum p) \<and>
    (\<forall>m. getAttrib p m = None \<or> getAttrib p' m = getAttrib p m) \<and> putAttrib a False p' = (n, p')"
proof (intro conjI)
  from ap.put_get [OF assms] obtain b where b: "getAttrib p' n = Some b" "attribStr b = attribStr a"
    by blast
  then show "\<exists>b. getAttrib p' n = Some b \<and> attribStr b = attribStr a" by blast
  show "plainPool p \<and> plainKey a \<longrightarrow> plainPool p' \<and> getAttrib p' n = Some a"
    using b putAttrib_plain [OF _ _ assms(2)] plainPool_get plainKey_inj by metis
  show "\<forall>m. getAttrib p m = Some a \<longrightarrow> n = m \<and> p' = p"
    using ap.put_again [OF assms(1)] assms(2) by fastforce
  show "(\<forall>m b. getAttrib p m = Some b \<longrightarrow> attribStr b \<noteq> attribStr a) \<longrightarrow> n = nextNum p"
    using assms pool_wf_attrib [OF assms(1), of "attribStr a"]
    by (auto simp: putAttrib_def split: option.splits)
  show "\<forall>m. getAttrib p m = None \<or> getAttrib p' m = getAttrib p m"
    using ap.put_keeps [OF assms] by (metis not_None_eq)
qed (rule ap.put_wf [OF assms], rule ap.put_idem [OF assms])

theorem putAttrib_laws_witness:
  "getAttrib (snd (putAttrib (''b'', ''1'') False (snd (putAttrib (''a'', ''1'') False AttribPool)))) 0
     = Some (''a'', ''1'') \<and>
   getAttrib (snd (putAttrib (''b'', ''1'') False (snd (putAttrib (''a'', ''1'') False AttribPool)))) 1
     = Some (''b'', ''1'')"
proof -
  let ?p = "snd (putAttrib (''a'', ''1'') False AttribPool)"
  let ?q = "snd (putAttrib (''b'', ''1'') False ?p)"
  have wf: "pool_wf ?p" using ap.put_wf [OF pool_wf_empty] by (metis prod.collapse)
  have "putAttrib (''b'', ''1'') False ?p = (1, ?q)" "getAttrib ?p 0 = Some (''a'', ''1'')"
    "plainPool ?p" "plainKey (''b'', ''1'')" by code_simp+
  with putAttrib_laws [OF wf, of "(''b'', ''1'')" 1 ?q]
  have "getAttrib ?q 0 = getAttrib ?p 0" "getAttrib ?q 1 = Some (''b'', ''1'')" by (metis not_None_eq, blast)
  then show ?thesis by (simp only: \<open>getAttrib ?p 0 = Some _\<close>)
qed

end
