(* ===== verification/Assemblers.thy ===== *)
theory Assemblers
  imports AttribPools
begin

text \<open>
  \<open>mergingOpAssembler\<close> and \<open>smartOpAssembler\<close> of \<open>easysync2.js\<close>, as transformers of the records of
  the variables they close over, and what they print: the abstract reading of a sequence of
  operations is an edit script (one edit per character), on which merging is the identity and
  the smart assembler moves deletions before insertions and drops final plain keeps.
\<close>

subsection \<open>mergingOpAssembler\<close>

record mergeAssem =
  ma_assem :: opAssem
  ma_bufOp :: op
  ma_addl :: int  \<comment> \<open>\<open>bufOpAdditionalCharsAfterNewline\<close>\<close>

definition mergingOpAssembler :: mergeAssem where
  "mergingOpAssembler = \<lparr>ma_assem = opAssembler, ma_bufOp = newOp NoOp, ma_addl = 0\<rparr>"

definition ma_flush :: "bool \<Rightarrow> mergeAssem \<Rightarrow> mergeAssem" where
  "ma_flush isEndDocument m =
     (if opcode (ma_bufOp m) \<noteq> NoOp then
        (let m' =
           (if isEndDocument \<and> opcode (ma_bufOp m) = Keep \<and> attribs (ma_bufOp m) = '''' then m
            else
              (let m1 = m\<lparr>ma_assem := oa_append (ma_bufOp m) (ma_assem m)\<rparr>
               in if ma_addl m1 \<noteq> 0 then
                    (let b = (ma_bufOp m1)\<lparr>chars := ma_addl m1, lines := 0\<rparr>
                     in m1\<lparr>ma_bufOp := b, ma_assem := oa_append b (ma_assem m1), ma_addl := 0\<rparr>)
                  else m1))
         in m'\<lparr>ma_bufOp := (ma_bufOp m')\<lparr>opcode := NoOp\<rparr>\<rparr>)
      else m)"

definition ma_append :: "op \<Rightarrow> mergeAssem \<Rightarrow> mergeAssem" where
  "ma_append o1 m =
     (if 0 < chars o1 then
        (let b = ma_bufOp m in
         if opcode b = opcode o1 \<and> attribs b = attribs o1 then
           (if 0 < lines o1 then
              m\<lparr>ma_bufOp := b\<lparr>chars := chars b + (ma_addl m + chars o1), lines := lines b + lines o1\<rparr>,
                ma_addl := 0\<rparr>
            else if lines b = 0 then m\<lparr>ma_bufOp := b\<lparr>chars := chars b + chars o1\<rparr>\<rparr>
            else m\<lparr>ma_addl := ma_addl m + chars o1\<rparr>)
         else (let m' = ma_flush False m in m'\<lparr>ma_bufOp := copyOp o1 (ma_bufOp m')\<rparr>))
      else m)"

definition ma_endDocument :: "mergeAssem \<Rightarrow> mergeAssem" where
  "ma_endDocument m = ma_flush True m"

definition ma_toString :: "mergeAssem \<Rightarrow> string \<times> mergeAssem" where
  "ma_toString m = (let m' = ma_flush False m in (oa_toString (ma_assem m'), m'))"

definition ma_clear :: "mergeAssem \<Rightarrow> mergeAssem" where
  "ma_clear m = m\<lparr>ma_assem := oa_clear (ma_assem m), ma_bufOp := clearOp (ma_bufOp m)\<rparr>"

subsection \<open>stringAssembler\<close>

type_synonym stringAssem = "string list"

definition stringAssembler :: stringAssem where
  "stringAssembler = []"

definition sta_append :: "string \<Rightarrow> stringAssem \<Rightarrow> stringAssem" where
  "sta_append x pieces = pieces @ [x]"

definition sta_toString :: "stringAssem \<Rightarrow> string" where
  "sta_toString pieces = concat pieces"

lemma sta_toString_append [simp]: "sta_toString (sta_append x ps) = sta_toString ps @ x"
  by (simp add: sta_toString_def sta_append_def)

lemma sta_toString_init [simp]: "sta_toString stringAssembler = []"
  by (simp add: sta_toString_def stringAssembler_def)

subsection \<open>smartOpAssembler\<close>

record smartAssem =
  sa_minus :: mergeAssem
  sa_plus :: mergeAssem
  sa_keep :: mergeAssem
  sa_assem :: stringAssem
  sa_last :: opcode
  sa_lengthChange :: int

definition smartOpAssembler :: smartAssem where
  "smartOpAssembler = \<lparr>sa_minus = mergingOpAssembler, sa_plus = mergingOpAssembler,
     sa_keep = mergingOpAssembler, sa_assem = stringAssembler, sa_last = NoOp,
     sa_lengthChange = 0\<rparr>"

definition sa_flushKeeps :: "smartAssem \<Rightarrow> smartAssem" where
  "sa_flushKeeps s =
     (let (x, k) = ma_toString (sa_keep s)
      in s\<lparr>sa_assem := sta_append x (sa_assem s), sa_keep := ma_clear k\<rparr>)"

definition sa_flushPlusMinus :: "smartAssem \<Rightarrow> smartAssem" where
  "sa_flushPlusMinus s =
     (let (x, mi) = ma_toString (sa_minus s);
          (y, pl) = ma_toString (sa_plus s)
      in s\<lparr>sa_assem := sta_append y (sta_append x (sa_assem s)),
           sa_minus := ma_clear mi, sa_plus := ma_clear pl\<rparr>)"

definition sa_append :: "op \<Rightarrow> smartAssem \<Rightarrow> smartAssem" where
  "sa_append o1 s =
     (if opcode o1 = NoOp then s
      else if chars o1 = 0 then s
      else
        (case opcode o1 of
           Del \<Rightarrow>
             (let s1 = (if sa_last s = Keep then sa_flushKeeps s else s)
              in s1\<lparr>sa_minus := ma_append o1 (sa_minus s1),
                    sa_lengthChange := sa_lengthChange s1 - chars o1\<rparr>)
         | Ins \<Rightarrow>
             (let s1 = (if sa_last s = Keep then sa_flushKeeps s else s)
              in s1\<lparr>sa_plus := ma_append o1 (sa_plus s1),
                    sa_lengthChange := sa_lengthChange s1 + chars o1\<rparr>)
         | Keep \<Rightarrow>
             (let s1 = (if sa_last s \<noteq> Keep then sa_flushPlusMinus s else s)
              in s1\<lparr>sa_keep := ma_append o1 (sa_keep s1)\<rparr>)
         | NoOp \<Rightarrow> s)\<lparr>sa_last := opcode o1\<rparr>)"

definition sa_toString :: "smartAssem \<Rightarrow> string \<times> smartAssem" where
  "sa_toString s =
     (let s' = sa_flushKeeps (sa_flushPlusMinus s) in (sta_toString (sa_assem s'), s'))"

text \<open>
  \<open>clear\<close> ends in \<open>assem.clear()\<close>, but \<open>assem\<close> is a \<open>stringAssembler\<close>, an object with \<open>append\<close> and
  \<open>toString\<close> only: the call always throws, after the three merging assemblers were cleared.
\<close>

definition sa_clear :: "smartAssem \<Rightarrow> smartAssem res" where
  "sa_clear s =
     (let s' = s\<lparr>sa_minus := ma_clear (sa_minus s), sa_plus := ma_clear (sa_plus s),
                 sa_keep := ma_clear (sa_keep s)\<rparr>
      in Inl (TypeError ''assem.clear is not a function''))"

definition sa_endDocument :: "smartAssem \<Rightarrow> smartAssem" where
  "sa_endDocument s = s\<lparr>sa_keep := ma_endDocument (sa_keep s)\<rparr>"

definition sa_getLengthChange :: "smartAssem \<Rightarrow> int" where
  "sa_getLengthChange s = sa_lengthChange s"

subsection \<open>Edit scripts\<close>

text \<open>
  The abstract reading of operations over a concrete text: one edit for each character that is
  kept, deleted or inserted, with the attribute string of its operation.
\<close>

datatype edit = Edit (ed_op: opcode) (ed_att: string) (ed_char: char)

type_synonym script = "edit list"

text \<open>
  An operation covers a non-empty run of edits of its kind; \<open>lines\<close> counts the newlines of the
  run, and a run that has newlines ends in one.
\<close>

definition covers :: "op \<Rightarrow> script \<Rightarrow> bool" where
  "covers o1 es =
     (es \<noteq> [] \<and> opcode o1 \<noteq> NoOp \<and> chars o1 = int (length es) \<and>
      (\<forall>e \<in> set es. ed_op e = opcode o1 \<and> ed_att e = attribs o1) \<and>
      lines o1 = count_nl (map ed_char es) \<and>
      (0 < lines o1 \<longrightarrow> ed_char (last es) = nl))"

fun denotes :: "op list \<Rightarrow> script \<Rightarrow> bool" where
  "denotes [] es = (es = [])"
| "denotes (o1 # os) es =
     (covers o1 (take (nat (chars o1)) es) \<and> denotes os (drop (nat (chars o1)) es))"

text \<open>The operation that stands for a single edit.\<close>

definition unit_op :: "edit \<Rightarrow> op" where
  "unit_op e = \<lparr>opcode = ed_op e, chars = 1, lines = (if ed_char e = nl then 1 else 0),
     attribs = ed_att e\<rparr>"

definition script_ok :: "script \<Rightarrow> bool" where
  "script_ok es = list_all (\<lambda>e. ed_op e \<noteq> NoOp \<and> is_attribs (ed_att e)) es"

lemma coversD:
  assumes "covers o1 es"
  shows "0 < chars o1" "nat (chars o1) = length es" "opcode o1 \<noteq> NoOp" "0 \<le> lines o1"
  using assms count_nl_nonneg [of "map ed_char es"] by (auto simp: covers_def)

lemma denotes_Cons_append: "covers o1 xs \<Longrightarrow> denotes (o1 # os) (xs @ ys) = denotes os ys"
  by (simp add: coversD(2))

lemma denotes_ConsE:
  assumes "denotes (o1 # os) es"
  obtains xs ys where "es = xs @ ys" "covers o1 xs" "denotes os ys"
  using assms by (metis append_take_drop_id denotes.simps(2))

declare denotes.simps(2) [simp del]

lemma denotes_append:
  "denotes os es \<Longrightarrow> denotes ps fs \<Longrightarrow> denotes (os @ ps) (es @ fs)"
  by (induction os arbitrary: es) (auto simp: denotes_Cons_append elim!: denotes_ConsE)

lemma covers_unit: "ed_op e \<noteq> NoOp \<Longrightarrow> covers (unit_op e) [e]"
  by (simp add: covers_def unit_op_def)

lemma covers_single: "covers o1 [e] \<Longrightarrow> o1 = unit_op e"
proof -
  assume c: "covers o1 [e]"
  then have "lines o1 = count_nl (map ed_char [e])" unfolding covers_def by blast
  then have "lines o1 = (if ed_char e = nl then 1 else 0)" by simp
  moreover from c have "opcode o1 = ed_op e" "chars o1 = 1" "attribs o1 = ed_att e"
    by (simp_all add: covers_def)
  ultimately show "o1 = unit_op e"
    unfolding unit_op_def by (intro op.equality) simp_all
qed

lemma covers_lexable: "covers o1 es \<Longrightarrow> script_ok es \<Longrightarrow> lexable o1"
  using count_nl_nonneg [of "map ed_char es"]
  by (cases es) (auto simp: covers_def lexable_def script_ok_def simp del: count_nl_simps)

lemma denotes_lexable: "denotes os es \<Longrightarrow> script_ok es \<Longrightarrow> list_all lexable os"
proof (induction os arbitrary: es)
  case (Cons o1 os)
  from Cons.prems(1) obtain xs ys where "es = xs @ ys" "covers o1 xs" "denotes os ys"
    by (rule denotes_ConsE)
  with Cons show ?case by (auto simp: script_ok_def intro: covers_lexable)
qed simp

subsection \<open>Appending an operation is appending its edits\<close>

text \<open>
  A merging assembler does not see how its input was cut into operations: appending an operation
  leaves the same state as appending its edits one at a time. Two sequences of operations
  with the same script are therefore printed alike.
\<close>

definition ma_inv :: "mergeAssem \<Rightarrow> bool" where
  "ma_inv m = (0 \<le> lines (ma_bufOp m) \<and> 0 \<le> ma_addl m \<and>
     (opcode (ma_bufOp m) = NoOp \<longrightarrow> ma_addl m = 0) \<and>
     (lines (ma_bufOp m) = 0 \<longrightarrow> ma_addl m = 0))"

lemma ma_inv_init [simp]: "ma_inv mergingOpAssembler"
  by (simp add: ma_inv_def mergingOpAssembler_def newOp_def)

lemma ma_flush_False_inv: "ma_inv m \<Longrightarrow> ma_inv (ma_flush False m)"
  by (auto simp: ma_inv_def ma_flush_def Let_def)

lemma ma_flush_False_addl: "ma_inv m \<Longrightarrow> ma_addl (ma_flush False m) = 0"
  by (auto simp: ma_inv_def ma_flush_def Let_def)

lemma ma_append_inv:
  "ma_inv m \<Longrightarrow> 0 \<le> lines o1 \<Longrightarrow> opcode o1 \<noteq> NoOp \<Longrightarrow> ma_inv (ma_append o1 m)"
  using ma_flush_False_addl [of m] by (auto simp: ma_inv_def ma_append_def Let_def)

lemma ma_append_split:
  assumes cov: "covers o1 (e # es)" and es: "es \<noteq> []" and inv: "ma_inv m"
  shows "ma_append o1 m =
    ma_append (o1\<lparr>chars := chars o1 - 1, lines := lines o1 - (if ed_char e = nl then 1 else 0)\<rparr>)
      (ma_append (unit_op e) m)"
    and "covers (o1\<lparr>chars := chars o1 - 1, lines := lines o1 - (if ed_char e = nl then 1 else 0)\<rparr>) es"
proof -
  show "covers (o1\<lparr>chars := chars o1 - 1, lines := lines o1 - (if ed_char e = nl then 1 else 0)\<rparr>) es"
    using cov es by (auto simp: covers_def)
  let ?k = "if ed_char e = nl then 1 else 0 :: int"
  let ?o = "o1\<lparr>chars := chars o1 - 1, lines := lines o1 - ?k\<rparr>"
  have u: "unit_op e = o1\<lparr>chars := 1, lines := ?k\<rparr>"
    using cov by (simp add: unit_op_def covers_def)
  have n: "1 < chars o1" using cov es by (cases es) (auto simp: covers_def)
  have l: "lines o1 = ?k + count_nl (map ed_char es)" using cov by (simp add: covers_def)
  have "0 < lines o1 \<Longrightarrow> nl \<in> set (map ed_char es)"
    using cov es by (metis covers_def last_ConsR last_in_set last_map list.map_disc_iff)
  then have c: "0 < lines o1 \<Longrightarrow> 0 < lines ?o"
    using l by (simp add: count_nl_pos_iff)
  have c0: "lines o1 \<le> 0 \<Longrightarrow> lines o1 = 0 \<and> ?k = 0"
    using l count_nl_nonneg [of "map ed_char es"] by (cases "ed_char e = nl") auto
  have addl: "ma_addl (ma_flush False m) = 0" by (rule ma_flush_False_addl [OF inv])
  have nop: "opcode o1 \<noteq> NoOp" using cov by (simp add: covers_def)
  let ?b = "ma_bufOp m"
  show "ma_append o1 m = ma_append ?o (ma_append (unit_op e) m)"
  proof (cases "opcode ?b = opcode o1 \<and> attribs ?b = attribs o1")
    case True
    then show ?thesis
    proof (cases "0 < lines o1")
      case pos: True
      show ?thesis
        using n True pos c [OF pos] inv
        by (cases "ed_char e = nl") (auto simp: ma_append_def u Let_def ma_inv_def)
    next
      case False
      with n True c0 show ?thesis by (auto simp: ma_append_def u Let_def)
    qed
  next
    case False
    then have m1: "ma_append (unit_op e) m = (ma_flush False m)\<lparr>ma_bufOp := unit_op e\<rparr>"
      and m2: "ma_append o1 m = (ma_flush False m)\<lparr>ma_bufOp := o1\<rparr>"
      using n by (auto simp: ma_append_def u Let_def)
    show ?thesis
    proof (cases "0 < lines o1")
      case pos: True
      show ?thesis
        unfolding m1 m2 using n pos c [OF pos] addl
        by (auto simp: ma_append_def u Let_def)
    next
      case neg: False
      with n c0 show ?thesis unfolding m1 m2 by (auto simp: ma_append_def u Let_def)
    qed
  qed
qed

lemma ma_append_units:
  "covers o1 es \<Longrightarrow> ma_inv m \<Longrightarrow> ma_append o1 m = fold (\<lambda>e. ma_append (unit_op e)) es m"
proof (induction es arbitrary: o1 m)
  case Nil
  then show ?case by (simp add: covers_def)
next
  case (Cons e es)
  show ?case
  proof (cases "es = []")
    case True
    with Cons.prems(1) have "o1 = unit_op e" by (simp add: covers_single)
    with True show ?thesis by simp
  next
    case False
    note split = ma_append_split [OF Cons.prems(1) False Cons.prems(2)]
    have "ma_inv (ma_append (unit_op e) m)"
      using Cons.prems by (intro ma_append_inv) (simp_all add: unit_op_def covers_def)
    from Cons.IH [OF split(2) this] split(1) show ?thesis by (simp only: fold_simps o_apply)
  qed
qed

subsection \<open>What a merging assembler prints\<close>

definition pending :: "mergeAssem \<Rightarrow> op list" where
  "pending m =
     (if opcode (ma_bufOp m) = NoOp then []
      else ma_bufOp m # (if ma_addl m = 0 then []
                         else [(ma_bufOp m)\<lparr>chars := ma_addl m, lines := 0\<rparr>]))"

lemma denotes_single: "covers o1 es \<Longrightarrow> denotes [o1] es"
  using denotes_Cons_append [of o1 es "[]" "[]"] by (simp)

definition kind :: "edit \<Rightarrow> opcode \<times> string" where
  "kind e = (ed_op e, ed_att e)"

text \<open>
  The state after the edits \<open>es\<close>: what has been printed denotes a prefix \<open>xs\<close>, the buffered
  operation and the characters after its last newline the maximal last run \<open>ys\<close> of one kind.
\<close>

definition ma_rep :: "mergeAssem \<Rightarrow> script \<Rightarrow> bool" where
  "ma_rep m es =
     (ma_inv m \<and>
      (\<exists>outs xs ys. es = xs @ ys \<and> concat (ma_assem m) = encode outs \<and> denotes outs xs \<and>
        denotes (pending m) ys \<and> (ys = [] \<longrightarrow> xs = []) \<and>
        (xs \<noteq> [] \<longrightarrow> kind (last xs) \<noteq> (opcode (ma_bufOp m), attribs (ma_bufOp m)))))"

lemma ma_flush_pending:
  "ma_inv m \<Longrightarrow> concat (ma_assem (ma_flush False m)) = concat (ma_assem m) @ encode (pending m)"
  by (auto simp: ma_flush_def pending_def Let_def)

lemma ma_flush_NoOp: "opcode (ma_bufOp (ma_flush b m)) = NoOp"
  by (auto simp: ma_flush_def Let_def)

lemma denotes_Nil2: "denotes os [] \<Longrightarrow> os = []"
  by (cases os) (auto simp: covers_def denotes.simps(2))

lemma covers_snoc:
  "covers o1 es \<Longrightarrow> kind e = (opcode o1, attribs o1) \<Longrightarrow> ed_char e = nl
   \<Longrightarrow> covers (o1\<lparr>chars := chars o1 + 1, lines := lines o1 + 1\<rparr>) (es @ [e])"
  "covers o1 es \<Longrightarrow> kind e = (opcode o1, attribs o1) \<Longrightarrow> ed_char e \<noteq> nl \<Longrightarrow> lines o1 = 0
   \<Longrightarrow> covers (o1\<lparr>chars := chars o1 + 1\<rparr>) (es @ [e])"
  by (auto simp: covers_def kind_def)

lemma covers_join:
  assumes "covers o1 es" and "covers (o1\<lparr>chars := n, lines := 0\<rparr>) fs"
    and "kind e = (opcode o1, attribs o1)" and "ed_char e = nl"
  shows "covers (o1\<lparr>chars := chars o1 + n + 1, lines := lines o1 + 1\<rparr>) (es @ fs @ [e])"
  using assms by (auto simp: covers_def kind_def)

lemma ma_rep_append:
  assumes rep: "ma_rep m es" and e: "ed_op e \<noteq> NoOp"
  shows "ma_rep (ma_append (unit_op e) m) (es @ [e])"
proof -
  let ?m = "ma_append (unit_op e) m" and ?b = "ma_bufOp m"
  from rep have inv: "ma_inv m" by (simp add: ma_rep_def)
  have inv': "ma_inv ?m"
    using inv by (rule ma_append_inv) (simp_all add: unit_op_def e)
  from rep obtain outs xs ys where es: "es = xs @ ys" and out: "concat (ma_assem m) = encode outs"
    and xs: "denotes outs xs" and ys: "denotes (pending m) ys" and ysN: "ys = [] \<longrightarrow> xs = []"
    and lst: "xs \<noteq> [] \<longrightarrow> kind (last xs) \<noteq> (opcode ?b, attribs ?b)"
    unfolding ma_rep_def by blast
  show ?thesis
  proof (cases "kind e = (opcode ?b, attribs ?b)")
    case False
    then have m: "?m = (ma_flush False m)\<lparr>ma_bufOp := unit_op e\<rparr>"
      by (auto simp: ma_append_def unit_op_def kind_def Let_def)
    have p: "pending ?m = [unit_op e]"
      unfolding m using ma_flush_False_addl [OF inv] e by (simp add: pending_def unit_op_def)
    have pe: "denotes (pending ?m) [e]"
      unfolding p by (rule denotes_single [OF covers_unit [OF e]])
    have o': "concat (ma_assem ?m) = encode (outs @ pending m)"
      unfolding m using ma_flush_pending [OF inv] out by simp
    have d: "denotes (outs @ pending m) es" unfolding es by (rule denotes_append [OF xs ys])
    have "es \<noteq> [] \<longrightarrow> kind (last es) \<noteq> (opcode (ma_bufOp ?m), attribs (ma_bufOp ?m))"
    proof
      assume "es \<noteq> []"
      then have "ys \<noteq> []" using es ysN by auto
      then have "pending m \<noteq> []" using ys by auto
      then have "opcode ?b \<noteq> NoOp" by (auto simp: pending_def split: if_splits)
      have "\<forall>y\<in>set ys. kind y = (opcode ?b, attribs ?b)"
        using ys \<open>opcode ?b \<noteq> NoOp\<close>
        by (auto simp: pending_def kind_def covers_def
              split: if_splits elim!: denotes_ConsE)
      then have "kind (last es) = (opcode ?b, attribs ?b)" using \<open>ys \<noteq> []\<close> es by simp
      with False show "kind (last es) \<noteq> (opcode (ma_bufOp ?m), attribs (ma_bufOp ?m))"
        unfolding m by (auto simp: unit_op_def kind_def)
    qed
    with inv' o' d pe show ?thesis unfolding ma_rep_def by blast
  next
    case True
    then have b: "opcode ?b \<noteq> NoOp" using e by (simp add: kind_def)
    have same: "opcode ?b = ed_op e \<and> attribs ?b = ed_att e" using True by (simp add: kind_def)
    from ys b obtain y1 y2 where y: "ys = y1 @ y2" "covers ?b y1"
      and y2: "(ma_addl m = 0 \<and> y2 = []) \<or> (ma_addl m \<noteq> 0 \<and> covers (?b\<lparr>chars := ma_addl m, lines := 0\<rparr>) y2)"
      by (auto simp: pending_def split: if_splits elim!: denotes_ConsE)
    have keep: "ma_assem ?m = ma_assem m" "opcode (ma_bufOp ?m) = opcode ?b"
      "attribs (ma_bufOp ?m) = attribs ?b"
      using same by (auto simp: ma_append_def unit_op_def Let_def)
    have "denotes (pending ?m) (ys @ [e])"
    proof (cases "ed_char e = nl")
      case nlc: True
      have mm: "?m = m\<lparr>ma_bufOp := ?b\<lparr>chars := chars ?b + (ma_addl m + 1), lines := lines ?b + 1\<rparr>, ma_addl := 0\<rparr>"
        using same nlc by (simp add: ma_append_def unit_op_def Let_def)
      have "covers (?b\<lparr>chars := chars ?b + (ma_addl m + 1), lines := lines ?b + 1\<rparr>) (ys @ [e])"
        using y2 covers_snoc(1) [OF y(2) True nlc] covers_join [OF y(2) _ True nlc] y(1)
        by (auto simp: add.assoc)
      from denotes_single [OF this] show ?thesis
        unfolding mm using b by (simp add: pending_def)
    next
      case no: False
      show ?thesis
      proof (cases "lines ?b = 0")
        case l0: True
        have a0: "ma_addl m = 0" using inv l0 by (simp add: ma_inv_def)
        have mm: "?m = m\<lparr>ma_bufOp := ?b\<lparr>chars := chars ?b + 1\<rparr>\<rparr>"
          using same no l0 by (simp add: ma_append_def unit_op_def Let_def)
        have "covers (?b\<lparr>chars := chars ?b + 1\<rparr>) (ys @ [e])"
          using covers_snoc(2) [OF y(2) True no l0] y(1) y2 a0 by simp
        from denotes_single [OF this] show ?thesis
          unfolding mm using b a0 by (simp add: pending_def)
      next
        case l1: False
        have mm: "?m = m\<lparr>ma_addl := ma_addl m + 1\<rparr>"
          using same no l1 by (simp add: ma_append_def unit_op_def Let_def)
        have pos: "ma_addl m + 1 \<noteq> 0" using inv by (simp add: ma_inv_def)
        have "covers (?b\<lparr>chars := ma_addl m + 1, lines := 0\<rparr>) (y2 @ [e])"
          using y2 covers_snoc(2) [of "?b\<lparr>chars := ma_addl m, lines := 0\<rparr>" y2 e] True no b
          by (auto simp: covers_def kind_def)
        from denotes_single [OF this] denotes_Cons_append [OF y(2)] show ?thesis
          unfolding mm using b pos y(1) by (simp add: pending_def)
      qed
    qed
    then show ?thesis unfolding ma_rep_def using inv' es out xs lst keep
      by (intro conjI exI [of _ outs] exI [of _ xs] exI [of _ "ys @ [e]"]) auto
  qed
qed

definition ma_units :: "script \<Rightarrow> mergeAssem" where
  "ma_units es = fold (\<lambda>e. ma_append (unit_op e)) es mergingOpAssembler"

lemma ma_units_rep: "list_all (\<lambda>e. ed_op e \<noteq> NoOp) es \<Longrightarrow> ma_rep (ma_units es) es"
proof (induction es rule: rev_induct)
  case Nil
  have "ma_rep mergingOpAssembler []"
    by (simp add: ma_rep_def)
       (simp add: mergingOpAssembler_def opAssembler_def pending_def newOp_def exI [of _ "[]"])
  then show ?case by (simp add: ma_units_def)
next
  case (snoc e es)
  then show ?case using ma_rep_append [of "ma_units es" es e] by (simp add: ma_units_def)
qed

lemma ma_units_inv: "list_all (\<lambda>e. ed_op e \<noteq> NoOp) es \<Longrightarrow> ma_inv (ma_units es)"
  using ma_units_rep by (simp add: ma_rep_def)


definition ma_print :: "script \<Rightarrow> string" where
  "ma_print es = fst (ma_toString (ma_units es))"

definition ma_print_end :: "script \<Rightarrow> string" where
  "ma_print_end es = fst (ma_toString (ma_endDocument (ma_units es)))"

text \<open>\<open>endDocument\<close> drops the last run if it is a plain keep.\<close>

definition strip :: "script \<Rightarrow> script" where
  "strip es = rev (dropWhile (\<lambda>e. kind e = (Keep, '''')) (rev es))"

lemma ma_print_denotes:
  assumes "list_all (\<lambda>e. ed_op e \<noteq> NoOp) es"
  shows "\<exists>os. ma_print es = encode os \<and> denotes os es"
proof -
  from ma_units_rep [OF assms] obtain outs xs ys where
    "es = xs @ ys" "concat (ma_assem (ma_units es)) = encode outs" "denotes outs xs"
    "denotes (pending (ma_units es)) ys" and inv: "ma_inv (ma_units es)"
    unfolding ma_rep_def by blast
  then have "ma_print es = encode (outs @ pending (ma_units es)) \<and>
      denotes (outs @ pending (ma_units es)) es"
    using ma_flush_pending [OF inv]
    by (simp add: ma_print_def ma_toString_def Let_def oa_toString_def denotes_append)
  then show ?thesis by blast
qed

lemma ma_print_Nil [simp]: "ma_print [] = []" "ma_print_end [] = []"
  by (simp_all add: ma_print_def ma_print_end_def ma_units_def ma_toString_def ma_flush_def
      mergingOpAssembler_def newOp_def ma_endDocument_def opAssembler_def oa_toString_def)

lemma dropWhile_split:
  "(\<forall>y \<in> set ys. P y) \<Longrightarrow> (xs = [] \<or> \<not> P (last xs)) \<Longrightarrow> rev (dropWhile P (rev (xs @ ys))) = xs"
  by (cases xs rule: rev_cases) (auto simp: dropWhile_append3 dropWhile_append2)

lemma pending_kind:
  "denotes (pending m) ys \<Longrightarrow> e \<in> set ys \<Longrightarrow> kind e = (opcode (ma_bufOp m), attribs (ma_bufOp m))"
  by (auto simp: pending_def kind_def covers_def
        split: if_splits elim!: denotes_ConsE)

lemma ma_print_end_denotes:
  assumes ok: "list_all (\<lambda>e. ed_op e \<noteq> NoOp) es"
  shows "\<exists>os. ma_print_end es = encode os \<and> denotes os (strip es)"
proof -
  let ?m = "ma_units es"
  let ?plain = "opcode (ma_bufOp ?m) = Keep \<and> attribs (ma_bufOp ?m) = ''''"
  from ma_units_rep [OF ok] obtain outs xs ys where
    es: "es = xs @ ys" and out: "concat (ma_assem ?m) = encode outs" and xs: "denotes outs xs"
    and ys: "denotes (pending ?m) ys" and inv: "ma_inv ?m" and ysN: "ys = [] \<longrightarrow> xs = []"
    and lst: "xs \<noteq> [] \<longrightarrow> kind (last xs) \<noteq> (opcode (ma_bufOp ?m), attribs (ma_bufOp ?m))"
    unfolding ma_rep_def by blast
  note ykind = pending_kind [OF ys]
  show ?thesis
  proof (cases ?plain)
    case True
    then have "ma_endDocument ?m = ?m\<lparr>ma_bufOp := (ma_bufOp ?m)\<lparr>opcode := NoOp\<rparr>\<rparr>"
      by (simp add: ma_endDocument_def ma_flush_def Let_def)
    then have "ma_print_end es = encode outs"
      using out by (simp add: ma_print_end_def ma_toString_def ma_flush_def oa_toString_def)
    moreover have "strip es = xs"
      unfolding strip_def es using ykind lst True by (intro dropWhile_split) auto
    ultimately show ?thesis using xs by blast
  next
    case False
    then have "ma_endDocument ?m = ma_flush False ?m"
      by (auto simp: ma_endDocument_def ma_flush_def)
    moreover have "ma_flush False (ma_flush False ?m) = ma_flush False ?m"
      using ma_flush_NoOp [of False ?m] by (subst ma_flush_def) simp
    ultimately have "ma_print_end es = ma_print es"
      by (simp add: ma_print_end_def ma_print_def ma_toString_def)
    moreover have "strip es = es"
    proof (cases es rule: rev_cases)
      case (snoc zs z)
      then have "ys \<noteq> []" using ysN es by auto
      then have "z \<in> set ys" using snoc es by (cases ys rule: rev_cases) auto
      from ykind [OF this] False have "kind z \<noteq> (Keep, '''')" by auto
      then show ?thesis using snoc by (simp add: strip_def)
    qed (simp add: strip_def)
    ultimately show ?thesis using ma_print_denotes [OF ok] by simp
  qed
qed

lemma ma_clear_toString:
  assumes "ma_inv m"
  shows "ma_clear (snd (ma_toString m)) = mergingOpAssembler"
proof -
  have "ma_addl (ma_flush False m) = 0" by (rule ma_flush_False_addl [OF assms])
  then show ?thesis
    by (simp add: ma_toString_def Let_def ma_clear_def mergingOpAssembler_def oa_clear_def
        opAssembler_def clearOp_def newOp_def)
qed

lemma ma_units_append:
  "covers o1 xs \<Longrightarrow> list_all (\<lambda>e. ed_op e \<noteq> NoOp) es
   \<Longrightarrow> ma_append o1 (ma_units es) = ma_units (es @ xs)"
  by (drule ma_append_units [OF _ ma_units_inv]) (simp_all add: ma_units_def)

subsection \<open>What the smart assembler prints\<close>

text \<open>
  The smart assembler on edits: what has been printed, and the deletions, insertions and keeps
  that are buffered.
\<close>

type_synonym smart_state = "string \<times> script \<times> script \<times> script"

fun smart_step :: "edit \<Rightarrow> smart_state \<Rightarrow> smart_state" where
  "smart_step e (out, ds, ins, ks) =
     (case ed_op e of
        Del \<Rightarrow> (out @ ma_print ks, ds @ [e], ins, [])
      | Ins \<Rightarrow> (out @ ma_print ks, ds, ins @ [e], [])
      | Keep \<Rightarrow> (out @ ma_print ds @ ma_print ins, [], [], ks @ [e])
      | NoOp \<Rightarrow> (out, ds, ins, ks))"

definition smart_string :: "script \<Rightarrow> string" where
  "smart_string es =
     (let (out, ds, ins, ks) = fold smart_step es ([], [], [], [])
      in out @ ma_print ds @ ma_print ins @ ma_print_end ks)"

definition sa_rep :: "smartAssem \<Rightarrow> smart_state \<Rightarrow> bool" where
  "sa_rep s st =
     (let (out, ds, ins, ks) = st in
      sa_minus s = ma_units ds \<and> sa_plus s = ma_units ins \<and> sa_keep s = ma_units ks \<and>
      sta_toString (sa_assem s) = out \<and> (sa_last s = Keep) = (ks \<noteq> []) \<and>
      (ks \<noteq> [] \<longrightarrow> ds = [] \<and> ins = []) \<and>
      list_all (\<lambda>e. ed_op e \<noteq> NoOp) (ds @ ins @ ks))"

lemma sa_rep_init [simp]: "sa_rep smartOpAssembler ([], [], [], [])"
  by (simp add: sa_rep_def smartOpAssembler_def ma_units_def)

lemma smart_chunk:
  assumes "xs \<noteq> []"
  shows "\<forall>e\<in>set xs. ed_op e = Del \<Longrightarrow>
      fold smart_step xs (out, ds, ins, ks) = (out @ ma_print ks, ds @ xs, ins, [])"
    and "\<forall>e\<in>set xs. ed_op e = Ins \<Longrightarrow>
      fold smart_step xs (out, ds, ins, ks) = (out @ ma_print ks, ds, ins @ xs, [])"
    and "\<forall>e\<in>set xs. ed_op e = Keep \<Longrightarrow>
      fold smart_step xs (out, ds, ins, ks) = (out @ ma_print ds @ ma_print ins, [], [], ks @ xs)"
  using assms by (induction xs rule: rev_nonempty_induct) auto

lemma ma_units_Nil: "ma_units [] = mergingOpAssembler"
  by (simp add: ma_units_def)

lemma sa_flushKeeps_rep:
  "sa_keep s = ma_units ks \<Longrightarrow> ma_inv (ma_units ks) \<Longrightarrow>
   sa_flushKeeps s = s\<lparr>sa_assem := sta_append (ma_print ks) (sa_assem s), sa_keep := ma_units []\<rparr>"
  using ma_clear_toString [of "ma_units ks"]
  by (simp add: sa_flushKeeps_def ma_print_def ma_units_Nil case_prod_beta)

lemma sa_flushPlusMinus_rep:
  "sa_minus s = ma_units ds \<Longrightarrow> sa_plus s = ma_units ins \<Longrightarrow> ma_inv (ma_units ds)
   \<Longrightarrow> ma_inv (ma_units ins) \<Longrightarrow>
   sa_flushPlusMinus s =
     s\<lparr>sa_assem := sta_append (ma_print ins) (sta_append (ma_print ds) (sa_assem s)),
       sa_minus := ma_units [], sa_plus := ma_units []\<rparr>"
  using ma_clear_toString [of "ma_units ds"] ma_clear_toString [of "ma_units ins"]
  by (simp add: sa_flushPlusMinus_def ma_print_def ma_units_Nil case_prod_beta)

lemma sa_append_rep:
  assumes rep: "sa_rep s st" and cov: "covers o1 xs"
  shows "sa_rep (sa_append o1 s) (fold smart_step xs st)"
proof -
  obtain out ds ins ks where st: "st = (out, ds, ins, ks)" by (cases st)
  have ne: "xs \<noteq> []" "chars o1 \<noteq> 0" "opcode o1 \<noteq> NoOp"
    and k: "\<forall>e\<in>set xs. ed_op e = opcode o1" using cov by (auto simp: covers_def)
  from rep st have r: "sa_minus s = ma_units ds" "sa_plus s = ma_units ins"
    "sa_keep s = ma_units ks" "sta_toString (sa_assem s) = out"
    "(sa_last s = Keep) = (ks \<noteq> [])" "ks \<noteq> [] \<longrightarrow> ds = [] \<and> ins = []"
    and ok: "list_all (\<lambda>e. ed_op e \<noteq> NoOp) ds" "list_all (\<lambda>e. ed_op e \<noteq> NoOp) ins"
      "list_all (\<lambda>e. ed_op e \<noteq> NoOp) ks"
    by (auto simp: sa_rep_def)
  have okx: "list_all (\<lambda>e. ed_op e \<noteq> NoOp) xs" using k ne by (simp add: list_all_iff)
  note inv = ok [THEN ma_units_inv] and app = ok [THEN ma_units_append [OF cov]]
  have app0: "ma_append o1 (ma_units []) = ma_units xs"
    using ma_units_append [OF cov, of "[]"] by simp
  note fl = sa_flushKeeps_rep [OF r(3) inv(3)] sa_flushPlusMinus_rep [OF r(1,2) inv(1,2)]
  show ?thesis
  proof (cases "opcode o1")
    case NoOp
    with ne show ?thesis by simp
  next
    case Keep
    then have "fold smart_step xs st = (out @ ma_print ds @ ma_print ins, [], [], ks @ xs)"
      using smart_chunk(3) [OF ne(1)] k st by simp
    then show ?thesis
      using Keep ne r ok okx app app0 fl by (auto simp: sa_append_def sa_rep_def)
  next
    case Del
    then have "fold smart_step xs st = (out @ ma_print ks, ds @ xs, ins, [])"
      using smart_chunk(1) [OF ne(1)] k st by simp
    then show ?thesis
      using Del ne r ok okx app app0 fl
      by (cases "ks = []") (auto simp: sa_append_def sa_rep_def ma_units_Nil)
  next
    case Ins
    then have "fold smart_step xs st = (out @ ma_print ks, ds, ins @ xs, [])"
      using smart_chunk(2) [OF ne(1)] k st by simp
    then show ?thesis
      using Ins ne r ok okx app app0 fl
      by (cases "ks = []") (auto simp: sa_append_def sa_rep_def ma_units_Nil)
  qed
qed

definition smart_print :: "op list \<Rightarrow> string" where
  "smart_print os = fst (sa_toString (sa_endDocument (fold sa_append os smartOpAssembler)))"

text \<open>The script that the printed operations denote.\<close>

type_synonym norm_state = "script \<times> script \<times> script \<times> script"

fun norm_step :: "edit \<Rightarrow> norm_state \<Rightarrow> norm_state" where
  "norm_step e (sc, ds, ins, ks) =
     (case ed_op e of
        Del \<Rightarrow> (sc @ ks, ds @ [e], ins, [])
      | Ins \<Rightarrow> (sc @ ks, ds, ins @ [e], [])
      | Keep \<Rightarrow> (sc @ ds @ ins, [], [], ks @ [e])
      | NoOp \<Rightarrow> (sc, ds, ins, ks))"

definition smart_norm :: "script \<Rightarrow> script" where
  "smart_norm es =
     (let (sc, ds, ins, ks) = fold norm_step es ([], [], [], []) in sc @ ds @ ins @ strip ks)"

lemma fold_sa_append_rep:
  "denotes os es \<Longrightarrow> sa_rep s st \<Longrightarrow> sa_rep (fold sa_append os s) (fold smart_step es st)"
proof (induction os arbitrary: es s st)
  case (Cons o1 os)
  from Cons.prems(1) obtain xs ys where "es = xs @ ys" "covers o1 xs" "denotes os ys"
    by (rule denotes_ConsE)
  with Cons sa_append_rep show ?case by simp
qed simp

lemma ma_print_end_init: "ma_inv (ma_units ks) \<Longrightarrow>
  sa_keep s = ma_endDocument (ma_units ks) \<Longrightarrow>
  sta_toString (sa_assem (sa_flushKeeps s)) = sta_toString (sa_assem s) @ ma_print_end ks"
  by (simp add: sa_flushKeeps_def ma_print_end_def case_prod_beta)

lemma smart_print_string:
  assumes "denotes os es"
  shows "smart_print os = smart_string es"
proof -
  let ?s = "fold sa_append os smartOpAssembler"
  obtain out ds ins ks where st: "fold smart_step es ([], [], [], []) = (out, ds, ins, ks)"
    by (metis prod_cases4)
  from fold_sa_append_rep [OF assms sa_rep_init] have rep: "sa_rep ?s (out, ds, ins, ks)"
    by (simp add: st)
  let ?e = "sa_endDocument ?s"
  from rep have e: "sa_minus ?e = ma_units ds" "sa_plus ?e = ma_units ins"
    "sa_keep ?e = ma_endDocument (ma_units ks)" "sta_toString (sa_assem ?e) = out"
    and inv: "ma_inv (ma_units ds)" "ma_inv (ma_units ins)" "ma_inv (ma_units ks)"
    by (auto simp: sa_rep_def sa_endDocument_def intro: ma_units_inv)
  note fl = sa_flushPlusMinus_rep [OF e(1,2) inv(1,2)]
  have "sta_toString (sa_assem (sa_flushKeeps (sa_flushPlusMinus ?e))) =
      sta_toString (sa_assem (sa_flushPlusMinus ?e)) @ ma_print_end ks"
    by (rule ma_print_end_init [OF inv(3)]) (simp add: fl e(3))
  then show ?thesis
    by (simp add: smart_print_def sa_toString_def Let_def fl e(4) smart_string_def st)
qed

definition no_NoOp :: "script \<Rightarrow> bool" where
  "no_NoOp es = list_all (\<lambda>e. ed_op e \<noteq> NoOp) es"

lemma no_NoOp_simps [simp]:
  "no_NoOp []" "no_NoOp (e # es) = (ed_op e \<noteq> NoOp \<and> no_NoOp es)"
  "no_NoOp (es @ fs) = (no_NoOp es \<and> no_NoOp fs)"
  by (auto simp: no_NoOp_def)

lemma denotes_no_NoOp: "denotes os es \<Longrightarrow> no_NoOp es"
proof (induction os arbitrary: es)
  case (Cons o1 os)
  from Cons.prems obtain xs ys where "es = xs @ ys" "covers o1 xs" "denotes os ys"
    by (rule denotes_ConsE)
  with Cons.IH show ?case by (auto simp: no_NoOp_def list_all_iff covers_def)
qed simp

text \<open>The printed part and the script it denotes, step by step.\<close>

definition printed :: "string \<Rightarrow> script \<Rightarrow> bool" where
  "printed out sc = (\<exists>os. out = encode os \<and> denotes os sc)"

lemma printed_append: "printed a xs \<Longrightarrow> printed b ys \<Longrightarrow> printed (a @ b) (xs @ ys)"
  unfolding printed_def by (metis denotes_append encode_simps(3))

lemma printed_Nil [simp]: "printed [] []"
  by (auto simp: printed_def exI [of _ "[]"])

lemma printed_ma: "no_NoOp es \<Longrightarrow> printed (ma_print es) es"
  "no_NoOp es \<Longrightarrow> printed (ma_print_end es) (strip es)"
  using ma_print_denotes ma_print_end_denotes by (simp_all add: printed_def no_NoOp_def)

lemma smart_norm_printed:
  assumes "no_NoOp es"
  shows "\<exists>out sc ds ins ks. fold smart_step es ([], [], [], []) = (out, ds, ins, ks) \<and>
    fold norm_step es ([], [], [], []) = (sc, ds, ins, ks) \<and>
    printed out sc \<and> no_NoOp (ds @ ins @ ks)"
  using assms
proof (induction es rule: rev_induct)
  case Nil
  then show ?case by simp
next
  case (snoc e es)
  then obtain out sc ds ins ks where
    st: "fold smart_step es ([], [], [], []) = (out, ds, ins, ks)"
      "fold norm_step es ([], [], [], []) = (sc, ds, ins, ks)"
    and p: "printed out sc" and ok: "no_NoOp ds" "no_NoOp ins" "no_NoOp ks" by auto
  note pm = printed_append [OF p printed_append [OF ok(1,2) [THEN printed_ma(1)]]]
    and pk = printed_append [OF p printed_ma(1) [OF ok(3)]]
  show ?case
    using snoc.prems st pm pk ok by (cases "ed_op e") (simp_all)
qed

lemma smart_string_denotes:
  assumes "no_NoOp es"
  shows "\<exists>os. smart_string es = encode os \<and> denotes os (smart_norm es)"
proof -
  from smart_norm_printed [OF assms] obtain out sc ds ins ks where
    st: "fold smart_step es ([], [], [], []) = (out, ds, ins, ks)"
      "fold norm_step es ([], [], [], []) = (sc, ds, ins, ks)"
    and p: "printed out sc" and ok: "no_NoOp ds" "no_NoOp ins" "no_NoOp ks" by auto
  have "printed (out @ ma_print ds @ ma_print ins @ ma_print_end ks) (sc @ ds @ ins @ strip ks)"
    by (intro printed_append p printed_ma ok)
  then show ?thesis by (simp add: smart_string_def smart_norm_def st printed_def)
qed

subsection \<open>Source, target and inserted text of a script\<close>

definition src :: "script \<Rightarrow> string" where
  "src es = map ed_char (filter (\<lambda>e. ed_op e \<noteq> Ins) es)"

definition dst :: "script \<Rightarrow> string" where
  "dst es = map ed_char (filter (\<lambda>e. ed_op e \<noteq> Del) es)"

definition inserted :: "script \<Rightarrow> string" where
  "inserted es = map ed_char (filter (\<lambda>e. ed_op e = Ins) es)"

lemma script_append [simp]:
  "src (es @ fs) = src es @ src fs" "dst (es @ fs) = dst es @ dst fs"
  "inserted (es @ fs) = inserted es @ inserted fs"
  by (simp_all add: src_def dst_def inserted_def)

lemma script_Nil [simp]: "src [] = []" "dst [] = []" "inserted [] = []"
  by (simp_all add: src_def dst_def inserted_def)

lemma script_Cons [simp]:
  "src (e # es) = (if ed_op e = Ins then src es else ed_char e # src es)"
  "dst (e # es) = (if ed_op e = Del then dst es else ed_char e # dst es)"
  "inserted (e # es) = (if ed_op e = Ins then ed_char e # inserted es else inserted es)"
  by (simp_all add: src_def dst_def inserted_def)

lemma norm_step_inv:
  assumes "no_NoOp es"
  shows "\<exists>sc ds ins ks. fold norm_step es ([], [], [], []) = (sc, ds, ins, ks) \<and>
    src es = src (sc @ ds @ ins @ ks) \<and> dst es = dst (sc @ ds @ ins @ ks) \<and>
    inserted es = inserted (sc @ ds @ ins @ ks) \<and>
    list_all (\<lambda>e. ed_op e = Del) ds \<and> list_all (\<lambda>e. ed_op e = Ins) ins \<and>
    list_all (\<lambda>e. ed_op e = Keep) ks \<and> (ks \<noteq> [] \<longrightarrow> ds = [] \<and> ins = []) \<and>
    set (sc @ ds @ ins @ ks) = set es"
  using assms
proof (induction es rule: rev_induct)
  case (snoc e es)
  have del: "\<And>xs. list_all (\<lambda>e. ed_op e = Del) xs \<Longrightarrow> dst xs = [] \<and> inserted xs = []"
    and ins: "\<And>xs. list_all (\<lambda>e. ed_op e = Ins) xs \<Longrightarrow> src xs = []"
    by (auto simp: dst_def src_def inserted_def list_all_iff filter_empty_conv)
  from snoc show ?case
    by (cases "ed_op e") (auto simp: del ins)
qed simp

end
