(* ===== verification/NormalForm.thy ===== *)
theory NormalForm
  imports Assemblers
begin

text \<open>
  The normal form of changesets: what \<open>smartOpAssembler\<close> prints is a function of the edit script
  alone, it keeps the source, the target and the inserted text of the script, and assembling a
  normal form again prints the same string.
\<close>

subsection \<open>Final keeps\<close>

lemma strip_split: "\<exists>rest. es = strip es @ rest \<and> (\<forall>e\<in>set rest. kind e = (Keep, ''''))"
proof -
  let ?P = "\<lambda>e. kind e = (Keep, '''')"
  have "rev es = takeWhile ?P (rev es) @ dropWhile ?P (rev es)" by simp
  then have "es = strip es @ rev (takeWhile ?P (rev es))"
    unfolding strip_def by (metis rev_append rev_rev_ident)
  then show ?thesis by (auto intro!: exI [of _ "rev (takeWhile ?P (rev es))"] dest: set_takeWhileD)
qed

lemma strip_last: "strip es \<noteq> [] \<Longrightarrow> kind (last (strip es)) \<noteq> (Keep, '''')"
  unfolding strip_def
  using hd_dropWhile [of "\<lambda>e. kind e = (Keep, '''')" "rev es"] by (simp add: last_rev)

text \<open>Source, target and insertions of a script are those of its normal form and a kept tail.\<close>

lemma smart_norm_text:
  assumes "no_NoOp es"
  shows "\<exists>rest. src es = src (smart_norm es) @ rest \<and> dst es = dst (smart_norm es) @ rest \<and>
    inserted (smart_norm es) = inserted es \<and> set (smart_norm es) \<subseteq> set es"
proof -
  from norm_step_inv [OF assms] obtain sc ds ins ks where
    st: "fold norm_step es ([], [], [], []) = (sc, ds, ins, ks)"
    and eqs: "src es = src (sc @ ds @ ins @ ks)" "dst es = dst (sc @ ds @ ins @ ks)"
      "inserted es = inserted (sc @ ds @ ins @ ks)"
    and st2: "set (sc @ ds @ ins @ ks) = set es" by blast
  obtain rest where rest: "ks = strip ks @ rest" "\<forall>e\<in>set rest. kind e = (Keep, '''')"
    using strip_split by blast
  then have k: "\<forall>e\<in>set rest. ed_op e = Keep" by (simp add: kind_def)
  have t: "src rest = map ed_char rest" "dst rest = map ed_char rest" "inserted rest = []"
    using k by (auto simp: src_def dst_def inserted_def filter_empty_conv intro!: arg_cong [of _ _ "map ed_char"])
  have "smart_norm es = sc @ ds @ ins @ strip ks" by (simp add: smart_norm_def st)
  moreover have "set (strip ks) \<subseteq> set ks" by (auto simp: strip_def dest: set_dropWhileD)
  moreover have "src ks = src (strip ks) @ map ed_char rest" "dst ks = dst (strip ks) @ map ed_char rest"
    "inserted ks = inserted (strip ks)"
    by (subst rest(1), simp add: t)+
  ultimately show ?thesis using eqs st2 by (intro exI [of _ "map ed_char rest"]) auto
qed

lemma ma_buf_kind:
  assumes "no_NoOp es" and "es \<noteq> []"
  shows "(opcode (ma_bufOp (ma_units es)), attribs (ma_bufOp (ma_units es))) = kind (last es)"
proof -
  from ma_units_rep assms(1) obtain xs ys where
    es: "es = xs @ ys" and ys: "denotes (pending (ma_units es)) ys" and ne: "ys = [] \<longrightarrow> xs = []"
    unfolding ma_rep_def no_NoOp_def by blast
  from ne assms(2) es have "ys \<noteq> []" by auto
  then have "last es \<in> set ys" using es by simp
  from pending_kind [OF ys this] show ?thesis by simp
qed

lemma ma_plain_tail:
  assumes "rest \<noteq> []" and "\<forall>e\<in>set rest. kind e = (Keep, '''')"
    and "(opcode (ma_bufOp m), attribs (ma_bufOp m)) \<noteq> (Keep, '''')"
  shows "ma_assem (fold (\<lambda>e. ma_append (unit_op e)) rest m) = ma_assem (ma_flush False m) \<and>
    opcode (ma_bufOp (fold (\<lambda>e. ma_append (unit_op e)) rest m)) = Keep \<and>
    attribs (ma_bufOp (fold (\<lambda>e. ma_append (unit_op e)) rest m)) = ''''"
  using assms(1,2)
proof (induction rest rule: rev_nonempty_induct)
  case (single e)
  then show ?case
    using assms(3) by (auto simp: ma_append_def unit_op_def kind_def Let_def)
next
  case (snoc e es)
  then show ?case by (auto simp: ma_append_def unit_op_def kind_def Let_def)
qed

lemma ma_print_end_strip:
  assumes "no_NoOp es"
  shows "ma_print_end es = ma_print (strip es)"
proof -
  obtain rest where rest: "es = strip es @ rest" "\<forall>e\<in>set rest. kind e = (Keep, '''')"
    using strip_split by blast
  have ok: "no_NoOp (strip es)" using assms rest(1) by (metis no_NoOp_simps(3))
  let ?m = "ma_units (strip es)"
  have buf: "(opcode (ma_bufOp ?m), attribs (ma_bufOp ?m)) \<noteq> (Keep, '''')"
  proof (cases "strip es = []")
    case True
    then show ?thesis by (simp add: ma_units_Nil mergingOpAssembler_def newOp_def)
  next
    case False
    from ma_buf_kind [OF ok False] strip_last [OF False] show ?thesis by simp
  qed
  have u: "ma_units es = fold (\<lambda>e. ma_append (unit_op e)) rest ?m"
    by (subst rest(1)) (simp add: ma_units_def)
  show ?thesis
  proof (cases "rest = []")
    case True
    then have "ma_endDocument (ma_units es) = ma_flush False ?m"
      using u buf by (auto simp: ma_endDocument_def ma_flush_def)
    moreover have "ma_flush False (ma_flush False ?m) = ma_flush False ?m"
      using ma_flush_NoOp [of False ?m] by (subst ma_flush_def) simp
    ultimately show ?thesis by (simp add: ma_print_end_def ma_print_def ma_toString_def)
  next
    case False
    from ma_plain_tail [OF this rest(2) buf] show ?thesis
      unfolding ma_print_end_def ma_print_def u
      by (simp add: ma_endDocument_def ma_toString_def ma_flush_def [of True] Let_def)
         (simp add: ma_flush_def)
  qed
qed

lemma strip_strip: "strip (strip es) = strip es"
  by (simp add: strip_def)

definition flushed :: "smart_state \<Rightarrow> string" where
  "flushed st = (let (out, ds, ins, ks) = st in out @ ma_print ds @ ma_print ins @ ma_print ks)"

lemma smart_renorm:
  assumes "no_NoOp es"
  shows "\<exists>out sc ds ins ks out' ds' ins' ks'.
    fold smart_step es ([], [], [], []) = (out, ds, ins, ks) \<and>
    fold norm_step es ([], [], [], []) = (sc, ds, ins, ks) \<and>
    fold smart_step sc ([], [], [], []) = (out', ds', ins', ks') \<and>
    flushed (out', ds', ins', ks') = out \<and>
    (ks \<noteq> [] \<longrightarrow> ks' = [] \<and> ds = [] \<and> ins = []) \<and> (ks = [] \<longrightarrow> ds' = [] \<and> ins' = []) \<and>
    fold smart_step (sc @ ds @ ins @ ks) ([], [], [], []) = (out, ds, ins, ks) \<and>
    list_all (\<lambda>e. ed_op e = Del) ds \<and> list_all (\<lambda>e. ed_op e = Ins) ins \<and>
    list_all (\<lambda>e. ed_op e = Keep) ks"
  using assms
proof (induction es rule: rev_induct)
  case Nil
  then show ?case by (simp add: flushed_def)
next
  case (snoc e es)
  then have "no_NoOp es" by simp
  from snoc.IH [OF this] obtain out sc ds ins ks out' ds' ins' ks' where
    st: "fold smart_step es ([], [], [], []) = (out, ds, ins, ks)"
      "fold norm_step es ([], [], [], []) = (sc, ds, ins, ks)"
      "fold smart_step sc ([], [], [], []) = (out', ds', ins', ks')"
      "flushed (out', ds', ins', ks') = out"
    and k1: "ks \<noteq> [] \<longrightarrow> ks' = [] \<and> ds = [] \<and> ins = []" and k0: "ks = [] \<longrightarrow> ds' = [] \<and> ins' = []"
    and f: "fold smart_step (sc @ ds @ ins @ ks) ([], [], [], []) = (out, ds, ins, ks)"
    and all: "list_all (\<lambda>e. ed_op e = Del) ds" "list_all (\<lambda>e. ed_op e = Ins) ins"
      "list_all (\<lambda>e. ed_op e = Keep) ks"
    by blast
  have chD: "fold smart_step (ds @ [e]) (out', [], [], ks') = (out' @ ma_print ks', ds @ [e], [], [])"
    if "ed_op e = Del" using smart_chunk(1) [of "ds @ [e]"] that all by (auto simp: list_all_iff)
  have chI: "ins \<noteq> [] \<Longrightarrow> fold smart_step ins (o2, d2, [], []) = (o2, d2, ins, [])" for o2 d2
    using smart_chunk(2) [of ins o2 d2 "[]" "[]"] all by (auto simp: list_all_iff)
  show ?case
  proof (cases "ed_op e")
    case Del
    show ?thesis
    proof (cases "ks = []")
      case True
      then have "fold smart_step (sc @ (ds @ [e]) @ ins) ([], [], [], []) = (out, ds @ [e], ins, [])"
        using st(3,4) k0 chD [OF Del] chI by (cases "ins = []") (auto simp: flushed_def)
      with Del True st k0 all show ?thesis by simp
    next
      case False
      with Del st k1 f all show ?thesis by (simp add: flushed_def)
    qed
  next
    case Ins
    show ?thesis
    proof (cases "ks = []")
      case True
      with Ins st f k0 all show ?thesis by simp
    next
      case False
      with Ins st k1 f all show ?thesis by (simp add: flushed_def)
    qed
  next
    case Keep
    show ?thesis
    proof (cases "ks = []")
      case True
      with Keep st f k0 all show ?thesis by (simp add: flushed_def)
    next
      case False
      with Keep st k1 f all show ?thesis by (simp add: flushed_def)
    qed
  next
    case NoOp
    with snoc.prems show ?thesis by simp
  qed
qed

text \<open>Assembling a normal form again prints the same string.\<close>

lemma smart_string_idem:
  assumes "no_NoOp es"
  shows "smart_string (smart_norm es) = smart_string es"
proof -
  from smart_renorm [OF assms] obtain out sc ds ins ks out' ds' ins' ks' where
    st: "fold smart_step es ([], [], [], []) = (out, ds, ins, ks)"
      "fold norm_step es ([], [], [], []) = (sc, ds, ins, ks)"
      "fold smart_step sc ([], [], [], []) = (out', ds', ins', ks')"
      "flushed (out', ds', ins', ks') = out"
    and k1: "ks \<noteq> [] \<longrightarrow> ks' = [] \<and> ds = [] \<and> ins = []"
    and f: "fold smart_step (sc @ ds @ ins @ ks) ([], [], [], []) = (out, ds, ins, ks)"
    and kk: "list_all (\<lambda>e. ed_op e = Keep) ks"
    by blast
  have okk: "no_NoOp ks" using kk by (auto simp: no_NoOp_def list_all_iff)
  have n: "smart_norm es = sc @ ds @ ins @ strip ks" by (simp add: smart_norm_def st)
  have e: "ma_print_end ks = ma_print (strip ks)" by (rule ma_print_end_strip [OF okk])
  show ?thesis
  proof (cases "strip ks = []")
    case True
    show ?thesis
    proof (cases "ks = []")
      case True
      with n f st e show ?thesis by (simp add: smart_string_def strip_def)
    next
      case False
      with True n st k1 e show ?thesis by (simp add: smart_string_def flushed_def)
    qed
  next
    case False
    then have ks: "ks \<noteq> []" by (auto simp: strip_def)
    have "\<forall>e\<in>set (strip ks). ed_op e = Keep"
      using kk by (auto simp: strip_def list_all_iff dest: set_dropWhileD)
    then have "fold smart_step (strip ks) (out', ds', ins', []) = (out, [], [], strip ks)"
      using smart_chunk(3) [OF False] st(4) k1 ks by (simp add: flushed_def)
    moreover have "ma_print_end (strip ks) = ma_print (strip ks)"
    proof -
      have "no_NoOp (strip ks)"
        using \<open>\<forall>e\<in>set (strip ks). ed_op e = Keep\<close> by (auto simp: no_NoOp_def list_all_iff)
      from ma_print_end_strip [OF this] show ?thesis by (simp add: strip_strip)
    qed
    ultimately show ?thesis using n st k1 ks e by (simp add: smart_string_def)
  qed
qed

end
