(* ===== verification/Texts.thy ===== *)
theory Texts
  imports NormalForm
begin

text \<open>
  Packed changesets and their application to a text (\<open>easysync2.js\<close>): \<open>stringIterator\<close>,
  \<open>unpack\<close> and \<open>pack\<close>, \<open>applyToText\<close>, \<open>checkRep\<close>, \<open>toSplices\<close> and the small operations on packed
  changesets, with the reading of a changeset as an edit script on the text it applies to.
\<close>

subsection \<open>stringIterator\<close>

record strIter =
  si_str :: string
  si_cur :: int

definition stringIterator :: "string \<Rightarrow> strIter" where
  "stringIterator s = \<lparr>si_str = s, si_cur = 0\<rparr>"

definition si_remaining :: "strIter \<Rightarrow> int" where
  "si_remaining it = int (length (si_str it)) - si_cur it"

definition si_assertRemaining :: "int \<Rightarrow> strIter \<Rightarrow> unit res" where
  "si_assertRemaining n it = assertE (n \<le> si_remaining it) ''!(n <= remaining)''"

definition si_take :: "int \<Rightarrow> strIter \<Rightarrow> (string \<times> strIter) res" where
  "si_take n it = bindE (si_assertRemaining n it) (\<lambda>_.
     Inr (js_substr (si_str it) (si_cur it) n, it\<lparr>si_cur := si_cur it + n\<rparr>))"

definition si_peek :: "int \<Rightarrow> strIter \<Rightarrow> string res" where
  "si_peek n it = bindE (si_assertRemaining n it) (\<lambda>_. Inr (js_substr (si_str it) (si_cur it) n))"

definition si_skip :: "int \<Rightarrow> strIter \<Rightarrow> strIter res" where
  "si_skip n it = bindE (si_assertRemaining n it) (\<lambda>_. Inr (it\<lparr>si_cur := si_cur it + n\<rparr>))"

text \<open>An iterator that has the string \<open>s\<close> ahead of it.\<close>

definition si_ahead :: "strIter \<Rightarrow> string \<Rightarrow> bool" where
  "si_ahead it s = (0 \<le> si_cur it \<and> drop (nat (si_cur it)) (si_str it) = s \<and>
     si_cur it \<le> int (length (si_str it)))"

lemma si_ahead_init [simp]: "si_ahead (stringIterator s) s"
  by (simp add: si_ahead_def stringIterator_def)

lemma si_ahead_remaining: "si_ahead it s \<Longrightarrow> si_remaining it = int (length s)"
  by (auto simp: si_ahead_def si_remaining_def)

lemma si_ahead_step:
  assumes "si_ahead it (x @ s)" and "n = int (length x)"
  shows "\<exists>it'. si_take n it = Inr (x, it') \<and> si_skip n it = Inr it' \<and> si_ahead it' s"
proof -
  have "si_ahead (it\<lparr>si_cur := si_cur it + n\<rparr>) s"
    using assms si_ahead_remaining [OF assms(1)]
    by (auto simp: si_ahead_def si_remaining_def nat_add_distrib add.commute simp flip: drop_drop)
  moreover have "js_substr (si_str it) (si_cur it) n = x"
    using assms by (simp add: si_ahead_def js_substr_nonneg)
  ultimately show ?thesis
    using assms si_ahead_remaining [OF assms(1)]
    by (simp add: si_take_def si_skip_def si_assertRemaining_def)
qed

lemma si_ahead_peek: "si_ahead it (x @ s) \<Longrightarrow> n = int (length x) \<Longrightarrow> si_peek n it = Inr x"
  using si_ahead_remaining [of it "x @ s"]
  by (simp add: si_peek_def si_assertRemaining_def si_ahead_def js_substr_nonneg)

subsection \<open>Packed changesets\<close>

record unpacked =
  up_oldLen :: int
  up_newLen :: int
  up_ops :: string
  up_charBank :: string

text \<open>
  The header expression \<^verbatim>\<open>/Z:([0-9a-z]+)([><])([0-9a-z]+)|/\<close>: its empty alternative matches at
  the start of every string, so a header anywhere else is not found.
\<close>

definition lex_header :: "string \<Rightarrow> (string \<times> char \<times> string \<times> string) option" where
  "lex_header s =
     (if take 2 s = ''Z:'' then
        (let d1 = takeWhile is_alnum (drop 2 s); r = dropWhile is_alnum (drop 2 s)
         in case r of
              [] \<Rightarrow> None
            | c # r' \<Rightarrow>
                (let d2 = takeWhile is_alnum r'
                 in if d1 \<noteq> [] \<and> c \<in> set ''><'' \<and> d2 \<noteq> []
                    then Some (d1, c, d2, dropWhile is_alnum r') else None))
      else None)"

definition unpack :: "string \<Rightarrow> unpacked res" where
  "unpack cs =
     (case lex_header cs of
        None \<Rightarrow> Inl (Easysync ''Not a changeset'')
      | Some (d1, c, d2, rest) \<Rightarrow>
          (let oldLen = parseNum d1;
               changeSign = (if c = CHR ''>'' then 1 else - 1);
               changeMag = parseNum d2;
               newLen = oldLen + changeSign * changeMag;
               opsStart = int (length cs) - int (length rest);
               opsEnd0 = js_indexOf cs ''$'' 0;
               opsEnd = (if opsEnd0 < 0 then int (length cs) else opsEnd0)
           in Inr \<lparr>up_oldLen = oldLen, up_newLen = newLen,
                   up_ops = js_substring cs opsStart opsEnd,
                   up_charBank = js_from cs (opsEnd + 1)\<rparr>))"

definition pack :: "int \<Rightarrow> int \<Rightarrow> string \<Rightarrow> string \<Rightarrow> string" where
  "pack oldLen newLen opsStr bank =
     (let lenDiff = newLen - oldLen;
          lenDiffStr = (if 0 \<le> lenDiff then ''>'' @ numToString lenDiff
                        else ''<'' @ numToString (- lenDiff))
      in concat [''Z:'', numToString oldLen, lenDiffStr, opsStr, ''$'', bank])"

definition oldLen :: "string \<Rightarrow> int res" where
  "oldLen cs = bindE (unpack cs) (\<lambda>u. Inr (up_oldLen u))"

definition newLen :: "string \<Rightarrow> int res" where
  "newLen cs = bindE (unpack cs) (\<lambda>u. Inr (up_newLen u))"

definition identity :: "int \<Rightarrow> string" where
  "identity n = pack n n '''' ''''"

definition isIdentity :: "string \<Rightarrow> bool res" where
  "isIdentity cs = bindE (unpack cs) (\<lambda>u. Inr (up_ops u = '''' \<and> up_oldLen u = up_newLen u))"

lemma alnum_no_dollar: "list_all is_alnum s \<Longrightarrow> CHR ''$'' \<notin> set s"
  using is_alnum_syntax(6) by (metis list_all_iff)

lemma unpack_pack:
  assumes n: "0 \<le> n" and ops: "op_start ops" "CHR ''$'' \<notin> set ops"
  shows "unpack (pack n m ops bank) =
    Inr \<lparr>up_oldLen = n, up_newLen = m, up_ops = ops, up_charBank = bank\<rparr>"
proof -
  let ?d = "m - n"
  let ?c = "if 0 \<le> ?d then CHR ''>'' else CHR ''<''" and ?mag = "numToString \<bar>?d\<bar>"
  let ?tail = "ops @ CHR ''$'' # bank"
  let ?h = "''Z:'' @ numToString n @ ?c # ?mag"
  have p: "pack n m ops bank = ?h @ ?tail" by (simp add: pack_def Let_def)
  note num = numToString_alnum [OF n] and mag = numToString_alnum [of "\<bar>?d\<bar>"]
  have st: "stops (?c # ?mag @ ?tail)" "stops ?tail"
    using ops(1) by (auto simp: stops_def op_start_def split: list.splits)
  have lex: "lex_header (pack n m ops bank) = Some (numToString n, ?c, ?mag, ?tail)"
    unfolding p lex_header_def using num mag st
    by (cases "n \<le> m") (simp_all add: Let_def takeWhile_alnum_append dropWhile_alnum_append)
  have "CHR ''$'' \<notin> set ?h"
    using num mag alnum_no_dollar by auto
  then have nod: "CHR ''$'' \<notin> set (?h @ ops)" using ops(2) by simp
  have "pack n m ops bank = (?h @ ops) @ CHR ''$'' # bank" by (simp add: p)
  then have idx: "js_indexOf (pack n m ops bank) ''$'' 0 = int (length (?h @ ops))"
    using nod by (simp add: js_indexOf_def del: append_assoc)
  have start: "int (length (pack n m ops bank)) - int (length ?tail) = int (length ?h)"
    by (simp add: p)
  have sub: "js_substring (pack n m ops bank) (int (length ?h)) (int (length (?h @ ops))) = ops"
    unfolding p by (rule js_substring_append)
  have bank: "js_from (pack n m ops bank) (int (length (?h @ ops)) + 1) = bank"
    using js_from_append [of "(?h @ ops) @ ''$''" bank] by (simp add: p)
  have sign: "parseNum (numToString n) + (if ?c = CHR ''>'' then 1 else - 1) * parseNum ?mag = m"
    using n by simp
  show ?thesis
    unfolding unpack_def lex option.case prod.case Let_def idx start
    using sub bank sign n by simp
qed

lemma lex_stars_chars: "c \<in> set (fst (lex_stars s)) \<Longrightarrow> is_alnum c \<or> c = CHR ''*''"
  by (induction s rule: lex_stars.induct)
     (auto simp: case_prod_beta Let_def dest: set_takeWhileD split: if_splits)

lemma lexable_no_dollar: "lexable o1 \<Longrightarrow> CHR ''$'' \<notin> set (opStr o1)"
  using lex_stars_chars [of "CHR ''$''" "attribs o1"] numToString_alnum [of "chars o1"]
    numToString_alnum [of "lines o1"] opcodeStr_char [of o1] alnum_no_dollar
  by (auto simp: lexable_def opStr_def is_attribs_def)

lemma encode_no_dollar: "list_all lexable os \<Longrightarrow> CHR ''$'' \<notin> set (encode os)"
  using lexable_no_dollar by (induction os) auto

lemma unpack_pack_encode:
  "0 \<le> n \<Longrightarrow> list_all lexable os
   \<Longrightarrow> unpack (pack n m (encode os) bank) =
       Inr \<lparr>up_oldLen = n, up_newLen = m, up_ops = encode os, up_charBank = bank\<rparr>"
  by (simp add: unpack_pack op_start_encode encode_no_dollar)

subsection \<open>A changeset on a text\<close>

text \<open>
  \<open>cs_on cs t es\<close>: the packed changeset reads, on the text \<open>t\<close>, as the edit script \<open>es\<close>: its
  operations cover \<open>es\<close> (with the newline counts they claim), its character bank is the inserted
  text, \<open>t\<close> starts with the source of \<open>es\<close>, and the header tells the two lengths.
\<close>

definition result :: "string \<Rightarrow> script \<Rightarrow> string" where
  "result t es = dst es @ drop (length (src es)) t"

definition on_text :: "script \<Rightarrow> string \<Rightarrow> bool" where
  "on_text es t = (take (length (src es)) t = src es)"

definition cs_on :: "string \<Rightarrow> string \<Rightarrow> script \<Rightarrow> bool" where
  "cs_on cs t es =
     (case unpack cs of
        Inl _ \<Rightarrow> False
      | Inr u \<Rightarrow>
          (case parse_ops (up_ops u) of
             Inl _ \<Rightarrow> False
           | Inr os \<Rightarrow>
               denotes os es \<and> script_ok es \<and> up_charBank u = inserted es \<and> on_text es t \<and>
               up_oldLen u = int (length t) \<and> up_newLen u = int (length (result t es))))"

lemma cs_onE:
  assumes "cs_on cs t es"
  obtains os where
    "unpack cs = Inr \<lparr>up_oldLen = int (length t), up_newLen = int (length (result t es)),
       up_ops = up_ops (projr (unpack cs)), up_charBank = inserted es\<rparr>"
    "parse_ops (up_ops (projr (unpack cs))) = Inr os" "denotes os es" "script_ok es" "on_text es t"
  using assms that
  by (auto simp: cs_on_def split: sum.splits)

lemma script_ok_no_NoOp: "script_ok es \<Longrightarrow> no_NoOp es"
  by (auto simp: script_ok_def no_NoOp_def list_all_iff)

lemma on_text_iff: "on_text es t \<longleftrightarrow> (\<exists>r. t = src es @ r)"
  by (auto simp: on_text_def) (metis append_take_drop_id)

lemma result_append [simp]: "result (src es @ r) es = dst es @ r"
  by (simp add: result_def)

lemma cs_on_pack:
  assumes "denotes os es" and "script_ok es" and "on_text es t"
  shows "cs_on (pack (int (length t)) (int (length (result t es))) (encode os) (inserted es)) t es"
proof -
  have lex: "list_all lexable os" using assms(1,2) by (rule denotes_lexable)
  from opIterator_encode [OF lex] have "parse_ops (encode os) = Inr os"
    by (auto intro: parse_opsI)
  with assms lex show ?thesis by (simp add: cs_on_def unpack_pack_encode)
qed

subsection \<open>applyToText\<close>

definition applyToText_op ::
  "op \<Rightarrow> strIter \<times> strIter \<times> stringAssem \<Rightarrow> (strIter \<times> strIter \<times> stringAssem) res" where
  "applyToText_op o1 st =
     (let (bankIter, strIter, assem) = st in
      case opcode o1 of
        Ins \<Rightarrow> bindE (si_take (chars o1) bankIter)
                 (\<lambda>(x, bankIter'). Inr (bankIter', strIter, sta_append x assem))
      | Del \<Rightarrow> bindE (si_skip (chars o1) strIter) (\<lambda>strIter'. Inr (bankIter, strIter', assem))
      | Keep \<Rightarrow> bindE (si_take (chars o1) strIter)
                  (\<lambda>(x, strIter'). Inr (bankIter, strIter', sta_append x assem))
      | NoOp \<Rightarrow> Inr st)"

definition applyToText :: "string \<Rightarrow> string \<Rightarrow> string res" where
  "applyToText cs str =
     bindE (unpack cs) (\<lambda>u.
     bindE (assertE (int (length str) = up_oldLen u) ''mismatched apply'') (\<lambda>_.
     bindE (opIterator (up_ops u) 0) (\<lambda>csIter.
     bindE (forOps csIter applyToText_op
              (stringIterator (up_charBank u), stringIterator str, stringAssembler))
       (\<lambda>(_, strIter, assem).
     bindE (si_take (si_remaining strIter) strIter) (\<lambda>(x, _).
     Inr (sta_toString (sta_append x assem)))))))"

lemma src_dst_Ins: "\<forall>e\<in>set es. ed_op e = Ins \<Longrightarrow>
    src es = [] \<and> dst es = map ed_char es \<and> inserted es = map ed_char es"
  by (induction es) auto

lemma src_dst_Del: "\<forall>e\<in>set es. ed_op e = Del \<Longrightarrow>
    src es = map ed_char es \<and> dst es = [] \<and> inserted es = []"
  by (induction es) auto

lemma src_dst_Keep: "\<forall>e\<in>set es. ed_op e = Keep \<Longrightarrow>
    src es = map ed_char es \<and> dst es = map ed_char es \<and> inserted es = []"
  by (induction es) auto

lemma applyToText_op_covers:
  assumes cov: "covers o1 xs" and "si_ahead b (inserted xs @ bs)" and "si_ahead s (src xs @ ss)"
  shows "\<exists>b' s' a'. applyToText_op o1 (b, s, a) = Inr (b', s', a') \<and>
    si_ahead b' bs \<and> si_ahead s' ss \<and> sta_toString a' = sta_toString a @ dst xs"
proof -
  have n: "chars o1 = int (length xs)" and k: "\<forall>e\<in>set xs. ed_op e = opcode o1"
    using cov by (auto simp: covers_def)
  show ?thesis
  proof (cases "opcode o1")
    case NoOp
    with cov show ?thesis by (simp add: covers_def)
  next
    case Keep
    with k src_dst_Keep have "src xs = map ed_char xs" "dst xs = map ed_char xs" "inserted xs = []"
      by auto
    with Keep n assms si_ahead_step [of s "map ed_char xs" ss "chars o1"]
    show ?thesis by (auto simp: applyToText_op_def)
  next
    case Del
    with k src_dst_Del have "src xs = map ed_char xs" "dst xs = []" "inserted xs = []"
      by auto
    with Del n assms si_ahead_step [of s "map ed_char xs" ss "chars o1"]
    show ?thesis by (auto simp: applyToText_op_def)
  next
    case Ins
    with k src_dst_Ins have "src xs = []" "dst xs = map ed_char xs" "inserted xs = map ed_char xs"
      by auto
    with Ins n assms si_ahead_step [of b "map ed_char xs" bs "chars o1"]
    show ?thesis by (auto simp: applyToText_op_def)
  qed
qed

lemma applyToText_ops:
  "denotes os es \<Longrightarrow> si_ahead b (inserted es @ bs) \<Longrightarrow> si_ahead s (src es @ ss) \<Longrightarrow>
   \<exists>b' s' a'. foldE applyToText_op os (b, s, a) = Inr (b', s', a') \<and>
     si_ahead s' ss \<and> sta_toString a' = sta_toString a @ dst es"
proof (induction os arbitrary: es b s a)
  case Nil
  then show ?case by simp
next
  case (Cons o1 os)
  from Cons.prems(1) obtain xs ys where es: "es = xs @ ys" "covers o1 xs" "denotes os ys"
    by (rule denotes_ConsE)
  from applyToText_op_covers [OF es(2), of b "inserted ys @ bs" s "src ys @ ss" a] Cons.prems(2,3)
  obtain b' s' a' where st: "applyToText_op o1 (b, s, a) = Inr (b', s', a')"
    "si_ahead b' (inserted ys @ bs)" "si_ahead s' (src ys @ ss)"
    "sta_toString a' = sta_toString a @ dst xs"
    by (auto simp: es(1))
  from Cons.IH [OF es(3) st(2,3), of a'] st(1,4) es(1) show ?case by auto
qed

lemma applyToText_result:
  assumes "cs_on cs t es"
  shows "applyToText cs t = Inr (result t es)"
proof -
  from assms obtain os where u: "unpack cs = Inr \<lparr>up_oldLen = int (length t),
      up_newLen = int (length (result t es)), up_ops = up_ops (projr (unpack cs)),
      up_charBank = inserted es\<rparr>"
    and p: "parse_ops (up_ops (projr (unpack cs))) = Inr os" and d: "denotes os es"
    and t: "on_text es t"
    by (rule cs_onE)
  from t obtain r where r: "t = src es @ r" by (auto simp: on_text_iff)
  from p obtain it where it: "opIterator (up_ops (projr (unpack cs))) 0 = Inr it" "yields it os"
    by (rule parse_opsE)
  from applyToText_ops [OF d, of "stringIterator (inserted es)" "[]" "stringIterator t" r
      stringAssembler]
  obtain b' s' a' where st: "foldE applyToText_op os
      (stringIterator (inserted es), stringIterator t, stringAssembler) = Inr (b', s', a')"
    "si_ahead s' r" "sta_toString a' = dst es"
    by (auto simp: r)
  have "\<exists>it'. si_take (si_remaining s') s' = Inr (r, it')"
    using si_ahead_step [of s' r "[]"] st(2) si_ahead_remaining [OF st(2)] by auto
  then show ?thesis
    unfolding applyToText_def by (subst u) (auto simp: it forOps_yields [OF it(2)] st(1) [unfolded r] st(3) r)
qed

text \<open>
  C20. \<open>smartOpAssembler\<close> is canonical: it does not matter how the edits of a script were cut into
  operations, its output parses, denotes the normal form of the script, and is a fixed point.
\<close>

theorem smartOpAssembler_canonical:
  assumes "denotes os es" and "script_ok es"
  shows "\<exists>ps. parse_ops (smart_print os) = Inr ps \<and> denotes ps (smart_norm es) \<and>
    smart_print ps = smart_print os \<and> (\<forall>qs. denotes qs es \<longrightarrow> smart_print qs = smart_print os)"
proof -
  have ok: "no_NoOp es" by (rule script_ok_no_NoOp [OF assms(2)])
  from smart_string_denotes [OF ok] obtain ps where
    ps: "smart_string es = encode ps" "denotes ps (smart_norm es)" by blast
  have "set (smart_norm es) \<subseteq> set es" using smart_norm_text [OF ok] by blast
  with assms(2) have "script_ok (smart_norm es)" by (auto simp: script_ok_def list_all_iff)
  from opIterator_encode [OF denotes_lexable [OF ps(2) this]] have "parse_ops (encode ps) = Inr ps"
    by (auto intro: parse_opsI)
  with ps show ?thesis
    by (auto simp: smart_print_string [OF assms(1)] smart_print_string [OF ps(2)]
        smart_string_idem [OF ok] smart_print_string intro!: exI [of _ ps])
qed

theorem smartOpAssembler_canonical_witness:
  "\<exists>ps. parse_ops (smart_print [\<lparr>opcode = Ins, chars = 1, lines = 0, attribs = ''''\<rparr>,
      \<lparr>opcode = Del, chars = 1, lines = 0, attribs = ''''\<rparr>]) = Inr ps \<and>
    denotes ps [Edit Del '''' CHR ''a'', Edit Ins '''' CHR ''b'']"
proof -
  let ?os = "[\<lparr>opcode = Ins, chars = 1, lines = 0, attribs = ''''\<rparr>,
      \<lparr>opcode = Del, chars = 1, lines = 0, attribs = ''''\<rparr>]"
  let ?es = "[Edit Ins '''' CHR ''b'', Edit Del '''' CHR ''a'']"
  have "denotes ?os ?es" by (simp add: denotes.simps(2) covers_def)
  moreover have "script_ok ?es" by (simp add: script_ok_def is_attribs_def)
  ultimately show ?thesis
    using smartOpAssembler_canonical [of ?os ?es] by (auto simp: smart_norm_def strip_def)
qed

text \<open>
  C19. Applying a changeset to the text it reads on: \<open>applyToText\<close> returns the kept and inserted
  characters of the script in order, followed by the part of the text the changeset does not mention.
\<close>

theorem applyToText_applies:
  assumes "cs_on cs t es"
  shows "applyToText cs t = Inr (dst es @ drop (length (src es)) t) \<and>
    int (length (dst es @ drop (length (src es)) t)) = projr (newLen cs)"
  using applyToText_result [OF assms] assms
  by (cases "unpack cs") (auto simp: result_def newLen_def cs_on_def split: sum.splits)

theorem applyToText_applies_witness:
  "applyToText ''Z:3>0=1-1+1$x'' ''abc'' = Inr ''axc''"
proof -
  have "cs_on ''Z:3>0=1-1+1$x'' ''abc'' [Edit Keep '''' CHR ''a'', Edit Del '''' CHR ''b'', Edit Ins '''' CHR ''x'']"
    by code_simp
  from applyToText_applies [OF this] show ?thesis by simp
qed

end
