(* ===== verification/Attributes.thy ===== *)
theory Attributes
  imports Texts
begin

text \<open>
  Attribute strings of \<open>easysync2.js\<close>: the regular-expression loops over \<open>*n\<close>, merging two
  attribute strings (\<open>composeAttributes\<close>, \<open>followAttributes\<close>), building them
  (\<open>makeAttribsString\<close>), moving them between pools (\<open>moveOpsToNewPool\<close>, \<open>prepareForWire\<close>), reading
  them (\<open>eachAttribNumber\<close>, \<open>attribsAttributeValue\<close>, \<open>attributeTester\<close>).

  Where the code passes a pool that may be \<open>null\<close>, the model takes a \<open>pool option\<close>. An attribute
  number the pool does not know gives \<open>undefined\<close>, which every path of the code turns into a
  \<open>TypeError\<close> as soon as its key is read or it is put into a pool; the pool that an aborted call
  leaves behind is not modelled.
\<close>

subsection \<open>Loops over the attribute numbers of a string\<close>

text \<open>
  \<open>s.replace(/\*([0-9a-z]+)/g, f)\<close>: the captured groups of all matches in order, and the
  replacement by a function that may throw and update a state.
\<close>

function star_matches :: "string \<Rightarrow> string list" where
  "star_matches [] = []"
| "star_matches (c # s) =
     (if c = CHR ''*'' \<and> takeWhile is_alnum s \<noteq> []
      then takeWhile is_alnum s # star_matches (dropWhile is_alnum s)
      else star_matches s)"
  by pat_completeness auto
termination
  by (relation "measure length") (auto simp: length_dropWhile_le less_Suc_eq_le)

function replaceStars :: "(string \<Rightarrow> 's \<Rightarrow> (string \<times> 's) res) \<Rightarrow> string \<Rightarrow> 's \<Rightarrow> (string \<times> 's) res" where
  "replaceStars f [] st = Inr ([], st)"
| "replaceStars f (c # s) st =
     (if c = CHR ''*'' \<and> takeWhile is_alnum s \<noteq> []
      then bindE (f (takeWhile is_alnum s) st) (\<lambda>(x, st').
           bindE (replaceStars f (dropWhile is_alnum s) st') (\<lambda>(r, st'').
           Inr (x @ r, st'')))
      else bindE (replaceStars f s st) (\<lambda>(r, st'). Inr (c # r, st')))"
  by pat_completeness auto
termination
  by (relation "measure (\<lambda>(f, s, st). length s)") (auto simp: length_dropWhile_le less_Suc_eq_le)

text \<open>\<open>cs.indexOf('$')\<close> with the end of the string where there is none, and the two parts.\<close>

definition dollarPos :: "string \<Rightarrow> int" where
  "dollarPos cs = (let d = js_indexOf cs ''$'' 0 in if d < 0 then int (length cs) else d)"

definition upToDollar :: "string \<Rightarrow> string" where
  "upToDollar cs = js_substring cs 0 (dollarPos cs)"

definition fromDollar :: "string \<Rightarrow> string" where
  "fromDollar cs = js_from cs (dollarPos cs)"

definition eachAttribNumber :: "string \<Rightarrow> (int \<Rightarrow> 's \<Rightarrow> 's res) \<Rightarrow> 's \<Rightarrow> 's res" where
  "eachAttribNumber cs func st =
     foldE (\<lambda>a. func (parseNum a)) (star_matches (upToDollar cs)) st"

text \<open>What the function given to \<open>mapAttribNumbers\<close> returns: \<open>true\<close>, a number, or anything else.\<close>

datatype mapResult = MapTrue | MapNumber int | MapOther

definition mapAttribNumbers :: "string \<Rightarrow> (int \<Rightarrow> mapResult) \<Rightarrow> string res" where
  "mapAttribNumbers cs func =
     bindE (replaceStars
       (\<lambda>a (_ :: unit). Inr (case func (parseNum a) of
          MapTrue \<Rightarrow> (CHR ''*'' # a, ())
        | MapNumber n \<Rightarrow> (''*'' @ numToString n, ())
        | MapOther \<Rightarrow> ('''', ())))
       (upToDollar cs) ())
     (\<lambda>(newUpToDollar, _). Inr (newUpToDollar @ fromDollar cs))"

definition filterAttribNumbers :: "string \<Rightarrow> (int \<Rightarrow> mapResult) \<Rightarrow> string res" where
  "filterAttribNumbers cs filt = mapAttribNumbers cs filt"

subsection \<open>Moving a changeset to another pool\<close>

definition moveOp :: "pool \<Rightarrow> string \<Rightarrow> pool \<Rightarrow> (string \<times> pool) res" where
  "moveOp oldPool a newPool =
     (let oldNum = parseNum a in
      case getAttrib oldPool oldNum of
        None \<Rightarrow> Inl (TypeError ''undefined[0]'')
      | Some pair \<Rightarrow>
          (let (newNum, newPool') = putAttrib pair False newPool
           in Inr (''*'' @ numToString newNum, newPool')))"

definition moveOpsToNewPool :: "string \<Rightarrow> pool \<Rightarrow> pool \<Rightarrow> (string \<times> pool) res" where
  "moveOpsToNewPool cs oldPool newPool =
     bindE (replaceStars (moveOp oldPool) (upToDollar cs) newPool)
       (\<lambda>(r, newPool'). Inr (r @ fromDollar cs, newPool'))"

definition prepareForWire :: "string \<Rightarrow> pool \<Rightarrow> (string \<times> pool) res" where
  "prepareForWire cs p = moveOpsToNewPool cs p AttribPool"

subsection \<open>Merging attribute strings\<close>

text \<open>\<open>atts.push(pool.getAttrib(parseNum(a)))\<close> for every number of an attribute string.\<close>

definition poolAttrib :: "pool option \<Rightarrow> string \<Rightarrow> attrib res" where
  "poolAttrib p a =
     (case p of
        None \<Rightarrow> Inl (TypeError ''null.getAttrib'')
      | Some pl \<Rightarrow>
          (case getAttrib pl (parseNum a) of
             None \<Rightarrow> Inl (TypeError ''undefined[0]'')
           | Some pair \<Rightarrow> Inr pair))"

definition pushAttribs :: "pool option \<Rightarrow> string \<Rightarrow> attrib list res" where
  "pushAttribs p att =
     foldE (\<lambda>a atts. bindE (poolAttrib p a) (\<lambda>pair. Inr (atts @ [pair]))) (star_matches att) []"

text \<open>The inner loop of \<open>composeAttributes\<close> for one pair of \<open>att2\<close>.\<close>

fun composePair :: "bool \<Rightarrow> attrib \<Rightarrow> attrib list \<Rightarrow> attrib list" where
  "composePair resultIsMutation pair [] =
     (if snd pair \<noteq> '''' \<or> resultIsMutation then [pair] else [])"
| "composePair resultIsMutation pair (oldPair # atts) =
     (if fst oldPair = fst pair then
        (if snd pair \<noteq> '''' \<or> resultIsMutation then (fst oldPair, snd pair) # atts else atts)
      else oldPair # composePair resultIsMutation pair atts)"

text \<open>\<open>'*' + numToString(pool.putAttrib(atts[i]))\<close> for every attribute.\<close>

definition putAttribs :: "attrib list \<Rightarrow> pool option \<Rightarrow> (string \<times> pool option) res" where
  "putAttribs atts p =
     foldE (\<lambda>att (buf, p). case p of
         None \<Rightarrow> Inl (TypeError ''null.putAttrib'')
       | Some pl \<Rightarrow> (let (n, pl') = putAttrib att False pl
                     in Inr (buf @ ''*'' @ numToString n, Some pl')))
       atts ('''', p)"

definition composeAttributes ::
  "string \<Rightarrow> string \<Rightarrow> bool \<Rightarrow> pool option \<Rightarrow> (string \<times> pool option) res" where
  "composeAttributes att1 att2 resultIsMutation p =
     (if att1 = '''' \<and> resultIsMutation then Inr (att2, p)
      else if att2 = '''' then Inr (att1, p)
      else
        bindE (pushAttribs p att1) (\<lambda>atts.
        bindE (foldE (\<lambda>a atts. bindE (poolAttrib p a) (\<lambda>pair.
                 Inr (composePair resultIsMutation pair atts))) (star_matches att2) atts) (\<lambda>atts.
        putAttribs (sort_key attribStr atts) p)))"

text \<open>The inner loop of \<open>followAttributes\<close> for one pair of \<open>att1\<close>.\<close>

fun followPair :: "attrib \<Rightarrow> attrib list \<Rightarrow> attrib list" where
  "followPair pair1 [] = []"
| "followPair pair1 (pair2 # atts) =
     (if fst pair1 = fst pair2 then
        (if snd pair1 \<le> snd pair2 then atts else pair2 # atts)
      else pair2 # followPair pair1 atts)"

definition followAttributes ::
  "string \<Rightarrow> string \<Rightarrow> pool option \<Rightarrow> (string \<times> pool option) res" where
  "followAttributes att1 att2 p =
     (if att2 = '''' \<or> p = None then Inr ('''', p)
      else if att1 = '''' then Inr (att2, p)
      else
        bindE (pushAttribs p att2) (\<lambda>atts.
        bindE (foldE (\<lambda>a atts. if atts = [] then Inr [] else
                 bindE (poolAttrib p a) (\<lambda>pair1. Inr (followPair pair1 atts)))
               (star_matches att1) atts) (\<lambda>atts.
        putAttribs atts p)))"

subsection \<open>Building and reading attribute strings\<close>

text \<open>
  The argument \<open>attribs\<close> of the builders: absent, an attribute string, or an array of pairs. The
  result \<open>None\<close> of \<open>makeAttribsString\<close> is \<open>undefined\<close>, for a non-empty array without a pool and
  for an empty array.
\<close>

datatype attribsArg = NoAttribs | AttribsString string | AttribsPairs "attrib list"

definition makeAttribsString ::
  "opcode \<Rightarrow> attribsArg \<Rightarrow> pool option \<Rightarrow> (string option \<times> pool option) res" where
  "makeAttribsString opc att p =
     (case att of
        NoAttribs \<Rightarrow> Inr (Some '''', p)
      | AttribsString s \<Rightarrow> Inr (Some s, p)
      | AttribsPairs pairs \<Rightarrow>
          if p \<noteq> None \<and> pairs \<noteq> []
          then bindE (putAttribs
                 (filter (\<lambda>pair. opc = Keep \<or> (opc = Ins \<and> snd pair \<noteq> ''''))
                    (sort_key attribStr pairs)) p) (\<lambda>(s, p'). Inr (Some s, p'))
          else Inr (None, p))"

definition attribsAttributeValue :: "string \<Rightarrow> string \<Rightarrow> pool option \<Rightarrow> string res" where
  "attribsAttributeValue att key p =
     (if att \<noteq> '''' then
        eachAttribNumber att (\<lambda>n value. case p of
            None \<Rightarrow> Inl (TypeError ''null.getAttribKey'')
          | Some pl \<Rightarrow> Inr (if getAttribKey pl n = key then getAttribValue pl n else value)) ''''
      else Inr '''')"

definition opAttributeValue :: "op \<Rightarrow> string \<Rightarrow> pool option \<Rightarrow> string res" where
  "opAttributeValue o1 key p = attribsAttributeValue (attribs o1) key p"

text \<open>The word characters \<open>\w\<close>, and the expression \<^verbatim>\<open>\*num(?!\w)\<close> tested anywhere in a string.\<close>

definition is_word :: "char \<Rightarrow> bool" where
  "is_word c = (let k = (of_char c :: int) in
     is_alnum c \<or> (65 \<le> k \<and> k \<le> 90) \<or> c = CHR ''_'')"

fun re_test :: "string \<Rightarrow> string \<Rightarrow> bool" where
  "re_test num [] = False"
| "re_test num (c # s) =
     ((c = CHR ''*'' \<and> take (length num) s = num \<and>
        (case drop (length num) s of [] \<Rightarrow> True | d # _ \<Rightarrow> \<not> is_word d)) \<or> re_test num s)"

definition attributeTester :: "attrib \<Rightarrow> pool option \<Rightarrow> string \<Rightarrow> bool" where
  "attributeTester attribPair p att =
     (case p of
        None \<Rightarrow> False
      | Some pl \<Rightarrow>
          (let attribNum = fst (putAttrib attribPair True pl)
           in if attribNum < 0 then False else re_test (numToString attribNum) att))"

end
