(* ===== verification/Zips.thy ===== *)
theory Zips
  imports Attributes
begin

text \<open>
  Walking two operation streams in step (\<open>easysync2.js\<close>): \<open>applyZip\<close> and the two zipper functions
  it runs, \<open>_slicerZipperFunc\<close> (for \<open>compose\<close> and \<open>applyToAttribution\<close>) and the one of \<open>follow\<close>,
  as transformers of the operation objects they mutate. Termination is proved once, in the
  locale \<open>zipper\<close>, from the law that every call uses up one of the two operations.
\<close>

subsection \<open>applyZip\<close>

definition zipFetch :: "op \<Rightarrow> opIter \<Rightarrow> (op \<times> opIter) res" where
  "zipFetch o1 it = (if opcode o1 = NoOp \<and> hasNext it then opNext it else Inr (o1, it))"

partial_function (option) zipLoop ::
  "(op \<Rightarrow> op \<Rightarrow> op \<Rightarrow> 's \<Rightarrow> ((op \<times> op \<times> op) \<times> 's) res) \<Rightarrow> opIter \<Rightarrow> opIter \<Rightarrow> op \<Rightarrow> op \<Rightarrow> op
   \<Rightarrow> smartAssem \<Rightarrow> 's \<Rightarrow> (smartAssem \<times> 's) res option" where
  "zipLoop func iter1 iter2 op1 op2 opOut assem st =
     (if opcode op1 \<noteq> NoOp \<or> hasNext iter1 \<or> opcode op2 \<noteq> NoOp \<or> hasNext iter2 then
        (case zipFetch op1 iter1 of
           Inl e \<Rightarrow> Some (Inl e)
         | Inr f1 \<Rightarrow>
        (case zipFetch op2 iter2 of
           Inl e \<Rightarrow> Some (Inl e)
         | Inr f2 \<Rightarrow>
        (case func (fst f1) (fst f2) opOut st of
           Inl e \<Rightarrow> Some (Inl e)
         | Inr r \<Rightarrow>
             (let out = snd (snd (fst r)) in
              zipLoop func (snd f1) (snd f2) (fst (fst r)) (fst (snd (fst r)))
                (if opcode out \<noteq> NoOp then out\<lparr>opcode := NoOp\<rparr> else out)
                (if opcode out \<noteq> NoOp then sa_append out assem else assem)
                (snd r)))))
      else Some (Inr (assem, st)))"

declare zipLoop.simps [code]

definition applyZip ::
  "string \<Rightarrow> nat \<Rightarrow> string \<Rightarrow> nat \<Rightarrow> (op \<Rightarrow> op \<Rightarrow> op \<Rightarrow> 's \<Rightarrow> ((op \<times> op \<times> op) \<times> 's) res)
   \<Rightarrow> 's \<Rightarrow> (string \<times> 's) res" where
  "applyZip in1 idx1 in2 idx2 func st =
     bindE (opIterator in1 idx1) (\<lambda>iter1.
     bindE (opIterator in2 idx2) (\<lambda>iter2.
     (case zipLoop func iter1 iter2 (newOp NoOp) (newOp NoOp) (newOp NoOp) smartOpAssembler st of
        None \<Rightarrow> Inl Diverges
      | Some r \<Rightarrow> bindE r (\<lambda>(assem, st'). Inr (fst (sa_toString (sa_endDocument assem)), st')))))"

subsection \<open>The slicer\<close>

definition slicerZipperFunc ::
  "op \<Rightarrow> op \<Rightarrow> op \<Rightarrow> pool option \<Rightarrow> ((op \<times> op \<times> op) \<times> pool option) res" where
  "slicerZipperFunc attOp csOp opOut p =
     (if opcode attOp = Del then
        Inr ((attOp\<lparr>opcode := NoOp\<rparr>, csOp, copyOp attOp opOut), p)
      else if opcode attOp = NoOp then
        Inr ((attOp, csOp\<lparr>opcode := NoOp\<rparr>, copyOp csOp opOut), p)
      else
        (case opcode csOp of
           Del \<Rightarrow>
             (if chars csOp \<le> chars attOp then
                (let out = (if opcode attOp = Keep then
                              opOut\<lparr>opcode := Del, chars := chars csOp, lines := lines csOp,
                                attribs := ''''\<rparr>
                            else opOut);
                     attOp1 = attOp\<lparr>chars := chars attOp - chars csOp,
                                lines := lines attOp - lines csOp\<rparr>
                 in Inr ((if chars attOp1 = 0 then attOp1\<lparr>opcode := NoOp\<rparr> else attOp1,
                          csOp\<lparr>opcode := NoOp\<rparr>, out), p))
              else
                (let out = (if opcode attOp = Keep then
                              opOut\<lparr>opcode := Del, chars := chars attOp, lines := lines attOp,
                                attribs := ''''\<rparr>
                            else opOut)
                 in Inr ((attOp\<lparr>opcode := NoOp\<rparr>,
                          csOp\<lparr>chars := chars csOp - chars attOp, lines := lines csOp - lines attOp\<rparr>,
                          out), p)))
         | Ins \<Rightarrow> Inr ((attOp, csOp\<lparr>opcode := NoOp\<rparr>, copyOp csOp opOut), p)
         | Keep \<Rightarrow>
             (if chars csOp \<le> chars attOp then
                bindE (composeAttributes (attribs attOp) (attribs csOp) (opcode attOp = Keep) p)
                  (\<lambda>(att, p').
                     (let out = opOut\<lparr>opcode := opcode attOp, chars := chars csOp,
                                  lines := lines csOp, attribs := att\<rparr>;
                          attOp1 = attOp\<lparr>chars := chars attOp - chars csOp,
                                     lines := lines attOp - lines csOp\<rparr>
                      in Inr ((if chars attOp1 = 0 then attOp1\<lparr>opcode := NoOp\<rparr> else attOp1,
                               csOp\<lparr>opcode := NoOp\<rparr>, out), p')))
              else
                bindE (composeAttributes (attribs attOp) (attribs csOp) (opcode attOp = Keep) p)
                  (\<lambda>(att, p').
                     Inr ((attOp\<lparr>opcode := NoOp\<rparr>,
                           csOp\<lparr>chars := chars csOp - chars attOp, lines := lines csOp - lines attOp\<rparr>,
                           opOut\<lparr>opcode := opcode attOp, chars := chars attOp,
                             lines := lines attOp, attribs := att\<rparr>), p')))
         | NoOp \<Rightarrow> Inr ((attOp\<lparr>opcode := NoOp\<rparr>, csOp, copyOp attOp opOut), p)))"

definition applyToAttribution :: "string \<Rightarrow> string \<Rightarrow> pool option \<Rightarrow> (string \<times> pool option) res" where
  "applyToAttribution cs astr p =
     bindE (unpack cs) (\<lambda>u. applyZip astr 0 (up_ops u) 0 slicerZipperFunc p)"

subsection \<open>compose\<close>

text \<open>The variables that the zipper function of \<open>compose\<close> closes over.\<close>

record composeState =
  co_bankIter1 :: strIter
  co_bankIter2 :: strIter
  co_bankAssem :: stringAssem
  co_pool :: "pool option"

definition composeZip :: "op \<Rightarrow> op \<Rightarrow> op \<Rightarrow> composeState \<Rightarrow> ((op \<times> op \<times> op) \<times> composeState) res" where
  "composeZip op1 op2 opOut st =
     bindE (if opcode op1 = Ins \<and> opcode op2 = Del
            then bindE (si_skip (min (chars op1) (chars op2)) (co_bankIter1 st))
                   (\<lambda>b. Inr (st\<lparr>co_bankIter1 := b\<rparr>))
            else Inr st) (\<lambda>st1.
     bindE (slicerZipperFunc op1 op2 opOut (co_pool st1)) (\<lambda>((op1', op2', out), p').
     (let st2 = st1\<lparr>co_pool := p'\<rparr> in
      if opcode out = Ins then
        (if opcode op2 = Ins then
           bindE (si_take (chars out) (co_bankIter2 st2)) (\<lambda>(x, b).
             Inr ((op1', op2', out),
                  st2\<lparr>co_bankIter2 := b, co_bankAssem := sta_append x (co_bankAssem st2)\<rparr>))
         else
           bindE (si_take (chars out) (co_bankIter1 st2)) (\<lambda>(x, b).
             Inr ((op1', op2', out),
                  st2\<lparr>co_bankIter1 := b, co_bankAssem := sta_append x (co_bankAssem st2)\<rparr>)))
      else Inr ((op1', op2', out), st2))))"

definition compose :: "string \<Rightarrow> string \<Rightarrow> pool option \<Rightarrow> (string \<times> pool option) res" where
  "compose cs1 cs2 p =
     bindE (unpack cs1) (\<lambda>u1.
     bindE (unpack cs2) (\<lambda>u2.
     (let len1 = up_oldLen u1; len2 = up_newLen u1 in
      bindE (assertE (len2 = up_oldLen u2) ''mismatched composition'') (\<lambda>_.
      (let len3 = up_newLen u2 in
       bindE (applyZip (up_ops u1) 0 (up_ops u2) 0 composeZip
                \<lparr>co_bankIter1 = stringIterator (up_charBank u1),
                 co_bankIter2 = stringIterator (up_charBank u2),
                 co_bankAssem = stringAssembler, co_pool = p\<rparr>) (\<lambda>(newOps, st).
       Inr (pack len1 len3 newOps (sta_toString (co_bankAssem st)), co_pool st)))))))"

subsection \<open>follow\<close>

record followState =
  fo_chars1 :: strIter
  fo_chars2 :: strIter
  fo_oldPos :: int
  fo_newLen :: int
  fo_pool :: "pool option"

text \<open>Which of the two insertions goes first: \<open>whichToDo\<close> for two \<open>'+'\<close> operations.\<close>

definition followWhich ::
  "(string \<Rightarrow> bool) \<Rightarrow> bool \<Rightarrow> op \<Rightarrow> op \<Rightarrow> string \<Rightarrow> string \<Rightarrow> nat" where
  "followWhich hasInsertFirst reverseInsertOrder op1 op2 firstChar1 firstChar2 =
     (let insertFirst1 = hasInsertFirst (attribs op1);
          insertFirst2 = hasInsertFirst (attribs op2)
      in if insertFirst1 \<and> \<not> insertFirst2 then 1
         else if insertFirst2 \<and> \<not> insertFirst1 then 2
         else if firstChar1 = [nl] \<and> firstChar2 \<noteq> [nl] then 2
         else if firstChar1 \<noteq> [nl] \<and> firstChar2 = [nl] then 1
         else if reverseInsertOrder then 2
         else 1)"

text \<open>The branch of the zipper function where one of the operations is an insertion.\<close>

definition followInsert ::
  "(string \<Rightarrow> bool) \<Rightarrow> bool \<Rightarrow> op \<Rightarrow> op \<Rightarrow> op \<Rightarrow> followState \<Rightarrow> ((op \<times> op \<times> op) \<times> followState) res" where
  "followInsert hasInsertFirst reverseInsertOrder op1 op2 opOut st =
     bindE (if opcode op2 \<noteq> Ins then Inr 1
            else if opcode op1 \<noteq> Ins then Inr 2
            else bindE (si_peek 1 (fo_chars1 st)) (\<lambda>firstChar1.
                 bindE (si_peek 1 (fo_chars2 st)) (\<lambda>firstChar2.
                 Inr (followWhich hasInsertFirst reverseInsertOrder op1 op2 firstChar1 firstChar2))))
       (\<lambda>whichToDo.
          if whichToDo = 1 then
            bindE (si_skip (chars op1) (fo_chars1 st)) (\<lambda>c1.
              Inr ((op1\<lparr>opcode := NoOp\<rparr>, op2,
                    opOut\<lparr>opcode := Keep, lines := lines op1, chars := chars op1, attribs := ''''\<rparr>),
                   st\<lparr>fo_chars1 := c1\<rparr>))
          else
            bindE (si_skip (chars op2) (fo_chars2 st)) (\<lambda>c2.
              Inr ((op1, op2\<lparr>opcode := NoOp\<rparr>, copyOp op2 opOut), st\<lparr>fo_chars2 := c2\<rparr>)))"

definition followMerge ::
  "(string \<Rightarrow> bool) \<Rightarrow> bool \<Rightarrow> op \<Rightarrow> op \<Rightarrow> op \<Rightarrow> followState \<Rightarrow> ((op \<times> op \<times> op) \<times> followState) res" where
  "followMerge hasInsertFirst reverseInsertOrder op1 op2 opOut st =
     (if opcode op1 = Ins \<or> opcode op2 = Ins then
        followInsert hasInsertFirst reverseInsertOrder op1 op2 opOut st
      else if opcode op1 = Del then
        (if opcode op2 = NoOp then Inr ((op1\<lparr>opcode := NoOp\<rparr>, op2, opOut), st)
         else if chars op1 \<le> chars op2 then
           (let op2' = op2\<lparr>chars := chars op2 - chars op1, lines := lines op2 - lines op1\<rparr>
            in Inr ((op1\<lparr>opcode := NoOp\<rparr>,
                     if chars op2' = 0 then op2'\<lparr>opcode := NoOp\<rparr> else op2', opOut), st))
         else
           Inr ((op1\<lparr>chars := chars op1 - chars op2, lines := lines op1 - lines op2\<rparr>,
                 op2\<lparr>opcode := NoOp\<rparr>, opOut), st))
      else if opcode op2 = Del then
        (let out = copyOp op2 opOut in
         if opcode op1 = NoOp then Inr ((op1, op2\<lparr>opcode := NoOp\<rparr>, out), st)
         else if chars op2 \<le> chars op1 then
           (let op1' = op1\<lparr>chars := chars op1 - chars op2, lines := lines op1 - lines op2\<rparr>
            in Inr ((if chars op1' = 0 then op1'\<lparr>opcode := NoOp\<rparr> else op1',
                     op2\<lparr>opcode := NoOp\<rparr>, out), st))
         else
           Inr ((op1\<lparr>opcode := NoOp\<rparr>,
                 op2\<lparr>lines := lines op2 - lines op1, chars := chars op2 - chars op1\<rparr>,
                 out\<lparr>lines := lines op1, chars := chars op1\<rparr>), st))
      else if opcode op1 = NoOp then Inr ((op1, op2\<lparr>opcode := NoOp\<rparr>, copyOp op2 opOut), st)
      else if opcode op2 = NoOp then Inr ((op1\<lparr>opcode := NoOp\<rparr>, op2, copyOp op1 opOut), st)
      else
        bindE (followAttributes (attribs op1) (attribs op2) (fo_pool st)) (\<lambda>(att, p').
          (let out = opOut\<lparr>opcode := Keep, attribs := att\<rparr>; st' = st\<lparr>fo_pool := p'\<rparr> in
           if chars op1 \<le> chars op2 then
             (let op2' = op2\<lparr>chars := chars op2 - chars op1, lines := lines op2 - lines op1\<rparr>
              in Inr ((op1\<lparr>opcode := NoOp\<rparr>,
                       if chars op2' = 0 then op2'\<lparr>opcode := NoOp\<rparr> else op2',
                       out\<lparr>chars := chars op1, lines := lines op1\<rparr>), st'))
           else
             Inr ((op1\<lparr>chars := chars op1 - chars op2, lines := lines op1 - lines op2\<rparr>,
                   op2\<lparr>opcode := NoOp\<rparr>, out\<lparr>chars := chars op2, lines := lines op2\<rparr>), st'))))"

text \<open>The zipper function ends with the \<open>switch\<close> that counts positions.\<close>

definition followZip ::
  "(string \<Rightarrow> bool) \<Rightarrow> bool \<Rightarrow> op \<Rightarrow> op \<Rightarrow> op \<Rightarrow> followState \<Rightarrow> ((op \<times> op \<times> op) \<times> followState) res" where
  "followZip hasInsertFirst reverseInsertOrder op1 op2 opOut st =
     bindE (followMerge hasInsertFirst reverseInsertOrder op1 op2 opOut st)
       (\<lambda>((op1', op2', out), st').
          Inr ((op1', op2', out),
               (case opcode out of
                  Keep \<Rightarrow> st'\<lparr>fo_oldPos := fo_oldPos st' + chars out,
                            fo_newLen := fo_newLen st' + chars out\<rparr>
                | Del \<Rightarrow> st'\<lparr>fo_oldPos := fo_oldPos st' + chars out\<rparr>
                | Ins \<Rightarrow> st'\<lparr>fo_newLen := fo_newLen st' + chars out\<rparr>
                | NoOp \<Rightarrow> st')))"

definition follow :: "string \<Rightarrow> string \<Rightarrow> bool \<Rightarrow> pool option \<Rightarrow> (string \<times> pool option) res" where
  "follow cs1 cs2 reverseInsertOrder p =
     bindE (unpack cs1) (\<lambda>u1.
     bindE (unpack cs2) (\<lambda>u2.
     (let len1 = up_oldLen u1; len2 = up_oldLen u2 in
      bindE (assertE (len1 = len2) ''mismatched follow'') (\<lambda>_.
      (let oldLen = up_newLen u1;
           hasInsertFirst = attributeTester (''insertorder'', ''first'') p
       in bindE (applyZip (up_ops u1) 0 (up_ops u2) 0 (followZip hasInsertFirst reverseInsertOrder)
                   \<lparr>fo_chars1 = stringIterator (up_charBank u1),
                    fo_chars2 = stringIterator (up_charBank u2),
                    fo_oldPos = 0, fo_newLen = 0, fo_pool = p\<rparr>) (\<lambda>(newOps, st).
          (let newLen = fo_newLen st + (oldLen - fo_oldPos st)
           in Inr (pack oldLen newLen newOps (up_charBank u2), fo_pool st))))))))"

subsection \<open>Termination\<close>

lemma opIterator_returns: "opIterator s i \<noteq> Inl Diverges"
  by (auto simp: opIterator_def nextRegexMatch_def split: option.splits)

lemma zipFetch_returns: "zipFetch o1 it \<noteq> Inl Diverges"
  using opIterator_returns
  by (auto simp: zipFetch_def opNext_def bindE_eq_Inl opIterator_def split: option.splits)

lemma foldE_returns: "(\<And>x st. f x st \<noteq> Inl e) \<Longrightarrow> foldE f xs st \<noteq> Inl e"
  by (induction xs arbitrary: st) (auto simp: bindE_eq_Inl)

lemma poolAttrib_returns: "poolAttrib p a \<noteq> Inl Diverges"
  by (simp add: poolAttrib_def split: option.splits)

lemma putAttribs_returns: "putAttribs atts p \<noteq> Inl Diverges"
  unfolding putAttribs_def
  by (rule foldE_returns) (auto simp: Let_def split: option.splits prod.splits)

lemma pushAttribs_returns: "pushAttribs p att \<noteq> Inl Diverges"
  unfolding pushAttribs_def
  by (rule foldE_returns) (auto simp: bindE_eq_Inl poolAttrib_returns)

lemma composeAttributes_returns: "composeAttributes att1 att2 m p \<noteq> Inl Diverges"
proof -
  have "foldE (\<lambda>a atts. bindE (poolAttrib p a) (\<lambda>pair. Inr (composePair m pair atts))) xs atts
      \<noteq> Inl Diverges" for xs atts
    by (rule foldE_returns) (auto simp: bindE_eq_Inl poolAttrib_returns)
  then show ?thesis
    by (auto simp: composeAttributes_def bindE_eq_Inl pushAttribs_returns putAttribs_returns)
qed

lemma followAttributes_returns: "followAttributes att1 att2 p \<noteq> Inl Diverges"
proof -
  have "foldE (\<lambda>a atts. if atts = [] then Inr [] else
      bindE (poolAttrib p a) (\<lambda>pair1. Inr (followPair pair1 atts))) xs atts \<noteq> Inl Diverges" for xs atts
    by (rule foldE_returns) (auto simp: bindE_eq_Inl poolAttrib_returns)
  then show ?thesis
    by (auto simp: followAttributes_def bindE_eq_Inl pushAttribs_returns putAttribs_returns)
qed

lemma strIter_returns:
  "si_take n it \<noteq> Inl Diverges" "si_peek n it \<noteq> Inl Diverges" "si_skip n it \<noteq> Inl Diverges"
  by (auto simp: si_take_def si_peek_def si_skip_def si_assertRemaining_def assertE_def)

text \<open>An operation object that still holds an operation.\<close>

definition pend :: "op \<Rightarrow> nat" where
  "pend o1 = (if opcode o1 = NoOp then 0 else 1)"

lemma pend_simps [simp]:
  "opcode o1 = NoOp \<Longrightarrow> pend o1 = 0" "opcode o1 \<noteq> NoOp \<Longrightarrow> pend o1 = 1"
  by (simp_all add: pend_def)

text \<open>
  What \<open>applyZip\<close> needs of its zipper function to come to an end: whenever one of the two
  operations is pending, the call uses up at least one.
\<close>

locale zipper =
  fixes func :: "op \<Rightarrow> op \<Rightarrow> op \<Rightarrow> 's \<Rightarrow> ((op \<times> op \<times> op) \<times> 's) res"
  assumes progress:
    "func op1 op2 opOut st = Inr ((op1', op2', out), st') \<Longrightarrow> opcode op1 \<noteq> NoOp \<or> opcode op2 \<noteq> NoOp
     \<Longrightarrow> pend op1' + pend op2' < pend op1 + pend op2"
    and no_more:
    "func op1 op2 opOut st = Inr ((op1', op2', out), st')
     \<Longrightarrow> pend op1' + pend op2' \<le> pend op1 + pend op2"
    and returns: "func op1 op2 opOut st \<noteq> Inl Diverges"
begin

lemma fetch_size:
  "zipFetch o1 it = Inr (o2, it') \<Longrightarrow> iter_size it' + pend o2 \<le> iter_size it + pend o1"
  using opNext_size [of it o2 it']
  by (auto simp: zipFetch_def pend_def split: if_splits)

lemma fetch_less:
  "zipFetch o1 it = Inr (o2, it') \<Longrightarrow> opcode o2 = NoOp \<Longrightarrow> opcode o1 \<noteq> NoOp \<or> hasNext it
   \<Longrightarrow> iter_size it' + pend o2 < iter_size it + pend o1"
  using opNext_size [of it o2 it']
  by (auto simp: zipFetch_def pend_def split: if_splits)

lemma zipLoop_returns:
  "\<exists>r. zipLoop func it1 it2 op1 op2 opOut assem st = Some r \<and> r \<noteq> Inl Diverges"
proof (induction "iter_size it1 + pend op1 + iter_size it2 + pend op2"
    arbitrary: it1 it2 op1 op2 opOut assem st rule: less_induct)
  case less
  show ?case
  proof (cases "opcode op1 \<noteq> NoOp \<or> hasNext it1 \<or> opcode op2 \<noteq> NoOp \<or> hasNext it2")
    case False
    then show ?thesis by (subst zipLoop.simps) simp
  next
    case guard: True
    show ?thesis
    proof (cases "zipFetch op1 it1")
      case (Inl e)
      then show ?thesis using guard zipFetch_returns by (subst zipLoop.simps) auto
    next
      case (Inr f1)
      note f1 = this
      show ?thesis
      proof (cases "zipFetch op2 it2")
        case (Inl e)
        then show ?thesis using guard f1 zipFetch_returns by (subst zipLoop.simps) auto
      next
        case (Inr f2)
        note f2 = this
        show ?thesis
        proof (cases "func (fst f1) (fst f2) opOut st")
          case (Inl e)
          then show ?thesis using guard f1 f2 returns by (subst zipLoop.simps) auto
        next
          case (Inr r)
          obtain a1 i1 a2 i2 where ff: "f1 = (a1, i1)" "f2 = (a2, i2)" by fastforce
          obtain b1 b2 out st' where r: "r = ((b1, b2, out), st')" by (metis prod.collapse)
          have s1: "iter_size i1 + pend a1 \<le> iter_size it1 + pend op1"
            and s2: "iter_size i2 + pend a2 \<le> iter_size it2 + pend op2"
            using fetch_size f1 f2 ff by auto
          note step = Inr [unfolded ff r, simplified]
          have "iter_size i1 + pend b1 + iter_size i2 + pend b2
              < iter_size it1 + pend op1 + iter_size it2 + pend op2"
          proof (cases "opcode a1 \<noteq> NoOp \<or> opcode a2 \<noteq> NoOp")
            case True
            from progress [OF step True] s1 s2 show ?thesis by linarith
          next
            case False
            with guard f1 f2 ff
            have "iter_size i1 + pend a1 < iter_size it1 + pend op1 \<or>
                iter_size i2 + pend a2 < iter_size it2 + pend op2"
              using fetch_less by blast
            with no_more [OF step] s1 s2 show ?thesis by linarith
          qed
          from less [OF this] show ?thesis
            using guard f1 f2 ff Inr r by (subst zipLoop.simps) (simp add: Let_def)
        qed
      qed
    qed
  qed
qed

lemma applyZip_returns: "applyZip in1 i in2 j func st \<noteq> Inl Diverges"
proof -
  have "(case zipLoop func iter1 iter2 (newOp NoOp) (newOp NoOp) (newOp NoOp) smartOpAssembler st of
      None \<Rightarrow> Inl Diverges
    | Some r \<Rightarrow> bindE r (\<lambda>(assem, st'). Inr (fst (sa_toString (sa_endDocument assem)), st')))
    \<noteq> Inl Diverges" for iter1 iter2
    using zipLoop_returns [of iter1 iter2 "newOp NoOp" "newOp NoOp" "newOp NoOp" smartOpAssembler st]
    by (auto simp: bindE_eq_Inl)
  then show ?thesis by (auto simp: applyZip_def bindE_eq_Inl opIterator_returns)
qed

end

lemma slicer_returns: "slicerZipperFunc attOp csOp opOut p \<noteq> Inl Diverges"
  by (auto simp: slicerZipperFunc_def Let_def bindE_eq_Inl composeAttributes_returns
        split: opcode.splits)

lemma slicer_progress:
  "slicerZipperFunc op1 op2 opOut p = Inr ((op1', op2', out), p')
   \<Longrightarrow> pend op1' + pend op2' \<le> pend op1 + pend op2 \<and>
       (opcode op1 \<noteq> NoOp \<or> opcode op2 \<noteq> NoOp \<longrightarrow> pend op1' + pend op2' < pend op1 + pend op2)"
  by (auto simp: slicerZipperFunc_def pend_def Let_def bindE_eq_Inr split: if_splits opcode.splits)

interpretation slicer: zipper slicerZipperFunc
  using slicer_progress slicer_returns by unfold_locales blast+

interpretation composing: zipper composeZip
proof unfold_locales
  fix op1 op2 opOut st op1' op2' out st'
  show "composeZip op1 op2 opOut st \<noteq> Inl Diverges"
    by (auto simp: composeZip_def bindE_eq_Inl Let_def strIter_returns slicer_returns
          split: if_splits)
  assume c: "composeZip op1 op2 opOut st = Inr ((op1', op2', out), st')"
  then obtain p p' where "slicerZipperFunc op1 op2 opOut p = Inr ((op1', op2', out), p')"
    by (auto simp: composeZip_def bindE_eq_Inr Let_def split: if_splits)
  note s = slicer.progress [OF this] slicer.no_more [OF this]
  show "opcode op1 \<noteq> NoOp \<or> opcode op2 \<noteq> NoOp \<Longrightarrow> pend op1' + pend op2' < pend op1 + pend op2"
    by (rule s(1))
  show "pend op1' + pend op2' \<le> pend op1 + pend op2" by (rule s(2))
qed

lemma followMerge_progress:
  "followMerge h r op1 op2 opOut st = Inr ((op1', op2', out), st')
   \<Longrightarrow> pend op1' + pend op2' \<le> pend op1 + pend op2 \<and>
       (opcode op1 \<noteq> NoOp \<or> opcode op2 \<noteq> NoOp \<longrightarrow> pend op1' + pend op2' < pend op1 + pend op2)"
  by (auto simp: followMerge_def followInsert_def pend_def Let_def bindE_eq_Inr
        split: if_splits)

lemma followMerge_returns: "followMerge h r op1 op2 opOut st \<noteq> Inl Diverges"
  by (auto simp: followMerge_def followInsert_def Let_def bindE_eq_Inl strIter_returns
        followAttributes_returns split: if_splits)

interpretation following: zipper "followZip h r" for h r
proof unfold_locales
  fix op1 op2 opOut st op1' op2' out st'
  show "followZip h r op1 op2 opOut st \<noteq> Inl Diverges"
    by (auto simp: followZip_def bindE_eq_Inl followMerge_returns)
  assume "followZip h r op1 op2 opOut st = Inr ((op1', op2', out), st')"
  then obtain st2 where "followMerge h r op1 op2 opOut st = Inr ((op1', op2', out), st2)"
    by (auto simp: followZip_def bindE_eq_Inr)
  note s = followMerge_progress [OF this]
  show "opcode op1 \<noteq> NoOp \<or> opcode op2 \<noteq> NoOp \<Longrightarrow> pend op1' + pend op2' < pend op1 + pend op2"
    using s by blast
  show "pend op1' + pend op2' \<le> pend op1 + pend op2" using s by blast
qed

lemma unpack_returns: "unpack cs \<noteq> Inl Diverges"
  by (auto simp: unpack_def Let_def split: option.splits)

text \<open>
  C29. Composition, merging and the application of a changeset to an attribution string always end: on
  any strings whatever, well formed or not, \<open>applyZip\<close> does not loop. (What it returns on a malformed
  string, a value or an error, is not stated.)
\<close>

theorem zips_terminate:
  "compose cs1 cs2 p \<noteq> Inl Diverges \<and> follow cs1 cs2 b p \<noteq> Inl Diverges \<and>
   applyToAttribution cs1 astr p \<noteq> Inl Diverges"
  by (auto simp: compose_def follow_def applyToAttribution_def bindE_eq_Inl Let_def assertE_def
        unpack_returns composing.applyZip_returns following.applyZip_returns slicer.applyZip_returns)

end
