(* ===== verification/AttribLaws.thy ===== *)
theory AttribLaws
  imports Zips
begin

text \<open>
  What attribute strings mean in a pool, and that \<open>composeAttributes\<close> computes the composition of
  their meanings: the numbers it writes may be new, the pool only grows.
\<close>

subsection \<open>Attribute strings and the pools they refer to\<close>

definition att_known :: "pool \<Rightarrow> string \<Rightarrow> bool" where
  "att_known p s = list_all (\<lambda>a. getAttrib p (parseNum a) \<noteq> None) (star_matches s)"

definition att_pairs :: "pool \<Rightarrow> string \<Rightarrow> attrib list" where
  "att_pairs p s = map (\<lambda>a. the (getAttrib p (parseNum a))) (star_matches s)"

text \<open>A pool that has grown: every number keeps its meaning.\<close>

definition pool_le :: "pool \<Rightarrow> pool \<Rightarrow> bool" where
  "pool_le p p' = (pool_wf p' \<and> (\<forall>n b. getAttrib p n = Some b \<longrightarrow> getAttrib p' n = Some b))"

lemma pool_le_refl: "pool_wf p \<Longrightarrow> pool_le p p"
  by (simp add: pool_le_def)

lemma pool_le_trans: "pool_le p q \<Longrightarrow> pool_le q r \<Longrightarrow> pool_le p r"
  by (simp add: pool_le_def)

lemma pool_le_wf: "pool_le p p' \<Longrightarrow> pool_wf p'"
  by (simp add: pool_le_def)

lemma pool_le_put: "pool_wf p \<Longrightarrow> putAttrib a False p = (n, p') \<Longrightarrow> pool_le p p'"
  using ap.put_wf ap.put_keeps by (auto simp: pool_le_def)

lemma att_known_le: "pool_le p p' \<Longrightarrow> att_known p s \<Longrightarrow> att_known p' s"
  by (auto simp: att_known_def pool_le_def list_all_iff)

lemma att_pairs_le: "pool_le p p' \<Longrightarrow> att_known p s \<Longrightarrow> att_pairs p' s = att_pairs p s"
  by (auto simp: att_known_def att_pairs_def pool_le_def list_all_iff)

text \<open>The attribute string of a list of numbers.\<close>

definition attsStr :: "int list \<Rightarrow> string" where
  "attsStr ns = concat (map (\<lambda>n. ''*'' @ numToString n) ns)"

lemma attsStr_simps [simp]:
  "attsStr [] = []" "attsStr (n # ns) = ''*'' @ numToString n @ attsStr ns"
  "attsStr (ns @ ms) = attsStr ns @ attsStr ms"
  by (simp_all add: attsStr_def)

lemma attsStr_stops: "stops (attsStr ns)"
  by (cases ns) (simp_all add: stops_def)

lemma attsStr_read:
  "list_all (\<lambda>n. 0 \<le> n) ns \<Longrightarrow> is_attribs (attsStr ns) \<and> star_matches (attsStr ns) = map numToString ns"
proof (induction ns)
  case (Cons n ns)
  then have n: "numToString n \<noteq> []" "list_all is_alnum (numToString n)"
    using numToString_alnum by auto
  from Cons show ?case
    by (simp add: is_attribs_def takeWhile_alnum_append [OF n(2) attsStr_stops]
        dropWhile_alnum_append [OF n(2) attsStr_stops] n)
qed simp

text \<open>The strings the code writes, with every number as \<open>numToString\<close> has it.\<close>

definition numbered :: "string \<Rightarrow> bool" where
  "numbered s = (\<exists>ns. list_all (\<lambda>n. 0 \<le> n) ns \<and> s = attsStr ns)"

lemma numbered_Nil [simp]: "numbered []"
  by (auto simp: numbered_def intro!: exI [of _ "[]"])

lemma is_attribs_matches_Nil: "is_attribs s \<Longrightarrow> star_matches s = [] \<longleftrightarrow> s = []"
  by (cases s) (auto simp: is_attribs_def split: if_splits)

lemma attsStr_known:
  assumes "list_all2 (\<lambda>n a. \<exists>b. getAttrib p n = Some b \<and> attribStr b = attribStr a) ns atts"
    and "pool_wf p"
  shows "is_attribs (attsStr ns) \<and> numbered (attsStr ns) \<and> att_known p (attsStr ns) \<and>
    map attribStr (att_pairs p (attsStr ns)) = map attribStr atts"
proof -
  have k: "\<forall>n\<in>set ns. \<exists>b. getAttrib p n = Some b"
    using assms(1) by (induction rule: list_all2_induct) auto
  then have pos: "list_all (\<lambda>n. 0 \<le> n) ns"
    using pool_wf_bound [OF assms(2)] by (auto simp: list_all_iff)
  have "list_all (\<lambda>n. getAttrib p n \<noteq> None) ns"
    using k by (auto simp: list_all_iff)
  moreover have "map attribStr (map (\<lambda>n. the (getAttrib p n)) ns) = map attribStr atts"
    using assms(1) by (induction rule: list_all2_induct) auto
  ultimately show ?thesis
    using pos attsStr_read [OF pos]
    by (auto simp: att_known_def att_pairs_def numbered_def list_all_iff comp_def cong: map_cong)
qed

lemma putAttribs_fold:
  "pool_wf p \<Longrightarrow> \<exists>ns p'. foldE (\<lambda>att (buf, p). case p of
         None \<Rightarrow> Inl (TypeError ''null.putAttrib'')
       | Some pl \<Rightarrow> (let (n, pl') = putAttrib att False pl
                     in Inr (buf @ ''*'' @ numToString n, Some pl'))) atts (buf, Some p)
     = Inr (buf @ attsStr ns, Some p') \<and> pool_le p p' \<and>
     list_all2 (\<lambda>n a. \<exists>b. getAttrib p' n = Some b \<and> attribStr b = attribStr a) ns atts"
proof (induction atts arbitrary: p buf)
  case Nil
  then show ?case
    by (auto intro!: exI [of _ "[]"] pool_le_refl)
next
  case (Cons a atts)
  obtain n p1 where put: "putAttrib a False p = (n, p1)" by fastforce
  have le: "pool_le p p1" and wf1: "pool_wf p1"
    using pool_le_put [OF Cons.prems put] by (auto simp: pool_le_def)
  from ap.put_get [OF Cons.prems put] obtain b where b: "getAttrib p1 n = Some b" "attribStr b = attribStr a"
    by blast
  from Cons.IH [OF wf1, of "buf @ ''*'' @ numToString n"] obtain ns p' where
    st: "foldE (\<lambda>att (buf, p). case p of
         None \<Rightarrow> Inl (TypeError ''null.putAttrib'')
       | Some pl \<Rightarrow> (let (n, pl') = putAttrib att False pl
                     in Inr (buf @ ''*'' @ numToString n, Some pl'))) atts (buf @ ''*'' @ numToString n, Some p1)
     = Inr ((buf @ ''*'' @ numToString n) @ attsStr ns, Some p')"
    "pool_le p1 p'" "list_all2 (\<lambda>n a. \<exists>b. getAttrib p' n = Some b \<and> attribStr b = attribStr a) ns atts"
    by blast
  have "getAttrib p' n = Some b" using st(2) b(1) by (simp add: pool_le_def)
  with b(2) st put pool_le_trans [OF le st(2)] show ?case
    by (intro exI [of _ "n # ns"] exI [of _ p']) auto
qed

lemma putAttribs_ok:
  assumes "pool_wf p"
  shows "\<exists>s p'. putAttribs atts (Some p) = Inr (s, Some p') \<and> pool_le p p' \<and> is_attribs s \<and>
    att_known p' s \<and> map attribStr (att_pairs p' s) = map attribStr atts"
proof -
  from putAttribs_fold [OF assms, of atts "''''"] obtain ns p' where
    st: "putAttribs atts (Some p) = Inr (attsStr ns, Some p')" "pool_le p p'"
    "list_all2 (\<lambda>n a. \<exists>b. getAttrib p' n = Some b \<and> attribStr b = attribStr a) ns atts"
    unfolding putAttribs_def append_Nil by blast
  with attsStr_known [OF st(3)] show ?thesis by (auto simp: pool_le_wf)
qed

lemma foldE_poolAttrib:
  "list_all (\<lambda>a. getAttrib p (parseNum a) \<noteq> None) as \<Longrightarrow>
   foldE (\<lambda>a st. bindE (poolAttrib (Some p) a) (\<lambda>pair. Inr (f pair st))) as st =
   Inr (fold f (map (\<lambda>a. the (getAttrib p (parseNum a))) as) st)"
  by (induction as arbitrary: st) (auto simp: poolAttrib_def)

lemma fold_snoc: "fold (\<lambda>x acc. acc @ [x]) xs acc = acc @ xs"
  by (induction xs arbitrary: acc) auto

lemma pushAttribs_known: "att_known p s \<Longrightarrow> pushAttribs (Some p) s = Inr (att_pairs p s)"
  using foldE_poolAttrib [of p "star_matches s" "\<lambda>pair atts. atts @ [pair]" "[]"]
  by (simp add: pushAttribs_def att_known_def att_pairs_def fold_snoc)

subsection \<open>What composeAttributes computes\<close>

definition composePairs :: "bool \<Rightarrow> attrib list \<Rightarrow> attrib list \<Rightarrow> attrib list" where
  "composePairs m as bs =
     (if as = [] \<and> m then bs else if bs = [] then as
      else sort_key attribStr (fold (composePair m) bs as))"

text \<open>In the pool \<open>p\<close>, the string \<open>c\<close> stands for the composition of what \<open>a\<close> and \<open>b\<close> stand for.\<close>

definition attC :: "pool \<Rightarrow> bool \<Rightarrow> string \<Rightarrow> string \<Rightarrow> string \<Rightarrow> bool" where
  "attC p m a b c = (att_known p a \<and> att_known p b \<and> att_known p c \<and> is_attribs c \<and>
     map attribStr (att_pairs p c) = map attribStr (composePairs m (att_pairs p a) (att_pairs p b)))"

lemma attC_le: "pool_le p p' \<Longrightarrow> attC p m a b c \<Longrightarrow> attC p' m a b c"
  by (auto simp: attC_def att_known_le att_pairs_le)

lemma composeAttributes_ok:
  assumes wf: "pool_wf p" and a: "is_attribs a" "att_known p a" and b: "is_attribs b" "att_known p b"
  shows "\<exists>c p'. composeAttributes a b m (Some p) = Inr (c, Some p') \<and> pool_le p p' \<and>
    is_attribs c \<and> attC p' m a b c"
proof -
  have nil: "att_pairs p a = [] \<longleftrightarrow> a = []" "att_pairs p b = [] \<longleftrightarrow> b = []"
    using is_attribs_matches_Nil a(1) b(1) by (simp_all add: att_pairs_def)
  show ?thesis
  proof (cases "(a = [] \<and> m) \<or> b = []")
    case True
    then show ?thesis
      using a b nil pool_le_refl [OF wf]
      by (auto simp: composeAttributes_def attC_def composePairs_def)
  next
    case False
    let ?atts = "sort_key attribStr (fold (composePair m) (att_pairs p b) (att_pairs p a))"
    have "foldE (\<lambda>x atts. bindE (poolAttrib (Some p) x) (\<lambda>pair. Inr (composePair m pair atts)))
        (star_matches b) (att_pairs p a) = Inr (fold (composePair m) (att_pairs p b) (att_pairs p a))"
      using b(2) by (simp add: foldE_poolAttrib att_known_def att_pairs_def)
    with False have eq: "composeAttributes a b m (Some p) = putAttribs ?atts (Some p)"
      by (auto simp: composeAttributes_def pushAttribs_known [OF a(2)])
    from putAttribs_ok [OF wf, of ?atts] obtain s p' where
      s: "putAttribs ?atts (Some p) = Inr (s, Some p')" "pool_le p p'" "is_attribs s" "att_known p' s"
        "map attribStr (att_pairs p' s) = map attribStr ?atts" by blast
    have "composePairs m (att_pairs p a) (att_pairs p b) = ?atts"
      using False nil by (auto simp: composePairs_def)
    with s have "attC p' m a b s"
      using a b s(3) by (simp add: attC_def att_known_le [OF s(2)] att_pairs_le [OF s(2)])
    with s eq show ?thesis by (intro exI [of _ s] exI [of _ p']) simp
  qed
qed

subsection \<open>What the result means\<close>

text \<open>
  Stated without the loop of the code: attributes are maps from keys to values, and one map is written over
  another. \<open>stands p s f\<close> says that \<open>s\<close> reads in \<open>p\<close> as attributes with the map \<open>f\<close>, up to \<open>String(attrib)\<close>, by
  which the pool compares attributes.
\<close>

definition attrsOf :: "pool \<Rightarrow> string \<Rightarrow> string \<rightharpoonup> string" where
  "attrsOf p s = map_of (att_pairs p s)"

definition writeOver :: "bool \<Rightarrow> (string \<rightharpoonup> string) \<Rightarrow> (string \<rightharpoonup> string) \<Rightarrow> (string \<rightharpoonup> string)" where
  "writeOver m f g = (\<lambda>k. case g k of
       None \<Rightarrow> f k
     | Some v \<Rightarrow> if v = '''' \<and> \<not> m then None else Some v)"

definition keysOnce :: "attrib list \<Rightarrow> bool" where
  "keysOnce as = distinct (map fst as)"

definition stands :: "pool \<Rightarrow> string \<Rightarrow> (string \<rightharpoonup> string) \<Rightarrow> bool" where
  "stands p s f = (\<exists>R. keysOnce R \<and> map attribStr (att_pairs p s) = map attribStr R \<and> map_of R = f)"

lemma composePair_keys:
  "k \<in> set (map fst (composePair m b as)) \<Longrightarrow> k = fst b \<or> k \<in> set (map fst as)"
  by (induction as) (auto split: if_splits)

lemma composePair_once: "keysOnce as \<Longrightarrow> keysOnce (composePair m b as)"
proof (induction as)
  case (Cons a as)
  have "fst a \<noteq> fst b \<Longrightarrow> fst a \<notin> set (map fst (composePair m b as))"
    using composePair_keys [of "fst a" m b as] Cons.prems by (auto simp: keysOnce_def)
  with Cons show ?case by (cases "fst a = fst b") (auto simp: keysOnce_def)
qed (simp add: keysOnce_def)

lemma composePair_map:
  "keysOnce as \<Longrightarrow> map_of (composePair m b as) =
   (map_of as)(fst b := if snd b = '''' \<and> \<not> m then None else Some (snd b))"
proof (induction as)
  case (Cons a as)
  have "map_of as (fst a) = None" and "keysOnce as"
    using Cons.prems by (simp_all add: keysOnce_def map_of_eq_None_iff)
  with Cons.IH show ?case
    by (cases a; cases "fst a = fst b") (auto simp: fun_eq_iff)
qed (cases b, auto)

lemma composePairs_fold:
  "keysOnce as \<Longrightarrow> keysOnce bs \<Longrightarrow> keysOnce (fold (composePair m) bs as) \<and>
   map_of (fold (composePair m) bs as) = writeOver m (map_of as) (map_of bs)"
proof (induction bs arbitrary: as)
  case Nil
  then show ?case by (simp add: writeOver_def)
next
  case (Cons b bs)
  have n: "map_of bs (fst b) = None" and bs: "keysOnce bs"
    using Cons.prems by (simp_all add: keysOnce_def map_of_eq_None_iff)
  show ?case
    using Cons.IH [OF composePair_once [OF Cons.prems(1)] bs, of m b] n
    by (cases b) (auto simp: composePair_map [OF Cons.prems(1)] writeOver_def fun_eq_iff)
qed

lemma keysOnce_sort:
  assumes "keysOnce as"
  shows "keysOnce (sort_key f as)" and "map_of (sort_key f as) = map_of as"
proof -
  show o: "keysOnce (sort_key f as)"
    using assms unfolding keysOnce_def by (simp add: distinct_map)
  show "map_of (sort_key f as) = map_of as"
    using map_of_inject_set [of "sort_key f as" as] o assms by (simp add: keysOnce_def)
qed

lemma composePairs_writeOver:
  assumes "keysOnce as" and "keysOnce bs"
  shows "keysOnce (composePairs m as bs) \<and> map_of (composePairs m as bs) = writeOver m (map_of as) (map_of bs)"
proof (cases "(as = [] \<and> m) \<or> bs = []")
  case True
  with assms show ?thesis
    by (auto simp: composePairs_def writeOver_def fun_eq_iff split: option.splits)
next
  case False
  note f = composePairs_fold [OF assms, of m]
  from False have "composePairs m as bs = sort_key attribStr (fold (composePair m) bs as)"
    by (auto simp: composePairs_def)
  with f show ?thesis by (simp only: keysOnce_sort)
qed

lemma attC_stands:
  assumes "attC p m a b c" and "keysOnce (att_pairs p a)" and "keysOnce (att_pairs p b)"
  shows "stands p c (writeOver m (attrsOf p a) (attrsOf p b))"
  using assms(1) composePairs_writeOver [OF assms(2,3), of m]
  unfolding stands_def attC_def attrsOf_def by blast

text \<open>
  C21. Merging the attributes of two operations: in a pool that knows both strings,
  when neither names a key twice, \<open>composeAttributes\<close> succeeds, only adds to the pool, and returns a
  readable string that stands for the map of the first with the map of the second written over it:
  a key of the second takes its new value, a key the second does not mention keeps its value, and an
  empty new value removes the key unless the result is itself a change. When both strings are
  non-empty the attributes come in the order of their printed form.
\<close>

theorem composeAttributes_composes:
  assumes "pool_wf p" and "is_attribs a" "att_known p a" and "is_attribs b" "att_known p b"
    and "keysOnce (att_pairs p a)" and "keysOnce (att_pairs p b)"
  shows "\<exists>c p'. composeAttributes a b m (Some p) = Inr (c, Some p') \<and> pool_le p p' \<and>
    is_attribs c \<and> att_known p' c \<and>
    stands p' c (writeOver m (attrsOf p a) (attrsOf p b)) \<and>
    (a \<noteq> '''' \<and> b \<noteq> '''' \<longrightarrow> sorted (map attribStr (att_pairs p' c)))"
proof -
  from composeAttributes_ok [OF assms(1-5), of m] obtain c p' where
    c: "composeAttributes a b m (Some p) = Inr (c, Some p')" "pool_le p p'" "is_attribs c"
      "attC p' m a b c" by blast
  have eq: "att_pairs p' a = att_pairs p a" "att_pairs p' b = att_pairs p b"
    using c(2) assms by (simp_all add: att_pairs_le)
  have "stands p' c (writeOver m (attrsOf p a) (attrsOf p b))"
    using attC_stands [OF c(4)] assms(6,7) by (simp add: eq attrsOf_def)
  moreover have "sorted (map attribStr (att_pairs p' c))" if "a \<noteq> ''''" "b \<noteq> ''''"
  proof -
    have "att_pairs p a \<noteq> []" "att_pairs p b \<noteq> []"
      using that is_attribs_matches_Nil assms(2,4) by (simp_all add: att_pairs_def)
    then show ?thesis
      using c(4) by (simp add: attC_def composePairs_def eq)
  qed
  moreover have "att_known p' c" using c(4) by (simp add: attC_def)
  ultimately show ?thesis using c by blast
qed

theorem composeAttributes_composes_witness:
  "\<exists>c p' R. composeAttributes ''*0'' ''*1'' True
      (Some (snd (putAttrib (''bold'', '''') False
        (snd (putAttrib (''bold'', ''true'') False AttribPool))))) = Inr (c, Some p') \<and>
      map attribStr (att_pairs p' c) = map attribStr R \<and> map_of R ''bold'' = Some ''''"
proof -
  let ?q = "snd (putAttrib (''bold'', ''true'') False AttribPool)"
  let ?p = "snd (putAttrib (''bold'', '''') False ?q)"
  have "pool_wf ?q" using ap.put_wf [OF pool_wf_empty] by (metis prod.collapse)
  then have "pool_wf ?p" using ap.put_wf by (metis prod.collapse)
  moreover have "is_attribs ''*0''" "att_known ?p ''*0''" "is_attribs ''*1''" "att_known ?p ''*1''"
    "keysOnce (att_pairs ?p ''*0'')" "keysOnce (att_pairs ?p ''*1'')" by code_simp+
  ultimately obtain c p' where c: "composeAttributes ''*0'' ''*1'' True (Some ?p) = Inr (c, Some p')"
    "stands p' c (writeOver True (attrsOf ?p ''*0'') (attrsOf ?p ''*1''))"
    using composeAttributes_composes [of ?p "''*0''" "''*1''" True] by blast
  have "writeOver True (attrsOf ?p ''*0'') (attrsOf ?p ''*1'') ''bold'' = Some ''''" by code_simp
  with c show ?thesis unfolding stands_def by metis
qed

end
