(* ===== verification/Zipping.thy ===== *)
theory Zipping
  imports AttribLaws
begin

text \<open>
  Operation streams as edit scripts, run by run, and the locale \<open>script_zipper\<close>: what \<open>applyZip\<close>
  computes with a zipper function whose single calls are right. It is interpreted on the slicer,
  on the zipper function of \<open>compose\<close> and on the one of \<open>follow\<close>.
\<close>

subsection \<open>Runs\<close>

text \<open>Runs of edits of one kind.\<close>

definition run :: "opcode \<Rightarrow> string \<Rightarrow> string \<Rightarrow> script" where
  "run k a cs = map (Edit k a) cs"

lemma run_simps [simp]:
  "run k a [] = []" "run k a (c # cs) = Edit k a c # run k a cs"
  "run k a (cs @ ds) = run k a cs @ run k a ds" "map ed_char (run k a cs) = cs"
  "length (run k a cs) = length cs"
  by (simp_all add: run_def comp_def)

lemma run_text [simp]:
  "src (run k a cs) = (if k = Ins then [] else cs)"
  "dst (run k a cs) = (if k = Del then [] else cs)"
  "inserted (run k a cs) = (if k = Ins then cs else [])"
  by (induction cs) auto

definition fits :: "op \<Rightarrow> string \<Rightarrow> bool" where
  "fits o1 cs = (cs \<noteq> [] \<and> opcode o1 \<noteq> NoOp \<and> chars o1 = int (length cs) \<and>
     lines o1 = count_nl cs \<and> (0 < lines o1 \<longrightarrow> last cs = nl))"

lemma run_of_kind:
  "\<forall>e\<in>set es. ed_op e = k \<and> ed_att e = a \<Longrightarrow> es = run k a (map ed_char es)"
  by (induction es) (auto simp: run_def intro: edit.expand)

lemma run_kind: "e \<in> set (run k a cs) \<Longrightarrow> ed_op e = k \<and> ed_att e = a"
  by (auto simp: run_def)

lemma covers_run: "covers o1 es \<longleftrightarrow> (\<exists>cs. es = run (opcode o1) (attribs o1) cs \<and> fits o1 cs)"
proof
  assume c: "covers o1 es"
  then have "es = run (opcode o1) (attribs o1) (map ed_char es)"
    by (intro run_of_kind) (simp add: covers_def)
  moreover have "fits o1 (map ed_char es)"
    using c by (auto simp: covers_def fits_def last_map)
  ultimately show "\<exists>cs. es = run (opcode o1) (attribs o1) cs \<and> fits o1 cs" by blast
next
  assume "\<exists>cs. es = run (opcode o1) (attribs o1) cs \<and> fits o1 cs"
  then obtain cs where "es = run (opcode o1) (attribs o1) cs" "fits o1 cs" by blast
  then show "covers o1 es"
    using run_kind by (auto simp: covers_def fits_def last_map run_def comp_def)
qed

lemma fits_length: "fits o1 cs \<Longrightarrow> chars o1 = int (length cs) \<and> lines o1 = count_nl cs"
  by (simp add: fits_def)

lemma fits_rest:
  "fits o1 (cs @ ds) \<Longrightarrow> ds \<noteq> [] \<Longrightarrow> n = int (length cs) \<Longrightarrow> l = count_nl cs
   \<Longrightarrow> fits (o1\<lparr>chars := chars o1 - n, lines := lines o1 - l\<rparr>) ds"
  using count_nl_nonneg [of cs] by (auto simp: fits_def)

lemma fits_part:
  "fits o1 cs \<Longrightarrow> k \<noteq> NoOp
   \<Longrightarrow> fits (o2\<lparr>opcode := k, chars := chars o1, lines := lines o1, attribs := a\<rparr>) cs"
  by (simp add: fits_def)

subsection \<open>Streams of operations as pieces\<close>

text \<open>
  A script together with its cut into operations: one piece (opcode, attributes, characters) for
  each operation. Only the tie-break of \<open>follow\<close> looks at the cut.
\<close>

type_synonym piece = "opcode \<times> string \<times> string"

definition flat :: "piece list \<Rightarrow> script" where
  "flat ps = concat (map (\<lambda>(k, a, cs). run k a cs) ps)"

lemma flat_simps [simp]:
  "flat [] = []" "flat ((k, a, cs) # ps) = run k a cs @ flat ps"
  by (simp_all add: flat_def)

definition is_piece :: "op \<Rightarrow> piece \<Rightarrow> bool" where
  "is_piece o1 pc = (case pc of (k, a, cs) \<Rightarrow> k = opcode o1 \<and> a = attribs o1 \<and> fits o1 cs)"

definition pieces :: "op list \<Rightarrow> piece list \<Rightarrow> bool" where
  "pieces os ps = list_all2 is_piece os ps"

lemma pieces_simps [simp]:
  "pieces [] ps = (ps = [])" "pieces os [] = (os = [])"
  "pieces (o1 # os) (pc # ps) = (is_piece o1 pc \<and> pieces os ps)"
  by (simp_all add: pieces_def)

lemma pieces_ConsE:
  assumes "pieces (o1 # os) ps"
  obtains cs ps' where "ps = (opcode o1, attribs o1, cs) # ps'" "fits o1 cs" "pieces os ps'"
  using assms by (cases ps) (auto simp: is_piece_def)

lemma pieces_denotes: "pieces os ps \<Longrightarrow> denotes os (flat ps)"
proof (induction os arbitrary: ps)
  case (Cons o1 os)
  from Cons.prems obtain cs ps' where p: "ps = (opcode o1, attribs o1, cs) # ps'" "fits o1 cs"
    "pieces os ps'" by (rule pieces_ConsE)
  from p(2) have "covers o1 (run (opcode o1) (attribs o1) cs)" using covers_run by blast
  from denotes_Cons_append [OF this] Cons.IH [OF p(3)] p(1) show ?case by simp
qed simp

lemma denotes_pieces: "denotes os es \<Longrightarrow> \<exists>ps. pieces os ps \<and> es = flat ps"
proof (induction os arbitrary: es)
  case Nil
  then show ?case by (auto intro!: exI [of _ "[]"])
next
  case (Cons o1 os)
  from Cons.prems obtain xs ys where d: "es = xs @ ys" "covers o1 xs" "denotes os ys"
    by (rule denotes_ConsE)
  from d(2) obtain cs where "xs = run (opcode o1) (attribs o1) cs" "fits o1 cs"
    using covers_run by blast
  moreover from Cons.IH [OF d(3)] obtain ps where "pieces os ps" "ys = flat ps" by blast
  ultimately show ?case
    using d(1) by (intro exI [of _ "(opcode o1, attribs o1, cs) # ps"]) (simp add: is_piece_def)
qed

definition pahead :: "op \<Rightarrow> opIter \<Rightarrow> piece list \<Rightarrow> bool" where
  "pahead o1 it ps =
     (\<exists>os. yields it os \<and> pieces ((if opcode o1 = NoOp then [] else [o1]) @ os) ps)"

definition pfetched :: "op \<Rightarrow> opIter \<Rightarrow> piece list \<Rightarrow> bool" where
  "pfetched o1 it ps =
     ((opcode o1 = NoOp \<and> ps = [] \<and> \<not> hasNext it) \<or>
      (\<exists>cs ps' os. fits o1 cs \<and> ps = (opcode o1, attribs o1, cs) # ps' \<and>
         yields it os \<and> pieces os ps'))"

lemma pahead_Nil: "pahead o1 it [] \<Longrightarrow> opcode o1 = NoOp \<and> \<not> hasNext it"
  by (auto simp: pahead_def split: if_splits)

lemma pahead_done: "pahead o1 it ps \<Longrightarrow> opcode o1 = NoOp \<Longrightarrow> \<not> hasNext it \<Longrightarrow> ps = []"
proof -
  assume "pahead o1 it ps" and n: "opcode o1 = NoOp" "\<not> hasNext it"
  then obtain os where y: "yields it os" "pieces os ps" by (auto simp: pahead_def)
  with n have "os = []" by (cases os) simp_all
  with y show "ps = []" by simp
qed

lemma pahead_NoOp: "yields it os \<Longrightarrow> pieces os ps \<Longrightarrow> opcode o1 = NoOp \<Longrightarrow> pahead o1 it ps"
  by (auto simp: pahead_def)

lemma pahead_part:
  "yields it os \<Longrightarrow> pieces os ps \<Longrightarrow> fits o1 cs \<Longrightarrow> pahead o1 it ((opcode o1, attribs o1, cs) # ps)"
  unfolding pahead_def by (intro exI [of _ os]) (simp add: fits_def is_piece_def)

lemma pfetched_pahead: "pfetched o1 it ps \<Longrightarrow> pahead o1 it ps"
proof -
  assume "pfetched o1 it ps"
  then consider "opcode o1 = NoOp" "ps = []" "yields it []"
    | cs ps' os where "fits o1 cs" "ps = (opcode o1, attribs o1, cs) # ps'" "yields it os" "pieces os ps'"
    unfolding pfetched_def by auto
  then show ?thesis by cases (auto intro: pahead_part pahead_NoOp [of it "[]"])
qed

lemma zipFetch_pahead:
  assumes "pahead o1 it ps"
  shows "\<exists>o2 it'. zipFetch o1 it = Inr (o2, it') \<and> pfetched o2 it' ps"
proof -
  from assms obtain os where y: "yields it os"
    and d: "pieces ((if opcode o1 = NoOp then [] else [o1]) @ os) ps"
    by (auto simp: pahead_def)
  show ?thesis
  proof (cases "opcode o1 = NoOp")
    case False
    with d have "pieces (o1 # os) ps" by simp
    then obtain cs ps' where "ps = (opcode o1, attribs o1, cs) # ps'" "fits o1 cs" "pieces os ps'"
      by (rule pieces_ConsE)
    with y False show ?thesis by (auto simp: zipFetch_def pfetched_def)
  next
    case True
    show ?thesis
    proof (cases os)
      case Nil
      with True y d show ?thesis by (auto simp: zipFetch_def pfetched_def)
    next
      case (Cons o2 os')
      from y have "yields it (o2 # os')" unfolding Cons .
      then obtain it' where it: "hasNext it" "opNext it = Inr (o2, it')" "yields it' os'"
        by (rule yields_ConsE)
      from d True Cons have "pieces (o2 # os') ps" by simp
      then obtain cs ps' where "ps = (opcode o2, attribs o2, cs) # ps'" "fits o2 cs"
        "pieces os' ps'" by (rule pieces_ConsE)
      with it True show ?thesis by (auto simp: zipFetch_def pfetched_def)
    qed
  qed
qed

lemma pahead_rest:
  assumes y: "yields it os" "pieces os ps" and f: "fits o1 (cs @ ds)"
    and n: "n = int (length cs)" "l = count_nl cs"
    and o2: "o2 = o1\<lparr>chars := chars o1 - n, lines := lines o1 - l\<rparr>"
  shows "pahead (if chars o2 = 0 then o2\<lparr>opcode := NoOp\<rparr> else o2) it
    (if ds = [] then ps else (opcode o1, attribs o1, ds) # ps)"
proof (cases "ds = []")
  case True
  with f n have "chars o2 = 0" unfolding o2 by (simp add: fits_def)
  with True pahead_NoOp [OF y] show ?thesis by simp
next
  case False
  with f n have "chars o2 \<noteq> 0" unfolding o2 by (simp add: fits_def)
  with False pahead_part [OF y fits_rest [OF f False n]] show ?thesis by (simp add: o2)
qed

text \<open>The same with the cut into operations left out.\<close>

definition ahead :: "op \<Rightarrow> opIter \<Rightarrow> script \<Rightarrow> bool" where
  "ahead o1 it es = (\<exists>ps. pahead o1 it ps \<and> es = flat ps)"

definition fetched :: "op \<Rightarrow> opIter \<Rightarrow> script \<Rightarrow> bool" where
  "fetched o1 it es =
     ((opcode o1 = NoOp \<and> es = [] \<and> \<not> hasNext it) \<or>
      (\<exists>cs es'. fits o1 cs \<and> es = run (opcode o1) (attribs o1) cs @ es' \<and>
         (\<exists>os. yields it os \<and> denotes os es')))"

lemma pfetched_fetched: "pfetched o1 it ps \<Longrightarrow> fetched o1 it (flat ps)"
  unfolding pfetched_def fetched_def using pieces_denotes by fastforce

lemma ahead_NoOp: "yields it os \<Longrightarrow> denotes os es \<Longrightarrow> opcode o1 = NoOp \<Longrightarrow> ahead o1 it es"
  unfolding ahead_def using denotes_pieces pahead_NoOp by blast

lemma ahead_rest:
  "yields it os \<Longrightarrow> denotes os es \<Longrightarrow> ahead (o1\<lparr>opcode := NoOp\<rparr>) it es"
  by (rule ahead_NoOp) simp_all

lemma ahead_part:
  "yields it os \<Longrightarrow> denotes os es \<Longrightarrow> fits o1 ds \<Longrightarrow> ahead o1 it (run (opcode o1) (attribs o1) ds @ es)"
  unfolding ahead_def using denotes_pieces pahead_part by (metis flat_simps(2))

lemma fetched_ahead: "fetched o1 it es \<Longrightarrow> ahead o1 it es"
proof -
  assume "fetched o1 it es"
  then consider "opcode o1 = NoOp" "es = []" "yields it []"
    | cs es' os where "fits o1 cs" "es = run (opcode o1) (attribs o1) cs @ es'" "yields it os" "denotes os es'"
    unfolding fetched_def by auto
  then show ?thesis
    by cases (auto intro: ahead_part ahead_NoOp [of it "[]"])
qed

lemma ahead_rest_op:
  assumes y: "yields it os" "denotes os es" and f: "fits o1 (cs @ ds)"
    and n: "n = int (length cs)" "l = count_nl cs"
    and o2: "o2 = o1\<lparr>chars := chars o1 - n, lines := lines o1 - l\<rparr>"
  shows "ahead (if chars o2 = 0 then o2\<lparr>opcode := NoOp\<rparr> else o2) it
    (run (opcode o1) (attribs o1) ds @ es)"
proof (cases "ds = []")
  case True
  with f n have "chars o2 = 0" unfolding o2 by (simp add: fits_def)
  with True ahead_rest [OF y] show ?thesis by simp
next
  case False
  with f n have "chars o2 \<noteq> 0" unfolding o2 by (simp add: fits_def)
  with ahead_part [OF y fits_rest [OF f False n]] show ?thesis by (simp add: o2)
qed

text \<open>The attributes of a script are readable and known to the pool.\<close>

definition known :: "pool \<Rightarrow> script \<Rightarrow> bool" where
  "known p es = list_all (\<lambda>e. is_attribs (ed_att e) \<and> att_known p (ed_att e)) es"

lemma known_append [simp]: "known p (es @ fs) = (known p es \<and> known p fs)"
  by (simp add: known_def)

lemma known_run: "known p (run k a cs) = (cs = [] \<or> is_attribs a \<and> att_known p a)"
  by (induction cs) (auto simp: known_def)

lemma known_le: "pool_le p q \<Longrightarrow> known p es \<Longrightarrow> known q es"
  by (auto simp: known_def list_all_iff att_known_le)

lemma att_known_Nil [simp]: "att_known p []"
  by (simp add: att_known_def)

definition outputs :: "op \<Rightarrow> script \<Rightarrow> bool" where
  "outputs out g = (if opcode out = NoOp then g = [] else covers out g)"

lemma outputs_run: "fits o1 cs \<Longrightarrow> out = o2\<lparr>opcode := k, chars := chars o1, lines := lines o1, attribs := a\<rparr>
   \<Longrightarrow> k \<noteq> NoOp \<Longrightarrow> outputs out (run k a cs)"
  using covers_run [of out "run k a cs"] by (auto simp: outputs_def fits_def)

lemma outputs_copy: "fits o1 cs \<Longrightarrow> outputs o1 (run (opcode o1) (attribs o1) cs)"
  using covers_run [of o1 "run (opcode o1) (attribs o1) cs"] by (auto simp: outputs_def fits_def)

text \<open>A changeset packed from the canonical string of a script reads as the normal form of the script.\<close>

lemma known_script_ok: "no_NoOp es \<Longrightarrow> known p es \<Longrightarrow> script_ok es"
  by (auto simp: no_NoOp_def known_def script_ok_def list_all_iff)

lemma cs_on_smart:
  assumes ok: "script_ok es" and t: "t = src es @ r"
  shows "cs_on (pack (int (length t)) (int (length (dst es @ r))) (smart_string es) (inserted es)) t
      (smart_norm es) \<and> result t (smart_norm es) = dst es @ r"
proof -
  note nn = script_ok_no_NoOp [OF ok]
  from smart_norm_text [OF nn] obtain rest where
    n: "src es = src (smart_norm es) @ rest" "dst es = dst (smart_norm es) @ rest"
      "inserted (smart_norm es) = inserted es" "set (smart_norm es) \<subseteq> set es" by blast
  have t': "t = src (smart_norm es) @ (rest @ r)" by (simp add: t n(1))
  have res: "result t (smart_norm es) = dst es @ r" unfolding t' by (simp add: n(2))
  from smart_string_denotes [OF nn] obtain os where
    os: "smart_string es = encode os" "denotes os (smart_norm es)" by blast
  have "script_ok (smart_norm es)" using ok n(4) by (auto simp: script_ok_def list_all_iff)
  moreover have "on_text (smart_norm es) t" using t' by (auto simp: on_text_iff)
  ultimately show ?thesis using cs_on_pack [OF os(2)] os(1) n(3) res by metis
qed

definition packed :: "string \<Rightarrow> script \<Rightarrow> string" where
  "packed t es = pack (int (length t)) (int (length (result t es))) (smart_string es) (inserted es)"

lemma packed_eq: "packed (src es @ r) es =
    pack (int (length (src es @ r))) (int (length (dst es @ r))) (smart_string es) (inserted es)"
  by (simp add: packed_def)

subsection \<open>Zipper functions as transformers of scripts\<close>

text \<open>
  A zipper function that takes a non-empty part off two streams at every call, keeps the invariant
  \<open>inv\<close> of the variables it closes over and of what is left of the streams, and builds the output
  piece by piece: \<open>ends st ps qs gs st'\<close> says that from the state \<open>st\<close>, with \<open>ps\<close> and \<open>qs\<close> ahead,
  the outputs \<open>gs\<close> and the final state \<open>st'\<close> are right.
\<close>

locale piece_zipper = zipper func for func :: "op \<Rightarrow> op \<Rightarrow> op \<Rightarrow> 's \<Rightarrow> ((op \<times> op \<times> op) \<times> 's) res" +
  fixes pinv :: "'s \<Rightarrow> piece list \<Rightarrow> piece list \<Rightarrow> bool"
    and pends :: "'s \<Rightarrow> piece list \<Rightarrow> piece list \<Rightarrow> script \<Rightarrow> 's \<Rightarrow> bool"
  assumes pends_nil: "pinv st [] [] \<Longrightarrow> pends st [] [] [] st"
    and pstep: "pfetched a1 i1 ps \<Longrightarrow> pfetched a2 i2 qs \<Longrightarrow> opcode opOut = NoOp
      \<Longrightarrow> opcode a1 \<noteq> NoOp \<or> opcode a2 \<noteq> NoOp \<Longrightarrow> pinv st ps qs
      \<Longrightarrow> \<exists>a1' a2' o2 st' ps' qs' g. func a1 a2 opOut st = Inr ((a1', a2', o2), st') \<and>
        pahead a1' i1 ps' \<and> pahead a2' i2 qs' \<and> outputs o2 g \<and> pinv st' ps' qs' \<and>
        (\<forall>gs st''. pends st' ps' qs' gs st'' \<longrightarrow> pends st ps qs (g @ gs) st'')"
begin

lemma zipLoop_pends:
  assumes "pahead op1 it1 ps" and "pahead op2 it2 qs" and "opcode opOut = NoOp" and "pinv st ps qs"
  shows "\<exists>os gs st'. zipLoop func it1 it2 op1 op2 opOut assem st =
      Some (Inr (fold sa_append os assem, st')) \<and> denotes os gs \<and> pends st ps qs gs st'"
  using assms
proof (induction "iter_size it1 + pend op1 + iter_size it2 + pend op2"
    arbitrary: it1 it2 op1 op2 opOut assem st ps qs rule: less_induct)
  case less
  show ?case
  proof (cases "opcode op1 \<noteq> NoOp \<or> hasNext it1 \<or> opcode op2 \<noteq> NoOp \<or> hasNext it2")
    case False
    with less.prems have "ps = []" "qs = []" by (auto dest: pahead_done)
    with less.prems(4) pends_nil have "pends st ps qs [] st" by simp
    with False show ?thesis
      by (intro exI [of _ "[]"] exI [of _ st], subst zipLoop.simps) simp
  next
    case guard: True
    from zipFetch_pahead [OF less.prems(1)] obtain a1 i1 where
      f1: "zipFetch op1 it1 = Inr (a1, i1)" "pfetched a1 i1 ps" by blast
    from zipFetch_pahead [OF less.prems(2)] obtain a2 i2 where
      f2: "zipFetch op2 it2 = Inr (a2, i2)" "pfetched a2 i2 qs" by blast
    have some: "opcode a1 \<noteq> NoOp \<or> opcode a2 \<noteq> NoOp"
    proof (rule ccontr)
      assume "\<not> ?thesis"
      with f1(2) f2(2) have "ps = []" "qs = []" by (auto simp: pfetched_def fits_def)
      with guard pahead_Nil less.prems(1,2) show False by blast
    qed
    from pstep [OF f1(2) f2(2) less.prems(3) some less.prems(4)] obtain b1 b2 o2 st1 ps' qs' g where
      s: "func a1 a2 opOut st = Inr ((b1, b2, o2), st1)" "pahead b1 i1 ps'" "pahead b2 i2 qs'"
        "outputs o2 g" "pinv st1 ps' qs'"
      and e: "\<And>gs st''. pends st1 ps' qs' gs st'' \<Longrightarrow> pends st ps qs (g @ gs) st''" by blast
    have "iter_size i1 + pend b1 + iter_size i2 + pend b2
        < iter_size it1 + pend op1 + iter_size it2 + pend op2"
      using progress [OF s(1) some] fetch_size [OF f1(1)] fetch_size [OF f2(1)] by linarith
    note lt = this
    have "opcode (if opcode o2 \<noteq> NoOp then o2\<lparr>opcode := NoOp\<rparr> else o2) = NoOp" by simp
    from less.hyps [OF lt s(2,3) this s(5), of "if opcode o2 \<noteq> NoOp then sa_append o2 assem else assem"]
    obtain os gs st' where l: "zipLoop func i1 i2 b1 b2
          (if opcode o2 \<noteq> NoOp then o2\<lparr>opcode := NoOp\<rparr> else o2)
          (if opcode o2 \<noteq> NoOp then sa_append o2 assem else assem) st1 =
        Some (Inr (fold sa_append os (if opcode o2 \<noteq> NoOp then sa_append o2 assem else assem), st'))"
      "denotes os gs" "pends st1 ps' qs' gs st'" by blast
    define os' where "os' = (if opcode o2 = NoOp then os else o2 # os)"
    have "zipLoop func it1 it2 op1 op2 opOut assem st = Some (Inr (fold sa_append os' assem, st'))"
      using guard f1(1) f2(1) s(1) l(1) by (subst zipLoop.simps) (auto simp: os'_def Let_def)
    moreover have "denotes os' (g @ gs)"
      using s(4) l(2) by (auto simp: os'_def outputs_def denotes_Cons_append)
    ultimately show ?thesis using e [OF l(3)] by blast
  qed
qed

lemma applyZip_pends:
  assumes "parse_ops in1 = Inr os1" "pieces os1 ps" and "parse_ops in2 = Inr os2" "pieces os2 qs"
    and "pinv st ps qs"
  shows "\<exists>gs st'. applyZip in1 0 in2 0 func st = Inr (smart_string gs, st') \<and> no_NoOp gs \<and>
    pends st ps qs gs st'"
proof -
  from assms(1) obtain it1 where i1: "opIterator in1 0 = Inr it1" "yields it1 os1"
    by (rule parse_opsE)
  from assms(3) obtain it2 where i2: "opIterator in2 0 = Inr it2" "yields it2 os2"
    by (rule parse_opsE)
  have n: "opcode (newOp NoOp) = NoOp" by (simp add: newOp_def)
  from zipLoop_pends [OF pahead_NoOp [OF i1(2) assms(2) n] pahead_NoOp [OF i2(2) assms(4) n] n assms(5),
      of smartOpAssembler]
  obtain os gs st' where z: "zipLoop func it1 it2 (newOp NoOp) (newOp NoOp) (newOp NoOp)
      smartOpAssembler st = Some (Inr (fold sa_append os smartOpAssembler, st'))"
    "denotes os gs" "pends st ps qs gs st'" by blast
  then show ?thesis
    using smart_print_string [OF z(2)] denotes_no_NoOp [OF z(2)] i1(1) i2(1) by (auto simp: applyZip_def smart_print_def)
qed

end

text \<open>A zipper function whose correctness does not depend on the cut into operations.\<close>

locale script_zipper = zipper func for func :: "op \<Rightarrow> op \<Rightarrow> op \<Rightarrow> 's \<Rightarrow> ((op \<times> op \<times> op) \<times> 's) res" +
  fixes inv :: "'s \<Rightarrow> script \<Rightarrow> script \<Rightarrow> bool"
    and ends :: "'s \<Rightarrow> script \<Rightarrow> script \<Rightarrow> script \<Rightarrow> 's \<Rightarrow> bool"
  assumes ends_nil: "inv st [] [] \<Longrightarrow> ends st [] [] [] st"
    and step: "fetched a1 i1 es \<Longrightarrow> fetched a2 i2 fs \<Longrightarrow> opcode opOut = NoOp
      \<Longrightarrow> opcode a1 \<noteq> NoOp \<or> opcode a2 \<noteq> NoOp \<Longrightarrow> inv st es fs
      \<Longrightarrow> \<exists>a1' a2' o2 st' es' fs' g. func a1 a2 opOut st = Inr ((a1', a2', o2), st') \<and>
        ahead a1' i1 es' \<and> ahead a2' i2 fs' \<and> outputs o2 g \<and> inv st' es' fs' \<and>
        (\<forall>gs st''. ends st' es' fs' gs st'' \<longrightarrow> ends st es fs (g @ gs) st'')"

sublocale script_zipper \<subseteq> piece_zipper func "\<lambda>st ps qs. inv st (flat ps) (flat qs)"
  "\<lambda>st ps qs. ends st (flat ps) (flat qs)"
proof unfold_locales
  fix st assume "inv st (flat []) (flat [])"
  then show "ends st (flat []) (flat []) [] st" using ends_nil by simp
next
  fix a1 i1 ps a2 i2 qs st and opOut :: op
  assume "pfetched a1 i1 ps" "pfetched a2 i2 qs" "opcode opOut = NoOp"
    "opcode a1 \<noteq> NoOp \<or> opcode a2 \<noteq> NoOp" "inv st (flat ps) (flat qs)"
  from step [OF pfetched_fetched [OF this(1)] pfetched_fetched [OF this(2)] this(3-5)]
  show "\<exists>a1' a2' o2 st' ps' qs' g. func a1 a2 opOut st = Inr ((a1', a2', o2), st') \<and>
      pahead a1' i1 ps' \<and> pahead a2' i2 qs' \<and> outputs o2 g \<and> inv st' (flat ps') (flat qs') \<and>
      (\<forall>gs st''. ends st' (flat ps') (flat qs') gs st'' \<longrightarrow> ends st (flat ps) (flat qs) (g @ gs) st'')"
    unfolding ahead_def by blast
qed

context script_zipper
begin

lemma applyZip_ends:
  assumes "parse_ops in1 = Inr os1" "denotes os1 es" and "parse_ops in2 = Inr os2" "denotes os2 fs"
    and "inv st es fs"
  shows "\<exists>gs st'. applyZip in1 0 in2 0 func st = Inr (smart_string gs, st') \<and> no_NoOp gs \<and>
    ends st es fs gs st'"
proof -
  obtain ps where p: "pieces os1 ps" "es = flat ps" using denotes_pieces [OF assms(2)] by blast
  obtain qs where q: "pieces os2 qs" "fs = flat qs" using denotes_pieces [OF assms(4)] by blast
  from applyZip_pends [OF assms(1) p(1) assms(3) q(1)] assms(5) show ?thesis
    unfolding p(2) q(2) by blast
qed

end

end
