(* ===== verification/ComposeLaws.thy ===== *)
theory ComposeLaws
  imports Zipping
begin

text \<open>
  The correctness of \<open>compose\<close> and \<open>applyToAttribution\<close>: a relational specification of the
  composition of edit scripts, the proof that every call of the slicer performs one of its rules
  on a run of characters, and the interpretations of \<open>script_zipper\<close> that lift this to changesets.
\<close>

subsection \<open>Composition of edit scripts\<close>

text \<open>
  The specification of composition, one rule per pair of edits that meet: \<open>A m a b c\<close> says that
  \<open>c\<close> is what the attributes \<open>a\<close> become under \<open>b\<close>.
\<close>

inductive composes ::
  "(bool \<Rightarrow> string \<Rightarrow> string \<Rightarrow> string \<Rightarrow> bool) \<Rightarrow> script \<Rightarrow> script \<Rightarrow> script \<Rightarrow> bool" for A where
  nil: "composes A [] [] []"
| left: "composes A es [] gs \<Longrightarrow> composes A (e # es) [] (e # gs)"
| right: "composes A [] fs gs \<Longrightarrow> composes A [] (f # fs) (f # gs)"
| del: "composes A es fs gs \<Longrightarrow> composes A (Edit Del a c # es) fs (Edit Del a c # gs)"
| ins: "composes A es fs gs \<Longrightarrow> composes A es (Edit Ins b c # fs) (Edit Ins b c # gs)"
| ins_del: "composes A es fs gs \<Longrightarrow> composes A (Edit Ins a c # es) (Edit Del b c # fs) gs"
| ins_keep: "A False a b x \<Longrightarrow> composes A es fs gs
    \<Longrightarrow> composes A (Edit Ins a c # es) (Edit Keep b c # fs) (Edit Ins x c # gs)"
| keep_del: "composes A es fs gs
    \<Longrightarrow> composes A (Edit Keep a c # es) (Edit Del b c # fs) (Edit Del '''' c # gs)"
| keep_keep: "A True a b x \<Longrightarrow> composes A es fs gs
    \<Longrightarrow> composes A (Edit Keep a c # es) (Edit Keep b c # fs) (Edit Keep x c # gs)"

text \<open>Composition applies one script after the other, whatever tails the scripts leave unmentioned.\<close>

lemma composes_text:
  "composes A es fs gs \<Longrightarrow> dst es @ r1 = src fs @ r2
   \<Longrightarrow> \<exists>r3. src es @ r1 = src gs @ r3 \<and> dst fs @ r2 = dst gs @ r3 \<and>
         (r1 \<noteq> [] \<and> r2 \<noteq> [] \<longrightarrow> r3 \<noteq> [])"
proof (induction arbitrary: r1 r2 rule: composes.induct)
  case (left es gs e)
  show ?case
  proof (cases "ed_op e = Del")
    case True
    with left.IH [of r1 r2] left.prems show ?thesis by auto
  next
    case False
    from left.IH [of r1 "dst es @ r1"] False left.prems show ?thesis by auto
  qed
next
  case (right fs gs f)
  show ?case
  proof (cases "ed_op f = Ins")
    case True
    with right.IH [of r1 r2] right.prems show ?thesis by auto
  next
    case False
    from right.IH [of "src fs @ r2" r2] False right.prems show ?thesis by auto
  qed
qed fastforce+

text \<open>Composition run by run.\<close>

lemma composes_runs:
  assumes "composes A es fs gs"
  shows "composes A (run Del a cs @ es) fs (run Del a cs @ gs)"
    and "composes A es (run Ins b cs @ fs) (run Ins b cs @ gs)"
    and "composes A (run Ins a cs @ es) (run Del b cs @ fs) gs"
    and "A False a b x \<Longrightarrow> composes A (run Ins a cs @ es) (run Keep b cs @ fs) (run Ins x cs @ gs)"
    and "composes A (run Keep a cs @ es) (run Del b cs @ fs) (run Del '''' cs @ gs)"
    and "A True a b x \<Longrightarrow> composes A (run Keep a cs @ es) (run Keep b cs @ fs) (run Keep x cs @ gs)"
    and "fs = [] \<Longrightarrow> composes A (run k a cs @ es) [] (run k a cs @ gs)"
    and "es = [] \<Longrightarrow> composes A [] (run k a cs @ fs) (run k a cs @ gs)"
  using assms by (induction cs) (auto intro: composes.intros)

subsection \<open>One call of the slicer\<close>

text \<open>
  What one call takes off the two scripts and what it outputs, a run at a time.
\<close>

inductive slice ::
  "(bool \<Rightarrow> string \<Rightarrow> string \<Rightarrow> string \<Rightarrow> bool) \<Rightarrow> script \<Rightarrow> script \<Rightarrow> script \<Rightarrow> script \<Rightarrow> script \<Rightarrow> bool"
  for A where
  s_left: "slice A (run k a cs @ es) [] es [] (run k a cs)"
| s_right: "slice A [] (run k a cs @ fs) [] fs (run k a cs)"
| s_del: "slice A (run Del a cs @ es) fs es fs (run Del a cs)"
| s_ins: "slice A es (run Ins b cs @ fs) es fs (run Ins b cs)"
| s_ins_del: "slice A (run Ins a cs @ es) (run Del b cs @ fs) es fs []"
| s_ins_keep: "A False a b x \<Longrightarrow> slice A (run Ins a cs @ es) (run Keep b cs @ fs) es fs (run Ins x cs)"
| s_keep_del: "slice A (run Keep a cs @ es) (run Del b cs @ fs) es fs (run Del '''' cs)"
| s_keep_keep: "A True a b x \<Longrightarrow> slice A (run Keep a cs @ es) (run Keep b cs @ fs) es fs (run Keep x cs)"

lemma slice_composes: "slice A es fs es' fs' g \<Longrightarrow> composes A es' fs' gs \<Longrightarrow> composes A es fs (g @ gs)"
  by (induction rule: slice.induct) (simp_all add: composes_runs)

lemma slice_attC: "slice (attC p) es fs es' fs' g \<Longrightarrow> pool_le p q \<Longrightarrow> slice (attC q) es fs es' fs' g"
  by (induction rule: slice.induct) (auto intro: slice.intros attC_le)

definition aligned :: "script \<Rightarrow> script \<Rightarrow> bool" where
  "aligned es fs = (\<exists>r1 r2. dst es @ r1 = src fs @ r2)"

lemma aligned_Nil: "aligned [] fs" "aligned es []"
proof -
  show "aligned [] fs" unfolding aligned_def by (intro exI [of _ "src fs"] exI [of _ "[]"]) simp
  show "aligned es []" unfolding aligned_def by (intro exI [of _ "[]"] exI [of _ "dst es"]) simp
qed

lemma slice_aligned: "slice A es fs es' fs' g \<Longrightarrow> aligned es fs \<Longrightarrow> aligned es' fs'"
  by (induction rule: slice.induct) (auto simp: aligned_Nil, auto simp: aligned_def)

text \<open>Both operations reach into the same text: the shorter one is a prefix of the other.\<close>

lemma aligned_runs:
  assumes "aligned (run k a cs @ es) (run l b ds @ fs)" and "k \<noteq> Del" and "l \<noteq> Ins"
  obtains (le) cs2 where "cs = ds @ cs2" | (gt) ds2 where "ds = cs @ ds2" "ds2 \<noteq> []"
proof -
  from assms obtain x y where e: "cs @ x = ds @ y" by (auto simp: aligned_def)
  show thesis
  proof (cases "length ds \<le> length cs")
    case True
    with e have "cs = ds @ drop (length ds) cs"
      by (metis append_eq_append_conv_if append_take_drop_id)
    then show thesis by (rule le)
  next
    case False
    with e have "ds = cs @ drop (length cs) ds"
      by (metis append_eq_append_conv_if append_take_drop_id nat_le_linear)
    with False show thesis by (intro gt) auto
  qed
qed

lemma slice_both:
  assumes "k = Keep \<or> k = Ins" and "l = Keep \<Longrightarrow> A (k = Keep) a b x" and "l = Del \<or> l = Keep"
  shows "slice A (run k a d @ es) (run l b d @ fs) es fs
    (if l = Keep then run k x d else if k = Keep then run Del '''' d else [])"
  using assms by (auto intro: slice.intros)

text \<open>What the call outputs for the run \<open>d\<close> that both operations cover.\<close>

definition slicedOp :: "op \<Rightarrow> op \<Rightarrow> op \<Rightarrow> op \<Rightarrow> string \<Rightarrow> op" where
  "slicedOp a1 a2 opOut d x =
     (if opcode a2 = Keep
      then opOut\<lparr>opcode := opcode a1, chars := chars d, lines := lines d, attribs := x\<rparr>
      else if opcode a1 = Keep
      then opOut\<lparr>opcode := Del, chars := chars d, lines := lines d, attribs := ''''\<rparr>
      else opOut)"

lemma slicedOp_outputs:
  assumes "fits d cs" and "opcode opOut = NoOp" and "opcode a1 = Keep \<or> opcode a1 = Ins"
  shows "outputs (slicedOp a1 a2 opOut d x)
    (if opcode a2 = Keep then run (opcode a1) x cs else if opcode a1 = Keep then run Del '''' cs else [])"
  using assms outputs_run [OF assms(1) refl]
  by (auto simp: slicedOp_def) (auto simp: outputs_def)

lemma slicer_both:
  assumes "opcode a1 = Keep \<or> opcode a1 = Ins" and "opcode a2 = Del \<or> opcode a2 = Keep"
    and "opcode a2 = Keep \<Longrightarrow>
      composeAttributes (attribs a1) (attribs a2) (opcode a1 = Keep) p = Inr (x, p')"
    and "opcode a2 = Del \<Longrightarrow> p' = p"
  shows "slicerZipperFunc a1 a2 opOut p =
    (if chars a2 \<le> chars a1 then
       (let a1' = a1\<lparr>chars := chars a1 - chars a2, lines := lines a1 - lines a2\<rparr>
        in Inr ((if chars a1' = 0 then a1'\<lparr>opcode := NoOp\<rparr> else a1', a2\<lparr>opcode := NoOp\<rparr>,
                 slicedOp a1 a2 opOut a2 x), p'))
     else Inr ((a1\<lparr>opcode := NoOp\<rparr>,
                a2\<lparr>chars := chars a2 - chars a1, lines := lines a2 - lines a1\<rparr>,
                slicedOp a1 a2 opOut a1 x), p'))"
  using assms by (auto simp: slicerZipperFunc_def slicedOp_def Let_def)

lemma fits_chars: "fits o1 cs \<Longrightarrow> chars o1 = int (length cs)" "fits o1 cs \<Longrightarrow> lines o1 = count_nl cs"
  by (simp_all add: fits_def)

text \<open>
  Where the inserted characters of one call come from: the first bank loses what is inserted and
  deleted again, the output takes its insertions from the second bank if its operation is one, and
  from the first otherwise.
\<close>

definition banked :: "op \<Rightarrow> op \<Rightarrow> op \<Rightarrow> script \<Rightarrow> script \<Rightarrow> script \<Rightarrow> script \<Rightarrow> script \<Rightarrow> bool" where
  "banked a1 a2 o2 es fs es' fs' g =
     (if opcode a1 = Ins \<and> opcode a2 = Del
      then (\<exists>d. inserted es = d @ inserted es' \<and> int (length d) = min (chars a1) (chars a2)) \<and>
        inserted fs' = inserted fs \<and> inserted g = [] \<and> opcode o2 \<noteq> Ins
      else if opcode o2 = Ins
      then chars o2 = int (length (inserted g)) \<and>
        (if opcode a2 = Ins then inserted fs = inserted g @ inserted fs' \<and> inserted es' = inserted es
         else inserted es = inserted g @ inserted es' \<and> inserted fs' = inserted fs)
      else inserted es' = inserted es \<and> inserted fs' = inserted fs \<and> inserted g = [])"

lemma slicer_resultI:
  assumes "slicerZipperFunc a1 a2 opOut (Some p) = Inr ((a1', a2', o2), Some p')" and "pool_le p p'"
    and "ahead a1' i1 es'" and "ahead a2' i2 fs'" and "outputs o2 g" and "slice (attC p') es fs es' fs' g"
    and "banked a1 a2 o2 es fs es' fs' g"
  shows "\<exists>a1' a2' o2 p' es' fs' g.
    slicerZipperFunc a1 a2 opOut (Some p) = Inr ((a1', a2', o2), Some p') \<and> pool_le p p' \<and>
    ahead a1' i1 es' \<and> ahead a2' i2 fs' \<and> outputs o2 g \<and> slice (attC p') es fs es' fs' g \<and>
    banked a1 a2 o2 es fs es' fs' g"
  using assms by blast

lemma slicer_slice:
  assumes f1: "fetched a1 i1 es" and f2: "fetched a2 i2 fs" and out: "opcode opOut = NoOp"
    and some: "opcode a1 \<noteq> NoOp \<or> opcode a2 \<noteq> NoOp"
    and al: "aligned es fs" and wf: "pool_wf p" and k: "known p es" "known p fs"
  shows "\<exists>a1' a2' o2 p' es' fs' g.
    slicerZipperFunc a1 a2 opOut (Some p) = Inr ((a1', a2', o2), Some p') \<and> pool_le p p' \<and>
    ahead a1' i1 es' \<and> ahead a2' i2 fs' \<and> outputs o2 g \<and> slice (attC p') es fs es' fs' g \<and>
    banked a1 a2 o2 es fs es' fs' g"
proof -
  note le = pool_le_refl [OF wf] and h1 = fetched_ahead [OF f1] and h2 = fetched_ahead [OF f2]
  have nop1: "opcode a1 = NoOp \<Longrightarrow> es = []" and nop2: "opcode a2 = NoOp \<Longrightarrow> fs = []"
    using f1 f2 by (auto simp: fetched_def fits_def)
  show ?thesis
  proof (cases "opcode a1 = NoOp")
    case True
    with some have "opcode a2 \<noteq> NoOp" by simp
    with f2 obtain ds fs' os where a2: "fits a2 ds" "fs = run (opcode a2) (attribs a2) ds @ fs'"
      "yields i2 os" "denotes os fs'" by (auto simp: fetched_def)
    have "slicerZipperFunc a1 a2 opOut (Some p) = Inr ((a1, a2\<lparr>opcode := NoOp\<rparr>, a2), Some p)"
      using True by (simp add: slicerZipperFunc_def)
    moreover have "slice (attC p) es fs [] fs' (run (opcode a2) (attribs a2) ds)"
      unfolding a2(2) nop1 [OF True] by (rule s_right)
    ultimately show ?thesis
      using True le h1 nop1 [OF True] ahead_rest [OF a2(3,4)] outputs_copy [OF a2(1)]
      by (intro slicer_resultI) (auto simp: banked_def a2(2) fits_chars [OF a2(1)])
  next
    case n1: False
    with f1 obtain cs es' os where a1: "fits a1 cs" "es = run (opcode a1) (attribs a1) cs @ es'"
      "yields i1 os" "denotes os es'" by (auto simp: fetched_def)
    note r1 = ahead_rest [OF a1(3,4), of a1] and c1 = outputs_copy [OF a1(1)]
    show ?thesis
    proof (cases "opcode a1 = Del \<or> opcode a2 = NoOp")
      case True
      have "slice (attC p) es fs es' fs (run (opcode a1) (attribs a1) cs)"
        using True nop2 a1(2) s_del s_left by auto
      moreover have "slicerZipperFunc a1 a2 opOut (Some p) = Inr ((a1\<lparr>opcode := NoOp\<rparr>, a2, a1), Some p)"
        using True n1 by (auto simp: slicerZipperFunc_def)
      ultimately show ?thesis using r1 c1 le h2 True
        by (intro slicer_resultI) (auto simp: banked_def a1(2) fits_chars [OF a1(1)] nop2)
    next
      case False
      then have k1: "opcode a1 = Keep \<or> opcode a1 = Ins" using n1 by (cases "opcode a1") auto
      from False f2 obtain ds fs' os2 where a2: "fits a2 ds" "fs = run (opcode a2) (attribs a2) ds @ fs'"
        "yields i2 os2" "denotes os2 fs'" by (auto simp: fetched_def)
      note r2 = ahead_rest [OF a2(3,4), of a2] and c2 = outputs_copy [OF a2(1)]
      show ?thesis
      proof (cases "opcode a2 = Ins")
        case True
        have "slice (attC p) es fs es fs' (run (opcode a2) (attribs a2) ds)"
          unfolding a2(2) True by (rule s_ins)
        moreover have "slicerZipperFunc a1 a2 opOut (Some p) = Inr ((a1, a2\<lparr>opcode := NoOp\<rparr>, a2), Some p)"
          using True k1 by (auto simp: slicerZipperFunc_def)
        ultimately show ?thesis using r2 c2 le h1 True
          by (intro slicer_resultI) (auto simp: banked_def a2(2) fits_chars [OF a2(1)])
      next
        case notIns: False
        have k2: "opcode a2 = Del \<or> opcode a2 = Keep"
          using notIns False by (cases "opcode a2") auto
        have "\<exists>x p'. (opcode a2 = Keep \<longrightarrow> attC p' (opcode a1 = Keep) (attribs a1) (attribs a2) x \<and>
            composeAttributes (attribs a1) (attribs a2) (opcode a1 = Keep) (Some p) = Inr (x, Some p')) \<and>
            (opcode a2 = Del \<longrightarrow> p' = p) \<and> pool_le p p'"
        proof (cases "opcode a2 = Keep")
          case True
          have "is_attribs (attribs a1)" "att_known p (attribs a1)"
            "is_attribs (attribs a2)" "att_known p (attribs a2)"
            using k a1(1,2) a2(1,2) by (auto simp: known_run fits_def)
          from composeAttributes_ok [OF wf this, of "opcode a1 = Keep"] True show ?thesis
            by (metis opcode.distinct(7))
        qed (use le in auto)
        then obtain x p' where x: "opcode a2 = Keep \<Longrightarrow> attC p' (opcode a1 = Keep) (attribs a1) (attribs a2) x"
          "opcode a2 = Keep \<Longrightarrow>
            composeAttributes (attribs a1) (attribs a2) (opcode a1 = Keep) (Some p) = Inr (x, Some p')"
          "opcode a2 = Del \<Longrightarrow> Some p' = Some p" and le': "pool_le p p'" by blast
        note eq = slicer_both [OF k1 k2 x(2,3), of opOut]
          and sl = slice_both [OF k1, of "opcode a2" "attC p'" "attribs a1" "attribs a2" x, OF x(1) k2]
        have "opcode a1 \<noteq> Del" "opcode a2 \<noteq> Ins" using k1 k2 by auto
        with al [unfolded a1(2) a2(2)] show ?thesis
        proof (cases rule: aligned_runs)
          case (le cs2)
          then have "chars a2 \<le> chars a1" by (simp add: fits_chars(1) [OF a1(1)] fits_chars(1) [OF a2(1)])
          with eq ahead_rest_op [OF a1(3,4) a1(1) [unfolded le] fits_chars [OF a2(1)] refl]
            sl [of ds "run (opcode a1) (attribs a1) cs2 @ es'" fs'] le' r2
            slicedOp_outputs [OF a2(1) out k1, of a2 x]
          show ?thesis
            using k1 k2 fits_chars [OF a1(1)] fits_chars [OF a2(1)] out
            by (intro slicer_resultI)
              (auto simp: a1(2) a2(2) le Let_def banked_def slicedOp_def)
        next
          case (gt ds2)
          then have "\<not> chars a2 \<le> chars a1"
            by (simp add: fits_chars(1) [OF a1(1)] fits_chars(1) [OF a2(1)])
          with eq ahead_part [OF a2(3,4) fits_rest [OF a2(1) [unfolded gt(1)] gt(2) fits_chars [OF a1(1)]]]
            sl [of cs es' "run (opcode a2) (attribs a2) ds2 @ fs'"] le' r1
            slicedOp_outputs [OF a1(1) out k1, of a2 x]
          show ?thesis
            using k1 k2 fits_chars [OF a1(1)] fits_chars [OF a2(1)] out
            by (intro slicer_resultI)
              (auto simp: a1(2) a2(2) gt(1) Let_def banked_def slicedOp_def)
        qed
      qed
    qed
  qed
qed

lemma slice_known:
  "slice (attC p) es fs es' fs' g \<Longrightarrow> known p es \<Longrightarrow> known p fs
   \<Longrightarrow> known p es' \<and> known p fs' \<and> known p g"
  by (induction rule: slice.induct) (auto simp: known_run attC_def, simp_all add: known_def)

subsection \<open>The slicer on attribution strings\<close>

definition slicer_inv :: "pool option \<Rightarrow> script \<Rightarrow> script \<Rightarrow> bool" where
  "slicer_inv st es fs =
     (\<exists>p. st = Some p \<and> pool_wf p \<and> known p es \<and> known p fs \<and> aligned es fs)"

definition slicer_ends :: "pool option \<Rightarrow> script \<Rightarrow> script \<Rightarrow> script \<Rightarrow> pool option \<Rightarrow> bool" where
  "slicer_ends st es fs gs st' =
     (\<exists>p p'. st = Some p \<and> st' = Some p' \<and> pool_le p p' \<and> known p' gs \<and>
        (\<forall>q. pool_le p' q \<longrightarrow> composes (attC q) es fs gs))"

lemma ends_step:
  assumes "slice (attC p') es fs es' fs' g" and "pool_le p p'" and "known p' g"
    and "slicer_ends (Some p') es' fs' gs st''"
  shows "slicer_ends (Some p) es fs (g @ gs) st''"
proof -
  from assms(4) obtain q where q: "st'' = Some q" "pool_le p' q" "known q gs"
    "\<And>r. pool_le q r \<Longrightarrow> composes (attC r) es' fs' gs"
    by (auto simp: slicer_ends_def)
  have "composes (attC r) es fs (g @ gs)" if "pool_le q r" for r
    using slice_composes [OF slice_attC [OF assms(1) pool_le_trans [OF q(2) that]] q(4) [OF that]] .
  with q known_le [OF q(2) assms(3)] pool_le_trans [OF assms(2) q(2)] show ?thesis
    by (auto simp: slicer_ends_def)
qed

interpretation slicing: script_zipper slicerZipperFunc slicer_inv slicer_ends
proof unfold_locales
  fix st assume "slicer_inv st [] []"
  then show "slicer_ends st [] [] [] st"
    by (auto simp: slicer_inv_def slicer_ends_def known_def pool_le_refl intro: composes.nil)
next
  fix a1 i1 es a2 i2 fs st and opOut :: op
  assume f: "fetched a1 i1 es" "fetched a2 i2 fs" "opcode opOut = NoOp"
    "opcode a1 \<noteq> NoOp \<or> opcode a2 \<noteq> NoOp" and "slicer_inv st es fs"
  then obtain p where p: "st = Some p" "pool_wf p" "known p es" "known p fs" "aligned es fs"
    by (auto simp: slicer_inv_def)
  from slicer_slice [OF f p(5,2,3,4)] obtain a1' a2' o2 p' es' fs' g where
    s: "slicerZipperFunc a1 a2 opOut (Some p) = Inr ((a1', a2', o2), Some p')" "pool_le p p'"
      "ahead a1' i1 es'" "ahead a2' i2 fs'" "outputs o2 g" "slice (attC p') es fs es' fs' g" by blast
  note k = slice_known [OF s(6) known_le [OF s(2) p(3)] known_le [OF s(2) p(4)]]
  have "slicer_inv (Some p') es' fs'"
    using k slice_aligned [OF s(6) p(5)] pool_le_wf [OF s(2)] by (simp add: slicer_inv_def)
  with s k p(1) ends_step [OF s(6,2)]
  show "\<exists>a1' a2' o2 st' es' fs' g. slicerZipperFunc a1 a2 opOut st = Inr ((a1', a2', o2), st') \<and>
      ahead a1' i1 es' \<and> ahead a2' i2 fs' \<and> outputs o2 g \<and> slicer_inv st' es' fs' \<and>
      (\<forall>gs st''. slicer_ends st' es' fs' gs st'' \<longrightarrow> slicer_ends st es fs (g @ gs) st'')"
    by blast
qed

subsection \<open>The zipper function of compose\<close>

definition compose_inv :: "composeState \<Rightarrow> script \<Rightarrow> script \<Rightarrow> bool" where
  "compose_inv st es fs = (slicer_inv (co_pool st) es fs \<and>
     si_ahead (co_bankIter1 st) (inserted es) \<and> si_ahead (co_bankIter2 st) (inserted fs))"

definition compose_ends :: "composeState \<Rightarrow> script \<Rightarrow> script \<Rightarrow> script \<Rightarrow> composeState \<Rightarrow> bool" where
  "compose_ends st es fs gs st' = (slicer_ends (co_pool st) es fs gs (co_pool st') \<and>
     sta_toString (co_bankAssem st') = sta_toString (co_bankAssem st) @ inserted gs)"

lemma composeZip_banked:
  assumes s: "slicerZipperFunc a1 a2 opOut (Some p) = Inr ((a1', a2', o2), Some p')"
    and b: "banked a1 a2 o2 es fs es' fs' g" and st: "co_pool st = Some p"
    and i: "si_ahead (co_bankIter1 st) (inserted es)" "si_ahead (co_bankIter2 st) (inserted fs)"
  shows "\<exists>st'. composeZip a1 a2 opOut st = Inr ((a1', a2', o2), st') \<and> co_pool st' = Some p' \<and>
    si_ahead (co_bankIter1 st') (inserted es') \<and> si_ahead (co_bankIter2 st') (inserted fs') \<and>
    sta_toString (co_bankAssem st') = sta_toString (co_bankAssem st) @ inserted g"
proof (cases "opcode a1 = Ins \<and> opcode a2 = Del")
  case True
  with b obtain d where d: "inserted es = d @ inserted es'" "int (length d) = min (chars a1) (chars a2)"
    "inserted fs' = inserted fs" "inserted g = []" "opcode o2 \<noteq> Ins" by (auto simp: banked_def)
  from si_ahead_step [OF i(1) [unfolded d(1)] d(2) [symmetric]] obtain b1 where
    "si_skip (min (chars a1) (chars a2)) (co_bankIter1 st) = Inr b1" "si_ahead b1 (inserted es')" by blast
  with True d i s st show ?thesis by (simp add: composeZip_def Let_def)
next
  case no: False
  show ?thesis
  proof (cases "opcode o2 = Ins")
    case False
    with no b i s st show ?thesis by (auto simp: composeZip_def Let_def banked_def)
  next
    case out: True
    have n: "chars o2 = int (length (inserted g))" using no out b by (simp add: banked_def)
    show ?thesis
    proof (cases "opcode a2 = Ins")
      case True
      with no out b have e: "inserted fs = inserted g @ inserted fs'" "inserted es' = inserted es"
        by (auto simp: banked_def)
      from si_ahead_step [OF i(2) [unfolded e(1)] n] True no out e i s st show ?thesis
        by (auto simp: composeZip_def Let_def)
    next
      case False
      with no out b have e: "inserted es = inserted g @ inserted es'" "inserted fs' = inserted fs"
        by (auto simp: banked_def)
      from si_ahead_step [OF i(1) [unfolded e(1)] n] False no out e i s st show ?thesis
        by (auto simp: composeZip_def Let_def)
    qed
  qed
qed

interpretation composer: script_zipper composeZip compose_inv compose_ends
proof unfold_locales
  fix st assume "compose_inv st [] []"
  then have "slicer_inv (co_pool st) [] []" by (simp add: compose_inv_def)
  then show "compose_ends st [] [] [] st"
    using slicing.ends_nil by (simp add: compose_ends_def)
next
  fix a1 i1 es a2 i2 fs st and opOut :: op
  assume f: "fetched a1 i1 es" "fetched a2 i2 fs" "opcode opOut = NoOp"
    "opcode a1 \<noteq> NoOp \<or> opcode a2 \<noteq> NoOp" and inv: "compose_inv st es fs"
  then obtain p where p: "co_pool st = Some p" "pool_wf p" "known p es" "known p fs" "aligned es fs"
    and i: "si_ahead (co_bankIter1 st) (inserted es)" "si_ahead (co_bankIter2 st) (inserted fs)"
    by (auto simp: compose_inv_def slicer_inv_def)
  from slicer_slice [OF f p(5,2,3,4)] obtain a1' a2' o2 p' es' fs' g where
    s: "slicerZipperFunc a1 a2 opOut (Some p) = Inr ((a1', a2', o2), Some p')" "pool_le p p'"
      "ahead a1' i1 es'" "ahead a2' i2 fs'" "outputs o2 g" "slice (attC p') es fs es' fs' g"
      "banked a1 a2 o2 es fs es' fs' g" by blast
  note k = slice_known [OF s(6) known_le [OF s(2) p(3)] known_le [OF s(2) p(4)]]
  from composeZip_banked [OF s(1,7) p(1) i] obtain st' where
    c: "composeZip a1 a2 opOut st = Inr ((a1', a2', o2), st')" "co_pool st' = Some p'"
      "si_ahead (co_bankIter1 st') (inserted es')" "si_ahead (co_bankIter2 st') (inserted fs')"
      "sta_toString (co_bankAssem st') = sta_toString (co_bankAssem st) @ inserted g" by blast
  have "compose_inv st' es' fs'"
    using c k slice_aligned [OF s(6) p(5)] pool_le_wf [OF s(2)]
    by (simp add: slicer_inv_def compose_inv_def)
  moreover have "compose_ends st es fs (g @ gs) st''" if "compose_ends st' es' fs' gs st''" for gs st''
    using that ends_step [OF s(6,2), of gs "co_pool st''"] k p(1) c(2,5) by (simp add: compose_ends_def)
  ultimately show "\<exists>a1' a2' o2 st' es' fs' g. composeZip a1 a2 opOut st = Inr ((a1', a2', o2), st') \<and>
      ahead a1' i1 es' \<and> ahead a2' i2 fs' \<and> outputs o2 g \<and> compose_inv st' es' fs' \<and>
      (\<forall>gs st''. compose_ends st' es' fs' gs st'' \<longrightarrow> compose_ends st es fs (g @ gs) st'')"
    using s c by blast
qed

subsection \<open>Composition of changesets\<close>

lemma aligned_on_text:
  "on_text es t \<Longrightarrow> on_text fs (result t es) \<Longrightarrow> aligned es fs"
  unfolding on_text_iff aligned_def by (elim exE) (metis result_append)

lemma compose_script:
  assumes c1: "cs_on cs1 t es" and c2: "cs_on cs2 (result t es) fs"
    and p: "pool_wf p" "known p es" "known p fs"
  shows "\<exists>cs3 p' gs. compose cs1 cs2 (Some p) = Inr (cs3, Some p') \<and> pool_le p p' \<and>
    composes (attC p') es fs gs \<and> known p' gs \<and> no_NoOp gs \<and> cs_on cs3 t (smart_norm gs) \<and>
    result t (smart_norm gs) = result (result t es) fs \<and> cs3 = packed t gs \<and>
    (\<exists>r. t = src gs @ r \<and>
       (length (src es) < length t \<and> length (src fs) < length (result t es) \<longrightarrow> r \<noteq> []))"
proof -
  from c1 obtain os1 where
    u1: "unpack cs1 = Inr \<lparr>up_oldLen = int (length t), up_newLen = int (length (result t es)),
       up_ops = up_ops (projr (unpack cs1)), up_charBank = inserted es\<rparr>"
    and o1: "parse_ops (up_ops (projr (unpack cs1))) = Inr os1" "denotes os1 es" and t1: "on_text es t"
    by (rule cs_onE)
  from c2 obtain os2 where
    u2: "unpack cs2 = Inr \<lparr>up_oldLen = int (length (result t es)),
       up_newLen = int (length (result (result t es) fs)),
       up_ops = up_ops (projr (unpack cs2)), up_charBank = inserted fs\<rparr>"
    and o2: "parse_ops (up_ops (projr (unpack cs2))) = Inr os2" "denotes os2 fs"
    and t2: "on_text fs (result t es)"
    by (rule cs_onE)
  let ?st = "\<lparr>co_bankIter1 = stringIterator (inserted es), co_bankIter2 = stringIterator (inserted fs),
    co_bankAssem = stringAssembler, co_pool = Some p\<rparr>"
  have "compose_inv ?st es fs"
    using p aligned_on_text [OF t1 t2] by (simp add: compose_inv_def slicer_inv_def)
  from composer.applyZip_ends [OF o1 o2 this] obtain gs st' where
    z: "applyZip (up_ops (projr (unpack cs1))) 0 (up_ops (projr (unpack cs2))) 0 composeZip ?st =
      Inr (smart_string gs, st')" and nn: "no_NoOp gs" and e: "compose_ends ?st es fs gs st'" by blast
  from e obtain p' where p': "co_pool st' = Some p'" "pool_le p p'" "known p' gs"
    "composes (attC p') es fs gs" "sta_toString (co_bankAssem st') = inserted gs"
    using pool_le_refl pool_le_wf by (fastforce simp: compose_ends_def slicer_ends_def)
  obtain r where r: "t = src es @ r" using t1 by (auto simp: on_text_iff)
  obtain r2 where r2: "dst es @ r = src fs @ r2" using t2 r by (auto simp: on_text_iff)
  from composes_text [OF p'(4) r2] obtain r3 where
    r3: "src es @ r = src gs @ r3" "dst fs @ r2 = dst gs @ r3" "r \<noteq> [] \<and> r2 \<noteq> [] \<longrightarrow> r3 \<noteq> []" by blast
  have res: "result (result t es) fs = dst gs @ r3" using r r2 r3(2) by simp
  note cs = cs_on_smart [OF known_script_ok [OF nn p'(3)], of t r3]
  have "compose cs1 cs2 (Some p) = Inr (pack (int (length t)) (int (length (dst gs @ r3)))
      (smart_string gs) (inserted gs), Some p')"
    unfolding compose_def by (subst u1, subst u2) (simp add: z p' res)
  moreover have "pack (int (length t)) (int (length (dst gs @ r3))) (smart_string gs) (inserted gs) = packed t gs"
    using packed_eq [of gs r3] r r3(1) by simp
  moreover have "length (src es) < length t \<and> length (src fs) < length (result t es) \<longrightarrow> r3 \<noteq> []"
    using r3(3) r r2 by auto
  ultimately show ?thesis using cs r r3(1) res p' nn by auto
qed

text \<open>
  C12. Composition is application in sequence: for a changeset on a text and one on its result, in a
  pool that knows their attributes, \<open>compose\<close> succeeds, only adds to the pool, and the changeset it
  returns does to the text what the two do one after the other.
\<close>

theorem compose_applies:
  assumes "cs_on cs1 t es" and "cs_on cs2 (result t es) fs"
    and "pool_wf p" and "known p es" and "known p fs"
  shows "\<exists>cs3 p'. compose cs1 cs2 (Some p) = Inr (cs3, Some p') \<and> pool_le p p' \<and>
    applyToText cs3 t = bindE (applyToText cs1 t) (applyToText cs2)"
  using compose_script [OF assms] applyToText_result [OF assms(1)] applyToText_result [OF assms(2)]
  by (metis applyToText_result bindE_simps(2))

theorem compose_applies_witness:
  "\<exists>cs3 p'. compose ''Z:3>0=1-1+1$x'' ''Z:3>1=1-1+2$yz'' (Some AttribPool) = Inr (cs3, Some p') \<and>
    applyToText cs3 ''abc'' = Inr ''ayzc''"
proof -
  let ?e1 = "[Edit Keep '''' CHR ''a'', Edit Del '''' CHR ''b'', Edit Ins '''' CHR ''x'']"
  let ?e2 = "[Edit Keep '''' CHR ''a'', Edit Del '''' CHR ''x'', Edit Ins '''' CHR ''y'', Edit Ins '''' CHR ''z'']"
  have c: "cs_on ''Z:3>0=1-1+1$x'' ''abc'' ?e1" by code_simp
  have d: "cs_on ''Z:3>1=1-1+2$yz'' (result ''abc'' ?e1) ?e2" by code_simp
  have k: "known AttribPool ?e1" "known AttribPool ?e2" by code_simp+
  have "applyToText ''Z:3>0=1-1+1$x'' ''abc'' = Inr ''axc''"
    "applyToText ''Z:3>1=1-1+2$yz'' ''axc'' = Inr ''ayzc''" by code_simp+
  with compose_applies [OF c d pool_wf_empty k] show ?thesis by auto
qed

subsection \<open>Attribution strings\<close>

text \<open>
  The attribution string of a text is a stream of insertions that covers it; \<open>es\<close> is the text
  with the attributes of each character.
\<close>

definition attribution :: "string \<Rightarrow> string \<Rightarrow> script \<Rightarrow> bool" where
  "attribution astr t es =
     (case parse_ops astr of
        Inl _ \<Rightarrow> False
      | Inr os \<Rightarrow> denotes os es \<and> src es = [] \<and> dst es = t)"

lemma attribution_smart:
  assumes "script_ok es" and "src es = []"
  shows "attribution (smart_string es) (dst es) (smart_norm es)"
proof -
  note nn = script_ok_no_NoOp [OF assms(1)]
  from smart_norm_text [OF nn] obtain rest where
    n: "src es = src (smart_norm es) @ rest" "dst es = dst (smart_norm es) @ rest"
      "set (smart_norm es) \<subseteq> set es" by blast
  from smart_string_denotes [OF nn] obtain os where
    os: "smart_string es = encode os" "denotes os (smart_norm es)" by blast
  have "script_ok (smart_norm es)" using assms(1) n(3) by (auto simp: script_ok_def list_all_iff)
  from opIterator_encode [OF denotes_lexable [OF os(2) this]] have "parse_ops (encode os) = Inr os"
    by (auto intro: parse_opsI)
  with os n assms(2) show ?thesis by (simp add: attribution_def)
qed

lemma attributionE:
  assumes "attribution astr t es"
  obtains os where "parse_ops astr = Inr os" "denotes os es" "src es = []" "dst es = t"
  using assms by (auto simp: attribution_def split: sum.splits)

lemma applyToAttribution_script:
  assumes a: "attribution astr t es" and c: "cs_on cs t fs"
    and p: "pool_wf p" "known p es" "known p fs"
  shows "\<exists>astr' p' gs. applyToAttribution cs astr (Some p) = Inr (astr', Some p') \<and> pool_le p p' \<and>
    composes (attC p') es fs gs \<and> known p' gs \<and> no_NoOp gs \<and>
    attribution astr' (result t fs) (smart_norm gs)"
proof -
  from a obtain os1 where o1: "parse_ops astr = Inr os1" "denotes os1 es" and e: "src es = []" "dst es = t"
    by (rule attributionE)
  from c obtain os2 where
    u: "unpack cs = Inr \<lparr>up_oldLen = int (length t), up_newLen = int (length (result t fs)),
       up_ops = up_ops (projr (unpack cs)), up_charBank = inserted fs\<rparr>"
    and o2: "parse_ops (up_ops (projr (unpack cs))) = Inr os2" "denotes os2 fs" and t: "on_text fs t"
    by (rule cs_onE)
  obtain r where r: "t = src fs @ r" using t by (auto simp: on_text_iff)
  then have "aligned es fs" unfolding aligned_def using e by (intro exI [of _ "[]"] exI [of _ r]) simp
  with p have "slicer_inv (Some p) es fs" by (simp add: slicer_inv_def)
  from slicing.applyZip_ends [OF o1 o2 this] obtain gs st' where
    z: "applyZip astr 0 (up_ops (projr (unpack cs))) 0 slicerZipperFunc (Some p) =
      Inr (smart_string gs, st')" and nn: "no_NoOp gs" and en: "slicer_ends (Some p) es fs gs st'" by blast
  from en obtain p' where p': "st' = Some p'" "pool_le p p'" "known p' gs" "composes (attC p') es fs gs"
    using pool_le_refl pool_le_wf by (fastforce simp: slicer_ends_def)
  from composes_text [OF p'(4), of "[]" r] obtain r3 where "src es = src gs @ r3" "dst fs @ r = dst gs @ r3"
    using e r by auto
  then have g: "src gs = []" "dst gs = result t fs" using e r by auto
  have "applyToAttribution cs astr (Some p) = Inr (smart_string gs, Some p')"
    unfolding applyToAttribution_def by (subst u) (simp add: z p'(1))
  with attribution_smart [OF known_script_ok [OF nn p'(3)] g(1)] p' g(2) nn show ?thesis by auto
qed

text \<open>
  What a changeset makes of a styled text, character by character: a kept character gets the
  attributes of the operation written over its own, an inserted one has those of its operation.
\<close>

type_synonym styled = "(char \<times> (string \<rightharpoonup> string)) list"

fun restyled :: "pool \<Rightarrow> script \<Rightarrow> styled \<Rightarrow> styled" where
  "restyled p [] xs = xs"
| "restyled p (f # fs) xs =
     (case ed_op f of
        Ins \<Rightarrow> (ed_char f, attrsOf p (ed_att f)) # restyled p fs xs
      | Del \<Rightarrow> restyled p fs (tl xs)
      | Keep \<Rightarrow> (fst (hd xs), writeOver False (snd (hd xs)) (attrsOf p (ed_att f))) # restyled p fs (tl xs)
      | NoOp \<Rightarrow> restyled p fs xs)"

definition styles :: "pool \<Rightarrow> script \<Rightarrow> styled" where
  "styles p es = map (\<lambda>e. (ed_char e, attrsOf p (ed_att e))) es"

definition styledAs :: "pool \<Rightarrow> styled \<Rightarrow> script \<Rightarrow> bool" where
  "styledAs p = list_all2 (\<lambda>x e. ed_char e = fst x \<and> stands p (ed_att e) (snd x))"

definition keysOnceAll :: "pool \<Rightarrow> script \<Rightarrow> bool" where
  "keysOnceAll p es = list_all (\<lambda>e. keysOnce (att_pairs p (ed_att e))) es"

lemma stands_self: "keysOnce (att_pairs p a) \<Longrightarrow> stands p a (attrsOf p a)"
  unfolding stands_def attrsOf_def by blast

lemma styles_self: "keysOnceAll p es \<Longrightarrow> styledAs p (styles p es) es"
  by (induction es) (auto simp: styles_def styledAs_def keysOnceAll_def stands_self)

lemma src_Nil_Ins: "no_NoOp es \<Longrightarrow> src es = [] \<longleftrightarrow> list_all (\<lambda>e. ed_op e = Ins) es"
  by (induction es) auto

lemma composes_restyled:
  "composes (attC p) es fs gs \<Longrightarrow> src es = [] \<Longrightarrow> dst es = src fs @ r \<Longrightarrow> keysOnceAll p es \<Longrightarrow> keysOnceAll p fs
   \<Longrightarrow> no_NoOp fs \<Longrightarrow> styledAs p (restyled p fs (styles p es)) gs"
proof (induction arbitrary: r rule: composes.induct)
  case (left es gs e)
  then show ?case by (auto simp: styles_def styledAs_def keysOnceAll_def stands_self split: if_splits)
next
  case (right fs gs f)
  then show ?case
    by (cases "ed_op f = Ins") (auto simp: styles_def styledAs_def keysOnceAll_def stands_self)
next
  case (ins_keep a b x es fs gs c)
  then have "stands p x (writeOver False (attrsOf p a) (attrsOf p b))"
    by (intro attC_stands) (auto simp: keysOnceAll_def)
  with ins_keep show ?case by (auto simp: styles_def styledAs_def keysOnceAll_def)
qed (auto simp: styles_def styledAs_def keysOnceAll_def stands_self)

lemma norm_step_Ins:
  "list_all (\<lambda>e. ed_op e = Ins) gs \<Longrightarrow> fold norm_step gs ([], [], is, []) = ([], [], is @ gs, [])"
  by (induction gs arbitrary: "is") auto

lemma smart_norm_Ins: "list_all (\<lambda>e. ed_op e = Ins) gs \<Longrightarrow> smart_norm gs = gs"
  by (simp add: smart_norm_def norm_step_Ins strip_def)

lemma restyled_le:
  assumes "pool_le p p'"
  shows "known p es \<Longrightarrow> styles p' es = styles p es" "known p es \<Longrightarrow> keysOnceAll p' es = keysOnceAll p es"
    "known p fs \<Longrightarrow> restyled p' fs xs = restyled p fs xs"
  using att_pairs_le [OF assms]
  by (auto simp: styles_def attrsOf_def known_def keysOnceAll_def list_all_iff)
    (induction fs arbitrary: xs, auto simp: attrsOf_def known_def split: opcode.split)

text \<open>
  C23. The attributes of a text follow the text: applied to the attribution string of a text, a
  changeset on that text gives an attribution string of the changed text, in which every kept
  character has the attributes of its operation written over its own, every inserted character those
  of its operation, and the characters the changeset does not reach their own; the pool only grows.
  (No operation and no character names a key twice.)
\<close>

theorem applyToAttribution_attribution:
  assumes "attribution astr t es" and "cs_on cs t fs"
    and "pool_wf p" and "known p es" and "known p fs" and "keysOnceAll p es" and "keysOnceAll p fs"
  shows "\<exists>astr' p' t' gs. applyToAttribution cs astr (Some p) = Inr (astr', Some p') \<and>
    pool_le p p' \<and> applyToText cs t = Inr t' \<and> attribution astr' t' gs \<and>
    styledAs p' (restyled p fs (styles p es)) gs"
proof -
  from applyToAttribution_script [OF assms(1-5)] obtain astr' p' gs where
    a: "applyToAttribution cs astr (Some p) = Inr (astr', Some p')" "pool_le p p'"
      "composes (attC p') es fs gs" "no_NoOp gs" "attribution astr' (result t fs) (smart_norm gs)" by blast
  from assms(1) have e: "src es = []" "dst es = t" by (auto elim: attributionE)
  from assms(2) obtain os where fs: "denotes os fs" and t: "on_text fs t" by (rule cs_onE)
  from t obtain r where r: "t = src fs @ r" by (auto simp: on_text_iff)
  from composes_restyled [OF a(3), of r] have "styledAs p' (restyled p' fs (styles p' es)) gs"
    using e r assms denotes_no_NoOp [OF fs] by (simp add: restyled_le [OF a(2)])
  then have s: "styledAs p' (restyled p fs (styles p es)) gs"
    using assms by (simp add: restyled_le [OF a(2)])
  obtain r3 where "src es = src gs @ r3" using composes_text [OF a(3), of "[]" r] e r by auto
  then have "list_all (\<lambda>e. ed_op e = Ins) gs" using e src_Nil_Ins [OF a(4)] by simp
  from smart_norm_Ins [OF this] a s applyToText_result [OF assms(2)] show ?thesis by auto
qed

theorem applyToAttribution_attribution_witness:
  "\<exists>astr' p' gs. applyToAttribution ''Z:3>0*1=1-1+1$x'' ''*0+2+1''
       (Some (snd (putAttrib (''b'', '''') False (snd (putAttrib (''b'', ''1'') False AttribPool)))))
     = Inr (astr', Some p') \<and> attribution astr' ''axc'' gs \<and>
     stands p' (ed_att (hd gs)) Map.empty"
proof -
  let ?q = "snd (putAttrib (''b'', ''1'') False AttribPool)"
  let ?p = "snd (putAttrib (''b'', '''') False ?q)"
  let ?e = "[Edit Ins ''*0'' CHR ''a'', Edit Ins ''*0'' CHR ''b'', Edit Ins '''' CHR ''c'']"
  let ?f = "[Edit Keep ''*1'' CHR ''a'', Edit Del '''' CHR ''b'', Edit Ins '''' CHR ''x'']"
  have "pool_wf ?q" using ap.put_wf [OF pool_wf_empty] by (metis prod.collapse)
  then have p: "pool_wf ?p" using ap.put_wf by (metis prod.collapse)
  have a: "attribution ''*0+2+1'' ''abc'' ?e" by code_simp
  have c: "cs_on ''Z:3>0*1=1-1+1$x'' ''abc'' ?f" by code_simp
  have k: "known ?p ?e" "known ?p ?f" "keysOnceAll ?p ?e" "keysOnceAll ?p ?f" by code_simp+
  have "applyToText ''Z:3>0*1=1-1+1$x'' ''abc'' = Inr ''axc''" by code_simp
  with applyToAttribution_attribution [OF a c p k] obtain astr' p' gs where
    g: "applyToAttribution ''Z:3>0*1=1-1+1$x'' ''*0+2+1'' (Some ?p) = Inr (astr', Some p')"
      "attribution astr' ''axc'' gs" "styledAs p' (restyled ?p ?f (styles ?p ?e)) gs" by auto
  have "att_pairs ?p ''*0'' = [(''b'', ''1'')]" "att_pairs ?p ''*1'' = [(''b'', '''')]" by code_simp+
  then have "snd (hd (restyled ?p ?f (styles ?p ?e))) = Map.empty"
    by (simp add: styles_def attrsOf_def writeOver_def fun_eq_iff split: option.split)
  moreover have "stands p' (ed_att (hd gs)) (snd (hd (restyled ?p ?f (styles ?p ?e))))"
    using g(3) by (auto simp: styledAs_def list_all2_Cons1)
  ultimately have "stands p' (ed_att (hd gs)) Map.empty" by simp
  with g show ?thesis by blast
qed

end
