(* ===== verification/FollowLaws.thy ===== *)
theory FollowLaws
  imports ComposeLaws
begin

text \<open>
  The correctness of \<open>follow\<close>: a relational specification of the merge of two concurrent streams of
  operations, the proof that \<open>follow\<close> computes it, and the convergence of two sites that apply two
  concurrent changesets in opposite orders.
\<close>

subsection \<open>Merging two streams\<close>

text \<open>
  \<open>fstep W F ps qs ps' qs' g\<close>: one step of transforming the stream \<open>qs\<close> over the stream \<open>ps\<close>, with
  what it outputs. \<open>W a x b y\<close> tells which of two insertions at one place goes first, \<open>F a b c\<close> what
  the attributes \<open>b\<close> of a kept run become over the attributes \<open>a\<close> of the same run.
\<close>

definition rest :: "opcode \<Rightarrow> string \<Rightarrow> string \<Rightarrow> piece list \<Rightarrow> piece list" where
  "rest k a x ps = (if x = [] then ps else (k, a, x) # ps)"

lemma flat_rest [simp]: "flat (rest k a x ps) = run k a x @ flat ps"
  by (simp add: rest_def)

inductive fstep ::
  "(string \<Rightarrow> string \<Rightarrow> string \<Rightarrow> string \<Rightarrow> bool) \<Rightarrow> (string \<Rightarrow> string \<Rightarrow> string \<Rightarrow> bool)
   \<Rightarrow> piece list \<Rightarrow> piece list \<Rightarrow> piece list \<Rightarrow> piece list \<Rightarrow> script \<Rightarrow> bool" for W F where
  ins1: "(\<And>b y qs'. qs = (Ins, b, y) # qs' \<Longrightarrow> W a x b y)
    \<Longrightarrow> fstep W F ((Ins, a, x) # ps) qs ps qs (run Keep '''' x)"
| ins2: "(\<And>a x ps'. ps = (Ins, a, x) # ps' \<Longrightarrow> \<not> W a x b y)
    \<Longrightarrow> fstep W F ps ((Ins, b, y) # qs) ps qs (run Ins b y)"
| del1: "l = Del \<or> l = Keep \<Longrightarrow> x2 = [] \<or> y2 = []
    \<Longrightarrow> fstep W F ((Del, a, x @ x2) # ps) ((l, b, x @ y2) # qs) (rest Del a x2 ps) (rest l b y2 qs) []"
| keep_del: "x2 = [] \<or> y2 = []
    \<Longrightarrow> fstep W F ((Keep, a, x @ x2) # ps) ((Del, b, x @ y2) # qs)
          (rest Keep a x2 ps) (rest Del b y2 qs) (run Del b x)"
| keep_keep: "x2 = [] \<or> y2 = [] \<Longrightarrow> F a b c
    \<Longrightarrow> fstep W F ((Keep, a, x @ x2) # ps) ((Keep, b, x @ y2) # qs)
          (rest Keep a x2 ps) (rest Keep b y2 qs) (run Keep c x)"
| end1_del: "fstep W F ((Del, a, x) # ps) [] ps [] []"
| end1_keep: "fstep W F ((Keep, a, x) # ps) [] ps [] (run Keep a x)"
| end2: "k = Keep \<or> k = Del \<Longrightarrow> fstep W F [] ((k, b, y) # qs) [] qs (run k b y)"

inductive fols ::
  "(string \<Rightarrow> string \<Rightarrow> string \<Rightarrow> string \<Rightarrow> bool) \<Rightarrow> (string \<Rightarrow> string \<Rightarrow> string \<Rightarrow> bool)
   \<Rightarrow> piece list \<Rightarrow> piece list \<Rightarrow> script \<Rightarrow> bool" for W F where
  fnil: "fols W F [] [] []"
| fcons: "fstep W F ps qs ps' qs' g \<Longrightarrow> fols W F ps' qs' gs \<Longrightarrow> fols W F ps qs (g @ gs)"

inductive_cases fols_NilE: "fols W F [] [] gs"
inductive_cases fstep_ins1E: "fstep W F ((Ins, a, x) # ps) qs ps' qs' g"
inductive_cases fstep_ins2E: "fstep W F ps ((Ins, b, y) # qs) ps' qs' g"
inductive_cases fstep_bothE: "fstep W F ((k, a, x) # ps) ((l, b, y) # qs) ps' qs' g"
inductive_cases fstep_end1E: "fstep W F ((k, a, x) # ps) [] ps' qs' g"
inductive_cases fstep_end2E: "fstep W F [] ((k, a, x) # ps) ps' qs' g"
inductive_cases fstep_NilE: "fstep W F [] [] ps' qs' g"

subsection \<open>What a merge does to the text\<close>

lemma fstep_text:
  assumes "fstep W F ps qs ps' qs' g" and "src (flat ps) @ r1 = src (flat qs) @ r2"
  shows "\<exists>r1' r2'. src (flat ps') @ r1' = src (flat qs') @ r2' \<and>
    dst (flat ps) @ r1 = src g @ dst (flat ps') @ r1' \<and>
    inserted (flat qs) = inserted g @ inserted (flat qs') \<and>
    (r1 \<noteq> [] \<and> r2 \<noteq> [] \<longrightarrow> r1' \<noteq> [] \<and> r2' \<noteq> [])"
  using assms(1)
proof (cases rule: fstep.cases)
  case (end2 k b y)
  with assms(2) show ?thesis by (intro exI [of _ "src (flat qs') @ r2"] exI [of _ r2]) auto
next
  case (end1_del a x)
  with assms(2) show ?thesis by (intro exI [of _ r1] exI [of _ "src (flat ps') @ r1"]) auto
next
  case (end1_keep a x)
  with assms(2) show ?thesis by (intro exI [of _ r1] exI [of _ "src (flat ps') @ r1"]) auto
qed (use assms(2) in \<open>auto intro!: exI [of _ r1] exI [of _ r2]\<close>)

lemma fols_text:
  "fols W F ps qs g \<Longrightarrow> src (flat ps) @ r1 = src (flat qs) @ r2
   \<Longrightarrow> (\<exists>r. dst (flat ps) @ r1 = src g @ r \<and> (r1 \<noteq> [] \<and> r2 \<noteq> [] \<longrightarrow> r \<noteq> [])) \<and>
         inserted g = inserted (flat qs)"
proof (induction arbitrary: r1 r2 rule: fols.induct)
  case (fcons ps qs ps' qs' g gs)
  from fstep_text [OF fcons.hyps(1) fcons.prems] obtain r1' r2' where
    t: "src (flat ps') @ r1' = src (flat qs') @ r2'" "dst (flat ps) @ r1 = src g @ dst (flat ps') @ r1'"
      "inserted (flat qs) = inserted g @ inserted (flat qs')"
      "r1 \<noteq> [] \<and> r2 \<noteq> [] \<longrightarrow> r1' \<noteq> [] \<and> r2' \<noteq> []" by blast
  from fcons.IH [OF t(1)] t(2-4) show ?case by auto
qed simp

lemma common_prefix:
  assumes "x @ x2 = z @ z2" and "x @ y2 = z @ w2" and "x2 = [] \<or> y2 = []" and "z2 = [] \<or> w2 = []"
  shows "x = z \<and> x2 = z2 \<and> y2 = w2"
  using assms by (auto simp: append_eq_append_conv2)

lemma fstep_both:
  assumes "fstep W F ((k, a, x @ x2) # ps) ((l, b, x @ y2) # qs) ps' qs' g"
    and n: "x2 = [] \<or> y2 = []" and "k \<noteq> Ins" and "l \<noteq> Ins"
  shows "ps' = rest k a x2 ps \<and> qs' = rest l b y2 qs \<and>
    (k = Del \<and> g = [] \<or> k = Keep \<and> l = Del \<and> g = run Del b x \<or>
     k = Keep \<and> l = Keep \<and> (\<exists>c. F a b c \<and> g = run Keep c x))"
  using assms(1)
proof (cases rule: fstep.cases)
  case (del1 z2 w2 z)
  then have "x @ x2 = z @ z2" "x @ y2 = z @ w2" by simp_all
  with common_prefix [OF this n] del1 show ?thesis by simp
next
  case (keep_del z2 w2 z)
  then have "x @ x2 = z @ z2" "x @ y2 = z @ w2" by simp_all
  with common_prefix [OF this n] keep_del show ?thesis by simp
next
  case (keep_keep z2 w2 c z)
  then have "x @ x2 = z @ z2" "x @ y2 = z @ w2" by simp_all
  with common_prefix [OF this n] keep_keep show ?thesis by auto
qed (use assms(3,4) in simp_all)

text \<open>
  The two sides of a merge go through the same steps: the transformations of each stream over the
  other consume the same pieces and lead to the same text.
\<close>

lemma fstep_diamond:
  assumes "fstep W F ps qs ps' qs' g2" and "fstep W' F' qs ps qs'' ps'' g1"
    and "\<And>a x b y. W' b y a x = (\<not> W a x b y)" and "src (flat ps) @ r1 = src (flat qs) @ r2"
  shows "ps'' = ps' \<and> qs'' = qs' \<and> dst g1 = dst g2 \<and>
    (\<exists>r1' r2'. src (flat ps') @ r1' = src (flat qs') @ r2' \<and>
      dst (flat ps) @ r1 = src g2 @ dst (flat ps') @ r1' \<and>
      dst (flat qs) @ r2 = src g1 @ dst (flat qs') @ r2')"
  using assms(1)
proof (cases rule: fstep.cases)
  case (ins1 a x)
  with assms(2-4) show ?thesis
    by (auto elim!: fstep_ins2E intro!: exI [of _ r1] exI [of _ r2])
next
  case (ins2 b y)
  with assms(2-4) show ?thesis
    by (auto elim!: fstep_ins1E intro!: exI [of _ r1] exI [of _ r2])
next
  case (del1 l x2 y2 a x ps b qs)
  have "fstep W' F' ((l, b, x @ y2) # qs) ((Del, a, x @ x2) # ps) qs'' ps'' g1"
    using assms(2) del1 by simp
  from fstep_both [OF this] del1 have "ps'' = ps' \<and> qs'' = qs' \<and> dst g1 = dst g2 \<and>
      src g2 = (if Del = Del then [] else x) \<and> src g1 = (if l = Del then [] else x)"
    by auto
  with del1 assms(4) show ?thesis by (auto intro!: exI [of _ r1] exI [of _ r2])
next
  case (keep_del x2 y2 a x ps b qs)
  have "fstep W' F' ((Del, b, x @ y2) # qs) ((Keep, a, x @ x2) # ps) qs'' ps'' g1"
    using assms(2) keep_del by simp
  from fstep_both [OF this] keep_del have "ps'' = ps' \<and> qs'' = qs' \<and> dst g1 = dst g2 \<and>
      src g2 = (if Keep = Del then [] else x) \<and> src g1 = (if Del = Del then [] else x)"
    by auto
  with keep_del assms(4) show ?thesis by (auto intro!: exI [of _ r1] exI [of _ r2])
next
  case (keep_keep x2 y2 a b c x ps qs)
  have "fstep W' F' ((Keep, b, x @ y2) # qs) ((Keep, a, x @ x2) # ps) qs'' ps'' g1"
    using assms(2) keep_keep by simp
  from fstep_both [OF this] keep_keep have "ps'' = ps' \<and> qs'' = qs' \<and> dst g1 = dst g2 \<and>
      src g2 = (if Keep = Del then [] else x) \<and> src g1 = (if Keep = Del then [] else x)"
    by auto
  with keep_keep assms(4) show ?thesis by (auto intro!: exI [of _ r1] exI [of _ r2])
next
  case (end1_del a x)
  with assms(2-4) show ?thesis
    by (auto elim!: fstep_end2E intro!: exI [of _ r1] exI [of _ "src (flat ps') @ r1"])
next
  case (end1_keep a x)
  with assms(2-4) show ?thesis
    by (auto elim!: fstep_end2E intro!: exI [of _ r1] exI [of _ "src (flat ps') @ r1"])
next
  case (end2 k b y)
  with assms(2-4) show ?thesis
    by (auto elim!: fstep_end1E intro!: exI [of _ "src (flat qs') @ r2"] exI [of _ r2])
qed

lemma fols_diamond:
  "fols W F ps qs g2 \<Longrightarrow> fols W' F' qs ps g1 \<Longrightarrow> (\<And>a x b y. W' b y a x = (\<not> W a x b y))
   \<Longrightarrow> src (flat ps) @ r1 = src (flat qs) @ r2
   \<Longrightarrow> \<exists>r3 r4. dst (flat ps) @ r1 = src g2 @ r3 \<and> dst (flat qs) @ r2 = src g1 @ r4 \<and>
         dst g2 @ r3 = dst g1 @ r4"
proof (induction arbitrary: g1 r1 r2 rule: fols.induct)
  case fnil
  then show ?case by (auto elim!: fols_NilE fstep_NilE)
next
  case (fcons ps qs ps' qs' g gs)
  from fcons.prems(1) obtain qs'' ps'' h hs where
    s: "fstep W' F' qs ps qs'' ps'' h" "fols W' F' qs'' ps'' hs" "g1 = h @ hs"
    using fcons.hyps(1) by (cases rule: fols.cases) (auto elim!: fstep_NilE)
  from fstep_diamond [OF fcons.hyps(1) s(1) fcons.prems(2,3)] obtain r1' r2' where
    d: "ps'' = ps'" "qs'' = qs'" "dst h = dst g" "src (flat ps') @ r1' = src (flat qs') @ r2'"
      "dst (flat ps) @ r1 = src g @ dst (flat ps') @ r1'"
      "dst (flat qs) @ r2 = src h @ dst (flat qs') @ r2'" by blast
  from fcons.IH [OF s(2) [unfolded d(1,2)] fcons.prems(2) d(4)] d s(3) show ?case by auto
qed


subsection \<open>What followAttributes computes\<close>

definition followPairs :: "attrib list \<Rightarrow> attrib list \<Rightarrow> attrib list" where
  "followPairs as bs = fold followPair as bs"

text \<open>In the pool \<open>p\<close>, the string \<open>c\<close> stands for what \<open>b\<close> stands for, less what \<open>a\<close> overrules.\<close>

definition attF :: "pool \<Rightarrow> string \<Rightarrow> string \<Rightarrow> string \<Rightarrow> bool" where
  "attF p a b c = (att_known p a \<and> att_known p b \<and> att_known p c \<and> is_attribs c \<and>
     map attribStr (att_pairs p c) = map attribStr (followPairs (att_pairs p a) (att_pairs p b)))"

lemma attF_le: "pool_le p p' \<Longrightarrow> attF p a b c \<Longrightarrow> attF p' a b c"
  by (auto simp: attF_def att_known_le att_pairs_le)

lemma fold_followPair_Nil [simp]: "fold followPair as [] = []"
  by (induction as) simp_all

lemma followAttributes_fold:
  "list_all (\<lambda>a. getAttrib p (parseNum a) \<noteq> None) as \<Longrightarrow>
   foldE (\<lambda>a atts. if atts = [] then Inr [] else
       bindE (poolAttrib (Some p) a) (\<lambda>pair1. Inr (followPair pair1 atts))) as atts =
   Inr (fold followPair (map (\<lambda>a. the (getAttrib p (parseNum a))) as) atts)"
proof (induction as arbitrary: atts)
  case (Cons a as)
  then show ?case by (cases "atts = []") (auto simp: poolAttrib_def)
qed simp

lemma followAttributes_ok:
  assumes wf: "pool_wf p" and a: "is_attribs a" "att_known p a" and b: "is_attribs b" "att_known p b"
  shows "\<exists>c p'. followAttributes a b (Some p) = Inr (c, Some p') \<and> pool_le p p' \<and> attF p' a b c"
proof -
  have nil: "att_pairs p a = [] \<longleftrightarrow> a = []" "att_pairs p b = [] \<longleftrightarrow> b = []"
    using is_attribs_matches_Nil a(1) b(1) by (simp_all add: att_pairs_def)
  show ?thesis
  proof (cases "a = [] \<or> b = []")
    case True
    then show ?thesis
      using a b nil pool_le_refl [OF wf]
      by (auto simp: followAttributes_def attF_def followPairs_def)
  next
    case False
    let ?atts = "followPairs (att_pairs p a) (att_pairs p b)"
    have "foldE (\<lambda>a atts. if atts = [] then Inr [] else
        bindE (poolAttrib (Some p) a) (\<lambda>pair1. Inr (followPair pair1 atts)))
        (star_matches a) (att_pairs p b) = Inr ?atts"
      using a(2) by (simp add: followAttributes_fold att_known_def att_pairs_def followPairs_def)
    with False have eq: "followAttributes a b (Some p) = putAttribs ?atts (Some p)"
      by (simp add: followAttributes_def pushAttribs_known [OF b(2)])
    from putAttribs_ok [OF wf, of ?atts] obtain s p' where
      s: "putAttribs ?atts (Some p) = Inr (s, Some p')" "pool_le p p'" "is_attribs s" "att_known p' s"
        "map attribStr (att_pairs p' s) = map attribStr ?atts" by blast
    then have "attF p' a b s"
      using a b by (simp add: attF_def att_known_le [OF s(2)] att_pairs_le [OF s(2)])
    with s eq show ?thesis by (intro exI [of _ s] exI [of _ p']) simp
  qed
qed

subsection \<open>One call of the zipper function of follow\<close>

definition firstIns :: "(string \<Rightarrow> bool) \<Rightarrow> bool \<Rightarrow> string \<Rightarrow> string \<Rightarrow> string \<Rightarrow> string \<Rightarrow> bool" where
  "firstIns h ro a x b y =
     (followWhich h ro ((newOp Ins)\<lparr>attribs := a\<rparr>) ((newOp Ins)\<lparr>attribs := b\<rparr>) [hd x] [hd y] = 1)"

lemma firstIns_op: "followWhich h ro o1 o2 [hd x] [hd y] = 1 \<longleftrightarrow> firstIns h ro (attribs o1) x (attribs o2) y"
  by (simp add: firstIns_def followWhich_def)

lemma firstIns_mirror: "firstIns h (\<not> ro) b y a x = (\<not> firstIns h ro a x b y)"
  by (auto simp: firstIns_def followWhich_def Let_def)

definition merge_step ::
  "(string \<Rightarrow> bool) \<Rightarrow> bool \<Rightarrow> op \<Rightarrow> opIter \<Rightarrow> piece list \<Rightarrow> op \<Rightarrow> opIter \<Rightarrow> piece list \<Rightarrow> op
   \<Rightarrow> followState \<Rightarrow> pool \<Rightarrow> bool" where
  "merge_step h ro a1 i1 ps a2 i2 qs opOut st p =
     (\<exists>a1' a2' o2 st' p' ps' qs' g.
        followMerge h ro a1 a2 opOut st = Inr ((a1', a2', o2), st') \<and> fo_pool st' = Some p' \<and>
        pool_le p p' \<and> pahead a1' i1 ps' \<and> pahead a2' i2 qs' \<and> outputs o2 g \<and>
        fstep (firstIns h ro) (attF p') ps qs ps' qs' g \<and>
        fo_oldPos st' = fo_oldPos st \<and> fo_newLen st' = fo_newLen st \<and>
        si_ahead (fo_chars1 st') (inserted (flat ps')) \<and> si_ahead (fo_chars2 st') (inserted (flat qs')))"

lemma merge_stepI:
  assumes "followMerge h ro a1 a2 opOut st = Inr ((a1', a2', o2), st')" and "fo_pool st' = Some p'"
    and "pool_le p p'" and "pahead a1' i1 ps'" and "pahead a2' i2 qs'" and "outputs o2 g"
    and "fstep (firstIns h ro) (attF p') ps qs ps' qs' g"
    and "fo_oldPos st' = fo_oldPos st" and "fo_newLen st' = fo_newLen st"
    and "si_ahead (fo_chars1 st') (inserted (flat ps'))"
    and "si_ahead (fo_chars2 st') (inserted (flat qs'))"
  shows "merge_step h ro a1 i1 ps a2 i2 qs opOut st p"
  using assms unfolding merge_step_def by blast

lemma outputs_fits: "fits out cs \<Longrightarrow> opcode out = k \<Longrightarrow> attribs out = a \<Longrightarrow> outputs out (run k a cs)"
  using outputs_copy by blast

lemma fits_like: "fits o1 cs \<Longrightarrow> chars out = chars o1 \<Longrightarrow> lines out = lines o1 \<Longrightarrow> opcode out \<noteq> NoOp \<Longrightarrow> fits out cs"
  by (simp add: fits_def)

lemma pahead_clear: "yields it os \<Longrightarrow> pieces os ps \<Longrightarrow> pahead (o1\<lparr>opcode := NoOp\<rparr>) it ps"
  by (rule pahead_NoOp) simp_all

lemma merge_step_first:
  assumes a1: "fits a1 cs" "yields i1 os" "pieces os ps" "opcode a1 = Ins"
    and w: "followInsert h ro a1 a2 opOut st =
      bindE (si_skip (chars a1) (fo_chars1 st)) (\<lambda>c1.
        Inr ((a1\<lparr>opcode := NoOp\<rparr>, a2,
          opOut\<lparr>opcode := Keep, lines := lines a1, chars := chars a1, attribs := ''''\<rparr>),
          st\<lparr>fo_chars1 := c1\<rparr>))"
    and W: "\<And>b y qs'. qs = (Ins, b, y) # qs' \<Longrightarrow> firstIns h ro (attribs a1) cs b y"
    and p: "fo_pool st = Some p" "pool_wf p" and h2: "pahead a2 i2 qs"
    and c: "si_ahead (fo_chars1 st) (cs @ inserted (flat ps))" "si_ahead (fo_chars2 st) (inserted (flat qs))"
  shows "merge_step h ro a1 i1 ((Ins, attribs a1, cs) # ps) a2 i2 qs opOut st p"
proof -
  from si_ahead_step [OF c(1) fits_chars(1) [OF a1(1)]] obtain c1 where
    c1: "si_skip (chars a1) (fo_chars1 st) = Inr c1" "si_ahead c1 (inserted (flat ps))" by blast
  let ?out = "opOut\<lparr>opcode := Keep, lines := lines a1, chars := chars a1, attribs := ''''\<rparr>"
  have m: "followMerge h ro a1 a2 opOut st = Inr ((a1\<lparr>opcode := NoOp\<rparr>, a2, ?out), st\<lparr>fo_chars1 := c1\<rparr>)"
    using a1(4) w c1 by (simp add: followMerge_def)
  have o: "outputs ?out (run Keep '''' cs)"
    by (rule outputs_fits [OF fits_like [OF a1(1)]]) simp_all
  have f: "fstep (firstIns h ro) (attF p) ((Ins, attribs a1, cs) # ps) qs ps qs (run Keep '''' cs)"
    using W by (rule ins1)
  show ?thesis
    by (rule merge_stepI [OF m _ pool_le_refl [OF p(2)] pahead_clear [OF a1(2,3)] h2 o f])
      (simp_all add: p(1) c1(2) c(2))
qed

lemma merge_step_second:
  assumes a2: "fits a2 cs" "yields i2 os" "pieces os qs" "opcode a2 = Ins"
    and w: "followInsert h ro a1 a2 opOut st =
      bindE (si_skip (chars a2) (fo_chars2 st)) (\<lambda>c2.
        Inr ((a1, a2\<lparr>opcode := NoOp\<rparr>, copyOp a2 opOut), st\<lparr>fo_chars2 := c2\<rparr>))"
    and W: "\<And>a x ps'. ps = (Ins, a, x) # ps' \<Longrightarrow> \<not> firstIns h ro a x (attribs a2) cs"
    and p: "fo_pool st = Some p" "pool_wf p" and h1: "pahead a1 i1 ps"
    and c: "si_ahead (fo_chars1 st) (inserted (flat ps))" "si_ahead (fo_chars2 st) (cs @ inserted (flat qs))"
  shows "merge_step h ro a1 i1 ps a2 i2 ((Ins, attribs a2, cs) # qs) opOut st p"
proof -
  from si_ahead_step [OF c(2) fits_chars(1) [OF a2(1)]] obtain c2 where
    c2: "si_skip (chars a2) (fo_chars2 st) = Inr c2" "si_ahead c2 (inserted (flat qs))" by blast
  have m: "followMerge h ro a1 a2 opOut st = Inr ((a1, a2\<lparr>opcode := NoOp\<rparr>, a2), st\<lparr>fo_chars2 := c2\<rparr>)"
    using a2(4) w c2 by (simp add: followMerge_def)
  have o: "outputs a2 (run Ins (attribs a2) cs)" by (rule outputs_fits [OF a2(1,4)]) simp
  have f: "fstep (firstIns h ro) (attF p) ps ((Ins, attribs a2, cs) # qs) ps qs (run Ins (attribs a2) cs)"
    using W by (rule ins2)
  show ?thesis
    by (rule merge_stepI [OF m _ pool_le_refl [OF p(2)] h1 pahead_clear [OF a2(2,3)] o f])
      (simp_all add: p(1) c2(2) c(1))
qed

lemma followInsert_both:
  assumes "opcode a1 = Ins" "opcode a2 = Ins" and "fits a1 cs" "fits a2 ds"
    and "si_ahead (fo_chars1 st) (cs @ x)" "si_ahead (fo_chars2 st) (ds @ y)"
  shows "followInsert h ro a1 a2 opOut st =
    (if firstIns h ro (attribs a1) cs (attribs a2) ds
     then bindE (si_skip (chars a1) (fo_chars1 st)) (\<lambda>c1.
        Inr ((a1\<lparr>opcode := NoOp\<rparr>, a2,
          opOut\<lparr>opcode := Keep, lines := lines a1, chars := chars a1, attribs := ''''\<rparr>),
          st\<lparr>fo_chars1 := c1\<rparr>))
     else bindE (si_skip (chars a2) (fo_chars2 st)) (\<lambda>c2.
        Inr ((a1, a2\<lparr>opcode := NoOp\<rparr>, copyOp a2 opOut), st\<lparr>fo_chars2 := c2\<rparr>)))"
proof -
  obtain c cs' d ds' where e: "cs = c # cs'" "ds = d # ds'"
    using assms(3,4) by (cases cs; cases ds) (auto simp: fits_def)
  have "si_peek 1 (fo_chars1 st) = Inr [c]" "si_peek 1 (fo_chars2 st) = Inr [d]"
    using assms(5,6) si_ahead_peek [of "fo_chars1 st" "[c]" "cs' @ x" 1]
      si_ahead_peek [of "fo_chars2 st" "[d]" "ds' @ y" 1] by (simp_all add: e)
  with assms(1,2) show ?thesis
    using firstIns_op [of h ro a1 a2 cs ds] by (simp add: followInsert_def e)
qed

lemma merge_step_insert:
  assumes f1: "pfetched a1 i1 ps" and f2: "pfetched a2 i2 qs" and p: "fo_pool st = Some p" "pool_wf p"
    and k: "opcode a1 = Ins \<or> opcode a2 = Ins"
    and c: "si_ahead (fo_chars1 st) (inserted (flat ps))" "si_ahead (fo_chars2 st) (inserted (flat qs))"
  shows "merge_step h ro a1 i1 ps a2 i2 qs opOut st p"
proof -
  note h1 = pfetched_pahead [OF f1] and h2 = pfetched_pahead [OF f2]
  have p1: "opcode a1 = Ins \<Longrightarrow> \<exists>cs ps' os. fits a1 cs \<and> ps = (Ins, attribs a1, cs) # ps' \<and>
      yields i1 os \<and> pieces os ps'" using f1 by (auto simp: pfetched_def)
  have p2: "opcode a2 = Ins \<Longrightarrow> \<exists>ds qs' os. fits a2 ds \<and> qs = (Ins, attribs a2, ds) # qs' \<and>
      yields i2 os \<and> pieces os qs'" using f2 by (auto simp: pfetched_def)
  have n1: "opcode a1 \<noteq> Ins \<Longrightarrow> ps \<noteq> (Ins, a, x) # ps'" for a x ps'
    using f1 by (auto simp: pfetched_def)
  have n2: "opcode a2 \<noteq> Ins \<Longrightarrow> qs \<noteq> (Ins, b, y) # qs'" for b y qs'
    using f2 by (auto simp: pfetched_def)
  show ?thesis
  proof (cases "opcode a2 = Ins")
    case False
    then have k1: "opcode a1 = Ins" using k by simp
    with p1 obtain cs ps' os where a1: "fits a1 cs" "ps = (Ins, attribs a1, cs) # ps'"
      "yields i1 os" "pieces os ps'" by blast
    show ?thesis
      unfolding a1(2) using False k1 c p h2
      by (intro merge_step_first [OF a1(1,3,4)])
        (simp_all add: followInsert_def a1(2), use n2 [OF False] in blast)
  next
    case True
    with p2 obtain ds qs' os where a2: "fits a2 ds" "qs = (Ins, attribs a2, ds) # qs'"
      "yields i2 os" "pieces os qs'" by blast
    show ?thesis
    proof (cases "opcode a1 = Ins")
      case False
      show ?thesis
        unfolding a2(2) using False True c p h1
        by (intro merge_step_second [OF a2(1,3,4)])
          (simp_all add: followInsert_def a2(2), use n1 [OF False] in blast)
    next
      case k1: True
      with p1 obtain cs ps' os' where a1: "fits a1 cs" "ps = (Ins, attribs a1, cs) # ps'"
        "yields i1 os'" "pieces os' ps'" by blast
      have c': "si_ahead (fo_chars1 st) (cs @ inserted (flat ps'))"
        "si_ahead (fo_chars2 st) (ds @ inserted (flat qs'))"
        using c by (simp_all add: a1(2) a2(2))
      note w = followInsert_both [OF k1 True a1(1) a2(1) c', of h ro opOut]
      show ?thesis
      proof (cases "firstIns h ro (attribs a1) cs (attribs a2) ds")
        case f: True
        show ?thesis
          unfolding a1(2) using f w k1 c c' p h2 a2(2)
          by (intro merge_step_first [OF a1(1,3,4)]) auto
      next
        case f: False
        show ?thesis
          unfolding a2(2) using f w True c c' p h1 a1(2)
          by (intro merge_step_second [OF a2(1,3,4)]) auto
      qed
    qed
  qed
qed

definition paligned :: "piece list \<Rightarrow> piece list \<Rightarrow> bool" where
  "paligned ps qs = (\<exists>r1 r2. src (flat ps) @ r1 = src (flat qs) @ r2)"

lemma paligned_runs:
  assumes "paligned ((k, a, cs) # ps) ((l, b, ds) # qs)" and "k \<noteq> Ins" and "l \<noteq> Ins"
  obtains (le) ds2 where "ds = cs @ ds2" | (gt) cs2 where "cs = ds @ cs2" "cs2 \<noteq> []"
proof -
  from assms obtain x y where e: "cs @ x = ds @ y" by (auto simp: paligned_def)
  show thesis
  proof (cases "length cs \<le> length ds")
    case True
    with e have "ds = cs @ drop (length cs) ds"
      by (metis append_eq_append_conv_if append_take_drop_id)
    then show thesis by (rule le)
  next
    case False
    with e have "cs = ds @ drop (length ds) cs"
      by (metis append_eq_append_conv_if append_take_drop_id nat_le_linear)
    with False show thesis by (intro gt) auto
  qed
qed

text \<open>What is left of an operation of which a run has been used up.\<close>

definition cutOp :: "op \<Rightarrow> op \<Rightarrow> op" where
  "cutOp o1 o2 = o1\<lparr>chars := chars o1 - chars o2, lines := lines o1 - lines o2\<rparr>"

lemma pahead_cut:
  assumes y: "yields it os" "pieces os ps" and f: "fits o1 (cs @ ds)" and g: "fits o2 cs"
  shows "pahead (if chars (cutOp o1 o2) = 0 then (cutOp o1 o2)\<lparr>opcode := NoOp\<rparr> else cutOp o1 o2) it
      (rest (opcode o1) (attribs o1) ds ps)"
    and "ds \<noteq> [] \<Longrightarrow> pahead (cutOp o1 o2) it (rest (opcode o1) (attribs o1) ds ps)"
proof -
  note e = fits_chars [OF g]
  show "pahead (if chars (cutOp o1 o2) = 0 then (cutOp o1 o2)\<lparr>opcode := NoOp\<rparr> else cutOp o1 o2) it
      (rest (opcode o1) (attribs o1) ds ps)"
    unfolding rest_def by (rule pahead_rest [OF y f e]) (simp add: cutOp_def)
  show "ds \<noteq> [] \<Longrightarrow> pahead (cutOp o1 o2) it (rest (opcode o1) (attribs o1) ds ps)"
    using pahead_part [OF y fits_rest [OF f _ e]] by (simp add: rest_def cutOp_def)
qed

text \<open>The output for the run \<open>d\<close> that both operations cover, and the call where neither inserts.\<close>

definition mergedOp :: "op \<Rightarrow> op \<Rightarrow> op \<Rightarrow> op \<Rightarrow> string \<Rightarrow> op" where
  "mergedOp a1 a2 opOut d x =
     (if opcode a1 = Del then opOut
      else if opcode a2 = Del then a2\<lparr>chars := chars d, lines := lines d\<rparr>
      else opOut\<lparr>opcode := Keep, attribs := x, chars := chars d, lines := lines d\<rparr>)"

lemma followMerge_both:
  assumes k: "opcode a1 = Del \<or> opcode a1 = Keep" "opcode a2 = Del \<or> opcode a2 = Keep"
    and F: "opcode a1 = Keep \<Longrightarrow> opcode a2 = Keep
      \<Longrightarrow> followAttributes (attribs a1) (attribs a2) (fo_pool st) = Inr (x, p')"
    and p: "\<not> (opcode a1 = Keep \<and> opcode a2 = Keep) \<Longrightarrow> p' = fo_pool st"
  shows "followMerge h ro a1 a2 opOut st =
    (if (if opcode a1 = Keep \<and> opcode a2 = Del then \<not> chars a2 \<le> chars a1 else chars a1 \<le> chars a2)
     then Inr ((a1\<lparr>opcode := NoOp\<rparr>,
       if chars (cutOp a2 a1) = 0 then (cutOp a2 a1)\<lparr>opcode := NoOp\<rparr> else cutOp a2 a1,
       mergedOp a1 a2 opOut a1 x), st\<lparr>fo_pool := p'\<rparr>)
     else Inr ((if chars (cutOp a1 a2) = 0 then (cutOp a1 a2)\<lparr>opcode := NoOp\<rparr> else cutOp a1 a2,
       a2\<lparr>opcode := NoOp\<rparr>, mergedOp a1 a2 opOut a2 x), st\<lparr>fo_pool := p'\<rparr>))"
proof -
  have up: "a2\<lparr>chars := chars a2, lines := lines a2\<rparr> = a2" by simp
  consider "opcode a1 = Del" | "opcode a1 = Keep" "opcode a2 = Del" | "opcode a1 = Keep" "opcode a2 = Keep"
    using k by blast
  then show ?thesis
  proof cases
    case 1
    with k(2) p show ?thesis
      by (auto simp: followMerge_def Let_def cutOp_def mergedOp_def)
  next
    case 2
    with p show ?thesis
      by (auto simp: followMerge_def Let_def cutOp_def mergedOp_def up)
  next
    case 3
    with F [OF 3] show ?thesis
      by (auto simp: followMerge_def Let_def cutOp_def mergedOp_def)
  qed
qed

lemma mergedOp_outputs:
  assumes "fits d cs" and "opcode opOut = NoOp" and "opcode a1 = Del \<or> opcode a1 = Keep"
    and "opcode a2 = Del \<or> opcode a2 = Keep"
  shows "outputs (mergedOp a1 a2 opOut d x)
    (if opcode a1 = Del then [] else if opcode a2 = Del then run Del (attribs a2) cs else run Keep x cs)"
proof -
  have "opcode a1 \<noteq> Del \<Longrightarrow> fits (mergedOp a1 a2 opOut d x) cs"
    using assms(3,4) by (intro fits_like [OF assms(1)]) (auto simp: mergedOp_def)
  from outputs_fits [OF this] assms(2,4) show ?thesis
    by (auto simp: mergedOp_def) (auto simp: outputs_def)
qed

lemma fstep_runs:
  assumes "k = Del \<or> k = Keep" and "l = Del \<or> l = Keep" and "x2 = [] \<or> y2 = []"
    and "k = Keep \<Longrightarrow> l = Keep \<Longrightarrow> F a b c"
  shows "fstep W F ((k, a, x @ x2) # ps) ((l, b, x @ y2) # qs) (rest k a x2 ps) (rest l b y2 qs)
    (if k = Del then [] else if l = Del then run Del b x else run Keep c x)"
  using assms by (auto intro: fstep.intros)

text \<open>Which of the two operations is used up when neither inserts.\<close>

definition usesFirst :: "op \<Rightarrow> op \<Rightarrow> bool" where
  "usesFirst a1 a2 =
     (if opcode a1 = Keep \<and> opcode a2 = Del then \<not> chars a2 \<le> chars a1 else chars a1 \<le> chars a2)"

lemma merge_both_first:
  assumes m: "followMerge h ro a1 a2 opOut st = Inr ((a1\<lparr>opcode := NoOp\<rparr>,
       if chars (cutOp a2 a1) = 0 then (cutOp a2 a1)\<lparr>opcode := NoOp\<rparr> else cutOp a2 a1,
       mergedOp a1 a2 opOut a1 x), st\<lparr>fo_pool := Some p'\<rparr>)" and le: "pool_le p p'"
    and a1: "fits a1 cs" "yields i1 os" "pieces os ps"
    and a2: "fits a2 (cs @ ds)" "yields i2 os2" "pieces os2 qs"
    and k: "opcode a1 = Del \<or> opcode a1 = Keep" "opcode a2 = Del \<or> opcode a2 = Keep"
    and out: "opcode opOut = NoOp"
    and F: "opcode a1 = Keep \<Longrightarrow> opcode a2 = Keep \<Longrightarrow> attF p' (attribs a1) (attribs a2) x"
    and c: "si_ahead (fo_chars1 st) (inserted (flat ps))" "si_ahead (fo_chars2 st) (inserted (flat qs))"
  shows "merge_step h ro a1 i1 ((opcode a1, attribs a1, cs) # ps) a2 i2
    ((opcode a2, attribs a2, cs @ ds) # qs) opOut st p"
proof -
  have f: "fstep (firstIns h ro) (attF p') ((opcode a1, attribs a1, cs) # ps)
      ((opcode a2, attribs a2, cs @ ds) # qs) ps (rest (opcode a2) (attribs a2) ds qs)
      (if opcode a1 = Del then [] else if opcode a2 = Del then run Del (attribs a2) cs else run Keep x cs)"
    using fstep_runs [OF k, of "[]" ds "attF p'" "attribs a1" "attribs a2" x "firstIns h ro" cs ps qs] F
    by (simp add: rest_def)
  show ?thesis
    by (rule merge_stepI [OF m _ le pahead_clear [OF a1(2,3)] pahead_cut(1) [OF a2(2,3,1) a1(1)]
          mergedOp_outputs [OF a1(1) out k] f])
      (use c k in auto)
qed

lemma merge_both_second:
  assumes m: "followMerge h ro a1 a2 opOut st = Inr
      ((if chars (cutOp a1 a2) = 0 then (cutOp a1 a2)\<lparr>opcode := NoOp\<rparr> else cutOp a1 a2,
       a2\<lparr>opcode := NoOp\<rparr>, mergedOp a1 a2 opOut a2 x), st\<lparr>fo_pool := Some p'\<rparr>)" and le: "pool_le p p'"
    and a1: "fits a1 (ds @ cs)" "yields i1 os" "pieces os ps"
    and a2: "fits a2 ds" "yields i2 os2" "pieces os2 qs"
    and k: "opcode a1 = Del \<or> opcode a1 = Keep" "opcode a2 = Del \<or> opcode a2 = Keep"
    and out: "opcode opOut = NoOp"
    and F: "opcode a1 = Keep \<Longrightarrow> opcode a2 = Keep \<Longrightarrow> attF p' (attribs a1) (attribs a2) x"
    and c: "si_ahead (fo_chars1 st) (inserted (flat ps))" "si_ahead (fo_chars2 st) (inserted (flat qs))"
  shows "merge_step h ro a1 i1 ((opcode a1, attribs a1, ds @ cs) # ps) a2 i2
    ((opcode a2, attribs a2, ds) # qs) opOut st p"
proof -
  have f: "fstep (firstIns h ro) (attF p') ((opcode a1, attribs a1, ds @ cs) # ps)
      ((opcode a2, attribs a2, ds) # qs) (rest (opcode a1) (attribs a1) cs ps) qs
      (if opcode a1 = Del then [] else if opcode a2 = Del then run Del (attribs a2) ds else run Keep x ds)"
    using fstep_runs [OF k, of cs "[]" "attF p'" "attribs a1" "attribs a2" x "firstIns h ro" ds ps qs] F
    by (simp add: rest_def)
  show ?thesis
    by (rule merge_stepI [OF m _ le pahead_cut(1) [OF a1(2,3,1) a2(1)] pahead_clear [OF a2(2,3)]
          mergedOp_outputs [OF a2(1) out k] f])
      (use c k in auto)
qed

lemma merge_step_both:
  assumes a1: "fits a1 cs" "yields i1 os" "pieces os ps" and a2: "fits a2 ds" "yields i2 os2" "pieces os2 qs"
    and k: "opcode a1 = Del \<or> opcode a1 = Keep" "opcode a2 = Del \<or> opcode a2 = Keep"
    and out: "opcode opOut = NoOp"
    and al: "paligned ((opcode a1, attribs a1, cs) # ps) ((opcode a2, attribs a2, ds) # qs)"
    and p: "fo_pool st = Some p" "pool_wf p" and kn: "is_attribs (attribs a1)" "att_known p (attribs a1)"
      "is_attribs (attribs a2)" "att_known p (attribs a2)"
    and c: "si_ahead (fo_chars1 st) (inserted (flat ps))" "si_ahead (fo_chars2 st) (inserted (flat qs))"
  shows "merge_step h ro a1 i1 ((opcode a1, attribs a1, cs) # ps) a2 i2 ((opcode a2, attribs a2, ds) # qs)
    opOut st p"
proof -
  have "\<exists>x p'. pool_le p p' \<and>
      (opcode a1 = Keep \<and> opcode a2 = Keep \<longrightarrow> attF p' (attribs a1) (attribs a2) x \<and>
        followAttributes (attribs a1) (attribs a2) (fo_pool st) = Inr (x, Some p')) \<and>
      (\<not> (opcode a1 = Keep \<and> opcode a2 = Keep) \<longrightarrow> Some p' = fo_pool st)"
    using followAttributes_ok [OF p(2) kn] pool_le_refl [OF p(2)] unfolding p(1) by blast
  then obtain x p' where x: "pool_le p p'"
    "opcode a1 = Keep \<Longrightarrow> opcode a2 = Keep \<Longrightarrow> attF p' (attribs a1) (attribs a2) x"
    "opcode a1 = Keep \<Longrightarrow> opcode a2 = Keep
      \<Longrightarrow> followAttributes (attribs a1) (attribs a2) (fo_pool st) = Inr (x, Some p')"
    "\<not> (opcode a1 = Keep \<and> opcode a2 = Keep) \<Longrightarrow> Some p' = fo_pool st"
    by blast
  note m = followMerge_both [OF k x(3,4), of h ro opOut, folded usesFirst_def]
  have nd: "opcode a1 \<noteq> Ins" "opcode a2 \<noteq> Ins" using k by auto
  have len: "chars a1 = int (length cs)" "chars a2 = int (length ds)"
    using fits_chars(1) a1(1) a2(1) by blast+
  have first: ?thesis if "ds = cs @ ds2" "usesFirst a1 a2" for ds2
    using merge_both_first [OF _ x(1) a1 a2(1) [unfolded that(1)] a2(2,3) k out x(2) c]
      m that(2) unfolding that(1) by simp
  have second: ?thesis if "cs = ds @ cs2" "\<not> usesFirst a1 a2" for cs2
    using merge_both_second [OF _ x(1) a1(1) [unfolded that(1)] a1(2,3) a2 k out x(2) c]
      m that(2) unfolding that(1) by simp
  show ?thesis
    using al nd
  proof (cases rule: paligned_runs)
    case (le ds2)
    then show ?thesis
      using first second [of "[]"] len by (cases "ds2 = []"; cases "usesFirst a1 a2")
        (auto simp: usesFirst_def split: if_splits)
  next
    case (gt cs2)
    then show ?thesis using second len by (auto simp: usesFirst_def split: if_splits)
  qed
qed

lemma merge_step_end:
  assumes f1: "pfetched a1 i1 ps" and f2: "pfetched a2 i2 qs" and p: "fo_pool st = Some p" "pool_wf p"
    and some: "opcode a1 \<noteq> NoOp \<or> opcode a2 \<noteq> NoOp" and k: "opcode a1 \<noteq> Ins" "opcode a2 \<noteq> Ins"
    and e: "opcode a1 = NoOp \<or> opcode a2 = NoOp" and out: "opcode opOut = NoOp"
    and c: "si_ahead (fo_chars1 st) (inserted (flat ps))" "si_ahead (fo_chars2 st) (inserted (flat qs))"
  shows "merge_step h ro a1 i1 ps a2 i2 qs opOut st p"
proof -
  note le = pool_le_refl [OF p(2)] and h1 = pfetched_pahead [OF f1] and h2 = pfetched_pahead [OF f2]
  show ?thesis
  proof (cases "opcode a1 = NoOp")
    case True
    then have ps: "ps = []" using f1 by (auto simp: pfetched_def fits_def)
    from True some have n2: "opcode a2 \<noteq> NoOp" by simp
    then have k2: "opcode a2 = Keep \<or> opcode a2 = Del" using k(2) by (cases "opcode a2") auto
    from n2 f2 obtain ds qs' os where a2: "fits a2 ds" "qs = (opcode a2, attribs a2, ds) # qs'"
      "yields i2 os" "pieces os qs'" by (auto simp: pfetched_def)
    have m: "followMerge h ro a1 a2 opOut st = Inr ((a1, a2\<lparr>opcode := NoOp\<rparr>, a2), st)"
      using True k2 by (auto simp: followMerge_def Let_def)
    show ?thesis
      unfolding a2(2) ps
      by (rule merge_stepI [OF m p(1) le h1 [unfolded ps] pahead_clear [OF a2(3,4)]
            outputs_copy [OF a2(1)] end2 [OF k2]])
        (use c k in \<open>simp_all add: ps a2(2)\<close>)
  next
    case n1: False
    with e have n2: "opcode a2 = NoOp" by simp
    then have qs: "qs = []" using f2 by (auto simp: pfetched_def fits_def)
    from n1 f1 obtain cs ps' os where a1: "fits a1 cs" "ps = (opcode a1, attribs a1, cs) # ps'"
      "yields i1 os" "pieces os ps'" by (auto simp: pfetched_def)
    have c1: "si_ahead (fo_chars1 st) (inserted (flat ps'))" "si_ahead (fo_chars2 st) (inserted (flat []))"
      using c k(1) by (simp_all add: a1(2) qs)
    show ?thesis
    proof (cases "opcode a1 = Del")
      case True
      have m: "followMerge h ro a1 a2 opOut st = Inr ((a1\<lparr>opcode := NoOp\<rparr>, a2, opOut), st)"
        using True n2 by (simp add: followMerge_def)
      have o: "outputs opOut []" using out by (simp add: outputs_def)
      show ?thesis
        unfolding a1(2) qs True
        by (rule merge_stepI [OF m p(1) le pahead_clear [OF a1(3,4)] h2 [unfolded qs] o end1_del refl refl c1])
    next
      case False
      with k(1) n1 have k1: "opcode a1 = Keep" by (cases "opcode a1") auto
      have m: "followMerge h ro a1 a2 opOut st = Inr ((a1\<lparr>opcode := NoOp\<rparr>, a2, a1), st)"
        using k1 n2 by (simp add: followMerge_def)
      show ?thesis
        unfolding a1(2) qs
        by (rule merge_stepI [OF m p(1) le pahead_clear [OF a1(3,4)] h2 [unfolded qs]
              outputs_copy [OF a1(1)] _ refl refl c1]) (simp add: k1 end1_keep)
    qed
  qed
qed

lemma known_piece: "known p (flat ((k, a, cs) # ps)) \<Longrightarrow> cs \<noteq> [] \<Longrightarrow> is_attribs a \<and> att_known p a"
  by (simp add: known_run)

lemma merge_step_any:
  assumes f: "pfetched a1 i1 ps" "pfetched a2 i2 qs" and p: "fo_pool st = Some p" "pool_wf p"
    and some: "opcode a1 \<noteq> NoOp \<or> opcode a2 \<noteq> NoOp" and out: "opcode opOut = NoOp"
    and al: "paligned ps qs" and kn: "known p (flat ps)" "known p (flat qs)"
    and c: "si_ahead (fo_chars1 st) (inserted (flat ps))" "si_ahead (fo_chars2 st) (inserted (flat qs))"
  shows "merge_step h ro a1 i1 ps a2 i2 qs opOut st p"
proof -
  consider "opcode a1 = Ins \<or> opcode a2 = Ins"
    | "opcode a1 \<noteq> Ins" "opcode a2 \<noteq> Ins" "opcode a1 = NoOp \<or> opcode a2 = NoOp"
    | "opcode a1 = Del \<or> opcode a1 = Keep" "opcode a2 = Del \<or> opcode a2 = Keep"
    by (cases "opcode a1"; cases "opcode a2") auto
  then show ?thesis
  proof cases
    case 1
    from merge_step_insert [OF f p 1 c] show ?thesis .
  next
    case 2
    from merge_step_end [OF f p some 2 out c] show ?thesis .
  next
    case 3
    from 3(1) f(1) obtain cs ps' os where a1: "fits a1 cs" "ps = (opcode a1, attribs a1, cs) # ps'"
      "yields i1 os" "pieces os ps'" by (auto simp: pfetched_def)
    from 3(2) f(2) obtain ds qs' os2 where a2: "fits a2 ds" "qs = (opcode a2, attribs a2, ds) # qs'"
      "yields i2 os2" "pieces os2 qs'" by (auto simp: pfetched_def)
    have ne: "cs \<noteq> []" "ds \<noteq> []" using a1(1) a2(1) by (simp_all add: fits_def)
    have n: "opcode a1 \<noteq> Ins" "opcode a2 \<noteq> Ins" using 3 by auto
    from n c have c': "si_ahead (fo_chars1 st) (inserted (flat ps'))"
      "si_ahead (fo_chars2 st) (inserted (flat qs'))" by (simp_all add: a1(2) a2(2))
    from known_piece [OF kn(1) [unfolded a1(2)] ne(1)] known_piece [OF kn(2) [unfolded a2(2)] ne(2)]
    show ?thesis
      unfolding a1(2) a2(2)
      by (intro merge_step_both [OF a1(1,3,4) a2(1,3,4) 3 out al [unfolded a1(2) a2(2)] p _ _ _ _ c'])
         simp_all
  qed
qed

subsection \<open>The zipper function of follow\<close>

lemma fstep_attF: "fstep W (attF p) ps qs ps' qs' g \<Longrightarrow> pool_le p q \<Longrightarrow> fstep W (attF q) ps qs ps' qs' g"
  by (induction rule: fstep.induct) (auto intro: fstep.intros attF_le)

lemma fstep_known:
  "fstep W (attF p) ps qs ps' qs' g \<Longrightarrow> known p (flat ps) \<Longrightarrow> known p (flat qs)
   \<Longrightarrow> known p (flat ps') \<and> known p (flat qs') \<and> known p g"
  by (induction rule: fstep.induct) (auto simp: known_run attF_def, simp_all add: known_def)

lemma fstep_paligned: "fstep W F ps qs ps' qs' g \<Longrightarrow> paligned ps qs \<Longrightarrow> paligned ps' qs'"
  unfolding paligned_def using fstep_text by blast

definition follow_inv :: "followState \<Rightarrow> piece list \<Rightarrow> piece list \<Rightarrow> bool" where
  "follow_inv st ps qs =
     (\<exists>p. fo_pool st = Some p \<and> pool_wf p \<and> known p (flat ps) \<and> known p (flat qs) \<and> paligned ps qs \<and>
        si_ahead (fo_chars1 st) (inserted (flat ps)) \<and> si_ahead (fo_chars2 st) (inserted (flat qs)))"

definition follow_ends ::
  "(string \<Rightarrow> bool) \<Rightarrow> bool \<Rightarrow> followState \<Rightarrow> piece list \<Rightarrow> piece list \<Rightarrow> script \<Rightarrow> followState \<Rightarrow> bool" where
  "follow_ends h ro st ps qs gs st' =
     (\<exists>p p'. fo_pool st = Some p \<and> fo_pool st' = Some p' \<and> pool_le p p' \<and> known p' gs \<and>
        (\<forall>q. pool_le p' q \<longrightarrow> fols (firstIns h ro) (attF q) ps qs gs) \<and>
        fo_oldPos st' = fo_oldPos st + int (length (src gs)) \<and>
        fo_newLen st' = fo_newLen st + int (length (dst gs)))"

text \<open>The \<open>switch\<close> at the end of the zipper function counts the characters of the output.\<close>

lemma outputs_count:
  assumes "outputs o2 g"
  shows "(case opcode o2 of Keep \<Rightarrow> chars o2 | Del \<Rightarrow> chars o2 | _ \<Rightarrow> 0) = int (length (src g))"
    and "(case opcode o2 of Keep \<Rightarrow> chars o2 | Ins \<Rightarrow> chars o2 | _ \<Rightarrow> 0) = int (length (dst g))"
proof -
  from assms consider "opcode o2 = NoOp" "g = []"
    | cs where "g = run (opcode o2) (attribs o2) cs" "fits o2 cs"
    unfolding outputs_def covers_run by (auto split: if_splits)
  then show "(case opcode o2 of Keep \<Rightarrow> chars o2 | Del \<Rightarrow> chars o2 | _ \<Rightarrow> 0) = int (length (src g))"
    "(case opcode o2 of Keep \<Rightarrow> chars o2 | Ins \<Rightarrow> chars o2 | _ \<Rightarrow> 0) = int (length (dst g))"
    by (cases; auto simp: fits_def split: opcode.splits)+
qed

lemma followZip_counts:
  assumes m: "followMerge h ro a1 a2 opOut st = Inr ((a1', a2', o2), st1)" and o: "outputs o2 g"
  shows "\<exists>st'. followZip h ro a1 a2 opOut st = Inr ((a1', a2', o2), st') \<and>
    fo_pool st' = fo_pool st1 \<and> fo_chars1 st' = fo_chars1 st1 \<and> fo_chars2 st' = fo_chars2 st1 \<and>
    fo_oldPos st' = fo_oldPos st1 + int (length (src g)) \<and>
    fo_newLen st' = fo_newLen st1 + int (length (dst g))"
  using outputs_count [OF o] by (cases "opcode o2") (simp_all add: followZip_def m)

interpretation merging: piece_zipper "followZip h ro" follow_inv "follow_ends h ro" for h ro
proof unfold_locales
  fix st assume "follow_inv st [] []"
  then show "follow_ends h ro st [] [] [] st"
    by (auto simp: follow_inv_def follow_ends_def known_def pool_le_refl intro: fols.fnil)
next
  fix a1 i1 ps a2 i2 qs st and opOut :: op
  assume f: "pfetched a1 i1 ps" "pfetched a2 i2 qs" and out: "opcode opOut = NoOp"
    and some: "opcode a1 \<noteq> NoOp \<or> opcode a2 \<noteq> NoOp" and "follow_inv st ps qs"
  then obtain p where p: "fo_pool st = Some p" "pool_wf p" "known p (flat ps)" "known p (flat qs)"
    "paligned ps qs" "si_ahead (fo_chars1 st) (inserted (flat ps))"
    "si_ahead (fo_chars2 st) (inserted (flat qs))"
    by (auto simp: follow_inv_def)
  from merge_step_any [OF f p(1,2) some out p(5,3,4,6,7), of h ro]
  obtain a1' a2' o2 st1 p' ps' qs' g where
    m: "followMerge h ro a1 a2 opOut st = Inr ((a1', a2', o2), st1)" "fo_pool st1 = Some p'"
      "pool_le p p'" "pahead a1' i1 ps'" "pahead a2' i2 qs'" "outputs o2 g"
      "fstep (firstIns h ro) (attF p') ps qs ps' qs' g"
      "fo_oldPos st1 = fo_oldPos st" "fo_newLen st1 = fo_newLen st"
      "si_ahead (fo_chars1 st1) (inserted (flat ps'))" "si_ahead (fo_chars2 st1) (inserted (flat qs'))"
    unfolding merge_step_def by blast
  from followZip_counts [OF m(1,6)] obtain st' where
    z: "followZip h ro a1 a2 opOut st = Inr ((a1', a2', o2), st')"
      "fo_pool st' = fo_pool st1" "fo_chars1 st' = fo_chars1 st1" "fo_chars2 st' = fo_chars2 st1"
      "fo_oldPos st' = fo_oldPos st1 + int (length (src g))"
      "fo_newLen st' = fo_newLen st1 + int (length (dst g))" by blast
  note k = fstep_known [OF m(7) known_le [OF m(3) p(3)] known_le [OF m(3) p(4)]]
  have inv: "follow_inv st' ps' qs'"
    using z m k fstep_paligned [OF m(7) p(5)] pool_le_wf [OF m(3)] by (simp add: follow_inv_def)
  have ends: "follow_ends h ro st ps qs (g @ gs) st''" if "follow_ends h ro st' ps' qs' gs st''" for gs st''
  proof -
    from that obtain q where q: "fo_pool st'' = Some q" "pool_le p' q" "known q gs"
      "\<And>r. pool_le q r \<Longrightarrow> fols (firstIns h ro) (attF r) ps' qs' gs"
      "fo_oldPos st'' = fo_oldPos st' + int (length (src gs))"
      "fo_newLen st'' = fo_newLen st' + int (length (dst gs))"
      using z(2) m(2) by (auto simp: follow_ends_def)
    have "fols (firstIns h ro) (attF r) ps qs (g @ gs)" if "pool_le q r" for r
      using fcons [OF fstep_attF [OF m(7) pool_le_trans [OF q(2) that]] q(4) [OF that]] .
    with q k z m(8,9) p(1) pool_le_trans [OF m(3) q(2)] known_le [OF q(2)] show ?thesis
      by (auto simp: follow_ends_def)
  qed
  show "\<exists>a1' a2' o2 st' ps' qs' g. followZip h ro a1 a2 opOut st = Inr ((a1', a2', o2), st') \<and>
      pahead a1' i1 ps' \<and> pahead a2' i2 qs' \<and> outputs o2 g \<and> follow_inv st' ps' qs' \<and>
      (\<forall>gs st''. follow_ends h ro st' ps' qs' gs st'' \<longrightarrow> follow_ends h ro st ps qs (g @ gs) st'')"
    using z(1) m(4,5,6) inv ends by blast
qed

subsection \<open>The tie-break attribute in a growing pool\<close>

lemma re_test_matches:
  "is_attribs s \<Longrightarrow> list_all is_alnum num \<Longrightarrow> re_test num s \<Longrightarrow> num \<in> set (star_matches s)"
proof (induction s rule: lex_stars.induct)
  case 1
  then show ?case by simp
next
  case (2 c s)
  let ?d = "takeWhile is_alnum s" and ?s' = "dropWhile is_alnum s"
  from 2(2) have c: "c = CHR ''*''" "?d \<noteq> []" and s': "is_attribs ?s'"
    by (auto simp: is_attribs_def case_prod_beta split: if_splits)
       (metis append_same_eq prod.collapse takeWhile_dropWhile_id append_eq_append_conv)
  have skip: "re_test num (xs @ ys) \<Longrightarrow> list_all is_alnum xs \<Longrightarrow> re_test num ys" for xs ys
    by (induction xs) auto
  show ?case
  proof (cases "take (length num) s = num \<and>
      (case drop (length num) s of [] \<Rightarrow> True | d # _ \<Rightarrow> \<not> is_word d)")
    case True
    then have s: "s = num @ drop (length num) s" by (metis append_take_drop_id)
    have "stops (drop (length num) s)"
      using True by (auto simp: stops_def is_word_def Let_def split: list.splits)
    from takeWhile_alnum_append [OF 2(3) this] s have "?d = num" by metis
    with c show ?thesis by simp
  next
    case False
    with 2(4) have "re_test num s" by auto
    then have "re_test num (?d @ ?s')" by simp
    then have "re_test num ?s'" by (rule skip) (auto simp: list_all_iff dest: set_takeWhileD)
    with 2(1,3) c s' show ?thesis by simp
  qed
qed

lemma attributeTester_grown:
  assumes wf: "pool_wf p" and le: "pool_le p q" and s: "is_attribs s" "att_known p s"
  shows "attributeTester pair (Some q) s = attributeTester pair (Some p) s"
proof (cases "obj_get (attribToNum p) (attribStr pair)")
  case (Some n)
  from pool_wf_attrib [OF wf this] obtain a where a: "getAttrib p n = Some a" "attribStr a = attribStr pair"
    by blast
  with le have "getAttrib q n = Some a" by (simp add: pool_le_def)
  with a(2) pool_wf_num [OF pool_le_wf [OF le]] have "obj_get (attribToNum q) (attribStr pair) = Some n"
    by metis
  with Some show ?thesis by (simp add: attributeTester_def putAttrib_def)
next
  case None
  show ?thesis
  proof (cases "obj_get (attribToNum q) (attribStr pair)")
    case None
    with \<open>obj_get (attribToNum p) (attribStr pair) = None\<close> show ?thesis
      by (simp add: attributeTester_def putAttrib_def)
  next
    case (Some n)
    from pool_wf_attrib [OF pool_le_wf [OF le] this] obtain a where
      a: "getAttrib q n = Some a" "attribStr a = attribStr pair" by blast
    have n: "0 \<le> n" using pool_wf_bound [OF pool_le_wf [OF le] a(1)] by simp
    have "\<not> re_test (numToString n) s"
    proof
      assume "re_test (numToString n) s"
      from re_test_matches [OF s(1) _ this] numToString_alnum [OF n]
      have "numToString n \<in> set (star_matches s)" by blast
      with s(2) n obtain b where b: "getAttrib p n = Some b"
        by (auto simp: att_known_def list_all_iff)
      with le a(1) have "b = a" by (auto simp: pool_le_def)
      with pool_wf_num [OF wf b] None a(2) show False by simp
    qed
    with Some None n show ?thesis by (simp add: attributeTester_def putAttrib_def)
  qed
qed

definition known_pieces :: "pool \<Rightarrow> piece list \<Rightarrow> bool" where
  "known_pieces p ps = list_all (\<lambda>(k, a, cs). is_attribs a \<and> att_known p a) ps"

lemma known_pieces_simps [simp]:
  "known_pieces p []" "known_pieces p ((k, a, cs) # ps) = (is_attribs a \<and> att_known p a \<and> known_pieces p ps)"
  by (simp_all add: known_pieces_def)

lemma known_pieces_flat: "pieces os ps \<Longrightarrow> known p (flat ps) \<Longrightarrow> known_pieces p ps"
proof (induction os arbitrary: ps)
  case (Cons o1 os)
  from Cons.prems(1) obtain cs ps' where "ps = (opcode o1, attribs o1, cs) # ps'" "fits o1 cs"
    "pieces os ps'" by (rule pieces_ConsE)
  with Cons show ?case by (auto simp: known_run fits_def)
qed simp

lemma fstep_first_cong:
  assumes "fstep W F ps qs ps' qs' g" and "known_pieces p ps" "known_pieces p qs"
    and "\<And>a x b y. is_attribs a \<Longrightarrow> att_known p a \<Longrightarrow> is_attribs b \<Longrightarrow> att_known p b \<Longrightarrow> W a x b y = V a x b y"
  shows "fstep V F ps qs ps' qs' g"
  using assms(1)
proof (cases rule: fstep.cases)
  case (ins1 a x)
  with assms(2-4) show ?thesis by (auto intro!: fstep.ins1)
next
  case (ins2 b y)
  with assms(2-4) show ?thesis by (auto intro!: fstep.ins2)
qed (auto intro: fstep.intros)

lemma fstep_known_pieces:
  "fstep W F ps qs ps' qs' g \<Longrightarrow> known_pieces p ps \<Longrightarrow> known_pieces p qs
   \<Longrightarrow> known_pieces p ps' \<and> known_pieces p qs'"
  by (induction rule: fstep.induct) (auto simp: rest_def)

lemma fols_first_cong:
  assumes "fols W F ps qs gs" and "known_pieces p ps" "known_pieces p qs"
    and "\<And>a x b y. is_attribs a \<Longrightarrow> att_known p a \<Longrightarrow> is_attribs b \<Longrightarrow> att_known p b \<Longrightarrow> W a x b y = V a x b y"
  shows "fols V F ps qs gs"
  using assms
proof (induction rule: fols.induct)
  case (fcons ps qs ps' qs' g gs)
  note k = fstep_known_pieces [OF fcons.hyps(1) fcons.prems(1,2)]
  show ?case
    using fstep_first_cong [OF fcons.hyps(1) fcons.prems] fcons.IH k fcons.prems(3)
    by (auto intro: fols.fcons)
qed (rule fols.fnil)

subsection \<open>Merging changesets\<close>

text \<open>The pieces of a packed changeset that reads as a script.\<close>

definition cs_pieces :: "string \<Rightarrow> piece list \<Rightarrow> bool" where
  "cs_pieces cs ps =
     (case unpack cs of
        Inl _ \<Rightarrow> False
      | Inr u \<Rightarrow> (case parse_ops (up_ops u) of Inl _ \<Rightarrow> False | Inr os \<Rightarrow> pieces os ps))"

lemma cs_on_pieces: "cs_on cs t es \<Longrightarrow> \<exists>ps. cs_pieces cs ps \<and> es = flat ps"
  using denotes_pieces by (fastforce simp: cs_on_def cs_pieces_def split: sum.splits)

lemma cs_pieces_known: "cs_pieces cs ps \<Longrightarrow> known p (flat ps) \<Longrightarrow> known_pieces p ps"
  by (auto simp: cs_pieces_def intro: known_pieces_flat split: sum.splits)

abbreviation insFirst :: "pool \<Rightarrow> string \<Rightarrow> bool" where
  "insFirst p \<equiv> attributeTester (''insertorder'', ''first'') (Some p)"

lemma follow_script:
  assumes c1: "cs_on cs1 t (flat ps)" "cs_pieces cs1 ps" and c2: "cs_on cs2 t (flat qs)" "cs_pieces cs2 qs"
    and p: "pool_wf p" "known p (flat ps)" "known p (flat qs)"
  shows "\<exists>cs3 p' gs. follow cs1 cs2 ro (Some p) = Inr (cs3, Some p') \<and> pool_le p p' \<and>
    fols (firstIns (insFirst p) ro) (attF p') ps qs gs \<and> known p' gs \<and> no_NoOp gs \<and>
    cs_on cs3 (result t (flat ps)) (smart_norm gs) \<and> cs3 = packed (result t (flat ps)) gs \<and>
    (\<exists>r. (length (src (flat ps)) < length t \<and> length (src (flat qs)) < length t \<longrightarrow> r \<noteq> []) \<and> result t (flat ps) = src gs @ r \<and> result (result t (flat ps)) (smart_norm gs) = dst gs @ r)"
proof -
  obtain os1 where o1: "parse_ops (up_ops (projr (unpack cs1))) = Inr os1" "pieces os1 ps"
    using c1(2) by (auto simp: cs_pieces_def split: sum.splits)
  obtain os2 where o2: "parse_ops (up_ops (projr (unpack cs2))) = Inr os2" "pieces os2 qs"
    using c2(2) by (auto simp: cs_pieces_def split: sum.splits)
  from c1(1) have u1: "unpack cs1 = Inr \<lparr>up_oldLen = int (length t),
       up_newLen = int (length (result t (flat ps))),
       up_ops = up_ops (projr (unpack cs1)), up_charBank = inserted (flat ps)\<rparr>" and t1: "on_text (flat ps) t"
    by (auto elim: cs_onE)
  from c2(1) have u2: "unpack cs2 = Inr \<lparr>up_oldLen = int (length t),
       up_newLen = int (length (result t (flat qs))),
       up_ops = up_ops (projr (unpack cs2)), up_charBank = inserted (flat qs)\<rparr>" and t2: "on_text (flat qs) t"
    by (auto elim: cs_onE)
  obtain r1 r2 where r: "t = src (flat ps) @ r1" "t = src (flat qs) @ r2"
    using t1 t2 unfolding on_text_iff by blast
  let ?st = "\<lparr>fo_chars1 = stringIterator (inserted (flat ps)), fo_chars2 = stringIterator (inserted (flat qs)),
    fo_oldPos = 0, fo_newLen = 0, fo_pool = Some p\<rparr>"
  have al: "src (flat ps) @ r1 = src (flat qs) @ r2" using r by simp
  then have "follow_inv ?st ps qs" using p unfolding follow_inv_def paligned_def by simp blast
  from merging.applyZip_pends [OF o1 o2 this, of "insFirst p" ro] obtain gs st' where
    z: "applyZip (up_ops (projr (unpack cs1))) 0 (up_ops (projr (unpack cs2))) 0
      (followZip (insFirst p) ro) ?st = Inr (smart_string gs, st')" and nn: "no_NoOp gs"
    and e: "follow_ends (insFirst p) ro ?st ps qs gs st'" by blast
  from e obtain p' where p': "fo_pool st' = Some p'" "pool_le p p'" "known p' gs"
    "fols (firstIns (insFirst p) ro) (attF p') ps qs gs"
    "fo_oldPos st' = int (length (src gs))" "fo_newLen st' = int (length (dst gs))"
    using pool_le_refl pool_le_wf by (fastforce simp: follow_ends_def)
  from fols_text [OF p'(4) al] obtain r3 where r3: "dst (flat ps) @ r1 = src gs @ r3"
    "inserted gs = inserted (flat qs)" "r1 \<noteq> [] \<and> r2 \<noteq> [] \<longrightarrow> r3 \<noteq> []" by blast
  have res: "result t (flat ps) = src gs @ r3" using r(1) r3(1) by simp
  note cs = cs_on_smart [OF known_script_ok [OF nn p'(3)] res]
  have "follow cs1 cs2 ro (Some p) = Inr (pack (int (length (result t (flat ps))))
      (int (length (dst gs @ r3))) (smart_string gs) (inserted gs), Some p')"
    unfolding follow_def by (subst u1, subst u2) (simp add: z p' res r3(2))
  moreover have "pack (int (length (result t (flat ps)))) (int (length (dst gs @ r3))) (smart_string gs)
      (inserted gs) = packed (result t (flat ps)) gs"
    using packed_eq [of gs r3] res by simp
  moreover have "length (src (flat ps)) < length t \<and> length (src (flat qs)) < length t \<longrightarrow> r3 \<noteq> []"
    using r3(3) arg_cong [OF r(1), of length] arg_cong [OF r(2), of length] by (cases "r1 = []"; cases "r2 = []") simp_all
  ultimately show ?thesis using cs p' nn res by metis
qed

lemma follow_diamond:
  assumes c1: "cs_on cs1 t es" and c2: "cs_on cs2 t fs"
    and p: "pool_wf p" "known p es" "known p fs" and q: "pool_le p q"
  shows "\<exists>cs2' p1 cs1' p2 gs hs. follow cs1 cs2 ro (Some p) = Inr (cs2', Some p1) \<and> pool_le p p1 \<and>
    follow cs2 cs1 (\<not> ro) (Some q) = Inr (cs1', Some p2) \<and> pool_le q p2 \<and>
    cs_on cs2' (result t es) gs \<and> cs_on cs1' (result t fs) hs \<and> known p1 gs \<and> known p2 hs \<and>
    result (result t es) gs = result (result t fs) hs"
proof -
  obtain ps where ps: "cs_pieces cs1 ps" "es = flat ps" using cs_on_pieces [OF c1] by blast
  obtain qs where qs: "cs_pieces cs2 qs" "fs = flat qs" using cs_on_pieces [OF c2] by blast
  note kp = cs_pieces_known [OF ps(1) p(2) [unfolded ps(2)]]
    and kq = cs_pieces_known [OF qs(1) p(3) [unfolded qs(2)]]
  from follow_script [OF c1 [unfolded ps(2)] ps(1) c2 [unfolded qs(2)] qs(1) p [unfolded ps(2) qs(2)], of ro]
  obtain cs2' p1 gs r3 where
    a: "follow cs1 cs2 ro (Some p) = Inr (cs2', Some p1)" "pool_le p p1"
      "fols (firstIns (insFirst p) ro) (attF p1) ps qs gs" "known p1 gs" "no_NoOp gs"
      "cs_on cs2' (result t (flat ps)) (smart_norm gs)" "result t (flat ps) = src gs @ r3"
      "result (result t (flat ps)) (smart_norm gs) = dst gs @ r3" by blast
  have kq': "known q (flat qs)" "known q (flat ps)"
    using known_le [OF q p(3)] known_le [OF q p(2)] by (simp_all add: qs(2) ps(2))
  from follow_script [OF c2 [unfolded qs(2)] qs(1) c1 [unfolded ps(2)] ps(1) pool_le_wf [OF q] kq',
      of "\<not> ro"]
  obtain cs1' p2 hs r4 where
    b: "follow cs2 cs1 (\<not> ro) (Some q) = Inr (cs1', Some p2)" "pool_le q p2"
      "fols (firstIns (insFirst q) (\<not> ro)) (attF p2) qs ps hs" "known p2 hs" "no_NoOp hs"
      "cs_on cs1' (result t (flat qs)) (smart_norm hs)" "result t (flat qs) = src hs @ r4"
      "result (result t (flat qs)) (smart_norm hs) = dst hs @ r4" by blast
  have b3: "fols (firstIns (insFirst p) (\<not> ro)) (attF p2) qs ps hs"
    using attributeTester_grown [OF p(1) q]
    by (intro fols_first_cong [OF b(3) kq kp]) (simp add: firstIns_def followWhich_def)
  obtain r1 r2 where r: "t = src (flat ps) @ r1" "t = src (flat qs) @ r2"
    using c1 c2 unfolding ps(2) qs(2) by (elim cs_onE) (unfold on_text_iff, blast)
  then have "src (flat ps) @ r1 = src (flat qs) @ r2" by simp
  from fols_diamond [OF a(3) b3 firstIns_mirror this] obtain r5 r6 where
    d: "dst (flat ps) @ r1 = src gs @ r5" "dst (flat qs) @ r2 = src hs @ r6"
      "dst gs @ r5 = dst hs @ r6" by blast
  have "r5 = r3" using a(7) d(1) unfolding r(1) by simp
  moreover have "r6 = r4" using b(7) d(2) unfolding r(2) by simp
  ultimately have eq: "result (result t es) (smart_norm gs) = result (result t fs) (smart_norm hs)"
    using d(3) a(8) b(8) by (simp add: ps(2) qs(2))
  have norm: "no_NoOp gs \<Longrightarrow> known p1 gs \<Longrightarrow> known p1 (smart_norm gs)" for p1 gs
    using smart_norm_text [of gs] by (auto simp: known_def list_all_iff)
  from a b eq norm [OF a(5,4)] norm [OF b(5,4)] show ?thesis unfolding ps(2) qs(2) by blast
qed

text \<open>
  C2. Concurrent edits converge. Of two changesets on the same text, each site applies its own first
  and then the other one transformed by \<open>follow\<close> (with opposite \<open>reverseInsertOrder\<close>): both calls
  succeed, only add to the pool they share, and the two sites end with the same text.
\<close>

theorem follow_converges:
  assumes "cs_on csA t es" and "cs_on csB t fs" and "pool_wf p" and "known p es" and "known p fs"
  shows "\<exists>csB' p1 csA' p2 t'. follow csA csB rio (Some p) = Inr (csB', Some p1) \<and>
    follow csB csA (\<not> rio) (Some p1) = Inr (csA', Some p2) \<and> pool_le p p1 \<and> pool_le p1 p2 \<and>
    bindE (applyToText csA t) (applyToText csB') = Inr t' \<and>
    bindE (applyToText csB t) (applyToText csA') = Inr t'"
proof -
  from follow_diamond [OF assms pool_le_refl [OF assms(3)], of rio] obtain csB0 p1 where
    f: "follow csA csB rio (Some p) = Inr (csB0, Some p1)" "pool_le p p1" by blast
  from follow_diamond [OF assms f(2), of rio] obtain csB' p1' csA' p2 gs hs where
    g: "follow csA csB rio (Some p) = Inr (csB', Some p1')"
      "follow csB csA (\<not> rio) (Some p1) = Inr (csA', Some p2)" "pool_le p1 p2"
      "cs_on csB' (result t es) gs" "cs_on csA' (result t fs) hs"
      "result (result t es) gs = result (result t fs) hs" by blast
  with f have "csB' = csB0" "p1' = p1" by simp_all
  with f g applyToText_result [OF assms(1)] applyToText_result [OF assms(2)]
    applyToText_result [OF g(4)] applyToText_result [OF g(5)]
  show ?thesis by auto
qed

theorem follow_converges_witness:
  "\<exists>csB' p1 csA' p2. follow ''Z:2>1=1+1$x'' ''Z:2>1=1+1$y'' False (Some AttribPool) = Inr (csB', Some p1) \<and>
    follow ''Z:2>1=1+1$y'' ''Z:2>1=1+1$x'' True (Some p1) = Inr (csA', Some p2) \<and>
    applyToText csB' ''axb'' = applyToText csA' ''ayb''"
proof -
  let ?e = "\<lambda>c. [Edit Keep '''' CHR ''a'', Edit Ins '''' c]"
  have c: "cs_on ''Z:2>1=1+1$x'' ''ab'' (?e CHR ''x'')" by code_simp
  have d: "cs_on ''Z:2>1=1+1$y'' ''ab'' (?e CHR ''y'')" by code_simp
  have k: "known AttribPool (?e CHR ''x'')" "known AttribPool (?e CHR ''y'')" by code_simp+
  have "applyToText ''Z:2>1=1+1$x'' ''ab'' = Inr ''axb''" "applyToText ''Z:2>1=1+1$y'' ''ab'' = Inr ''ayb''"
    by code_simp+
  with follow_converges [OF c d pool_wf_empty k, of False] show ?thesis by force
qed

end
