(* ===== verification/Changesets.thy ===== *)
theory Changesets
  imports FollowLaws
begin

text \<open>
  The operations of \<open>easysync2.js\<close> that make and inspect packed changesets: \<open>toBaseTen\<close>,
  \<open>checkRep\<close>, \<open>appendOpWithText\<close>, \<open>makeSplice\<close>, \<open>toSplices\<close>, \<open>characterRangeFollow\<close>, attributed
  texts, \<open>builder\<close> and \<open>subattribution\<close>; with what \<open>checkRep\<close> guarantees and what \<open>makeSplice\<close> does.
\<close>

subsection \<open>toBaseTen\<close>

function num10 :: "int \<Rightarrow> string" where
  "num10 n =
     (if n < 10 then [digits36 ! nat n] else num10 (n div 10) @ [digits36 ! nat (n mod 10)])"
  by pat_completeness auto
termination by (relation "measure nat") auto

declare num10.simps [simp del]

function baseTenRuns :: "string \<Rightarrow> string" where
  "baseTenRuns [] = []"
| "baseTenRuns (c # s) =
     (if is_alnum c
      then num10 (parseNum (c # takeWhile is_alnum s)) @ baseTenRuns (dropWhile is_alnum s)
      else c # baseTenRuns s)"
  by pat_completeness auto
termination by (relation "measure length") (auto simp: length_dropWhile_le less_Suc_eq_le)

definition toBaseTen :: "string \<Rightarrow> string" where
  "toBaseTen cs =
     (let dollarIndex = js_indexOf cs ''$'' 0
      in baseTenRuns (js_substring cs 0 dollarIndex) @ js_from cs dollarIndex)"

subsection \<open>checkRep\<close>

record checkState =
  ck_oldPos :: int
  ck_calcNewLen :: int
  ck_numInserted :: int
  ck_assem :: smartAssem

definition checkRep_op :: "int \<Rightarrow> int \<Rightarrow> op \<Rightarrow> checkState \<Rightarrow> checkState res" where
  "checkRep_op lenOld lenNew o1 st =
     bindE (case opcode o1 of
         Keep \<Rightarrow> Inr (st\<lparr>ck_oldPos := ck_oldPos st + chars o1,
                       ck_calcNewLen := ck_calcNewLen st + chars o1\<rparr>)
       | Del \<Rightarrow>
           (let st1 = st\<lparr>ck_oldPos := ck_oldPos st + chars o1\<rparr>
            in bindE (assertE (ck_oldPos st1 < lenOld) ''oldPos >= oldLen'') (\<lambda>_. Inr st1))
       | Ins \<Rightarrow>
           (let st1 = st\<lparr>ck_calcNewLen := ck_calcNewLen st + chars o1,
                        ck_numInserted := ck_numInserted st + chars o1\<rparr>
            in bindE (assertE (ck_calcNewLen st1 < lenNew) ''calcNewLen >= newLen'') (\<lambda>_. Inr st1))
       | NoOp \<Rightarrow> Inr st)
     (\<lambda>st1. Inr (st1\<lparr>ck_assem := sa_append o1 (ck_assem st1)\<rparr>))"

definition checkRep :: "string \<Rightarrow> string res" where
  "checkRep cs =
     bindE (unpack cs) (\<lambda>u.
     (let oldLen = up_oldLen u; newLen = up_newLen u in
      bindE (opIterator (up_ops u) 0) (\<lambda>iter.
      bindE (forOps iter (checkRep_op oldLen newLen)
               \<lparr>ck_oldPos = 0, ck_calcNewLen = 0, ck_numInserted = 0, ck_assem = smartOpAssembler\<rparr>)
        (\<lambda>st.
          (let calcNewLen = ck_calcNewLen st + (oldLen - ck_oldPos st);
               bank = js_substring (up_charBank u) 0 (ck_numInserted st);
               charBank = bank @ replicate (nat (ck_numInserted st - int (length bank))) CHR ''?'';
               normalized = pack oldLen calcNewLen
                 (fst (sa_toString (sa_endDocument (ck_assem st)))) charBank
           in bindE (assertE (normalized = cs) ''normalized != cs'') (\<lambda>_. Inr cs))))))"

subsection \<open>Appending a text\<close>

text \<open>
  \<open>appendOpWithText\<close>. An \<open>undefined\<close> result of \<open>makeAttribsString\<close> is printed as the empty string;
  the model uses the empty string for it (in the code such an operation is moreover not merged with a
  neighbour whose attributes are the empty string).
\<close>

definition textOps :: "opcode \<Rightarrow> string \<Rightarrow> string \<Rightarrow> op list" where
  "textOps opc text att =
     (let o1 = (newOp opc)\<lparr>attribs := att\<rparr>;
          lastNewlinePos = js_lastIndexOf text [nl] (int (length text))
      in if lastNewlinePos < 0 then [o1\<lparr>chars := int (length text), lines := 0\<rparr>]
         else [o1\<lparr>chars := lastNewlinePos + 1, lines := count_nl text\<rparr>,
               o1\<lparr>chars := int (length text) - (lastNewlinePos + 1), lines := 0\<rparr>])"

definition sa_appendOpWithText ::
  "opcode \<Rightarrow> string \<Rightarrow> attribsArg \<Rightarrow> pool option \<Rightarrow> smartAssem \<Rightarrow> (smartAssem \<times> pool option) res" where
  "sa_appendOpWithText opc text att p s =
     bindE (makeAttribsString opc att p) (\<lambda>(astr, p').
       Inr (fold sa_append (textOps opc text (case astr of None \<Rightarrow> '''' | Some a \<Rightarrow> a)) s, p'))"

definition makeSplice ::
  "string \<Rightarrow> int \<Rightarrow> int \<Rightarrow> string \<Rightarrow> attribsArg \<Rightarrow> pool option \<Rightarrow> (string \<times> pool option) res" where
  "makeSplice oldFullText spliceStart0 numRemoved0 newText optNewTextAPairs p =
     (let oldLen = int (length oldFullText);
          spliceStart = (if oldLen \<le> spliceStart0 then oldLen - 1 else spliceStart0);
          numRemoved = (if oldLen - spliceStart - 1 < numRemoved0 then oldLen - spliceStart - 1
                        else numRemoved0);
          oldText = js_substring oldFullText spliceStart (spliceStart + numRemoved);
          newLen = oldLen + int (length newText) - int (length oldText)
      in
       bindE (sa_appendOpWithText Keep (js_substring oldFullText 0 spliceStart) NoAttribs None
                smartOpAssembler) (\<lambda>(assem1, _).
       bindE (sa_appendOpWithText Del oldText NoAttribs None assem1) (\<lambda>(assem2, _).
       bindE (sa_appendOpWithText Ins newText optNewTextAPairs p assem2) (\<lambda>(assem3, p').
       Inr (pack oldLen newLen (fst (sa_toString (sa_endDocument assem3))) newText, p')))))"

definition makeAttribution :: "string \<Rightarrow> string res" where
  "makeAttribution text =
     bindE (sa_appendOpWithText Ins text NoAttribs None smartOpAssembler)
       (\<lambda>(assem, _). Inr (fst (sa_toString assem)))"

subsection \<open>Splices\<close>

record splice =
  sp_start :: int
  sp_end :: int
  sp_text :: string

record spliceState =
  ts_splices :: "splice list"
  ts_oldPos :: int
  ts_charIter :: strIter
  ts_inSplice :: bool

definition updateLast :: "('a \<Rightarrow> 'a) \<Rightarrow> 'a list \<Rightarrow> 'a list" where
  "updateLast f xs = butlast xs @ [f (last xs)]"

definition toSplices_op :: "op \<Rightarrow> spliceState \<Rightarrow> spliceState res" where
  "toSplices_op o1 st =
     (if opcode o1 = Keep then
        Inr (st\<lparr>ts_oldPos := ts_oldPos st + chars o1, ts_inSplice := False\<rparr>)
      else
        (let st1 = (if \<not> ts_inSplice st then
               st\<lparr>ts_splices := ts_splices st @
                    [\<lparr>sp_start = ts_oldPos st, sp_end = ts_oldPos st, sp_text = ''''\<rparr>],
                  ts_inSplice := True\<rparr>
             else st)
         in case opcode o1 of
              Del \<Rightarrow> Inr (st1\<lparr>ts_oldPos := ts_oldPos st1 + chars o1,
                 ts_splices := updateLast (\<lambda>s. s\<lparr>sp_end := sp_end s + chars o1\<rparr>) (ts_splices st1)\<rparr>)
            | Ins \<Rightarrow> bindE (si_take (chars o1) (ts_charIter st1)) (\<lambda>(x, it).
                 Inr (st1\<lparr>ts_charIter := it,
                   ts_splices := updateLast (\<lambda>s. s\<lparr>sp_text := sp_text s @ x\<rparr>) (ts_splices st1)\<rparr>))
            | _ \<Rightarrow> Inr st1))"

definition toSplices :: "string \<Rightarrow> splice list res" where
  "toSplices cs =
     bindE (unpack cs) (\<lambda>u.
     bindE (opIterator (up_ops u) 0) (\<lambda>iter.
     bindE (forOps iter toSplices_op
              \<lparr>ts_splices = [], ts_oldPos = 0, ts_charIter = stringIterator (up_charBank u),
               ts_inSplice = False\<rparr>)
       (\<lambda>st. Inr (ts_splices st))))"

text \<open>The loop body: start, end and \<open>lengthChangeSoFar\<close>.\<close>

definition rangeFollow_splice :: "bool \<Rightarrow> splice \<Rightarrow> int \<times> int \<times> int \<Rightarrow> int \<times> int \<times> int" where
  "rangeFollow_splice insertionsAfter s st =
     (let (newStartChar, newEndChar, lengthChangeSoFar) = st;
          spliceStart = sp_start s + lengthChangeSoFar;
          spliceEnd = sp_end s + lengthChangeSoFar;
          newTextLength = int (length (sp_text s));
          thisLengthChange = newTextLength - (spliceEnd - spliceStart);
          lengthChange' = lengthChangeSoFar + thisLengthChange
      in if spliceStart \<le> newStartChar \<and> newEndChar \<le> spliceEnd then
           (if insertionsAfter then (spliceStart, spliceStart, lengthChange')
            else (spliceStart + newTextLength, spliceStart + newTextLength, lengthChange'))
         else if spliceEnd \<le> newStartChar then
           (newStartChar + thisLengthChange, newEndChar + thisLengthChange, lengthChange')
         else if newEndChar \<le> spliceStart then (newStartChar, newEndChar, lengthChange')
         else if newStartChar \<le> spliceStart \<and> spliceEnd \<le> newEndChar then
           (newStartChar, newEndChar + thisLengthChange, lengthChange')
         else if spliceEnd < newEndChar then
           (spliceStart + newTextLength, newEndChar + thisLengthChange, lengthChange')
         else (newStartChar, spliceStart, lengthChange'))"

definition characterRangeFollow :: "string \<Rightarrow> int \<Rightarrow> int \<Rightarrow> bool \<Rightarrow> (int \<times> int) res" where
  "characterRangeFollow cs startChar endChar insertionsAfter =
     bindE (toSplices cs) (\<lambda>splices.
       (let (s, e, _) = fold (rangeFollow_splice insertionsAfter) splices (startChar, endChar, 0)
        in Inr (s, e)))"

subsection \<open>Attributed texts\<close>

record atext =
  at_text :: string
  at_attribs :: string

definition makeAText :: "string \<Rightarrow> string \<Rightarrow> atext res" where
  "makeAText text att =
     (if att \<noteq> '''' then Inr \<lparr>at_text = text, at_attribs = att\<rparr>
      else bindE (makeAttribution text) (\<lambda>a. Inr \<lparr>at_text = text, at_attribs = a\<rparr>))"

definition applyToAText :: "string \<Rightarrow> atext \<Rightarrow> pool option \<Rightarrow> (atext \<times> pool option) res" where
  "applyToAText cs at p =
     bindE (applyToText cs (at_text at)) (\<lambda>t.
     bindE (applyToAttribution cs (at_attribs at) p) (\<lambda>(a, p').
     Inr (\<lparr>at_text = t, at_attribs = a\<rparr>, p')))"

definition cloneAText :: "atext \<Rightarrow> atext" where
  "cloneAText at = \<lparr>at_text = at_text at, at_attribs = at_attribs at\<rparr>"

definition copyAText :: "atext \<Rightarrow> atext \<Rightarrow> atext" where
  "copyAText at1 at2 = at2\<lparr>at_text := at_text at1, at_attribs := at_attribs at1\<rparr>"

text \<open>\<open>appendATextToAssembler\<close>: the last operation loses the final newline of the text.\<close>

definition lastATextOps :: "string \<Rightarrow> op \<Rightarrow> op list" where
  "lastATextOps text o1 =
     (if lines o1 \<le> 1 then
        (let o2 = o1\<lparr>lines := 0, chars := chars o1 - 1\<rparr> in if chars o2 \<noteq> 0 then [o2] else [])
      else
        (let nextToLastNewlineEnd = js_lastIndexOf text [nl] (int (length text) - 2) + 1;
             lastLineLength = int (length text) - nextToLastNewlineEnd - 1;
             o2 = o1\<lparr>lines := lines o1 - 1, chars := chars o1 - (lastLineLength + 1)\<rparr>;
             o3 = o2\<lparr>lines := 0, chars := lastLineLength\<rparr>
         in if chars o3 \<noteq> 0 then [o2, o3] else [o2]))"

function appendAText_loop :: "string \<Rightarrow> opIter \<Rightarrow> smartAssem \<Rightarrow> smartAssem res" where
  "appendAText_loop text iter assem =
     (if hasNext iter then
        bindE (opNext iter) (\<lambda>(o1, iter').
          appendAText_loop text iter'
            (if \<not> hasNext iter' then fold sa_append (lastATextOps text o1) assem
             else sa_append o1 assem))
      else Inr assem)"
  by pat_completeness auto
termination
  by (relation "measure (\<lambda>(_, it, _). iter_size it)") (auto intro: opNext_size)

declare appendAText_loop.simps [simp del]

definition appendATextToAssembler :: "atext \<Rightarrow> smartAssem \<Rightarrow> smartAssem res" where
  "appendATextToAssembler at assem =
     bindE (opIterator (at_attribs at) 0) (\<lambda>iter. appendAText_loop (at_text at) iter assem)"

subsection \<open>builder\<close>

record builder =
  bu_oldLen :: int
  bu_assem :: smartAssem
  bu_charBank :: stringAssem

definition builder_new :: "int \<Rightarrow> builder" where
  "builder_new n =
     \<lparr>bu_oldLen = n, bu_assem = smartOpAssembler, bu_charBank = stringAssembler\<rparr>"

definition bu_keep ::
  "int \<Rightarrow> int \<Rightarrow> attribsArg \<Rightarrow> pool option \<Rightarrow> builder \<Rightarrow> (builder \<times> pool option) res" where
  "bu_keep n l att p b =
     bindE (makeAttribsString Keep att p) (\<lambda>(astr, p').
       Inr (b\<lparr>bu_assem := sa_append
             \<lparr>opcode = Keep, chars = n, lines = l,
              attribs = (case astr of None \<Rightarrow> '''' | Some a \<Rightarrow> a)\<rparr> (bu_assem b)\<rparr>, p'))"

definition bu_keepText ::
  "string \<Rightarrow> attribsArg \<Rightarrow> pool option \<Rightarrow> builder \<Rightarrow> (builder \<times> pool option) res" where
  "bu_keepText text att p b =
     bindE (sa_appendOpWithText Keep text att p (bu_assem b)) (\<lambda>(assem, p').
       Inr (b\<lparr>bu_assem := assem\<rparr>, p'))"

definition bu_insert ::
  "string \<Rightarrow> attribsArg \<Rightarrow> pool option \<Rightarrow> builder \<Rightarrow> (builder \<times> pool option) res" where
  "bu_insert text att p b =
     bindE (sa_appendOpWithText Ins text att p (bu_assem b)) (\<lambda>(assem, p').
       Inr (b\<lparr>bu_assem := assem, bu_charBank := sta_append text (bu_charBank b)\<rparr>, p'))"

definition bu_remove :: "int \<Rightarrow> int \<Rightarrow> builder \<Rightarrow> builder" where
  "bu_remove n l b =
     b\<lparr>bu_assem := sa_append \<lparr>opcode = Del, chars = n, lines = l, attribs = ''''\<rparr> (bu_assem b)\<rparr>"

definition bu_toString :: "builder \<Rightarrow> string" where
  "bu_toString b =
     (let assem = sa_endDocument (bu_assem b);
          newLen = bu_oldLen b + sa_getLengthChange assem
      in pack (bu_oldLen b) newLen (fst (sa_toString assem)) (sta_toString (bu_charBank b)))"

subsection \<open>subattribution\<close>

record subState =
  su_iter :: opIter
  su_attOp :: op
  su_csOp :: op
  su_opOut :: op
  su_assem :: smartAssem

definition subStep :: "subState \<Rightarrow> subState res" where
  "subStep st =
     bindE (if opcode (su_attOp st) = NoOp then opNext (su_iter st)
            else Inr (su_attOp st, su_iter st)) (\<lambda>(attOp, iter).
     (let cs0 = su_csOp st;
          csOp = (if opcode cs0 \<noteq> NoOp \<and> opcode attOp \<noteq> NoOp \<and> chars attOp \<le> chars cs0 \<and>
                     0 < lines attOp \<and> lines cs0 \<le> 0
                  then cs0\<lparr>lines := lines cs0 + 1\<rparr> else cs0)
      in bindE (slicerZipperFunc attOp csOp (su_opOut st) None) (\<lambda>((attOp', csOp', out), _).
         Inr \<lparr>su_iter = iter, su_attOp = attOp', su_csOp = csOp',
              su_opOut = (if opcode out \<noteq> NoOp then out\<lparr>opcode := NoOp\<rparr> else out),
              su_assem = (if opcode out \<noteq> NoOp then sa_append out (su_assem st) else su_assem st)\<rparr>)))"

definition sub_size :: "subState \<Rightarrow> nat" where
  "sub_size st = iter_size (su_iter st) + pend (su_attOp st) + pend (su_csOp st)"

lemma subStep_size:
  assumes c: "opcode (su_csOp st) \<noteq> NoOp" and h: "opcode (su_attOp st) \<noteq> NoOp \<or> hasNext (su_iter st)"
    and s: "subStep st = Inr st'"
  shows "sub_size st' < sub_size st"
proof -
  from s obtain attOp iter csOp attOp' csOp' out p' where
    f: "(if opcode (su_attOp st) = NoOp then opNext (su_iter st) else Inr (su_attOp st, su_iter st)) =
        Inr (attOp, iter)"
    and z: "slicerZipperFunc attOp csOp (su_opOut st) None = Inr ((attOp', csOp', out), p')"
    and k: "opcode csOp = opcode (su_csOp st)"
    and st': "su_iter st' = iter" "su_attOp st' = attOp'" "su_csOp st' = csOp'"
    unfolding subStep_def by (fastforce simp: bindE_eq_Inr Let_def split: if_splits)
  have "iter_size iter + pend attOp \<le> iter_size (su_iter st) + pend (su_attOp st)"
    using f h opNext_size [of "su_iter st" attOp iter] by (auto simp: pend_def split: if_splits)
  moreover have "pend attOp' + pend csOp' < pend attOp + pend csOp"
    using slicer_progress [OF z] k c by simp
  moreover have "pend csOp = pend (su_csOp st)" using k by (simp add: pend_def)
  ultimately show ?thesis by (simp add: sub_size_def st')
qed

function subLoop :: "subState \<Rightarrow> subState res" where
  "subLoop st =
     (if opcode (su_csOp st) \<noteq> NoOp \<and> (opcode (su_attOp st) \<noteq> NoOp \<or> hasNext (su_iter st))
      then bindE (subStep st) (\<lambda>st'. subLoop st') else Inr st)"
  by pat_completeness auto
termination by (relation "measure sub_size") (auto intro: subStep_size)

declare subLoop.simps [simp del]

definition doCsOp :: "subState \<Rightarrow> subState res" where
  "doCsOp st = (if chars (su_csOp st) \<noteq> 0 then subLoop st else Inr st)"

definition subattribution :: "string \<Rightarrow> int \<Rightarrow> int option \<Rightarrow> string res" where
  "subattribution astr start optEnd =
     bindE (opIterator astr 0) (\<lambda>iter.
     bindE (doCsOp \<lparr>su_iter = iter, su_attOp = newOp NoOp,
              su_csOp = (newOp NoOp)\<lparr>opcode := Del, chars := start\<rparr>,
              su_opOut = newOp NoOp, su_assem = smartOpAssembler\<rparr>) (\<lambda>st.
     (case optEnd of
        None \<Rightarrow>
          bindE (forOps (su_iter st) (\<lambda>o1 assem. Inr (sa_append o1 assem))
              (if opcode (su_attOp st) \<noteq> NoOp then sa_append (su_attOp st) (su_assem st)
               else su_assem st)) (\<lambda>assem.
          Inr (fst (sa_toString assem)))
      | Some theEnd \<Rightarrow>
          bindE (doCsOp (st\<lparr>su_csOp := (su_csOp st)\<lparr>opcode := Keep, chars := theEnd - start\<rparr>\<rparr>))
            (\<lambda>st'. Inr (fst (sa_toString (su_assem st')))))))"

subsection \<open>checkRep accepts what the assembler prints\<close>

lemma checkRep_op_covers:
  assumes c: "covers o1 xs" and b: "ck_oldPos st + int (length (src xs)) < lo"
    "ck_calcNewLen st + int (length (dst xs)) < ln"
  shows "checkRep_op lo ln o1 st = Inr (st\<lparr>ck_oldPos := ck_oldPos st + int (length (src xs)),
    ck_calcNewLen := ck_calcNewLen st + int (length (dst xs)),
    ck_numInserted := ck_numInserted st + int (length (inserted xs)),
    ck_assem := sa_append o1 (ck_assem st)\<rparr>)"
proof -
  from c obtain cs where x: "xs = run (opcode o1) (attribs o1) cs" "fits o1 cs"
    using covers_run by blast
  then have n: "chars o1 = int (length cs)" "opcode o1 \<noteq> NoOp" by (simp_all add: fits_def)
  show ?thesis
    using b n by (cases "opcode o1") (simp_all add: checkRep_op_def x(1) Let_def)
qed

lemma checkRep_ops:
  "denotes os es \<Longrightarrow> ck_oldPos st + int (length (src es)) < lo
   \<Longrightarrow> ck_calcNewLen st + int (length (dst es)) < ln
   \<Longrightarrow> foldE (checkRep_op lo ln) os st = Inr (st\<lparr>ck_oldPos := ck_oldPos st + int (length (src es)),
    ck_calcNewLen := ck_calcNewLen st + int (length (dst es)),
    ck_numInserted := ck_numInserted st + int (length (inserted es)),
    ck_assem := fold sa_append os (ck_assem st)\<rparr>)"
proof (induction os arbitrary: es st)
  case (Cons o1 os)
  from Cons.prems(1) obtain xs ys where es: "es = xs @ ys" "covers o1 xs" "denotes os ys"
    by (rule denotes_ConsE)
  have "checkRep_op lo ln o1 st = Inr (st\<lparr>ck_oldPos := ck_oldPos st + int (length (src xs)),
    ck_calcNewLen := ck_calcNewLen st + int (length (dst xs)),
    ck_numInserted := ck_numInserted st + int (length (inserted xs)),
    ck_assem := sa_append o1 (ck_assem st)\<rparr>)"
    using Cons.prems(2,3) es(1) by (intro checkRep_op_covers [OF es(2)]) simp_all
  with Cons.IH [OF es(3)] Cons.prems(2,3) es(1) show ?case by (simp add: add.assoc)
qed simp

lemma checkRep_packed:
  assumes ok: "script_ok es" and r: "r \<noteq> []"
  shows "checkRep (packed (src es @ r) es) = Inr (packed (src es @ r) es)"
proof -
  note nn = script_ok_no_NoOp [OF ok]
  from smart_norm_text [OF nn] obtain rest where
    n: "src es = src (smart_norm es) @ rest" "dst es = dst (smart_norm es) @ rest"
      "inserted (smart_norm es) = inserted es" "set (smart_norm es) \<subseteq> set es" by blast
  from smart_string_denotes [OF nn] obtain os where
    os: "smart_string es = encode os" "denotes os (smart_norm es)" by blast
  have ok': "script_ok (smart_norm es)" using ok n(4) by (auto simp: script_ok_def list_all_iff)
  note lex = denotes_lexable [OF os(2) ok']
  define n0 m0 where "n0 = int (length (src es @ r))" and "m0 = int (length (dst es @ r))"
  let ?st = "\<lparr>ck_oldPos = 0, ck_calcNewLen = 0, ck_numInserted = 0, ck_assem = smartOpAssembler\<rparr>"
  let ?st' = "\<lparr>ck_oldPos = int (length (src (smart_norm es))), ck_calcNewLen = int (length (dst (smart_norm es))),
    ck_numInserted = int (length (inserted es)), ck_assem = fold sa_append os smartOpAssembler\<rparr>"
  have pk: "packed (src es @ r) es = pack n0 m0 (encode os) (inserted es)"
    unfolding packed_eq os(1) n0_def m0_def ..
  have u: "unpack (pack n0 m0 (encode os) (inserted es)) =
      Inr \<lparr>up_oldLen = n0, up_newLen = m0, up_ops = encode os, up_charBank = inserted es\<rparr>"
    by (rule unpack_pack_encode [OF _ lex]) (simp add: n0_def)
  from opIterator_encode [OF lex] obtain it where it: "opIterator (encode os) 0 = Inr it" "yields it os"
    by blast
  have lt: "int (length (src (smart_norm es))) < n0" "int (length (dst (smart_norm es))) < m0"
    using r by (cases r; simp add: n0_def m0_def n(1,2))+
  have f: "foldE (checkRep_op n0 m0) os ?st = Inr ?st'"
    using lt by (subst checkRep_ops [OF os(2)]) (simp_all add: n(3))
  have s: "fst (sa_toString (sa_endDocument (fold sa_append os smartOpAssembler))) = encode os"
    using smart_print_string [OF os(2)] smart_string_idem [OF nn] by (simp add: smart_print_def os(1))
  have len: "int (length (dst (smart_norm es))) + (n0 - int (length (src (smart_norm es)))) = m0"
    by (simp add: n0_def m0_def n(1,2))
  have bank: "js_substring (inserted es) 0 (int (length (inserted es))) = inserted es"
    by (simp add: js_substring_def Let_def)
  show ?thesis
    unfolding pk checkRep_def u
    by (simp add: it forOps_yields [OF it(2)] f bank s len Let_def)
qed

subsection \<open>What makeSplice does\<close>

lemma sa_append_empty: "chars o1 = 0 \<Longrightarrow> sa_append o1 s = s"
  by (simp add: sa_append_def)

lemma fold_sa_append_filter: "fold sa_append (filter (\<lambda>o1. chars o1 \<noteq> 0) os) s = fold sa_append os s"
  by (induction os arbitrary: s) (simp_all add: sa_append_empty)

lemma rfind_last:
  "nl \<notin> set post \<Longrightarrow> k \<le> length post \<Longrightarrow> rfind_sub [nl] (pre @ nl # post) (length pre + k) = int (length pre)"
proof (induction k)
  case 0
  then show ?case by (cases "length pre") simp_all
next
  case (Suc k)
  have "take 1 (drop (length pre + Suc k) (pre @ nl # post)) \<noteq> [nl]"
  proof
    assume "take 1 (drop (length pre + Suc k) (pre @ nl # post)) = [nl]"
    then have "nl \<in> set (drop k post)" by (cases "drop k post") auto
    with Suc.prems(1) show False by (meson in_set_dropD)
  qed
  with Suc show ?case by simp
qed

lemma rfind_none: "nl \<notin> set s \<Longrightarrow> rfind_sub [nl] s k = - 1"
proof (induction k)
  case 0
  then show ?case by (cases s) auto
next
  case (Suc k)
  have "take 1 (drop (Suc k) s) \<noteq> [nl]"
  proof
    assume "take 1 (drop (Suc k) s) = [nl]"
    then have "nl \<in> set (drop (Suc k) s)" by (cases "drop (Suc k) s") auto
    with Suc.prems show False by (meson in_set_dropD)
  qed
  with Suc show ?case by simp
qed

lemma lastIndexOf_nl:
  "nl \<notin> set s \<Longrightarrow> js_lastIndexOf s [nl] (int (length s)) = - 1"
  "nl \<notin> set post \<Longrightarrow>
    js_lastIndexOf (pre @ nl # post) [nl] (int (length (pre @ nl # post))) = int (length pre)"
  using rfind_last [of post "length post" pre]
  by (auto simp: js_lastIndexOf_def rfind_none nat_int_add)

lemma textOps_denotes:
  assumes "k \<noteq> NoOp"
  shows "denotes (filter (\<lambda>o1. chars o1 \<noteq> 0) (textOps k text a)) (run k a text)"
proof (cases "nl \<in> set text")
  case False
  have c: "text \<noteq> [] \<Longrightarrow> covers ((newOp k)\<lparr>attribs := a, chars := int (length text), lines := 0\<rparr>) (run k a text)"
    using assms False by (subst covers_run) (auto simp: fits_def newOp_def count_nl_0_iff [symmetric])
  have t: "textOps k text a = [(newOp k)\<lparr>attribs := a, chars := int (length text), lines := 0\<rparr>]"
    using False by (simp add: textOps_def lastIndexOf_nl)
  show ?thesis
    unfolding t using denotes_single [OF c] by (cases "text = []") simp_all
next
  case True
  then obtain pre post where e: "text = pre @ nl # post" "nl \<notin> set post"
    using split_list_last by metis
  let ?o1 = "(newOp k)\<lparr>attribs := a, chars := int (length pre) + 1, lines := count_nl text\<rparr>"
  let ?o2 = "(newOp k)\<lparr>attribs := a, chars := int (length post), lines := 0\<rparr>"
  have t: "textOps k text a = [?o1, ?o2]"
    unfolding textOps_def e(1) lastIndexOf_nl(2) [OF e(2)] by (simp add: Let_def)
  have c1: "covers ?o1 (run k a (pre @ [nl]))"
    using assms e count_nl_0_iff [of post] by (subst covers_run) (auto simp: fits_def newOp_def intro!: exI [of _ "pre @ [nl]"])
  have c2: "post \<noteq> [] \<Longrightarrow> covers ?o2 (run k a post)"
    using assms e count_nl_0_iff [of post] by (subst covers_run) (auto simp: fits_def newOp_def)
  have "run k a text = run k a (pre @ [nl]) @ run k a post" by (simp add: e(1))
  moreover have "denotes (filter (\<lambda>o1. chars o1 \<noteq> 0) [?o2]) (run k a post)"
    using denotes_single [OF c2] by (cases "post = []") simp_all
  ultimately show ?thesis
    unfolding t using denotes_Cons_append [OF c1] by simp
qed

lemma sa_appendOpWithText_run:
  assumes "k \<noteq> NoOp" and "denotes os es"
  shows "\<exists>os'. fold sa_append (textOps k text a) (fold sa_append os smartOpAssembler) =
    fold sa_append os' smartOpAssembler \<and> denotes os' (es @ run k a text)"
proof -
  let ?os = "os @ filter (\<lambda>o1. chars o1 \<noteq> 0) (textOps k text a)"
  have "denotes ?os (es @ run k a text)" by (rule denotes_append [OF assms(2) textOps_denotes [OF assms(1)]])
  then show ?thesis
    using fold_sa_append_filter [of "textOps k text a"] by (intro exI [of _ ?os]) simp
qed


definition attribsArg_ok :: "attribsArg \<Rightarrow> bool" where
  "attribsArg_ok att = (case att of AttribsString s \<Rightarrow> is_attribs s | _ \<Rightarrow> True)"

lemma makeAttribsString_ok:
  assumes "attribsArg_ok att" and "pool_wf p"
  shows "\<exists>astr p'. makeAttribsString k att (Some p) = Inr (astr, Some p') \<and> pool_le p p' \<and>
    is_attribs (case astr of None \<Rightarrow> '''' | Some a \<Rightarrow> a)"
proof (cases "\<exists>pairs. att = AttribsPairs pairs \<and> pairs \<noteq> []")
  case True
  then obtain pairs where a: "att = AttribsPairs pairs" "pairs \<noteq> []" by blast
  let ?atts = "filter (\<lambda>pair. k = Keep \<or> (k = Ins \<and> snd pair \<noteq> '''')) (sort_key attribStr pairs)"
  from putAttribs_ok [OF assms(2), of ?atts] obtain s p' where
    "putAttribs ?atts (Some p) = Inr (s, Some p')" "pool_le p p'" "is_attribs s" by blast
  then show ?thesis
    by (intro exI [of _ "Some s"] exI [of _ p']) (simp add: makeAttribsString_def a)
next
  case False
  with assms(1) pool_le_refl [OF assms(2)] show ?thesis
    by (cases att) (auto simp: makeAttribsString_def attribsArg_ok_def)
qed

definition spliceScript :: "string \<Rightarrow> string \<Rightarrow> string \<Rightarrow> string \<Rightarrow> script" where
  "spliceScript pre old new a = run Keep '''' pre @ run Del '''' old @ run Ins a new"

lemma makeSplice_packed:
  assumes t: "t = pre @ old @ post" and r: "post \<noteq> []"
    and i: "(if int (length t) \<le> i then int (length t) - 1 else i) = int (length pre)"
    and n: "(if int (length t) - int (length pre) - 1 < n then int (length t) - int (length pre) - 1 else n)
      = int (length old)"
    and att: "attribsArg_ok att" and p: "pool_wf p"
  shows "\<exists>a p'. makeSplice t i n new att (Some p) = Inr (packed t (spliceScript pre old new a), Some p') \<and>
    pool_le p p' \<and> is_attribs a \<and>
    (\<exists>astr. makeAttribsString Ins att (Some p) = Inr (astr, Some p') \<and> a = (case astr of None \<Rightarrow> '''' | Some a \<Rightarrow> a))"
proof -
  from makeAttribsString_ok [OF att p, of Ins] obtain astr p' where
    m: "makeAttribsString Ins att (Some p) = Inr (astr, Some p')" "pool_le p p'"
      "is_attribs (case astr of None \<Rightarrow> '''' | Some a \<Rightarrow> a)" by blast
  let ?a = "case astr of None \<Rightarrow> '''' | Some a \<Rightarrow> a"
  have s1: "js_substring t (int (length pre)) (int (length pre) + int (length old)) = old"
    using js_substring_append [of pre old post] by (simp add: t)
  have s0: "js_substring t 0 (int (length pre)) = pre"
    using js_substring_append [of "[]" pre "old @ post"] by (simp add: t)
  have d0: "denotes [] []" by simp
  from sa_appendOpWithText_run [OF _ d0, of Keep pre "''''"] obtain os1 where
    o1: "fold sa_append (textOps Keep pre '''') smartOpAssembler = fold sa_append os1 smartOpAssembler"
      "denotes os1 (run Keep '''' pre)" by auto
  from sa_appendOpWithText_run [OF _ o1(2), of Del old "''''"] obtain os2 where
    o2: "fold sa_append (textOps Del old '''') (fold sa_append os1 smartOpAssembler) =
      fold sa_append os2 smartOpAssembler" "denotes os2 (run Keep '''' pre @ run Del '''' old)" by auto
  from sa_appendOpWithText_run [OF _ o2(2), of Ins new ?a] obtain os3 where
    o3: "fold sa_append (textOps Ins new ?a) (fold sa_append os2 smartOpAssembler) =
      fold sa_append os3 smartOpAssembler" "denotes os3 (spliceScript pre old new ?a)"
    by (auto simp: spliceScript_def)
  have p3: "fst (sa_toString (sa_endDocument (fold sa_append os3 smartOpAssembler))) =
      smart_string (spliceScript pre old new ?a)"
    using smart_print_string [OF o3(2)] by (simp add: smart_print_def)
  have "packed t (spliceScript pre old new ?a) = pack (int (length t))
      (int (length t) + int (length new) - int (length old)) (smart_string (spliceScript pre old new ?a)) new"
    using packed_eq [of "spliceScript pre old new ?a" post] by (simp add: spliceScript_def t add_ac)
  then have "makeSplice t i n new att (Some p) = Inr (packed t (spliceScript pre old new ?a), Some p')"
    unfolding makeSplice_def Let_def i n s0 s1 sa_appendOpWithText_def
    using m(1) o1(1) o2(1) o3(1) p3 by (simp add: makeAttribsString_def add_ac)
  with m show ?thesis by blast
qed


lemma spliceScript_text:
  "src (spliceScript pre old new a) = pre @ old" "dst (spliceScript pre old new a) = pre @ new"
  "inserted (spliceScript pre old new a) = new"
  "is_attribs a \<Longrightarrow> script_ok (spliceScript pre old new a)"
  by (simp_all add: spliceScript_def) (auto simp: script_ok_def run_def list_all_iff)

lemma packed_applies:
  assumes "script_ok es"
  shows "applyToText (packed (src es @ r) es) (src es @ r) = Inr (dst es @ r)"
    and "cs_on (packed (src es @ r) es) (src es @ r) (smart_norm es)"
  using cs_on_smart [OF assms refl, of r] applyToText_result unfolding packed_eq by auto

lemma splice_parts:
  fixes t :: string
  assumes "t \<noteq> []" and "0 \<le> i" and "0 \<le> n"
  defines "s \<equiv> min (nat i) (length t - 1)"
  defines "k \<equiv> min (nat n) (length t - 1 - s)"
  shows "t = take s t @ take k (drop s t) @ drop (s + k) t" and "drop (s + k) t \<noteq> []"
    and "(if int (length t) \<le> i then int (length t) - 1 else i) = int (length (take s t))"
    and "(if int (length t) - int (length (take s t)) - 1 < n then int (length t) - int (length (take s t)) - 1 else n)
      = int (length (take k (drop s t)))"
proof -
  obtain m where l: "length t = Suc m" using assms(1) by (cases t) auto
  then have "s + k < length t" unfolding s_def k_def by linarith
  then show "drop (s + k) t \<noteq> []" by simp
  show "t = take s t @ take k (drop s t) @ drop (s + k) t"
    by (metis append_take_drop_id drop_drop add.commute)
  show "(if int (length t) \<le> i then int (length t) - 1 else i) = int (length (take s t))"
    using assms(2) by (auto simp: s_def l)
  have "int (length (take s t)) = int s" "s \<le> m" by (simp_all add: s_def l)
  then show "(if int (length t) - int (length (take s t)) - 1 < n then int (length t) - int (length (take s t)) - 1 else n)
      = int (length (take k (drop s t)))"
    using assms(3) by (auto simp: k_def l)
qed

text \<open>
  C25. \<open>makeSplice\<close> replaces a part of a text: for any non-empty text, start and number of
  characters, the start is cut to the last character and the number to what lies before the last
  character (in a pad its final newline, which is never removed); \<open>checkRep\<close> accepts the changeset,
  applied to the text it puts the new text in place of that part, and the attributes of the new text
  only add to the pool.
\<close>

theorem makeSplice_splices:
  assumes "t \<noteq> []" and "0 \<le> i" and "0 \<le> n" and "attribsArg_ok att" and "pool_wf p"
    and s: "s = min (nat i) (length t - 1)" and k: "k = min (nat n) (length t - 1 - s)"
  shows "\<exists>cs p'. makeSplice t i n new att (Some p) = Inr (cs, Some p') \<and> pool_le p p' \<and>
    checkRep cs = Inr cs \<and> applyToText cs t = Inr (take s t @ new @ drop (s + k) t)"
proof -
  let ?pre = "take s t" and ?old = "take k (drop s t)" and ?post = "drop (s + k) t"
  note parts = splice_parts [OF assms(1-3), folded s, folded k]
  from makeSplice_packed [where new = new, OF parts assms(4,5)]
  obtain a p' where m: "makeSplice t i n new att (Some p) =
      Inr (packed t (spliceScript ?pre ?old new a), Some p')" "pool_le p p'" "is_attribs a"
    by auto
  note sp = spliceScript_text [where pre = ?pre and old = ?old and new = new and a = a]
  have e: "src (spliceScript ?pre ?old new a) @ ?post = t" using parts(1) by (simp add: sp)
  from checkRep_packed [OF sp(4) [OF m(3)] parts(2)] packed_applies(1) [OF sp(4) [OF m(3)], of ?post]
  have "checkRep (packed t (spliceScript ?pre ?old new a)) = Inr (packed t (spliceScript ?pre ?old new a))"
    "applyToText (packed t (spliceScript ?pre ?old new a)) t = Inr (?pre @ new @ ?post)"
    unfolding e by (simp_all add: sp)
  with m show ?thesis by blast
qed

theorem makeSplice_splices_witness:
  "(\<exists>cs p'. makeSplice ''abc'' 1 1 ''xy'' (AttribsPairs [(''bold'', ''true'')]) (Some AttribPool) =
      Inr (cs, Some p') \<and> checkRep cs = Inr cs \<and> applyToText cs ''abc'' = Inr ''axyc'') \<and>
   (\<exists>cs p'. makeSplice ''abc'' 9 4 ''xy'' NoAttribs (Some AttribPool) =
      Inr (cs, Some p') \<and> checkRep cs = Inr cs \<and> applyToText cs ''abc'' = Inr ''abxyc'')"
proof
  show "\<exists>cs p'. makeSplice ''abc'' 1 1 ''xy'' (AttribsPairs [(''bold'', ''true'')]) (Some AttribPool) =
      Inr (cs, Some p') \<and> checkRep cs = Inr cs \<and> applyToText cs ''abc'' = Inr ''axyc''"
    using makeSplice_splices [of "''abc''" 1 1 "AttribsPairs [(''bold'', ''true'')]" AttribPool 1 1 "''xy''"]
    by (auto simp: attribsArg_ok_def pool_wf_empty)
  show "\<exists>cs p'. makeSplice ''abc'' 9 4 ''xy'' NoAttribs (Some AttribPool) =
      Inr (cs, Some p') \<and> checkRep cs = Inr cs \<and> applyToText cs ''abc'' = Inr ''abxyc''"
    using makeSplice_splices [of "''abc''" 9 4 NoAttribs AttribPool 2 0 "''xy''"]
    by (auto simp: attribsArg_ok_def pool_wf_empty)
qed

text \<open>
  C24. Composition and merging stay within what \<open>checkRep\<close> accepts: for changesets that fit their
  texts, in a pool that knows their attributes, and that leave the end of the text unmentioned, the
  results of \<open>compose\<close> and \<open>follow\<close> pass the check. (A changeset that deletes to the end of its text
  is applied and composed as well, but its compositions may be refused.)
\<close>

theorem compose_follow_checkRep:
  assumes "cs_on cs1 t es" and "pool_wf p" and "known p es" and "length (src es) < length t"
    and "cs_on cs2 (result t es) fs" and "known p fs" and "length (src fs) < length (result t es)"
    and "cs_on cs3 t gs" and "known p gs" and "length (src gs) < length t"
  shows "(\<exists>cs p'. compose cs1 cs2 (Some p) = Inr (cs, Some p') \<and> checkRep cs = Inr cs) \<and>
    (\<exists>cs p'. follow cs1 cs3 rio (Some p) = Inr (cs, Some p') \<and> checkRep cs = Inr cs)"
proof
  from compose_script [OF assms(1,5,2,3,6)] assms(4,7) obtain cs p' hs r where
    c: "compose cs1 cs2 (Some p) = Inr (cs, Some p')" "known p' hs" "no_NoOp hs" "cs = packed t hs"
      "t = src hs @ r" "r \<noteq> []" by blast
  from checkRep_packed [OF known_script_ok [OF c(3,2)] c(6)] c
  show "\<exists>cs p'. compose cs1 cs2 (Some p) = Inr (cs, Some p') \<and> checkRep cs = Inr cs" by auto
next
  obtain ps where ps: "cs_pieces cs1 ps" "es = flat ps" using cs_on_pieces [OF assms(1)] by blast
  obtain qs where qs: "cs_pieces cs3 qs" "gs = flat qs" using cs_on_pieces [OF assms(8)] by blast
  from follow_script [OF assms(1) [unfolded ps(2)] ps(1) assms(8) [unfolded qs(2)] qs(1) assms(2)
      assms(3) [unfolded ps(2)] assms(9) [unfolded qs(2)], of rio] assms(4,10)
  obtain cs p' hs r where
    c: "follow cs1 cs3 rio (Some p) = Inr (cs, Some p')" "known p' hs" "no_NoOp hs"
      "cs = packed (result t (flat ps)) hs" "result t (flat ps) = src hs @ r" "r \<noteq> []"
    unfolding ps(2) qs(2) by blast
  from checkRep_packed [OF known_script_ok [OF c(3,2)] c(6)] c
  show "\<exists>cs p'. follow cs1 cs3 rio (Some p) = Inr (cs, Some p') \<and> checkRep cs = Inr cs" by auto
qed

theorem compose_follow_checkRep_witness:
  "\<exists>cs p'. follow ''Z:3>0=1-1+1$x'' ''Z:3>1=1+1$y'' False (Some AttribPool) = Inr (cs, Some p') \<and>
    checkRep cs = Inr cs"
proof -
  let ?e1 = "[Edit Keep '''' CHR ''a'', Edit Del '''' CHR ''b'', Edit Ins '''' CHR ''x'']"
  let ?e2 = "[Edit Keep '''' CHR ''a'', Edit Del '''' CHR ''x'', Edit Ins '''' CHR ''y'', Edit Ins '''' CHR ''z'']"
  let ?e3 = "[Edit Keep '''' CHR ''a'', Edit Ins '''' CHR ''y'']"
  have c: "cs_on ''Z:3>0=1-1+1$x'' ''abc'' ?e1" by code_simp
  have d: "cs_on ''Z:3>1=1-1+2$yz'' (result ''abc'' ?e1) ?e2" by code_simp
  have e: "cs_on ''Z:3>1=1+1$y'' ''abc'' ?e3" by code_simp
  have k: "known AttribPool ?e1" "known AttribPool ?e2" "known AttribPool ?e3" by code_simp+
  have l: "length (src ?e1) < length ''abc''" "length (src ?e2) < length (result ''abc'' ?e1)"
    "length (src ?e3) < length ''abc''" by code_simp+
  from compose_follow_checkRep [OF c pool_wf_empty k(1) l(1) d k(2) l(2) e k(3) l(3), of False]
  show ?thesis by blast
qed

lemma assembled_keep:
  assumes "0 < chars o1" and "opcode o1 = Keep" and "attribs o1 \<noteq> ''''"
  shows "fst (sa_toString (sa_endDocument (sa_append o1 smartOpAssembler))) = encode [o1]"
  using assms
  by (simp add: sa_append_def smartOpAssembler_def sa_toString_def sa_endDocument_def sa_flushKeeps_def
      sa_flushPlusMinus_def ma_toString_def ma_flush_def ma_append_def ma_endDocument_def mergingOpAssembler_def
      Let_def case_prod_beta ma_clear_def newOp_def opAssembler_def oa_append_def oa_toString_def oa_clear_def
      encode_def opStr_def)

text \<open>
  C26. \<open>checkRep\<close> compares the position with the length of the text at deletions only: for every text
  and every operation that keeps more characters than the text has, with an attribute, the changeset
  of that one operation passes the check, announces the length of the text, and fails on the text.
\<close>

theorem checkRep_keep_overrun:
  assumes "opcode o1 = Keep" and "lexable o1" and "attribs o1 \<noteq> ''''"
    and "int (length t) < chars o1"
    and cs_def: "cs = pack (int (length t)) (int (length t)) (encode [o1]) ''''"
  shows "checkRep cs = Inr cs \<and> oldLen cs = Inr (int (length t)) \<and>
    applyToText cs t = Inl (Easysync ''!(n <= remaining)'')"
proof (intro conjI)
  have l: "list_all lexable [o1]" using assms(2) by simp
  obtain it where it: "opIterator (encode [o1]) 0 = Inr it" "yields it [o1]"
    using opIterator_encode [OF l] by blast
  note u = unpack_pack_encode [OF _ l, of "int (length t)" "int (length t)" "''''", folded cs_def]
  show "oldLen cs = Inr (int (length t))" using u by (simp add: oldLen_def)
  have "0 < chars o1" using assms(4) by simp
  note a = assembled_keep [OF this assms(1,3)]
  show "checkRep cs = Inr cs"
    using u it(1) a assms(1)
    by (simp add: checkRep_def forOps_yields [OF it(2)] checkRep_op_def assertE_def cs_def js_substring_def Let_def)
  show "applyToText cs t = Inl (Easysync ''!(n <= remaining)'')"
    using u it(1) assms(1,4)
    by (simp add: applyToText_def forOps_yields [OF it(2)] applyToText_op_def si_take_def si_assertRemaining_def
      si_remaining_def stringIterator_def assertE_def)
qed

theorem checkRep_keep_overrun_witness:
  "checkRep ''Z:3>0*0|1=5$'' = Inr ''Z:3>0*0|1=5$'' \<and>
   applyToText ''Z:3>0*0|1=5$'' ''abc'' = Inl (Easysync ''!(n <= remaining)'')"
proof -
  let ?o = "\<lparr>opcode = Keep, chars = 5, lines = 1, attribs = ''*0''\<rparr>"
  have "''Z:3>0*0|1=5$'' = pack (int (length ''abc'')) (int (length ''abc'')) (encode [?o]) ''''"
    "lexable ?o" by code_simp+
  from checkRep_keep_overrun [OF _ this(2) _ _ this(1)] show ?thesis by simp
qed

end
