(* ===== verification/Lines.thy ===== *)
theory Lines
  imports Changesets
begin

text \<open>
  The part of \<open>easysync2.js\<close> that works on documents as arrays of lines: \<open>splitTextLines\<close>, the
  \<open>textLinesMutator\<close>, \<open>mutateTextLines\<close>, \<open>mutateAttributionLines\<close>, \<open>joinAttributionLines\<close>,
  \<open>splitAttributionLines\<close> and \<open>inverse\<close>.

  Documents are plain arrays (the code also takes objects with \<open>get\<close>, \<open>slice\<close> and \<open>length\<close> methods).
  A text line outside the array is \<open>undefined\<close>; the model raises its error at the access.
\<close>

subsection \<open>Lines of a text\<close>

text \<open>\<^verbatim>\<open>text.match(/[^\n]*(?:\n|[^\n]$)/g)\<close>: \<open>null\<close> for the empty string.\<close>

function splitLines :: "string \<Rightarrow> string list" where
  "splitLines text =
     (if text = [] then []
      else (let line = takeWhile (\<lambda>c. c \<noteq> nl) text; r = dropWhile (\<lambda>c. c \<noteq> nl) text
            in case r of
                 [] \<Rightarrow> [line]
               | c # r' \<Rightarrow> (line @ [c]) # splitLines r'))"
  by pat_completeness auto
termination
proof (relation "measure length")
  fix t :: string and line r c r'
  assume "r = dropWhile (\<lambda>c. c \<noteq> nl) t" and "r = c # r'"
  then have "length (c # r') \<le> length t" using length_dropWhile_le by metis
  then show "(r', t) \<in> measure length" by simp
qed simp

declare splitLines.simps [simp del]

definition splitTextLines :: "string \<Rightarrow> string list option" where
  "splitTextLines text = (if text = [] then None else Some (splitLines text))"

subsection \<open>textLinesMutator\<close>

text \<open>
  The array \<open>curSplice\<close> is its first two elements \<open>mu_start\<close> and \<open>mu_del\<close> and the lines \<open>mu_ins\<close>.
\<close>

record mutator =
  mu_lines :: "string list"
  mu_start :: int
  mu_del :: int
  mu_ins :: "string list"
  mu_in :: bool
  mu_line :: int
  mu_col :: int

definition textLinesMutator :: "string list \<Rightarrow> mutator" where
  "textLinesMutator ls = \<lparr>mu_lines = ls, mu_start = 0, mu_del = 0, mu_ins = [], mu_in = False,
     mu_line = 0, mu_col = 0\<rparr>"

definition lines_get :: "mutator \<Rightarrow> int \<Rightarrow> string res" where
  "lines_get m idx = js_nth (mu_lines m) idx"

definition lines_slice :: "mutator \<Rightarrow> int \<Rightarrow> int \<Rightarrow> string list" where
  "lines_slice m start stop = js_slice (mu_lines m) start stop"

definition lines_length :: "mutator \<Rightarrow> int" where
  "lines_length m = int (length (mu_lines m))"

definition lines_applySplice :: "mutator \<Rightarrow> mutator" where
  "lines_applySplice m = m\<lparr>mu_lines := js_splice (mu_lines m) (mu_start m) (mu_del m) (mu_ins m)\<rparr>"

definition isCurLineInSplice :: "mutator \<Rightarrow> bool" where
  "isCurLineInSplice m = (mu_line m - mu_start m < int (length (mu_ins m)))"

text \<open>The index returned counts from the third element of \<open>curSplice\<close>.\<close>

definition putCurLineInSplice :: "mutator \<Rightarrow> (int \<times> mutator) res" where
  "putCurLineInSplice m =
     bindE (if \<not> isCurLineInSplice m
            then bindE (lines_get m (mu_start m + mu_del m)) (\<lambda>l.
                   Inr (m\<lparr>mu_ins := mu_ins m @ [l], mu_del := mu_del m + 1\<rparr>))
            else Inr m)
       (\<lambda>m'. Inr (mu_line m' - mu_start m', m'))"

definition enterSplice :: "mutator \<Rightarrow> mutator res" where
  "enterSplice m =
     (let m1 = m\<lparr>mu_start := mu_line m, mu_del := 0\<rparr>
      in bindE (if 0 < mu_col m1 then bindE (putCurLineInSplice m1) (\<lambda>(_, m2). Inr m2) else Inr m1)
           (\<lambda>m2. Inr (m2\<lparr>mu_in := True\<rparr>)))"

definition ensureSplice :: "mutator \<Rightarrow> mutator res" where
  "ensureSplice m = (if \<not> mu_in m then enterSplice m else Inr m)"

definition leaveSplice :: "mutator \<Rightarrow> mutator" where
  "leaveSplice m =
     (lines_applySplice m)\<lparr>mu_start := 0, mu_del := 0, mu_ins := [], mu_in := False\<rparr>"

fun skipLines_loop :: "nat \<Rightarrow> mutator \<Rightarrow> mutator res" where
  "skipLines_loop 0 m = Inr m"
| "skipLines_loop (Suc i) m =
     bindE (putCurLineInSplice (m\<lparr>mu_col := 0\<rparr>)) (\<lambda>(_, m').
       skipLines_loop i (m'\<lparr>mu_line := mu_line m' + 1\<rparr>))"

definition mu_skipLines :: "int \<Rightarrow> bool \<Rightarrow> mutator \<Rightarrow> mutator res" where
  "mu_skipLines L includeInSplice m =
     (if L \<noteq> 0 then
        (if includeInSplice then bindE (ensureSplice m) (skipLines_loop (nat L))
         else
           bindE (if mu_in m then
                    (if 1 < L then Inr (leaveSplice m)
                     else bindE (putCurLineInSplice m) (\<lambda>(_, m'). Inr m'))
                  else Inr m)
             (\<lambda>m'. Inr (m'\<lparr>mu_line := mu_line m' + L, mu_col := 0\<rparr>)))
      else Inr m)"

definition mu_skip :: "int \<Rightarrow> int \<Rightarrow> bool \<Rightarrow> mutator \<Rightarrow> mutator res" where
  "mu_skip N L includeInSplice m =
     (if N \<noteq> 0 then
        (if L \<noteq> 0 then mu_skipLines L includeInSplice m
         else
           bindE (if includeInSplice then ensureSplice m else Inr m) (\<lambda>m1.
           bindE (if mu_in m1 then bindE (putCurLineInSplice m1) (\<lambda>(_, m2). Inr m2) else Inr m1)
             (\<lambda>m2. Inr (m2\<lparr>mu_col := mu_col m2 + N\<rparr>))))
      else Inr m)"

definition nextKLinesText :: "mutator \<Rightarrow> int \<Rightarrow> string" where
  "nextKLinesText m k = (let s = mu_start m + mu_del m in concat (lines_slice m s (s + k)))"

text \<open>The last element of \<open>curSplice\<close>, a string where the current line is in the splice.\<close>

definition lastInSplice :: "mutator \<Rightarrow> string res" where
  "lastInSplice m = (if mu_ins m = [] then Inl (TypeError ''undefined'') else Inr (last (mu_ins m)))"

definition mu_removeLines :: "int \<Rightarrow> mutator \<Rightarrow> (string \<times> mutator) res" where
  "mu_removeLines L m0 =
     (if L \<noteq> 0 then
        bindE (ensureSplice m0) (\<lambda>m.
        (if isCurLineInSplice m then
           bindE (lastInSplice m) (\<lambda>theLine.
           (if mu_col m = 0 then
              (let m1 = m\<lparr>mu_ins := butlast (mu_ins m)\<rparr>
               in Inr (theLine @ nextKLinesText m1 (L - 1), m1\<lparr>mu_del := mu_del m1 + (L - 1)\<rparr>))
            else
              (let removed = nextKLinesText m (L - 1);
                   m1 = m\<lparr>mu_del := mu_del m + (L - 1)\<rparr>
               in bindE (lines_get m1 (mu_start m1 + mu_del m1)) (\<lambda>next.
                  Inr (js_from theLine (mu_col m) @ removed,
                       m1\<lparr>mu_ins := butlast (mu_ins m1) @
                            [js_substring theLine 0 (mu_col m) @ next],
                          mu_del := mu_del m1 + 1\<rparr>)))))
         else Inr (nextKLinesText m L, m\<lparr>mu_del := mu_del m + L\<rparr>)))
      else Inr ('''', m0))"

text \<open>Replacing the line at an index of the splice.\<close>

definition mu_setLine :: "int \<Rightarrow> string \<Rightarrow> mutator \<Rightarrow> mutator" where
  "mu_setLine sline s m = m\<lparr>mu_ins := (mu_ins m)[nat sline := s]\<rparr>"

definition mu_remove :: "int \<Rightarrow> int \<Rightarrow> mutator \<Rightarrow> (string \<times> mutator) res" where
  "mu_remove N L m =
     (if N \<noteq> 0 then
        (if L \<noteq> 0 then mu_removeLines L m
         else
           bindE (ensureSplice m) (\<lambda>m1.
           bindE (putCurLineInSplice m1) (\<lambda>(sline, m2).
           bindE (js_nth (mu_ins m2) sline) (\<lambda>line.
           Inr (js_substring line (mu_col m2) (mu_col m2 + N),
                mu_setLine sline (js_substring line 0 (mu_col m2) @ js_from line (mu_col m2 + N)) m2)))))
      else Inr ('''', m))"

definition mu_insert :: "string \<Rightarrow> int \<Rightarrow> mutator \<Rightarrow> mutator res" where
  "mu_insert text L m0 =
     (if text \<noteq> '''' then
        bindE (ensureSplice m0) (\<lambda>m.
        (if L \<noteq> 0 then
           (let newLines = splitLines text in
            if isCurLineInSplice m then
              bindE (lastInSplice m) (\<lambda>theLine.
                (let lineCol = mu_col m;
                     rest = tl newLines
                 in Inr (m\<lparr>mu_ins := butlast (mu_ins m) @ [js_substring theLine 0 lineCol @ hd newLines]
                               @ rest @ [js_from theLine lineCol],
                          mu_line := mu_line m + 1 + int (length rest), mu_col := 0\<rparr>)))
            else Inr (m\<lparr>mu_ins := mu_ins m @ newLines,
                        mu_line := mu_line m + int (length newLines)\<rparr>))
         else
           bindE (putCurLineInSplice m) (\<lambda>(sline, m1).
           bindE (js_nth (mu_ins m1) sline) (\<lambda>line.
           Inr ((mu_setLine sline (js_substring line 0 (mu_col m1) @ text @ js_from line (mu_col m1)) m1)
                  \<lparr>mu_col := mu_col m1 + int (length text)\<rparr>)))))
      else Inr m0)"

definition mu_hasMore :: "mutator \<Rightarrow> bool" where
  "mu_hasMore m =
     (let docLines = lines_length m + (if mu_in m then int (length (mu_ins m)) - mu_del m else 0)
      in mu_line m < docLines)"

definition mu_close :: "mutator \<Rightarrow> mutator" where
  "mu_close m = (if mu_in m then leaveSplice m else m)"

subsection \<open>mutateTextLines\<close>

definition mutateTextLines_op :: "op \<Rightarrow> strIter \<times> mutator \<Rightarrow> (strIter \<times> mutator) res" where
  "mutateTextLines_op o1 st =
     (let (bankIter, mut) = st in
      case opcode o1 of
        Ins \<Rightarrow> bindE (si_take (chars o1) bankIter) (\<lambda>(x, b).
                 bindE (mu_insert x (lines o1) mut) (\<lambda>m. Inr (b, m)))
      | Del \<Rightarrow> bindE (mu_remove (chars o1) (lines o1) mut) (\<lambda>(_, m). Inr (bankIter, m))
      | Keep \<Rightarrow> bindE (mu_skip (chars o1) (lines o1) (attribs o1 \<noteq> '''') mut) (\<lambda>m. Inr (bankIter, m))
      | NoOp \<Rightarrow> Inr st)"

definition mutateTextLines :: "string \<Rightarrow> string list \<Rightarrow> string list res" where
  "mutateTextLines cs ls =
     bindE (unpack cs) (\<lambda>u.
     bindE (opIterator (up_ops u) 0) (\<lambda>csIter.
     bindE (forOps csIter mutateTextLines_op (stringIterator (up_charBank u), textLinesMutator ls))
       (\<lambda>(_, mut). Inr (mu_lines (mu_close mut)))))"

subsection \<open>mutateAttributionLines\<close>

text \<open>The variables of \<open>mutateAttributionLines\<close>.\<close>

record malState =
  ml_csIter :: opIter
  ml_csBank :: string
  ml_csBankIndex :: int
  ml_mut :: mutator
  ml_lineIter :: "opIter option"
  ml_lineAssem :: "mergeAssem option"
  ml_csOp :: op
  ml_attOp :: op
  ml_opOut :: op
  ml_pool :: "pool option"

definition lineHasNext :: "malState \<Rightarrow> bool" where
  "lineHasNext st = (case ml_lineIter st of None \<Rightarrow> False | Some it \<Rightarrow> hasNext it)"

definition isNextMutOp :: "malState \<Rightarrow> bool" where
  "isNextMutOp st = (lineHasNext st \<or> mu_hasMore (ml_mut st))"

definition nextMutOp :: "malState \<Rightarrow> malState res" where
  "nextMutOp st =
     bindE (if \<not> lineHasNext st \<and> mu_hasMore (ml_mut st) then
              bindE (mu_removeLines 1 (ml_mut st)) (\<lambda>(line, m).
              bindE (opIterator line 0) (\<lambda>it.
              Inr (st\<lparr>ml_mut := m, ml_lineIter := Some it\<rparr>)))
            else Inr st) (\<lambda>st1.
     (case ml_lineIter st1 of
        Some it \<Rightarrow>
          if hasNext it
          then bindE (opNext it) (\<lambda>(o1, it'). Inr (st1\<lparr>ml_attOp := o1, ml_lineIter := Some it'\<rparr>))
          else Inr (st1\<lparr>ml_attOp := (ml_attOp st1)\<lparr>opcode := NoOp\<rparr>\<rparr>)
      | None \<Rightarrow> Inr (st1\<lparr>ml_attOp := (ml_attOp st1)\<lparr>opcode := NoOp\<rparr>\<rparr>)))"

definition outputMutOp :: "op \<Rightarrow> malState \<Rightarrow> malState res" where
  "outputMutOp o1 st =
     (let assem = ma_append o1 (case ml_lineAssem st of None \<Rightarrow> mergingOpAssembler | Some a \<Rightarrow> a)
      in if 0 < lines o1 then
           bindE (assertE (lines o1 = 1) ''op.lines in attribution lines'') (\<lambda>_.
           bindE (mu_insert (fst (ma_toString assem)) 1 (ml_mut st)) (\<lambda>m.
           Inr (st\<lparr>ml_mut := m, ml_lineAssem := None\<rparr>)))
         else Inr (st\<lparr>ml_lineAssem := Some assem\<rparr>))"

text \<open>The body of the loop; \<open>None\<close> is \<open>break\<close>.\<close>

definition malStep :: "malState \<Rightarrow> malState option res" where
  "malStep st0 =
     bindE (if opcode (ml_csOp st0) = NoOp \<and> hasNext (ml_csIter st0) then
              bindE (opNext (ml_csIter st0)) (\<lambda>(o1, it). Inr (st0\<lparr>ml_csOp := o1, ml_csIter := it\<rparr>))
            else Inr st0) (\<lambda>st.
     (let csOp = ml_csOp st; attOp = ml_attOp st;
          idle = (opcode attOp = NoOp \<and> ml_lineAssem st = None \<and> \<not> lineHasNext st)
      in
      if opcode csOp = NoOp \<and> idle then Inr None
      else if opcode csOp = Keep \<and> 0 < lines csOp \<and> attribs csOp = '''' \<and> idle then
        bindE (mu_skipLines (lines csOp) False (ml_mut st)) (\<lambda>m.
          Inr (Some (st\<lparr>ml_mut := m, ml_csOp := csOp\<lparr>opcode := NoOp\<rparr>\<rparr>)))
      else if opcode csOp = Ins then
        (let firstLineLen = js_indexOf (ml_csBank st) [nl] (ml_csBankIndex st) + 1 - ml_csBankIndex st;
             out = (if 1 < lines csOp then csOp\<lparr>lines := 1, chars := firstLineLen\<rparr> else csOp);
             csOp' = (if 1 < lines csOp
                      then csOp\<lparr>chars := chars csOp - firstLineLen, lines := lines csOp - 1\<rparr>
                      else csOp\<lparr>opcode := NoOp\<rparr>)
         in bindE (outputMutOp out (st\<lparr>ml_csOp := csOp'\<rparr>)) (\<lambda>st1.
            Inr (Some (st1\<lparr>ml_csBankIndex := ml_csBankIndex st1 + chars out,
                           ml_opOut := out\<lparr>opcode := NoOp\<rparr>\<rparr>))))
      else
        bindE (if opcode attOp = NoOp \<and> isNextMutOp st then nextMutOp st else Inr st) (\<lambda>st1.
        bindE (slicerZipperFunc (ml_attOp st1) (ml_csOp st1) (ml_opOut st1) (ml_pool st1))
          (\<lambda>((attOp', csOp', out), p').
          (let st2 = st1\<lparr>ml_attOp := attOp', ml_csOp := csOp', ml_pool := p'\<rparr> in
           if opcode out \<noteq> NoOp then
             bindE (outputMutOp out st2) (\<lambda>st3. Inr (Some (st3\<lparr>ml_opOut := out\<lparr>opcode := NoOp\<rparr>\<rparr>)))
           else Inr (Some (st2\<lparr>ml_opOut := out\<rparr>)))))))"

definition malGuard :: "malState \<Rightarrow> bool" where
  "malGuard st = (opcode (ml_csOp st) \<noteq> NoOp \<or> hasNext (ml_csIter st) \<or>
     opcode (ml_attOp st) \<noteq> NoOp \<or> isNextMutOp st)"

partial_function (option) malLoop :: "malState \<Rightarrow> malState res option" where
  "malLoop st =
     (if malGuard st then
        (case malStep st of
           Inl e \<Rightarrow> Some (Inl e)
         | Inr r \<Rightarrow> (case r of None \<Rightarrow> Some (Inr st) | Some st' \<Rightarrow> malLoop st'))
      else Some (Inr st))"

declare malLoop.simps [code]

definition mutateAttributionLines ::
  "string \<Rightarrow> string list \<Rightarrow> pool option \<Rightarrow> (string list \<times> pool option) res" where
  "mutateAttributionLines cs ls p =
     bindE (unpack cs) (\<lambda>u.
     bindE (opIterator (up_ops u) 0) (\<lambda>csIter.
     (case malLoop \<lparr>ml_csIter = csIter, ml_csBank = up_charBank u, ml_csBankIndex = 0,
             ml_mut = textLinesMutator ls, ml_lineIter = None, ml_lineAssem = None,
             ml_csOp = newOp NoOp, ml_attOp = newOp NoOp, ml_opOut = newOp NoOp, ml_pool = p\<rparr> of
        None \<Rightarrow> Inl Diverges
      | Some r \<Rightarrow>
          bindE r (\<lambda>st.
          bindE (assertE (ml_lineAssem st = None) ''line assembler not finished'') (\<lambda>_.
          Inr (mu_lines (mu_close (ml_mut st)), ml_pool st))))))"

subsection \<open>Attribution lines\<close>

definition joinAttributionLines :: "string list \<Rightarrow> string res" where
  "joinAttributionLines theAlines =
     bindE (foldE (\<lambda>aline assem. bindE (opIterator aline 0) (\<lambda>iter.
              forOps iter (\<lambda>o1 a. Inr (ma_append o1 a)) assem)) theAlines mergingOpAssembler)
       (\<lambda>assem. Inr (fst (ma_toString assem)))"

record splitState =
  sl_assem :: mergeAssem
  sl_lines :: "string list"
  sl_pos :: int

definition splitAppendOp :: "op \<Rightarrow> splitState \<Rightarrow> splitState" where
  "splitAppendOp o1 st =
     (let assem = ma_append o1 (sl_assem st);
          st1 = (if 0 < lines o1
                 then (let (s, a) = ma_toString assem
                       in st\<lparr>sl_assem := ma_clear a, sl_lines := sl_lines st @ [s]\<rparr>)
                 else st\<lparr>sl_assem := assem\<rparr>)
      in st1\<lparr>sl_pos := sl_pos st1 + chars o1\<rparr>)"

function splitOpLoop ::
  "string \<Rightarrow> op \<Rightarrow> int \<Rightarrow> int \<Rightarrow> splitState \<Rightarrow> (op \<times> int \<times> int \<times> splitState) res" where
  "splitOpLoop text o1 numChars numLines st =
     (if 1 < numLines then
        (let newlineEnd = js_indexOf text [nl] (sl_pos st) + 1
         in bindE (assertE (0 < newlineEnd) ''newlineEnd <= 0 in splitAttributionLines'') (\<lambda>_.
            (let o2 = o1\<lparr>chars := newlineEnd - sl_pos st, lines := 1\<rparr>
             in splitOpLoop text o2 (numChars - chars o2) (numLines - 1) (splitAppendOp o2 st))))
      else Inr (o1, numChars, numLines, st))"
  by pat_completeness auto
termination by (relation "measure (\<lambda>(_, _, _, n, _). nat n)") auto

declare splitOpLoop.simps [simp del]

definition splitOp :: "string \<Rightarrow> op \<Rightarrow> splitState \<Rightarrow> splitState res" where
  "splitOp text o1 st =
     bindE (splitOpLoop text o1 (chars o1) (lines o1) st) (\<lambda>(o2, numChars, numLines, st').
       Inr (splitAppendOp (if numLines = 1 then o2\<lparr>chars := numChars, lines := 1\<rparr> else o2) st'))"

definition splitAttributionLines :: "string \<Rightarrow> string \<Rightarrow> string list res" where
  "splitAttributionLines attrOps text =
     bindE (opIterator attrOps 0) (\<lambda>iter.
     bindE (forOps iter (splitOp text)
              \<lparr>sl_assem = mergingOpAssembler, sl_lines = [], sl_pos = 0\<rparr>)
       (\<lambda>st. Inr (sl_lines st)))"


subsection \<open>inverse\<close>

text \<open>
  The variables \<open>curLine\<close>, \<open>curChar\<close>, \<open>curLineOpIter\<close> with \<open>curLineOpIterLine\<close> (\<open>None\<close> where no
  iterator has been created), and \<open>curLineNextOp\<close>.
\<close>

record invState =
  iv_line :: int
  iv_char :: int
  iv_iter :: "(opIter \<times> int) option"
  iv_op :: op

text \<open>
  \<open>alines_get(i)\<close> as a string: outside the array it is \<open>undefined\<close>, which the regular expression of
  \<open>opIterator\<close> reads as the string \<open>undefined\<close>, a stream without operations.
\<close>

definition alines_get :: "string list \<Rightarrow> int \<Rightarrow> string" where
  "alines_get alines i =
     (if 0 \<le> i \<and> i < int (length alines) then alines ! nat i else ''undefined'')"

text \<open>Advancing a new iterator to \<open>curChar\<close>; past its last operation the loop never ends.\<close>

function advanceIter :: "int \<Rightarrow> int \<Rightarrow> opIter \<Rightarrow> (op \<times> opIter) res" where
  "advanceIter curChar indexIntoLine it =
     bindE (opNext it) (\<lambda>(o1, it').
       if curChar \<le> indexIntoLine + chars o1
       then Inr (o1\<lparr>chars := chars o1 - (curChar - indexIntoLine)\<rparr>, it')
       else if \<not> hasNext it then Inl Diverges
       else advanceIter curChar (indexIntoLine + chars o1) it')"
  by pat_completeness auto
termination by (relation "measure (\<lambda>(_, _, it). iter_size it)") (auto intro: opNext_size)

declare advanceIter.simps [simp del]

definition startRuns :: "string list \<Rightarrow> invState \<Rightarrow> invState res" where
  "startRuns alines st =
     (case iv_iter st of
        Some (it, l) \<Rightarrow>
          if l = iv_line st then Inr st
          else bindE (opIterator (alines_get alines (iv_line st)) 0) (\<lambda>it0.
               bindE (advanceIter (iv_char st) 0 it0) (\<lambda>(o1, it').
               Inr (st\<lparr>iv_iter := Some (it', iv_line st), iv_op := o1\<rparr>)))
      | None \<Rightarrow>
          bindE (opIterator (alines_get alines (iv_line st)) 0) (\<lambda>it0.
          bindE (advanceIter (iv_char st) 0 it0) (\<lambda>(o1, it').
          Inr (st\<lparr>iv_iter := Some (it', iv_line st), iv_op := o1\<rparr>))))"

definition runsExhausted :: "invState \<Rightarrow> bool" where
  "runsExhausted st = (chars (iv_op st) = 0 \<and>
     (case iv_iter st of None \<Rightarrow> True | Some (it, _) \<Rightarrow> \<not> hasNext it))"

text \<open>One round of the loop over the runs: the next line where the current one is used up, the next operation.\<close>

definition nextRun :: "string list \<Rightarrow> invState \<Rightarrow> invState res" where
  "nextRun alines st0 =
     bindE (if runsExhausted st0 then
              bindE (opIterator (alines_get alines (iv_line st0 + 1)) 0) (\<lambda>it.
              Inr (st0\<lparr>iv_line := iv_line st0 + 1, iv_char := 0,
                       iv_op := (iv_op st0)\<lparr>chars := 0\<rparr>, iv_iter := Some (it, iv_line st0 + 1)\<rparr>))
            else Inr st0) (\<lambda>st.
     (case iv_iter st of
        Some (it, l) \<Rightarrow>
          if chars (iv_op st) = 0
          then bindE (opNext it) (\<lambda>(o1, it'). Inr (st\<lparr>iv_op := o1, iv_iter := Some (it', l)\<rparr>))
          else Inr st
      | None \<Rightarrow> Inr st))"

partial_function (option) runsLoop ::
  "string list \<Rightarrow> (int \<Rightarrow> string \<Rightarrow> bool \<Rightarrow> 's \<Rightarrow> 's res) \<Rightarrow> int \<Rightarrow> invState \<Rightarrow> 's
   \<Rightarrow> (invState \<times> 's) res option" where
  "runsLoop alines func numChars st s =
     (if 0 < numChars then
        (case nextRun alines st of
           Inl e \<Rightarrow> Some (Inl e)
         | Inr st1 \<Rightarrow>
             (let o1 = iv_op st1; charsToUse = min numChars (chars o1) in
              case func charsToUse (attribs o1) (charsToUse = chars o1 \<and> 0 < lines o1) s of
                Inl e \<Rightarrow> Some (Inl e)
              | Inr s' \<Rightarrow>
                  runsLoop alines func (numChars - charsToUse)
                    (st1\<lparr>iv_op := o1\<lparr>chars := chars o1 - charsToUse\<rparr>,
                         iv_char := iv_char st1 + charsToUse\<rparr>) s'))
      else Some (Inr (st, s)))"

declare runsLoop.simps [code]

definition consumeAttribRuns ::
  "string list \<Rightarrow> int \<Rightarrow> (int \<Rightarrow> string \<Rightarrow> bool \<Rightarrow> 's \<Rightarrow> 's res) \<Rightarrow> invState \<Rightarrow> 's
   \<Rightarrow> (invState \<times> 's) res" where
  "consumeAttribRuns alines numChars func st0 s0 =
     bindE (startRuns alines st0) (\<lambda>st1.
     (case runsLoop alines func numChars st1 s0 of
        None \<Rightarrow> Inl Diverges
      | Some r \<Rightarrow> bindE r (\<lambda>(st, s).
          Inr (if runsExhausted st then st\<lparr>iv_line := iv_line st + 1, iv_char := 0\<rparr> else st, s))))"

definition inverse_skip :: "string list \<Rightarrow> int \<Rightarrow> int \<Rightarrow> invState \<Rightarrow> invState res" where
  "inverse_skip alines N L st =
     (if L \<noteq> 0 then Inr (st\<lparr>iv_line := iv_line st + L, iv_char := 0\<rparr>)
      else if (case iv_iter st of None \<Rightarrow> False | Some (_, l) \<Rightarrow> l = iv_line st)
      then bindE (consumeAttribRuns alines N (\<lambda>_ _ _ s. Inr s) st ()) (\<lambda>(st', _). Inr st')
      else Inr (st\<lparr>iv_char := iv_char st + N\<rparr>))"

function nextTextLoop :: "string list \<Rightarrow> int \<Rightarrow> int \<Rightarrow> string \<Rightarrow> string res" where
  "nextTextLoop ls numChars lineNum acc =
     (if int (length acc) < numChars then
        bindE (js_nth ls lineNum) (\<lambda>nextString.
          nextTextLoop ls numChars (lineNum + 1) (acc @ nextString))
      else Inr acc)"
  by pat_completeness auto
termination
  by (relation "measure (\<lambda>(ls, _, l, _). nat (int (length ls) - l))")
    (auto simp: js_nth_def split: if_splits)

declare nextTextLoop.simps [simp del]

definition nextText :: "string list \<Rightarrow> int \<Rightarrow> invState \<Rightarrow> string res" where
  "nextText ls numChars st =
     bindE (js_nth ls (iv_line st)) (\<lambda>l.
     bindE (nextTextLoop ls numChars (iv_line st + 1) (js_from l (iv_char st))) (\<lambda>t.
     Inr (js_substring t 0 numChars)))"

text \<open>
  The attributes that undo the attributes \<open>keys\<close>, \<open>values\<close> set on a character with the attributes
  \<open>att\<close>. (The code memoises this function of \<open>att\<close> for the length of one operation.)
\<close>

definition undoBackToAttribs ::
  "attrib list \<Rightarrow> string \<Rightarrow> pool option \<Rightarrow> (string option \<times> pool option) res" where
  "undoBackToAttribs applied att p =
     bindE (foldE (\<lambda>(appliedKey, appliedValue) backAttribs.
              bindE (attribsAttributeValue att appliedKey p) (\<lambda>oldValue.
              Inr (if appliedValue \<noteq> oldValue then backAttribs @ [(appliedKey, oldValue)]
                   else backAttribs))) applied [])
       (\<lambda>backAttribs. makeAttribsString Keep (AttribsPairs backAttribs) p)"

definition appliedAttribs :: "string \<Rightarrow> pool option \<Rightarrow> attrib list res" where
  "appliedAttribs att p =
     eachAttribNumber att (\<lambda>n acc. case p of
         None \<Rightarrow> Inl (TypeError ''null.getAttribKey'')
       | Some pl \<Rightarrow> Inr (acc @ [(getAttribKey pl n, getAttribValue pl n)])) []"

definition inverse_op ::
  "string list \<Rightarrow> string list \<Rightarrow> op \<Rightarrow> invState \<times> builder \<times> pool option
   \<Rightarrow> (invState \<times> builder \<times> pool option) res" where
  "inverse_op ls alines csOp s =
     (let (st, b, p) = s in
      case opcode csOp of
        Keep \<Rightarrow>
          (if attribs csOp \<noteq> '''' then
             bindE (appliedAttribs (attribs csOp) p) (\<lambda>applied.
             bindE (consumeAttribRuns alines (chars csOp)
                (\<lambda>len att endsLine (b, p).
                   bindE (undoBackToAttribs applied att p) (\<lambda>(back, p').
                   bindE (bu_keep len (if endsLine then 1 else 0)
                       (case back of None \<Rightarrow> NoAttribs | Some a \<Rightarrow> AttribsString a) None b)
                     (\<lambda>(b', _). Inr (b', p'))))
                st (b, p)) (\<lambda>(st', b', p').
             Inr (st', b', p')))
           else
             bindE (inverse_skip alines (chars csOp) (lines csOp) st) (\<lambda>st'.
             bindE (bu_keep (chars csOp) (lines csOp) NoAttribs None b) (\<lambda>(b', _).
             Inr (st', b', p))))
      | Ins \<Rightarrow> Inr (st, bu_remove (chars csOp) (lines csOp) b, p)
      | Del \<Rightarrow>
          bindE (nextText ls (chars csOp) st) (\<lambda>textBank.
          bindE (consumeAttribRuns alines (chars csOp)
             (\<lambda>len att endsLine (b, textBankIndex).
                bindE (bu_insert (js_substr textBank textBankIndex len) (AttribsString att) None b)
                  (\<lambda>(b', _). Inr (b', textBankIndex + len)))
             st (b, 0)) (\<lambda>(st', b', _).
          Inr (st', b', p)))
      | NoOp \<Rightarrow> Inr s)"

definition inverse :: "string \<Rightarrow> string list \<Rightarrow> string list \<Rightarrow> pool option \<Rightarrow> (string \<times> pool option) res" where
  "inverse cs ls alines p =
     bindE (unpack cs) (\<lambda>u.
     bindE (opIterator (up_ops u) 0) (\<lambda>csIter.
     bindE (forOps csIter (inverse_op ls alines)
              (\<lparr>iv_line = 0, iv_char = 0, iv_iter = None, iv_op = newOp Ins\<rparr>,
               builder_new (up_newLen u), p)) (\<lambda>(_, b, p').
     bindE (checkRep (bu_toString b)) (\<lambda>cs'. Inr (cs', p')))))"

end
