(* ===== verification/Protocol.thy ===== *)
theory Protocol
  imports Lines
begin

text \<open>
  The algebra the collaboration protocol rests on, as an interface: documents, changes that apply
  to them in a pool, \<open>compose\<close> and \<open>follow\<close>. The locale \<open>ot_algebra\<close> states what a client or a server
  of the protocol relies on; its lemmas are about rebasing a change over a sequence of revisions
  (\<open>applyUserChanges\<close> on the server) and about a client that keeps a submitted and an unsubmitted
  change on top of the server's document (\<open>changesettracker.js\<close>). It is interpreted on the
  changesets, texts and pools of the model.
\<close>

subsection \<open>The interface\<close>

locale ot_algebra =
  fixes applies :: "'p \<Rightarrow> 'c \<Rightarrow> 'd \<Rightarrow> 'd \<Rightarrow> bool"
    and le :: "'p \<Rightarrow> 'p \<Rightarrow> bool"
    and fol :: "'c \<Rightarrow> 'c \<Rightarrow> bool \<Rightarrow> 'p \<Rightarrow> ('c \<times> 'p) res"
    and com :: "'c \<Rightarrow> 'c \<Rightarrow> 'p \<Rightarrow> ('c \<times> 'p) res"
  assumes le_refl: "le p p"
    and le_trans: "le p q \<Longrightarrow> le q q2 \<Longrightarrow> le p q2"
    and applies_le: "le p q \<Longrightarrow> applies p c d d' \<Longrightarrow> applies q c d d'"
    and applies_unique: "applies p c d d' \<Longrightarrow> applies q c d d'' \<Longrightarrow> d' = d''"
    and fol_diamond: "applies p a d da \<Longrightarrow> applies p b d db \<Longrightarrow> le p q \<Longrightarrow>
      \<exists>b' p1 a' p2 d'. fol a b r p = Inr (b', p1) \<and> le p p1 \<and> applies p1 b' da d' \<and>
        fol b a (\<not> r) q = Inr (a', p2) \<and> le q p2 \<and> applies p2 a' db d'"
    and com_applies: "applies p a d d' \<Longrightarrow> applies p b d' d'' \<Longrightarrow>
      \<exists>c p'. com a b p = Inr (c, p') \<and> le p p' \<and> applies p' c d d''"
begin

text \<open>A sequence of revisions leading from one document to another.\<close>

fun path :: "'p \<Rightarrow> 'c list \<Rightarrow> 'd \<Rightarrow> 'd \<Rightarrow> bool" where
  "path p [] d d' = (d = d')"
| "path p (c # cs) d d' = (\<exists>e. applies p c d e \<and> path p cs e d')"

text \<open>Rebasing a change over the revisions it has missed, one \<open>follow\<close> for each.\<close>

fun rebased :: "'c list \<Rightarrow> bool \<Rightarrow> 'c \<Rightarrow> 'p \<Rightarrow> ('c \<times> 'p) res" where
  "rebased [] r c p = Inr (c, p)"
| "rebased (x # xs) r c p = bindE (fol x c r p) (\<lambda>(c', p'). rebased xs r c' p')"

text \<open>
  The author's side: each revision he receives follows his change, and his change follows it.
\<close>

fun delivered :: "'c list \<Rightarrow> bool \<Rightarrow> 'c \<Rightarrow> 'p \<Rightarrow> (('c \<times> 'c list) \<times> 'p) res" where
  "delivered [] r c p = Inr ((c, []), p)"
| "delivered (x # xs) r c p =
     bindE (fol x c r p) (\<lambda>(c', p1).
     bindE (fol c x (\<not> r) p1) (\<lambda>(x', p2).
     bindE (delivered xs r c' p2) (\<lambda>((c'', xs'), p3). Inr ((c'', x' # xs'), p3))))"

lemma path_le: "le p q \<Longrightarrow> path p cs d d' \<Longrightarrow> path q cs d d'"
  by (induction cs arbitrary: d) (auto intro: applies_le)

lemma path_append: "path p (xs @ ys) d d' = (\<exists>e. path p xs d e \<and> path p ys e d')"
  by (induction xs arbitrary: d) auto

lemma fol_both:
  assumes "applies p a d da" and "applies p b d db"
  obtains b' p1 a' p2 d' where "fol a b r p = Inr (b', p1)" "le p p1" "applies p1 b' da d'"
    "fol b a (\<not> r) p1 = Inr (a', p2)" "le p1 p2" "applies p2 a' db d'"
proof -
  obtain b' p1 where 1: "fol a b r p = Inr (b', p1)" "le p p1"
    using fol_diamond [OF assms le_refl, of r] by blast
  show ?thesis
    using fol_diamond [OF assms 1(2), of r] 1 that by (metis Inr_inject prod.inject)
qed

lemma rebased_applies:
  assumes "path p xs d dn" and "applies p c d dc"
  shows "\<exists>c' p' dn'. rebased xs r c p = Inr (c', p') \<and> le p p' \<and> applies p' c' dn dn'"
  using assms
proof (induction xs arbitrary: c p d dc)
  case Nil
  then show ?case using le_refl by auto
next
  case (Cons x xs)
  then obtain e where e: "applies p x d e" "path p xs e dn" by auto
  obtain c' p1 d' where f: "fol x c r p = Inr (c', p1)" "le p p1" "applies p1 c' e d'"
    using fol_both [OF e(1) Cons.prems(2), of r] by metis
  from Cons.IH [OF path_le [OF f(2) e(2)] f(3)] f show ?case using le_trans by auto
qed

text \<open>
  The author who has his own change in place and the server that has the revisions meet again: the
  revisions, each transformed past the change, lead the author's document to the document the
  rebased change leads the server's to.
\<close>

lemma delivered_meets:
  assumes "path p xs d dn" and "applies p c d dc"
  shows "\<exists>c' xs' p' d'. delivered xs r c p = Inr ((c', xs'), p') \<and> le p p' \<and>
    applies p' c' dn d' \<and> path p' xs' dc d'"
  using assms
proof (induction xs arbitrary: c p d dc)
  case Nil
  then show ?case using le_refl by auto
next
  case (Cons x xs)
  then obtain e where e: "applies p x d e" "path p xs e dn" by auto
  obtain c' p1 x' p2 d' where f: "fol x c r p = Inr (c', p1)" "le p p1" "applies p1 c' e d'"
    "fol c x (\<not> r) p1 = Inr (x', p2)" "le p1 p2" "applies p2 x' dc d'"
    using fol_both [OF e(1) Cons.prems(2), of r] by metis
  have le: "le p p2" using le_trans [OF f(2,5)] .
  obtain c'' xs' p3 d'' where g: "delivered xs r c' p2 = Inr ((c'', xs'), p3)" "le p2 p3"
    "applies p3 c'' dn d''" "path p3 xs' d' d''"
    using Cons.IH [OF path_le [OF le e(2)] applies_le [OF f(5,3)]] by metis
  have "path p3 (x' # xs') dc d''" using applies_le [OF g(2) f(6)] g(4) by auto
  with f g le_trans [OF le g(2)] show ?case by auto
qed

text \<open>
  A client with a submitted change and a further change of its user on top, when the server's next
  change arrives: the two follow, and the change brings the user's document to the new base with
  both on top.
\<close>

lemma client_step:
  assumes c: "applies p c b b'" and s: "applies p s b m" and u: "applies p u m d"
  shows "\<exists>s' p1 c2 p2 u' p3 c3 p4 m' d'.
    fol c s r p = Inr (s', p1) \<and> fol s c (\<not> r) p1 = Inr (c2, p2) \<and>
    fol c2 u r' p2 = Inr (u', p3) \<and> fol u c2 (\<not> r') p3 = Inr (c3, p4) \<and>
    le p p1 \<and> le p1 p4 \<and> le p p4 \<and> applies p4 s' b' m' \<and> applies p4 u' m' d' \<and> applies p4 c3 d d'"
proof -
  obtain s' p1 c2 p2 m' where f: "fol c s r p = Inr (s', p1)" "le p p1" "applies p1 s' b' m'"
    "fol s c (\<not> r) p1 = Inr (c2, p2)" "le p1 p2" "applies p2 c2 m m'"
    using fol_both [OF c s, of r] by metis
  have u2: "applies p2 u m d" using applies_le [OF f(5) applies_le [OF f(2) u]] .
  obtain u' p3 c3 p4 d' where g: "fol c2 u r' p2 = Inr (u', p3)" "le p2 p3" "applies p3 u' m' d'"
    "fol u c2 (\<not> r') p3 = Inr (c3, p4)" "le p3 p4" "applies p4 c3 d d'"
    using fol_both [OF f(6) u2, of r'] by metis
  have "le p2 p4" using le_trans [OF g(2,5)] .
  then have "le p1 p4" using le_trans [OF f(5)] by blast
  then have "le p p4" using le_trans [OF f(2)] by blast
  moreover have "applies p4 s' b' m'" using applies_le [OF \<open>le p1 p4\<close> f(3)] .
  moreover have "applies p4 u' m' d'" using applies_le [OF g(5) g(3)] .
  ultimately show ?thesis using f g \<open>le p1 p4\<close> by blast
qed

end

subsection \<open>The interface on changesets\<close>

text \<open>A changeset as \<open>pack\<close> and \<open>opAssembler\<close> print it; \<open>compose\<close>, \<open>follow\<close> and the builders return these.\<close>

definition canonical :: "string \<Rightarrow> bool" where
  "canonical cs = (\<exists>n m os bank. cs = pack n m (encode os) bank \<and> 0 \<le> n \<and> list_all lexable os)"

lemma canonical_packed: "script_ok es \<Longrightarrow> canonical (packed t es)"
proof -
  assume ok: "script_ok es"
  note nn = script_ok_no_NoOp [OF ok]
  obtain os where os: "smart_string es = encode os" "denotes os (smart_norm es)"
    using smart_string_denotes [OF nn] by blast
  have "script_ok (smart_norm es)"
    using smart_norm_text [OF nn] ok by (auto simp: script_ok_def list_all_iff)
  with os denotes_lexable show ?thesis
    unfolding canonical_def packed_def by (metis of_nat_0_le_iff)
qed

lemma follow_canonical:
  assumes c1: "cs_on cs1 t es" and c2: "cs_on cs2 t fs"
    and p: "pool_wf p" "known p es" "known p fs"
    and f: "follow cs1 cs2 ro (Some p) = Inr (cs3, q)"
  shows "canonical cs3"
proof -
  obtain ps where ps: "cs_pieces cs1 ps" "es = flat ps" using cs_on_pieces [OF c1] by blast
  obtain qs where qs: "cs_pieces cs2 qs" "fs = flat qs" using cs_on_pieces [OF c2] by blast
  from follow_script [OF c1 [unfolded ps(2)] ps(1) c2 [unfolded qs(2)] qs(1) p [unfolded ps(2) qs(2)], of ro]
  obtain p' gs where "known p' gs" "no_NoOp gs" "cs3 = packed (result t (flat ps)) gs" using f by auto
  then show ?thesis using canonical_packed known_script_ok by blast
qed

lemma compose_canonical:
  assumes c1: "cs_on cs1 t es" and c2: "cs_on cs2 (result t es) fs"
    and p: "pool_wf p" "known p es" "known p fs" and c: "compose cs1 cs2 (Some p) = Inr (cs3, q)"
  shows "canonical cs3"
proof -
  from compose_script [OF c1 c2 p] c obtain p' gs where "known p' gs" "no_NoOp gs" "cs3 = packed t gs"
    by auto
  then show ?thesis using canonical_packed known_script_ok by blast
qed

text \<open>
  \<open>applies p cs t t'\<close>: in the pool \<open>p\<close>, which knows its attributes, \<open>cs\<close> is a changeset for the text
  \<open>t\<close> and produces \<open>t'\<close>.
\<close>

definition applies :: "pool \<Rightarrow> string \<Rightarrow> string \<Rightarrow> string \<Rightarrow> bool" where
  "applies p cs t t' = (pool_wf p \<and> canonical cs \<and> (\<exists>es. cs_on cs t es \<and> known p es \<and> t' = result t es))"

definition inPool :: "(string \<times> pool option) res \<Rightarrow> (string \<times> pool) res" where
  "inPool r = bindE r (\<lambda>(c, p). case p of None \<Rightarrow> Inl (TypeError ''null'') | Some q \<Rightarrow> Inr (c, q))"

lemma inPool_simps [simp]: "inPool (Inr (c, Some p)) = Inr (c, p)" "inPool (Inl e) = Inl e"
  by (simp_all add: inPool_def)

lemma inPool_eq [simp]: "inPool r = Inr (c, p) \<longleftrightarrow> r = Inr (c, Some p)"
  by (cases r) (auto simp: inPool_def split: option.splits prod.splits)

definition followIn :: "string \<Rightarrow> string \<Rightarrow> bool \<Rightarrow> pool \<Rightarrow> (string \<times> pool) res" where
  "followIn a b r p = inPool (follow a b r (Some p))"

definition composeIn :: "string \<Rightarrow> string \<Rightarrow> pool \<Rightarrow> (string \<times> pool) res" where
  "composeIn a b p = inPool (compose a b (Some p))"

lemma appliesI: "pool_wf p \<Longrightarrow> canonical cs \<Longrightarrow> cs_on cs t es \<Longrightarrow> known p es \<Longrightarrow> applies p cs t (result t es)"
  unfolding applies_def by blast

lemma applies_text: "applies p cs t t' \<Longrightarrow> applyToText cs t = Inr t'"
  using applyToText_result by (auto simp: applies_def)

lemma applies_wf: "applies p cs t t' \<Longrightarrow> pool_wf p"
  by (simp add: applies_def)

lemma applies_pool_le: "pool_le p q \<Longrightarrow> applies p cs t t' \<Longrightarrow> applies q cs t t'"
  using known_le pool_le_wf unfolding applies_def by blast

interpretation ot: ot_algebra applies "\<lambda>p q. pool_wf p \<longrightarrow> pool_le p q" followIn composeIn
proof unfold_locales
  show "pool_wf p \<longrightarrow> pool_le p p" for p by (simp add: pool_le_refl)
next
  show "pool_wf p \<longrightarrow> pool_le p r" if "pool_wf p \<longrightarrow> pool_le p q" "pool_wf q \<longrightarrow> pool_le q r" for p q r
    using that pool_le_trans pool_le_wf by blast
next
  show "applies q c d d'" if "pool_wf p \<longrightarrow> pool_le p q" "applies p c d d'" for p q c d d'
    using that applies_pool_le applies_wf by blast
next
  show "d' = d''" if "applies p c d d'" "applies q c d d''" for p q c d d' d''
    using applies_text [OF that(1)] applies_text [OF that(2)] by simp
next
  fix p q a b d da db r
  assume a: "applies p a d da" and b: "applies p b d db" and q: "pool_wf p \<longrightarrow> pool_le p q"
  then have q': "pool_le p q" by (simp add: applies_wf)
  from a b obtain es fs where e: "cs_on a d es" "known p es" "da = result d es" "pool_wf p"
    and f: "cs_on b d fs" "known p fs" "db = result d fs" by (auto simp: applies_def)
  from follow_diamond [OF e(1) f(1) e(4) e(2) f(2) q', of r] obtain b' p1 a' p2 gs hs where
    g: "follow a b r (Some p) = Inr (b', Some p1)" "pool_le p p1"
      "follow b a (\<not> r) (Some q) = Inr (a', Some p2)" "pool_le q p2"
      "cs_on b' (result d es) gs" "cs_on a' (result d fs) hs" "known p1 gs" "known p2 hs"
      "result (result d es) gs = result (result d fs) hs" by blast
  have "applies p1 b' da (result da gs)"
    using appliesI [OF pool_le_wf [OF g(2)] follow_canonical [OF e(1) f(1) e(4,2) f(2) g(1)] g(5,7)] by (simp add: e(3))
  moreover have "applies p2 a' db (result da gs)"
    using appliesI [OF pool_le_wf [OF g(4)] follow_canonical [OF f(1) e(1) pool_le_wf [OF q'] known_le [OF q' f(2)] known_le [OF q' e(2)] g(3)] g(6,8)] by (simp add: e(3) f(3) g(9))
  ultimately show "\<exists>b' p1 a' p2 d'. followIn a b r p = Inr (b', p1) \<and> (pool_wf p \<longrightarrow> pool_le p p1) \<and>
      applies p1 b' da d' \<and> followIn b a (\<not> r) q = Inr (a', p2) \<and> (pool_wf q \<longrightarrow> pool_le q p2) \<and>
      applies p2 a' db d'"
    using g(1-4) by (auto simp: followIn_def)
next
  fix p a b d d' d''
  assume a: "applies p a d d'" and b: "applies p b d' d''"
  then obtain es fs where e: "cs_on a d es" "known p es" "d' = result d es" "pool_wf p"
    and f: "cs_on b d' fs" "known p fs" "d'' = result d' fs" by (auto simp: applies_def)
  from compose_script [OF e(1) f(1) [unfolded e(3)] e(4,2) f(2)] obtain c p' gs where
    g: "compose a b (Some p) = Inr (c, Some p')" "pool_le p p'" "known p' gs" "no_NoOp gs"
      "cs_on c d (smart_norm gs)" "result d (smart_norm gs) = result (result d es) fs" by blast
  have "known p' (smart_norm gs)"
    using smart_norm_text [OF g(4)] g(3) by (auto simp: known_def list_all_iff)
  then have "applies p' c d d''"
    using appliesI [OF pool_le_wf [OF g(2)] compose_canonical [OF e(1) f(1) [unfolded e(3)] e(4,2) f(2) g(1)] g(5)] by (simp add: e(3) f(3) g(6))
  then show "\<exists>c p'. composeIn a b p = Inr (c, p') \<and> (pool_wf p \<longrightarrow> pool_le p p') \<and> applies p' c d d''"
    using g(1,2) by (auto simp: composeIn_def)
qed

end
