(* ===== verification/Wire.thy ===== *)
theory Wire
  imports Protocol
begin

text \<open>
  Changesets and attribution strings on the wire: \<open>prepareForWire\<close> writes a changeset over a pool of
  its own, and the receiver moves it into his pool. Both are \<open>moveOpsToNewPool\<close>; what it returns
  does to a text what the original did, and its attributes are the same attributes.
\<close>

subsection \<open>Renumbering an attribute string\<close>

lemma replaceStars_append:
  "stops s \<Longrightarrow> replaceStars f (a @ s) st =
     bindE (replaceStars f a st) (\<lambda>(x, st'). bindE (replaceStars f s st') (\<lambda>(r, st'').
       Inr (x @ r, st'')))"
proof (induction f a st rule: replaceStars.induct)
  case (1 f st)
  then show ?case by (cases "replaceStars f s st") auto
next
  case (2 f c a st)
  have tw: "takeWhile is_alnum (a @ s) = takeWhile is_alnum a"
    using takeWhile_stops [OF 2(3)] by (auto simp: takeWhile_append takeWhile_eq_all_conv [THEN iffD2])
  have dw: "dropWhile is_alnum (a @ s) = dropWhile is_alnum a @ s"
  proof (cases "\<forall>c\<in>set a. is_alnum c")
    case True
    then show ?thesis using 2(3) by (cases s) (auto simp: stops_def)
  next
    case False
    then show ?thesis by auto
  qed
  show ?case
  proof (cases "c = CHR ''*'' \<and> takeWhile is_alnum a \<noteq> []")
    case True
    show ?thesis
    proof (cases "f (takeWhile is_alnum a) st")
      case (Inr xs)
      with True 2(1) [OF True Inr _ 2(3), of "fst xs" "snd xs"] show ?thesis
        by (auto simp: tw dw bindE_assoc split_def intro!: bindE_cong)
    qed (use True in \<open>simp add: tw\<close>)
  next
    case False
    with 2(2) [OF False 2(3)] show ?thesis
      by (auto simp: tw bindE_assoc split_def intro!: bindE_cong)
  qed
qed

lemma replaceStars_plain: "CHR ''*'' \<notin> set s \<Longrightarrow> replaceStars f s st = Inr (s, st)"
  by (induction s) auto

text \<open>What a renumbered attribute string stands for, and a renumbered operation.\<close>

definition renamed :: "pool \<Rightarrow> pool \<Rightarrow> string \<Rightarrow> string \<Rightarrow> bool" where
  "renamed p q a b = (is_attribs b \<and> numbered b \<and> att_known q b \<and>
     map attribStr (att_pairs q b) = map attribStr (att_pairs p a))"

lemma renamed_le: "pool_le q q' \<Longrightarrow> renamed p q a b \<Longrightarrow> renamed p q' a b"
  by (auto simp: renamed_def att_known_le att_pairs_le)

lemma replaceStars_attribs:
  assumes "is_attribs a" and "att_known p a" and "pool_wf q"
  shows "\<exists>b q'. replaceStars (moveOp p) a q = Inr (b, q') \<and> pool_le q q' \<and> renamed p q' a b"
proof -
  have "\<exists>ns q'. replaceStars (moveOp p) a q = Inr (attsStr ns, q') \<and> pool_le q q' \<and>
      list_all2 (\<lambda>n b. \<exists>c. getAttrib q' n = Some c \<and> attribStr c = attribStr b) ns (att_pairs p a)"
    using assms
  proof (induction a arbitrary: q rule: star_matches.induct)
    case 1
    then show ?case
      by (auto simp: att_pairs_def intro!: exI [of _ "[]"] pool_le_refl)
  next
    case (2 c s)
    have c: "c = CHR ''*'' \<and> takeWhile is_alnum s \<noteq> []" and s: "is_attribs (dropWhile is_alnum s)"
      using 2(3) by (auto simp: is_attribs_def case_prod_beta split: if_splits)
       (metis append_same_eq prod.collapse takeWhile_dropWhile_id append_eq_append_conv)
    from 2(4) c have k: "getAttrib p (parseNum (takeWhile is_alnum s)) \<noteq> None"
      "att_known p (dropWhile is_alnum s)" by (simp_all add: att_known_def)
    then obtain pair where g: "getAttrib p (parseNum (takeWhile is_alnum s)) = Some pair" by blast
    obtain n q1 where put: "putAttrib pair False q = (n, q1)" by fastforce
    have le: "pool_le q q1" using pool_le_put [OF 2(5) put] .
    obtain b where b: "getAttrib q1 n = Some b" "attribStr b = attribStr pair"
      using ap.put_get [OF 2(5) put] by blast
    obtain ns q' where ih: "replaceStars (moveOp p) (dropWhile is_alnum s) q1 = Inr (attsStr ns, q')"
      "pool_le q1 q'" "list_all2 (\<lambda>n b. \<exists>c. getAttrib q' n = Some c \<and> attribStr c = attribStr b) ns
        (att_pairs p (dropWhile is_alnum s))"
      using 2(1) [OF c s k(2) pool_le_wf [OF le]] by blast
    have "getAttrib q' n = Some b" using ih(2) b(1) by (simp add: pool_le_def)
    moreover have "att_pairs p (c # s) = pair # att_pairs p (dropWhile is_alnum s)"
      using c g by (simp add: att_pairs_def)
    moreover have "moveOp p (takeWhile is_alnum s) q = Inr (''*'' @ numToString n, q1)"
      using g put by (simp add: moveOp_def)
    ultimately show ?case
      using ih c b(2) pool_le_trans [OF le ih(2)]
      by (intro exI [of _ "n # ns"] exI [of _ q']) simp
  qed
  then obtain ns q' where n: "replaceStars (moveOp p) a q = Inr (attsStr ns, q')" "pool_le q q'"
    "list_all2 (\<lambda>n b. \<exists>c. getAttrib q' n = Some c \<and> attribStr c = attribStr b) ns (att_pairs p a)"
    by blast
  with attsStr_known [OF n(3) pool_le_wf [OF n(2)]] show ?thesis by (auto simp: renamed_def)
qed

text \<open>The part of an operation after its attributes has no star.\<close>

lemma opStr_tail:
  assumes "lexable o1"
  shows "\<exists>tl. stops tl \<and> (\<forall>a. opStr (o1\<lparr>attribs := a\<rparr>) = a @ tl) \<and> CHR ''*'' \<notin> set tl"
proof -
  from assms have pos: "0 \<le> chars o1" "0 \<le> lines o1" "opcode o1 \<noteq> NoOp" by (auto simp: lexable_def)
  have nostar: "CHR ''*'' \<notin> set (numToString n)" if "0 \<le> n" for n
    using numToString_alnum [OF that] by (auto simp: list_all_iff is_alnum_def)
  obtain c where c: "opcodeStr (opcode o1) = [c]" "c \<in> set ''=-+''"
    using opcodeStr_char [OF pos(3)] by blast
  then have "c \<noteq> CHR ''*'' \<and> \<not> is_alnum c" by (auto simp: is_alnum_def)
  then show ?thesis
    using nostar [OF pos(1)] nostar [OF pos(2)] c(1)
    by (intro exI [of _ "(if lines o1 \<noteq> 0 then CHR ''|'' # numToString (lines o1) else [])
       @ opcodeStr (opcode o1) @ numToString (chars o1)"]) (auto simp: opStr_def stops_def is_alnum_def)
qed

definition opKnown :: "pool \<Rightarrow> op \<Rightarrow> bool" where
  "opKnown p o1 = (lexable o1 \<and> att_known p (attribs o1))"

definition opRenamed :: "pool \<Rightarrow> pool \<Rightarrow> op \<Rightarrow> op \<Rightarrow> bool" where
  "opRenamed p q o1 o2 = (\<exists>b. o2 = o1\<lparr>attribs := b\<rparr> \<and> renamed p q (attribs o1) b)"

lemma opRenamed_lexable: "opRenamed p q o1 o2 \<Longrightarrow> lexable o1 \<Longrightarrow> lexable o2"
  by (auto simp: opRenamed_def renamed_def lexable_def)

lemma replaceStars_encode:
  "list_all (opKnown p) os \<Longrightarrow> pool_wf q \<Longrightarrow>
   \<exists>os' q'. replaceStars (moveOp p) (encode os) q = Inr (encode os', q') \<and> pool_le q q' \<and>
     list_all2 (opRenamed p q') os os'"
proof (induction os arbitrary: q)
  case Nil
  then show ?case by (auto intro!: exI [of _ "[]"] pool_le_refl)
next
  case (Cons o1 os)
  then have os: "list_all (opKnown p) os" by simp
  from Cons.prems have o1: "lexable o1" "att_known p (attribs o1)" by (simp_all add: opKnown_def)
  then have a: "is_attribs (attribs o1)" by (simp add: lexable_def)
  obtain tl where tl: "stops tl" "\<And>a. opStr (o1\<lparr>attribs := a\<rparr>) = a @ tl" "CHR ''*'' \<notin> set tl"
    using opStr_tail [OF o1(1)] by blast
  have os_st: "stops (encode os)"
    using os by (intro op_start_stops op_start_encode) (auto simp: opKnown_def list_all_iff)
  have e: "encode (o1 # os) = attribs o1 @ (tl @ encode os)" using tl(2) [of "attribs o1"] by simp
  obtain b q1 where b: "replaceStars (moveOp p) (attribs o1) q = Inr (b, q1)" "pool_le q q1"
    "renamed p q1 (attribs o1) b" using replaceStars_attribs [OF a o1(2) Cons.prems(2)] by blast
  obtain os' q' where ih: "replaceStars (moveOp p) (encode os) q1 = Inr (encode os', q')" "pool_le q1 q'"
    "list_all2 (opRenamed p q') os os'" using Cons.IH [OF os pool_le_wf [OF b(2)]] by blast
  have "opRenamed p q' o1 (o1\<lparr>attribs := b\<rparr>)"
    using renamed_le [OF ih(2) b(3)] by (auto simp: opRenamed_def)
  moreover have "replaceStars (moveOp p) (encode (o1 # os)) q = Inr (encode (o1\<lparr>attribs := b\<rparr> # os'), q')"
    unfolding e by (simp add: replaceStars_append [OF stops_append [OF tl(1) os_st]]
        replaceStars_append [OF os_st, of _ tl] replaceStars_plain [OF tl(3)] b(1) ih(1) tl(2))
  ultimately show ?case
    using ih(3) pool_le_trans [OF b(2) ih(2)]
    by (intro exI [of _ "o1\<lparr>attribs := b\<rparr> # os'"] exI [of _ q']) simp
qed

subsection \<open>Moving a changeset\<close>

definition sameEdit :: "pool \<Rightarrow> pool \<Rightarrow> edit \<Rightarrow> edit \<Rightarrow> bool" where
  "sameEdit p q e f = (ed_op f = ed_op e \<and> ed_char f = ed_char e \<and> renamed p q (ed_att e) (ed_att f))"

lemma sameEdit_text:
  "list_all2 (sameEdit p q) es fs \<Longrightarrow> src fs = src es \<and> dst fs = dst es \<and> inserted fs = inserted es"
  by (induction rule: list_all2_induct) (auto simp: sameEdit_def src_def dst_def inserted_def)

lemma sameEdit_known: "list_all2 (sameEdit p q) es fs \<Longrightarrow> known q fs"
  by (induction rule: list_all2_induct) (auto simp: sameEdit_def known_def renamed_def)

lemma sameEdit_ok: "list_all2 (sameEdit p q) es fs \<Longrightarrow> script_ok es \<Longrightarrow> script_ok fs"
  by (induction rule: list_all2_induct) (auto simp: sameEdit_def script_ok_def renamed_def)

lemma denotes_renamed:
  "list_all2 (opRenamed p q) os os' \<Longrightarrow> denotes os es \<Longrightarrow>
   \<exists>fs. denotes os' fs \<and> list_all2 (sameEdit p q) es fs"
proof (induction os os' arbitrary: es rule: list_all2_induct)
  case Nil
  then show ?case by simp
next
  case (Cons o1 os o2 os')
  obtain b where b: "o2 = o1\<lparr>attribs := b\<rparr>" "renamed p q (attribs o1) b"
    using Cons(1) by (auto simp: opRenamed_def)
  obtain xs ys where e: "es = xs @ ys" "covers o1 xs" "denotes os ys"
    using Cons(4) by (rule denotes_ConsE)
  obtain fs where fs: "denotes os' fs" "list_all2 (sameEdit p q) ys fs" using Cons(3) [OF e(3)] by blast
  let ?xs = "map (\<lambda>e. Edit (ed_op e) b (ed_char e)) xs"
  have "covers o2 ?xs" using e(2) by (auto simp: covers_def b(1) last_map comp_def)
  moreover have "list_all2 (sameEdit p q) xs ?xs"
    using e(2) b(2) by (auto simp: list_all2_conv_all_nth sameEdit_def covers_def)
  ultimately show ?case
    using fs by (intro exI [of _ "?xs @ fs"]) (auto simp: e(1) denotes_Cons_append list_all2_appendI)
qed

lemma upToDollar_pack:
  assumes "0 \<le> n" and "list_all lexable os"
  shows "\<exists>h. upToDollar (pack n m (encode os) bank) = h @ encode os \<and> CHR ''*'' \<notin> set h \<and>
    fromDollar (pack n m (encode os) bank) = CHR ''$'' # bank \<and>
    (\<forall>os' bank. pack n m (encode os') bank = h @ encode os' @ CHR ''$'' # bank)"
proof -
  have al: "CHR ''*'' \<notin> set (numToString k) \<and> CHR ''$'' \<notin> set (numToString k)" if "0 \<le> k" for k
    using numToString_alnum [OF that] by (auto simp: list_all_iff is_alnum_def)
  define h where "h = ''Z:'' @ numToString n @
    (if 0 \<le> m - n then ''>'' @ numToString (m - n) else ''<'' @ numToString (- (m - n)))"
  have p: "pack n m (encode os') bank = h @ encode os' @ CHR ''$'' # bank" for os' bank
    by (simp add: pack_def h_def Let_def)
  have h: "CHR ''*'' \<notin> set h \<and> CHR ''$'' \<notin> set h"
    using al [OF assms(1)] al [of "m - n"] al [of "- (m - n)"] by (auto simp: h_def)
  have nd: "CHR ''$'' \<notin> set (h @ encode os)" using h encode_no_dollar [OF assms(2)] by auto
  have eq: "pack n m (encode os) bank = (h @ encode os) @ CHR ''$'' # bank" by (simp add: p)
  have "js_indexOf (pack n m (encode os) bank) ''$'' 0 = int (length (h @ encode os))"
    unfolding js_indexOf_def eq using find_sub_append_first [OF nd] by simp
  then have d: "dollarPos (pack n m (encode os) bank) = int (length (h @ encode os))"
    by (simp add: dollarPos_def)
  have "upToDollar (pack n m (encode os) bank) = h @ encode os"
    unfolding upToDollar_def d by (subst eq) (simp add: js_substring_def Let_def)
  moreover have "fromDollar (pack n m (encode os) bank) = CHR ''$'' # bank"
    unfolding fromDollar_def d by (subst eq) (simp only: js_from_append)
  ultimately show ?thesis using h p by blast
qed

lemma canonical_denotes:
  assumes "0 \<le> n" and "list_all lexable os" and "cs_on (pack n m (encode os) bank) t es"
  shows "denotes os es \<and> script_ok es \<and> bank = inserted es \<and> on_text es t \<and> n = int (length t) \<and>
    m = int (length (result t es))"
proof -
  have "parse_ops (encode os) = Inr os"
    using opIterator_encode [OF assms(2)] by (auto intro: parse_opsI)
  with assms show ?thesis by (simp add: cs_on_def unpack_pack_encode)
qed

lemma denotes_opKnown: "denotes os es \<Longrightarrow> known p es \<Longrightarrow> script_ok es \<Longrightarrow> list_all (opKnown p) os"
proof (induction os arbitrary: es)
  case (Cons o1 os)
  from Cons.prems(1) obtain xs ys where e: "es = xs @ ys" "covers o1 xs" "denotes os ys"
    by (rule denotes_ConsE)
  have "attribs o1 = ed_att (hd xs)" "hd xs \<in> set xs" using e(2) by (auto simp: covers_def)
  then have "att_known p (attribs o1)" using Cons.prems(2) e(1) by (auto simp: known_def list_all_iff)
  moreover have "lexable o1"
    using denotes_lexable [OF Cons.prems(1,3)] by simp
  moreover have "list_all (opKnown p) os"
    using Cons e(1,3) by (auto simp: script_ok_def)
  ultimately show ?case by (simp add: opKnown_def [of p o1])
qed simp

text \<open>The operations of a changeset; those of a changeset moved to another pool are the same, one by one.\<close>

definition csOps :: "string \<Rightarrow> op list" where
  "csOps cs = projr (parse_ops (up_ops (projr (unpack cs))))"

definition sameOps :: "pool \<Rightarrow> pool \<Rightarrow> string \<Rightarrow> string \<Rightarrow> bool" where
  "sameOps p q cs cs' = list_all2 (opRenamed p q) (csOps cs) (csOps cs')"

lemma csOps_pack: "0 \<le> n \<Longrightarrow> list_all lexable os \<Longrightarrow> csOps (pack n m (encode os) bank) = os"
  using parse_opsI opIterator_encode [of os] by (fastforce simp: csOps_def unpack_pack_encode)

lemma sameOps_le:
  assumes "pool_le p q" and "cs_on c t es" and "known p es" and "sameOps p w c c'"
  shows "sameOps q w c c'"
proof -
  from assms(2) obtain os where "csOps c = os" "denotes os es" "script_ok es"
    by (elim cs_onE) (simp add: csOps_def)
  with denotes_opKnown assms(3) have "list_all (opKnown p) (csOps c)" by blast
  then show ?thesis
    unfolding sameOps_def
    by (intro list.rel_mono_strong [OF assms(4) [unfolded sameOps_def]])
      (auto simp: opRenamed_def renamed_def opKnown_def list_all_iff att_pairs_le [OF assms(1)])
qed

lemma moveOpsToNewPool_script:
  assumes c: "canonical cs" "cs_on cs t es" and p: "known p es" and q: "pool_wf q"
  shows "\<exists>cs' q' fs. moveOpsToNewPool cs p q = Inr (cs', q') \<and> pool_le q q' \<and> canonical cs' \<and>
    cs_on cs' t fs \<and> list_all2 (sameEdit p q') es fs \<and> sameOps p q' cs cs'"
proof -
  obtain n m os bank where cs: "cs = pack n m (encode os) bank" "0 \<le> n" "list_all lexable os"
    using c(1) by (auto simp: canonical_def)
  note d = canonical_denotes [OF cs(2,3) c(2) [unfolded cs(1)]]
  obtain h where h: "upToDollar cs = h @ encode os" "CHR ''*'' \<notin> set h"
    "fromDollar cs = CHR ''$'' # bank"
    "\<And>os' bank. pack n m (encode os') bank = h @ encode os' @ CHR ''$'' # bank"
    using upToDollar_pack [OF cs(2,3), of m bank] cs(1) by metis
  have k: "list_all (opKnown p) os" using denotes_opKnown [of os es p] d p by simp
  obtain os' q' where r: "replaceStars (moveOp p) (encode os) q = Inr (encode os', q')" "pool_le q q'"
    "list_all2 (opRenamed p q') os os'" using replaceStars_encode [OF k q] by blast
  have st: "stops (encode os)" by (rule op_start_stops [OF op_start_encode [OF cs(3)]])
  have m: "moveOpsToNewPool cs p q = Inr (pack n m (encode os') bank, q')"
    by (simp add: moveOpsToNewPool_def h(1,3,4) replaceStars_append [OF st]
        replaceStars_plain [OF h(2)] r(1))
  obtain fs where f: "denotes os' fs" "list_all2 (sameEdit p q') es fs"
    using denotes_renamed [OF r(3), of es] d by blast
  note t = sameEdit_text [OF f(2)]
  have ok: "script_ok fs" using sameEdit_ok [OF f(2)] d by blast
  have on: "on_text fs t" using d t by (simp add: on_text_def)
  have res: "result t fs = result t es" using t by (simp add: result_def)
  have "cs_on (pack n m (encode os') bank) t fs"
    using cs_on_pack [OF f(1) ok on] d res t by simp
  moreover have "canonical (pack n m (encode os') bank)"
    using denotes_lexable [OF f(1) ok] cs(2) by (auto simp: canonical_def)
  moreover have "sameOps p q' cs (pack n m (encode os') bank)"
    using r(3) denotes_lexable [OF f(1) ok] cs(2,3) by (simp add: sameOps_def cs(1) csOps_pack)
  ultimately show ?thesis using m r(2) f(2) by blast
qed

lemma moveOpsToNewPool_applies:
  assumes "applies p cs t t'" and "pool_wf q"
  shows "\<exists>cs' q'. moveOpsToNewPool cs p q = Inr (cs', q') \<and> pool_le q q' \<and> applies q' cs' t t'"
proof -
  obtain es where es: "canonical cs" "cs_on cs t es" "known p es" "t' = result t es"
    using assms(1) by (auto simp: applies_def)
  from moveOpsToNewPool_script [OF es(1-3) assms(2)] obtain cs' q' fs where
    m: "moveOpsToNewPool cs p q = Inr (cs', q')" "pool_le q q'" "canonical cs'" "cs_on cs' t fs"
      "list_all2 (sameEdit p q') es fs" by blast
  have "result t fs = t'" using sameEdit_text [OF m(5)] es(4) by (simp add: result_def)
  then have "applies q' cs' t t'"
    using appliesI [OF pool_le_wf [OF m(2)] m(3,4) sameEdit_known [OF m(5)]] by simp
  with m show ?thesis by blast
qed

text \<open>
  C28. A changeset survives the wire: \<open>prepareForWire\<close> writes it over a pool of its own, the pool goes
  through JSON, and the receiver's \<open>moveOpsToNewPool\<close> turns it into a changeset over his pool that
  only grows; edit by edit it is the same changeset, and what both pools say of the attributes of
  an edit is the same.
\<close>

theorem wire_roundtrip:
  assumes "canonical cs" and "cs_on cs t es" and "known p es" and "pool_wf q"
  shows "\<exists>cw w cs' q' fs gs. prepareForWire cs p = Inr (cw, w) \<and>
    moveOpsToNewPool cw (fromJsonable (toJsonable w)) q = Inr (cs', q') \<and>
    pool_le q q' \<and> cs_on cs' t gs \<and> applyToText cs' t = applyToText cs t \<and>
    list_all2 (sameEdit p w) es fs \<and> list_all2 (sameEdit w q') fs gs"
proof -
  obtain cw w fs where w: "prepareForWire cs p = Inr (cw, w)" "pool_le AttribPool w" "canonical cw"
    "cs_on cw t fs" "list_all2 (sameEdit p w) es fs"
    using moveOpsToNewPool_script [OF assms(1-3) pool_wf_empty] unfolding prepareForWire_def by blast
  let ?j = "fromJsonable (toJsonable w)"
  have j: "att_known ?j a = att_known w a" "att_pairs ?j a = att_pairs w a" for a
    by (simp_all add: att_known_def att_pairs_def json_getAttrib)
  then have k: "known ?j fs" using sameEdit_known [OF w(5)] by (simp add: known_def)
  obtain cs' q' gs where m: "moveOpsToNewPool cw ?j q = Inr (cs', q')" "pool_le q q'" "cs_on cs' t gs"
    "list_all2 (sameEdit ?j q') fs gs"
    using moveOpsToNewPool_script [OF w(3,4) k assms(4)] by blast
  have "sameEdit ?j q' = sameEdit w q'" by (intro ext) (simp add: sameEdit_def renamed_def j)
  moreover have "applyToText cs' t = applyToText cs t"
    using sameEdit_text [OF w(5)] sameEdit_text [OF m(4)] applyToText_result [OF m(3)]
      applyToText_result [OF assms(2)] by (simp add: result_def)
  ultimately show ?thesis using w m by metis
qed

theorem wire_roundtrip_witness:
  "\<exists>cw w cs' q'. prepareForWire ''Z:2>1=1*1+1$x''
      (snd (putAttrib (''i'', ''1'') False (snd (putAttrib (''b'', ''1'') False AttribPool)))) = Inr (cw, w) \<and>
    moveOpsToNewPool cw (fromJsonable (toJsonable w)) AttribPool = Inr (cs', q') \<and>
    applyToText cs' ''ab'' = Inr ''axb''"
proof -
  let ?p = "snd (putAttrib (''i'', ''1'') False (snd (putAttrib (''b'', ''1'') False AttribPool)))"
  let ?os = "[\<lparr>opcode = Keep, chars = 1, lines = 0, attribs = ''''\<rparr>,
    \<lparr>opcode = Ins, chars = 1, lines = 0, attribs = ''*1''\<rparr>]"
  let ?es = "[Edit Keep '''' CHR ''a'', Edit Ins ''*1'' CHR ''x'']"
  have "''Z:2>1=1*1+1$x'' = pack 2 3 (encode ?os) ''x'' \<and> (0::int) \<le> 2 \<and> list_all lexable ?os"
    by code_simp
  then have c: "canonical ''Z:2>1=1*1+1$x''" unfolding canonical_def by blast
  have on: "cs_on ''Z:2>1=1*1+1$x'' ''ab'' ?es" by code_simp
  have k: "known ?p ?es" by code_simp
  have "applyToText ''Z:2>1=1*1+1$x'' ''ab'' = Inr ''axb''" by code_simp
  with wire_roundtrip [OF c on k pool_wf_empty] show ?thesis by auto
qed

end
