(* ===== verification/Effects.thy ===== *)
theory Effects
  imports Wire
begin

text \<open>
  Code that keeps its state in variables and may throw: an action takes the state to its outcome
  (an error or a value) and the state it leaves behind, which is there after an exception too.
  \<open>wp m Q s\<close> says that \<open>m\<close>, started in \<open>s\<close>, returns normally and \<open>Q\<close> holds of its value and state;
  \<open>preserves I m\<close> that \<open>m\<close> keeps \<open>I\<close> however it ends.
\<close>

type_synonym ('s, 'a) act = "'s \<Rightarrow> 'a res \<times> 's"

definition ret :: "'a \<Rightarrow> ('s, 'a) act" where
  "ret x s = (Inr x, s)"

definition throwA :: "js_error \<Rightarrow> ('s, 'a) act" where
  "throwA e s = (Inl e, s)"

definition bindA :: "('s, 'a) act \<Rightarrow> ('a \<Rightarrow> ('s, 'b) act) \<Rightarrow> ('s, 'b) act" where
  "bindA m f s = (case m s of (Inl e, s') \<Rightarrow> (Inl e, s') | (Inr x, s') \<Rightarrow> f x s')"

definition thenA :: "('s, 'a) act \<Rightarrow> ('s, 'b) act \<Rightarrow> ('s, 'b) act" where
  "thenA m n = bindA m (\<lambda>_. n)"

definition getA :: "('s \<Rightarrow> 'a) \<Rightarrow> ('s, 'a) act" where
  "getA f s = (Inr (f s), s)"

definition modA :: "('s \<Rightarrow> 's) \<Rightarrow> ('s, unit) act" where
  "modA f s = (Inr (), f s)"

definition liftA :: "'a res \<Rightarrow> ('s, 'a) act" where
  "liftA r s = (r, s)"

definition whenA :: "bool \<Rightarrow> ('s, unit) act \<Rightarrow> ('s, unit) act" where
  "whenA b m = (if b then m else ret ())"

text \<open>\<open>try ... finally\<close> and \<open>try ... catch\<close>; neither runs after a loop that never ends.\<close>

definition finallyA :: "('s, 'a) act \<Rightarrow> ('s, unit) act \<Rightarrow> ('s, 'a) act" where
  "finallyA m n s =
     (case m s of
        (Inl Diverges, s') \<Rightarrow> (Inl Diverges, s')
      | (r, s') \<Rightarrow> (case n s' of (Inl e, s'') \<Rightarrow> (Inl e, s'') | (Inr _, s'') \<Rightarrow> (r, s'')))"

definition catchA :: "('s, 'a) act \<Rightarrow> (js_error \<Rightarrow> ('s, 'a) act) \<Rightarrow> ('s, 'a) act" where
  "catchA m h s =
     (case m s of
        (Inl e, s') \<Rightarrow> if e = Diverges then (Inl Diverges, s') else h e s'
      | (Inr x, s') \<Rightarrow> (Inr x, s'))"

fun forA :: "('a \<Rightarrow> ('s, unit) act) \<Rightarrow> 'a list \<Rightarrow> ('s, unit) act" where
  "forA f [] = ret ()"
| "forA f (x # xs) = thenA (f x) (forA f xs)"

subsection \<open>Returning normally\<close>

definition wp :: "('s, 'a) act \<Rightarrow> ('a \<Rightarrow> 's \<Rightarrow> bool) \<Rightarrow> 's \<Rightarrow> bool" where
  "wp m Q s = (case m s of (Inl _, _) \<Rightarrow> False | (Inr x, s') \<Rightarrow> Q x s')"

named_theorems wps \<open>weakest preconditions of the actions\<close>

lemma wp_ret [wps]: "wp (ret x) Q s = Q x s"
  by (simp add: wp_def ret_def)

lemma wp_throw [wps]: "wp (throwA e) Q s = False"
  by (simp add: wp_def throwA_def)

lemma wp_bind [wps]: "wp (bindA m f) Q = wp m (\<lambda>x. wp (f x) Q)"
  by (rule ext) (simp add: wp_def bindA_def split: prod.split sum.split)

lemma wp_then [wps]: "wp (thenA m n) Q = wp m (\<lambda>_. wp n Q)"
  by (simp add: thenA_def wp_bind)

lemma wp_get [wps]: "wp (getA f) Q s = Q (f s) s"
  by (simp add: wp_def getA_def)

lemma wp_mod [wps]: "wp (modA f) Q s = Q () (f s)"
  by (simp add: wp_def modA_def)

lemma wp_lift: "wp (liftA r) Q s = (\<exists>x. r = Inr x \<and> Q x s)"
  by (cases r) (simp_all add: wp_def liftA_def)

lemma wp_lift_Inr [wps]: "wp (liftA (Inr x)) Q s = Q x s"
  by (simp add: wp_lift)

lemma wp_when [wps]: "wp (whenA b m) Q s = (if b then wp m Q s else Q () s)"
  by (simp add: whenA_def wp_ret)

lemma wp_finally: "wp (finallyA m n) Q = wp m (\<lambda>x. wp n (\<lambda>_. Q x))"
  by (rule ext) (auto simp: wp_def finallyA_def split: prod.splits sum.splits js_error.splits)

lemma wp_catch: "wp m Q s \<Longrightarrow> wp (catchA m h) Q s"
  by (simp add: wp_def catchA_def split: prod.splits sum.splits)

lemma wp_mono: "wp m P s \<Longrightarrow> (\<And>x s'. P x s' \<Longrightarrow> Q x s') \<Longrightarrow> wp m Q s"
  by (auto simp: wp_def split: prod.splits sum.splits)

lemma wp_returns: "wp m Q s \<Longrightarrow> \<exists>x s'. m s = (Inr x, s') \<and> Q x s'"
  by (auto simp: wp_def split: prod.splits sum.splits)

lemma wp_result: "wp m Q s \<Longrightarrow> m s = (r, s') \<Longrightarrow> \<exists>x. r = Inr x \<and> Q x s'"
  by (auto simp: wp_def split: prod.splits sum.splits)

lemma wpI: "m s = (Inr x, s') \<Longrightarrow> Q x s' \<Longrightarrow> wp m Q s"
  by (simp add: wp_def)

lemma wp_forA:
  assumes "\<And>x s. x \<in> set xs \<Longrightarrow> I s \<Longrightarrow> wp (f x) (\<lambda>_. I) s" and "I s"
  shows "wp (forA f xs) (\<lambda>_. I) s"
  using assms
proof (induction xs arbitrary: s)
  case Nil
  then show ?case by (simp add: wps)
next
  case (Cons x xs)
  have "wp (f x) (\<lambda>_. I) s" using Cons.prems by simp
  then have "wp (f x) (\<lambda>_. wp (forA f xs) (\<lambda>_. I)) s"
    by (rule wp_mono) (use Cons in simp)
  then show ?case by (simp add: wps)
qed

subsection \<open>What an action keeps however it ends\<close>

definition preserves :: "('s \<Rightarrow> bool) \<Rightarrow> ('s, 'a) act \<Rightarrow> bool" where
  "preserves I m = (\<forall>s. I s \<longrightarrow> I (snd (m s)))"

named_theorems pres \<open>preservation rules\<close>

lemma preservesI: "(\<And>s. I s \<Longrightarrow> I (snd (m s))) \<Longrightarrow> preserves I m"
  by (simp add: preserves_def)

lemma preservesD: "preserves I m \<Longrightarrow> I s \<Longrightarrow> m s = (r, s') \<Longrightarrow> I s'"
  by (metis preserves_def snd_conv)

lemma preserves_basic [pres]:
  "preserves I (ret x)" "preserves I (throwA e)" "preserves I (getA g)" "preserves I (liftA r)"
  by (simp_all add: preserves_def ret_def throwA_def getA_def liftA_def)

lemma preserves_mod [pres]: "(\<And>s. I s \<Longrightarrow> I (f s)) \<Longrightarrow> preserves I (modA f)"
  by (simp add: preserves_def modA_def)

lemma preserves_bind [pres]: "preserves I m \<Longrightarrow> (\<And>x. preserves I (f x)) \<Longrightarrow> preserves I (bindA m f)"
proof (rule preservesI)
  fix s
  assume p: "preserves I m" "\<And>x. preserves I (f x)" and s: "I s"
  obtain r s' where m: "m s = (r, s')" by fastforce
  with p s have "I s'" by (auto dest: preservesD)
  with p(2) m show "I (snd (bindA m f s))"
    by (cases r) (simp_all add: bindA_def preserves_def)
qed

lemma preserves_then [pres]: "preserves I m \<Longrightarrow> preserves I n \<Longrightarrow> preserves I (thenA m n)"
  unfolding thenA_def by (rule preserves_bind)

lemma preserves_when [pres]: "preserves I m \<Longrightarrow> preserves I (whenA b m)"
  by (simp add: whenA_def preserves_basic)

lemma preserves_if [pres]: "preserves I m \<Longrightarrow> preserves I n \<Longrightarrow> preserves I (if b then m else n)"
  by simp

lemma preserves_finally [pres]: "preserves I m \<Longrightarrow> preserves I n \<Longrightarrow> preserves I (finallyA m n)"
proof (rule preservesI)
  fix s
  assume p: "preserves I m" "preserves I n" and s: "I s"
  obtain r s' r2 s2 where m: "m s = (r, s')" "n s' = (r2, s2)" by fastforce
  with p s have "I s'" "I s2" by (auto dest: preservesD)
  with m show "I (snd (finallyA m n s))"
    by (auto simp: finallyA_def split: sum.splits js_error.splits)
qed

lemma preserves_catch [pres]:
  "preserves I m \<Longrightarrow> (\<And>e. preserves I (h e)) \<Longrightarrow> preserves I (catchA m h)"
proof (rule preservesI)
  fix s
  assume p: "preserves I m" "\<And>e. preserves I (h e)" and s: "I s"
  obtain r s' where m: "m s = (r, s')" by fastforce
  with p s have "I s'" by (auto dest: preservesD)
  with p(2) m show "I (snd (catchA m h s))"
    by (cases r) (simp_all add: catchA_def preserves_def)
qed

lemma preserves_forA [pres]: "(\<And>x. preserves I (f x)) \<Longrightarrow> preserves I (forA f xs)"
  by (induction xs) (simp_all add: pres)

end
