(* ===== verification/Tracker.thy ===== *)
theory Tracker
  imports Effects
begin

text \<open>
  \<open>changesettracker.js\<close>: the client's view of the document. It keeps the last text the server has
  confirmed (\<open>baseAText\<close>), the changes submitted and not yet acknowledged, and the changes of the
  user since; \<open>applyChangesToBase\<close> takes in a change of another author.

  The editor (\<open>ace2_inner.js\<close>) is a parameter \<open>ed\<close>: what it does when \<open>withCallbacks\<close> is called and
  what its two callbacks do. It may call back into the tracker, which is why it acts on a state
  that extends the tracker's. The scheduler is the flag \<open>tr_timeout\<close> (a call of \<open>changeCallback\<close>
  is pending) and the operation \<open>timeoutFired\<close>.
\<close>

subsection \<open>State\<close>

record tracker =
  tr_base :: atext
  tr_submitted :: "string option"
  tr_user :: string
  tr_tracking :: bool
  tr_applying :: bool
  tr_callback :: bool
  tr_timeout :: bool
  tr_apool :: pool

definition makeChangesetTracker :: "pool \<Rightarrow> tracker res" where
  "makeChangesetTracker p =
     bindE (makeAText [nl] '''') (\<lambda>at.
     Inr \<lparr>tr_base = at, tr_submitted = None, tr_user = identity 1, tr_tracking = False,
          tr_applying = False, tr_callback = False, tr_timeout = False, tr_apool = p\<rparr>)"

text \<open>An optional string as a condition: neither \<open>null\<close> nor empty.\<close>

definition truthy :: "string option \<Rightarrow> bool" where
  "truthy s = (s \<noteq> None \<and> s \<noteq> Some '''')"

text \<open>A call of the changeset library with the tracker's pool, which it may extend.\<close>

definition withPool :: "(pool option \<Rightarrow> ('a \<times> pool option) res) \<Rightarrow> ('e tracker_scheme, 'a) act" where
  "withPool f s =
     (case f (Some (tr_apool s)) of
        Inl e \<Rightarrow> (Inl e, s)
      | Inr (x, p) \<Rightarrow> (Inr x, case p of None \<Rightarrow> s | Some q \<Rightarrow> s\<lparr>tr_apool := q\<rparr>))"

datatype editorCall =
    WithCallbacks string
  | SetDocumentAttributedText atext
  | ApplyChangesetToDocument string bool

type_synonym 'e editor = "editorCall \<Rightarrow> ('e tracker_scheme, unit) act"

subsection \<open>Operations\<close>

definition setChangeCallbackTimeout :: "('e tracker_scheme, unit) act" where
  "setChangeCallbackTimeout =
     modA (\<lambda>s. if tr_callback s \<and> \<not> tr_timeout s then s\<lparr>tr_timeout := True\<rparr> else s)"

text \<open>The function given to \<open>scheduler.setTimeout\<close>; \<open>notify\<close> is \<open>changeCallback\<close>.\<close>

definition timeoutFired :: "('e tracker_scheme, unit) act \<Rightarrow> ('e tracker_scheme, unit) act" where
  "timeoutFired notify = finallyA notify (modA (\<lambda>s. s\<lparr>tr_timeout := False\<rparr>))"

definition isTracking :: "('e tracker_scheme, bool) act" where
  "isTracking = getA tr_tracking"

text \<open>Moving what came over the wire into the tracker's pool, where a pool came with it.\<close>

definition fromWire :: "string \<Rightarrow> poolJson option \<Rightarrow> ('e tracker_scheme, string) act" where
  "fromWire c apoolJsonObj =
     (case apoolJsonObj of
        None \<Rightarrow> ret c
      | Some j \<Rightarrow> withPool (\<lambda>p. case p of
            None \<Rightarrow> Inl (TypeError ''null.putAttrib'')
          | Some q \<Rightarrow> bindE (moveOpsToNewPool c (fromJsonable j) q) (\<lambda>(c', q'). Inr (c', Some q'))))"

definition setBaseAttributedText ::
  "'e editor \<Rightarrow> atext \<Rightarrow> poolJson option \<Rightarrow> ('e tracker_scheme, unit) act" where
  "setBaseAttributedText ed at apoolJsonObj =
     thenA (ed (WithCallbacks ''setBaseText''))
    (thenA (modA (\<lambda>s. s\<lparr>tr_tracking := True, tr_base := cloneAText at\<rparr>))
    (bindA (fromWire (at_attribs at) apoolJsonObj) (\<lambda>att.
     thenA (modA (\<lambda>s. s\<lparr>tr_base := (tr_base s)\<lparr>at_attribs := att\<rparr>, tr_submitted := None,
                        tr_user := identity (int (length (at_text at))), tr_applying := True\<rparr>))
       (finallyA (ed (SetDocumentAttributedText at)) (modA (\<lambda>s. s\<lparr>tr_applying := False\<rparr>))))))"

definition setBaseText :: "'e editor \<Rightarrow> string \<Rightarrow> ('e tracker_scheme, unit) act" where
  "setBaseText ed text1 =
     bindA (liftA (makeAText text1 '''')) (\<lambda>at. setBaseAttributedText ed at None)"

definition composeUserChangeset :: "string \<Rightarrow> ('e tracker_scheme, unit) act" where
  "composeUserChangeset c =
     bindA (getA (\<lambda>s. \<not> tr_tracking s \<or> tr_applying s)) (\<lambda>ignored.
     if ignored then ret () else
     bindA (liftA (isIdentity c)) (\<lambda>isId.
     if isId then ret () else
     bindA (getA tr_user) (\<lambda>userChangeset.
     bindA (withPool (compose userChangeset c)) (\<lambda>u.
     thenA (modA (\<lambda>s. s\<lparr>tr_user := u\<rparr>)) setChangeCallbackTimeout))))"

text \<open>The transformation of a server change past the submitted and the user's changes.\<close>

definition transformSubmitted :: "string \<Rightarrow> ('e tracker_scheme, string) act" where
  "transformSubmitted c =
     bindA (getA tr_submitted) (\<lambda>old.
     (case old of
        None \<Rightarrow> ret c
      | Some oldSubmittedChangeset \<Rightarrow>
          if oldSubmittedChangeset = '''' then ret c else
          bindA (withPool (follow c oldSubmittedChangeset False)) (\<lambda>sub.
          thenA (modA (\<lambda>s. s\<lparr>tr_submitted := Some sub\<rparr>))
            (withPool (follow oldSubmittedChangeset c True)))))"

definition transformUser :: "string \<Rightarrow> ('e tracker_scheme, string) act" where
  "transformUser c2 =
     bindA (getA tr_user) (\<lambda>oldUserChangeset.
     bindA (withPool (follow c2 oldUserChangeset True)) (\<lambda>u.
     thenA (modA (\<lambda>s. s\<lparr>tr_user := u\<rparr>))
       (withPool (follow oldUserChangeset c2 False))))"

definition applyChangesToBase ::
  "'e editor \<Rightarrow> string \<Rightarrow> poolJson option \<Rightarrow> ('e tracker_scheme, unit) act" where
  "applyChangesToBase ed c0 apoolJsonObj =
     bindA (getA tr_tracking) (\<lambda>tracking.
     if \<not> tracking then ret () else
     thenA (ed (WithCallbacks ''applyChangesToBase''))
    (bindA (fromWire c0 apoolJsonObj) (\<lambda>c.
     bindA (getA tr_base) (\<lambda>base.
     bindA (withPool (applyToAText c base)) (\<lambda>base'.
     thenA (modA (\<lambda>s. s\<lparr>tr_base := base'\<rparr>))
    (bindA (transformSubmitted c) (\<lambda>c2.
     bindA (transformUser c2) (\<lambda>postChange.
     thenA (modA (\<lambda>s. s\<lparr>tr_applying := True\<rparr>))
       (finallyA (ed (ApplyChangesetToDocument postChange True))
          (modA (\<lambda>s. s\<lparr>tr_applying := False\<rparr>)))))))))))"

record submission =
  sm_changeset :: "string option"
  sm_apool :: "poolJson option"

definition prepareUserChangeset :: "('e tracker_scheme, submission) act" where
  "prepareUserChangeset =
     bindA (getA (\<lambda>s. (tr_submitted s, tr_user s))) (\<lambda>(submitted, user).
     bindA (if truthy submitted
            then bindA (withPool (compose (the submitted) user)) (\<lambda>c. ret (Some c))
            else bindA (liftA (isIdentity user)) (\<lambda>i. ret (if i then None else Some user))) (\<lambda>toSubmit.
     bindA (if truthy toSubmit
            then bindA (liftA (newLen (the toSubmit))) (\<lambda>n.
                 thenA (modA (\<lambda>s. s\<lparr>tr_submitted := toSubmit, tr_user := identity n\<rparr>)) (ret toSubmit))
            else ret None) (\<lambda>cs.
     bindA (getA tr_apool) (\<lambda>p.
     if truthy cs
     then bindA (liftA (prepareForWire (the cs) p)) (\<lambda>(translated, wire).
          ret \<lparr>sm_changeset = Some translated, sm_apool = Some (toJsonable wire)\<rparr>)
     else ret \<lparr>sm_changeset = cs, sm_apool = None\<rparr>))))"

definition applyPreparedChangesetToBase :: "('e tracker_scheme, unit) act" where
  "applyPreparedChangesetToBase =
     bindA (getA (\<lambda>s. (tr_submitted s, tr_base s))) (\<lambda>(submitted, base).
     if \<not> truthy submitted
     then throwA (JsError ''applySubmittedChangesToBase: no submitted changes to apply'')
     else bindA (withPool (applyToAText (the submitted) base)) (\<lambda>base'.
          modA (\<lambda>s. s\<lparr>tr_base := base', tr_submitted := None\<rparr>)))"

definition setUserChangeNotificationCallback :: "bool \<Rightarrow> ('e tracker_scheme, unit) act" where
  "setUserChangeNotificationCallback callback = modA (\<lambda>s. s\<lparr>tr_callback := callback\<rparr>)"

definition hasUncommittedChanges :: "('e tracker_scheme, bool) act" where
  "hasUncommittedChanges =
     bindA (getA (\<lambda>s. (tr_submitted s, tr_user s))) (\<lambda>(submitted, user).
     if truthy submitted then ret True
     else bindA (liftA (isIdentity user)) (\<lambda>i. ret (\<not> i)))"

subsection \<open>Attributed texts under changesets\<close>

text \<open>An attributed text whose attribution string describes its text, in a pool that knows its attributes.\<close>

definition atext_ok :: "pool \<Rightarrow> atext \<Rightarrow> bool" where
  "atext_ok p at = (\<exists>es. attribution (at_attribs at) (at_text at) es \<and> known p es)"

lemma atext_ok_le: "pool_le p q \<Longrightarrow> atext_ok p at \<Longrightarrow> atext_ok q at"
  using known_le unfolding atext_ok_def by blast

lemma applyToAText_ok:
  assumes "applies p c (at_text at) t'" and "atext_ok p at"
  shows "\<exists>at' q. applyToAText c at (Some p) = Inr (at', Some q) \<and> pool_le p q \<and>
    at_text at' = t' \<and> atext_ok q at'"
proof -
  obtain es where es: "cs_on c (at_text at) es" "known p es" "t' = result (at_text at) es" "pool_wf p"
    using assms(1) by (auto simp: applies_def)
  obtain fs where fs: "attribution (at_attribs at) (at_text at) fs" "known p fs"
    using assms(2) by (auto simp: atext_ok_def)
  obtain astr q gs where a: "applyToAttribution c (at_attribs at) (Some p) = Inr (astr, Some q)"
    "pool_le p q" "known q gs" "no_NoOp gs" "attribution astr t' (smart_norm gs)"
    using applyToAttribution_script [OF fs(1) es(1,4) fs(2) es(2)] es(3) by metis
  have "known q (smart_norm gs)"
    using smart_norm_text [OF a(4)] a(3) by (auto simp: known_def list_all_iff)
  with a applies_text [OF assms(1)] show ?thesis
    by (auto simp: applyToAText_def atext_ok_def)
qed

lemma applies_identity: "pool_wf p \<Longrightarrow> applies p (identity (int (length t))) t t"
proof -
  assume wf: "pool_wf p"
  have "cs_on (pack (int (length t)) (int (length (result t []))) (encode []) (inserted [])) t []"
    by (rule cs_on_pack) (simp_all add: script_ok_def on_text_def src_def)
  then have "cs_on (identity (int (length t))) t []"
    by (simp add: identity_def result_def inserted_def dst_def src_def)
  moreover have "canonical (identity (int (length t)))"
    unfolding canonical_def identity_def
    by (rule exI [of _ "int (length t)"], rule exI [of _ "int (length t)"], rule exI [of _ "[]"],
        rule exI [of _ "[]"]) simp
  ultimately have "applies p (identity (int (length t))) t (result t [])"
    using appliesI [OF wf] by (simp add: known_def)
  then show ?thesis by (simp add: result_def dst_def src_def)
qed

lemma isIdentity_applies:
  assumes "applies p c t t'"
  shows "\<exists>b. isIdentity c = Inr b \<and> (b \<longrightarrow> t' = t)"
proof -
  obtain es where es: "cs_on c t es" "t' = result t es" using assms by (auto simp: applies_def)
  from es(1) obtain os where u: "unpack c = Inr \<lparr>up_oldLen = int (length t),
      up_newLen = int (length (result t es)), up_ops = up_ops (projr (unpack c)), up_charBank = inserted es\<rparr>"
    and os: "parse_ops (up_ops (projr (unpack c))) = Inr os" "denotes os es" by (rule cs_onE)
  have "es = []" if "up_ops (projr (unpack c)) = ''''"
  proof -
    have "parse_ops [] = Inr []" using opIterator_encode [of "[]"] by (auto intro: parse_opsI)
    with os that show ?thesis by simp
  qed
  then have "up_ops (projr (unpack c)) = '''' \<longrightarrow> t' = t"
    using es(2) by (auto simp: result_def dst_def src_def)
  moreover obtain u' where u': "unpack c = Inr u'" using u by blast
  ultimately show ?thesis by (auto simp: isIdentity_def)
qed

lemma newLen_applies: "applies p c t t' \<Longrightarrow> newLen c = Inr (int (length t'))"
proof -
  assume "applies p c t t'"
  then obtain es where es: "cs_on c t es" "t' = result t es" by (auto simp: applies_def)
  then obtain u where "unpack c = Inr u" "up_newLen u = int (length t')"
    by (auto simp: cs_on_def split: sum.splits)
  then show ?thesis by (simp add: newLen_def)
qed

lemma applies_truthy: "applies p c t t' \<Longrightarrow> truthy (Some c)"
  by (auto simp: applies_def canonical_def pack_def truthy_def Let_def)

lemma fold_followIn: "follow a b r (Some p) = Inr (c, Some q) \<longleftrightarrow> followIn a b r p = Inr (c, q)"
  by (simp add: followIn_def)

lemma fold_composeIn: "compose a b (Some p) = Inr (c, Some q) \<longleftrightarrow> composeIn a b p = Inr (c, q)"
  by (simp add: composeIn_def)

subsection \<open>The invariant of a client\<close>

text \<open>
  \<open>consistent s d\<close>: the base text with the submitted changes and then the user's changes on it is
  \<open>d\<close>, the document in the editor.
\<close>

definition pending :: "'e tracker_scheme \<Rightarrow> string \<Rightarrow> bool" where
  "pending s m =
     (case tr_submitted s of
        None \<Rightarrow> m = at_text (tr_base s)
      | Some c \<Rightarrow> applies (tr_apool s) c (at_text (tr_base s)) m)"

definition consistent :: "'e tracker_scheme \<Rightarrow> string \<Rightarrow> bool" where
  "consistent s d = (tr_tracking s \<and> \<not> tr_applying s \<and> pool_wf (tr_apool s) \<and>
     atext_ok (tr_apool s) (tr_base s) \<and> (\<exists>m. pending s m \<and> applies (tr_apool s) (tr_user s) m d))"

lemma wp_withPool:
  "f (Some (tr_apool s)) = Inr (x, Some q) \<Longrightarrow> wp (withPool f) Q s = Q x (s\<lparr>tr_apool := q\<rparr>)"
  by (simp add: wp_def withPool_def)

lemma wp_follow:
  "followIn a b r (tr_apool s) = Inr (c, q) \<Longrightarrow> wp (withPool (follow a b r)) Q s = Q c (s\<lparr>tr_apool := q\<rparr>)"
  by (rule wp_withPool) (simp add: followIn_def)

lemma wp_compose:
  "composeIn a b (tr_apool s) = Inr (c, q) \<Longrightarrow> wp (withPool (compose a b)) Q s = Q c (s\<lparr>tr_apool := q\<rparr>)"
  by (rule wp_withPool) (simp add: composeIn_def)

text \<open>An editor that holds the document as a text and reports every change it makes to the tracker.\<close>

record doc_tracker = tracker + dt_doc :: string

primrec docEditor :: "editorCall \<Rightarrow> (doc_tracker, unit) act" where
  "docEditor (WithCallbacks name) = ret ()"
| "docEditor (SetDocumentAttributedText at) = modA (\<lambda>s. s\<lparr>dt_doc := at_text at\<rparr>)"
| "docEditor (ApplyChangesetToDocument cs insertsAfterSelection) =
     bindA (getA dt_doc) (\<lambda>d. bindA (liftA (applyToText cs d)) (\<lambda>d'.
     thenA (modA (\<lambda>s. s\<lparr>dt_doc := d'\<rparr>)) (composeUserChangeset cs)))"

text \<open>A change the user makes in the editor.\<close>

definition userEdit :: "string \<Rightarrow> (doc_tracker, unit) act" where
  "userEdit c =
     bindA (getA dt_doc) (\<lambda>d. bindA (liftA (applyToText c d)) (\<lambda>d'.
     thenA (modA (\<lambda>s. s\<lparr>dt_doc := d'\<rparr>)) (composeUserChangeset c)))"

lemma composeUserChangeset_ignored: "tr_applying s \<Longrightarrow> wp (composeUserChangeset c) Q s = Q () s"
  by (simp add: composeUserChangeset_def wps)

lemma composeUserChangeset_wp:
  assumes c: "consistent s d" and a: "applies (tr_apool s) c d d'"
  shows "wp (composeUserChangeset c) (\<lambda>_ s'. consistent s' d' \<and> tr_base s' = tr_base s) s"
proof -
  obtain m where m: "pending s m" "applies (tr_apool s) (tr_user s) m d"
    using c by (auto simp: consistent_def)
  obtain b where b: "isIdentity c = Inr b" "b \<longrightarrow> d' = d" using isIdentity_applies [OF a] by blast
  obtain u q where u: "composeIn (tr_user s) c (tr_apool s) = Inr (u, q)" "pool_le (tr_apool s) q"
    "applies q u m d'"
    using ot.com_applies [OF m(2) a] c by (auto simp: consistent_def)
  have "pending (s\<lparr>tr_apool := q, tr_user := u, tr_timeout := x\<rparr>) m" for x
    using m(1) applies_pool_le [OF u(2)] by (auto simp: pending_def split: option.splits)
  then have "consistent (s\<lparr>tr_apool := q, tr_user := u, tr_timeout := x\<rparr>) d'" for x
    using c u(3) pool_le_wf [OF u(2)] atext_ok_le [OF u(2)] by (auto simp: consistent_def)
  note cons = this [of True] this [of "tr_timeout s"]
  show ?thesis
    using c b cons
    by (auto simp: composeUserChangeset_def wps wp_compose [OF u(1)] setChangeCallbackTimeout_def
        consistent_def)
qed

subsection \<open>A change from the server\<close>

text \<open>The server's change \<open>c\<close> takes the text \<open>b\<close> to \<open>b'\<close>, in the pool it came with or in the tracker's own.\<close>

definition incoming :: "pool \<Rightarrow> string \<Rightarrow> poolJson option \<Rightarrow> string \<Rightarrow> string \<Rightarrow> bool" where
  "incoming p c j b b' =
     (case j of None \<Rightarrow> applies p c b b' | Some js \<Rightarrow> applies (fromJsonable js) c b b')"

lemma fromWire_wp:
  assumes "incoming (tr_apool s) c j b b'" and wf: "pool_wf (tr_apool s)"
    and Q: "\<And>c' q. pool_le (tr_apool s) q \<Longrightarrow> applies q c' b b' \<Longrightarrow>
      \<forall>js. j = Some js \<longrightarrow> moveOpsToNewPool c (fromJsonable js) (tr_apool s) = Inr (c', q) \<Longrightarrow> Q c' (s\<lparr>tr_apool := q\<rparr>)"
  shows "wp (fromWire c j) Q s"
proof (cases j)
  case None
  have "Q c (s\<lparr>tr_apool := tr_apool s\<rparr>)"
    using assms(1) None by (intro Q pool_le_refl wf) (simp_all add: incoming_def)
  then show ?thesis using None by (simp add: fromWire_def wps)
next
  case (Some js)
  then have a: "applies (fromJsonable js) c b b'" using assms(1) by (simp add: incoming_def)
  from moveOpsToNewPool_applies [OF a wf] obtain c' q where
    m: "moveOpsToNewPool c (fromJsonable js) (tr_apool s) = Inr (c', q)" "pool_le (tr_apool s) q"
      "applies q c' b b'" by blast
  have "Q c' (s\<lparr>tr_apool := q\<rparr>)" by (rule Q [OF m(2,3)]) (simp add: Some m(1))
  then show ?thesis using m(1) by (simp add: fromWire_def Some wp_def withPool_def)
qed

text \<open>
  \<open>followed c sub p sub' p'\<close>: what was submitted has been carried over \<open>c\<close>, and the pool has grown since.
\<close>

definition followed :: "string \<Rightarrow> string option \<Rightarrow> pool \<Rightarrow> string option \<Rightarrow> pool \<Rightarrow> bool" where
  "followed c sub p sub' p' = (\<forall>x. sub = Some x \<longrightarrow>
     (\<exists>y q. followIn c x False p = Inr (y, q) \<and> pool_le q p' \<and> sub' = Some y))"

text \<open>
  The two transformations: afterwards the new submitted change starts at the new base, the user's
  change on top of it, and \<open>postChange\<close> leads from the user's old document to the new one.
\<close>

lemma transform_wp:
  assumes wf: "pool_wf (tr_apool s)" and c: "applies (tr_apool s) c b b'"
    and m: "(case tr_submitted s of None \<Rightarrow> m = b | Some sub \<Rightarrow> applies (tr_apool s) sub b m)"
    and u: "applies (tr_apool s) (tr_user s) m d"
    and Q: "\<And>post sub u q m' d'. pool_le (tr_apool s) q \<Longrightarrow>
      (sub = None) = (tr_submitted s = None) \<Longrightarrow> followed c (tr_submitted s) (tr_apool s) sub q \<Longrightarrow>
      (case sub of None \<Rightarrow> m' = b' | Some x \<Rightarrow> applies q x b' m') \<Longrightarrow> applies q u m' d' \<Longrightarrow>
      applies q post d d' \<Longrightarrow> Q post (s\<lparr>tr_submitted := sub, tr_user := u, tr_apool := q\<rparr>)"
  shows "wp (bindA (transformSubmitted c) transformUser) Q s"
proof (cases "tr_submitted s")
  case None
  with m have m: "m = b" by simp
  obtain u' p1 post p2 d' where f: "followIn c (tr_user s) True (tr_apool s) = Inr (u', p1)"
    "applies p1 u' b' d'" "followIn (tr_user s) c False p1 = Inr (post, p2)"
    "applies p2 post d d'" and le0: "pool_wf (tr_apool s) \<longrightarrow> pool_le (tr_apool s) p1"
    "pool_wf p1 \<longrightarrow> pool_le p1 p2"
    using ot.fol_both [OF c u [unfolded m], of True] by (metis (full_types))
  have le: "pool_le (tr_apool s) p1" "pool_le p1 p2" using le0 wf pool_le_wf by blast+
  have "Q post (s\<lparr>tr_submitted := None, tr_user := u', tr_apool := p2\<rparr>)"
    by (rule Q [where sub = None and m' = b' and d' = d', OF pool_le_trans [OF le]])
      (simp_all add: applies_pool_le [OF le(2) f(2)] f(4) None followed_def)
  moreover have "s\<lparr>tr_submitted := None, tr_user := u', tr_apool := p2\<rparr> =
      s\<lparr>tr_user := u', tr_apool := p2\<rparr>" using None by (cases s) simp
  ultimately have "Q post (s\<lparr>tr_user := u', tr_apool := p2\<rparr>)" by simp
  with None show ?thesis
    by (simp add: transformSubmitted_def transformUser_def wps wp_follow [OF f(1)]
        wp_follow [where s = "tr_user_update f t" for f t] wp_follow f(3))
next
  case (Some sub)
  with m have a: "applies (tr_apool s) sub b m" by simp
  have ne: "sub \<noteq> ''''" using applies_truthy [OF a] by (simp add: truthy_def)
  obtain sub' p1 c2 p2 u' p3 post p4 m' d' where
    f: "followIn c sub False (tr_apool s) = Inr (sub', p1)" "followIn sub c True p1 = Inr (c2, p2)"
      "followIn c2 (tr_user s) True p2 = Inr (u', p3)" "followIn (tr_user s) c2 False p3 = Inr (post, p4)"
      "pool_wf (tr_apool s) \<longrightarrow> pool_le (tr_apool s) p1" "pool_wf p1 \<longrightarrow> pool_le p1 p4"
      "pool_wf (tr_apool s) \<longrightarrow> pool_le (tr_apool s) p4" "applies p4 sub' b' m'" "applies p4 u' m' d'"
      "applies p4 post d d'"
    using ot.client_step [OF c a u, of False True] by auto
  have "Q post (s\<lparr>tr_submitted := Some sub', tr_user := u', tr_apool := p4\<rparr>)"
    by (rule Q) (use f(1,5-10) wf pool_le_wf Some in \<open>simp_all add: followed_def\<close>)
  with Some ne show ?thesis
    by (simp add: transformSubmitted_def transformUser_def wps wp_follow f(1-4))
qed

lemma consistent_frame [simp]:
  "consistent (s\<lparr>dt_doc := x\<rparr>) d = consistent s d"
  "consistent (t\<lparr>tr_timeout := y\<rparr>) d = consistent t d"
  "consistent (t\<lparr>tr_callback := y\<rparr>) d = consistent t d"
  by (simp_all add: consistent_def pending_def split: option.split)

lemma consistentE:
  assumes "consistent s d"
  obtains m where "tr_tracking s" "\<not> tr_applying s" "pool_wf (tr_apool s)"
    "atext_ok (tr_apool s) (tr_base s)" "pending s m" "applies (tr_apool s) (tr_user s) m d"
  using assms by (auto simp: consistent_def)

text \<open>\<open>carried c j s s'\<close>: so it is after a change \<open>c\<close> over the pool \<open>j\<close> has come over the wire.\<close>

definition carried :: "string \<Rightarrow> poolJson option \<Rightarrow> 'e tracker_scheme \<Rightarrow> 'e tracker_scheme \<Rightarrow> bool" where
  "carried c j s s' = (\<forall>js. j = Some js \<longrightarrow>
     (\<exists>c' q q'. moveOpsToNewPool c (fromJsonable js) (tr_apool s) = Inr (c', q) \<and> pool_le q q' \<and>
       followed c' (tr_submitted s) q' (tr_submitted s') (tr_apool s')))"

lemma applyChangesToBase_wp:
  assumes c: "consistent s (dt_doc s)" and i: "incoming (tr_apool s) cs j (at_text (tr_base s)) b'"
  shows "wp (applyChangesToBase docEditor cs j)
    (\<lambda>_ s'. consistent s' (dt_doc s') \<and> at_text (tr_base s') = b' \<and>
       (tr_submitted s' = None) = (tr_submitted s = None) \<and> carried cs j s s') s"
proof -
  obtain m where inv: "tr_tracking s" "\<not> tr_applying s" "pool_wf (tr_apool s)"
    "atext_ok (tr_apool s) (tr_base s)" "pending s m" "applies (tr_apool s) (tr_user s) m (dt_doc s)"
    using c by (rule consistentE)
  let ?Q = "\<lambda>_ s'. consistent s' (dt_doc s') \<and> at_text (tr_base s') = b' \<and>
    (tr_submitted s' = None) = (tr_submitted s = None) \<and> carried cs j s s'"
  let ?k = "\<lambda>post. thenA (modA (\<lambda>s. s\<lparr>tr_applying := True\<rparr>))
    (finallyA (docEditor (ApplyChangesetToDocument post True)) (modA (\<lambda>s. s\<lparr>tr_applying := False\<rparr>)))"
  have "wp (fromWire cs j) (\<lambda>c. wp (bindA (getA tr_base) (\<lambda>base.
     bindA (withPool (applyToAText c base)) (\<lambda>base'.
     thenA (modA (\<lambda>s. s\<lparr>tr_base := base'\<rparr>))
    (bindA (transformSubmitted c) (\<lambda>c2. bindA (transformUser c2) ?k)))) ) ?Q) s"
  proof (rule fromWire_wp [OF i inv(3)])
    fix c q
    assume q: "pool_le (tr_apool s) q" "applies q c (at_text (tr_base s)) b'"
      "\<forall>js. j = Some js \<longrightarrow> moveOpsToNewPool cs (fromJsonable js) (tr_apool s) = Inr (c, q)"
    obtain base' q' where b: "applyToAText c (tr_base s) (Some q) = Inr (base', Some q')" "pool_le q q'"
      "at_text base' = b'" "atext_ok q' base'"
      using applyToAText_ok [OF q(2) atext_ok_le [OF q(1) inv(4)]] by blast
    have le: "pool_le (tr_apool s) q'" using pool_le_trans [OF q(1) b(2)] .
    let ?s = "s\<lparr>tr_apool := q', tr_base := base'\<rparr>"
    have "wp (bindA (transformSubmitted c) transformUser) (\<lambda>post. wp (?k post) ?Q) ?s"
    proof (rule transform_wp)
      show "pool_wf (tr_apool ?s)" using pool_le_wf [OF b(2)] by simp
      show "applies (tr_apool ?s) c (at_text (tr_base s)) b'" using applies_pool_le [OF b(2) q(2)] by simp
      show "case tr_submitted ?s of None \<Rightarrow> m = at_text (tr_base s)
          | Some sub \<Rightarrow> applies (tr_apool ?s) sub (at_text (tr_base s)) m"
        using inv(5) applies_pool_le [OF le] by (auto simp: pending_def split: option.splits)
      show "applies (tr_apool ?s) (tr_user ?s) m (dt_doc s)" using applies_pool_le [OF le inv(6)] by simp
    next
      fix post sub u q2 m' d'
      assume e: "pool_le (tr_apool ?s) q2" "(sub = None) = (tr_submitted ?s = None)"
        "followed c (tr_submitted ?s) (tr_apool ?s) sub q2" "case sub of None \<Rightarrow> m' = b' | Some x \<Rightarrow> applies q2 x b' m'"
        "applies q2 u m' d'" "applies q2 post (dt_doc s) d'"
      have "consistent (?s\<lparr>tr_submitted := sub, tr_user := u, tr_apool := q2, dt_doc := d',
          tr_applying := False\<rparr>) d'"
        using e(1,4,5) inv(1) b(3,4) pool_le_wf [OF e(1)] atext_ok_le [OF e(1)]
        by (cases sub) (auto simp: consistent_def pending_def)
      moreover have "carried cs j s (?s\<lparr>tr_submitted := sub, tr_user := u, tr_apool := q2, dt_doc := d',
          tr_applying := False\<rparr>)"
        using q(3) b(2) e(3) by (auto simp: carried_def)
      ultimately show "wp (?k post) ?Q (?s\<lparr>tr_submitted := sub, tr_user := u, tr_apool := q2\<rparr>)"
        using e(2) b(3) applies_text [OF e(6)]
        by (simp add: wps wp_finally composeUserChangeset_ignored)
    qed
    then show "wp (bindA (getA tr_base) (\<lambda>base.
       bindA (withPool (applyToAText c base)) (\<lambda>base'.
       thenA (modA (\<lambda>s. s\<lparr>tr_base := base'\<rparr>))
      (bindA (transformSubmitted c) (\<lambda>c2. bindA (transformUser c2) ?k)))) ) ?Q (s\<lparr>tr_apool := q\<rparr>)"
      using b(1) by (simp add: wps wp_withPool)
  qed
  then show ?thesis by (simp add: applyChangesToBase_def wps inv(1))
qed

lemma composeUserChangeset_keeps_doc:
  "dt_doc (snd (composeUserChangeset c s)) = dt_doc s"
  by (simp add: composeUserChangeset_def bindA_def thenA_def getA_def liftA_def modA_def ret_def
      withPool_def setChangeCallbackTimeout_def split: prod.split sum.split option.split)

lemma userEdit_wp:
  assumes c: "consistent s (dt_doc s)" and a: "applies (tr_apool s) cs (dt_doc s) d'"
  shows "wp (userEdit cs) (\<lambda>_ s'. consistent s' (dt_doc s') \<and> dt_doc s' = d' \<and> tr_base s' = tr_base s) s"
proof -
  have "consistent (s\<lparr>dt_doc := d'\<rparr>) (dt_doc s)" using c by simp
  moreover have "applies (tr_apool (s\<lparr>dt_doc := d'\<rparr>)) cs (dt_doc s) d'" using a by simp
  ultimately have "wp (composeUserChangeset cs) (\<lambda>_ s'. consistent s' d' \<and> tr_base s' = tr_base s)
      (s\<lparr>dt_doc := d'\<rparr>)" using composeUserChangeset_wp by fastforce
  moreover have "dt_doc (snd (composeUserChangeset cs (s\<lparr>dt_doc := d'\<rparr>))) = d'"
    by (simp add: composeUserChangeset_keeps_doc)
  ultimately have "wp (composeUserChangeset cs) (\<lambda>_ s'. consistent s' (dt_doc s') \<and> dt_doc s' = d' \<and>
      tr_base s' = tr_base s) (s\<lparr>dt_doc := d'\<rparr>)"
    by (auto simp: wp_def split: prod.splits sum.splits)
  then show ?thesis by (simp add: userEdit_def wps applies_text [OF a])
qed

text \<open>What is submitted: a changeset that, moved into any pool, leads from the base to the text with the submission.\<close>

definition submits :: "submission \<Rightarrow> string \<Rightarrow> string \<Rightarrow> bool" where
  "submits d b m =
     (case (sm_changeset d, sm_apool d) of
        (Some c, Some j) \<Rightarrow> applies (fromJsonable j) c b m
      | (None, None) \<Rightarrow> m = b
      | _ \<Rightarrow> False)"

lemma applies_json: "pool_wf w \<Longrightarrow> applies w c t t' \<Longrightarrow> applies (fromJsonable (toJsonable w)) c t t'"
  using pool_json_wf json_getAttrib
  by (auto simp: applies_def known_def att_known_def)

lemma prepare_wp:
  assumes c: "consistent s d"
  shows "wp prepareUserChangeset (\<lambda>r s'. consistent s' d \<and> tr_base s' = tr_base s \<and>
    submits r (at_text (tr_base s)) d \<and> (sm_changeset r = None \<longrightarrow> tr_submitted s' = None) \<and>
    isIdentity (tr_user s') = Inr True) s"
proof -
  obtain m where inv: "tr_tracking s" "\<not> tr_applying s" "pool_wf (tr_apool s)"
    "atext_ok (tr_apool s) (tr_base s)" "pending s m" "applies (tr_apool s) (tr_user s) m d"
    using c by (rule consistentE)
  let ?b = "at_text (tr_base s)"
  have wire: "\<exists>cw w. prepareForWire c q = Inr (cw, w) \<and> applies (fromJsonable (toJsonable w)) cw ?b d"
    if "applies q c ?b d" for c q
    using moveOpsToNewPool_applies [OF that pool_wf_empty] applies_json pool_le_wf
    unfolding prepareForWire_def by blast
  have idd: "isIdentity (identity (int (length d))) = Inr True" if "pool_wf q" for q
    using unpack_pack_encode [of "int (length d)" "[]" "int (length d)" "[]"]
    by (simp add: isIdentity_def identity_def)
  have step: "consistent (s\<lparr>tr_apool := q, tr_submitted := Some c, tr_user := identity (int (length d))\<rparr>) d"
    if "pool_le (tr_apool s) q" "applies q c ?b d" for q c
    using inv that applies_identity [OF pool_le_wf [OF that(1)]] pool_le_wf [OF that(1)]
      atext_ok_le [OF that(1)] by (auto simp: consistent_def pending_def)
  show ?thesis
  proof (cases "tr_submitted s")
    case None
    with inv(5) have m: "m = ?b" by (simp add: pending_def)
    obtain b where b: "isIdentity (tr_user s) = Inr b" "b \<longrightarrow> d = m" using isIdentity_applies [OF inv(6)] by blast
    obtain cw w where w: "prepareForWire (tr_user s) (tr_apool s) = Inr (cw, w)"
      "applies (fromJsonable (toJsonable w)) cw ?b d" using wire inv(6) m by blast
    have "consistent (s\<lparr>tr_submitted := Some (tr_user s), tr_user := identity (int (length d))\<rparr>) d"
      using step [OF pool_le_refl [OF inv(3)]] inv(6) m by simp
    with b c w m None applies_truthy [OF inv(6)] newLen_applies [OF inv(6)] idd [OF inv(3)] show ?thesis
      by (cases b) (simp_all add: prepareUserChangeset_def wps submits_def truthy_def)
  next
    case (Some sub)
    with inv(5) have "applies (tr_apool s) sub ?b m" by (simp add: pending_def)
    then obtain cs q where f: "composeIn sub (tr_user s) (tr_apool s) = Inr (cs, q)" "pool_le (tr_apool s) q"
      "applies q cs ?b d" using ot.com_applies [OF _ inv(6)] inv(3) by blast
    obtain cw w where w: "prepareForWire cs q = Inr (cw, w)"
      "applies (fromJsonable (toJsonable w)) cw ?b d" using wire [OF f(3)] by blast
    have t: "truthy (tr_submitted s)" "truthy (Some cs)"
      using \<open>applies _ sub _ _\<close> applies_truthy f(3) Some by auto
    show ?thesis
      using Some t w step [OF f(2,3)] newLen_applies [OF f(3)] idd [OF inv(3)]
      by (simp add: prepareUserChangeset_def wps wp_compose [OF f(1)] submits_def)
  qed
qed

lemma applyPrepared_wp:
  assumes c: "consistent s d" and sub: "tr_submitted s \<noteq> None"
  shows "wp applyPreparedChangesetToBase (\<lambda>_ s'. consistent s' d \<and> tr_submitted s' = None \<and>
    pending s (at_text (tr_base s')) \<and> tr_user s' = tr_user s) s"
proof -
  obtain m where inv: "tr_tracking s" "\<not> tr_applying s" "pool_wf (tr_apool s)"
    "atext_ok (tr_apool s) (tr_base s)" "pending s m" "applies (tr_apool s) (tr_user s) m d"
    using c by (rule consistentE)
  obtain x where x: "tr_submitted s = Some x" using sub by blast
  with inv(5) have a: "applies (tr_apool s) x (at_text (tr_base s)) m" by (simp add: pending_def)
  obtain base' q where b: "applyToAText x (tr_base s) (Some (tr_apool s)) = Inr (base', Some q)"
    "pool_le (tr_apool s) q" "at_text base' = m" "atext_ok q base'"
    using applyToAText_ok [OF a inv(4)] by blast
  have "consistent (s\<lparr>tr_apool := q, tr_base := base', tr_submitted := None\<rparr>) d"
    using inv(1,2) b pool_le_wf [OF b(2)] applies_pool_le [OF b(2) inv(6)]
    by (auto simp: consistent_def pending_def)
  then show ?thesis
    using x applies_truthy [OF a] inv(5) b(1,3)
    by (simp add: applyPreparedChangesetToBase_def wps wp_withPool)
qed

lemma cloneAText_same [simp]: "cloneAText at = at"
  by (cases at) (simp add: cloneAText_def)

lemma setBase_wp:
  assumes wf: "pool_wf (tr_apool s)" and a: "atext_ok (tr_apool s) at"
  shows "wp (setBaseAttributedText docEditor at None)
    (\<lambda>_ s'. consistent s' (dt_doc s') \<and> dt_doc s' = at_text at \<and> at_text (tr_base s') = at_text at \<and>
       tr_submitted s' = None) s"
proof -
  have "consistent (s\<lparr>tr_tracking := True, tr_base := at, tr_submitted := None,
      tr_user := identity (int (length (at_text at))), dt_doc := at_text at, tr_applying := False\<rparr>) (at_text at)"
    using assms applies_identity [OF wf, of "at_text at"]
    by (auto simp: consistent_def pending_def)
  then show ?thesis
    by (simp add: setBaseAttributedText_def wps wp_finally fromWire_def)
qed

subsection \<open>Runs of a client\<close>

text \<open>
  A client starts from the server's text; then, in any order, the user edits, changes of other
  authors arrive, submissions are prepared and acknowledged, and callbacks are set and fire. Each
  event that the network or the user brings is legitimate (a change is a change of the text it is
  for); how the operations end is not assumed.
\<close>

inductive clientStep :: "doc_tracker \<Rightarrow> doc_tracker \<Rightarrow> bool" where
  edit: "clientStep s s'"
    if "applies (tr_apool s) cs (dt_doc s) d'" and "userEdit cs s = (r, s')"
| receive: "clientStep s s'"
    if "incoming (tr_apool s) cs j (at_text (tr_base s)) b'" and "applyChangesToBase docEditor cs j s = (r, s')"
| prepare: "clientStep s s'" if "prepareUserChangeset s = (r2, s')"
| acknowledge: "clientStep s s'"
    if "tr_submitted s \<noteq> None" and "applyPreparedChangesetToBase s = (r, s')"
| fire: "clientStep s s'" if "timeoutFired (ret ()) s = (r, s')"
| listen: "clientStep s s'" if "setUserChangeNotificationCallback b s = (r, s')"

inductive client :: "doc_tracker \<Rightarrow> bool" where
  start: "client s"
    if "pool_wf (tr_apool s0)" and "atext_ok (tr_apool s0) at"
      and "setBaseAttributedText docEditor at None s0 = (r, s)"
| step: "client s'" if "client s" and "clientStep s s'"

lemma clientStep_consistent:
  assumes "clientStep s s'" and c: "consistent s (dt_doc s)"
  shows "consistent s' (dt_doc s')"
  using assms(1)
proof cases
  case (edit cs d' r)
  with userEdit_wp [OF c edit(1)] show ?thesis by (auto dest: wp_result)
next
  case (receive cs j b' r)
  with applyChangesToBase_wp [OF c receive(1)] show ?thesis by (auto dest: wp_result)
next
  case (prepare r2)
  have "dt_doc s' = dt_doc s"
    using prepare by (auto simp: prepareUserChangeset_def bindA_def thenA_def getA_def liftA_def modA_def
        ret_def withPool_def split: prod.splits sum.splits option.splits if_splits)
  with prepare prepare_wp [OF c] show ?thesis by (auto dest: wp_result)
next
  case (acknowledge r)
  have "dt_doc s' = dt_doc s"
    using acknowledge(2) by (auto simp: applyPreparedChangesetToBase_def bindA_def thenA_def getA_def
        throwA_def modA_def withPool_def split: prod.splits sum.splits option.splits if_splits)
  with acknowledge(2) applyPrepared_wp [OF c acknowledge(1)] show ?thesis by (auto dest: wp_result)
next
  case (fire r)
  then have "s' = s\<lparr>tr_timeout := False\<rparr>"
    by (simp add: timeoutFired_def finallyA_def modA_def ret_def)
  with c show ?thesis by simp
next
  case (listen b r)
  then have "s' = s\<lparr>tr_callback := b\<rparr>" by (simp add: setUserChangeNotificationCallback_def modA_def)
  with c show ?thesis by simp
qed

lemma client_consistent: "client s \<Longrightarrow> consistent s (dt_doc s)"
proof (induction rule: client.induct)
  case (start s0 at r s)
  with setBase_wp [OF start(1,2)] show ?case by (auto dest: wp_result)
next
  case (step s s')
  then show ?case using clientStep_consistent by blast
qed

text \<open>
  C9. However the user's edits, the changes of others, submissions and acknowledgements interleave,
  the document in the editor is the base text with the submitted and the unsubmitted changes
  applied to it in turn.
\<close>

theorem client_document:
  assumes "client s"
  shows "\<exists>m. (case tr_submitted s of None \<Rightarrow> m = at_text (tr_base s)
      | Some c \<Rightarrow> applyToText c (at_text (tr_base s)) = Inr m) \<and>
    applyToText (tr_user s) m = Inr (dt_doc s)"
  using client_consistent [OF assms]
proof (rule consistentE)
  fix m
  assume "pending s m" and a: "applies (tr_apool s) (tr_user s) m (dt_doc s)"
  then show ?thesis
    using applies_text by (intro exI [of _ m]) (auto simp: pending_def split: option.splits)
qed

text \<open>
  C13. A change of another author never fails to go in: \<open>applyChangesToBase\<close> returns, the base text is
  the server's new text, the changes in flight are still in flight, and the editor's document is
  again the base with the client's changes on it.
\<close>

theorem applyChangesToBase_succeeds:
  assumes "client s" and "incoming (tr_apool s) cs j (at_text (tr_base s)) b'"
  shows "\<exists>s'. applyChangesToBase docEditor cs j s = (Inr (), s') \<and> at_text (tr_base s') = b' \<and>
    (tr_submitted s' = None) = (tr_submitted s = None) \<and> consistent s' (dt_doc s')"
  using wp_returns [OF applyChangesToBase_wp [OF client_consistent [OF assms(1)] assms(2)]] by auto

text \<open>
  C27. \<open>prepareUserChangeset\<close> returns a changeset over the pool sent with it that leads from the base
  text to the whole document of the editor (or nothing, where they are equal), and leaves the user
  with no change of his own.
\<close>

theorem prepareUserChangeset_submits:
  assumes "client s"
  shows "\<exists>r s'. prepareUserChangeset s = (Inr r, s') \<and> submits r (at_text (tr_base s)) (dt_doc s) \<and>
    isIdentity (tr_user s') = Inr True \<and> consistent s' (dt_doc s)"
  using wp_returns [OF prepare_wp [OF client_consistent [OF assms]]] by auto

text \<open>
  A client without uncommitted changes shows the server's text: where \<open>hasUncommittedChanges\<close>
  answers no, the editor's document is the base text.
\<close>

theorem committed_document:
  assumes "client s" and "hasUncommittedChanges s = (Inr False, s')"
  shows "dt_doc s = at_text (tr_base s)"
proof -
  obtain m where m: "pending s m" "applies (tr_apool s) (tr_user s) m (dt_doc s)"
    using client_consistent [OF assms(1)] by (auto simp: consistent_def)
  obtain b where b: "isIdentity (tr_user s) = Inr b" "b \<longrightarrow> dt_doc s = m"
    using isIdentity_applies [OF m(2)] by blast
  have "\<not> truthy (tr_submitted s)" "b"
    using assms(2) b(1) by (auto simp: hasUncommittedChanges_def bindA_def getA_def ret_def liftA_def
        split: if_splits)
  with m(1) b(2) show ?thesis
    using applies_truthy by (auto simp: pending_def truthy_def split: option.splits)
qed

subsection \<open>A sample client\<close>

definition sampleStart :: doc_tracker where
  "sampleStart = \<lparr>tr_base = \<lparr>at_text = [nl], at_attribs = ''|1+1''\<rparr>, tr_submitted = None,
     tr_user = identity 1, tr_tracking = False, tr_applying = False, tr_callback = True,
     tr_timeout = False, tr_apool = AttribPool, dt_doc = ''''\<rparr>"

definition sampleClient :: doc_tracker where
  "sampleClient = snd (userEdit ''Z:3>1=1+1$x''
     (snd (setBaseAttributedText docEditor \<lparr>at_text = ''ab'' @ [nl], at_attribs = ''|1+3''\<rparr> None sampleStart)))"

lemma sample_applies:
  "applies AttribPool ''Z:3>1=1+1$x'' (''ab'' @ [nl]) (''axb'' @ [nl])"
  "applies AttribPool ''Z:3<1-1$'' (''ab'' @ [nl]) (''b'' @ [nl])"
proof -
  let ?es = "[Edit Keep '''' CHR ''a'', Edit Ins '''' CHR ''x'']"
  let ?fs = "[Edit Del '''' CHR ''a'']"
  have "''Z:3>1=1+1$x'' = pack 3 4 (encode [\<lparr>opcode = Keep, chars = 1, lines = 0, attribs = ''''\<rparr>,
      \<lparr>opcode = Ins, chars = 1, lines = 0, attribs = ''''\<rparr>]) ''x'' \<and> (0::int) \<le> 3 \<and>
      list_all lexable [\<lparr>opcode = Keep, chars = 1, lines = 0, attribs = ''''\<rparr>,
      \<lparr>opcode = Ins, chars = 1, lines = 0, attribs = ''''\<rparr>]" by code_simp
  then have c1: "canonical ''Z:3>1=1+1$x''" unfolding canonical_def by blast
  have "''Z:3<1-1$'' = pack 3 2 (encode [\<lparr>opcode = Del, chars = 1, lines = 0, attribs = ''''\<rparr>]) '''' \<and>
      (0::int) \<le> 3 \<and> list_all lexable [\<lparr>opcode = Del, chars = 1, lines = 0, attribs = ''''\<rparr>]" by code_simp
  then have c2: "canonical ''Z:3<1-1$''" unfolding canonical_def by blast
  have "cs_on ''Z:3>1=1+1$x'' (''ab'' @ [nl]) ?es \<and> known AttribPool ?es \<and>
      result (''ab'' @ [nl]) ?es = ''axb'' @ [nl]"
    "cs_on ''Z:3<1-1$'' (''ab'' @ [nl]) ?fs \<and> known AttribPool ?fs \<and>
      result (''ab'' @ [nl]) ?fs = ''b'' @ [nl]" by code_simp+
  then show "applies AttribPool ''Z:3>1=1+1$x'' (''ab'' @ [nl]) (''axb'' @ [nl])"
    "applies AttribPool ''Z:3<1-1$'' (''ab'' @ [nl]) (''b'' @ [nl])"
    using appliesI [OF pool_wf_empty c1] appliesI [OF pool_wf_empty c2] by metis+
qed

lemma sample_client:
  "client sampleClient" "dt_doc sampleClient = ''axb'' @ [nl]"
  "tr_base sampleClient = \<lparr>at_text = ''ab'' @ [nl], at_attribs = ''|1+3''\<rparr>"
  "tr_user sampleClient = ''Z:3>1=1+1$x''" "tr_submitted sampleClient = None"
  "tr_apool sampleClient = AttribPool"
proof -
  let ?at = "\<lparr>at_text = ''ab'' @ [nl], at_attribs = ''|1+3''\<rparr>"
  let ?s = "snd (setBaseAttributedText docEditor ?at None sampleStart)"
  have s: "?s = sampleStart\<lparr>tr_base := ?at, tr_tracking := True, tr_user := identity 3, dt_doc := ''ab'' @ [nl]\<rparr>"
    by code_simp
  have "pool_wf (tr_apool sampleStart)" by (simp add: sampleStart_def pool_wf_empty)
  moreover have "attribution ''|1+3'' (''ab'' @ [nl]) [Edit Ins '''' CHR ''a'', Edit Ins '''' CHR ''b'', Edit Ins '''' nl]
      \<and> known AttribPool [Edit Ins '''' CHR ''a'', Edit Ins '''' CHR ''b'', Edit Ins '''' nl]" by code_simp
  then have "atext_ok (tr_apool sampleStart) ?at"
    by (auto simp: atext_ok_def sampleStart_def)
  ultimately have c: "client ?s"
    by (rule client.start) (rule surjective_pairing)
  have "applies (tr_apool ?s) ''Z:3>1=1+1$x'' (dt_doc ?s) (''axb'' @ [nl])"
    unfolding s using sample_applies(1) by (simp add: sampleStart_def)
  then have "clientStep ?s sampleClient"
    unfolding sampleClient_def by (rule clientStep.edit) (rule surjective_pairing)
  with c show "client sampleClient" by (rule client.step)
  show "dt_doc sampleClient = ''axb'' @ [nl]" by code_simp
  show "tr_base sampleClient = ?at" by code_simp
  show "tr_user sampleClient = ''Z:3>1=1+1$x''" by code_simp
  show "tr_submitted sampleClient = None" by code_simp
  show "tr_apool sampleClient = AttribPool" by code_simp
qed

theorem client_document_witness:
  "applyToText (tr_user sampleClient) (at_text (tr_base sampleClient)) = Inr (''axb'' @ [nl])"
  using client_document [OF sample_client(1)] by (simp add: sample_client(2,3,5))

theorem applyChangesToBase_succeeds_witness:
  "\<exists>s'. applyChangesToBase docEditor ''Z:3<1-1$'' None sampleClient = (Inr (), s') \<and>
    at_text (tr_base s') = ''b'' @ [nl] \<and> consistent s' (dt_doc s')"
proof -
  have "incoming (tr_apool sampleClient) ''Z:3<1-1$'' None (at_text (tr_base sampleClient)) (''b'' @ [nl])"
    using sample_applies(2) by (simp add: incoming_def sample_client)
  from applyChangesToBase_succeeds [OF sample_client(1) this] show ?thesis by blast
qed

theorem prepareUserChangeset_submits_witness:
  "\<exists>r s'. prepareUserChangeset sampleClient = (Inr r, s') \<and> submits r (''ab'' @ [nl]) (''axb'' @ [nl])"
  using prepareUserChangeset_submits [OF sample_client(1)] by (auto simp: sample_client(2,3))

theorem committed_document_witness:
  "\<exists>s. client s \<and> (\<exists>s'. hasUncommittedChanges s = (Inr False, s')) \<and> dt_doc s = at_text (tr_base s)"
proof -
  let ?s = "snd (setBaseAttributedText docEditor \<lparr>at_text = [nl], at_attribs = ''|1+1''\<rparr> None sampleStart)"
  have "attribution ''|1+1'' [nl] [Edit Ins '''' nl] \<and> known AttribPool [Edit Ins '''' nl]" by code_simp
  then have "atext_ok (tr_apool sampleStart) \<lparr>at_text = [nl], at_attribs = ''|1+1''\<rparr>"
    by (auto simp: atext_ok_def sampleStart_def)
  moreover have "pool_wf (tr_apool sampleStart)" by (simp add: sampleStart_def pool_wf_empty)
  ultimately have c: "client ?s" using client.start by (metis surjective_pairing)
  moreover have "fst (hasUncommittedChanges ?s) = Inr False" by code_simp
  then have "hasUncommittedChanges ?s = (Inr False, snd (hasUncommittedChanges ?s))"
    by (metis surjective_pairing)
  moreover from this have "dt_doc ?s = at_text (tr_base ?s)" by (rule committed_document [OF c])
  ultimately show ?thesis by blast
qed

end
