(* ===== verification/Splices.thy ===== *)
theory Splices
  imports Tracker
begin

text \<open>
  What \<open>toSplices\<close> and \<open>characterRangeFollow\<close> compute: the splices of a changeset, replayed on the
  text, give the text \<open>applyToText\<close> gives, and a character range of the old text is taken to a
  character range of the new one.
\<close>

subsection \<open>Replaying splices\<close>

text \<open>The new text up to the end of a splice, and the position in the old text reached there.\<close>

definition replaySplice :: "string \<Rightarrow> splice \<Rightarrow> string \<times> nat \<Rightarrow> string \<times> nat" where
  "replaySplice t s st =
     (let (out, pos) = st in
      (out @ take (nat (sp_start s) - pos) (drop pos t) @ sp_text s, nat (sp_end s)))"

definition replaySplices :: "string \<Rightarrow> splice list \<Rightarrow> string" where
  "replaySplices t ss = (let (out, pos) = fold (replaySplice t) ss ('''', 0) in out @ drop pos t)"

text \<open>Splices in order, disjoint, between \<open>lo\<close> and \<open>hi\<close>.\<close>

fun ordered :: "int \<Rightarrow> splice list \<Rightarrow> int \<Rightarrow> bool" where
  "ordered lo [] hi = (lo \<le> hi)"
| "ordered lo (s # ss) hi = (lo \<le> sp_start s \<and> sp_start s \<le> sp_end s \<and> ordered (sp_end s) ss hi)"

lemma ordered_snoc:
  "ordered lo (ss @ [s]) hi = (ordered lo ss (sp_start s) \<and> sp_start s \<le> sp_end s \<and> sp_end s \<le> hi)"
  by (induction ss arbitrary: lo) auto

lemma ordered_mono: "ordered lo ss hi \<Longrightarrow> hi \<le> hi' \<Longrightarrow> ordered lo ss hi'"
  by (induction ss arbitrary: lo) auto

subsection \<open>The invariant of the loop of toSplices\<close>

definition splices_inv :: "script \<Rightarrow> spliceState \<Rightarrow> bool" where
  "splices_inv es st =
     (ts_oldPos st = int (length (src es)) \<and> ordered 0 (ts_splices st) (ts_oldPos st) \<and>
      (\<forall>r. case fold (replaySplice (src es @ r)) (ts_splices st) ('''', 0) of (out, pos) \<Rightarrow>
        pos \<le> length (src es) \<and> out @ drop pos (src es) = dst es) \<and>
      (ts_inSplice st \<longrightarrow> ts_splices st \<noteq> [] \<and> sp_end (last (ts_splices st)) = ts_oldPos st))"

lemma splices_invD:
  assumes "splices_inv es st"
  shows "\<exists>out pos. fold (replaySplice (src es @ r)) (ts_splices st) ('''', 0) = (out, pos) \<and>
    pos \<le> length (src es) \<and> out @ drop pos (src es) = dst es"
proof (cases "fold (replaySplice (src es @ r)) (ts_splices st) ('''', 0)")
  case (Pair out pos)
  have "case fold (replaySplice (src es @ r)) (ts_splices st) ('''', 0) of (out, pos) \<Rightarrow>
      pos \<le> length (src es) \<and> out @ drop pos (src es) = dst es"
    using assms by (simp add: splices_inv_def)
  with Pair show ?thesis by simp
qed

text \<open>Opening a splice at the current position.\<close>

definition openSplice :: "spliceState \<Rightarrow> spliceState" where
  "openSplice st = (if \<not> ts_inSplice st then
     st\<lparr>ts_splices := ts_splices st @ [\<lparr>sp_start = ts_oldPos st, sp_end = ts_oldPos st, sp_text = ''''\<rparr>],
        ts_inSplice := True\<rparr> else st)"

lemma openSplice_inv:
  assumes "splices_inv es st"
  shows "splices_inv es (openSplice st) \<and> ts_inSplice (openSplice st) \<and>
    ts_charIter (openSplice st) = ts_charIter st"
proof (cases "ts_inSplice st")
  case True
  then show ?thesis using assms by (simp add: openSplice_def)
next
  case False
  have o1: "ts_oldPos st = int (length (src es))" and o2: "ordered 0 (ts_splices st) (ts_oldPos st)"
    using assms by (auto simp: splices_inv_def)
  let ?s = "\<lparr>sp_start = ts_oldPos st, sp_end = ts_oldPos st, sp_text = ''''\<rparr>"
  have "case fold (replaySplice (src es @ r)) (ts_splices st @ [?s]) ('''', 0) of (out, pos) \<Rightarrow>
      pos \<le> length (src es) \<and> out @ drop pos (src es) = dst es" for r
    using splices_invD [OF assms, of r] by (auto simp: replaySplice_def o1)
  then have "splices_inv es (openSplice st)"
    using False o1 o2 by (simp add: openSplice_def splices_inv_def ordered_snoc)
  with False show ?thesis by (simp add: openSplice_def)
qed

text \<open>In an open splice the whole result so far has been written.\<close>

lemma open_replay:
  assumes "splices_inv es st" and "ts_inSplice st"
  obtains ss s where "ts_splices st = ss @ [s]" "sp_end s = int (length (src es))"
    "ordered 0 ss (sp_start s)" "sp_start s \<le> sp_end s"
    "\<And>r. fold (replaySplice (src es @ r)) (ss @ [s]) ('''', 0) = (dst es, length (src es))"
proof -
  obtain ss s where ss: "ts_splices st = ss @ [s]"
    using assms by (metis append_butlast_last_id splices_inv_def)
  then have e: "sp_end s = int (length (src es))" using assms by (simp add: splices_inv_def)
  have "fold (replaySplice (src es @ r)) (ss @ [s]) ('''', 0) = (dst es, length (src es))" for r
    using splices_invD [OF assms(1), of r] unfolding ss
    by (auto simp: replaySplice_def e split: prod.splits)
  moreover have "ordered 0 ss (sp_start s)" "sp_start s \<le> sp_end s"
    using assms(1) by (auto simp: splices_inv_def ss ordered_snoc)
  ultimately show ?thesis using that ss e by blast
qed

lemma replaySplice_last:
  "replaySplice t (s\<lparr>sp_end := e\<rparr>) st = (fst (replaySplice t s st), nat e)"
  "replaySplice t (s\<lparr>sp_text := sp_text s @ x\<rparr>) st =
     (fst (replaySplice t s st) @ x, snd (replaySplice t s st))"
  by (simp_all add: replaySplice_def split: prod.split)

lemma toSplices_op_inv:
  assumes inv: "splices_inv es st" and cov: "covers o1 xs" and b: "si_ahead (ts_charIter st) (inserted xs @ bs)"
  shows "\<exists>st'. toSplices_op o1 st = Inr st' \<and> splices_inv (es @ xs) st' \<and> si_ahead (ts_charIter st') bs"
proof -
  have n: "chars o1 = int (length xs)" and k: "\<forall>e\<in>set xs. ed_op e = opcode o1" and nop: "opcode o1 \<noteq> NoOp"
    using cov by (auto simp: covers_def)
  have o1: "ts_oldPos st = int (length (src es))" and o2: "ordered 0 (ts_splices st) (ts_oldPos st)"
    using inv by (auto simp: splices_inv_def)
  show ?thesis
  proof (cases "opcode o1 = Keep")
    case True
    with k src_dst_Keep have x: "src xs = map ed_char xs" "dst xs = map ed_char xs" "inserted xs = []"
      by auto
    have "case fold (replaySplice (src (es @ xs) @ r)) (ts_splices st) ('''', 0) of (out, pos) \<Rightarrow>
        pos \<le> length (src (es @ xs)) \<and> out @ drop pos (src (es @ xs)) = dst (es @ xs)" for r
      using splices_invD [OF inv, of "src xs @ r"] x by auto
    then have "splices_inv (es @ xs) (st\<lparr>ts_oldPos := ts_oldPos st + chars o1, ts_inSplice := False\<rparr>)"
      using ordered_mono [OF o2, of "ts_oldPos st + chars o1"] o1 n x by (simp add: splices_inv_def)
    with True b x(3) show ?thesis by (simp add: toSplices_op_def)
  next
    case False
    let ?st = "openSplice st"
    have op: "toSplices_op o1 st = (case opcode o1 of
        Del \<Rightarrow> Inr (?st\<lparr>ts_oldPos := ts_oldPos ?st + chars o1,
                 ts_splices := updateLast (\<lambda>s. s\<lparr>sp_end := sp_end s + chars o1\<rparr>) (ts_splices ?st)\<rparr>)
      | Ins \<Rightarrow> bindE (si_take (chars o1) (ts_charIter ?st)) (\<lambda>(x, it).
                 Inr (?st\<lparr>ts_charIter := it,
                   ts_splices := updateLast (\<lambda>s. s\<lparr>sp_text := sp_text s @ x\<rparr>) (ts_splices ?st)\<rparr>))
      | _ \<Rightarrow> Inr ?st)"
      using False by (cases "opcode o1") (simp_all add: toSplices_op_def openSplice_def Let_def)
    have inv': "splices_inv es ?st" "ts_inSplice ?st" and ci: "ts_charIter ?st = ts_charIter st"
      using openSplice_inv [OF inv] by auto
    from open_replay [OF inv'] obtain ss s where
      s: "ts_splices ?st = ss @ [s]" "sp_end s = int (length (src es))" "ordered 0 ss (sp_start s)"
        "sp_start s \<le> sp_end s"
        "\<And>r. fold (replaySplice (src es @ r)) (ss @ [s]) ('''', 0) = (dst es, length (src es))" by blast
    have pos: "ts_oldPos ?st = int (length (src es))" using inv'(1) by (simp add: splices_inv_def)
    show ?thesis
    proof (cases "opcode o1")
      case Del
      with k src_dst_Del have x: "src xs = map ed_char xs" "dst xs = []" "inserted xs = []" by auto
      let ?s = "s\<lparr>sp_end := sp_end s + chars o1\<rparr>"
      have "fold (replaySplice (src (es @ xs) @ r)) (ss @ [?s]) ('''', 0) =
          (dst (es @ xs), length (src (es @ xs)))" for r
        using s(5) [of "src xs @ r"] x n by (simp add: replaySplice_last s(2) nat_int_add)
      then have "splices_inv (es @ xs) (?st\<lparr>ts_oldPos := ts_oldPos ?st + chars o1, ts_splices := ss @ [?s]\<rparr>)"
        using s(2,3,4) pos n x(1) inv'(2) by (simp add: splices_inv_def ordered_snoc)
      with Del op s(1) ci b x(3) show ?thesis by (simp add: updateLast_def)
    next
      case Ins
      with k src_dst_Ins have x: "src xs = []" "dst xs = map ed_char xs" "inserted xs = map ed_char xs"
        by auto
      from si_ahead_step [of "ts_charIter st" "inserted xs" bs "chars o1"] b n x(3) obtain it where
        it: "si_take (chars o1) (ts_charIter st) = Inr (inserted xs, it)" "si_ahead it bs" by auto
      let ?s = "s\<lparr>sp_text := sp_text s @ inserted xs\<rparr>"
      have "fold (replaySplice (src (es @ xs) @ r)) (ss @ [?s]) ('''', 0) =
          (dst (es @ xs), length (src (es @ xs)))" for r
        using s(5) [of r] x by (simp add: replaySplice_last)
      then have "splices_inv (es @ xs) (?st\<lparr>ts_charIter := it, ts_splices := ss @ [?s]\<rparr>)"
        using s(2,3,4) pos x(1) inv'(2) by (simp add: splices_inv_def ordered_snoc)
      with Ins op s(1) ci it show ?thesis by (simp add: updateLast_def)
    qed (use False nop in simp_all)
  qed
qed

lemma toSplices_ops:
  "denotes os fs \<Longrightarrow> splices_inv es st \<Longrightarrow> si_ahead (ts_charIter st) (inserted fs @ bs) \<Longrightarrow>
   \<exists>st'. foldE toSplices_op os st = Inr st' \<and> splices_inv (es @ fs) st'"
proof (induction os arbitrary: fs es st)
  case Nil
  then show ?case by simp
next
  case (Cons o1 os)
  from Cons.prems(1) obtain xs ys where fs: "fs = xs @ ys" "covers o1 xs" "denotes os ys"
    by (rule denotes_ConsE)
  from toSplices_op_inv [OF Cons.prems(2) fs(2), of "inserted ys @ bs"] Cons.prems(3) fs(1)
  obtain st' where st: "toSplices_op o1 st = Inr st'" "splices_inv (es @ xs) st'"
    "si_ahead (ts_charIter st') (inserted ys @ bs)" by auto
  from Cons.IH [OF fs(3) st(2,3)] st(1) fs(1) show ?case by auto
qed

lemma toSplices_script:
  assumes "cs_on cs t es"
  shows "\<exists>ss. toSplices cs = Inr ss \<and> ordered 0 ss (int (length t)) \<and> replaySplices t ss = result t es"
proof -
  from assms obtain os where u: "unpack cs = Inr \<lparr>up_oldLen = int (length t),
      up_newLen = int (length (result t es)), up_ops = up_ops (projr (unpack cs)),
      up_charBank = inserted es\<rparr>"
    and os: "parse_ops (up_ops (projr (unpack cs))) = Inr os" "denotes os es" and on: "on_text es t"
    by (rule cs_onE)
  obtain r where r: "t = src es @ r" using on by (auto simp: on_text_iff)
  obtain it where it: "opIterator (up_ops (projr (unpack cs))) 0 = Inr it" "yields it os"
    using os(1) by (rule parse_opsE)
  let ?st = "\<lparr>ts_splices = [], ts_oldPos = 0, ts_charIter = stringIterator (inserted es), ts_inSplice = False\<rparr>"
  have "splices_inv [] ?st" by (simp add: splices_inv_def)
  from toSplices_ops [OF os(2) this, of "[]"] obtain st where
    st: "foldE toSplices_op os ?st = Inr st" "splices_inv es st" by auto
  have "toSplices cs = Inr (ts_splices st)"
    unfolding toSplices_def by (subst u) (simp add: it(1) forOps_yields [OF it(2)] st(1))
  moreover have "ordered 0 (ts_splices st) (int (length t))"
    using st(2) ordered_mono by (auto simp: splices_inv_def r)
  moreover have "replaySplices t (ts_splices st) = result t es"
    using splices_invD [OF st(2), of r] by (auto simp: replaySplices_def r)
  ultimately show ?thesis by blast
qed

text \<open>
  C30. The splices of a changeset are the changeset: \<open>toSplices\<close> returns disjoint ranges of the old text in
  order, and putting each splice's text in place of its range gives the text \<open>applyToText\<close> gives.
\<close>

theorem toSplices_replay:
  assumes "cs_on cs t es"
  shows "\<exists>ss. toSplices cs = Inr ss \<and> ordered 0 ss (int (length t)) \<and>
    applyToText cs t = Inr (replaySplices t ss)"
  using toSplices_script [OF assms] applyToText_result [OF assms] by auto

theorem toSplices_replay_witness:
  "\<exists>ss. toSplices ''Z:3>0=1-1+1$x'' = Inr ss \<and> replaySplices ''abc'' ss = ''axc''"
proof -
  have c: "cs_on ''Z:3>0=1-1+1$x'' ''abc''
      [Edit Keep '''' CHR ''a'', Edit Del '''' CHR ''b'', Edit Ins '''' CHR ''x'']" by code_simp
  have "applyToText ''Z:3>0=1-1+1$x'' ''abc'' = Inr ''axc''" by code_simp
  with toSplices_replay [OF c] show ?thesis by auto
qed

subsection \<open>Character ranges\<close>

definition range_ok :: "int \<Rightarrow> int \<Rightarrow> int \<times> int \<times> int \<Rightarrow> bool" where
  "range_ok n lo st = (let (a, b, d) = st in 0 \<le> a \<and> a \<le> b \<and> b \<le> n + d \<and> - lo \<le> d)"

lemma rangeFollow_splice_ok:
  assumes "range_ok n lo st" and "lo \<le> sp_start s" and "sp_start s \<le> sp_end s" and "sp_end s \<le> n"
  shows "range_ok n (sp_end s) (rangeFollow_splice ia s st)"
  using assms by (cases st) (auto simp: range_ok_def rangeFollow_splice_def Let_def split: if_splits)

lemma ordered_bound: "ordered lo ss hi \<Longrightarrow> lo \<le> hi"
  by (induction ss arbitrary: lo) force+

lemma rangeFollow_ok:
  "ordered lo ss n \<Longrightarrow> range_ok n lo st \<Longrightarrow> \<exists>hi. range_ok n hi (fold (rangeFollow_splice ia) ss st)"
proof (induction ss arbitrary: lo st)
  case (Cons s ss)
  then have s: "lo \<le> sp_start s" "sp_start s \<le> sp_end s" "ordered (sp_end s) ss n" by auto
  from rangeFollow_splice_ok [OF Cons.prems(2) s(1,2) ordered_bound [OF s(3)], of ia] Cons.IH [OF s(3)]
  show ?case by simp
qed auto

text \<open>The length of the replayed text is the length the loop has counted.\<close>

lemma rangeFollow_length:
  "snd (snd (fold (rangeFollow_splice ia) ss (a, b, d))) =
     d + (\<Sum>s\<leftarrow>ss. int (length (sp_text s)) - (sp_end s - sp_start s))"
proof (induction ss arbitrary: a b d)
  case (Cons s ss)
  obtain a' b' d' where r: "rangeFollow_splice ia s (a, b, d) = (a', b', d')" by (metis prod_cases3)
  then have "d' = d + int (length (sp_text s)) - (sp_end s - sp_start s)"
    by (auto simp: rangeFollow_splice_def Let_def split: if_splits)
  with Cons r show ?case by simp
qed simp

lemma replay_length:
  "ordered (int pos) ss (int (length t)) \<Longrightarrow>
   (case fold (replaySplice t) ss (out, pos) of (out', pos') \<Rightarrow> int (length (out' @ drop pos' t))) =
   int (length out) + int (length t) - int pos + (\<Sum>s\<leftarrow>ss. int (length (sp_text s)) - (sp_end s - sp_start s))"
proof (induction ss arbitrary: out pos)
  case Nil
  then show ?case by simp
next
  case (Cons s ss)
  then have o: "int pos \<le> sp_start s" "sp_start s \<le> sp_end s" "ordered (sp_end s) ss (int (length t))"
    by auto
  note le = ordered_bound [OF o(3)]
  have "ordered (int (nat (sp_end s))) ss (int (length t))" using o by simp
  from Cons.IH [OF this] o le show ?case by (simp add: replaySplice_def)
qed

lemma characterRangeFollow_ok:
  assumes "cs_on cs t es" and "0 \<le> a" and "a \<le> b" and "b \<le> int (length t)"
  shows "\<exists>a' b'. characterRangeFollow cs a b ia = Inr (a', b') \<and> 0 \<le> a' \<and> a' \<le> b' \<and>
    b' \<le> int (length (result t es))"
proof -
  obtain ss where ss: "toSplices cs = Inr ss" "ordered 0 ss (int (length t))" "replaySplices t ss = result t es"
    using toSplices_script [OF assms(1)] by blast
  obtain a' b' d where f: "fold (rangeFollow_splice ia) ss (a, b, 0) = (a', b', d)" by (metis prod_cases3)
  have "range_ok (int (length t)) 0 (a, b, 0)" using assms(2-4) by (simp add: range_ok_def)
  with rangeFollow_ok [OF ss(2), of "(a, b, 0)" ia] f
  have ab: "0 \<le> a'" "a' \<le> b'" "b' \<le> int (length t) + d" by (auto simp: range_ok_def)
  have "d = (\<Sum>s\<leftarrow>ss. int (length (sp_text s)) - (sp_end s - sp_start s))"
    using rangeFollow_length [of ia ss a b 0] by (simp add: f)
  moreover have "int (length (replaySplices t ss)) =
      int (length t) + (\<Sum>s\<leftarrow>ss. int (length (sp_text s)) - (sp_end s - sp_start s))"
    using replay_length [of 0 ss t "''''"] ss(2) by (simp add: replaySplices_def split: prod.splits)
  ultimately have "b' \<le> int (length (result t es))" using ab(3) ss(3) by simp
  with ab ss(1) f show ?thesis by (simp add: characterRangeFollow_def)
qed

text \<open>
  C31. A selection stays a selection of the text: \<open>characterRangeFollow\<close> takes a range of the old text to a
  range of the new text, wherever inserted text is put.
\<close>

theorem characterRangeFollow_bounds:
  assumes "cs_on cs t es" and "0 \<le> a" and "a \<le> b" and "b \<le> int (length t)"
  shows "\<exists>a' b' t'. characterRangeFollow cs a b ia = Inr (a', b') \<and> applyToText cs t = Inr t' \<and>
    0 \<le> a' \<and> a' \<le> b' \<and> b' \<le> int (length t')"
  using characterRangeFollow_ok [OF assms] applyToText_result [OF assms(1)] by blast

theorem characterRangeFollow_bounds_witness:
  "\<exists>a' b'. characterRangeFollow ''Z:3>0=1-1+1$x'' 1 3 True = Inr (a', b') \<and> 0 \<le> a' \<and> a' \<le> b' \<and> b' \<le> 3"
proof -
  have c: "cs_on ''Z:3>0=1-1+1$x'' ''abc''
      [Edit Keep '''' CHR ''a'', Edit Del '''' CHR ''b'', Edit Ins '''' CHR ''x'']" by code_simp
  have "applyToText ''Z:3>0=1-1+1$x'' ''abc'' = Inr ''axc''" by code_simp
  with characterRangeFollow_bounds [OF c, of 1 3 True] show ?thesis by auto
qed

end
