(* ===== verification/UndoModule.thy ===== *)
theory UndoModule
  imports Splices
begin

text \<open>
  \<open>undomodule.js\<close>: the undo stack of the editor. An element is an undoable event with the changeset
  that takes it back, or an external change (of another author) that came after the events below
  it. To undo an event below external changes, \<open>_exposeEvent\<close> moves these down past it, transforming
  both. The pool \<open>undoModule.apool\<close> is filled in by the caller and may be \<open>null\<close>.

  The elements of the array are objects that the code changes in place and keeps references to;
  each has its identity here, a number.
\<close>

subsection \<open>State\<close>

record selectionInfo =
  selStart :: int
  selEnd :: int
  selFocusAtStart :: bool

text \<open>An event; \<open>ev_sel\<close> is there where \<open>selStart\<close> is a number.\<close>

record event =
  ev_type :: string
  ev_backset :: "string option"
  ev_sel :: "selectionInfo option"

datatype stackElement =
    UndoableEvent event
  | ExternalChange string

record undoModule =
  um_elements :: "(nat \<times> stackElement) list"
  um_fresh :: nat
  um_numUndoableEvents :: int
  um_undoPtr :: int
  um_apool :: "pool option"

fun isExternal :: "stackElement \<Rightarrow> bool" where
  "isExternal (ExternalChange _) = True"
| "isExternal (UndoableEvent _) = False"

text \<open>\<open>un.backset\<close>, where it is neither missing nor empty, and \<open>ex.changeset\<close>.\<close>

fun backsetOf :: "stackElement \<Rightarrow> string option" where
  "backsetOf (UndoableEvent e) = (if truthy (ev_backset e) then ev_backset e else None)"
| "backsetOf (ExternalChange _) = None"

definition withAPool :: "(pool option \<Rightarrow> ('a \<times> pool option) res) \<Rightarrow> ('e undoModule_scheme, 'a) act" where
  "withAPool f s =
     (case f (um_apool s) of
        Inl e \<Rightarrow> (Inl e, s)
      | Inr (x, p) \<Rightarrow> (Inr x, s\<lparr>um_apool := p\<rparr>))"

definition elementAt :: "int \<Rightarrow> ('e undoModule_scheme, nat \<times> stackElement) act" where
  "elementAt i = bindA (getA um_elements) (\<lambda>xs. liftA (js_nth xs i))"

definition setElement :: "int \<Rightarrow> nat \<times> stackElement \<Rightarrow> ('e undoModule_scheme, unit) act" where
  "setElement i x = modA (\<lambda>s. s\<lparr>um_elements := (um_elements s)[nat i := x]\<rparr>)"

definition pushElement :: "stackElement \<Rightarrow> ('e undoModule_scheme, unit) act" where
  "pushElement e =
     modA (\<lambda>s. s\<lparr>um_elements := um_elements s @ [(um_fresh s, e)], um_fresh := um_fresh s + 1\<rparr>)"

subsection \<open>The stack\<close>

definition clearStack :: "('e undoModule_scheme, unit) act" where
  "clearStack =
     thenA (modA (\<lambda>s. s\<lparr>um_elements := []\<rparr>))
    (thenA (pushElement (UndoableEvent \<lparr>ev_type = ''bottom'', ev_backset = None, ev_sel = None\<rparr>))
       (modA (\<lambda>s. s\<lparr>um_numUndoableEvents := 1\<rparr>)))"

definition pushEvent :: "event \<Rightarrow> ('e undoModule_scheme, unit) act" where
  "pushEvent ev =
     thenA (pushElement (UndoableEvent ev))
       (modA (\<lambda>s. s\<lparr>um_numUndoableEvents := um_numUndoableEvents s + 1\<rparr>))"

definition pushExternalChange :: "string \<Rightarrow> ('e undoModule_scheme, unit) act" where
  "pushExternalChange cs =
     bindA (getA (\<lambda>s. int (length (um_elements s)) - 1)) (\<lambda>idx.
     bindA (elementAt idx) (\<lambda>(i, el).
     (case el of
        ExternalChange changeset \<Rightarrow>
          bindA (withAPool (compose changeset cs)) (\<lambda>c. setElement idx (i, ExternalChange c))
      | UndoableEvent _ \<Rightarrow> pushElement (ExternalChange cs))))"

text \<open>The selection of an event below an external change, after it.\<close>

definition followSelection :: "string \<Rightarrow> selectionInfo \<Rightarrow> selectionInfo res" where
  "followSelection excs sel =
     bindE (characterRangeFollow excs (selStart sel) (selEnd sel) False) (\<lambda>(a, b).
     Inr \<lparr>selStart = a, selEnd = b,
          selFocusAtStart = (if a = b then False else selFocusAtStart sel)\<rparr>)"

text \<open>
  One external change at \<open>idx\<close> past the element below it: the element is transformed where it has a
  backset, the two change places, and the change is merged with an external change it then
  touches. The result is the next \<open>idx\<close>.
\<close>

definition transformPair ::
  "int \<Rightarrow> string \<Rightarrow> nat \<Rightarrow> nat \<Rightarrow> event \<Rightarrow> ('e undoModule_scheme, unit) act" where
  "transformPair idx excs exId unId ev =
     (let unbs = the (ev_backset ev) in
      bindA (withAPool (follow excs unbs False)) (\<lambda>b.
      thenA (setElement (idx - 1) (unId, UndoableEvent (ev\<lparr>ev_backset := Some b\<rparr>)))
     (bindA (withAPool (follow unbs excs True)) (\<lambda>x.
      thenA (setElement idx (exId, ExternalChange x))
        (case ev_sel ev of
           None \<Rightarrow> ret ()
         | Some sel \<Rightarrow>
             bindA (liftA (followSelection excs sel)) (\<lambda>newSel.
             setElement (idx - 1)
               (unId, UndoableEvent (ev\<lparr>ev_backset := Some b, ev_sel := Some newSel\<rparr>))))))))"

definition mergeBelow :: "int \<Rightarrow> nat \<Rightarrow> ('e undoModule_scheme, int) act" where
  "mergeBelow idx exId =
     (if idx < 2 then ret idx else
      bindA (elementAt (idx - 2)) (\<lambda>(_, below).
      bindA (elementAt (idx - 1)) (\<lambda>(_, ex).
      (case (below, ex) of
         (ExternalChange cs1, ExternalChange cs2) \<Rightarrow>
           bindA (withAPool (compose cs1 cs2)) (\<lambda>c.
           thenA (setElement (idx - 1) (exId, ExternalChange c))
          (thenA (modA (\<lambda>s. s\<lparr>um_elements := js_splice (um_elements s) (idx - 2) 1 []\<rparr>))
             (ret (idx - 1))))
       | _ \<Rightarrow> ret idx))))"

definition moveDown :: "int \<Rightarrow> ('e undoModule_scheme, int) act" where
  "moveDown idx =
     bindA (elementAt idx) (\<lambda>(exId, ex).
     bindA (elementAt (idx - 1)) (\<lambda>(unId, un).
     thenA (case (ex, un) of
              (ExternalChange excs, UndoableEvent ev) \<Rightarrow>
                whenA (truthy (ev_backset ev)) (transformPair idx excs exId unId ev)
            | _ \<Rightarrow> ret ())
    (bindA (elementAt idx) (\<lambda>ex'.
     bindA (elementAt (idx - 1)) (\<lambda>un'.
     thenA (setElement (idx - 1) ex')
    (thenA (setElement idx un')
       (mergeBelow idx exId)))))))"

partial_function (option) exposeLoop ::
  "int \<Rightarrow> int \<Rightarrow> 'e undoModule_scheme \<Rightarrow> (unit res \<times> 'e undoModule_scheme) option" where
  "exposeLoop targetIndex idx s =
     (case js_nth (um_elements s) idx of
        Inl e \<Rightarrow> Some (Inl e, s)
      | Inr el \<Rightarrow>
          if targetIndex < idx \<or> isExternal (snd el) then
            (if isExternal (snd el)
             then (case moveDown idx s of
                     (Inl e, s') \<Rightarrow> Some (Inl e, s')
                   | (Inr idx', s') \<Rightarrow> exposeLoop targetIndex idx' s')
             else exposeLoop targetIndex (idx - 1) s)
          else Some (Inr (), s))"

declare exposeLoop.simps [code]

definition exposeEvent :: "int \<Rightarrow> ('e undoModule_scheme, unit) act" where
  "exposeEvent nthFromTop s =
     (let top = int (length (um_elements s)) - 1 in
      case exposeLoop (top - nthFromTop) top s of
        None \<Rightarrow> (Inl Diverges, s)
      | Some r \<Rightarrow> r)"

definition getNthFromTop :: "int \<Rightarrow> ('e undoModule_scheme, nat \<times> stackElement) act" where
  "getNthFromTop n =
     thenA (exposeEvent n)
    (bindA (getA (\<lambda>s. int (length (um_elements s)) - 1 - n)) elementAt)"

definition numEvents :: "('e undoModule_scheme, int) act" where
  "numEvents = getA um_numUndoableEvents"

definition popEvent :: "('e undoModule_scheme, stackElement) act" where
  "popEvent =
     thenA (exposeEvent 0)
    (thenA (modA (\<lambda>s. s\<lparr>um_numUndoableEvents := um_numUndoableEvents s - 1\<rparr>))
    (bindA (getA (\<lambda>s. int (length (um_elements s)) - 1)) (\<lambda>i.
     bindA (elementAt i) (\<lambda>(_, el).
     thenA (modA (\<lambda>s. s\<lparr>um_elements := butlast (um_elements s)\<rparr>)) (ret el)))))"

subsection \<open>The module\<close>

definition clearHistory :: "('e undoModule_scheme, unit) act" where
  "clearHistory = thenA clearStack (modA (\<lambda>s. s\<lparr>um_undoPtr := 0\<rparr>))"

lemma js_indexOf_from: "0 \<le> i \<Longrightarrow> 0 \<le> js_indexOf s p i \<Longrightarrow> i \<le> js_indexOf s p i"
  by (auto simp: js_indexOf_def Let_def split: option.splits)

function charOccurrences_loop :: "string \<Rightarrow> string \<Rightarrow> int \<Rightarrow> int \<Rightarrow> int" where
  "charOccurrences_loop str c i count =
     (if 0 \<le> i \<and> i < int (length str) then
        (let j = js_indexOf str c i in
         if 0 \<le> j then charOccurrences_loop str c (j + 1) (count + 1)
         else charOccurrences_loop str c j count)
      else count)"
  by pat_completeness auto
termination
  by (relation "measure (\<lambda>(str, _, i, _). if i < 0 then 0 else Suc (nat (int (length str) - i)))")
    (auto dest: js_indexOf_from)

declare charOccurrences_loop.simps [simp del]

definition charOccurrences :: "string \<Rightarrow> string \<Rightarrow> int" where
  "charOccurrences str c = charOccurrences_loop str c 0 0"

definition opcodeOccurrences :: "string \<Rightarrow> string \<Rightarrow> int res" where
  "opcodeOccurrences cs opc = bindE (unpack cs) (\<lambda>u. Inr (charOccurrences (up_ops u) opc))"

definition mergeIf :: "string \<Rightarrow> string \<Rightarrow> int \<Rightarrow> int \<Rightarrow> ('e undoModule_scheme, string option) act" where
  "mergeIf cs1 cs2 plusCount minusCount =
     bindA (withAPool (compose cs1 cs2)) (\<lambda>merge.
     bindA (liftA (opcodeOccurrences merge ''+'')) (\<lambda>plusCount3.
     bindA (liftA (opcodeOccurrences merge ''-'')) (\<lambda>minusCount3.
     ret (if plusCount3 = plusCount \<and> minusCount3 = minusCount then Some merge else None))))"

definition mergeChangesets ::
  "string option \<Rightarrow> string option \<Rightarrow> ('e undoModule_scheme, string option) act" where
  "mergeChangesets cs1 cs2 =
     (if \<not> truthy cs1 then ret cs2
      else if \<not> truthy cs2 then ret cs1
      else
        bindA (liftA (opcodeOccurrences (the cs1) ''+'')) (\<lambda>plusCount1.
        bindA (liftA (opcodeOccurrences (the cs2) ''+'')) (\<lambda>plusCount2.
        bindA (liftA (opcodeOccurrences (the cs1) ''-'')) (\<lambda>minusCount1.
        bindA (liftA (opcodeOccurrences (the cs2) ''-'')) (\<lambda>minusCount2.
        if plusCount1 = 1 \<and> plusCount2 = 1 \<and> minusCount1 = 0 \<and> minusCount2 = 0
        then mergeIf (the cs1) (the cs2) 1 0
        else if plusCount1 = 0 \<and> plusCount2 = 0 \<and> minusCount1 = 1 \<and> minusCount2 = 1
        then mergeIf (the cs1) (the cs2) 0 1
        else ret None)))))"

text \<open>\<open>topEvent\<close> is a reference to the last element of the array, where \<open>getNthFromTop(0)\<close> leaves it.\<close>

definition updateTop :: "(event \<Rightarrow> event) \<Rightarrow> ('e undoModule_scheme, unit) act" where
  "updateTop f =
     modA (\<lambda>s. s\<lparr>um_elements := updateLast (\<lambda>(i, el). (i, case el of
          UndoableEvent e \<Rightarrow> UndoableEvent (f e) | ExternalChange c \<Rightarrow> ExternalChange c)) (um_elements s)\<rparr>)"

definition applySelectionToTop :: "event \<Rightarrow> ('e undoModule_scheme, unit) act" where
  "applySelectionToTop ev =
     (case ev_sel ev of None \<Rightarrow> ret () | Some sel \<Rightarrow> updateTop (\<lambda>e. e\<lparr>ev_sel := Some sel\<rparr>))"

definition reportEvent :: "event \<Rightarrow> ('e undoModule_scheme, unit) act" where
  "reportEvent ev =
     bindA (getNthFromTop 0) (\<lambda>(_, topEvent).
     bindA (if truthy (ev_backset ev) then liftA (isIdentity (the (ev_backset ev))) else ret True)
       (\<lambda>noChange.
     if noChange then applySelectionToTop ev
     else
       bindA (if (case topEvent of UndoableEvent e \<Rightarrow> ev_type e = ev_type ev | ExternalChange _ \<Rightarrow> False)
              then bindA (mergeChangesets (ev_backset ev) (backsetOf topEvent)) (\<lambda>merge.
                   if truthy merge
                   then thenA (updateTop (\<lambda>e. e\<lparr>ev_backset := merge\<rparr>))
                       (thenA (applySelectionToTop ev) (ret True))
                   else ret False)
              else ret False) (\<lambda>merged.
       thenA (whenA (\<not> merged) (pushEvent ev))
         (modA (\<lambda>s. s\<lparr>um_undoPtr := 0\<rparr>)))))"

definition reportExternalChange :: "string option \<Rightarrow> ('e undoModule_scheme, unit) act" where
  "reportExternalChange changeset =
     (if truthy changeset then
        bindA (liftA (isIdentity (the changeset))) (\<lambda>i.
        whenA (\<not> i) (pushExternalChange (the changeset)))
      else ret ())"

definition getSelectionInfo :: "stackElement \<Rightarrow> selectionInfo option" where
  "getSelectionInfo el =
     (case el of UndoableEvent e \<Rightarrow> ev_sel e | ExternalChange _ \<Rightarrow> None)"

text \<open>The state of an object now, given what it was when the reference to it was taken.\<close>

definition deref :: "nat \<times> stackElement \<Rightarrow> ('e undoModule_scheme, stackElement) act" where
  "deref r = getA (\<lambda>s. case map_of (rev (um_elements s)) (fst r) of None \<Rightarrow> snd r | Some el \<Rightarrow> el)"

type_synonym 'e eventFunc =
  "string option \<Rightarrow> selectionInfo option \<Rightarrow> ('e undoModule_scheme, event) act"

definition backsetField :: "stackElement \<Rightarrow> string option" where
  "backsetField el = (case el of UndoableEvent e \<Rightarrow> ev_backset e | ExternalChange _ \<Rightarrow> None)"

definition performUndo :: "'e eventFunc \<Rightarrow> ('e undoModule_scheme, unit) act" where
  "performUndo eventFunc =
     bindA (getA (\<lambda>s. (um_undoPtr s, um_numUndoableEvents s))) (\<lambda>(undoPtr, n).
     if undoPtr < n - 1 then
       bindA (getNthFromTop undoPtr) (\<lambda>backsetEvent.
       bindA (getNthFromTop (undoPtr + 1)) (\<lambda>selectionEvent.
       bindA (deref backsetEvent) (\<lambda>el.
       bindA (eventFunc (backsetField el) (getSelectionInfo (snd selectionEvent))) (\<lambda>undoEvent.
       thenA (pushEvent undoEvent)
         (modA (\<lambda>s. s\<lparr>um_undoPtr := um_undoPtr s + 2\<rparr>))))))
     else bindA (eventFunc None None) (\<lambda>_. ret ()))"

definition performRedo :: "'e eventFunc \<Rightarrow> ('e undoModule_scheme, unit) act" where
  "performRedo eventFunc =
     bindA (getA um_undoPtr) (\<lambda>undoPtr.
     if 2 \<le> undoPtr then
       bindA (getNthFromTop 0) (\<lambda>backsetEvent.
       bindA (getNthFromTop 1) (\<lambda>selectionEvent.
       bindA (deref backsetEvent) (\<lambda>el.
       bindA (eventFunc (backsetField el) (getSelectionInfo (snd selectionEvent))) (\<lambda>_.
       bindA popEvent (\<lambda>_.
         modA (\<lambda>s. s\<lparr>um_undoPtr := um_undoPtr s - 2\<rparr>))))))
     else bindA (eventFunc None None) (\<lambda>_. ret ()))"

subsection \<open>What the stack means\<close>

text \<open>
  Read from the bottom, the stack leads from an old document to the current one: an external change
  is a change of the document below it, and the backset of an event takes the document above it
  back to the one below it; an event without a backset changed nothing.
\<close>

definition link :: "pool \<Rightarrow> stackElement \<Rightarrow> string \<Rightarrow> string \<Rightarrow> bool" where
  "link p el d e =
     (case el of
        ExternalChange c \<Rightarrow> applies p c d e
      | UndoableEvent ev \<Rightarrow> (case ev_backset ev of None \<Rightarrow> d = e | Some b \<Rightarrow> applies p b e d))"

fun chain :: "pool \<Rightarrow> stackElement list \<Rightarrow> string \<Rightarrow> string \<Rightarrow> bool" where
  "chain p [] d d' = (d = d')"
| "chain p (x # xs) d d' = (\<exists>e. link p x d e \<and> chain p xs e d')"

lemma chain_append [simp]: "chain p (xs @ ys) d d' = (\<exists>e. chain p xs d e \<and> chain p ys e d')"
  by (induction xs arbitrary: d) auto

lemma link_le: "pool_le p q \<Longrightarrow> link p el d e \<Longrightarrow> link q el d e"
  using applies_pool_le by (auto simp: link_def split: stackElement.splits option.splits)

lemma chain_le: "pool_le p q \<Longrightarrow> chain p xs d d' \<Longrightarrow> chain q xs d d'"
  by (induction xs arbitrary: d) (auto intro: link_le)

definition apart :: "stackElement \<Rightarrow> stackElement \<Rightarrow> bool" where
  "apart x y = (\<not> (isExternal x \<and> isExternal y))"

abbreviation elements :: "'e undoModule_scheme \<Rightarrow> stackElement list" where
  "elements s \<equiv> map snd (um_elements s)"

text \<open>
  The invariant: the stack leads to the document \<open>d\<close>; no two external changes are consecutive;
  \<open>numUndoableEvents\<close> counts the undoable events, of which there is at least one; \<open>undoPtr\<close> points
  at one of them.
\<close>

definition undo_ok :: "'e undoModule_scheme \<Rightarrow> string \<Rightarrow> bool" where
  "undo_ok s d =
     (\<exists>p d0. um_apool s = Some p \<and> pool_wf p \<and> chain p (elements s) d0 d \<and>
        successively apart (elements s) \<and>
        um_numUndoableEvents s = int (length (filter (\<lambda>x. \<not> isExternal x) (elements s))) \<and>
        0 \<le> um_undoPtr s \<and> um_undoPtr s < um_numUndoableEvents s)"

lemma undo_ok_num: "undo_ok s d \<Longrightarrow> 0 < um_numUndoableEvents s"
  by (auto simp: undo_ok_def)

subsection \<open>Moving an external change down\<close>

lemma wp_elementAt [wps]:
  "wp (elementAt i) Q s = (0 \<le> i \<and> i < int (length (um_elements s)) \<and> Q (um_elements s ! nat i) s)"
  by (auto simp: elementAt_def wps wp_lift js_nth_def)

lemma wp_setElement [wps]:
  "wp (setElement i x) Q s = Q () (s\<lparr>um_elements := (um_elements s)[nat i := x]\<rparr>)"
  by (simp add: setElement_def wps)

lemma wp_push [wps]:
  "wp (pushElement e) Q s =
     Q () (s\<lparr>um_elements := um_elements s @ [(um_fresh s, e)], um_fresh := um_fresh s + 1\<rparr>)"
  by (simp add: pushElement_def wps)

lemma wp_follow2:
  "um_apool s = Some p \<Longrightarrow> followIn a b r p = Inr (c, q) \<Longrightarrow>
   wp (withAPool (follow a b r)) Q s = Q c (s\<lparr>um_apool := Some q\<rparr>)"
  by (simp add: wp_def withAPool_def followIn_def)

lemma wp_compose2:
  "um_apool s = Some p \<Longrightarrow> composeIn a b p = Inr (c, q) \<Longrightarrow>
   wp (withAPool (compose a b)) Q s = Q c (s\<lparr>um_apool := Some q\<rparr>)"
  by (simp add: wp_def withAPool_def composeIn_def)

lemma followSelection_ok:
  assumes "applies p c d d'"
  shows "\<exists>sel'. followSelection c sel = Inr sel'"
proof -
  obtain es where "cs_on c d es" using assms by (auto simp: applies_def)
  from toSplices_script [OF this] obtain ss where "toSplices c = Inr ss" by blast
  then have "\<exists>a b. characterRangeFollow c (selStart sel) (selEnd sel) False = Inr (a, b)"
    by (auto simp: characterRangeFollow_def split: prod.split)
  then show ?thesis by (auto simp: followSelection_def)
qed

lemma um_swap:
  "s\<lparr>um_apool := p, um_elements := e\<rparr> = s\<lparr>um_elements := e, um_apool := p\<rparr>"
  by simp

text \<open>What becomes of an event when an external change is moved below it.\<close>

definition moved :: "pool \<Rightarrow> string \<Rightarrow> event \<Rightarrow> event \<Rightarrow> bool" where
  "moved p c ev ev' =
     (case ev_backset ev of
        None \<Rightarrow> ev_backset ev' = None
      | Some b \<Rightarrow> (\<exists>b' q. follow c b False (Some p) = Inr (b', Some q) \<and> ev_backset ev' = Some b'))"

lemma transformPair_wp:
  assumes s: "um_elements s = xs @ (u, UndoableEvent ev) # (x, ExternalChange c) # ys"
    and p: "um_apool s = Some p" "pool_wf p" and b: "ev_backset ev = Some b"
    and l: "applies p b d1 d0" "applies p c d1 d2"
    and i: "idx = int (length xs) + 1"
    and Q: "\<And>ev' c' q e. moved p c ev ev' \<Longrightarrow> pool_le p q \<Longrightarrow> link q (ExternalChange c') d0 e \<Longrightarrow>
      link q (UndoableEvent ev') e d2 \<Longrightarrow>
      Q () (s\<lparr>um_elements := xs @ (u, UndoableEvent ev') # (x, ExternalChange c') # ys, um_apool := Some q\<rparr>)"
  shows "wp (transformPair idx c x u ev) Q s"
proof -
  obtain b' p1 c' p2 e where f: "followIn c b False p = Inr (b', p1)" "followIn b c True p1 = Inr (c', p2)"
    "applies p1 b' d2 e" "applies p2 c' d0 e" and le0: "pool_wf p \<longrightarrow> pool_le p p1" "pool_wf p1 \<longrightarrow> pool_le p1 p2"
    using ot.fol_both [OF l(2,1), of False] by (metis (full_types))
  have le: "pool_le p p1" "pool_le p1 p2" using le0 p(2) pool_le_wf by blast+
  have b2: "applies p2 b' d2 e" using applies_pool_le [OF le(2) f(3)] .
  have q: "Q () (s\<lparr>um_elements := xs @ (u, UndoableEvent (ev\<lparr>ev_backset := Some b', ev_sel := z\<rparr>)) #
      (x, ExternalChange c') # ys, um_apool := Some p2\<rparr>)" for z
    by (rule Q [OF _ pool_le_trans [OF le]])
      (use f(4) b2 iffD2 [OF fold_followIn f(1)] b in \<open>simp_all add: link_def moved_def\<close>)
  have n: "nat idx = Suc (length xs)" "nat (idx - 1) = length xs" using i by simp_all
  show ?thesis
  proof (cases "ev_sel ev")
    case None
    have "ev\<lparr>ev_backset := Some b', ev_sel := None\<rparr> = ev\<lparr>ev_backset := Some b'\<rparr>"
      using None by (cases ev) simp
    note q' = q [of None, unfolded this]
    show ?thesis
      using q' None
      by (simp add: transformPair_def Let_def b wps wp_follow2 [OF p(1) f(1)] wp_follow2 [OF _ f(2)]
          s n list_update_append um_swap)
  next
    case (Some sel)
    obtain sel' where sel: "followSelection c sel = Inr sel'" using followSelection_ok [OF l(2)] by blast
    show ?thesis
      using q [of "Some sel'"] Some sel
      by (simp add: transformPair_def Let_def b wps wp_follow2 [OF p(1) f(1)] wp_follow2 [OF _ f(2)]
          s n list_update_append um_swap)
  qed
qed

lemma mergeBelow_wp:
  assumes s: "um_elements s = xs @ (x, ExternalChange c) # ys" and i: "idx = int (length xs) + 1"
    and p: "um_apool s = Some p" "pool_wf p"
    and l: "chain p (map snd xs) d0 d1" "link p (ExternalChange c) d1 d2"
    and Q1: "xs = [] \<or> \<not> isExternal (snd (last xs)) \<Longrightarrow> Q idx s"
    and Q2: "\<And>zs z c1 c2 q e. xs = zs @ [(z, ExternalChange c1)] \<Longrightarrow> pool_le p q \<Longrightarrow>
      chain q (map snd zs) d0 e \<Longrightarrow> link q (ExternalChange c2) e d2 \<Longrightarrow>
      Q (idx - 1) (s\<lparr>um_elements := zs @ (x, ExternalChange c2) # ys, um_apool := Some q\<rparr>)"
  shows "wp (mergeBelow idx x) Q s"
proof (cases "xs = []")
  case True
  with Q1 i show ?thesis by (simp add: mergeBelow_def wps)
next
  case False
  then obtain zs z el where xs: "xs = zs @ [(z, el)]" by (metis append_butlast_last_id prod.exhaust)
  have n: "nat (idx - 2) = length zs" "nat (idx - 1) = Suc (length zs)" "\<not> idx < 2"
    using i by (simp_all add: xs)
  show ?thesis
  proof (cases el)
    case (UndoableEvent ev)
    then have "Q idx s" using Q1 by (simp add: xs)
    with UndoableEvent s i n show ?thesis by (simp add: mergeBelow_def wps xs nth_append)
  next
    case (ExternalChange c1)
    with l(1) obtain e where e: "chain p (map snd zs) d0 e" "applies p c1 e d1"
      by (auto simp: xs link_def)
    moreover have "applies p c d1 d2" using l(2) by (simp add: link_def)
    ultimately obtain c2 q where f: "composeIn c1 c p = Inr (c2, q)" "pool_le p q" "applies q c2 e d2"
      using ot.com_applies p(2) by blast
    have "Q (idx - 1) (s\<lparr>um_elements := zs @ (x, ExternalChange c2) # ys, um_apool := Some q\<rparr>)"
      using Q2 [OF _ f(2) chain_le [OF f(2) e(1)]] f(3) ExternalChange xs by (simp add: link_def)
    moreover have "js_splice (zs @ (z, el) # (x, ExternalChange c2) # ys) (int (length zs)) 1 [] =
        zs @ (x, ExternalChange c2) # ys"
      by (simp add: js_splice_def Let_def nat_add_distrib)
    moreover have "idx - 2 = int (length zs)" using i xs by simp
    ultimately show ?thesis
      using ExternalChange s n
      by (simp add: mergeBelow_def wps xs nth_append wp_compose2 [OF p(1) f(1)] list_update_append um_swap)
  qed
qed

lemma successively_apart:
  "successively apart (xs @ y # z # ys) \<Longrightarrow> isExternal z \<Longrightarrow> \<not> isExternal y"
  by (auto simp: successively_append_iff apart_def)

text \<open>
  What \<open>moveDown\<close> does: the event comes to the top of the part it looks at, above the change, which
  may have joined an external change further down; the whole still leads to the same document.
\<close>

lemma moveDown_wp:
  assumes s: "um_elements s = xs @ (u, UndoableEvent ev) # (x, ExternalChange c) # ys"
    and i: "idx = int (length xs) + 1"
    and p: "um_apool s = Some p" "pool_wf p" and l: "chain p (elements s) d0 d"
    and sh: "successively apart (elements s)"
    and Q: "\<And>zs ev' c' q idx'. moved p c ev ev' \<Longrightarrow> pool_le p q \<Longrightarrow> idx' = int (length zs) + 1 \<Longrightarrow> length zs \<le> length xs \<Longrightarrow>
      length (filter (\<lambda>e. \<not> isExternal (snd e)) zs) = length (filter (\<lambda>e. \<not> isExternal (snd e)) xs) \<Longrightarrow>
      chain q (map snd (zs @ (x, ExternalChange c') # (u, UndoableEvent ev') # ys)) d0 d \<Longrightarrow>
      successively apart (map snd (zs @ (x, ExternalChange c') # (u, UndoableEvent ev') # ys)) \<Longrightarrow>
      Q idx' (s\<lparr>um_elements := zs @ (x, ExternalChange c') # (u, UndoableEvent ev') # ys, um_apool := Some q\<rparr>)"
  shows "wp (moveDown idx) Q s"
proof -
  have n: "nat idx = Suc (length xs)" "nat (idx - 1) = length xs" "0 < idx"
    "idx < 2 + (int (length xs) + int (length ys))" using i by simp_all
  obtain d1 d2 d3 where c: "chain p (map snd xs) d0 d1" "link p (UndoableEvent ev) d1 d2"
    "link p (ExternalChange c) d2 d3" "chain p (map snd ys) d3 d"
    using l by (auto simp: s)
  have shx: "successively apart (map snd xs)" "successively apart (map snd ys)"
    using sh by (auto simp: s successively_append_iff successively_Cons)
  text \<open>After the pair is transformed and swapped, \<open>mergeBelow\<close> finishes.\<close>
  have fin: "wp (mergeBelow idx x) Q (s\<lparr>um_elements := xs @ (x, ExternalChange c') # (u, UndoableEvent ev') # ys,
      um_apool := Some q\<rparr>)"
    if "pool_le p q" "link q (ExternalChange c') d1 e" "link q (UndoableEvent ev') e d3"
      and mv: "moved p c ev ev'" for c' ev' q e
  proof (rule mergeBelow_wp)
    let ?s = "s\<lparr>um_elements := xs @ (x, ExternalChange c') # (u, UndoableEvent ev') # ys, um_apool := Some q\<rparr>"
    show "um_elements ?s = xs @ (x, ExternalChange c') # (u, UndoableEvent ev') # ys" by simp
    show "um_apool ?s = Some q" "pool_wf q" using pool_le_wf [OF that(1)] by simp_all
    show "chain q (map snd xs) d0 d1" using chain_le [OF that(1) c(1)] .
    show "link q (ExternalChange c') d1 e" by fact
    show "idx = int (length xs) + 1" by fact
    have ys: "chain q (map snd ys) d3 d" using chain_le [OF that(1) c(4)] .
    {
      assume nx: "xs = [] \<or> \<not> isExternal (snd (last xs))"
      have "successively apart (map snd (xs @ (x, ExternalChange c') # (u, UndoableEvent ev') # ys))"
        using shx(1,2) nx by (auto simp: successively_append_iff successively_Cons apart_def last_map hd_map)
      moreover have "chain q (map snd (xs @ (x, ExternalChange c') # (u, UndoableEvent ev') # ys)) d0 d"
        using chain_le [OF that(1) c(1)] that(2,3) ys by auto
      ultimately show "Q idx ?s" using Q [OF mv that(1) i] by simp
    next
      fix zs z c1 c2 q2 e0
      assume m: "xs = zs @ [(z, ExternalChange c1)]" "pool_le q q2" "chain q2 (map snd zs) d0 e0"
        "link q2 (ExternalChange c2) e0 e"
      have "successively apart (map snd (zs @ (x, ExternalChange c2) # (u, UndoableEvent ev') # ys))"
        using shx(1,2) by (auto simp: m(1) successively_append_iff successively_Cons apart_def hd_map)
      moreover have "chain q2 (map snd (zs @ (x, ExternalChange c2) # (u, UndoableEvent ev') # ys)) d0 d"
        using m(3,4) link_le [OF m(2) that(3)] chain_le [OF m(2) ys] by auto
      moreover have "idx - 1 = int (length zs) + 1" using i m(1) by simp
      ultimately show "Q (idx - 1) (?s\<lparr>um_elements := zs @ (x, ExternalChange c2) # (u, UndoableEvent ev') # ys,
          um_apool := Some q2\<rparr>)"
        using Q [OF mv pool_le_trans [OF that(1) m(2)], of "idx - 1" zs c2] m(1) by simp
    }
  qed
  show ?thesis
  proof (cases "ev_backset ev")
    case None
    then have "d2 = d1" using c(2) by (simp add: link_def)
    then have "wp (mergeBelow idx x) Q (s\<lparr>um_elements := xs @ (x, ExternalChange c) # (u, UndoableEvent ev) # ys,
      um_apool := Some p\<rparr>)"
      using fin [OF pool_le_refl [OF p(2)], of c d3 ev] c(3) None by (simp add: link_def moved_def)
    moreover have "s\<lparr>um_elements := z, um_apool := Some p\<rparr> = s\<lparr>um_elements := z\<rparr>" for z
      using p(1) by (cases s) simp
    ultimately show ?thesis
      using None n(3,4) by (simp add: moveDown_def wps s n(1,2) nth_append list_update_append truthy_def)
  next
    case (Some b)
    have a: "applies p b d2 d1" "applies p c d2 d3" using c(2,3) Some by (simp_all add: link_def)
    have t: "truthy (Some b)" using applies_truthy [OF a(1)] .
    have "wp (transformPair idx c x u ev)
       (\<lambda>_. wp (bindA (elementAt idx) (\<lambda>ex'. bindA (elementAt (idx - 1)) (\<lambda>un'.
          thenA (setElement (idx - 1) ex') (thenA (setElement idx un') (mergeBelow idx x))))) Q) s"
    proof (rule transformPair_wp [OF s p Some a i])
      fix ev' c' q e
      assume mv: "moved p c ev ev'" and "pool_le p q" "link q (ExternalChange c') d1 e" "link q (UndoableEvent ev') e d3"
      from fin [OF this(2-4) mv] show "wp (bindA (elementAt idx) (\<lambda>ex'. bindA (elementAt (idx - 1)) (\<lambda>un'.
          thenA (setElement (idx - 1) ex') (thenA (setElement idx un') (mergeBelow idx x))))) Q
         (s\<lparr>um_elements := xs @ (u, UndoableEvent ev') # (x, ExternalChange c') # ys, um_apool := Some q\<rparr>)"
        using n(3,4) by (simp add: wps n(1,2) nth_append list_update_append um_swap)
    qed
    then show ?thesis
      using Some t n(3,4) by (simp add: moveDown_def wps s n(1,2) nth_append)
  qed
qed

subsection \<open>Exposing an event\<close>

text \<open>
  The loop from \<open>idx\<close>, everything above it being undoable: it ends, for it only goes down, and it
  finds an element below every external change it has to move, as long as there are more than
  \<open>n\<close> undoable events.
\<close>

lemma exposeLoop_ok:
  fixes s :: "'e undoModule_scheme"
  assumes s: "um_elements s = xs @ (x, el) # ys" and idx: "idx = int (length xs)"
    and ys: "filter (\<lambda>e. isExternal (snd e)) ys = []"
    and p: "um_apool s = Some p" "pool_wf p" and l: "chain p (elements s) d0 d"
    and sh: "successively apart (elements s)"
    and len: "int (length (um_elements s)) \<le> target + n + 1"
    and cnt: "n < int (length (filter (\<lambda>e. \<not> isExternal (snd e)) (um_elements s)))"
    and t: "target \<le> idx \<or> \<not> isExternal el"
  shows "\<exists>xs' x' ev ys' q d1. exposeLoop target idx s =
    Some (Inr (), s\<lparr>um_elements := xs' @ (x', UndoableEvent ev) # ys', um_apool := Some q\<rparr>) \<and>
    filter (\<lambda>e. isExternal (snd e)) ys' = [] \<and> pool_le p q \<and>
    chain q (map snd (xs' @ (x', UndoableEvent ev) # ys')) d1 d \<and>
    successively apart (map snd (xs' @ (x', UndoableEvent ev) # ys')) \<and> (idx \<le> target \<longrightarrow> ys' = ys) \<and>
    (\<exists>zs. ys' = zs @ ys) \<and>
    (target < idx \<and> \<not> isExternal el \<longrightarrow> (\<exists>zs. ys' = zs @ (x, el) # ys)) \<and>
    length (filter (\<lambda>e. \<not> isExternal (snd e)) (xs' @ (x', UndoableEvent ev) # ys')) =
    length (filter (\<lambda>e. \<not> isExternal (snd e)) (um_elements s))"
  using assms
proof (induction "2 * length xs + (if isExternal el then 1 else 0)" arbitrary: s xs x el ys idx p rule: less_induct)
  case less
  note s = less.prems(1) and idx = less.prems(2) and ys = less.prems(3) and p = less.prems(4,5)
    and l = less.prems(6) and sh = less.prems(7) and len = less.prems(8) and cnt = less.prems(9)
    and t = less.prems(10)
  have at0: "js_nth (um_elements s) idx = Inr (x, el)" by (simp add: js_nth_def s idx)
  have same: "s\<lparr>um_elements := um_elements s, um_apool := Some p\<rparr> = s" using p(1) by (cases s) simp
  have ysn: "length (filter (\<lambda>e. \<not> isExternal (snd e)) ys) = length ys"
    using ys by (simp add: filter_empty_conv filter_id_conv)
  show ?case
  proof (cases el)
    case (UndoableEvent ev)
    show ?thesis
    proof (cases "target < idx")
      case False
      then have "exposeLoop target idx s = Some (Inr (), s)"
        by (subst exposeLoop.simps) (simp add: at0 UndoableEvent)
      then have "exposeLoop target idx s =
          Some (Inr (), s\<lparr>um_elements := xs @ (x, UndoableEvent ev) # ys, um_apool := Some p\<rparr>)"
        using same by (simp add: s UndoableEvent)
      then show ?thesis
        using ys l sh pool_le_refl [OF p(2)] False idx unfolding s UndoableEvent
        by (intro exI conjI) (assumption | simp)+
    next
      case True
      then have e: "exposeLoop target idx s = exposeLoop target (idx - 1) s"
        by (subst exposeLoop.simps) (simp add: at0 UndoableEvent)
      have "xs \<noteq> []"
      proof
        assume "xs = []"
        with cnt have "n < 1 + int (length ys)" by (simp add: s UndoableEvent ysn)
        moreover have "1 + int (length ys) \<le> target + n + 1" using len by (simp add: s \<open>xs = []\<close>)
        ultimately show False using True idx \<open>xs = []\<close> by simp
      qed
      then obtain zs z el' where xs: "xs = zs @ [(z, el')]" by (metis append_butlast_last_id prod.exhaust)
      have "\<exists>xs' x' ev ys' q d1. exposeLoop target (idx - 1) s =
          Some (Inr (), s\<lparr>um_elements := xs' @ (x', UndoableEvent ev) # ys', um_apool := Some q\<rparr>) \<and>
        filter (\<lambda>e. isExternal (snd e)) ys' = [] \<and> pool_le p q \<and>
        chain q (map snd (xs' @ (x', UndoableEvent ev) # ys')) d1 d \<and>
        successively apart (map snd (xs' @ (x', UndoableEvent ev) # ys')) \<and>
        (idx - 1 \<le> target \<longrightarrow> ys' = (x, el) # ys) \<and> (\<exists>zs. ys' = zs @ (x, el) # ys) \<and>
        (target < idx - 1 \<and> \<not> isExternal el' \<longrightarrow> (\<exists>zs. ys' = zs @ (z, el') # (x, el) # ys)) \<and>
        length (filter (\<lambda>e. \<not> isExternal (snd e)) (xs' @ (x', UndoableEvent ev) # ys')) =
        length (filter (\<lambda>e. \<not> isExternal (snd e)) (um_elements s))"
        by (rule less.hyps [where xs = zs and x = z and el = el' and ys = "(x, el) # ys"])
          (use s idx ys p l sh len cnt True UndoableEvent in \<open>simp_all add: xs\<close>)
      then obtain xs' x' ev2 ys' q d1 where h: "exposeLoop target (idx - 1) s =
          Some (Inr (), s\<lparr>um_elements := xs' @ (x', UndoableEvent ev2) # ys', um_apool := Some q\<rparr>)"
        "filter (\<lambda>e. isExternal (snd e)) ys' = []" "pool_le p q"
        "chain q (map snd (xs' @ (x', UndoableEvent ev2) # ys')) d1 d"
        "successively apart (map snd (xs' @ (x', UndoableEvent ev2) # ys'))" "\<exists>zs. ys' = zs @ (x, el) # ys"
        "length (filter (\<lambda>e. \<not> isExternal (snd e)) (xs' @ (x', UndoableEvent ev2) # ys')) =
          length (filter (\<lambda>e. \<not> isExternal (snd e)) (um_elements s))" by blast
      have "\<exists>zs. ys' = zs @ ys" using h(6) by (metis append.assoc append_Cons append_Nil)
      then show ?thesis
        by (intro exI [of _ xs'] exI [of _ x'] exI [of _ ev2] exI [of _ ys'] exI [of _ q] exI [of _ d1])
          (use h(1-7) e True in simp)
    qed
  next
    case (ExternalChange c)
    then have ti: "target \<le> idx" using t by simp
    have "xs \<noteq> []"
    proof
      assume "xs = []"
      with cnt have "n < int (length ys)" by (simp add: s ExternalChange ysn)
      moreover have "1 + int (length ys) \<le> target + n + 1" using len by (simp add: s \<open>xs = []\<close>)
      ultimately show False using ti idx \<open>xs = []\<close> by simp
    qed
    then obtain zs z el' where xs: "xs = zs @ [(z, el')]" by (metis append_butlast_last_id prod.exhaust)
    have "\<not> isExternal el'"
      using sh by (auto simp: s xs ExternalChange successively_append_iff successively_Cons apart_def)
    then obtain ev where ev: "el' = UndoableEvent ev" by (cases el') auto
    have s2: "um_elements s = zs @ (z, UndoableEvent ev) # (x, ExternalChange c) # ys"
      by (simp add: s xs ev ExternalChange)
    have i2: "idx = int (length zs) + 1" by (simp add: idx xs)
    have "wp (moveDown idx) (\<lambda>idx' s'. \<exists>ws ev' c' q. pool_le p q \<and> idx' = int (length ws) + 1 \<and>
        length ws \<le> length zs \<and> s' = s\<lparr>um_elements := ws @ (x, ExternalChange c') # (z, UndoableEvent ev') # ys,
          um_apool := Some q\<rparr> \<and>
        length (filter (\<lambda>e. \<not> isExternal (snd e)) ws) = length (filter (\<lambda>e. \<not> isExternal (snd e)) zs) \<and>
        chain q (map snd (ws @ (x, ExternalChange c') # (z, UndoableEvent ev') # ys)) d0 d \<and>
        successively apart (map snd (ws @ (x, ExternalChange c') # (z, UndoableEvent ev') # ys))) s"
      by (rule moveDown_wp [OF s2 i2 p l sh]) blast
    then obtain idx' s' ws ev' c' q where m: "moveDown idx s = (Inr idx', s')" "pool_le p q"
      "idx' = int (length ws) + 1" "length ws \<le> length zs"
      "s' = s\<lparr>um_elements := ws @ (x, ExternalChange c') # (z, UndoableEvent ev') # ys, um_apool := Some q\<rparr>"
      "length (filter (\<lambda>e. \<not> isExternal (snd e)) ws) = length (filter (\<lambda>e. \<not> isExternal (snd e)) zs)"
      "chain q (map snd (ws @ (x, ExternalChange c') # (z, UndoableEvent ev') # ys)) d0 d"
      "successively apart (map snd (ws @ (x, ExternalChange c') # (z, UndoableEvent ev') # ys))"
      by (fastforce dest!: wp_returns)
    have e: "exposeLoop target idx s = exposeLoop target idx' s'"
      by (subst exposeLoop.simps) (simp add: at0 ExternalChange m(1))
    have u: "um_elements s' = (ws @ [(x, ExternalChange c')]) @ (z, UndoableEvent ev') # ys"
      by (simp add: m(5))
    have cnt': "length (filter (\<lambda>e. \<not> isExternal (snd e)) (um_elements s')) =
        length (filter (\<lambda>e. \<not> isExternal (snd e)) (um_elements s))"
      by (simp add: u s2 m(6))
    have len': "int (length (um_elements s')) \<le> target + n + 1"
      using len m(4) by (simp add: u s2)
    have i3: "idx' = int (length (ws @ [(x, ExternalChange c')]))" by (simp add: m(3))
    have less: "2 * length (ws @ [(x, ExternalChange c')]) + (if isExternal (UndoableEvent ev') then 1 else 0)
        < 2 * length xs + (if isExternal el then 1 else 0)"
      using m(4) by (simp add: xs ExternalChange)
    have p': "um_apool s' = Some q" "chain q (elements s') d0 d" "successively apart (elements s')"
      using m(7,8) by (simp_all add: m(5))
    have c': "n < int (length (filter (\<lambda>e. \<not> isExternal (snd e)) (um_elements s')))"
      "target \<le> idx' \<or> \<not> isExternal (UndoableEvent ev')" using cnt cnt' by simp_all
    from less.hyps [OF less u i3 ys p'(1) pool_le_wf [OF m(2)] p'(2,3) len' c']
    obtain xs' x' ev2 ys' q' d1 where h: "exposeLoop target idx' s' =
          Some (Inr (), s'\<lparr>um_elements := xs' @ (x', UndoableEvent ev2) # ys', um_apool := Some q'\<rparr>)"
        "filter (\<lambda>e. isExternal (snd e)) ys' = []" "pool_le q q'"
        "chain q' (map snd (xs' @ (x', UndoableEvent ev2) # ys')) d1 d"
        "successively apart (map snd (xs' @ (x', UndoableEvent ev2) # ys'))" "idx' \<le> target \<longrightarrow> ys' = ys"
        "\<exists>zs. ys' = zs @ ys"
        "target < idx' \<and> \<not> isExternal (UndoableEvent ev') \<longrightarrow> (\<exists>zs. ys' = zs @ (z, UndoableEvent ev') # ys)"
        "length (filter (\<lambda>e. \<not> isExternal (snd e)) (xs' @ (x', UndoableEvent ev2) # ys')) =
        length (filter (\<lambda>e. \<not> isExternal (snd e)) (um_elements s'))"
      by blast
    have "idx' \<le> idx" using m(3,4) i2 by simp
    show ?thesis
      by (rule exI [of _ xs'], rule exI [of _ x'], rule exI [of _ ev2], rule exI [of _ ys'],
          rule exI [of _ q'], rule exI [of _ d1], intro conjI)
        (use e h cnt' m(5) pool_le_trans [OF m(2) h(3)] \<open>idx' \<le> idx\<close> ExternalChange in simp_all)
  qed
qed

lemma exposeEvent_ok:
  assumes ok: "undo_ok s d" and n: "0 \<le> n" "n < um_numUndoableEvents s"
  shows "\<exists>xs x ev ys q d1. exposeEvent n s =
      (Inr (), s\<lparr>um_elements := xs @ (x, UndoableEvent ev) # ys, um_apool := Some q\<rparr>) \<and>
    undo_ok (s\<lparr>um_elements := xs @ (x, UndoableEvent ev) # ys, um_apool := Some q\<rparr>) d \<and>
    filter (\<lambda>e. isExternal (snd e)) ys = [] \<and> pool_le (the (um_apool s)) q \<and> pool_wf q \<and>
    chain q (map snd xs @ UndoableEvent ev # map snd ys) d1 d \<and> (n = 0 \<longrightarrow> ys = []) \<and>
    (0 < n \<and> um_elements s \<noteq> [] \<and> \<not> isExternal (snd (last (um_elements s))) \<longrightarrow>
      (\<exists>zs. ys = zs @ [last (um_elements s)]))"
proof -
  obtain p d0 where p: "um_apool s = Some p" "pool_wf p" "chain p (elements s) d0 d"
    "successively apart (elements s)"
    "um_numUndoableEvents s = int (length (filter (\<lambda>x. \<not> isExternal x) (elements s)))"
    "0 \<le> um_undoPtr s" "um_undoPtr s < um_numUndoableEvents s" using ok by (auto simp: undo_ok_def)
  have cnt: "length (filter (\<lambda>e. \<not> isExternal (snd e)) xs) = length (filter (\<lambda>x. \<not> isExternal x) (map snd xs))"
    for xs :: "(nat \<times> stackElement) list" by (simp add: filter_map comp_def)
  have "um_elements s \<noteq> []" using p(5-7) by auto
  then obtain xs x el where xs: "um_elements s = xs @ [(x, el)]" by (metis append_butlast_last_id prod.exhaust)
  let ?top = "int (length (um_elements s)) - 1"
  have h: "?top = int (length xs)" "int (length (um_elements s)) \<le> ?top - n + n + 1"
    "n < int (length (filter (\<lambda>e. \<not> isExternal (snd e)) (um_elements s)))"
    "?top - n \<le> ?top \<or> \<not> isExternal el"
    using n p(5) cnt [of "um_elements s"] by (simp_all add: xs)
  from exposeLoop_ok [OF xs h(1) filter.simps(1) p(1-4) h(2-4)]
  obtain xs' x' ev ys' q d1 where e: "exposeLoop (?top - n) ?top s =
    Some (Inr (), s\<lparr>um_elements := xs' @ (x', UndoableEvent ev) # ys', um_apool := Some q\<rparr>)"
    "filter (\<lambda>e. isExternal (snd e)) ys' = []" "pool_le p q"
    "chain q (map snd (xs' @ (x', UndoableEvent ev) # ys')) d1 d"
    "successively apart (map snd (xs' @ (x', UndoableEvent ev) # ys'))" "?top \<le> ?top - n \<longrightarrow> ys' = []"
    "\<exists>zs. ys' = zs @ []"
    "?top - n < ?top \<and> \<not> isExternal el \<longrightarrow> (\<exists>zs. ys' = zs @ [(x, el)])"
    "length (filter (\<lambda>e. \<not> isExternal (snd e)) (xs' @ (x', UndoableEvent ev) # ys')) =
     length (filter (\<lambda>e. \<not> isExternal (snd e)) (um_elements s))" by blast
  have "undo_ok (s\<lparr>um_elements := xs' @ (x', UndoableEvent ev) # ys', um_apool := Some q\<rparr>) d"
    unfolding undo_ok_def
    using pool_le_wf [OF e(3)] e(4,5,9) p(5-7) cnt [of "um_elements s"]
      cnt [of "xs' @ (x', UndoableEvent ev) # ys'"] by (intro exI [of _ q] exI [of _ d1]) simp
  moreover have "exposeEvent n s =
      (Inr (), s\<lparr>um_elements := xs' @ (x', UndoableEvent ev) # ys', um_apool := Some q\<rparr>)"
    using e(1) by (simp add: exposeEvent_def Let_def)
  moreover have "n = 0 \<longrightarrow> ys' = []" using e(6) by simp
  moreover have "0 < n \<and> um_elements s \<noteq> [] \<and> \<not> isExternal (snd (last (um_elements s))) \<longrightarrow>
      (\<exists>zs. ys' = zs @ [last (um_elements s)])" using e(8) by (simp add: xs)
  ultimately show ?thesis
    using e(2,3,4) p(1) pool_le_wf [OF e(3)]
    by (intro exI [of _ xs'] exI [of _ x'] exI [of _ ev] exI [of _ ys'] exI [of _ q] exI [of _ d1]) simp
qed

text \<open>The event on top: its backset, where it has one, takes the current document back.\<close>

lemma getTop_wp:
  assumes ok: "undo_ok s d"
  shows "wp (getNthFromTop 0) (\<lambda>r s'. undo_ok s' d \<and> (\<exists>xs x ev p d1 d0. r = (x, UndoableEvent ev) \<and>
    um_elements s' = xs @ [(x, UndoableEvent ev)] \<and> um_apool s' = Some p \<and> pool_le (the (um_apool s)) p \<and>
    um_undoPtr s' = um_undoPtr s \<and> um_numUndoableEvents s' = um_numUndoableEvents s \<and>
    chain p (map snd xs) d0 d1 \<and> link p (UndoableEvent ev) d1 d)) s"
proof -
  have n: "0 < um_numUndoableEvents s" using undo_ok_num [OF ok] .
  from exposeEvent_ok [OF ok order.refl n] obtain xs x ev ys q d1 where
    e0: "exposeEvent 0 s = (Inr (), s\<lparr>um_elements := xs @ (x, UndoableEvent ev) # ys, um_apool := Some q\<rparr>)"
      "undo_ok (s\<lparr>um_elements := xs @ (x, UndoableEvent ev) # ys, um_apool := Some q\<rparr>) d"
      "chain q (map snd xs @ UndoableEvent ev # map snd ys) d1 d" "pool_le (the (um_apool s)) q"
      "(0::int) = 0 \<longrightarrow> ys = []" by metis
  then have ys: "ys = []" by simp
  note e = e0(1-4) [unfolded ys list.map]
  have w: "wp (exposeEvent 0) Q s = Q () (s\<lparr>um_elements := xs @ [(x, UndoableEvent ev)], um_apool := Some q\<rparr>)"
    for Q by (simp add: wp_def e(1))
  show ?thesis using e(2,3,4) by (auto simp: getNthFromTop_def wps w nth_append)
qed

text \<open>
  The backset of the last event, as it applies to the current document: followed over the external
  change since, where there is one.
\<close>

fun lastBackset :: "stackElement list \<Rightarrow> pool option \<Rightarrow> string option res" where
  "lastBackset (UndoableEvent ev # _) p = Inr (ev_backset ev)"
| "lastBackset (ExternalChange c # UndoableEvent ev # _) p =
     (case ev_backset ev of
        None \<Rightarrow> Inr None
      | Some b \<Rightarrow> bindE (follow c b False p) (\<lambda>(b', _). Inr (Some b')))"
| "lastBackset _ p = Inr None"

lemma exposeTop_last:
  assumes ok: "undo_ok s d" and e: "exposeEvent 0 s = (Inr (), s')"
    and s': "um_elements s' = xs @ [(x, UndoableEvent ev)]"
  shows "lastBackset (rev (elements s)) (um_apool s) = Inr (ev_backset ev)"
proof -
  obtain p d0 where p: "um_apool s = Some p" "pool_wf p" "chain p (elements s) d0 d"
    "successively apart (elements s)"
    "um_numUndoableEvents s = int (length (filter (\<lambda>x. \<not> isExternal x) (elements s)))"
    "0 \<le> um_undoPtr s" "um_undoPtr s < um_numUndoableEvents s" using ok by (auto simp: undo_ok_def)
  have "um_elements s \<noteq> []" using p(5-7) by auto
  then obtain ys y el where ys: "um_elements s = ys @ [(y, el)]" by (metis append_butlast_last_id prod.exhaust)
  let ?top = "int (length ys)"
  have e': "exposeLoop ?top ?top s = Some (Inr (), s')"
    using e by (simp add: exposeEvent_def Let_def ys split: option.splits)
  have at: "js_nth (um_elements s) ?top = Inr (y, el)" by (simp add: js_nth_def ys)
  show ?thesis
  proof (cases el)
    case (UndoableEvent ev0)
    have "s' = s" using e' by (subst (asm) exposeLoop.simps) (simp add: at UndoableEvent)
    with s' ys UndoableEvent show ?thesis by simp
  next
    case (ExternalChange c)
    have "ys \<noteq> []" using p(5-7) by (auto simp: ys ExternalChange)
    then obtain zs z el2 where zs: "ys = zs @ [(z, el2)]" by (metis append_butlast_last_id prod.exhaust)
    have "\<not> isExternal el2"
      using p(4) by (auto simp: ys zs ExternalChange successively_append_iff apart_def)
    then obtain ev2 where ev2: "el2 = UndoableEvent ev2" by (cases el2) auto
    have s2: "um_elements s = zs @ (z, UndoableEvent ev2) # (y, ExternalChange c) # []"
      by (simp add: ys zs ev2 ExternalChange)
    have i2: "?top = int (length zs) + 1" by (simp add: zs)
    have "wp (moveDown ?top) (\<lambda>idx' t. \<exists>ws ev' c' q. moved p c ev2 ev' \<and> idx' = int (length ws) + 1 \<and>
        length ws \<le> length zs \<and> t = s\<lparr>um_elements := ws @ [(y, ExternalChange c'), (z, UndoableEvent ev')],
          um_apool := Some q\<rparr>) s"
      by (rule moveDown_wp [OF s2 i2 p(1-4)]) blast
    then obtain idx' t ws ev' c' q where m: "moveDown ?top s = (Inr idx', t)" "moved p c ev2 ev'"
      "idx' = int (length ws) + 1" "length ws \<le> length zs"
      "t = s\<lparr>um_elements := ws @ [(y, ExternalChange c'), (z, UndoableEvent ev')], um_apool := Some q\<rparr>"
      by (fastforce dest!: wp_returns)
    have "exposeLoop ?top idx' t = Some (Inr (), s')"
      using e' by (subst (asm) exposeLoop.simps) (simp add: at ExternalChange m(1))
    moreover have "js_nth (um_elements t) idx' = Inr (z, UndoableEvent ev')"
      by (simp add: js_nth_def m(3,5) nth_append nat_add_distrib)
    moreover have "\<not> ?top < idx'" using m(3,4) i2 by simp
    ultimately have "s' = t" by (subst (asm) exposeLoop.simps) simp
    then have "ev' = ev" using s' m(5) by simp
    with m(2) show ?thesis
      by (auto simp: s2 moved_def p(1) split: option.splits)
  qed
qed

subsection \<open>Reports\<close>

lemma opcodeOccurrences_ok: "applies p c d e \<Longrightarrow> \<exists>n. opcodeOccurrences c opc = Inr n"
proof -
  assume "applies p c d e"
  then obtain es where "cs_on c d es" by (auto simp: applies_def)
  then obtain u where "unpack c = Inr u" by (auto simp: cs_on_def split: sum.splits)
  then show ?thesis by (simp add: opcodeOccurrences_def)
qed

lemma mergeIf_wp:
  assumes p: "um_apool s = Some p" "pool_wf p" and b: "applies p b d' d" "applies p t d d1"
    and Q: "\<And>m q. pool_le p q \<Longrightarrow> (\<And>c. m = Some c \<Longrightarrow> applies q c d' d1) \<Longrightarrow> Q m (s\<lparr>um_apool := Some q\<rparr>)"
  shows "wp (mergeIf b t i j) Q s"
proof -
  obtain c q where f: "composeIn b t p = Inr (c, q)" "pool_le p q" "applies q c d' d1"
    using ot.com_applies [OF b] p(2) by blast
  obtain i' where i: "opcodeOccurrences c ''+'' = Inr i'" using opcodeOccurrences_ok [OF f(3)] by blast
  obtain j' where j: "opcodeOccurrences c ''-'' = Inr j'" using opcodeOccurrences_ok [OF f(3)] by blast
  have "Q (Some c) (s\<lparr>um_apool := Some q\<rparr>)" "Q None (s\<lparr>um_apool := Some q\<rparr>)"
    by (rule Q [OF f(2)]; use f(3) in simp)+
  then show ?thesis
    using i j by (simp add: mergeIf_def wps wp_compose2 [OF p(1) f(1)])
qed

lemma mergeChangesets_wp:
  assumes p: "um_apool s = Some p" "pool_wf p" and b: "applies p b d' d"
    and t: "case tb of None \<Rightarrow> d = d1 | Some x \<Rightarrow> applies p x d d1"
    and Q: "\<And>m q. pool_le p q \<Longrightarrow> (\<And>c. m = Some c \<Longrightarrow> applies q c d' d1) \<Longrightarrow> Q m (s\<lparr>um_apool := Some q\<rparr>)"
  shows "wp (mergeChangesets (Some b) tb) Q s"
proof -
  have same: "s\<lparr>um_apool := Some p\<rparr> = s" using p(1) by (cases s) simp
  note tr = applies_truthy [OF b]
  obtain ip jp where ob: "opcodeOccurrences b ''+'' = Inr ip" "opcodeOccurrences b ''-'' = Inr jp"
    using opcodeOccurrences_ok [OF b] by metis
  show ?thesis
  proof (cases tb)
    case None
    then have "Q (Some b) s" using Q [OF pool_le_refl [OF p(2)], of "Some b"] b t same by simp
    with None tr show ?thesis by (simp add: mergeChangesets_def wps) (simp add: truthy_def wps)
  next
    case (Some x)
    with t have x: "applies p x d d1" by simp
    obtain ix jx where ox: "opcodeOccurrences x ''+'' = Inr ix" "opcodeOccurrences x ''-'' = Inr jx"
      using opcodeOccurrences_ok [OF x] by metis
    have "Q None s" using Q [OF pool_le_refl [OF p(2)], of None] same by simp
    moreover have "wp (mergeIf b x i j) Q s" for i j
      using p b x by (rule mergeIf_wp) (rule Q)
    ultimately show ?thesis
      using Some tr applies_truthy [OF x] ob ox by (simp add: mergeChangesets_def wps)
  qed
qed

text \<open>The change an event reports: its backset takes the new document back to the old one.\<close>

definition reported :: "pool \<Rightarrow> event \<Rightarrow> string \<Rightarrow> string \<Rightarrow> bool" where
  "reported p ev d d' = (case ev_backset ev of None \<Rightarrow> d' = d | Some b \<Rightarrow> applies p b d' d)"

lemma undo_okI:
  assumes "um_elements s = xs @ [(x, el)]" and "um_apool s = Some p" and "pool_wf p"
    and "chain p (map snd xs) d0 d1" and "link p el d1 d"
    and "successively apart (map snd xs @ [el])"
    and "0 \<le> um_undoPtr s" and "um_undoPtr s < um_numUndoableEvents s"
    and "um_numUndoableEvents s = int (length (filter (\<lambda>x. \<not> isExternal x) (map snd xs @ [el])))"
  shows "undo_ok s d"
  unfolding undo_ok_def using assms by (intro exI [of _ p] exI [of _ d0]) auto

lemma reportEvent_wp:
  assumes ok: "undo_ok s d" and r: "reported (the (um_apool s)) ev d d'"
  shows "wp (reportEvent ev) (\<lambda>_ s'. undo_ok s' d' \<and> pool_le (the (um_apool s)) (the (um_apool s'))) s"
proof -
  let ?Q = "\<lambda>_ s'. undo_ok s' d' \<and> pool_le (the (um_apool s)) (the (um_apool s'))"
  let ?k = "\<lambda>(_, topEvent).
     bindA (if truthy (ev_backset ev) then liftA (isIdentity (the (ev_backset ev))) else ret True)
       (\<lambda>noChange.
     if noChange then applySelectionToTop ev
     else
       bindA (if (case topEvent of UndoableEvent e \<Rightarrow> ev_type e = ev_type ev | ExternalChange _ \<Rightarrow> False)
              then bindA (mergeChangesets (ev_backset ev) (backsetOf topEvent)) (\<lambda>merge.
                   if truthy merge
                   then thenA (updateTop (\<lambda>e. e\<lparr>ev_backset := merge\<rparr>))
                       (thenA (applySelectionToTop ev) (ret True))
                   else ret False)
              else ret False) (\<lambda>merged.
       thenA (whenA (\<not> merged) (pushEvent ev))
         (modA (\<lambda>s. s\<lparr>um_undoPtr := 0\<rparr>))))"
  have "wp (getNthFromTop 0) (\<lambda>r. wp (?k r) ?Q) s"
  proof (rule wp_mono [OF getTop_wp [OF ok]], elim conjE exE)
    fix r s' xs x top p d1 d0
    assume ok': "undo_ok s' d" and r': "r = (x, UndoableEvent top)"
      and s': "um_elements s' = xs @ [(x, UndoableEvent top)]"
      and p: "um_apool s' = Some p" and le: "pool_le (the (um_apool s)) p"
      and c: "chain p (map snd xs) d0 d1" and l: "link p (UndoableEvent top) d1 d"
      and num: "um_numUndoableEvents s' = um_numUndoableEvents s"
    have wf: "pool_wf p" using pool_le_wf [OF le] .
    have sh: "successively apart (map snd xs @ [UndoableEvent top])"
      "0 \<le> um_undoPtr s' \<and> um_undoPtr s' < um_numUndoableEvents s'"
      "um_numUndoableEvents s' = int (length (filter (\<lambda>x. \<not> isExternal x) (map snd xs @ [UndoableEvent top])))"
      using ok' by (auto simp: undo_ok_def s')
    have sh': "successively apart (map snd xs @ [UndoableEvent e])" for e
      using sh(1) by (auto simp: successively_append_iff apart_def)
    have upd: "undo_ok (s'\<lparr>um_elements := xs @ [(x, UndoableEvent e)], um_apool := Some q, um_undoPtr := k\<rparr>) d2"
      if "pool_le p q" "link q (UndoableEvent e) d1 d2" "0 \<le> k" "k < um_numUndoableEvents s'" for e q d2 k
      by (rule undo_okI [OF _ _ pool_le_wf [OF that(1)] chain_le [OF that(1) c] that(2) sh'])
        (use sh(2,3) that(3,4) in simp_all)
    have same: "s'\<lparr>um_elements := z, um_apool := Some p, um_undoPtr := um_undoPtr s'\<rparr> = s'\<lparr>um_elements := z\<rparr>"
      for z using p by (cases s') simp
    have sel: "wp (applySelectionToTop ev) Q t = Q () (t\<lparr>um_elements := xs @ [(x, UndoableEvent e')]\<rparr>)"
      if "um_elements t = xs @ [(x, UndoableEvent e)]"
        "e' = (case ev_sel ev of None \<Rightarrow> e | Some z \<Rightarrow> e\<lparr>ev_sel := Some z\<rparr>)" for Q t e e'
      using that by (cases "ev_sel ev"; cases t)
        (simp_all add: applySelectionToTop_def updateTop_def wps updateLast_def)
    show "wp (?k r) ?Q s'"
    proof (cases "\<exists>b. ev_backset ev = Some b \<and> isIdentity b \<noteq> Inr True")
      case False
      have nc: "d' = d \<and> (truthy (ev_backset ev) \<longrightarrow> isIdentity (the (ev_backset ev)) = Inr True)"
        using False r isIdentity_applies by (force simp: reported_def truthy_def split: option.splits)
      let ?e = "case ev_sel ev of None \<Rightarrow> top | Some z \<Rightarrow> top\<lparr>ev_sel := Some z\<rparr>"
      have "link p (UndoableEvent ?e) d1 d" using l by (auto simp: link_def split: option.splits)
      from upd [OF pool_le_refl [OF wf] this, of "um_undoPtr s'"] sh(2)
      have "undo_ok (s'\<lparr>um_elements := xs @ [(x, UndoableEvent ?e)]\<rparr>) d" by (simp only: same)
      then show ?thesis using nc p le by (simp add: r' wps sel [OF s' refl])
    next
      case True
      then obtain b where b: "ev_backset ev = Some b" "isIdentity b \<noteq> Inr True" by blast
      with r have a0: "applies (the (um_apool s)) b d' d" by (simp add: reported_def)
      have a: "applies p b d' d" using applies_pool_le [OF le a0] .
      have i: "isIdentity b = Inr False" using isIdentity_applies [OF a] b(2) by (metis (full_types))
      note tr = applies_truthy [OF a]
      have push: "undo_ok (s'\<lparr>um_apool := Some q, um_elements := xs @ [(x, UndoableEvent top), (n, UndoableEvent ev)],
          um_fresh := k, um_numUndoableEvents := um_numUndoableEvents s' + 1, um_undoPtr := 0\<rparr>) d'"
        if "pool_le p q" for q n k
      proof (rule undo_okI)
        show "chain q (map snd (xs @ [(x, UndoableEvent top)])) d0 d"
          using chain_le [OF that c] link_le [OF that l] by auto
        show "link q (UndoableEvent ev) d d'" using applies_pool_le [OF that a] b(1) by (simp add: link_def)
        show "successively apart (map snd (xs @ [(x, UndoableEvent top)]) @ [UndoableEvent ev])"
          using sh(1) by (auto simp: successively_append_iff apart_def)
      qed (use sh(2,3) pool_le_wf [OF that] in simp_all)
      have pushw: "wp (thenA (pushEvent ev) (modA (\<lambda>s. s\<lparr>um_undoPtr := 0\<rparr>))) ?Q (s'\<lparr>um_apool := Some q\<rparr>)"
        if "pool_le p q" for q
        using push [OF that] pool_le_trans [OF le that] by (simp add: pushEvent_def wps s')
      have "s'\<lparr>um_apool := Some p\<rparr> = s'" using p by (cases s') simp
      with pushw [OF pool_le_refl [OF wf]]
      have pushp: "wp (thenA (pushEvent ev) (modA (\<lambda>s. s\<lparr>um_undoPtr := 0\<rparr>))) ?Q s'" by simp
      show ?thesis
      proof (cases "ev_type top = ev_type ev")
        case False
        then show ?thesis using pushp b(1) tr i by (simp add: r' wps)
      next
        case True
        have tb: "case backsetOf (UndoableEvent top) of None \<Rightarrow> d = d1 | Some z \<Rightarrow> applies p z d d1"
          using l applies_truthy by (auto simp: link_def split: option.splits)
        have "wp (mergeChangesets (Some b) (backsetOf (UndoableEvent top))) (\<lambda>merge.
            wp (if truthy merge
                   then thenA (updateTop (\<lambda>e. e\<lparr>ev_backset := merge\<rparr>))
                       (thenA (applySelectionToTop ev) (ret True))
                   else ret False) (\<lambda>merged. wp (thenA (whenA (\<not> merged) (pushEvent ev))
                     (modA (\<lambda>s. s\<lparr>um_undoPtr := 0\<rparr>))) ?Q)) s'"
        proof (rule mergeChangesets_wp [OF p wf a tb])
          fix m q
          assume q: "pool_le p q" and m: "\<And>c. m = Some c \<Longrightarrow> applies q c d' d1"
          show "wp (if truthy m
                   then thenA (updateTop (\<lambda>e. e\<lparr>ev_backset := m\<rparr>))
                       (thenA (applySelectionToTop ev) (ret True))
                   else ret False) (\<lambda>merged. wp (thenA (whenA (\<not> merged) (pushEvent ev))
                     (modA (\<lambda>s. s\<lparr>um_undoPtr := 0\<rparr>))) ?Q) (s'\<lparr>um_apool := Some q\<rparr>)"
          proof (cases "truthy m")
            case False
            then show ?thesis using pushw [OF q] by (simp add: wps)
          next
            case True
            then obtain c2 where c2: "m = Some c2" by (auto simp: truthy_def)
            let ?t = "top\<lparr>ev_backset := m\<rparr>"
            let ?e = "case ev_sel ev of None \<Rightarrow> ?t | Some z \<Rightarrow> ?t\<lparr>ev_sel := Some z\<rparr>"
            have "link q (UndoableEvent ?e) d1 d'" using m [OF c2] c2 by (auto simp: link_def split: option.splits)
            then have u: "undo_ok (s'\<lparr>um_elements := xs @ [(x, UndoableEvent ?e)], um_apool := Some q,
                um_undoPtr := 0\<rparr>) d'" by (rule upd [OF q]) (use sh(2) in simp_all)
            have w: "um_elements (s'\<lparr>um_elements := xs @ [(x, UndoableEvent ?t)], um_apool := Some q\<rparr>) =
                xs @ [(x, UndoableEvent ?t)]" by simp
            show ?thesis
              using True u pool_le_trans [OF le q]
              by (simp add: wps updateTop_def updateLast_def s' sel [OF w refl] um_swap)
          qed
        qed
        then show ?thesis using True b(1) tr i by (simp add: r' wps)
      qed
    qed
  qed
  then show ?thesis by (simp add: reportEvent_def wps)
qed

lemma reportExternalChange_wp:
  assumes ok: "undo_ok s d" and c: "applies (the (um_apool s)) c d d'"
  shows "wp (reportExternalChange (Some c)) (\<lambda>_ s'. undo_ok s' d') s"
proof -
  obtain p d0 where p: "um_apool s = Some p" "pool_wf p" "chain p (elements s) d0 d"
    "successively apart (elements s)"
    "um_numUndoableEvents s = int (length (filter (\<lambda>x. \<not> isExternal x) (elements s)))"
    "0 \<le> um_undoPtr s" "um_undoPtr s < um_numUndoableEvents s" using ok by (auto simp: undo_ok_def)
  have a: "applies p c d d'" using c p(1) by simp
  obtain b where b: "isIdentity c = Inr b" "b \<longrightarrow> d' = d" using isIdentity_applies [OF a] by blast
  have "um_elements s \<noteq> []" using p(5-7) by auto
  then obtain xs x el where xs: "um_elements s = xs @ [(x, el)]" by (metis append_butlast_last_id prod.exhaust)
  have "wp (pushExternalChange c) (\<lambda>_ s'. undo_ok s' d') s"
  proof (cases el)
    case (UndoableEvent ev)
    have "undo_ok (s\<lparr>um_elements := um_elements s @ [(um_fresh s, ExternalChange c)], um_fresh := um_fresh s + 1\<rparr>) d'"
      by (rule undo_okI [OF _ _ p(2,3), where el = "ExternalChange c" and x = "um_fresh s"])
        (use a p UndoableEvent in \<open>auto simp: link_def xs successively_append_iff apart_def\<close>)
    then show ?thesis by (simp add: pushExternalChange_def wps xs UndoableEvent nat_int_add)
  next
    case (ExternalChange c0)
    with p(3) obtain e where e: "chain p (map snd xs) d0 e" "applies p c0 e d" by (auto simp: xs link_def)
    obtain c1 q where f: "composeIn c0 c p = Inr (c1, q)" "pool_le p q" "applies q c1 e d'"
      using ot.com_applies [OF e(2) a] p(2) by blast
    have "undo_ok (s\<lparr>um_elements := xs @ [(x, ExternalChange c1)], um_apool := Some q\<rparr>) d'"
      by (rule undo_okI [OF _ _ pool_le_wf [OF f(2)] chain_le [OF f(2) e(1)], where el = "ExternalChange c1" and x = x])
        (use f(3) p(4-7) ExternalChange in \<open>auto simp: link_def xs successively_append_iff apart_def\<close>)
    then show ?thesis
      by (simp add: pushExternalChange_def wps xs ExternalChange wp_compose2 [OF p(1) f(1)] um_swap
          list_update_append)
  qed
  moreover have "d' = d \<Longrightarrow> undo_ok s d'" using ok by simp
  ultimately show ?thesis
    using b applies_truthy [OF a] by (simp add: reportExternalChange_def wps)
qed

text \<open>
  What the editor does when it is asked to undo or redo with a backset: it changes the document to
  \<open>d'\<close>, adds to the pool at most, and returns the event that reports the change.
\<close>

definition answers :: "'e eventFunc \<Rightarrow> string \<Rightarrow> string \<Rightarrow> bool" where
  "answers f d d' = (\<forall>b sel t. undo_ok t d \<longrightarrow>
     wp (f b sel) (\<lambda>ev t'. (\<exists>q. t' = t\<lparr>um_apool := Some q\<rparr> \<and> pool_le (the (um_apool t)) q) \<and>
       reported (the (um_apool t')) ev d d') t)"

lemma undo_ok_grow:
  assumes ok: "undo_ok t d" and q: "pool_le (the (um_apool t)) q"
  shows "undo_ok (t\<lparr>um_apool := Some q\<rparr>) d"
proof -
  obtain p d0 where p: "um_apool t = Some p" "chain p (elements t) d0 d" "successively apart (elements t)"
    "um_numUndoableEvents t = int (length (filter (\<lambda>x. \<not> isExternal x) (elements t)))"
    "0 \<le> um_undoPtr t" "um_undoPtr t < um_numUndoableEvents t" using ok by (auto simp: undo_ok_def)
  have "pool_le p q" using q p(1) by simp
  note c = chain_le [OF this p(2)]
  have "um_apool (t\<lparr>um_apool := Some q\<rparr>) = Some q \<and> pool_wf q \<and> chain q (elements (t\<lparr>um_apool := Some q\<rparr>)) d0 d"
    using c pool_le_wf [OF q] by simp
  moreover have "successively apart (elements (t\<lparr>um_apool := Some q\<rparr>))" using p(3) by simp
  moreover have "um_numUndoableEvents (t\<lparr>um_apool := Some q\<rparr>) =
      int (length (filter (\<lambda>x. \<not> isExternal x) (elements (t\<lparr>um_apool := Some q\<rparr>))))" using p(4) by simp
  moreover have "0 \<le> um_undoPtr (t\<lparr>um_apool := Some q\<rparr>)" using p(5) by simp
  moreover have "um_undoPtr (t\<lparr>um_apool := Some q\<rparr>) < um_numUndoableEvents (t\<lparr>um_apool := Some q\<rparr>)"
    using p(6) by simp
  ultimately show ?thesis unfolding undo_ok_def by blast
qed

lemma pushEvent_ok:
  assumes ok: "undo_ok t d" and r: "reported (the (um_apool t)) ev d d'"
  shows "wp (pushEvent ev) (\<lambda>_ t'. undo_ok t' d' \<and> um_numUndoableEvents t' = um_numUndoableEvents t + 1 \<and>
    um_undoPtr t' = um_undoPtr t) t"
proof -
  obtain p d0 where p: "um_apool t = Some p" "pool_wf p" "chain p (elements t) d0 d"
    "successively apart (elements t)"
    "um_numUndoableEvents t = int (length (filter (\<lambda>x. \<not> isExternal x) (elements t)))"
    "0 \<le> um_undoPtr t" "um_undoPtr t < um_numUndoableEvents t" using ok by (auto simp: undo_ok_def)
  have "undo_ok (t\<lparr>um_elements := um_elements t @ [(um_fresh t, UndoableEvent ev)], um_fresh := um_fresh t + 1,
      um_numUndoableEvents := um_numUndoableEvents t + 1\<rparr>) d'"
    by (rule undo_okI [OF _ _ p(2,3), where el = "UndoableEvent ev" and x = "um_fresh t"])
      (use r p in \<open>auto simp: reported_def link_def successively_append_iff apart_def split: option.splits\<close>)
  then show ?thesis by (simp add: pushEvent_def wps)
qed

lemma undo_ok_ptr:
  "undo_ok t d \<Longrightarrow> 0 \<le> k \<Longrightarrow> k < um_numUndoableEvents t \<Longrightarrow> undo_ok (t\<lparr>um_undoPtr := k\<rparr>) d"
  by (auto simp: undo_ok_def)

lemma getNth_wp:
  assumes ok: "undo_ok s d" and n: "0 \<le> n" "n < um_numUndoableEvents s"
  shows "wp (getNthFromTop n) (\<lambda>r s'. undo_ok s' d \<and> um_numUndoableEvents s' = um_numUndoableEvents s \<and>
    um_undoPtr s' = um_undoPtr s) s"
proof -
  obtain xs x ev ys q where
    e: "exposeEvent n s = (Inr (), s\<lparr>um_elements := xs @ (x, UndoableEvent ev) # ys, um_apool := Some q\<rparr>)"
      "undo_ok (s\<lparr>um_elements := xs @ (x, UndoableEvent ev) # ys, um_apool := Some q\<rparr>) d"
    using exposeEvent_ok [OF ok n] by blast
  let ?s = "s\<lparr>um_elements := xs @ (x, UndoableEvent ev) # ys, um_apool := Some q\<rparr>"
  have "um_numUndoableEvents ?s \<le> int (length (um_elements ?s))"
  proof -
    have "um_numUndoableEvents ?s = int (length (filter (\<lambda>x. \<not> isExternal x) (elements ?s)))"
      using e(2) unfolding undo_ok_def by blast
    also have "\<dots> \<le> int (length (elements ?s))" by (rule of_nat_mono [OF length_filter_le])
    finally show ?thesis by simp
  qed
  then have "n < int (length (um_elements ?s))" using n(2) by simp
  moreover have "wp (exposeEvent n) Q s = Q () ?s" for Q by (simp add: wp_def e(1))
  ultimately show ?thesis using e(2) n(1) by (simp add: getNthFromTop_def wps)
qed

subsection \<open>Undo and redo\<close>

lemma wp_mod_fun: "wp (modA g) Q = (\<lambda>s. Q () (g s))"
  by (rule ext) (simp add: wps)

lemma answers_wp:
  assumes f: "answers f d d'" and ok: "undo_ok t d"
  shows "wp (f b sel) (\<lambda>ev t'. undo_ok t' d \<and> reported (the (um_apool t')) ev d d' \<and>
    um_numUndoableEvents t' = um_numUndoableEvents t \<and> um_undoPtr t' = um_undoPtr t \<and>
    um_elements t' = um_elements t \<and> pool_le (the (um_apool t)) (the (um_apool t'))) t"
proof -
  have "wp (f b sel) (\<lambda>ev t'. (\<exists>q. t' = t\<lparr>um_apool := Some q\<rparr> \<and> pool_le (the (um_apool t)) q) \<and>
       reported (the (um_apool t')) ev d d') t" using assms by (simp add: answers_def)
  then show ?thesis by (rule wp_mono) (use undo_ok_grow [OF ok] in auto)
qed

lemma performUndo_wp:
  fixes s :: "'e undoModule_scheme"
  assumes ok: "undo_ok s d" and f: "answers f d d'" and can: "um_undoPtr s < um_numUndoableEvents s - 1"
  shows "wp (performUndo f) (\<lambda>_ s'. undo_ok s' d' \<and> um_undoPtr s' = um_undoPtr s + 2) s"
proof -
  have n: "0 \<le> um_undoPtr s" "um_undoPtr s < um_numUndoableEvents s" using ok by (auto simp: undo_ok_def)
  have rest: "wp (bindA (deref r) (\<lambda>el. bindA (f (backsetField el) sel) (\<lambda>undoEvent.
       thenA (pushEvent undoEvent) (modA (\<lambda>s. s\<lparr>um_undoPtr := um_undoPtr s + 2\<rparr>)))))
       (\<lambda>_ s'. undo_ok s' d' \<and> um_undoPtr s' = um_undoPtr s + 2) t"
    if "undo_ok t d" "um_numUndoableEvents t = um_numUndoableEvents s" "um_undoPtr t = um_undoPtr s"
    for r sel and t :: "'e undoModule_scheme"
  proof -
    have "wp (f b sel) (\<lambda>ev. wp (thenA (pushEvent ev) (modA (\<lambda>s. s\<lparr>um_undoPtr := um_undoPtr s + 2\<rparr>)))
        (\<lambda>_ s'. undo_ok s' d' \<and> um_undoPtr s' = um_undoPtr s + 2)) t" for b
    proof (rule wp_mono [OF answers_wp [OF f that(1)]], elim conjE)
      fix ev t'
      assume t': "undo_ok t' d" "reported (the (um_apool t')) ev d d'"
        "um_numUndoableEvents t' = um_numUndoableEvents t" "um_undoPtr t' = um_undoPtr t"
      show "wp (thenA (pushEvent ev) (modA (\<lambda>s. s\<lparr>um_undoPtr := um_undoPtr s + 2\<rparr>)))
          (\<lambda>_ s'. undo_ok s' d' \<and> um_undoPtr s' = um_undoPtr s + 2) t'"
        unfolding wp_then
        by (rule wp_mono [OF pushEvent_ok [OF t'(1,2)]])
          (use t'(3,4) that(2,3) can n(1) in \<open>auto simp: wps intro!: undo_ok_ptr\<close>)
    qed
    then show ?thesis by (simp add: wp_bind deref_def wp_get)
  qed
  have "wp (getNthFromTop (um_undoPtr s)) (\<lambda>r. wp (bindA (getNthFromTop (um_undoPtr s + 1)) (\<lambda>selectionEvent.
       bindA (deref r) (\<lambda>el. bindA (f (backsetField el) (getSelectionInfo (snd selectionEvent))) (\<lambda>undoEvent.
       thenA (pushEvent undoEvent) (modA (\<lambda>s. s\<lparr>um_undoPtr := um_undoPtr s + 2\<rparr>))))))
       (\<lambda>_ s'. undo_ok s' d' \<and> um_undoPtr s' = um_undoPtr s + 2)) s"
  proof (rule wp_mono [OF getNth_wp [OF ok n]], elim conjE)
    fix r and t :: "'e undoModule_scheme"
    assume t: "undo_ok t d" "um_numUndoableEvents t = um_numUndoableEvents s" "um_undoPtr t = um_undoPtr s"
    have k: "0 \<le> um_undoPtr s + 1" "um_undoPtr s + 1 < um_numUndoableEvents t" using can n t(2) by simp_all
    show "wp (bindA (getNthFromTop (um_undoPtr s + 1)) (\<lambda>selectionEvent.
       bindA (deref r) (\<lambda>el. bindA (f (backsetField el) (getSelectionInfo (snd selectionEvent))) (\<lambda>undoEvent.
       thenA (pushEvent undoEvent) (modA (\<lambda>s. s\<lparr>um_undoPtr := um_undoPtr s + 2\<rparr>))))))
       (\<lambda>_ s'. undo_ok s' d' \<and> um_undoPtr s' = um_undoPtr s + 2) t"
      unfolding wp_bind [of "getNthFromTop _"]
      by (rule wp_mono [OF getNth_wp [OF t(1) k]]) (use rest t(2,3) in auto)
  qed
  then show ?thesis using can by (simp add: performUndo_def wps)
qed

text \<open>
  The first undo after an edit, and every redo, work on the event on top: the editor is asked for
  exactly the backset of that event, which applies to the current document.
\<close>

lemma topBackset:
  assumes ok: "undo_ok s d" and n: "1 < um_numUndoableEvents s"
  shows "\<exists>b r1 s1 r2 s2 q e. lastBackset (rev (elements s)) (um_apool s) = Inr b \<and> getNthFromTop 0 s = (Inr r1, s1) \<and> getNthFromTop 1 s1 = (Inr r2, s2) \<and>
    deref r1 s2 = (Inr e, s2) \<and> backsetField e = b \<and> undo_ok s2 d \<and> um_apool s2 = Some q \<and>
    (\<exists>ws x ev d0. um_elements s2 = ws @ [(x, UndoableEvent ev)] \<and> e = UndoableEvent ev \<and>
      link q (UndoableEvent ev) d0 d \<and> (\<exists>d1. chain q (map snd ws) d1 d0)) \<and>
    um_numUndoableEvents s2 = um_numUndoableEvents s \<and> um_undoPtr s2 = um_undoPtr s"
proof -
  from wp_returns [OF getTop_wp [OF ok]] obtain r1 s1 xs x ev where
    t1: "getNthFromTop 0 s = (Inr r1, s1)" "undo_ok s1 d" "r1 = (x, UndoableEvent ev)"
      "um_elements s1 = xs @ [(x, UndoableEvent ev)]"
      "um_undoPtr s1 = um_undoPtr s" "um_numUndoableEvents s1 = um_numUndoableEvents s" by blast
  have n1: "0 \<le> (1::int)" "1 < um_numUndoableEvents s1" using n t1(6) by simp_all
  have "exposeEvent 0 s = (Inr (), s1)"
    using t1(1) by (auto simp: getNthFromTop_def thenA_def bindA_def getA_def elementAt_def liftA_def
        split: prod.splits sum.splits)
  note lb = exposeTop_last [OF ok this t1(4)]
  from exposeEvent_ok [OF t1(2) n1] obtain ys y ev' zs q where
    e: "exposeEvent 1 s1 = (Inr (), s1\<lparr>um_elements := ys @ (y, UndoableEvent ev') # zs, um_apool := Some q\<rparr>)"
      "undo_ok (s1\<lparr>um_elements := ys @ (y, UndoableEvent ev') # zs, um_apool := Some q\<rparr>) d"
      "\<exists>d1. chain q (map snd ys @ UndoableEvent ev' # map snd zs) d1 d"
      "\<exists>ws. zs = ws @ [(x, UndoableEvent ev)]"
    using t1(4) by force
  obtain ws where ws: "zs = ws @ [(x, UndoableEvent ev)]" using e(4) by blast
  let ?s2 = "s1\<lparr>um_elements := ys @ (y, UndoableEvent ev') # zs, um_apool := Some q\<rparr>"
  have el: "um_elements ?s2 = (ys @ (y, UndoableEvent ev') # ws) @ [(x, UndoableEvent ev)]" by (simp add: ws)
  obtain r2 where r2: "getNthFromTop 1 s1 = (Inr r2, ?s2)"
    using wp_returns [OF getNth_wp [OF t1(2) n1]] e(1)
    by (auto simp: getNthFromTop_def thenA_def bindA_def getA_def elementAt_def liftA_def js_nth_def
        split: if_splits)
  have "deref r1 ?s2 = (Inr (UndoableEvent ev), ?s2)"
    by (simp add: deref_def getA_def el t1(3) del: select_convs)
  moreover obtain d0 d1 where "chain q (map snd (ys @ (y, UndoableEvent ev') # ws)) d1 d0"
    "link q (UndoableEvent ev) d0 d" using e(3) by (auto simp: ws)
  ultimately show ?thesis
    using t1 r2 e(2) el lb
    by (intro exI [of _ "ev_backset ev"] exI conjI) (assumption | rule refl | simp add: backsetField_def)+
qed

lemma popEvent_wp:
  assumes ok: "undo_ok t d" and el: "um_elements t = ws @ [(x, UndoableEvent ev)]"
    and q: "um_apool t = Some q" "chain q (map snd ws) d1 d0"
    and k: "2 \<le> um_undoPtr t"
  shows "wp popEvent (\<lambda>_ t'. undo_ok (t'\<lparr>um_undoPtr := um_undoPtr t' - 2\<rparr>) d0) t"
proof -
  have o: "pool_wf q" "successively apart (map snd ws)" "um_numUndoableEvents t =
      int (length (filter (\<lambda>x. \<not> isExternal x) (map snd ws))) + 1" "0 \<le> um_undoPtr t"
      "um_undoPtr t < um_numUndoableEvents t"
    using ok q(1) by (auto simp: undo_ok_def el successively_append_iff)
  have ex: "exposeEvent 0 t = (Inr (), t)"
    by (subst exposeEvent_def) (subst exposeLoop.simps, simp add: el js_nth_def Let_def)
  have w: "wp (exposeEvent 0) Q t = Q () t" for Q by (simp add: wp_def ex)
  have "undo_ok (t\<lparr>um_numUndoableEvents := um_numUndoableEvents t - 1, um_elements := ws,
      um_undoPtr := um_undoPtr t - 2\<rparr>) d0"
    unfolding undo_ok_def using o q k by (intro exI [of _ q] exI [of _ d1]) simp
  then show ?thesis by (simp add: popEvent_def wps w el)
qed

definition leads :: "pool \<Rightarrow> string option \<Rightarrow> string \<Rightarrow> string \<Rightarrow> bool" where
  "leads p b d d' = (case b of None \<Rightarrow> d' = d | Some c \<Rightarrow> applies p c d d')"

lemma leads_unique: "leads p b d d' \<Longrightarrow> leads q b d d'' \<Longrightarrow> d' = d''"
  by (auto simp: leads_def dest: ot.applies_unique split: option.splits)

lemma leads_le: "pool_le p q \<Longrightarrow> leads p b d d' \<Longrightarrow> leads q b d d'"
  by (auto simp: leads_def dest: applies_pool_le split: option.splits)

text \<open>Redo: the editor is asked with the backset of the top event, which is then taken off the stack.\<close>

lemma performRedo_runs:
  assumes ok: "undo_ok s d" and p: "2 \<le> um_undoPtr s"
  obtains b sel s2 d0 k where "\<And>f. performRedo f s = bindA (f b sel) k s2" "undo_ok s2 d"
    "leads (the (um_apool s2)) b d d0"
    "\<And>ev q. pool_le (the (um_apool s2)) q \<Longrightarrow> wp (k ev) (\<lambda>_ s'. undo_ok s' d0) (s2\<lparr>um_apool := Some q\<rparr>)"
proof -
  have "1 < um_numUndoableEvents s" using ok p by (auto simp: undo_ok_def)
  from topBackset [OF ok this] obtain b r1 s1 r2 s2 q e ws x ev d0 d1 where t:
    "getNthFromTop 0 s = (Inr r1, s1)" "getNthFromTop 1 s1 = (Inr r2, s2)" "deref r1 s2 = (Inr e, s2)"
    "backsetField e = b" "undo_ok s2 d" "um_apool s2 = Some q" "um_elements s2 = ws @ [(x, UndoableEvent ev)]"
    "e = UndoableEvent ev" "link q (UndoableEvent ev) d0 d" "chain q (map snd ws) d1 d0"
    "um_undoPtr s2 = um_undoPtr s" by blast
  let ?k = "\<lambda>_. bindA popEvent (\<lambda>_. modA (\<lambda>s. s\<lparr>um_undoPtr := um_undoPtr s - 2\<rparr>))"
  show thesis
  proof (rule that [of b "getSelectionInfo (snd r2)" ?k s2 d0])
    show "performRedo f s = bindA (f b (getSelectionInfo (snd r2))) ?k s2" for f
      using p t(1-4) by (simp add: performRedo_def bindA_def getA_def)
    show "leads (the (um_apool s2)) b d d0"
      using t(4,6,8,9) by (auto simp: leads_def backsetField_def link_def split: option.splits)
  next
    fix ev' q'
    assume q': "pool_le (the (um_apool s2)) q'"
    have "undo_ok (s2\<lparr>um_apool := Some q'\<rparr>) d" by (rule undo_ok_grow [OF t(5) q'])
    from popEvent_wp [OF this _ _ chain_le [OF _ t(10)]]
    show "wp (?k ev') (\<lambda>_ s'. undo_ok s' d0) (s2\<lparr>um_apool := Some q'\<rparr>)"
      using q' t(6,7,11) p by (simp add: wps wp_mod_fun)
  qed (rule t(5))
qed

subsection \<open>Sessions\<close>

text \<open>
  An editing session. The editor's function for redo may raise an exception; where it returns it has
  applied the backset it was given.
\<close>

definition redoes :: "'e eventFunc \<Rightarrow> string \<Rightarrow> string \<Rightarrow> bool" where
  "redoes f d d' = (\<forall>b sel t. undo_ok t d \<longrightarrow>
     (case f b sel t of
        (Inl _, _) \<Rightarrow> True
      | (Inr _, t') \<Rightarrow> leads (the (um_apool t)) b d d' \<and>
          (\<exists>q. t' = t\<lparr>um_apool := Some q\<rparr> \<and> pool_le (the (um_apool t)) q)))"

inductive undoSession :: "'e undoModule_scheme \<Rightarrow> string \<Rightarrow> bool" where
  start: "um_apool s = Some p \<Longrightarrow> pool_wf p \<Longrightarrow> clearHistory s = (r, s') \<Longrightarrow> undoSession s' d"
| report: "undoSession s d \<Longrightarrow> reported (the (um_apool s)) ev d d' \<Longrightarrow> reportEvent ev s = (r, s') \<Longrightarrow>
    undoSession s' d'"
| external: "undoSession s d \<Longrightarrow> applies (the (um_apool s)) c d d' \<Longrightarrow>
    reportExternalChange (Some c) s = (r, s') \<Longrightarrow> undoSession s' d'"
| undo: "undoSession s d \<Longrightarrow> um_undoPtr s < um_numUndoableEvents s - 1 \<Longrightarrow> answers f d d' \<Longrightarrow>
    performUndo f s = (r, s') \<Longrightarrow> undoSession s' d'"
| redo: "undoSession s d \<Longrightarrow> 2 \<le> um_undoPtr s \<Longrightarrow> redoes f d d' \<Longrightarrow>
    performRedo f s = (Inr x, s') \<Longrightarrow> undoSession s' d'"

lemma clearHistory_ok:
  assumes "um_apool s = Some p" and "pool_wf p" and "clearHistory s = (r, s')"
  shows "undo_ok s' d"
proof -
  have "wp clearHistory (\<lambda>_ s'. undo_ok s' d) s"
    using assms(1,2) by (simp add: clearHistory_def clearStack_def wps undo_ok_def link_def)
  from wp_result [OF this assms(3)] show ?thesis by blast
qed

lemma performRedo_ok:
  assumes ok: "undo_ok s d" and p: "2 \<le> um_undoPtr s" and f: "redoes f d d'"
    and run: "performRedo f s = (Inr x, s')"
  shows "undo_ok s' d'"
proof -
  obtain b sel s2 d0 k where k: "performRedo f s = bindA (f b sel) k s2" "undo_ok s2 d"
    "leads (the (um_apool s2)) b d d0"
    "\<And>ev q. pool_le (the (um_apool s2)) q \<Longrightarrow> wp (k ev) (\<lambda>_ s'. undo_ok s' d0) (s2\<lparr>um_apool := Some q\<rparr>)"
    using performRedo_runs [OF ok p] by metis
  obtain ev t' where e: "f b sel s2 = (Inr ev, t')" "k ev t' = (Inr x, s')"
    using run k(1) by (auto simp: bindA_def split: prod.splits sum.splits)
  then obtain q where q: "leads (the (um_apool s2)) b d d'" "t' = s2\<lparr>um_apool := Some q\<rparr>"
    "pool_le (the (um_apool s2)) q"
    using f [unfolded redoes_def, rule_format, OF k(2), of b sel] by auto
  have "d0 = d'" by (rule leads_unique [OF k(3) q(1)])
  then show ?thesis using wp_result [OF k(4) [OF q(3), of ev]] e(2) q(2) by metis
qed

lemma undoSession_ok:
  assumes "undoSession s d"
  shows "undo_ok s d"
  using assms
proof induction
  case (start s p r s' d)
  then show ?case by (rule clearHistory_ok)
next
  case (report s d ev d' r s')
  then show ?case using wp_result [OF reportEvent_wp] by blast
next
  case (external s d c d' r s')
  then show ?case using wp_result [OF reportExternalChange_wp] by blast
next
  case (undo s d f d' r s')
  then show ?case using wp_result [OF performUndo_wp] by blast
next
  case (redo s d f d' x s')
  then show ?case using performRedo_ok by blast
qed

text \<open>
  C17. However reports, changes of other authors, undos and redos follow each other, the stack keeps its
  invariant: read from the bottom it leads from an old document to the current one (external
  changes forwards, backsets backwards), no two external changes are consecutive, the count of
  undoable events is right and positive, and \<open>undoPtr\<close> points at one of them.
\<close>

theorem undoSession_stack:
  assumes "undoSession s d"
  shows "(\<exists>p d0. um_apool s = Some p \<and> pool_wf p \<and> chain p (map snd (um_elements s)) d0 d) \<and>
    (\<forall>xs x y ys. map snd (um_elements s) = xs @ x # y # ys \<longrightarrow> \<not> (isExternal x \<and> isExternal y)) \<and>
    um_numUndoableEvents s = int (length (filter (\<lambda>el. \<not> isExternal (snd el)) (um_elements s))) \<and>
    0 \<le> um_undoPtr s \<and> um_undoPtr s < um_numUndoableEvents s"
  using undoSession_ok [OF assms]
  by (auto simp: undo_ok_def successively_append_iff apart_def filter_map o_def)

text \<open>
  C32. No operation of a session fails: reporting an event, an external change or an undo the editor
  answers returns normally, and so does \<open>getNthFromTop\<close>, and with it \<open>_exposeEvent\<close>, for every event
  on the stack; the stack afterwards leads to the document the operation leaves.
\<close>

theorem undoSession_proceeds:
  assumes "undoSession s d"
  shows "(reported (the (um_apool s)) ev d d' \<longrightarrow> (\<exists>s'. reportEvent ev s = (Inr (), s') \<and> undo_ok s' d')) \<and>
    (applies (the (um_apool s)) c d d' \<longrightarrow>
      (\<exists>s'. reportExternalChange (Some c) s = (Inr (), s') \<and> undo_ok s' d')) \<and>
    (um_undoPtr s < um_numUndoableEvents s - 1 \<and> answers f d d' \<longrightarrow>
      (\<exists>s'. performUndo f s = (Inr (), s') \<and> undo_ok s' d' \<and> um_undoPtr s' = um_undoPtr s + 2)) \<and>
    (0 \<le> n \<and> n < um_numUndoableEvents s \<longrightarrow>
      (\<exists>el s'. getNthFromTop n s = (Inr el, s') \<and> undo_ok s' d))"
proof (intro conjI impI)
  note ok = undoSession_ok [OF assms]
  show "reported (the (um_apool s)) ev d d' \<Longrightarrow> \<exists>s'. reportEvent ev s = (Inr (), s') \<and> undo_ok s' d'"
    using wp_returns [OF reportEvent_wp [OF ok]] by auto
  show "applies (the (um_apool s)) c d d' \<Longrightarrow>
      \<exists>s'. reportExternalChange (Some c) s = (Inr (), s') \<and> undo_ok s' d'"
    using wp_returns [OF reportExternalChange_wp [OF ok]] by auto
  show "um_undoPtr s < um_numUndoableEvents s - 1 \<and> answers f d d' \<Longrightarrow>
      \<exists>s'. performUndo f s = (Inr (), s') \<and> undo_ok s' d' \<and> um_undoPtr s' = um_undoPtr s + 2"
    using wp_returns [OF performUndo_wp [OF ok]] by auto
  show "0 \<le> n \<and> n < um_numUndoableEvents s \<Longrightarrow> \<exists>el s'. getNthFromTop n s = (Inr el, s') \<and> undo_ok s' d"
    using wp_returns [OF getNth_wp [OF ok]] by blast
qed

text \<open>
  C33. What the editor is asked on a redo, and on the first undo after an edit: it is asked exactly
  once, with the backset of the last event, followed over the external change since if there is one
  (and with none just if that event has none); this backset leads from the current document to the one
  below the event. What follows is the push of the editor's event, or the pop of the event on top.
\<close>

theorem undo_redo_ask:
  assumes "undoSession s d" and "um_undoPtr s = 0 \<and> 1 < um_numUndoableEvents s \<or> 2 \<le> um_undoPtr s"
  shows "\<exists>b sel s2 d0. lastBackset (rev (elements s)) (um_apool s) = Inr b \<and>
    (if um_undoPtr s = 0
     then \<forall>f. performUndo f s = bindA (f b sel) (\<lambda>ev. thenA (pushEvent ev)
       (modA (\<lambda>s. s\<lparr>um_undoPtr := um_undoPtr s + 2\<rparr>))) s2
     else \<forall>f. performRedo f s = bindA (f b sel) (\<lambda>_. bindA popEvent (\<lambda>_.
       modA (\<lambda>s. s\<lparr>um_undoPtr := um_undoPtr s - 2\<rparr>))) s2) \<and>
    undo_ok s2 d \<and> leads (the (um_apool s2)) b d d0 \<and>
    (\<exists>xs x ev d1. um_elements s2 = xs @ [(x, UndoableEvent ev)] \<and> ev_backset ev = b \<and>
       chain (the (um_apool s2)) (map snd xs) d1 d0)"
proof -
  note ok = undoSession_ok [OF assms(1)]
  have "1 < um_numUndoableEvents s" using assms(2) ok by (auto simp: undo_ok_def)
  from topBackset [OF ok this] obtain b r1 s1 r2 s2 q e ws x ev d0 d1 where t:
    "lastBackset (rev (elements s)) (um_apool s) = Inr b"
    "getNthFromTop 0 s = (Inr r1, s1)" "getNthFromTop 1 s1 = (Inr r2, s2)" "deref r1 s2 = (Inr e, s2)"
    "backsetField e = b" "undo_ok s2 d" "um_apool s2 = Some q" "um_elements s2 = ws @ [(x, UndoableEvent ev)]"
    "e = UndoableEvent ev" "link q (UndoableEvent ev) d0 d" "chain q (map snd ws) d1 d0" by blast
  let ?sel = "getSelectionInfo (snd r2)"
  have b: "ev_backset ev = b" using t(5,9) by (simp add: backsetField_def)
  have "leads (the (um_apool s2)) b d d0"
    using t(7,10) b by (auto simp: leads_def link_def split: option.splits)
  moreover have "performUndo f s = bindA (f b ?sel) (\<lambda>ev. thenA (pushEvent ev)
      (modA (\<lambda>s. s\<lparr>um_undoPtr := um_undoPtr s + 2\<rparr>))) s2" if "um_undoPtr s = 0" for f
    using that \<open>1 < um_numUndoableEvents s\<close> t(2-5) by (simp add: performUndo_def bindA_def getA_def)
  moreover have "performRedo f s = bindA (f b ?sel) (\<lambda>_. bindA popEvent (\<lambda>_.
      modA (\<lambda>s. s\<lparr>um_undoPtr := um_undoPtr s - 2\<rparr>))) s2" if "um_undoPtr s \<noteq> 0" for f
    using that assms(2) t(2-5) by (simp add: performRedo_def bindA_def getA_def)
  ultimately show ?thesis
    using t(1,6,7,8,11) b
    by (intro exI [of _ b] exI [of _ ?sel] exI [of _ s2] exI [of _ d0]) auto
qed

subsection \<open>Counting characters\<close>

lemma js_indexOf_char:
  "0 \<le> i \<Longrightarrow> (if js_indexOf s [c] i < 0 then c \<notin> set (drop (nat i) s)
     else i \<le> js_indexOf s [c] i \<and> js_indexOf s [c] i < int (length s) \<and>
       count_list (drop (nat i) s) c = Suc (count_list (drop (nat (js_indexOf s [c] i) + 1) s) c))"
proof -
  have "case find_sub [c] t of None \<Rightarrow> c \<notin> set t
    | Some j \<Rightarrow> j < length t \<and> count_list t c = Suc (count_list (drop (Suc j) t) c)" for t
  proof (induction t)
    case (Cons a t)
    then show ?case 
      by (cases "a = c"; cases "find_sub [c] t"; simp split: option.splits)
  qed simp
  from this [of "drop (nat i) s"] show "0 \<le> i \<Longrightarrow> ?thesis"
    by (auto simp: js_indexOf_def Let_def nat_add_distrib add.commute split: option.splits)
qed

text \<open>
  \<open>_charOccurrences\<close> counts the occurrences of a character in a string, so that
  \<open>_opcodeOccurrences\<close> counts the insertions or removals of a changeset.
\<close>

theorem charOccurrences_counts: "charOccurrences str [c] = int (count_list str c)"
proof -
  have "0 \<le> i \<Longrightarrow> charOccurrences_loop str [c] i n = n + int (count_list (drop (nat i) str) c)" for i n
  proof (induction "nat (int (length str) - i)" arbitrary: i n rule: less_induct)
    case less
    let ?j = "js_indexOf str [c] i"
    have j: "if ?j < 0 then c \<notin> set (drop (nat i) str) else i \<le> ?j \<and> ?j < int (length str) \<and>
       count_list (drop (nat i) str) c = Suc (count_list (drop (nat ?j + 1) str) c)"
      by (rule js_indexOf_char [OF less.prems])
    show ?case
    proof (cases "i < int (length str) \<and> 0 \<le> ?j")
      case True
      then have "charOccurrences_loop str [c] (?j + 1) (n + 1) =
          n + 1 + int (count_list (drop (nat (?j + 1)) str) c)"
        using j by (intro less.hyps) auto
      with True j less.prems show ?thesis
        by (subst charOccurrences_loop.simps) (simp add: Let_def nat_add_distrib)
    next
      case False
      with j less.prems show ?thesis
        by (subst charOccurrences_loop.simps, subst charOccurrences_loop.simps)
          (auto simp: Let_def count_list_0_iff)
    qed
  qed
  from this [of 0 0] show ?thesis by (simp add: charOccurrences_def)
qed

subsection \<open>A sample session\<close>

definition emptyHistory :: undoModule where
  "emptyHistory = \<lparr>um_elements = [], um_fresh = 0, um_numUndoableEvents = 0, um_undoPtr = 0,
     um_apool = Some AttribPool\<rparr>"

definition sampleEvent :: event where
  "sampleEvent = \<lparr>ev_type = ''edit'', ev_backset = Some ''Z:4<1=1-1$'', ev_sel = None\<rparr>"

definition sampleHistory :: undoModule where
  "sampleHistory = snd (reportExternalChange (Some ''Z:4>1+1$p'')
     (snd (reportEvent sampleEvent (snd (clearHistory emptyHistory)))))"

lemma sample_changes:
  "applies AttribPool ''Z:4<1=1-1$'' (''axb'' @ [nl]) (''ab'' @ [nl])"
  "applies AttribPool ''Z:4>1+1$p'' (''axb'' @ [nl]) (''paxb'' @ [nl])"
proof -
  let ?es = "[Edit Keep '''' CHR ''a'', Edit Del '''' CHR ''x'']" and ?fs = "[Edit Ins '''' CHR ''p'']"
  have "''Z:4<1=1-1$'' = pack 4 3 (encode [\<lparr>opcode = Keep, chars = 1, lines = 0, attribs = ''''\<rparr>,
      \<lparr>opcode = Del, chars = 1, lines = 0, attribs = ''''\<rparr>]) '''' \<and> (0::int) \<le> 4 \<and>
      list_all lexable [\<lparr>opcode = Keep, chars = 1, lines = 0, attribs = ''''\<rparr>,
      \<lparr>opcode = Del, chars = 1, lines = 0, attribs = ''''\<rparr>]" by code_simp
  then have c1: "canonical ''Z:4<1=1-1$''" unfolding canonical_def by blast
  have "''Z:4>1+1$p'' = pack 4 5 (encode [\<lparr>opcode = Ins, chars = 1, lines = 0, attribs = ''''\<rparr>]) ''p'' \<and>
      (0::int) \<le> 4 \<and> list_all lexable [\<lparr>opcode = Ins, chars = 1, lines = 0, attribs = ''''\<rparr>]" by code_simp
  then have c2: "canonical ''Z:4>1+1$p''" unfolding canonical_def by blast
  have "cs_on ''Z:4<1=1-1$'' (''axb'' @ [nl]) ?es \<and> known AttribPool ?es \<and>
      result (''axb'' @ [nl]) ?es = ''ab'' @ [nl]"
    "cs_on ''Z:4>1+1$p'' (''axb'' @ [nl]) ?fs \<and> known AttribPool ?fs \<and>
      result (''axb'' @ [nl]) ?fs = ''paxb'' @ [nl]" by code_simp+
  then show "applies AttribPool ''Z:4<1=1-1$'' (''axb'' @ [nl]) (''ab'' @ [nl])"
    "applies AttribPool ''Z:4>1+1$p'' (''axb'' @ [nl]) (''paxb'' @ [nl])"
    using appliesI [OF pool_wf_empty c1] appliesI [OF pool_wf_empty c2] by metis+
qed

lemma sample_history:
  "undoSession sampleHistory (''paxb'' @ [nl])"
  "sampleHistory = \<lparr>um_elements = [(0, UndoableEvent \<lparr>ev_type = ''bottom'', ev_backset = None, ev_sel = None\<rparr>),
     (1, UndoableEvent sampleEvent), (2, ExternalChange ''Z:4>1+1$p'')], um_fresh = 3,
     um_numUndoableEvents = 2, um_undoPtr = 0, um_apool = Some AttribPool\<rparr>"
proof -
  let ?s0 = "snd (clearHistory emptyHistory)" and ?s1 = "snd (reportEvent sampleEvent (snd (clearHistory emptyHistory)))"
  have p: "um_apool emptyHistory = Some AttribPool \<and> um_apool ?s0 = Some AttribPool \<and>
      um_apool ?s1 = Some AttribPool" by code_simp
  have s0: "undoSession ?s0 (''ab'' @ [nl])"
    by (rule undoSession.start [OF _ pool_wf_empty surjective_pairing]) (use p in simp)
  have s1: "undoSession ?s1 (''axb'' @ [nl])"
    by (rule undoSession.report [OF s0 _ surjective_pairing])
      (use p sample_changes(1) in \<open>simp add: reported_def sampleEvent_def\<close>)
  show "undoSession sampleHistory (''paxb'' @ [nl])"
    unfolding sampleHistory_def
    by (rule undoSession.external [OF s1 _ surjective_pairing]) (use p sample_changes(2) in simp)
  show "sampleHistory = \<lparr>um_elements = [(0, UndoableEvent \<lparr>ev_type = ''bottom'', ev_backset = None, ev_sel = None\<rparr>),
     (1, UndoableEvent sampleEvent), (2, ExternalChange ''Z:4>1+1$p'')], um_fresh = 3,
     um_numUndoableEvents = 2, um_undoPtr = 0, um_apool = Some AttribPool\<rparr>" by code_simp
qed

theorem undoSession_stack_witness:
  "\<exists>d0. chain AttribPool [UndoableEvent \<lparr>ev_type = ''bottom'', ev_backset = None, ev_sel = None\<rparr>,
     UndoableEvent sampleEvent, ExternalChange ''Z:4>1+1$p''] d0 (''paxb'' @ [nl])"
  using undoSession_stack [OF sample_history(1)] by (simp add: sample_history(2))

theorem undoSession_proceeds_witness:
  "\<exists>el s'. getNthFromTop 1 sampleHistory = (Inr el, s') \<and> undo_ok s' (''paxb'' @ [nl])"
  using undoSession_proceeds [OF sample_history(1), where n = 1] by (simp add: sample_history(2))

theorem undo_redo_ask_witness:
  "\<exists>b sel k s2 d0. (\<forall>f. performUndo f sampleHistory = bindA (f (Some b) sel) k s2) \<and>
    applies (the (um_apool s2)) b (''paxb'' @ [nl]) d0"
proof -
  have c: "um_undoPtr sampleHistory = 0 \<and> 1 < um_numUndoableEvents sampleHistory"
    by (simp add: sample_history(2))
  obtain b sel k s2 d0 where b: "lastBackset (rev (elements sampleHistory)) (um_apool sampleHistory) = Inr b"
    "\<forall>f. performUndo f sampleHistory = bindA (f b sel) k s2" "leads (the (um_apool s2)) b (''paxb'' @ [nl]) d0"
    using undo_redo_ask [OF sample_history(1) disjI1 [OF c], unfolded if_P [OF conjunct1 [OF c]]] by blast
  from b(1) obtain b' where "b = Some b'"
    by (auto simp: sample_history(2) sampleEvent_def bindE_eq_Inr)
  with b(3) have "applies (the (um_apool s2)) b' (''paxb'' @ [nl]) d0" by (simp add: leads_def)
  with b(2) show ?thesis unfolding \<open>b = Some b'\<close> by blast
qed

subsection \<open>An event that is out of reach\<close>

text \<open>
  \<open>_exposeEvent\<close> computes the index of its target once, from the length of the array; where external
  changes are merged on the way, the array gets shorter and the event wanted ends up below that
  index. The editor here records what it is asked.
\<close>

record undoRun = undoModule +
  ur_asked :: "string option list"

definition recordingFunc :: "event \<Rightarrow> unit undoRun_ext eventFunc" where
  "recordingFunc ev b sel = thenA (modA (\<lambda>s. s\<lparr>ur_asked := ur_asked s @ [b]\<rparr>)) (ret ev)"

definition staleRun :: "(undoRun, unit) act" where
  "staleRun =
     (let event = (\<lambda>t b. \<lparr>ev_type = t, ev_backset = b, ev_sel = None\<rparr>);
          undo = performUndo (recordingFunc (event ''undo'' (Some ''Z:4>1=3+1$y''))) in
      thenA clearHistory
     (thenA (reportEvent (event ''a'' (Some ''Z:4<1=1-1$'')))
     (thenA (reportEvent (event ''b'' (Some ''Z:5<1=3-1$'')))
     (thenA undo
     (thenA (reportExternalChange (Some ''Z:4>1+1$p''))
     (thenA (reportEvent (event ''sel'' None))
     (thenA (reportExternalChange (Some ''Z:5>1+1$q''))
        undo)))))))"

text \<open>
  Two edits, an undo, a change of another author, a report of a selection, another change, and a second
  undo: the first undo asks the editor to take back the second edit, and the second undo asks it for
  nothing (its backset is missing), though the first edit is still to be undone.
\<close>

theorem exposeEvent_misses:
  "(let start = \<lparr>um_elements = [], um_fresh = 0, um_numUndoableEvents = 0, um_undoPtr = 0,
      um_apool = Some AttribPool, ur_asked = []\<rparr> in
    case staleRun start of (r, s) \<Rightarrow> r = Inr () \<and> ur_asked s = [Some ''Z:5<1=3-1$'', None])"
  by code_simp

end
