(* ===== verification/PadStore.thy ===== *)
theory PadStore
  imports UndoModule
begin

text \<open>
  The storage of a pad on the server: \<open>_getPadStringArray\<close> and the caches of
  \<open>etherpad/src/etherpad/pad/model.js\<close> over the string arrays of
  \<open>infrastructure/framework-src/modules/sqlbase/sqlbase.js\<close>. The tables themselves are the
  \<open>db_\<close> fields of the state. Values the code stores as JSON text are kept as values; JSON text is never
  empty, a plain string may be.
\<close>

subsection \<open>State\<close>

record revMeta =
  rm_t :: int
  rm_a :: int
  rm_atext :: "atext option"

text \<open>\<open>ad_colorId\<close> is there where \<open>colorId\<close> is a number.\<close>

record authorData =
  ad_colorId :: "int option"
  ad_name :: "string option"

datatype entry =
    TextEntry string
  | RevMetaEntry revMeta
  | AuthorEntry authorData
  | ChatEntry string

datatype arrayName = Revs | Revs10 | Revs100 | Revs1000 | RevMeta | Chat | Authors

record stringArray =
  sa_readCache :: "(int, entry) obj"
  sa_writeCache :: "(int, entry) obj"

record padStatus =
  st_validated :: bool
  st_lastAccess :: "int option"
  st_dirty :: bool

text \<open>
  \<open>meta\<close>; a field that may be absent is an option, and \<open>dataRoot\<close> holds \<open>padOptions.guestPolicy\<close>.
\<close>

record padMeta =
  mt_head :: int
  mt_padId :: string
  mt_keyRevInterval :: int
  mt_numChatMessages :: int
  mt_status :: "padStatus option"
  mt_supportsTimeSlider :: "bool option"
  mt_coarseHeads :: "(int, int) obj option"
  mt_dataRoot :: "string option option option"

record padTemp =
  tm_atext :: "atext option"
  tm_revisionSockets :: "(int, string) obj option"

text \<open>Calls of code outside these modules, in the order they are made.\<close>

datatype external =
    OnNewPad
  | OnDestroyPad
  | SqlMetaInsert int int
  | SqlMetaUpdate int int
  | SqlMetaDelete
  | HookWriteToDB
  | NotifyPadDirty
  | OnEditPad string
  | ActivePadsTouch

text \<open>
  \<open>pd_arrays\<close>, \<open>pd_metaCache\<close>, \<open>pd_apool\<close> and \<open>pd_temp\<close> are what \<open>appjet.cache.pads\<close> holds for the
  pad. The variable \<open>meta\<close> of an access refers to the cached object, or to one that is not in the
  cache: \<open>pd_detached\<close>. \<open>pd_modelCache\<close> is the part of the size-limited cache of texts that is
  about this pad, and \<open>pd_now\<close> the clock.
\<close>

record padState =
  pd_arrays :: "arrayName \<Rightarrow> stringArray option"
  pd_metaCache :: "padMeta option"
  pd_detached :: "padMeta option"
  pd_apool :: "pool option"
  pd_temp :: "padTemp option"
  pd_modelCache :: "(int, atext) obj"
  pd_now :: int
  pd_external :: "external list"
  db_arrays :: "arrayName \<Rightarrow> int \<Rightarrow> entry option"
  db_meta :: "padMeta option"
  db_apool :: "poolJson option"

definition externalCall :: "external \<Rightarrow> ('e padState_scheme, unit) act" where
  "externalCall c = modA (\<lambda>s. s\<lparr>pd_external := pd_external s @ [c]\<rparr>)"

subsection \<open>String arrays in the database\<close>

definition pageStart :: "int \<Rightarrow> int" where
  "pageStart n = (if n < 0 then - (- n div 20) * 20 else n div 20 * 20)"

text \<open>The \<open>(index, value)\<close> pairs present in the page of \<open>n\<close>.\<close>

definition pageElements :: "(int \<Rightarrow> entry option) \<Rightarrow> int \<Rightarrow> (int \<times> entry) list" where
  "pageElements db n =
     concat (map (\<lambda>i. case db i of None \<Rightarrow> [] | Some e \<Rightarrow> [(i, e)]) [pageStart n .. pageStart n + 19])"

definition getPageStringArrayElements ::
  "(int \<Rightarrow> entry option) \<Rightarrow> int \<Rightarrow> (int, entry) obj \<Rightarrow> (int, entry) obj" where
  "getPageStringArrayElements db n destMap =
     fold (\<lambda>(i, e) m. obj_put m i e) (pageElements db n) destMap"

definition putDictStringArrayElements ::
  "(int, entry) obj \<Rightarrow> (int \<Rightarrow> entry option) \<Rightarrow> (int \<Rightarrow> entry option)" where
  "putDictStringArrayElements nToValue db =
     fold (\<lambda>n d. d(n := obj_get nToValue n)) (sort (map fst nToValue)) db"

definition clearStringArray :: "arrayName \<Rightarrow> ('e padState_scheme, unit) act" where
  "clearStringArray name = modA (\<lambda>s. s\<lparr>db_arrays := (db_arrays s)(name := \<lambda>_. None)\<rparr>)"

subsection \<open>The string array object\<close>

fun truthyEntry :: "entry option \<Rightarrow> bool" where
  "truthyEntry None = False"
| "truthyEntry (Some (TextEntry s)) = (s \<noteq> '''')"
| "truthyEntry (Some e) = True"

definition setArray :: "arrayName \<Rightarrow> stringArray \<Rightarrow> ('e padState_scheme, unit) act" where
  "setArray name arr = modA (\<lambda>s. s\<lparr>pd_arrays := (pd_arrays s)(name := Some arr)\<rparr>)"

definition getPadStringArray :: "arrayName \<Rightarrow> ('e padState_scheme, stringArray) act" where
  "getPadStringArray name =
     bindA (getA (\<lambda>s. pd_arrays s name)) (\<lambda>padFoo.
     (case padFoo of
        Some arr \<Rightarrow> ret arr
      | None \<Rightarrow>
          (let arr = \<lparr>sa_readCache = [], sa_writeCache = []\<rparr>
           in thenA (setArray name arr) (ret arr))))"

definition getEntry :: "arrayName \<Rightarrow> int \<Rightarrow> ('e padState_scheme, entry option) act" where
  "getEntry name n =
     bindA (getPadStringArray name) (\<lambda>padFoo.
     if truthyEntry (obj_get (sa_writeCache padFoo) n) then ret (obj_get (sa_writeCache padFoo) n)
     else if truthyEntry (obj_get (sa_readCache padFoo) n) then ret (obj_get (sa_readCache padFoo) n)
     else
       bindA (getA (\<lambda>s. getPageStringArrayElements (db_arrays s name) n (sa_readCache padFoo))) (\<lambda>readCache.
       thenA (setArray name (padFoo\<lparr>sa_readCache := readCache\<rparr>))
         (ret (obj_get readCache n))))"

definition setEntry :: "arrayName \<Rightarrow> int \<Rightarrow> entry \<Rightarrow> ('e padState_scheme, unit) act" where
  "setEntry name n v =
     bindA (getPadStringArray name) (\<lambda>padFoo.
     setArray name (padFoo\<lparr>sa_writeCache := obj_put (sa_writeCache padFoo) n v\<rparr>))"

definition array_writeToDB :: "arrayName \<Rightarrow> ('e padState_scheme, unit) act" where
  "array_writeToDB name =
     bindA (getPadStringArray name) (\<lambda>padFoo.
     thenA (modA (\<lambda>s. s\<lparr>db_arrays := (db_arrays s)(name :=
              putDictStringArrayElements (sa_writeCache padFoo) (db_arrays s name))\<rparr>))
       (setArray name
          \<lparr>sa_readCache = fold (\<lambda>p m. case obj_get (sa_writeCache padFoo) p of
               None \<Rightarrow> m | Some v \<Rightarrow> obj_put m p v) (map fst (sa_writeCache padFoo)) (sa_readCache padFoo),
           sa_writeCache = []\<rparr>))"

definition forgetArray :: "arrayName \<Rightarrow> ('e padState_scheme, unit) act" where
  "forgetArray name = modA (\<lambda>s. s\<lparr>pd_arrays := (pd_arrays s)(name := None)\<rparr>)"

definition destroyPadStringArray :: "arrayName \<Rightarrow> ('e padState_scheme, unit) act" where
  "destroyPadStringArray name = thenA (forgetArray name) (clearStringArray name)"

subsection \<open>A store and its laws\<close>

text \<open>
  What the code above the store relies on: reading returns the value last written, whether it is still
  in the write cache, was saved, or was saved and forgotten.
\<close>

datatype ('n, 'v) storeOp = StoreGet 'n int | StorePut 'n int 'v | StoreSave 'n | StoreFlush 'n

fun storeEffect :: "('n, 'v) storeOp \<Rightarrow> ('n \<Rightarrow> int \<Rightarrow> 'v option) \<Rightarrow> ('n \<Rightarrow> int \<Rightarrow> 'v option)" where
  "storeEffect (StorePut a n v) m = m(a := (m a)(n \<mapsto> v))"
| "storeEffect _ m = m"

fun storeAct :: "('n \<Rightarrow> int \<Rightarrow> ('s, 'v option) act) \<Rightarrow> ('n \<Rightarrow> int \<Rightarrow> 'v \<Rightarrow> ('s, unit) act) \<Rightarrow>
    ('n \<Rightarrow> ('s, unit) act) \<Rightarrow> ('n \<Rightarrow> ('s, unit) act) \<Rightarrow> ('n, 'v) storeOp \<Rightarrow> ('s, unit) act" where
  "storeAct get put save forget (StoreGet a n) = bindA (get a n) (\<lambda>_. ret ())"
| "storeAct get put save forget (StorePut a n v) = put a n v"
| "storeAct get put save forget (StoreSave a) = save a"
| "storeAct get put save forget (StoreFlush a) = thenA (save a) (forget a)"

fun storable :: "('v \<Rightarrow> bool) \<Rightarrow> ('n, 'v) storeOp \<Rightarrow> bool" where
  "storable good (StorePut a n v) = good v"
| "storable good (StoreGet a n) = (0 \<le> n)"
| "storable good _ = True"

lemma wp_ret_fun: "wp (ret x) Q = Q x"
  by (rule ext) (simp add: wp_ret)

locale string_store =
  fixes ok :: "'s \<Rightarrow> bool"
    and content :: "'s \<Rightarrow> 'n \<Rightarrow> int \<Rightarrow> 'v option"
    and good :: "'v \<Rightarrow> bool"
    and get :: "'n \<Rightarrow> int \<Rightarrow> ('s, 'v option) act"
    and put :: "'n \<Rightarrow> int \<Rightarrow> 'v \<Rightarrow> ('s, unit) act"
    and save :: "'n \<Rightarrow> ('s, unit) act"
    and forget :: "'n \<Rightarrow> ('s, unit) act"
  assumes get: "ok s \<Longrightarrow> 0 \<le> n \<Longrightarrow> wp (get a n) (\<lambda>r s'. r = content s a n \<and> ok s' \<and> content s' = content s) s"
    and put: "ok s \<Longrightarrow> good v \<Longrightarrow> wp (put a n v)
      (\<lambda>_ s'. ok s' \<and> content s' = (content s)(a := (content s a)(n \<mapsto> v))) s"
    and save: "ok s \<Longrightarrow> wp (save a) (\<lambda>_ s'. ok s' \<and> content s' = content s \<and>
      wp (forget a) (\<lambda>_ s''. ok s'' \<and> content s'' = content s) s') s"
begin

lemma step:
  assumes "ok s" and "storable good op"
  shows "wp (storeAct get put save forget op) (\<lambda>_ s'. ok s' \<and> content s' = storeEffect op (content s)) s"
proof (cases op)
  case (StoreGet a n)
  then show ?thesis
    using wp_mono [OF get [OF assms(1), of n a], of "\<lambda>_ s'. ok s' \<and> content s' = content s"] assms(2)
    by (simp add: wps wp_ret_fun)
next
  case (StorePut a n v)
  then show ?thesis using put [OF assms(1)] assms(2) by simp
next
  case (StoreSave a)
  then show ?thesis
    using wp_mono [OF save [OF assms(1), of a], of "\<lambda>_ s'. ok s' \<and> content s' = content s"] by simp
next
  case (StoreFlush a)
  then show ?thesis
    using wp_mono [OF save [OF assms(1), of a],
        of "\<lambda>_. wp (forget a) (\<lambda>_ s'. ok s' \<and> content s' = content s)"] by (simp add: wps)
qed

lemma run:
  assumes "ok s" and "list_all (storable good) ops"
  shows "wp (forA (storeAct get put save forget) ops)
    (\<lambda>_ s'. ok s' \<and> content s' = fold storeEffect ops (content s)) s"
  using assms
proof (induction ops arbitrary: s)
  case Nil
  then show ?case by (simp add: wps)
next
  case (Cons op ops)
  have "wp (storeAct get put save forget op) (\<lambda>_ s'. ok s' \<and> content s' = storeEffect op (content s)) s"
    using step Cons.prems by simp
  then have "wp (storeAct get put save forget op) (\<lambda>_. wp (forA (storeAct get put save forget) ops)
      (\<lambda>_ s'. ok s' \<and> content s' = fold storeEffect (op # ops) (content s))) s"
  proof (rule wp_mono, elim conjE)
    fix s'
    assume s': "ok s'" "content s' = storeEffect op (content s)"
    show "wp (forA (storeAct get put save forget) ops)
        (\<lambda>_ t. ok t \<and> content t = fold storeEffect (op # ops) (content s)) s'"
      using Cons.IH [OF s'(1)] Cons.prems(2) s'(2) by simp
  qed
  then show ?case by (simp add: wps)
qed

lemma run_get:
  assumes "ok s" and "list_all (storable good) ops" and "0 \<le> n"
  shows "wp (thenA (forA (storeAct get put save forget) ops) (get a n))
    (\<lambda>r _. r = fold storeEffect ops (content s) a n) s"
  unfolding wp_then
  by (rule wp_mono [OF run [OF assms(1,2)]], rule wp_mono [OF get [OF _ assms(3)]]) auto

end

subsection \<open>The cached arrays are a store\<close>

definition content :: "'e padState_scheme \<Rightarrow> arrayName \<Rightarrow> int \<Rightarrow> entry option" where
  "content s name n =
     (case pd_arrays s name of
        None \<Rightarrow> db_arrays s name n
      | Some arr \<Rightarrow>
          (case obj_get (sa_writeCache arr) n of Some e \<Rightarrow> Some e | None \<Rightarrow> db_arrays s name n))"

definition arrays_ok :: "'e padState_scheme \<Rightarrow> bool" where
  "arrays_ok s = (\<forall>name arr. pd_arrays s name = Some arr \<longrightarrow>
     (\<forall>n e. obj_get (sa_readCache arr) n = Some e \<longrightarrow> db_arrays s name n = Some e) \<and>
     (\<forall>n e. obj_get (sa_writeCache arr) n = Some e \<longrightarrow> truthyEntry (Some e)))"

lemma pageStart_page: "0 \<le> n \<Longrightarrow> n \<in> {pageStart n .. pageStart n + 19}"
  by (simp add: pageStart_def) presburger

lemma obj_get_fold_put:
  "distinct (map fst xs) \<Longrightarrow> obj_get (fold (\<lambda>(i, e) m. obj_put m i e) xs m) n =
     (case map_of xs n of Some e \<Rightarrow> Some e | None \<Rightarrow> obj_get m n)"
  by (induction xs arbitrary: m) (auto split: option.splits dest: map_of_SomeD simp: image_iff)

lemma pageElements_lookup:
  "distinct (map fst (pageElements db n)) \<and>
   map_of (pageElements db n) m = (if m \<in> {pageStart n .. pageStart n + 19} then db m else None)"
proof -
  have "distinct xs \<Longrightarrow> distinct (map fst (concat (map (\<lambda>i. case db i of None \<Rightarrow> [] | Some e \<Rightarrow> [(i, e)]) xs))) \<and>
      fst ` set (concat (map (\<lambda>i. case db i of None \<Rightarrow> [] | Some e \<Rightarrow> [(i, e)]) xs)) \<subseteq> set xs \<and>
      map_of (concat (map (\<lambda>i. case db i of None \<Rightarrow> [] | Some e \<Rightarrow> [(i, e)]) xs)) m =
        (if m \<in> set xs then db m else None)" for xs
    by (induction xs) (auto split: option.splits)
  from this [of "[pageStart n .. pageStart n + 19]"] show ?thesis
    unfolding pageElements_def by simp
qed

lemma getPage_lookup:
  "obj_get (getPageStringArrayElements db n dest) m =
     (if m \<in> {pageStart n .. pageStart n + 19} \<and> db m \<noteq> None then db m else obj_get dest m)"
  using pageElements_lookup [of db n m]
  by (auto simp: getPageStringArrayElements_def obj_get_fold_put split: option.splits)

lemma putDict_lookup:
  "putDictStringArrayElements dict db n =
     (case obj_get dict n of Some e \<Rightarrow> Some e | None \<Rightarrow> db n)"
proof -
  have "fold (\<lambda>n d. d(n := f n)) ns db n = (if n \<in> set ns then f n else db n)"
    for ns f and db :: "int \<Rightarrow> entry option"
    by (induction ns arbitrary: db) auto
  then show ?thesis
    by (auto simp: putDictStringArrayElements_def obj_get_def map_of_eq_None_iff split: option.splits)
      (metis image_eqI map_of_SomeD fst_conv)
qed

lemma copied_lookup:
  "obj_get (fold (\<lambda>p m. case f p of None \<Rightarrow> m | Some v \<Rightarrow> obj_put m p v) ks m) n =
     (if n \<in> set ks \<and> f n \<noteq> None then f n else obj_get m n)"
  by (induction ks arbitrary: m) (auto split: option.splits)

text \<open>Each operation changes the arrays only.\<close>

lemma getEntry_wp:
  assumes "arrays_ok s" and n: "0 \<le> n"
  shows "wp (getEntry name n) (\<lambda>r s'. r = content s name n \<and>
    (\<exists>f. s' = s\<lparr>pd_arrays := f\<rparr>) \<and> arrays_ok s' \<and> content s' = content s) s"
proof -
  have ok: "pd_arrays s m = Some arr \<Longrightarrow> obj_get (sa_readCache arr) k = Some e \<Longrightarrow> db_arrays s m k = Some e"
    "pd_arrays s m = Some arr \<Longrightarrow> obj_get (sa_writeCache arr) k = Some e \<Longrightarrow> truthyEntry (Some e)"
    for m arr k e using assms by (auto simp: arrays_ok_def)
  have upd: "arrays_ok (s\<lparr>pd_arrays := (pd_arrays s)(name \<mapsto> arr)\<rparr>) \<and>
      content (s\<lparr>pd_arrays := (pd_arrays s)(name \<mapsto> arr)\<rparr>) = content s"
    if "\<And>k e. obj_get (sa_readCache arr) k = Some e \<Longrightarrow> db_arrays s name k = Some e"
      "\<And>k. obj_get (sa_writeCache arr) k = (case pd_arrays s name of None \<Rightarrow> None | Some a \<Rightarrow> obj_get (sa_writeCache a) k)"
    for arr
    using that ok by (fastforce simp: arrays_ok_def content_def fun_eq_iff split: option.splits)
  show ?thesis
  proof (cases "pd_arrays s name")
    case None
    let ?arr = "\<lparr>sa_readCache = getPageStringArrayElements (db_arrays s name) n [], sa_writeCache = []\<rparr>"
    have "arrays_ok (s\<lparr>pd_arrays := (pd_arrays s)(name \<mapsto> ?arr)\<rparr>) \<and>
        content (s\<lparr>pd_arrays := (pd_arrays s)(name \<mapsto> ?arr)\<rparr>) = content s"
      by (rule upd) (auto simp: getPage_lookup None split: if_splits)
    moreover have "obj_get (getPageStringArrayElements (db_arrays s name) n []) n = content s name n"
      using pageStart_page [OF n] by (simp add: getPage_lookup content_def None)
    ultimately show ?thesis
      by (auto simp: getEntry_def getPadStringArray_def setArray_def wps None Let_def)
  next
    case (Some arr)
    let ?arr = "arr\<lparr>sa_readCache := getPageStringArrayElements (db_arrays s name) n (sa_readCache arr)\<rparr>"
    have "arrays_ok (s\<lparr>pd_arrays := (pd_arrays s)(name \<mapsto> ?arr)\<rparr>) \<and>
        content (s\<lparr>pd_arrays := (pd_arrays s)(name \<mapsto> ?arr)\<rparr>) = content s"
      by (rule upd) (auto simp: getPage_lookup Some ok(1) split: if_splits)
    moreover have "\<not> truthyEntry (obj_get (sa_writeCache arr) n) \<Longrightarrow>
        obj_get (sa_readCache ?arr) n = content s name n"
      using pageStart_page [OF n] ok [OF Some]
      by (cases "obj_get (sa_writeCache arr) n"; cases "obj_get (sa_readCache arr) n") (auto simp: getPage_lookup content_def Some split: option.splits)
    moreover have "truthyEntry (obj_get (sa_writeCache arr) n) \<Longrightarrow> obj_get (sa_writeCache arr) n = content s name n"
      by (cases "obj_get (sa_writeCache arr) n") (auto simp: content_def Some)
    moreover have "\<not> truthyEntry (obj_get (sa_writeCache arr) n) \<Longrightarrow>
        truthyEntry (obj_get (sa_readCache arr) n) \<Longrightarrow> obj_get (sa_readCache arr) n = content s name n"
      using ok [OF Some] by (cases "obj_get (sa_writeCache arr) n"; cases "obj_get (sa_readCache arr) n")
        (auto simp: content_def Some)
    moreover have "\<exists>f. s = s\<lparr>pd_arrays := f\<rparr>" by (rule exI [of _ "pd_arrays s"]) simp
    ultimately show ?thesis using assms
      by (auto simp: getEntry_def getPadStringArray_def setArray_def wps Some)
  qed
qed

lemma setEntry_wp:
  assumes "arrays_ok s" and "truthyEntry (Some v)"
  shows "wp (setEntry name n v) (\<lambda>_ s'. (\<exists>f. s' = s\<lparr>pd_arrays := f\<rparr>) \<and> arrays_ok s' \<and>
    content s' = (content s)(name := (content s name)(n \<mapsto> v))) s"
proof -
  have "arrays_ok (s\<lparr>pd_arrays := (pd_arrays s)(name \<mapsto> arr)\<rparr>) \<and>
      content (s\<lparr>pd_arrays := (pd_arrays s)(name \<mapsto> arr)\<rparr>) = (content s)(name := (content s name)(n \<mapsto> v))"
    if "\<And>k. obj_get (sa_readCache arr) k = (case pd_arrays s name of None \<Rightarrow> None | Some a \<Rightarrow> obj_get (sa_readCache a) k)"
      "\<And>k. obj_get (sa_writeCache arr) k = (if k = n then Some v else
        (case pd_arrays s name of None \<Rightarrow> None | Some a \<Rightarrow> obj_get (sa_writeCache a) k))"
    for arr
    using that assms by (fastforce simp: arrays_ok_def content_def fun_eq_iff split: option.splits if_splits)
  then show ?thesis
    by (cases "pd_arrays s name") (auto simp: setEntry_def getPadStringArray_def setArray_def wps Let_def)
qed

lemma array_writeToDB_wp:
  assumes "arrays_ok s"
  shows "wp (array_writeToDB name) (\<lambda>_ s'. (\<exists>f g. s' = s\<lparr>pd_arrays := f, db_arrays := g\<rparr>) \<and> arrays_ok s' \<and>
    content s' = content s \<and> db_arrays s' = (db_arrays s)(name := content s name) \<and>
    (\<forall>n. n \<noteq> name \<longrightarrow> pd_arrays s' n = pd_arrays s n) \<and>
    (\<exists>arr. pd_arrays s' name = Some arr \<and> sa_writeCache arr = [])) s"
proof -
  let ?w = "case pd_arrays s name of None \<Rightarrow> [] | Some arr \<Rightarrow> sa_writeCache arr"
  let ?r = "case pd_arrays s name of None \<Rightarrow> [] | Some arr \<Rightarrow> sa_readCache arr"
  let ?arr = "\<lparr>sa_readCache = fold (\<lambda>p m. case obj_get ?w p of None \<Rightarrow> m | Some v \<Rightarrow> obj_put m p v)
    (map fst ?w) ?r, sa_writeCache = []\<rparr>"
  have c: "putDictStringArrayElements ?w (db_arrays s name) = content s name"
    by (auto simp: putDict_lookup content_def split: option.splits)
  let ?s' = "s\<lparr>pd_arrays := (pd_arrays s)(name \<mapsto> ?arr), db_arrays := (db_arrays s)(name := content s name)\<rparr>"
  have "obj_get (sa_readCache ?arr) k = Some e \<Longrightarrow> content s name k = Some e" for k e
    using assms by (auto simp: copied_lookup arrays_ok_def content_def split: option.splits if_splits)
      (metis fst_conv image_eqI map_of_SomeD obj_get_def)
  then have "arrays_ok ?s'" using assms by (auto simp: arrays_ok_def)
  moreover have "content ?s' = content s" by (auto simp: content_def fun_eq_iff split: option.splits)
  moreover have "array_writeToDB name s = (Inr (), ?s')"
    by (cases "pd_arrays s name")
      (simp_all add: array_writeToDB_def getPadStringArray_def setArray_def bindA_def thenA_def getA_def modA_def
        ret_def Let_def c [symmetric])
  ultimately show ?thesis by (auto simp: wp_def)
qed

lemma forgetArray_wp:
  assumes "arrays_ok s" and "db_arrays s name = content s name"
  shows "wp (forgetArray name) (\<lambda>_ s'. s' = s\<lparr>pd_arrays := (pd_arrays s)(name := None)\<rparr> \<and> arrays_ok s' \<and>
    content s' = content s) s"
  using assms by (auto simp: forgetArray_def wps arrays_ok_def content_def fun_eq_iff split: option.splits)

lemma destroyPadStringArray_wp:
  assumes "arrays_ok s"
  shows "wp (destroyPadStringArray name) (\<lambda>_ s'. (\<exists>f g. s' = s\<lparr>pd_arrays := f, db_arrays := g\<rparr>) \<and>
    arrays_ok s' \<and> content s' = (content s)(name := \<lambda>_. None)) s"
proof -
  let ?s' = "s\<lparr>pd_arrays := (pd_arrays s)(name := None), db_arrays := (db_arrays s)(name := \<lambda>_. None)\<rparr>"
  have "arrays_ok ?s'" using assms by (auto simp: arrays_ok_def)
  moreover have "content ?s' = (content s)(name := \<lambda>_. None)"
    by (auto simp: content_def fun_eq_iff split: option.splits)
  ultimately show ?thesis
    by (auto simp: destroyPadStringArray_def forgetArray_def clearStringArray_def wps wp_mod_fun)
qed

interpretation pad_arrays: string_store arrays_ok content "\<lambda>e. truthyEntry (Some e)"
  getEntry setEntry array_writeToDB forgetArray
proof
  fix s :: "'e padState_scheme" and a n v
  assume ok: "arrays_ok s"
  show "wp (getEntry a n) (\<lambda>r s'. r = content s a n \<and> arrays_ok s' \<and> content s' = content s) s" if "0 \<le> n"
    by (rule wp_mono [OF getEntry_wp [OF ok that]]) blast
  show "wp (setEntry a n v) (\<lambda>_ s'. arrays_ok s' \<and> content s' = (content s)(a := (content s a)(n \<mapsto> v))) s"
    if "truthyEntry (Some v)"
    by (rule wp_mono [OF setEntry_wp [OF ok that]]) blast
  show "wp (array_writeToDB a) (\<lambda>_ s'. arrays_ok s' \<and> content s' = content s \<and>
      wp (forgetArray a) (\<lambda>_ s''. arrays_ok s'' \<and> content s'' = content s) s') s"
  proof (rule wp_mono [OF array_writeToDB_wp [OF ok]], elim conjE)
    fix s'
    assume s': "arrays_ok s'" "content s' = content s" "db_arrays s' = (db_arrays s)(a := content s a)"
    then have "db_arrays s' a = content s' a" by simp
    then have "wp (forgetArray a) (\<lambda>_ s''. arrays_ok s'' \<and> content s'' = content s) s'"
      by (rule wp_mono [OF forgetArray_wp [OF s'(1)]]) (metis s'(2))
    with s' show "arrays_ok s' \<and> content s' = content s \<and>
        wp (forgetArray a) (\<lambda>_ s''. arrays_ok s'' \<and> content s'' = content s) s'" by blast
  qed
qed

text \<open>
  C36. Nothing written to a string array is lost: after any sequence of reads, writes of non-empty values,
  saves to the database and removals from memory that follow a save, on all the arrays of a pad, an
  entry reads as the value last written to it, or as it was before.
\<close>

theorem stringArrays_read_writes:
  assumes "arrays_ok s" and "0 \<le> n"
    and "list_all (storable (\<lambda>e. truthyEntry (Some e))) ops"
  shows "\<exists>s'. thenA (forA (storeAct getEntry setEntry array_writeToDB forgetArray) ops) (getEntry name n) s =
    (Inr (fold storeEffect ops (content s) name n), s')"
  using wp_returns [OF pad_arrays.run_get [OF assms(1,3,2)]] by blast

definition emptyPad :: padState where
  "emptyPad = \<lparr>pd_arrays = \<lambda>_. None, pd_metaCache = None, pd_detached = None, pd_apool = None,
     pd_temp = None, pd_modelCache = [], pd_now = 0, pd_external = [], db_arrays = \<lambda>_ _. None,
     db_meta = None, db_apool = None\<rparr>"

theorem stringArrays_read_writes_witness:
  "\<exists>s'. thenA (forA (storeAct getEntry setEntry array_writeToDB forgetArray)
     [StorePut Revs 3 (TextEntry ''old''), StoreFlush Revs, StorePut Revs 3 (TextEntry ''new''),
      StorePut Chat 3 (ChatEntry ''hi''), StoreSave Revs, StoreGet Revs 4]) (getEntry Revs 3) emptyPad =
    (Inr (Some (TextEntry ''new'')), s')"
proof -
  have "arrays_ok emptyPad" by (simp add: arrays_ok_def emptyPad_def)
  from stringArrays_read_writes [OF this, of 3
      "[StorePut Revs 3 (TextEntry ''old''), StoreFlush Revs, StorePut Revs 3 (TextEntry ''new''),
      StorePut Chat 3 (ChatEntry ''hi''), StoreSave Revs, StoreGet Revs 4]" Revs]
  show ?thesis by simp
qed

end
