(* ===== verification/PadModel.thy ===== *)
theory PadModel
  imports PadStore
begin

text \<open>
  The pad: \<open>accessPadGlobal\<close> of \<open>etherpad/src/etherpad/pad/model.js\<close> and the operations of the \<open>pad\<close>
  object. A pad is its revisions (changesets), from which its text at any revision follows; texts at
  key revisions, coarser changesets and caches make this fast. Other modules are called through
  \<open>externalCall\<close>; the policy of the site is an argument where it is asked for.
\<close>

fun foldA :: "('x \<Rightarrow> 'a \<Rightarrow> ('s, 'a) act) \<Rightarrow> 'x list \<Rightarrow> 'a \<Rightarrow> ('s, 'a) act" where
  "foldA f [] a = ret a"
| "foldA f (x # xs) a = bindA (f x a) (foldA f xs)"

subsection \<open>Cleaning text\<close>

text \<open>The four replacements of \<open>cleanText\<close>, applied one after the other.\<close>

fun replaceCRLF :: "string \<Rightarrow> string" where
  "replaceCRLF (CHR 0x0D # CHR 0x0A # s) = nl # replaceCRLF s"
| "replaceCRLF (c # s) = c # replaceCRLF s"
| "replaceCRLF [] = []"

definition replaceChar :: "char \<Rightarrow> string \<Rightarrow> string \<Rightarrow> string" where
  "replaceChar c r s = concat (map (\<lambda>x. if x = c then r else [x]) s)"

definition cleanText :: "string \<Rightarrow> string" where
  "cleanText txt =
     replaceChar (CHR 0xA0) '' '' (replaceChar (CHR 0x09) ''        ''
       (replaceChar (CHR 0x0D) [nl] (replaceCRLF txt)))"

subsection \<open>Meta data, pool and temporary data\<close>

definition metaVar :: "'e padState_scheme \<Rightarrow> padMeta option" where
  "metaVar s = (case pd_detached s of Some m \<Rightarrow> Some m | None \<Rightarrow> pd_metaCache s)"

definition getMeta :: "('e padState_scheme, padMeta) act" where
  "getMeta = bindA (getA metaVar) (\<lambda>m.
     (case m of None \<Rightarrow> throwA (TypeError ''meta is null'') | Some m \<Rightarrow> ret m))"

definition modMeta :: "(padMeta \<Rightarrow> padMeta) \<Rightarrow> ('e padState_scheme, unit) act" where
  "modMeta f = bindA getMeta (\<lambda>m. modA (\<lambda>s.
     if pd_detached s = None then s\<lparr>pd_metaCache := Some (f m)\<rparr> else s\<lparr>pd_detached := Some (f m)\<rparr>))"

definition modStatus :: "(padStatus \<Rightarrow> padStatus) \<Rightarrow> ('e padState_scheme, unit) act" where
  "modStatus f = bindA getMeta (\<lambda>m.
     (case mt_status m of
        None \<Rightarrow> throwA (TypeError ''meta.status is undefined'')
      | Some t \<Rightarrow> modMeta (\<lambda>m. m\<lparr>mt_status := Some (f t)\<rparr>)))"

definition getPadMetaData :: "('e padState_scheme, padMeta option) act" where
  "getPadMetaData =
     bindA (getA pd_metaCache) (\<lambda>padMeta.
     (case padMeta of
        Some m \<Rightarrow> ret (Some m)
      | None \<Rightarrow>
          bindA (getA db_meta) (\<lambda>padMeta.
          (case padMeta of
             None \<Rightarrow> ret None
           | Some m \<Rightarrow> thenA (modA (\<lambda>s. s\<lparr>pd_metaCache := Some m\<rparr>)) (ret (Some m))))))"

definition insertPadMetaData :: "('e padState_scheme, unit) act" where
  "insertPadMetaData = modA (\<lambda>s. s\<lparr>pd_metaCache := metaVar s, pd_detached := None\<rparr>)"

definition removePadMetaData :: "('e padState_scheme, unit) act" where
  "removePadMetaData = modA (\<lambda>s. s\<lparr>pd_metaCache := None, db_meta := None\<rparr>)"

definition getPadAPool :: "('e padState_scheme, pool) act" where
  "getPadAPool =
     bindA (getA pd_apool) (\<lambda>padAPool.
     (case padAPool of
        Some p \<Rightarrow> ret p
      | None \<Rightarrow>
          bindA (getA db_apool) (\<lambda>padAPoolJson.
          (let p = (case padAPoolJson of None \<Rightarrow> AttribPool | Some j \<Rightarrow> fromJsonable j)
           in thenA (modA (\<lambda>s. s\<lparr>pd_apool := Some p\<rparr>)) (ret p)))))"

text \<open>A call that is given \<open>pad.pool()\<close> and may add to it.\<close>

definition withPadPool :: "(pool option \<Rightarrow> ('a \<times> pool option) res) \<Rightarrow> ('e padState_scheme, 'a) act" where
  "withPadPool f =
     bindA getPadAPool (\<lambda>p.
     bindA (liftA (f (Some p))) (\<lambda>(x, q).
     thenA (modA (\<lambda>s. s\<lparr>pd_apool := q\<rparr>)) (ret x)))"

definition removePadAPool :: "('e padState_scheme, unit) act" where
  "removePadAPool = modA (\<lambda>s. s\<lparr>pd_apool := None, db_apool := None\<rparr>)"

definition getPadTemp :: "('e padState_scheme, padTemp) act" where
  "getPadTemp =
     bindA (getA pd_temp) (\<lambda>padTemp.
     (case padTemp of
        Some t \<Rightarrow> ret t
      | None \<Rightarrow>
          (let t = \<lparr>tm_atext = None, tm_revisionSockets = None\<rparr>
           in thenA (modA (\<lambda>s. s\<lparr>pd_temp := Some t\<rparr>)) (ret t))))"

definition modTemp :: "(padTemp \<Rightarrow> padTemp) \<Rightarrow> ('e padState_scheme, unit) act" where
  "modTemp f = bindA getPadTemp (\<lambda>t. modA (\<lambda>s. s\<lparr>pd_temp := Some (f t)\<rparr>))"

subsection \<open>Entries of the arrays\<close>

text \<open>\<open>getJSONEntry\<close> on \<open>revmeta\<close> and \<open>authors\<close>; \<open>undefined\<close> where a changeset is expected reads as the word.\<close>

definition getRevMeta :: "int \<Rightarrow> ('e padState_scheme, revMeta option) act" where
  "getRevMeta r =
     bindA (getEntry RevMeta r) (\<lambda>e.
     (case e of
        None \<Rightarrow> ret None
      | Some (RevMetaEntry m) \<Rightarrow> ret (Some m)
      | _ \<Rightarrow> throwA (JsError ''JSON'')))"

definition entryText :: "entry option \<Rightarrow> string" where
  "entryText e = (case e of Some (TextEntry s) \<Rightarrow> s | _ \<Rightarrow> ''undefined'')"

definition getChangesetEntry :: "arrayName \<Rightarrow> int \<Rightarrow> ('e padState_scheme, string) act" where
  "getChangesetEntry name r = bindA (getEntry name r) (\<lambda>e. ret (entryText e))"

definition getRevisionChangeset :: "int \<Rightarrow> ('e padState_scheme, string) act" where
  "getRevisionChangeset r = getChangesetEntry Revs r"

subsection \<open>Texts of revisions\<close>

definition getHeadRevisionNumber :: "('e padState_scheme, int) act" where
  "getHeadRevisionNumber = bindA getMeta (\<lambda>m. ret (mt_head m))"

definition getKeyRevisionNumber :: "int \<Rightarrow> ('e padState_scheme, int) act" where
  "getKeyRevisionNumber r =
     bindA getMeta (\<lambda>m. ret (r div mt_keyRevInterval m * mt_keyRevInterval m))"

definition applyRevision :: "int \<Rightarrow> atext option \<Rightarrow> ('e padState_scheme, atext option) act" where
  "applyRevision curRev atext =
     bindA (getRevisionChangeset curRev) (\<lambda>cs.
     (case atext of
        None \<Rightarrow> throwA (TypeError ''atext is undefined'')
      | Some at \<Rightarrow> bindA (withPadPool (applyToAText cs at)) (\<lambda>at'. ret (Some at'))))"

definition getInternalRevisionAText :: "int \<Rightarrow> ('e padState_scheme, atext) act" where
  "getInternalRevisionAText r =
     bindA (getA (\<lambda>s. obj_get (pd_modelCache s) r)) (\<lambda>cachedValue.
     (case cachedValue of
        Some at \<Rightarrow> ret (cloneAText at)
      | None \<Rightarrow>
          bindA (getKeyRevisionNumber r) (\<lambda>keyRev.
          bindA (getRevMeta keyRev) (\<lambda>rm.
          (case rm of
             None \<Rightarrow> throwA (TypeError ''revmeta is undefined'')
           | Some m \<Rightarrow>
               bindA getPadAPool (\<lambda>_.
               bindA (foldA applyRevision [keyRev + 1 .. r] (rm_atext m)) (\<lambda>atext.
               (case atext of
                  None \<Rightarrow> throwA (TypeError ''atext is undefined'')
                | Some at \<Rightarrow>
                    thenA (modA (\<lambda>s. s\<lparr>pd_modelCache := obj_put (pd_modelCache s) r (cloneAText at)\<rparr>))
                      (ret at)))))))))"

text \<open>The second value is what \<open>optInfoObj.badLastChar\<close> is set to.\<close>

definition getInternalRevisionText :: "int \<Rightarrow> ('e padState_scheme, string \<times> string option) act" where
  "getInternalRevisionText r =
     bindA (getInternalRevisionAText r) (\<lambda>atext.
     (let text = at_text atext; lastChar = drop (length text - 1) text
      in ret (text, if lastChar = [nl] then None else Some lastChar)))"

definition getRevisionText :: "int \<Rightarrow> ('e padState_scheme, string) act" where
  "getRevisionText r = bindA (getInternalRevisionText r) (\<lambda>(text, _). ret (butlast text))"

definition getCurrentAText :: "('e padState_scheme, atext) act" where
  "getCurrentAText =
     bindA getPadTemp (\<lambda>tempObj.
     (case tm_atext tempObj of
        Some at \<Rightarrow> ret at
      | None \<Rightarrow>
          bindA getHeadRevisionNumber (\<lambda>head.
          bindA (getInternalRevisionAText head) (\<lambda>at.
          thenA (modTemp (\<lambda>t. t\<lparr>tm_atext := Some at\<rparr>)) (ret at)))))"

definition pad_atext :: "('e padState_scheme, atext) act" where
  "pad_atext = bindA getCurrentAText (\<lambda>at. ret (cloneAText at))"

definition pad_text :: "('e padState_scheme, string) act" where
  "pad_text = bindA pad_atext (\<lambda>at. ret (at_text at))"

subsection \<open>Authors\<close>

definition getNumForAuthor :: "string \<Rightarrow> bool \<Rightarrow> ('e padState_scheme, int) act" where
  "getNumForAuthor author dontAddIfAbsent =
     bindA getPadAPool (\<lambda>p.
     (let (n, p') = putAttrib (''author'', author) dontAddIfAbsent p
      in thenA (modA (\<lambda>s. s\<lparr>pd_apool := Some p'\<rparr>)) (ret n)))"

definition getAuthorForNum :: "int \<Rightarrow> ('e padState_scheme, string option) act" where
  "getAuthorForNum n =
     bindA getPadAPool (\<lambda>p.
     ret (case getAttrib p n of
        None \<Rightarrow> None
      | Some pair \<Rightarrow> if fst pair = ''author'' then Some (snd pair) else None))"

definition getRevisionAuthor :: "int \<Rightarrow> ('e padState_scheme, string option) act" where
  "getRevisionAuthor r =
     bindA (getRevMeta r) (\<lambda>rm.
     (case rm of
        None \<Rightarrow> throwA (TypeError ''revmeta is undefined'')
      | Some m \<Rightarrow> getAuthorForNum (rm_a m)))"

definition getRevisionDate :: "int \<Rightarrow> ('e padState_scheme, int) act" where
  "getRevisionDate r =
     bindA (getRevMeta r) (\<lambda>rm.
     (case rm of
        None \<Rightarrow> throwA (TypeError ''revmeta is undefined'')
      | Some m \<Rightarrow> ret (rm_t m)))"

definition getAuthorData :: "string \<Rightarrow> ('e padState_scheme, authorData option) act" where
  "getAuthorData author =
     bindA (getNumForAuthor author True) (\<lambda>n.
     if n < 0 then ret None
     else bindA (getEntry Authors n) (\<lambda>e.
       (case e of
          None \<Rightarrow> ret None
        | Some (AuthorEntry d) \<Rightarrow> ret (Some d)
        | _ \<Rightarrow> throwA (JsError ''JSON''))))"

definition setAuthorData :: "string \<Rightarrow> authorData \<Rightarrow> ('e padState_scheme, unit) act" where
  "setAuthorData author data =
     bindA (getNumForAuthor author False) (\<lambda>n. setEntry Authors n (AuthorEntry data))"

text \<open>The authors of the text, each once, in the order \<open>func\<close> is called, with their numbers.\<close>

definition eachATextAuthor :: "atext \<Rightarrow> ('e padState_scheme, (string \<times> int) list) act" where
  "eachATextAuthor atext =
     bindA (liftA (eachAttribNumber (at_attribs atext)
        (\<lambda>n seenNums. Inr (if n \<in> set seenNums then seenNums else seenNums @ [n])) [])) (\<lambda>nums.
     foldA (\<lambda>n found.
        bindA (getAuthorForNum n) (\<lambda>author.
        ret (case author of
           None \<Rightarrow> found
         | Some a \<Rightarrow> if a \<noteq> '''' then found @ [(a, n)] else found))) nums [])"

subsection \<open>Coarse changesets\<close>

definition emptyCoarseHeads :: "(int, int) obj" where
  "emptyCoarseHeads = [(10, - 1), (100, - 1), (1000, - 1)]"

definition modCoarseHead :: "int \<Rightarrow> int \<Rightarrow> ('e padState_scheme, unit) act" where
  "modCoarseHead level x =
     modMeta (\<lambda>m. m\<lparr>mt_coarseHeads := map_option (\<lambda>h. obj_put h level x) (mt_coarseHeads m)\<rparr>)"

text \<open>The changesets \<open>10 * x .. 10 * x + 9\<close> of the finer level, composed, are number \<open>x\<close> of the coarser.\<close>

definition composeTen :: "int \<Rightarrow> arrayName \<Rightarrow> arrayName \<Rightarrow> int \<Rightarrow> ('e padState_scheme, unit) act" where
  "composeTen level fineArray coarseArray x =
     bindA (getChangesetEntry fineArray (10 * x)) (\<lambda>cs0.
     bindA (foldA (\<lambda>i cs.
        bindA (getChangesetEntry fineArray (10 * x + i)) (\<lambda>c.
        withPadPool (compose cs c))) [1 .. 9] cs0) (\<lambda>cs.
     thenA (setEntry coarseArray x (TextEntry cs))
       (modCoarseHead level x)))"

definition desiredCoarseHead :: "int \<Rightarrow> int \<Rightarrow> int" where
  "desiredCoarseHead level head = (head - (level - 1)) div level"

text \<open>One level of the loop; the result is \<open>dirty\<close>.\<close>

definition updateLevel :: "int \<times> arrayName \<times> arrayName \<Rightarrow> bool \<Rightarrow> ('e padState_scheme, bool) act" where
  "updateLevel = (\<lambda>(level, fineArray, coarseArray) dirty.
     bindA getMeta (\<lambda>m.
     (case bindE (case mt_coarseHeads m of None \<Rightarrow> Inl (TypeError ''coarseHeads'') | Some h \<Rightarrow> Inr h)
             (\<lambda>h. Inr (obj_get h level)) of
        Inl e \<Rightarrow> throwA e
      | Inr None \<Rightarrow> ret dirty
      | Inr (Some h) \<Rightarrow>
          (let desired = desiredCoarseHead level (mt_head m)
           in thenA (forA (composeTen level fineArray coarseArray) [h + 1 .. desired])
                (ret (dirty \<or> h < desired))))))"

definition updateCoarseChangesets :: "bool \<Rightarrow> ('e padState_scheme, unit) act" where
  "updateCoarseChangesets onlyIfPresent =
     bindA getMeta (\<lambda>m.
     if mt_coarseHeads m = None \<and> onlyIfPresent then ret ()
     else
       thenA (whenA (mt_coarseHeads m = None) (modMeta (\<lambda>m. m\<lparr>mt_coarseHeads := Some emptyCoarseHeads\<rparr>)))
      (bindA (foldA updateLevel
         [(10, Revs, Revs10), (100, Revs10, Revs100), (1000, Revs100, Revs1000)] False) (\<lambda>dirty.
       whenA dirty (modStatus (\<lambda>t. t\<lparr>st_dirty := True\<rparr>)))))"

text \<open>\<open>null\<close> is \<open>None\<close>.\<close>

definition getCoarseChangeset :: "int \<Rightarrow> int \<Rightarrow> ('e padState_scheme, string option) act" where
  "getCoarseChangeset start numChangesets =
     thenA (updateCoarseChangesets False)
       (if numChangesets \<notin> {10, 100, 1000} then ret None
        else
          (let x = start div numChangesets in
           if \<not> (0 \<le> x \<and> x * numChangesets = start) then ret None
           else
             bindA (getEntry (if numChangesets = 10 then Revs10 else if numChangesets = 100 then Revs100
                              else Revs1000) x) (\<lambda>cs.
             ret (if truthyEntry cs then Some (entryText cs) else None))))"

subsection \<open>Adding revisions\<close>

definition addRevision :: "string \<Rightarrow> string \<Rightarrow> int option \<Rightarrow> ('e padState_scheme, unit) act" where
  "addRevision theChangeset author optDatestamp =
     bindA getCurrentAText (\<lambda>atext.
     bindA (withPadPool (applyToAText theChangeset atext)) (\<lambda>newAText.
     thenA (modTemp (\<lambda>t. t\<lparr>tm_atext := Some (copyAText newAText atext)\<rparr>))
    (thenA (modMeta (\<lambda>m. m\<lparr>mt_head := mt_head m + 1\<rparr>))
    (bindA getMeta (\<lambda>meta.
     (let newRev = mt_head meta in
      thenA (setEntry Revs newRev (TextEntry theChangeset))
     (bindA (getA pd_now) (\<lambda>now.
      bindA (getNumForAuthor author False) (\<lambda>a.
      thenA (setEntry RevMeta newRev (RevMetaEntry
               \<lparr>rm_t = (case optDatestamp of None \<Rightarrow> now | Some t \<Rightarrow> if t = 0 then now else t),
                rm_a = a,
                rm_atext = (if newRev mod mt_keyRevInterval meta = 0
                            then Some (copyAText newAText atext) else None)\<rparr>))
        (updateCoarseChangesets True))))))))))"

definition appendRevision :: "string \<Rightarrow> string \<Rightarrow> int option \<Rightarrow> ('e padState_scheme, unit) act" where
  "appendRevision theChangeset author optDatestamp = addRevision theChangeset author optDatestamp"

definition adoptChangesetAttribs :: "string \<Rightarrow> pool \<Rightarrow> ('e padState_scheme, string) act" where
  "adoptChangesetAttribs cs oldPool =
     withPadPool (\<lambda>p. bindE (moveOpsToNewPool cs oldPool (the p)) (\<lambda>(c, q). Inr (c, Some q)))"

subsection \<open>Chat, options, time slider\<close>

definition appendChatMessage :: "string \<Rightarrow> ('e padState_scheme, unit) act" where
  "appendChatMessage ob =
     bindA getMeta (\<lambda>m.
     thenA (modMeta (\<lambda>m. m\<lparr>mt_numChatMessages := mt_numChatMessages m + 1\<rparr>))
       (setEntry Chat (mt_numChatMessages m) (ChatEntry ob)))"

definition getNumChatMessages :: "('e padState_scheme, int) act" where
  "getNumChatMessages = bindA getMeta (\<lambda>m. ret (mt_numChatMessages m))"

definition getChatMessage :: "int \<Rightarrow> ('e padState_scheme, string option) act" where
  "getChatMessage i =
     bindA (getEntry Chat i) (\<lambda>e.
     (case e of
        None \<Rightarrow> ret None
      | Some (ChatEntry ob) \<Rightarrow> ret (Some ob)
      | _ \<Rightarrow> throwA (JsError ''JSON'')))"

definition getDataRoot :: "('e padState_scheme, string option option) act" where
  "getDataRoot =
     bindA getMeta (\<lambda>m.
     (case mt_dataRoot m of
        Some d \<Rightarrow> ret d
      | None \<Rightarrow> thenA (modMeta (\<lambda>m. m\<lparr>mt_dataRoot := Some None\<rparr>)) (ret None)))"

text \<open>\<open>allowed\<close> is whether this is a pro domain that lets guests open pads.\<close>

definition getPadOptionsObj :: "bool \<Rightarrow> ('e padState_scheme, string option) act" where
  "getPadOptionsObj allowed =
     bindA getDataRoot (\<lambda>data.
     (let opts = (case data of None \<Rightarrow> None | Some policy \<Rightarrow> policy);
          opts' = (if \<not> truthy opts \<or> opts = Some ''ask''
                   then Some (if allowed then ''allow'' else ''deny'') else opts)
      in thenA (modMeta (\<lambda>m. m\<lparr>mt_dataRoot := Some (Some opts')\<rparr>)) (ret opts')))"

definition getGuestPolicy :: "bool \<Rightarrow> ('e padState_scheme, string option) act" where
  "getGuestPolicy allowed = getPadOptionsObj allowed"

definition setGuestPolicy :: "bool \<Rightarrow> string \<Rightarrow> ('e padState_scheme, unit) act" where
  "setGuestPolicy allowed policy =
     thenA (bindA (getPadOptionsObj allowed) (\<lambda>_. ret ()))
       (modMeta (\<lambda>m. m\<lparr>mt_dataRoot := Some (Some (Some policy))\<rparr>))"

definition getSupportsTimeSlider :: "bool \<Rightarrow> ('e padState_scheme, bool) act" where
  "getSupportsTimeSlider isProPad =
     bindA getMeta (\<lambda>m.
     ret (case mt_supportsTimeSlider m of None \<Rightarrow> isProPad | Some v \<Rightarrow> v))"

definition setSupportsTimeSlider :: "bool \<Rightarrow> ('e padState_scheme, unit) act" where
  "setSupportsTimeSlider v = modMeta (\<lambda>m. m\<lparr>mt_supportsTimeSlider := Some v\<rparr>)"

subsection \<open>Creating, destroying, saving\<close>

record cloneData =
  cd_padText :: string
  cd_padAText :: atext
  cd_pool :: pool

text \<open>\<open>optText\<close>: a text, or the pad to copy, of which \<open>cloneOf\<close> takes what is needed.\<close>

datatype createFrom = CreateText string | CreateClone cloneData

definition cloneOf :: "('e padState_scheme, cloneData) act" where
  "cloneOf =
     bindA getHeadRevisionNumber (\<lambda>cloneRevNum.
     bindA (getRevisionText cloneRevNum) (\<lambda>text.
     bindA (getInternalRevisionAText cloneRevNum) (\<lambda>atext.
     bindA getPadAPool (\<lambda>p.
     ret \<lparr>cd_padText = text, cd_padAText = atext, cd_pool = p\<rparr>))))"

definition newMeta :: "string \<Rightarrow> int \<Rightarrow> padMeta" where
  "newMeta padId t =
     \<lparr>mt_head = - 1, mt_padId = padId, mt_keyRevInterval = 100, mt_numChatMessages = 0,
      mt_status = Some \<lparr>st_validated = True, st_lastAccess = Some t, st_dirty = True\<rparr>,
      mt_supportsTimeSlider = Some True, mt_coarseHeads = None, mt_dataRoot = None\<rparr>"

definition firstChangeset :: "createFrom \<Rightarrow> ('e padState_scheme, string) act" where
  "firstChangeset optText =
     (case optText of
        CreateText txt \<Rightarrow> withPadPool (makeSplice [nl] 0 0 txt (AttribsPairs []))
      | CreateClone d \<Rightarrow>
          bindA getPadAPool (\<lambda>_.
          thenA (modA (\<lambda>s. s\<lparr>pd_apool := Some (fromJsonable (toJsonable (cd_pool d)))\<rparr>))
         (bindA (liftA (appendATextToAssembler (cd_padAText d) smartOpAssembler)) (\<lambda>assem.
          ret (pack 1 (int (length (cd_padText d)) + 1)
                 (fst (sa_toString (sa_endDocument assem))) (cd_padText d))))))"

definition create :: "string \<Rightarrow> createFrom \<Rightarrow> ('e padState_scheme, unit) act" where
  "create padId optText =
     bindA (getA pd_now) (\<lambda>t.
     thenA (modA (\<lambda>s. s\<lparr>pd_detached := Some (newMeta padId t)\<rparr>))
    (bindA (liftA (makeAText [nl] '''')) (\<lambda>at.
     thenA (modTemp (\<lambda>tempObj. tempObj\<lparr>tm_atext := Some at\<rparr>))
    (bindA (firstChangeset optText) (\<lambda>cs.
     thenA (addRevision cs '''' None)
    (thenA insertPadMetaData
    (bindA getHeadRevisionNumber (\<lambda>head.
     thenA (externalCall (SqlMetaInsert t head))
       (externalCall OnNewPad)))))))))"

definition destroy :: "('e padState_scheme, unit) act" where
  "destroy =
     thenA (externalCall OnDestroyPad)
    (thenA (forA destroyPadStringArray [Revs, Revs10, Revs100, Revs1000, RevMeta, Chat, Authors])
    (thenA removePadMetaData
    (thenA removePadAPool
    (thenA (externalCall SqlMetaDelete)
       (modA (\<lambda>s. s\<lparr>pd_detached := None\<rparr>))))))"

text \<open>\<open>writeToDB\<close> of a pad that exists.\<close>

definition writeToDB :: "('e padState_scheme, unit) act" where
  "writeToDB =
     bindA getMeta (\<lambda>m.
     thenA (modA (\<lambda>s. s\<lparr>db_meta := Some (m\<lparr>mt_status := None\<rparr>)\<rparr>))
    (thenA (externalCall HookWriteToDB)
    (thenA (forA array_writeToDB [Revs, Revs10, Revs100, Revs1000, RevMeta, Chat, Authors])
    (bindA getPadAPool (\<lambda>p.
     thenA (modA (\<lambda>s. s\<lparr>db_apool := Some (toJsonable p)\<rparr>))
    (bindA (getA pd_now) (\<lambda>now.
       externalCall (SqlMetaUpdate (mt_head m) now))))))))"

text \<open>
  \<open>removeFromMemory\<close> of \<open>collab_server\<close> and of \<open>model\<close>; \<open>numConnections\<close> is the number of connections
  to the pad. The array \<open>authors\<close> and the temporary object stay in memory.
\<close>

definition collab_removeFromMemory :: "int \<Rightarrow> ('e padState_scheme, unit) act" where
  "collab_removeFromMemory numConnections =
     whenA (numConnections = 0) (modTemp (\<lambda>t. t\<lparr>tm_revisionSockets := Some []\<rparr>))"

definition removeFromMemory :: "int \<Rightarrow> ('e padState_scheme, unit) act" where
  "removeFromMemory numConnections =
     thenA (modA (\<lambda>s. s\<lparr>pd_detached := metaVar s, pd_metaCache := None\<rparr>))
    (thenA (forA forgetArray [Revs, Revs10, Revs100, Revs1000, Chat, RevMeta])
    (thenA (modA (\<lambda>s. s\<lparr>pd_apool := None\<rparr>))
       (collab_removeFromMemory numConnections)))"

text \<open>
  \<open>writePadNow\<close> of \<open>etherpad/src/etherpad/pad/dbwriter.js\<close>, apart from its accounts of the schedule;
  the result says whether it wrote and whether it removed the pad from memory.
\<close>

definition pad_exists :: "('e padState_scheme, bool) act" where
  "pad_exists = bindA (getA metaVar) (\<lambda>m. ret (m \<noteq> None))"

definition writePadNow :: "bool \<Rightarrow> int \<Rightarrow> ('e padState_scheme, bool \<times> bool) act" where
  "writePadNow andFlush numConnections =
     bindA pad_exists (\<lambda>exists.
     if \<not> exists then ret (False, False)
     else
       bindA getMeta (\<lambda>m.
       (case mt_status m of
          None \<Rightarrow> throwA (TypeError ''status is undefined'')
        | Some st \<Rightarrow>
            thenA (whenA (st_dirty st) (thenA (modStatus (\<lambda>t. t\<lparr>st_dirty := False\<rparr>)) writeToDB))
           (thenA (whenA andFlush (removeFromMemory numConnections))
              (ret (st_dirty st, andFlush))))))"

subsection \<open>Accessing a pad\<close>

datatype accessMode = ReadOnly | ReadWrite

definition beginAccess :: "accessMode \<Rightarrow> ('e padState_scheme, unit) act" where
  "beginAccess mode =
     thenA (modA (\<lambda>s. s\<lparr>pd_detached := None\<rparr>))
    (bindA getPadMetaData (\<lambda>meta.
     (case meta of
        None \<Rightarrow> ret ()
      | Some m \<Rightarrow>
          thenA (whenA (mt_status m = None) (modMeta (\<lambda>m. m\<lparr>mt_status :=
                   Some \<lparr>st_validated = False, st_lastAccess = None, st_dirty = False\<rparr>\<rparr>)))
            (whenA (mode \<noteq> ReadOnly)
               (bindA (getA pd_now) (\<lambda>now. modStatus (\<lambda>t. t\<lparr>st_lastAccess := Some now\<rparr>)))))))"

definition endAccess :: "accessMode \<Rightarrow> ('e padState_scheme, unit) act" where
  "endAccess mode =
     bindA (getA metaVar) (\<lambda>meta.
     (case meta of
        None \<Rightarrow> ret ()
      | Some _ \<Rightarrow>
          thenA (whenA (mode \<noteq> ReadOnly) (modStatus (\<lambda>t. t\<lparr>st_dirty := True\<rparr>)))
         (bindA getMeta (\<lambda>m.
            whenA (case mt_status m of None \<Rightarrow> False | Some t \<Rightarrow> st_dirty t) (externalCall NotifyPadDirty)))))"

text \<open>A transaction that ends with an exception leaves the database as it was.\<close>

definition inTransaction :: "('e padState_scheme, 'a) act \<Rightarrow> ('e padState_scheme, 'a) act" where
  "inTransaction f s =
     (case f s of
        (Inl e, s') \<Rightarrow> (Inl e, s'\<lparr>db_arrays := db_arrays s, db_meta := db_meta s, db_apool := db_apool s\<rparr>)
      | (Inr x, s') \<Rightarrow> (Inr x, s'))"

definition accessPadGlobal :: "accessMode \<Rightarrow> ('e padState_scheme, 'a) act \<Rightarrow> ('e padState_scheme, 'a) act" where
  "accessPadGlobal mode padFunc =
     inTransaction (thenA (beginAccess mode) (finallyA padFunc (endAccess mode)))"

definition nestedAccess :: "accessMode \<Rightarrow> ('e padState_scheme, 'a) act \<Rightarrow> ('e padState_scheme, 'a) act" where
  "nestedAccess mode padFunc =
     bindA (getA metaVar) (\<lambda>m.
     thenA (whenA (m \<noteq> None \<and> mode \<noteq> ReadOnly)
        (bindA (getA pd_now) (\<lambda>now.
           modStatus (\<lambda>t. t\<lparr>st_lastAccess := Some now, st_dirty := True\<rparr>))))
       padFunc)"

end
