(* ===== verification/PadLaws.thy ===== *)
theory PadLaws
  imports PadModel
begin

text \<open>
  The laws of the pad: its invariant \<open>pad_ok\<close> (the changesets lead from the empty text to the current
  one, and every cache, key revision and coarse changeset agrees with them) and what each operation
  of \<open>model.js\<close> does under it.
\<close>

subsection \<open>Views of the state\<close>

definition poolView :: "'e padState_scheme \<Rightarrow> pool" where
  "poolView s =
     (case pd_apool s of
        Some p \<Rightarrow> p
      | None \<Rightarrow> (case db_apool s of None \<Rightarrow> AttribPool | Some j \<Rightarrow> fromJsonable j))"

definition tempView :: "'e padState_scheme \<Rightarrow> padTemp" where
  "tempView s =
     (case pd_temp s of Some t \<Rightarrow> t | None \<Rightarrow> \<lparr>tm_atext = None, tm_revisionSockets = None\<rparr>)"

definition setMeta :: "padMeta \<Rightarrow> 'e padState_scheme \<Rightarrow> 'e padState_scheme" where
  "setMeta m s = (if pd_detached s = None then s\<lparr>pd_metaCache := Some m\<rparr> else s\<lparr>pd_detached := Some m\<rparr>)"

named_theorems views \<open>what a change of the state does to the views\<close>

lemma setMeta_views [views]:
  "metaVar (setMeta m s) = Some m" "content (setMeta m s) = content s" "arrays_ok (setMeta m s) = arrays_ok s"
  "poolView (setMeta m s) = poolView s" "tempView (setMeta m s) = tempView s"
  "pd_modelCache (setMeta m s) = pd_modelCache s" "pd_now (setMeta m s) = pd_now s"
  by (simp_all add: setMeta_def metaVar_def content_def fun_eq_iff arrays_ok_def poolView_def tempView_def
    split: option.split)

lemma apool_views [views]:
  "metaVar (s\<lparr>pd_apool := x\<rparr>) = metaVar s" "content (s\<lparr>pd_apool := x\<rparr>) = content s"
  "arrays_ok (s\<lparr>pd_apool := x\<rparr>) = arrays_ok s" "poolView (s\<lparr>pd_apool := Some p\<rparr>) = p"
  "tempView (s\<lparr>pd_apool := x\<rparr>) = tempView s"
  by (simp_all add: metaVar_def content_def fun_eq_iff arrays_ok_def poolView_def tempView_def
    split: option.split)

lemma temp_views [views]:
  "metaVar (s\<lparr>pd_temp := x\<rparr>) = metaVar s" "content (s\<lparr>pd_temp := x\<rparr>) = content s"
  "arrays_ok (s\<lparr>pd_temp := x\<rparr>) = arrays_ok s" "poolView (s\<lparr>pd_temp := x\<rparr>) = poolView s"
  "tempView (s\<lparr>pd_temp := Some t\<rparr>) = t"
  by (simp_all add: metaVar_def content_def fun_eq_iff arrays_ok_def poolView_def tempView_def
    split: option.split)

lemma arrays_views [views]:
  "metaVar (s\<lparr>pd_arrays := x\<rparr>) = metaVar s" "poolView (s\<lparr>pd_arrays := x\<rparr>) = poolView s"
  "tempView (s\<lparr>pd_arrays := x\<rparr>) = tempView s"
  by (simp_all add: metaVar_def poolView_def tempView_def split: option.split)

lemma other_views [views]:
  "metaVar (s\<lparr>pd_modelCache := c\<rparr>) = metaVar s" "content (s\<lparr>pd_modelCache := c\<rparr>) = content s"
  "arrays_ok (s\<lparr>pd_modelCache := c\<rparr>) = arrays_ok s" "poolView (s\<lparr>pd_modelCache := c\<rparr>) = poolView s"
  "tempView (s\<lparr>pd_modelCache := c\<rparr>) = tempView s"
  "metaVar (s\<lparr>pd_external := l\<rparr>) = metaVar s" "content (s\<lparr>pd_external := l\<rparr>) = content s"
  "arrays_ok (s\<lparr>pd_external := l\<rparr>) = arrays_ok s" "poolView (s\<lparr>pd_external := l\<rparr>) = poolView s"
  "tempView (s\<lparr>pd_external := l\<rparr>) = tempView s"
  by (simp_all add: metaVar_def content_def fun_eq_iff arrays_ok_def poolView_def tempView_def
    split: option.split)

subsection \<open>Preconditions of the basic actions\<close>

named_theorems pad_wps \<open>preconditions of the pad's basic actions\<close>

lemma wp_getMeta [pad_wps]: "metaVar s = Some m \<Longrightarrow> wp getMeta Q s = Q m s"
  by (simp add: getMeta_def wps)

lemma wp_modMeta [pad_wps]: "metaVar s = Some m \<Longrightarrow> wp (modMeta f) Q s = Q () (setMeta (f m) s)"
  by (simp add: modMeta_def wp_getMeta wps setMeta_def)

lemma wp_modStatus [pad_wps]:
  "metaVar s = Some m \<Longrightarrow> mt_status m = Some t \<Longrightarrow>
   wp (modStatus f) Q s = Q () (setMeta (m\<lparr>mt_status := Some (f t)\<rparr>) s)"
  by (simp add: modStatus_def pad_wps wps)

lemma wp_head [pad_wps]: "metaVar s = Some m \<Longrightarrow> wp getHeadRevisionNumber Q s = Q (mt_head m) s"
  by (simp add: getHeadRevisionNumber_def pad_wps wps)

lemma wp_keyRev [pad_wps]:
  "metaVar s = Some m \<Longrightarrow> wp (getKeyRevisionNumber r) Q s = Q (r div mt_keyRevInterval m * mt_keyRevInterval m) s"
  by (simp add: getKeyRevisionNumber_def pad_wps wps)

lemma wp_apool [pad_wps]: "wp getPadAPool Q s = Q (poolView s) (s\<lparr>pd_apool := Some (poolView s)\<rparr>)"
proof (cases "pd_apool s")
  case (Some p)
  then have e: "s\<lparr>pd_apool := Some p\<rparr> = s" by simp
  show ?thesis by (simp add: getPadAPool_def wps Some poolView_def e)
qed (simp add: getPadAPool_def wps poolView_def Let_def)

lemma wp_withPadPool [pad_wps]:
  "f (Some (poolView s)) = Inr (x, Some q) \<Longrightarrow> wp (withPadPool f) Q s = Q x (s\<lparr>pd_apool := Some q\<rparr>)"
  by (simp add: withPadPool_def wps pad_wps)

lemma wp_temp [pad_wps]: "wp getPadTemp Q s = Q (tempView s) (s\<lparr>pd_temp := Some (tempView s)\<rparr>)"
proof (cases "pd_temp s")
  case (Some t)
  then have e: "s\<lparr>pd_temp := Some t\<rparr> = s" by simp
  show ?thesis by (simp add: getPadTemp_def wps Some tempView_def e)
qed (simp add: getPadTemp_def wps tempView_def Let_def)

lemma wp_modTemp [pad_wps]: "wp (modTemp f) Q s = Q () (s\<lparr>pd_temp := Some (f (tempView s))\<rparr>)"
  by (simp add: modTemp_def wps pad_wps)

text \<open>Reading an entry changes the cached arrays only, and not what they contain.\<close>

definition sameArrays :: "'e padState_scheme \<Rightarrow> 'e padState_scheme \<Rightarrow> bool" where
  "sameArrays s s' = ((\<exists>f. s' = s\<lparr>pd_arrays := f\<rparr>) \<and> arrays_ok s' \<and> content s' = content s)"

lemma sameArrays_views [views]:
  assumes "sameArrays s s'"
  shows "metaVar s' = metaVar s" "poolView s' = poolView s" "tempView s' = tempView s"
    "content s' = content s" "arrays_ok s'" "pd_modelCache s' = pd_modelCache s" "pd_now s' = pd_now s"
  using assms by (auto simp: sameArrays_def views)

lemma wp_getEntry:
  "arrays_ok s \<Longrightarrow> 0 \<le> n \<Longrightarrow> (\<And>s'. sameArrays s s' \<Longrightarrow> Q (content s name n) s') \<Longrightarrow> wp (getEntry name n) Q s"
  by (rule wp_mono [OF getEntry_wp]) (auto simp: sameArrays_def)

lemma wp_getChangeset:
  "arrays_ok s \<Longrightarrow> 0 \<le> n \<Longrightarrow> content s name n = Some (TextEntry c) \<Longrightarrow>
   (\<And>s'. sameArrays s s' \<Longrightarrow> Q c s') \<Longrightarrow> wp (getChangesetEntry name n) Q s"
  unfolding getChangesetEntry_def wp_bind by (rule wp_getEntry) (simp_all add: wps entryText_def)

lemma wp_getRevMeta:
  "arrays_ok s \<Longrightarrow> 0 \<le> n \<Longrightarrow> content s RevMeta n = Some (RevMetaEntry rm) \<Longrightarrow>
   (\<And>s'. sameArrays s s' \<Longrightarrow> Q (Some rm) s') \<Longrightarrow> wp (getRevMeta n) Q s"
  unfolding getRevMeta_def wp_bind by (rule wp_getEntry) (simp_all add: wps)

lemma wp_setEntry:
  assumes "arrays_ok s" and "truthyEntry (Some v)"
    and "\<And>f. arrays_ok (s\<lparr>pd_arrays := f\<rparr>) \<Longrightarrow>
      content (s\<lparr>pd_arrays := f\<rparr>) = (content s)(name := (content s name)(n \<mapsto> v)) \<Longrightarrow> Q () (s\<lparr>pd_arrays := f\<rparr>)"
  shows "wp (setEntry name n v) Q s"
  by (rule wp_mono [OF setEntry_wp [OF assms(1,2)]]) (use assms(3) in auto)

subsection \<open>The invariant\<close>

text \<open>\<open>at\<close> is an attributed text of revision \<open>r\<close>.\<close>

definition rev_atext :: "pool \<Rightarrow> string list \<Rightarrow> int \<Rightarrow> atext \<Rightarrow> bool" where
  "rev_atext p cs r at = (ot.path p (take (nat r + 1) cs) [nl] (at_text at) \<and> atext_ok p at)"

text \<open>\<open>c\<close> is the composition of \<open>n\<close> revisions from \<open>a\<close> on.\<close>

definition spans :: "pool \<Rightarrow> string list \<Rightarrow> nat \<Rightarrow> nat \<Rightarrow> string \<Rightarrow> bool" where
  "spans p cs a n c =
     (a + n \<le> length cs \<and> (\<exists>d1 d2. ot.path p (take a cs) [nl] d1 \<and> ot.path p (take n (drop a cs)) d1 d2 \<and>
        applies p c d1 d2))"

definition coarse_ok :: "pool \<Rightarrow> (arrayName \<Rightarrow> int \<Rightarrow> entry option) \<Rightarrow> (int, int) obj \<Rightarrow> string list \<Rightarrow>
    int \<times> arrayName \<Rightarrow> bool" where
  "coarse_ok p arr h cs = (\<lambda>(level, name). \<exists>k. obj_get h level = Some k \<and> - 1 \<le> k \<and>
     (k + 1) * level \<le> int (length cs) \<and>
     (\<forall>x. 0 \<le> x \<and> x \<le> k \<longrightarrow> (\<exists>c. arr name x = Some (TextEntry c) \<and> spans p cs (nat (level * x)) (nat level) c)))"

definition pad_inv :: "pool \<Rightarrow> (arrayName \<Rightarrow> int \<Rightarrow> entry option) \<Rightarrow> padMeta \<Rightarrow> (int, atext) obj \<Rightarrow>
    string list \<Rightarrow> string \<Rightarrow> bool" where
  "pad_inv p arr m mc cs d =
     (pool_wf p \<and> 0 < mt_keyRevInterval m \<and> mt_status m \<noteq> None \<and> mt_head m = int (length cs) - 1 \<and>
      ot.path p cs [nl] d \<and>
      (\<forall>i < length cs. arr Revs (int i) = Some (TextEntry (cs ! i))) \<and>
      (\<forall>i < length cs. \<exists>rm. arr RevMeta (int i) = Some (RevMetaEntry rm) \<and>
         (int i mod mt_keyRevInterval m = 0 \<longrightarrow> (\<exists>at. rm_atext rm = Some at \<and> rev_atext p cs (int i) at))) \<and>
      (\<forall>r at. obj_get mc r = Some at \<longrightarrow> 0 \<le> r \<and> r < int (length cs) \<and> rev_atext p cs r at) \<and>
      (\<forall>h. mt_coarseHeads m = Some h \<longrightarrow>
         (\<forall>l \<in> set [(10, Revs10), (100, Revs100), (1000, Revs1000)]. coarse_ok p arr h cs l)))"

definition pad_ok :: "'e padState_scheme \<Rightarrow> string list \<Rightarrow> string \<Rightarrow> bool" where
  "pad_ok s cs d =
     (arrays_ok s \<and>
      (\<exists>m. metaVar s = Some m \<and> pad_inv (poolView s) (content s) m (pd_modelCache s) cs d) \<and>
      (\<forall>at. tm_atext (tempView s) = Some at \<longrightarrow> at_text at = d \<and> atext_ok (poolView s) at) \<and>
      (cs = [] \<longrightarrow> tm_atext (tempView s) \<noteq> None))"

lemma path_pool_le: "pool_le p q \<Longrightarrow> ot.path p cs d d' \<Longrightarrow> ot.path q cs d d'"
  by (rule ot.path_le) auto

lemma rev_atext_le: "pool_le p q \<Longrightarrow> rev_atext p cs r at \<Longrightarrow> rev_atext q cs r at"
  using path_pool_le atext_ok_le by (auto simp: rev_atext_def)

lemma spans_le: "pool_le p q \<Longrightarrow> spans p cs a n c \<Longrightarrow> spans q cs a n c"
  unfolding spans_def using path_pool_le applies_pool_le by blast

lemma coarse_ok_le: "pool_le p q \<Longrightarrow> coarse_ok p arr h cs l \<Longrightarrow> coarse_ok q arr h cs l"
  unfolding coarse_ok_def using spans_le by (fastforce split: prod.splits)

lemma pad_inv_le: "pool_le p q \<Longrightarrow> pad_inv p arr m mc cs d \<Longrightarrow> pad_inv q arr m mc cs d"
  using rev_atext_le [of p q] coarse_ok_le [of p q] path_pool_le [of p q] pool_le_wf [of p q]
  unfolding pad_inv_def by (intro conjI) (blast+)

lemma path_unique: "ot.path p xs a b \<Longrightarrow> ot.path q xs a c \<Longrightarrow> b = c"
  by (induction xs arbitrary: a) (auto dest: ot.applies_unique)

lemma path_prefix: "ot.path p cs a b \<Longrightarrow> \<exists>d. ot.path p (take n cs) a d \<and> ot.path p (drop n cs) d b"
  using ot.path_append [of p "take n cs" "drop n cs" a b] by simp

lemma path_step:
  assumes "ot.path p cs a b" and "i < length cs" and "ot.path p (take i cs) a d"
  shows "\<exists>d'. applies p (cs ! i) d d' \<and> ot.path p (take (Suc i) cs) a d'"
proof -
  obtain e where e: "ot.path p (take i cs) a e" "ot.path p (drop i cs) e b" using path_prefix [OF assms(1)] by blast
  have "e = d" by (rule path_unique [OF e(1) assms(3)])
  moreover have "drop i cs = cs ! i # drop (Suc i) cs" using assms(2) by (simp add: Cons_nth_drop_Suc)
  ultimately obtain d' where "applies p (cs ! i) d d'" using e(2) by auto
  with assms(2,3) show ?thesis by (auto simp: take_Suc_conv_app_nth ot.path_append)
qed

subsection \<open>Steps that only read\<close>

text \<open>What a computation on the pad may do without writing: load pages, and add to the pool.\<close>

definition grows :: "'e padState_scheme \<Rightarrow> 'e padState_scheme \<Rightarrow> bool" where
  "grows s s' = (metaVar s' = metaVar s \<and> content s' = content s \<and> arrays_ok s' \<and>
     pool_le (poolView s) (poolView s') \<and> tempView s' = tempView s \<and> pd_modelCache s' = pd_modelCache s)"

lemma grows_refl: "arrays_ok s \<Longrightarrow> pool_wf (poolView s) \<Longrightarrow> grows s s"
  by (simp add: grows_def pool_le_refl)

lemma grows_trans: "grows s t \<Longrightarrow> grows t u \<Longrightarrow> grows s u"
  by (auto simp: grows_def intro: pool_le_trans)

lemma sameArrays_grows: "sameArrays s s' \<Longrightarrow> pool_wf (poolView s) \<Longrightarrow> grows s s'"
  by (simp add: grows_def views pool_le_refl)

lemma pool_grows: "arrays_ok s \<Longrightarrow> pool_le (poolView s) q \<Longrightarrow> grows s (s\<lparr>pd_apool := Some q\<rparr>)"
  by (simp add: grows_def views)

lemma pad_ok_grows: "pad_ok s cs d \<Longrightarrow> grows s s' \<Longrightarrow> pad_ok s' cs d"
  unfolding pad_ok_def grows_def using pad_inv_le atext_ok_le by metis

lemma wp_foldA_upto:
  assumes "\<And>i a s. lo \<le> i \<Longrightarrow> i \<le> hi \<Longrightarrow> I (i - 1) a s \<Longrightarrow> wp (f i a) (I i) s"
    and "I (lo - 1) a s" and "lo - 1 \<le> hi"
  shows "wp (foldA f [lo .. hi] a) (I hi) s"
  using assms
proof (induction "nat (hi - lo + 1)" arbitrary: lo a s)
  case 0
  then have "hi = lo - 1" by simp
  with 0 show ?case by (simp add: wps)
next
  case (Suc n)
  then have "lo \<le> hi" by simp
  then have "[lo .. hi] = lo # [lo + 1 .. hi]" by (simp add: upto_rec1)
  moreover have "wp (f lo a) (\<lambda>a. wp (foldA f [lo + 1 .. hi] a) (I hi)) s"
  proof (rule wp_mono)
    show "wp (f lo a) (I lo) s" by (rule Suc.prems) (use \<open>lo \<le> hi\<close> Suc.prems in simp_all)
  next
    fix a s
    assume "I lo a s"
    then show "wp (foldA f [lo + 1 .. hi] a) (I hi) s"
      using Suc.hyps(1) [of "lo + 1" a s] Suc.hyps(2) Suc.prems(1) \<open>lo \<le> hi\<close> by simp
  qed
  ultimately show ?case by (simp add: wps)
qed

lemma pad_inv_path: "pad_inv p arr m mc cs d \<Longrightarrow> ot.path p cs [nl] d"
  by (simp add: pad_inv_def)

lemma pad_inv_rev: "pad_inv p arr m mc cs d \<Longrightarrow> 0 \<le> r \<Longrightarrow> r < int (length cs) \<Longrightarrow>
    arr Revs r = Some (TextEntry (cs ! nat r))"
  unfolding pad_inv_def by (metis nat_eq_iff2 zless_nat_eq_int_zless nat_int int_nat_eq of_nat_less_iff)

lemma pad_inv_revmeta: "pad_inv p arr m mc cs d \<Longrightarrow> 0 \<le> r \<Longrightarrow> r < int (length cs) \<Longrightarrow>
    \<exists>rm. arr RevMeta r = Some (RevMetaEntry rm) \<and>
      (r mod mt_keyRevInterval m = 0 \<longrightarrow> (\<exists>at. rm_atext rm = Some at \<and> rev_atext p cs r at))"
proof -
  assume a: "pad_inv p arr m mc cs d" "0 \<le> r" "r < int (length cs)"
  then have "nat r < length cs" "int (nat r) = r" by auto
  with a(1) show ?thesis unfolding pad_inv_def by metis
qed

lemma applyRevision_ok:
  assumes ok: "pad_ok s cs d" and i: "0 < i" "i < int (length cs)" and at: "rev_atext (poolView s) cs (i - 1) at"
  shows "wp (applyRevision i (Some at))
    (\<lambda>r s'. \<exists>at'. r = Some at' \<and> grows s s' \<and> rev_atext (poolView s') cs i at') s"
proof -
  obtain m where m: "arrays_ok s" "metaVar s = Some m"
    "pad_inv (poolView s) (content s) m (pd_modelCache s) cs d" using ok by (auto simp: pad_ok_def)
  have wf: "pool_wf (poolView s)" using m(3) by (simp add: pad_inv_def)
  have ni: "nat (i - 1) + 1 = nat i" "nat i < length cs" using i by auto
  have pre: "ot.path (poolView s) (take (nat i) cs) [nl] (at_text at)" "atext_ok (poolView s) at"
    using at by (simp_all only: rev_atext_def ni)
  from path_step [OF pad_inv_path [OF m(3)] ni(2) pre(1)] obtain d' where
    d': "applies (poolView s) (cs ! nat i) (at_text at) d'" "ot.path (poolView s) (take (Suc (nat i)) cs) [nl] d'" by blast
  from applyToAText_ok [OF d'(1) pre(2)] obtain at' q where
    q: "applyToAText (cs ! nat i) at (Some (poolView s)) = Inr (at', Some q)" "pool_le (poolView s) q"
      "at_text at' = d'" "atext_ok q at'" by blast
  have r: "rev_atext q cs i at'" using path_pool_le [OF q(2) d'(2)] q(3,4) by (simp add: rev_atext_def)
  have "wp (getRevisionChangeset i) (\<lambda>c. wp (bindA (withPadPool (applyToAText c at)) (\<lambda>at'. ret (Some at')))
    (\<lambda>r s'. \<exists>at'. r = Some at' \<and> grows s s' \<and> rev_atext (poolView s') cs i at')) s"
    unfolding getRevisionChangeset_def
  proof (rule wp_getChangeset [OF m(1)])
    show "0 \<le> i" using i by simp
    show "content s Revs i = Some (TextEntry (cs ! nat i))" using pad_inv_rev [OF m(3)] i by simp
  next
    fix s'
    assume s': "sameArrays s s'"
    then have "grows s (s'\<lparr>pd_apool := Some q\<rparr>)"
      using grows_trans [OF sameArrays_grows [OF s' wf] pool_grows [of s' q]] q(2) by (simp add: views)
    then show "wp (bindA (withPadPool (applyToAText (cs ! nat i) at)) (\<lambda>at'. ret (Some at')))
      (\<lambda>r s'. \<exists>at'. r = Some at' \<and> grows s s' \<and> rev_atext (poolView s') cs i at') s'"
      using q(1) r s' by (simp add: wps wp_withPadPool [of _ s', where x = at' and q = q] views)
  qed
  then show ?thesis by (simp add: applyRevision_def wps)
qed

text \<open>The text of any revision, computed from the last key revision before it.\<close>

lemma getInternalRevisionAText_ok:
  assumes ok: "pad_ok s cs d" and r: "0 \<le> r" "r < int (length cs)"
  shows "wp (getInternalRevisionAText r)
    (\<lambda>at s'. pad_ok s' cs d \<and> rev_atext (poolView s') cs r at \<and> pool_le (poolView s) (poolView s') \<and>
       metaVar s' = metaVar s \<and> tempView s' = tempView s) s"
proof (cases "obj_get (pd_modelCache s) r")
  case (Some at)
  obtain m where m: "pad_inv (poolView s) (content s) m (pd_modelCache s) cs d" using ok by (auto simp: pad_ok_def)
  have "rev_atext (poolView s) cs r at" "pool_wf (poolView s)" using m Some by (auto simp: pad_inv_def)
  with ok Some show ?thesis
    by (simp add: getInternalRevisionAText_def wps cloneAText_def rev_atext_def atext_ok_def pool_le_refl)
next
  case None
  obtain m where m: "arrays_ok s" "metaVar s = Some m"
    "pad_inv (poolView s) (content s) m (pd_modelCache s) cs d" using ok by (auto simp: pad_ok_def)
  let ?k = "mt_keyRevInterval m" and ?key = "r div mt_keyRevInterval m * mt_keyRevInterval m"
  have wf: "pool_wf (poolView s)" and k: "0 < ?k" using m(3) by (simp_all add: pad_inv_def)
  have key: "0 \<le> ?key" "?key \<le> r" "?key mod ?k = 0"
    using r k by (simp_all add: pos_imp_zdiv_nonneg_iff minus_mod_eq_div_mult [symmetric]
      zmod_le_nonneg_dividend)
  obtain rm at where rm: "content s RevMeta ?key = Some (RevMetaEntry rm)" "rm_atext rm = Some at"
    "rev_atext (poolView s) cs ?key at"
    using pad_inv_revmeta [OF m(3) key(1)] key r by auto
  let ?Q = "\<lambda>at s'. pad_ok s' cs d \<and> rev_atext (poolView s') cs r at \<and> pool_le (poolView s) (poolView s') \<and>
       metaVar s' = metaVar s \<and> tempView s' = tempView s"
  have fin: "?Q at (t\<lparr>pd_modelCache := obj_put (pd_modelCache t) r (cloneAText at)\<rparr>)"
    if "grows s t" "rev_atext (poolView t) cs r at" for t and at :: atext
  proof -
    have t: "pad_ok t cs d" by (rule pad_ok_grows [OF ok that(1)])
    then obtain m' where m': "metaVar t = Some m'" "pad_inv (poolView t) (content t) m' (pd_modelCache t) cs d"
      by (auto simp: pad_ok_def)
    have "pad_inv (poolView t) (content t) m' (obj_put (pd_modelCache t) r (cloneAText at)) cs d"
      using m'(2) that(2) r unfolding pad_inv_def by (auto simp: cloneAText_def)
    moreover have "metaVar s = Some m'" using m'(1) that(1) by (simp add: grows_def)
    ultimately show ?thesis using t that by (auto simp: pad_ok_def views grows_def)
  qed
  have "wp (foldA applyRevision [?key + 1 .. r] (Some at))
      (\<lambda>a t. \<exists>at'. a = Some at' \<and> grows s t \<and> rev_atext (poolView t) cs r at') t"
    if "grows s t" for t
  proof (rule wp_foldA_upto [where I = "\<lambda>i a t. \<exists>at'. a = Some at' \<and> grows s t \<and> rev_atext (poolView t) cs i at'"])
    show "\<exists>at'. Some at = Some at' \<and> grows s t \<and> rev_atext (poolView t) cs (?key + 1 - 1) at'"
      using that rev_atext_le [OF _ rm(3)] by (simp add: grows_def)
    show "?key + 1 - 1 \<le> r" using key(2) by simp
  next
    fix i a t
    assume i: "?key + 1 \<le> i" "i \<le> r" and "\<exists>at'. a = Some at' \<and> grows s t \<and> rev_atext (poolView t) cs (i - 1) at'"
    then obtain at' where a: "a = Some at'" "grows s t" "rev_atext (poolView t) cs (i - 1) at'" by blast
    show "wp (applyRevision i a) (\<lambda>a t. \<exists>at'. a = Some at' \<and> grows s t \<and> rev_atext (poolView t) cs i at') t"
      unfolding a(1)
      by (rule wp_mono [OF applyRevision_ok [OF pad_ok_grows [OF ok a(2)] _ _ a(3)]])
        (use i r key(1) in \<open>auto intro: grows_trans [OF a(2)]\<close>)
  qed
  note loop = this
  have "wp (getRevMeta ?key) (\<lambda>x. wp (case x of
             None \<Rightarrow> throwA (TypeError ''revmeta is undefined'')
           | Some m \<Rightarrow>
               bindA getPadAPool (\<lambda>_.
               bindA (foldA applyRevision [?key + 1 .. r] (rm_atext m)) (\<lambda>atext.
               (case atext of
                  None \<Rightarrow> throwA (TypeError ''atext is undefined'')
                | Some at \<Rightarrow>
                    thenA (modA (\<lambda>s. s\<lparr>pd_modelCache := obj_put (pd_modelCache s) r (cloneAText at)\<rparr>))
                      (ret at))))) ?Q) s"
  proof (rule wp_getRevMeta [OF m(1) key(1) rm(1)])
    fix s'
    assume s': "sameArrays s s'"
    have g: "grows s (s'\<lparr>pd_apool := Some (poolView s')\<rparr>)"
      using grows_trans [OF sameArrays_grows [OF s' wf] pool_grows [of s' "poolView s'"]] wf s'
      by (simp add: views pool_le_refl)
    show "wp (case Some rm of
             None \<Rightarrow> throwA (TypeError ''revmeta is undefined'')
           | Some m \<Rightarrow>
               bindA getPadAPool (\<lambda>_.
               bindA (foldA applyRevision [?key + 1 .. r] (rm_atext m)) (\<lambda>atext.
               (case atext of
                  None \<Rightarrow> throwA (TypeError ''atext is undefined'')
                | Some at \<Rightarrow>
                    thenA (modA (\<lambda>s. s\<lparr>pd_modelCache := obj_put (pd_modelCache s) r (cloneAText at)\<rparr>))
                      (ret at))))) ?Q s'"
      unfolding option.case rm(2) wp_bind wp_apool
      by (rule wp_mono [OF loop [OF g]]) (use fin in \<open>auto simp: wps\<close>)
  qed
  then show ?thesis
    unfolding getInternalRevisionAText_def wp_bind wp_get None option.case wp_keyRev [OF m(2)] .
qed

subsection \<open>Coarse changesets\<close>

lemma pad_ok_setMeta:
  assumes "pad_ok s cs d" and "metaVar s = Some m" and "mt_keyRevInterval m' = mt_keyRevInterval m"
    and "mt_head m' = mt_head m" and "mt_status m' \<noteq> None"
    and "\<And>h. mt_coarseHeads m' = Some h \<Longrightarrow> mt_coarseHeads m = Some h \<or>
      (\<forall>l \<in> set [(10, Revs10), (100, Revs100), (1000, Revs1000)]. coarse_ok (poolView s) (content s) h cs l)"
  shows "pad_ok (setMeta m' s) cs d"
proof -
  have "pad_inv (poolView s) (content s) m' (pd_modelCache s) cs d"
    using assms unfolding pad_ok_def pad_inv_def by auto
  then show ?thesis using assms(1) by (auto simp: pad_ok_def views)
qed

definition cell :: "pool \<Rightarrow> (arrayName \<Rightarrow> int \<Rightarrow> entry option) \<Rightarrow> string list \<Rightarrow> int \<Rightarrow> arrayName \<Rightarrow> int \<Rightarrow> bool" where
  "cell p arr cs level name x =
     (\<exists>c. arr name x = Some (TextEntry c) \<and> spans p cs (nat (level * x)) (nat level) c)"

lemma cell_le: "pool_le p q \<Longrightarrow> cell p arr cs level name x \<Longrightarrow> cell q arr cs level name x"
  unfolding cell_def using spans_le by blast

lemma coarse_cells: "coarse_ok p arr h cs (level, name) =
    (\<exists>k. obj_get h level = Some k \<and> - 1 \<le> k \<and> (k + 1) * level \<le> int (length cs) \<and>
      (\<forall>x. 0 \<le> x \<and> x \<le> k \<longrightarrow> cell p arr cs level name x))"
  by (simp add: coarse_ok_def cell_def)

lemma revs_cell:
  assumes "pad_inv p arr m mc cs d" and "0 \<le> x" and "x < int (length cs)"
  shows "cell p arr cs 1 Revs x"
proof -
  have x: "nat x < length cs" using assms by simp
  obtain d1 where d1: "ot.path p (take (nat x) cs) [nl] d1" using path_prefix [OF pad_inv_path [OF assms(1)]] by blast
  obtain d2 where d2: "applies p (cs ! nat x) d1 d2" using path_step [OF pad_inv_path [OF assms(1)] x d1] by blast
  have "take 1 (drop (nat x) cs) = [cs ! nat x]" using x by (simp add: Cons_nth_drop_Suc [symmetric])
  with d1 d2 x have "spans p cs (nat x) 1 (cs ! nat x)" by (auto simp: spans_def)
  then show ?thesis using pad_inv_rev [OF assms] by (simp add: cell_def)
qed

lemma spans_compose:
  assumes "spans p cs a n c" and "spans p cs (a + n) k c'"
  shows "\<exists>c'' q. compose c c' (Some p) = Inr (c'', Some q) \<and> pool_le p q \<and> spans q cs a (n + k) c''"
proof -
  obtain d1 d2 where 1: "ot.path p (take a cs) [nl] d1" "ot.path p (take n (drop a cs)) d1 d2" "applies p c d1 d2"
    using assms(1) by (auto simp: spans_def)
  obtain d2' d3 where 2: "ot.path p (take (a + n) cs) [nl] d2'" "ot.path p (take k (drop (a + n) cs)) d2' d3"
    "applies p c' d2' d3" using assms(2) by (auto simp: spans_def)
  have "ot.path p (take (a + n) cs) [nl] d2" using 1 by (auto simp: take_add ot.path_append)
  then have d: "d2' = d2" by (rule path_unique [OF 2(1)])
  obtain c'' q where q: "composeIn c c' p = Inr (c'', q)" "pool_le p q" "applies q c'' d1 d3"
    using ot.com_applies [OF 1(3) 2(3) [unfolded d]] applies_wf [OF 1(3)] by blast
  have "ot.path p (take (n + k) (drop a cs)) d1 d3"
    using 1(2) 2(2) d by (auto simp: take_add ot.path_append add.commute [of a n])
  then have "spans q cs a (n + k) c''"
    using q(3) path_pool_le [OF q(2)] 1(1) assms(2) unfolding spans_def
    by (intro conjI exI [of _ d1] exI [of _ d3]) (simp_all add: add.assoc)
  with q show ?thesis by (auto simp: composeIn_def)
qed

abbreviation levels :: "(int \<times> int \<times> arrayName \<times> arrayName) set" where
  "levels \<equiv> {(10, 1, Revs, Revs10), (100, 10, Revs10, Revs100), (1000, 100, Revs100, Revs1000)}"

lemma composeTen_loop:
  assumes ok: "pad_ok s cs d" and fl: "0 < fl" and x: "0 \<le> x"
    and cells: "\<And>i. 0 \<le> i \<Longrightarrow> i \<le> 9 \<Longrightarrow> cell (poolView s) (content s) cs fl fine (10 * x + i)"
  shows "wp (bindA (getChangesetEntry fine (10 * x)) (\<lambda>cs0. foldA (\<lambda>i cs.
        bindA (getChangesetEntry fine (10 * x + i)) (\<lambda>c. withPadPool (compose cs c))) [1 .. 9] cs0))
     (\<lambda>c s'. grows s s' \<and> spans (poolView s') cs (nat (10 * fl * x)) (nat (10 * fl)) c) s"
proof -
  obtain m where m: "arrays_ok s" "metaVar s = Some m" "pool_wf (poolView s)"
    using ok by (auto simp: pad_ok_def pad_inv_def)
  let ?I = "\<lambda>i c t. grows s t \<and> spans (poolView t) cs (nat (10 * fl * x)) (nat ((i + 1) * fl)) c"
  obtain c0 where c0: "content s fine (10 * x) = Some (TextEntry c0)"
    "spans (poolView s) cs (nat (fl * (10 * x))) (nat fl) c0" using cells [of 0] by (auto simp: cell_def)
  have step: "wp (bindA (getChangesetEntry fine (10 * x + i)) (\<lambda>c'. withPadPool (compose c c'))) (?I i) t"
    if i: "1 \<le> i" "i \<le> 9" and I: "?I (i - 1) c t" for i c t
  proof -
    have g: "grows s t" using I by blast
    have t: "arrays_ok t" "pool_wf (poolView t)" using g pool_le_wf by (auto simp: grows_def)
    obtain c' where c': "content t fine (10 * x + i) = Some (TextEntry c')"
      "spans (poolView t) cs (nat (fl * (10 * x + i))) (nat fl) c'"
      using cells [of i] i g spans_le by (auto simp: cell_def grows_def)
    have e: "nat (fl * (10 * x + i)) = nat (10 * fl * x) + nat (i * fl)" "nat (i * fl) + nat fl = nat ((i + 1) * fl)"
      using i x fl by (simp_all add: nat_add_distrib [symmetric] algebra_simps)
    have sp: "spans (poolView t) cs (nat (10 * fl * x)) (nat (i * fl)) c" using I by simp
    obtain c'' q where q: "compose c c' (Some (poolView t)) = Inr (c'', Some q)" "pool_le (poolView t) q"
      "spans q cs (nat (10 * fl * x)) (nat ((i + 1) * fl)) c''"
      using spans_compose [OF sp c'(2) [unfolded e(1)]] unfolding e(2) by blast
    show ?thesis
      unfolding wp_bind
    proof (rule wp_getChangeset [OF t(1) _ c'(1)])
      show "0 \<le> 10 * x + i" using i x by simp
    next
      fix t'
      assume t': "sameArrays t t'"
      have "grows s (t'\<lparr>pd_apool := Some q\<rparr>)"
        using grows_trans [OF g grows_trans [OF sameArrays_grows [OF t' t(2)] pool_grows [of t' q]]] q(2) t'
        by (simp add: views)
      then show "wp (withPadPool (compose c c')) (?I i) t'"
        using q(1,3) t' by (simp add: wp_withPadPool [of _ t', where x = c'' and q = q] views)
    qed
  qed
  have "wp (getChangesetEntry fine (10 * x)) (\<lambda>cs0. wp (foldA (\<lambda>i cs.
        bindA (getChangesetEntry fine (10 * x + i)) (\<lambda>c. withPadPool (compose cs c))) [1 .. 9] cs0) (?I 9)) s"
  proof (rule wp_getChangeset [OF m(1) _ c0(1)])
    show "0 \<le> 10 * x" using x by simp
  next
    fix s'
    assume s': "sameArrays s s'"
    have "?I (1 - 1) c0 s'"
      using sameArrays_grows [OF s' m(3)] c0(2) s' by (simp add: views mult_ac)
    then show "wp (foldA (\<lambda>i cs. bindA (getChangesetEntry fine (10 * x + i)) (\<lambda>c. withPadPool (compose cs c)))
        [1 .. 9] c0) (?I 9) s'"
      by (intro wp_foldA_upto [where I = ?I] step) simp_all
  qed
  then show ?thesis by (simp add: wp_bind)
qed

lemma composeTen_ok:
  assumes ok: "pad_ok s cs d" and m: "metaVar s = Some m" "mt_coarseHeads m = Some h" "obj_get h level = Some (x - 1)"
    and l: "(level, fl, fine, coarse) \<in> levels" and x: "0 \<le> x" "(x + 1) * level \<le> int (length cs)"
    and cells: "\<And>i. 0 \<le> i \<Longrightarrow> i \<le> 9 \<Longrightarrow> cell (poolView s) (content s) cs fl fine (10 * x + i)"
  shows "wp (composeTen level fine coarse x) (\<lambda>_ s'. pad_ok s' cs d \<and>
    metaVar s' = Some (m\<lparr>mt_coarseHeads := Some (obj_put h level x)\<rparr>) \<and> tempView s' = tempView s \<and>
    pool_le (poolView s) (poolView s') \<and> (\<forall>name. name \<noteq> coarse \<longrightarrow> content s' name = content s name)) s"
proof -
  let ?Q = "\<lambda>_ s'. pad_ok s' cs d \<and>
    metaVar s' = Some (m\<lparr>mt_coarseHeads := Some (obj_put h level x)\<rparr>) \<and> tempView s' = tempView s \<and>
    pool_le (poolView s) (poolView s') \<and> (\<forall>name. name \<noteq> coarse \<longrightarrow> content s' name = content s name)"
  let ?m = "m\<lparr>mt_coarseHeads := Some (obj_put h level x)\<rparr>"
  have fl: "0 < fl" "level = 10 * fl" "0 < level" using l by auto
  have rest: "wp (thenA (setEntry coarse x (TextEntry c)) (modCoarseHead level x)) ?Q t"
    if g: "grows s t" and sp: "spans (poolView t) cs (nat (10 * fl * x)) (nat (10 * fl)) c" for c t
  proof -
    have t: "pad_ok t cs d" "metaVar t = Some m" using pad_ok_grows [OF ok g] g m by (simp_all add: grows_def)
    then have ta: "arrays_ok t" by (simp add: pad_ok_def)
    have inv: "pad_inv (poolView t) (content t) m (pd_modelCache t) cs d" using t by (auto simp: pad_ok_def)
    obtain d1 d2 where "applies (poolView t) c d1 d2" using sp by (auto simp: spans_def)
    then have ne: "c \<noteq> ''''" using applies_truthy by (auto simp: truthy_def)
    have cn: "coarse \<noteq> Revs" "coarse \<noteq> RevMeta" using l by auto
    have "?Q () (setMeta ?m (t\<lparr>pd_arrays := f\<rparr>))" if f: "arrays_ok (t\<lparr>pd_arrays := f\<rparr>)"
      "content (t\<lparr>pd_arrays := f\<rparr>) = (content t)(coarse := (content t coarse)(x \<mapsto> TextEntry c))" for f
    proof -
      let ?c = "(content t)(coarse := (content t coarse)(x \<mapsto> TextEntry c))"
      have co: "coarse_ok (poolView t) (content t) h cs l'"
        if "l' \<in> set [(10, Revs10), (100, Revs100), (1000, Revs1000)]" for l'
        using inv m(2) that unfolding pad_inv_def by blast
      have "coarse_ok (poolView t) ?c (obj_put h level x) cs (lv, name)"
        if l': "(lv, name) \<in> set [(10, Revs10), (100, Revs100), (1000, Revs1000)]" for lv name
      proof (cases "lv = level")
        case True
        then have n: "name = coarse" using l l' by auto
        obtain k where "obj_get h level = Some k" "\<forall>y. 0 \<le> y \<and> y \<le> k \<longrightarrow> cell (poolView t) (content t) cs level coarse y"
          using co [OF l'] True n by (auto simp: coarse_cells)
        then have old: "\<forall>y. 0 \<le> y \<and> y \<le> x - 1 \<longrightarrow> cell (poolView t) (content t) cs level coarse y" using m(3) by simp
        have "cell (poolView t) ?c cs level coarse x" using sp fl(2) by (simp add: cell_def)
        with old have "\<forall>y. 0 \<le> y \<and> y \<le> x \<longrightarrow> cell (poolView t) ?c cs level coarse y" by (auto simp: cell_def)
        then show ?thesis using True n x by (simp add: coarse_cells)
      next
        case False
        then have n: "name \<noteq> coarse" using l l' by auto
        with co [OF l'] False show ?thesis by (simp add: coarse_cells cell_def)
      qed
      then have "\<forall>l \<in> set [(10, Revs10), (100, Revs100), (1000, Revs1000)].
          coarse_ok (poolView t) ?c (obj_put h level x) cs l" by auto
      then have "pad_inv (poolView t) ?c ?m (pd_modelCache t) cs d"
        using inv cn unfolding pad_inv_def by simp
      then have "pad_ok (setMeta ?m (t\<lparr>pd_arrays := f\<rparr>)) cs d"
        using t(1) f by (simp add: pad_ok_def views)
      then show ?thesis using f(2) g by (simp add: views grows_def)
    qed
    note fin = this
    show ?thesis
      unfolding wp_then
    proof (rule wp_setEntry [OF ta])
      show "truthyEntry (Some (TextEntry c))" using ne by simp
    next
      fix f
      assume f: "arrays_ok (t\<lparr>pd_arrays := f\<rparr>)"
        "content (t\<lparr>pd_arrays := f\<rparr>) = (content t)(coarse := (content t coarse)(x \<mapsto> TextEntry c))"
      have mv: "metaVar (t\<lparr>pd_arrays := f\<rparr>) = Some m" using t(2) by (simp add: views)
      have upd: "m\<lparr>mt_coarseHeads := map_option (\<lambda>h. obj_put h level x) (mt_coarseHeads m)\<rparr> = ?m"
        using m(2) by simp
      show "wp (modCoarseHead level x) ?Q (t\<lparr>pd_arrays := f\<rparr>)"
        unfolding modCoarseHead_def wp_modMeta [OF mv] upd by (rule fin [OF f])
    qed
  qed
  have "wp (bindA (bindA (getChangesetEntry fine (10 * x)) (\<lambda>cs0. foldA (\<lambda>i cs.
        bindA (getChangesetEntry fine (10 * x + i)) (\<lambda>c. withPadPool (compose cs c))) [1 .. 9] cs0))
      (\<lambda>c. thenA (setEntry coarse x (TextEntry c)) (modCoarseHead level x))) ?Q s"
    unfolding wp_bind [of "bindA (getChangesetEntry fine (10 * x)) _"]
    by (rule wp_mono [OF composeTen_loop [OF ok fl(1) x(1) cells]]) (use rest in auto)
  then show ?thesis by (simp add: composeTen_def wp_bind)
qed

text \<open>One level: from its coarse head up to the one desired.\<close>

lemma level_loop:
  fixes s :: "'e padState_scheme"
  assumes "pad_ok s cs d" and "metaVar s = Some m" and "mt_coarseHeads m = Some h"
    and "obj_get h level = Some (lo - 1)" and l: "(level, fl, fine, coarse) \<in> levels"
    and "0 \<le> lo" and "(hi + 1) * level \<le> int (length cs)"
    and "\<And>y. 0 \<le> y \<Longrightarrow> y \<le> 10 * hi + 9 \<Longrightarrow> cell (poolView s) (content s) cs fl fine y"
  shows "wp (forA (composeTen level fine coarse) [lo .. hi]) (\<lambda>_ s'. pad_ok s' cs d \<and>
    (\<exists>h'. metaVar s' = Some (m\<lparr>mt_coarseHeads := Some h'\<rparr>) \<and>
       obj_get h' level = Some (max (lo - 1) hi) \<and> (\<forall>l. l \<noteq> level \<longrightarrow> obj_get h' l = obj_get h l)) \<and>
    tempView s' = tempView s \<and> pool_le (poolView s) (poolView s')) s"
  using assms
proof (induction "nat (hi - lo + 1)" arbitrary: lo s m h)
  case 0
  then have "hi < lo" by simp
  moreover have "pool_wf (poolView s)" using 0 by (auto simp: pad_ok_def pad_inv_def)
  ultimately show ?case
    using 0 by (auto simp: wps pool_le_refl max_def intro!: exI [of _ h])
next
  case (Suc n)
  then have lo: "lo \<le> hi" by simp
  then have up: "[lo .. hi] = lo # [lo + 1 .. hi]" by (simp add: upto_rec1)
  have lv: "0 < level" "fine \<noteq> coarse" using l by auto
  have x: "(lo + 1) * level \<le> int (length cs)"
    by (rule order_trans [OF mult_right_mono Suc.prems(7)]) (use lo lv in simp_all)
  have cells: "cell (poolView s) (content s) cs fl fine (10 * lo + i)" if "0 \<le> i" "i \<le> 9" for i
    by (rule Suc.prems(8)) (use that lo Suc.prems(6) in auto)
  show ?case
    unfolding up forA.simps wp_then
  proof (rule wp_mono [OF composeTen_ok [OF Suc.prems(1-4) l Suc.prems(6) x cells]], assumption, assumption, elim conjE)
    fix s' :: "'e padState_scheme"
    assume s': "pad_ok s' cs d" "metaVar s' = Some (m\<lparr>mt_coarseHeads := Some (obj_put h level lo)\<rparr>)"
      "tempView s' = tempView s" "pool_le (poolView s) (poolView s')"
      "\<forall>name. name \<noteq> coarse \<longrightarrow> content s' name = content s name"
    have cells': "cell (poolView s') (content s') cs fl fine y" if "0 \<le> y" "y \<le> 10 * hi + 9" for y
      using cell_le [OF s'(4) Suc.prems(8) [OF that]] s'(5) lv(2) by (simp add: cell_def)
    have "wp (forA (composeTen level fine coarse) [lo + 1 .. hi]) (\<lambda>_ s''. pad_ok s'' cs d \<and>
      (\<exists>h'. metaVar s'' = Some ((m\<lparr>mt_coarseHeads := Some (obj_put h level lo)\<rparr>)\<lparr>mt_coarseHeads := Some h'\<rparr>) \<and>
         obj_get h' level = Some (max (lo + 1 - 1) hi) \<and> (\<forall>l. l \<noteq> level \<longrightarrow> obj_get h' l = obj_get (obj_put h level lo) l)) \<and>
      tempView s'' = tempView s' \<and> pool_le (poolView s') (poolView s'')) s'"
      by (rule Suc.hyps(1) [OF _ s'(1,2) _ _ l _ Suc.prems(7) cells']) (use Suc.hyps(2) Suc.prems(6) in simp_all)
    then show "wp (forA (composeTen level fine coarse) [lo + 1 .. hi]) (\<lambda>_ s''. pad_ok s'' cs d \<and>
      (\<exists>h'. metaVar s'' = Some (m\<lparr>mt_coarseHeads := Some h'\<rparr>) \<and>
         obj_get h' level = Some (max (lo - 1) hi) \<and> (\<forall>l. l \<noteq> level \<longrightarrow> obj_get h' l = obj_get h l)) \<and>
      tempView s'' = tempView s \<and> pool_le (poolView s) (poolView s'')) s'"
      by (rule wp_mono) (use lo s'(3,4) pool_le_trans in \<open>auto simp: max_def\<close>)
  qed
qed

text \<open>The coarse heads after an update, up to a level.\<close>

definition upToDate :: "padMeta \<Rightarrow> int set \<Rightarrow> bool" where
  "upToDate m ls = (\<exists>h. mt_coarseHeads m = Some h \<and> (\<forall>l \<in> ls. obj_get h l = Some (desiredCoarseHead l (mt_head m))))"

lemma updateLevel_ok:
  assumes ok: "pad_ok s cs d" and m: "metaVar s = Some m" "mt_coarseHeads m \<noteq> None"
    and l: "(level, fl, fine, coarse) \<in> levels" and up: "upToDate m ls" and fl: "fl = 1 \<or> fl \<in> ls" "level \<notin> ls"
  shows "wp (updateLevel (level, fine, coarse) dirty) (\<lambda>_ s'. pad_ok s' cs d \<and>
    (\<exists>h'. metaVar s' = Some (m\<lparr>mt_coarseHeads := Some h'\<rparr>) \<and> upToDate (m\<lparr>mt_coarseHeads := Some h'\<rparr>) (insert level ls)) \<and>
    tempView s' = tempView s \<and> pool_le (poolView s) (poolView s')) s"
proof -
  obtain h where h: "mt_coarseHeads m = Some h" using m(2) by blast
  have inv: "pad_inv (poolView s) (content s) m (pd_modelCache s) cs d" using ok m(1) by (auto simp: pad_ok_def)
  have head: "mt_head m = int (length cs) - 1" using inv by (simp add: pad_inv_def)
  let ?D = "desiredCoarseHead level (mt_head m)"
  have co: "coarse_ok (poolView s) (content s) h cs l'"
    if "l' \<in> set [(10, Revs10), (100, Revs100), (1000, Revs1000)]" for l'
    using inv h that unfolding pad_inv_def by blast
  have "(level, coarse) \<in> set [(10, Revs10), (100, Revs100), (1000, Revs1000)]" using l by auto
  from co [OF this] obtain k where k: "obj_get h level = Some k" "- 1 \<le> k" "(k + 1) * level \<le> int (length cs)"
    by (auto simp: coarse_cells)
  have D: "k \<le> ?D" "(?D + 1) * level \<le> int (length cs)"
    using l k(3) head by (auto simp: desiredCoarseHead_def)
  have cells: "cell (poolView s) (content s) cs fl fine y" if y: "0 \<le> y" "y \<le> 10 * ?D + 9" for y
  proof (cases "fl = 1")
    case True
    then have "level = 10" "fine = Revs" using l by auto
    moreover have "y < int (length cs)" using y(2) D(2) \<open>level = 10\<close> by simp
    ultimately show ?thesis using revs_cell [OF inv y(1)] True by simp
  next
    case False
    then have f: "(fl, fine) \<in> set [(10, Revs10), (100, Revs100), (1000, Revs1000)]" "fl \<in> ls"
      "obj_get h fl = Some (desiredCoarseHead fl (mt_head m))"
      using l fl up h by (auto simp: upToDate_def)
    have "y \<le> desiredCoarseHead fl (mt_head m)" using y(2) D(2) l False head by (auto simp: desiredCoarseHead_def)
    with co [OF f(1)] f(3) y(1) show ?thesis by (auto simp: coarse_cells)
  qed
  have loop: "wp (forA (composeTen level fine coarse) [k + 1 .. ?D]) (\<lambda>_ s'. pad_ok s' cs d \<and>
    (\<exists>h'. metaVar s' = Some (m\<lparr>mt_coarseHeads := Some h'\<rparr>) \<and>
       obj_get h' level = Some (max (k + 1 - 1) ?D) \<and> (\<forall>l. l \<noteq> level \<longrightarrow> obj_get h' l = obj_get h l)) \<and>
    tempView s' = tempView s \<and> pool_le (poolView s) (poolView s')) s"
    by (rule level_loop [OF ok m(1) h _ l _ D(2) cells]) (use k in simp_all)
  have "wp (forA (composeTen level fine coarse) [k + 1 .. ?D]) (\<lambda>_ s'. pad_ok s' cs d \<and>
    (\<exists>h'. metaVar s' = Some (m\<lparr>mt_coarseHeads := Some h'\<rparr>) \<and> upToDate (m\<lparr>mt_coarseHeads := Some h'\<rparr>) (insert level ls)) \<and>
    tempView s' = tempView s \<and> pool_le (poolView s) (poolView s')) s"
  proof (rule wp_mono [OF loop], elim conjE exE)
    fix s' h'
    assume s': "pad_ok s' cs d" "metaVar s' = Some (m\<lparr>mt_coarseHeads := Some h'\<rparr>)"
      "obj_get h' level = Some (max (k + 1 - 1) ?D)" "\<forall>l. l \<noteq> level \<longrightarrow> obj_get h' l = obj_get h l"
      "tempView s' = tempView s" "pool_le (poolView s) (poolView s')"
    have "max (k + 1 - 1) ?D = ?D" using D(1) by simp
    then have "upToDate (m\<lparr>mt_coarseHeads := Some h'\<rparr>) (insert level ls)"
      using s'(3,4) up h fl(2) by (auto simp: upToDate_def)
    with s' show "pad_ok s' cs d \<and> (\<exists>h'. metaVar s' = Some (m\<lparr>mt_coarseHeads := Some h'\<rparr>) \<and>
        upToDate (m\<lparr>mt_coarseHeads := Some h'\<rparr>) (insert level ls)) \<and>
      tempView s' = tempView s \<and> pool_le (poolView s) (poolView s')" by blast
  qed
  then show ?thesis using h k(1) by (simp add: updateLevel_def wps wp_ret_fun pad_wps m(1) Let_def)
qed

lemma updateCoarseChangesets_ok:
  assumes ok: "pad_ok s cs d" and m: "metaVar s = Some m"
  shows "wp (updateCoarseChangesets onlyIfPresent) (\<lambda>_ s'. pad_ok s' cs d \<and>
    (\<exists>m'. metaVar s' = Some m' \<and> (onlyIfPresent \<or> upToDate m' {10, 100, 1000})) \<and>
    tempView s' = tempView s \<and> pool_le (poolView s) (poolView s')) s"
proof (cases "mt_coarseHeads m = None \<and> onlyIfPresent")
  case True
  have "pool_wf (poolView s)" using ok by (auto simp: pad_ok_def pad_inv_def)
  with True ok m show ?thesis by (simp add: updateCoarseChangesets_def wps pad_wps pool_le_refl)
next
  case False
  let ?Q = "\<lambda>_ s'. pad_ok s' cs d \<and>
    (\<exists>m'. metaVar s' = Some m' \<and> (onlyIfPresent \<or> upToDate m' {10, 100, 1000})) \<and>
    tempView s' = tempView s \<and> pool_le (poolView s) (poolView s')"
  let ?levels = "[(10, Revs, Revs10), (100, Revs10, Revs100), (1000, Revs100, Revs1000)]"
  have wf: "pool_wf (poolView s)" using ok by (auto simp: pad_ok_def pad_inv_def)
  have fin: "wp (whenA dirty (modStatus (\<lambda>t. t\<lparr>st_dirty := True\<rparr>))) ?Q t"
    if t: "pad_ok t cs d" "metaVar t = Some m'" "upToDate m' {1000, 100, 10}" "tempView t = tempView s"
      "pool_le (poolView s) (poolView t)" for t m' dirty
  proof -
    obtain st where st: "mt_status m' = Some st" using t(1,2) by (auto simp: pad_ok_def pad_inv_def)
    have "pad_ok (setMeta (m'\<lparr>mt_status := Some (st\<lparr>st_dirty := True\<rparr>)\<rparr>) t) cs d"
      by (rule pad_ok_setMeta [OF t(1,2)]) simp_all
    moreover have "upToDate (m'\<lparr>mt_status := Some (st\<lparr>st_dirty := True\<rparr>)\<rparr>) {10, 100, 1000}"
      "upToDate m' {10, 100, 1000}" using t(3) by (auto simp: upToDate_def)
    ultimately show ?thesis using t by (auto simp: wps wp_modStatus [OF t(2) st] views)
  qed
  have loop: "wp (foldA updateLevel ?levels False) (\<lambda>dirty. wp (whenA dirty (modStatus (\<lambda>t. t\<lparr>st_dirty := True\<rparr>))) ?Q) t"
    if t: "pad_ok t cs d" "metaVar t = Some m1" "mt_coarseHeads m1 \<noteq> None" "tempView t = tempView s"
      "pool_le (poolView s) (poolView t)" for t m1
  proof -
    have u0: "upToDate m1 {}" using t(3) by (auto simp: upToDate_def)
    show ?thesis
      unfolding foldA.simps wp_bind
    proof (rule wp_mono [OF updateLevel_ok [OF t(1-3) _ u0, where fl = 1]]; (elim conjE exE)?)
      fix dirty1 t1 h1
      assume t1: "pad_ok t1 cs d" "metaVar t1 = Some (m1\<lparr>mt_coarseHeads := Some h1\<rparr>)"
        "upToDate (m1\<lparr>mt_coarseHeads := Some h1\<rparr>) (insert 10 {})" "tempView t1 = tempView t"
        "pool_le (poolView t) (poolView t1)"
      show "wp (updateLevel (100, Revs10, Revs100) dirty1) (\<lambda>a. wp (updateLevel (1000, Revs100, Revs1000) a)
          (\<lambda>a. wp (ret a) (\<lambda>dirty. wp (whenA dirty (modStatus (\<lambda>t. t\<lparr>st_dirty := True\<rparr>))) ?Q))) t1"
      proof (rule wp_mono [OF updateLevel_ok [OF t1(1,2) _ _ t1(3), where fl = 10]]; (elim conjE exE)?)
        fix dirty2 t2 h2
        assume t2: "pad_ok t2 cs d" "metaVar t2 = Some (m1\<lparr>mt_coarseHeads := Some h1, mt_coarseHeads := Some h2\<rparr>)"
          "upToDate (m1\<lparr>mt_coarseHeads := Some h1, mt_coarseHeads := Some h2\<rparr>) (insert 100 {10})"
          "tempView t2 = tempView t1" "pool_le (poolView t1) (poolView t2)"
        show "wp (updateLevel (1000, Revs100, Revs1000) dirty2)
          (\<lambda>a. wp (ret a) (\<lambda>dirty. wp (whenA dirty (modStatus (\<lambda>t. t\<lparr>st_dirty := True\<rparr>))) ?Q)) t2"
        proof (rule wp_mono [OF updateLevel_ok [OF t2(1,2) _ _ t2(3), where fl = 100]]; (elim conjE exE)?)
          fix dirty3 t3 h3
          assume t3: "pad_ok t3 cs d"
            "metaVar t3 = Some (m1\<lparr>mt_coarseHeads := Some h1, mt_coarseHeads := Some h2, mt_coarseHeads := Some h3\<rparr>)"
            "upToDate (m1\<lparr>mt_coarseHeads := Some h1, mt_coarseHeads := Some h2, mt_coarseHeads := Some h3\<rparr>) (insert 1000 {100, 10})"
            "tempView t3 = tempView t2" "pool_le (poolView t2) (poolView t3)"
          show "wp (ret dirty3) (\<lambda>dirty. wp (whenA dirty (modStatus (\<lambda>t. t\<lparr>st_dirty := True\<rparr>))) ?Q) t3"
            unfolding wp_ret
            by (rule fin [OF t3(1-3)]) (use t3(4,5) t2(4,5) t1(4,5) t(4,5) pool_le_trans in \<open>simp, blast\<close>)
        qed simp_all
      qed simp_all
    qed simp_all
  qed
  show ?thesis
  proof (cases "mt_coarseHeads m")
    case (Some h)
    then have "mt_coarseHeads m \<noteq> None" by simp
    from loop [OF ok m this refl pool_le_refl [OF wf]] show ?thesis
      using False Some m by (simp add: updateCoarseChangesets_def wps pad_wps)
  next
    case None
    have "pad_ok (setMeta (m\<lparr>mt_coarseHeads := Some emptyCoarseHeads\<rparr>) s) cs d"
      using ok m by (intro pad_ok_setMeta [OF ok m])
        (auto simp: pad_ok_def pad_inv_def coarse_ok_def emptyCoarseHeads_def obj_get_def)
    from loop [OF this, of "m\<lparr>mt_coarseHeads := Some emptyCoarseHeads\<rparr>"] show ?thesis
      using False None m wf by (simp add: updateCoarseChangesets_def wps pad_wps views pool_le_refl)
  qed
qed

subsection \<open>Adding a revision\<close>

lemma getCurrentAText_ok:
  assumes ok: "pad_ok s cs d"
  shows "wp getCurrentAText (\<lambda>at s'. pad_ok s' cs d \<and> at_text at = d \<and> atext_ok (poolView s') at \<and>
    tm_atext (tempView s') = Some at \<and> pool_le (poolView s) (poolView s') \<and> metaVar s' = metaVar s \<and>
    tm_revisionSockets (tempView s') = tm_revisionSockets (tempView s)) s"
proof -
  obtain m where m: "metaVar s = Some m" "pad_inv (poolView s) (content s) m (pd_modelCache s) cs d"
    using ok by (auto simp: pad_ok_def)
  have wf: "pool_wf (poolView s)" using m(2) by (simp add: pad_inv_def)
  let ?s = "s\<lparr>pd_temp := Some (tempView s)\<rparr>"
  have s: "pad_ok ?s cs d" using ok by (simp add: pad_ok_def views)
  show ?thesis
  proof (cases "tm_atext (tempView s)")
    case (Some at)
    with ok s wf show ?thesis by (simp add: getCurrentAText_def wps pad_wps views pool_le_refl) (simp add: pad_ok_def)
  next
    case None
    then have "cs \<noteq> []" using ok by (auto simp: pad_ok_def)
    moreover have "mt_head m = int (length cs) - 1" using m(2) by (simp add: pad_inv_def)
    ultimately have r: "0 \<le> mt_head m" "mt_head m < int (length cs)" "nat (mt_head m) + 1 = length cs"
      by (cases cs; simp)+
    have "wp (getInternalRevisionAText (mt_head m)) (\<lambda>at.
        wp (thenA (modTemp (\<lambda>t. t\<lparr>tm_atext := Some at\<rparr>)) (ret at)) (\<lambda>at s'. pad_ok s' cs d \<and> at_text at = d \<and>
      atext_ok (poolView s') at \<and> tm_atext (tempView s') = Some at \<and> pool_le (poolView s) (poolView s') \<and>
      metaVar s' = metaVar s \<and> tm_revisionSockets (tempView s') = tm_revisionSockets (tempView s))) ?s"
    proof (rule wp_mono [OF getInternalRevisionAText_ok [OF s r(1,2)]], elim conjE)
      fix at s'
      assume t: "pad_ok s' cs d" "rev_atext (poolView s') cs (mt_head m) at"
        "pool_le (poolView ?s) (poolView s')" "metaVar s' = metaVar ?s" "tempView s' = tempView ?s"
      have p: "ot.path (poolView s') cs [nl] (at_text at)" "atext_ok (poolView s') at"
        using t(2) r(3) by (simp_all add: rev_atext_def)
      have "at_text at = d" by (rule path_unique [OF p(1) pad_inv_path [OF m(2)]])
      then show "wp (thenA (modTemp (\<lambda>t. t\<lparr>tm_atext := Some at\<rparr>)) (ret at)) (\<lambda>at s'. pad_ok s' cs d \<and>
          at_text at = d \<and> atext_ok (poolView s') at \<and> tm_atext (tempView s') = Some at \<and>
          pool_le (poolView s) (poolView s') \<and> metaVar s' = metaVar s \<and>
          tm_revisionSockets (tempView s') = tm_revisionSockets (tempView s)) s'"
        using t p(2) by (simp add: wps pad_wps views pad_ok_def)
    qed
    then show ?thesis using None m(1) by (simp add: getCurrentAText_def wps pad_wps views)
  qed
qed

lemma spans_snoc: "spans p cs a n c \<Longrightarrow> spans p (cs @ [x]) a n c"
  by (auto simp: spans_def)

lemma coarse_snoc: "coarse_ok p arr h cs l \<Longrightarrow> coarse_ok p arr h (cs @ [x]) l"
  unfolding coarse_ok_def using spans_snoc by (fastforce split: prod.splits)

lemma rev_atext_snoc: "r < int (length cs) \<Longrightarrow> 0 \<le> r \<Longrightarrow> rev_atext p cs r at \<Longrightarrow> rev_atext p (cs @ [x]) r at"
  by (simp add: rev_atext_def)

lemma pad_inv_snoc:
  assumes inv: "pad_inv p arr m mc cs d" and c: "applies p c d d'"
    and at: "at_text at = d'" "atext_ok p at"
    and rm: "int (length cs) mod mt_keyRevInterval m = 0 \<longrightarrow> rm_atext rm = Some at"
    and arr': "arr' Revs = (arr Revs)(int (length cs) \<mapsto> TextEntry c)"
      "arr' RevMeta = (arr RevMeta)(int (length cs) \<mapsto> RevMetaEntry rm)"
      "\<And>n. n \<in> {Revs10, Revs100, Revs1000} \<Longrightarrow> arr' n = arr n"
  shows "pad_inv p arr' (m\<lparr>mt_head := int (length cs)\<rparr>) mc (cs @ [c]) d'"
proof -
  have p: "ot.path p (cs @ [c]) [nl] d'" using pad_inv_path [OF inv] c by (auto simp: ot.path_append)
  have r: "rev_atext p (cs @ [c]) (int (length cs)) at" using p at by (simp add: rev_atext_def)
  have 1: "arr' Revs (int i) = Some (TextEntry ((cs @ [c]) ! i))" if "i < length (cs @ [c])" for i
    using that pad_inv_rev [OF inv, of "int i"] by (cases "i = length cs") (auto simp: arr' nth_append)
  have 2: "\<exists>rm. arr' RevMeta (int i) = Some (RevMetaEntry rm) \<and>
         (int i mod mt_keyRevInterval m = 0 \<longrightarrow> (\<exists>at. rm_atext rm = Some at \<and> rev_atext p (cs @ [c]) (int i) at))"
    if "i < length (cs @ [c])" for i
  proof (cases "i = length cs")
    case True
    with r rm show ?thesis by (auto simp: arr')
  next
    case False
    with that have i: "i < length cs" by simp
    with pad_inv_revmeta [OF inv, of "int i"] obtain rm' where "arr RevMeta (int i) = Some (RevMetaEntry rm')"
      "int i mod mt_keyRevInterval m = 0 \<longrightarrow> (\<exists>at. rm_atext rm' = Some at \<and> rev_atext p cs (int i) at)" by auto
    with i show ?thesis using rev_atext_snoc [of "int i" cs p _ c] by (auto simp: arr')
  qed
  have 3: "coarse_ok p arr' h (cs @ [c]) l" if "mt_coarseHeads m = Some h"
    "l \<in> set [(10, Revs10), (100, Revs100), (1000, Revs1000)]" for h l
  proof -
    have "coarse_ok p arr h (cs @ [c]) l" using inv that coarse_snoc unfolding pad_inv_def by blast
    then show ?thesis using that(2) arr'(3) by (auto simp: coarse_ok_def)
  qed
  have 4: "0 \<le> r \<and> r < int (length (cs @ [c])) \<and> rev_atext p (cs @ [c]) r at" if "obj_get mc r = Some at" for r at
  proof -
    have "0 \<le> r \<and> r < int (length cs) \<and> rev_atext p cs r at" using inv that unfolding pad_inv_def by blast
    then show ?thesis using rev_atext_snoc [of r cs p at c] by simp
  qed
  show ?thesis using inv p 1 2 3 4 unfolding pad_inv_def by simp
qed

lemma addRevision_ok:
  assumes ok: "pad_ok s cs d" and c: "applies (poolView s) c d d'"
  shows "wp (addRevision c author optDatestamp) (\<lambda>_ s'. pad_ok s' (cs @ [c]) d' \<and>
    pool_le (poolView s) (poolView s') \<and> tm_revisionSockets (tempView s') = tm_revisionSockets (tempView s)) s"
proof -
  let ?Q = "\<lambda>_ s'. pad_ok s' (cs @ [c]) d' \<and> pool_le (poolView s) (poolView s') \<and>
    tm_revisionSockets (tempView s') = tm_revisionSockets (tempView s)"
  have ne: "c \<noteq> ''''" using applies_truthy [OF c] by (simp add: truthy_def)
  show ?thesis
    unfolding addRevision_def wp_bind [of getCurrentAText]
  proof (rule wp_mono [OF getCurrentAText_ok [OF ok]], elim conjE)
    fix at s1
    assume s1: "pad_ok s1 cs d" "at_text at = d" "atext_ok (poolView s1) at" "tm_atext (tempView s1) = Some at"
      "pool_le (poolView s) (poolView s1)" "metaVar s1 = metaVar s"
      "tm_revisionSockets (tempView s1) = tm_revisionSockets (tempView s)"
    obtain m where m: "metaVar s1 = Some m" "pad_inv (poolView s1) (content s1) m (pd_modelCache s1) cs d" "arrays_ok s1"
      using s1(1) by (auto simp: pad_ok_def)
    have head: "mt_head m + 1 = int (length cs)" using m(2) by (simp add: pad_inv_def)
    have c1: "applies (poolView s1) c (at_text at) d'" using applies_pool_le [OF s1(5) c] s1(2) by simp
    obtain at' q where q: "applyToAText c at (Some (poolView s1)) = Inr (at', Some q)" "pool_le (poolView s1) q"
      "at_text at' = d'" "atext_ok q at'" using applyToAText_ok [OF c1 s1(3)] by blast
    let ?m = "m\<lparr>mt_head := mt_head m + 1\<rparr>"
    let ?at = "copyAText at' at"
    have at: "?at = at'" by (cases at') (simp add: copyAText_def)
    let ?s2 = "setMeta ?m (s1\<lparr>pd_apool := Some q, pd_temp := Some (tempView s1\<lparr>tm_atext := Some at'\<rparr>)\<rparr>)"
    have s2: "metaVar ?s2 = Some ?m" "content ?s2 = content s1" "arrays_ok ?s2" "poolView ?s2 = q"
      "tm_atext (tempView ?s2) = Some at'" "pd_modelCache ?s2 = pd_modelCache s1"
      using m(3) by (simp_all add: views)
    obtain a q' where a: "putAttrib (''author'', author) False q = (a, q')" by fastforce
    have q': "pool_le q q'" by (rule pool_le_put [OF pool_le_wf [OF q(2)] a])
    let ?rm = "\<lambda>now. \<lparr>rm_t = (case optDatestamp of None \<Rightarrow> now | Some t \<Rightarrow> if t = 0 then now else t), rm_a = a,
      rm_atext = (if mt_head ?m mod mt_keyRevInterval ?m = 0 then Some at' else None)\<rparr>"
    have last: "wp (updateCoarseChangesets True) ?Q t"
      if t: "metaVar t = Some ?m" "arrays_ok t" "poolView t = q'" "tm_atext (tempView t) = Some at'"
        "pd_modelCache t = pd_modelCache s1" "tm_revisionSockets (tempView t) = tm_revisionSockets (tempView s)"
        "content t = (content s1)(Revs := (content s1 Revs)(mt_head ?m \<mapsto> TextEntry c),
          RevMeta := (content s1 RevMeta)(mt_head ?m \<mapsto> RevMetaEntry (?rm now)))" for t now
    proof -
      have same: "content t n = content s1 n" if "n \<in> {Revs10, Revs100, Revs1000}" for n
        using that by (auto simp: t(7))
      have "pad_inv q' (content t) (m\<lparr>mt_head := int (length cs)\<rparr>) (pd_modelCache t) (cs @ [c]) d'"
        by (rule pad_inv_snoc [where arr = "content s1" and at = at' and rm = "?rm now"])
          (use same pad_inv_le [OF pool_le_trans [OF q(2) q'] m(2)] head t(5) fun_cong [OF t(7)] q(3) atext_ok_le [OF q' q(4)]
            applies_pool_le [OF pool_le_trans [OF s1(5) pool_le_trans [OF q(2) q']] c] in \<open>simp_all\<close>)
      then have ok': "pad_ok t (cs @ [c]) d'"
        using t head q(3) atext_ok_le [OF q' q(4)] by (simp add: pad_ok_def)
      show ?thesis
        by (rule wp_mono [OF updateCoarseChangesets_ok [OF ok' t(1)]])
          (use t(3,6) pool_le_trans [OF s1(5) pool_le_trans [OF q(2) q']] pool_le_trans in auto)
    qed
    have "wp (setEntry Revs (mt_head ?m) (TextEntry c)) (\<lambda>_. wp (bindA (getA pd_now) (\<lambda>now.
      bindA (getNumForAuthor author False) (\<lambda>a.
      thenA (setEntry RevMeta (mt_head ?m) (RevMetaEntry
               \<lparr>rm_t = (case optDatestamp of None \<Rightarrow> now | Some t \<Rightarrow> if t = 0 then now else t),
                rm_a = a,
                rm_atext = (if mt_head ?m mod mt_keyRevInterval ?m = 0 then Some at' else None)\<rparr>))
        (updateCoarseChangesets True)))) ?Q) ?s2"
    proof (rule wp_setEntry [OF s2(3)])
      show "truthyEntry (Some (TextEntry c))" using ne by simp
    next
      fix f
      let ?s3 = "?s2\<lparr>pd_arrays := f\<rparr>"
      assume f: "arrays_ok ?s3" "content ?s3 = (content ?s2)(Revs := (content ?s2 Revs)(mt_head ?m \<mapsto> TextEntry c))"
      let ?s4 = "?s3\<lparr>pd_apool := Some q'\<rparr>"
      have s4: "arrays_ok ?s4" using f(1) by (simp add: views)
      have "wp (setEntry RevMeta (mt_head ?m) (RevMetaEntry (?rm (pd_now ?s3)))) (\<lambda>_. wp (updateCoarseChangesets True) ?Q) ?s4"
      proof (rule wp_setEntry [OF s4])
        fix g
        assume g: "arrays_ok (?s4\<lparr>pd_arrays := g\<rparr>)"
          "content (?s4\<lparr>pd_arrays := g\<rparr>) = (content ?s4)(RevMeta := (content ?s4 RevMeta)
            (mt_head ?m \<mapsto> RevMetaEntry (?rm (pd_now ?s3))))"
        have cont: "content ?s4 = (content s1)(Revs := (content s1 Revs)(mt_head ?m \<mapsto> TextEntry c))"
          using f(2) s2(2) by (simp only: views)
        show "wp (updateCoarseChangesets True) ?Q (?s4\<lparr>pd_arrays := g\<rparr>)"
        proof (rule last [of _ "pd_now ?s3"])
          show "content (?s4\<lparr>pd_arrays := g\<rparr>) = (content s1)(Revs := (content s1 Revs)(mt_head ?m \<mapsto> TextEntry c),
              RevMeta := (content s1 RevMeta)(mt_head ?m \<mapsto> RevMetaEntry (?rm (pd_now ?s3))))"
            unfolding g(2) cont by simp
        qed (use g(1) s1(7) in \<open>simp_all add: views\<close>)
      qed simp
      then show "wp (bindA (getA pd_now) (\<lambda>now.
        bindA (getNumForAuthor author False) (\<lambda>a.
        thenA (setEntry RevMeta (mt_head ?m) (RevMetaEntry
               \<lparr>rm_t = (case optDatestamp of None \<Rightarrow> now | Some t \<Rightarrow> if t = 0 then now else t),
                rm_a = a,
                rm_atext = (if mt_head ?m mod mt_keyRevInterval ?m = 0 then Some at' else None)\<rparr>))
          (updateCoarseChangesets True)))) ?Q ?s3"
        by (simp add: wp_bind wp_then wp_get getNumForAuthor_def wp_apool views a wp_mod wp_ret del: fun_upd_apply)
    qed
    then show "wp (bindA (withPadPool (applyToAText c at)) (\<lambda>newAText.
        thenA (modTemp (\<lambda>t. t\<lparr>tm_atext := Some (copyAText newAText at)\<rparr>))
       (thenA (modMeta (\<lambda>m. m\<lparr>mt_head := mt_head m + 1\<rparr>))
       (bindA getMeta (\<lambda>meta.
        (let newRev = mt_head meta in
         thenA (setEntry Revs newRev (TextEntry c))
        (bindA (getA pd_now) (\<lambda>now.
         bindA (getNumForAuthor author False) (\<lambda>a.
         thenA (setEntry RevMeta newRev (RevMetaEntry
               \<lparr>rm_t = (case optDatestamp of None \<Rightarrow> now | Some t \<Rightarrow> if t = 0 then now else t),
                rm_a = a,
                rm_atext = (if newRev mod mt_keyRevInterval meta = 0
                            then Some (copyAText newAText at) else None)\<rparr>))
        (updateCoarseChangesets True)))))))))) ?Q s1"
      unfolding wp_bind [of "withPadPool _"] wp_withPadPool [of "applyToAText c at", OF q(1)] wp_then wp_modTemp at
      by (simp add: wp_bind [of getMeta] wp_modMeta wp_getMeta m(1) views Let_def at wp_then)
  qed
qed

end
