(* ===== verification/PadProps.thy ===== *)
theory PadProps
  imports PadLaws
begin

text \<open>
  The properties of the pad: creation, the text of every revision, coarse changesets, saving to the
  database and removal from memory, and what a destroyed pad leaves behind.
\<close>

subsection \<open>Creating a pad\<close>

lemma makeSplice_applies:
  assumes "t = pre @ old @ post" and "post \<noteq> []" and "att \<in> {NoAttribs, AttribsPairs []}" and "pool_wf p"
  shows "\<exists>cs. makeSplice t (int (length pre)) (int (length old)) new att (Some p) = Inr (cs, Some p) \<and>
    applies p cs t (pre @ new @ post)"
proof -
  have att: "attribsArg_ok att" "makeAttribsString Ins att (Some p) = Inr (astr, Some p') \<Longrightarrow>
      p' = p \<and> (case astr of None \<Rightarrow> '''' | Some a \<Rightarrow> a) = ''''" for astr p'
    using assms(3) by (auto simp: attribsArg_ok_def makeAttribsString_def)
  have cut: "(if int (length t) \<le> int (length pre) then int (length t) - 1 else int (length pre)) = int (length pre)"
    "(if int (length t) - int (length pre) - 1 < int (length old) then int (length t) - int (length pre) - 1
      else int (length old)) = int (length old)"
    using assms(1,2) by (cases post; simp)+
  from makeSplice_packed [OF assms(1,2) cut att(1) assms(4), where new = new]
  obtain a p' astr where "makeSplice t (int (length pre)) (int (length old)) new att (Some p) =
      Inr (packed t (spliceScript pre old new a), Some p')"
    "makeAttribsString Ins att (Some p) = Inr (astr, Some p')" "a = (case astr of None \<Rightarrow> '''' | Some a \<Rightarrow> a)"
    by auto
  with att(2) have m: "makeSplice t (int (length pre)) (int (length old)) new att (Some p) =
      Inr (packed t (spliceScript pre old new ''''), Some p)" by auto
  note s = spliceScript_text [where pre = pre and old = old and new = new and a = "''''"]
  have e: "t = src (spliceScript pre old new '''') @ post" by (simp add: s assms(1))
  have ok: "script_ok (spliceScript pre old new '''')" by (rule s(4)) simp
  have "known p (smart_norm (spliceScript pre old new ''''))"
    using smart_norm_text [OF script_ok_no_NoOp [OF ok]]
    by (auto simp: known_def list_all_iff spliceScript_def run_def att_known_def)
  with appliesI [OF assms(4) canonical_packed [OF ok] packed_applies(2) [OF ok, of post]] packed_applies(1) [OF ok, of post]
  have "applies p (packed t (spliceScript pre old new '''')) t (pre @ new @ post)"
    using applyToText_result [OF packed_applies(2) [OF ok, of post]] by (simp add: s assms(1))
  with m show ?thesis by blast
qed

lemma makeAText_newline: "makeAText [nl] '''' = Inr \<lparr>at_text = [nl], at_attribs = ''|1+1''\<rparr>"
  by code_simp

lemma newline_ok: "pool_wf p \<Longrightarrow> atext_ok p \<lparr>at_text = [nl], at_attribs = ''|1+1''\<rparr>"
proof -
  assume "pool_wf p"
  have "attribution ''|1+1'' [nl] [Edit Ins '''' nl]" by code_simp
  moreover have "known p [Edit Ins '''' nl]" by (simp add: known_def att_known_def)
  ultimately show ?thesis unfolding atext_ok_def by auto
qed


lemma detached_views:
  "metaVar (s\<lparr>pd_detached := Some m\<rparr>) = Some m" "content (s\<lparr>pd_detached := x\<rparr>) = content s"
  "arrays_ok (s\<lparr>pd_detached := x\<rparr>) = arrays_ok s" "poolView (s\<lparr>pd_detached := x\<rparr>) = poolView s"
  "tempView (s\<lparr>pd_detached := x\<rparr>) = tempView s"
  by (simp_all add: metaVar_def content_def fun_eq_iff arrays_ok_def poolView_def tempView_def split: option.split)

text \<open>A new pad: one revision, which inserts the text before the newline that ends it.\<close>

lemma create_ok:
  assumes a: "arrays_ok s" and wf: "pool_wf (poolView s)" and mc: "pd_modelCache s = []"
    and mk: "makeSplice [nl] 0 0 txt (AttribsPairs []) (Some (poolView s)) = Inr (c, q)"
  shows "wp (create padId (CreateText txt)) (\<lambda>_ s'. pad_ok s' [c] (txt @ [nl]) \<and> pd_detached s' = None) s"
proof -
  let ?Q = "\<lambda>_ s'. pad_ok s' [c] (txt @ [nl]) \<and> pd_detached s' = None"
  let ?at = "\<lparr>at_text = [nl], at_attribs = ''|1+1''\<rparr>"
  let ?s1 = "s\<lparr>pd_detached := Some (newMeta padId (pd_now s))\<rparr>"
  let ?s2 = "?s1\<lparr>pd_temp := Some (tempView ?s1\<lparr>tm_atext := Some ?at\<rparr>)\<rparr>"
  let ?s3 = "?s2\<lparr>pd_apool := Some (poolView s)\<rparr>"
  have "pad_inv (poolView s) (content s) (newMeta padId (pd_now s)) [] [] [nl]"
    using wf by (simp add: pad_inv_def newMeta_def)
  then have ok: "pad_ok ?s3 [] [nl]"
    using a newline_ok [OF wf] mc by (simp add: pad_ok_def views detached_views)
  have c: "makeSplice [nl] 0 0 txt (AttribsPairs []) (Some (poolView s)) = Inr (c, Some (poolView s))"
    "applies (poolView s) c [nl] (txt @ [nl])"
    using mk makeSplice_applies [where t = "[nl]" and pre = "[]" and old = "[]" and post = "[nl]"
      and att = "AttribsPairs []" and p = "poolView s" and new = "txt"] wf by auto
  have "applies (poolView ?s3) c [nl] (txt @ [nl])" using c(2) by (simp add: views)
  note addRev = addRevision_ok [OF ok this, of "''''" None]
  have first: "wp (firstChangeset (CreateText txt)) (\<lambda>x. wp (addRevision x '''' None) Q) ?s2 =
      wp (addRevision c '''' None) Q ?s3" for Q
  proof -
    have "makeSplice [nl] 0 0 txt (AttribsPairs []) (Some (poolView ?s2)) = Inr (c, Some (poolView s))"
      using c(1) by (simp add: views detached_views)
    from wp_withPadPool [of "makeSplice [nl] 0 0 txt (AttribsPairs [])", OF this] show ?thesis
      by (simp add: firstChangeset_def)
  qed
  have "wp (addRevision c '''' None) (\<lambda>_. wp insertPadMetaData (\<lambda>_. wp getHeadRevisionNumber (\<lambda>head.
      wp (externalCall (SqlMetaInsert (pd_now s) head)) (\<lambda>_. wp (externalCall OnNewPad) ?Q)))) ?s3"
  proof (rule wp_mono [OF addRev], elim conjE)
    fix t
    assume "pad_ok t ([] @ [c]) (txt @ [nl])"
    then have t: "pad_ok t [c] (txt @ [nl])" by simp
    then obtain m where m: "metaVar t = Some m" by (auto simp: pad_ok_def)
    let ?t = "t\<lparr>pd_metaCache := metaVar t, pd_detached := None\<rparr>"
    have v: "metaVar ?t = metaVar t" "content ?t = content t" "arrays_ok ?t = arrays_ok t" "poolView ?t = poolView t"
      "tempView ?t = tempView t"
      by (simp_all add: metaVar_def content_def fun_eq_iff arrays_ok_def poolView_def tempView_def split: option.split)
    have "pad_ok ?t [c] (txt @ [nl])" using t by (simp add: pad_ok_def v)
    then have "pad_ok (?t\<lparr>pd_external := x\<rparr>) [c] (txt @ [nl])" for x by (simp add: pad_ok_def views)
    then show "wp insertPadMetaData (\<lambda>_. wp getHeadRevisionNumber (\<lambda>head.
      wp (externalCall (SqlMetaInsert (pd_now s) head)) (\<lambda>_. wp (externalCall OnNewPad) ?Q))) t"
      using m v(1) by (auto simp: insertPadMetaData_def wps wp_head externalCall_def wp_mod_fun)
  qed
  then show ?thesis
    by (simp add: create_def wps makeAText_newline wp_modTemp first)
qed

subsection \<open>Reading\<close>

lemma getCoarseChangeset_ok:
  assumes ok: "pad_ok s cs d" and n: "n \<in> {10, 100, 1000}" and start: "0 \<le> start" "start mod n = 0"
    "start + n \<le> int (length cs)"
  shows "wp (getCoarseChangeset start n) (\<lambda>r s'. pad_ok s' cs d \<and>
    (\<exists>c. r = Some c \<and> spans (poolView s') cs (nat start) (nat n) c)) s"
proof -
  let ?Q = "\<lambda>r s'. pad_ok s' cs d \<and> (\<exists>c. r = Some c \<and> spans (poolView s') cs (nat start) (nat n) c)"
  obtain m where m: "metaVar s = Some m" using ok by (auto simp: pad_ok_def)
  define x where "x = start div n"
  define name where "name = (if n = 10 then Revs10 else if n = 100 then Revs100 else Revs1000)"
  have np: "0 < n" using n by auto
  have x: "0 \<le> x" "n * x = start" "x * n = start"
    using start np by (auto simp: x_def pos_imp_zdiv_nonneg_iff)
  have l: "(n, name) \<in> set [(10, Revs10), (100, Revs100), (1000, Revs1000)]" using n by (auto simp: name_def)
  have "wp (updateCoarseChangesets False) (\<lambda>_. wp (bindA (getEntry name x) (\<lambda>cs.
      ret (if truthyEntry cs then Some (entryText cs) else None))) ?Q) s"
  proof (rule wp_mono [OF updateCoarseChangesets_ok [OF ok m]], elim conjE exE)
    fix t m'
    assume t: "pad_ok t cs d" "metaVar t = Some m'" "False \<or> upToDate m' {10, 100, 1000}"
    then obtain h where h: "mt_coarseHeads m' = Some h" "obj_get h n = Some (desiredCoarseHead n (mt_head m'))"
      using n by (auto simp: upToDate_def)
    have inv: "pad_inv (poolView t) (content t) m' (pd_modelCache t) cs d" "arrays_ok t" using t by (auto simp: pad_ok_def)
    then have "coarse_ok (poolView t) (content t) h cs (n, name)" "mt_head m' = int (length cs) - 1"
      using h(1) l unfolding pad_inv_def by blast+
    moreover have "x \<le> desiredCoarseHead n (int (length cs) - 1)"
      using start(3) n x by (auto simp: desiredCoarseHead_def)
    ultimately obtain c where c: "content t name x = Some (TextEntry c)" "spans (poolView t) cs (nat start) (nat n) c"
      using h(2) x by (auto simp: coarse_cells cell_def)
    obtain d1 d2 where "applies (poolView t) c d1 d2" using c(2) by (auto simp: spans_def)
    then have ne: "c \<noteq> ''''" using applies_truthy by (auto simp: truthy_def)
    have wf: "pool_wf (poolView t)" using inv(1) by (simp add: pad_inv_def)
    show "wp (bindA (getEntry name x) (\<lambda>cs. ret (if truthyEntry cs then Some (entryText cs) else None))) ?Q t"
      unfolding wp_bind
    proof (rule wp_getEntry [OF inv(2) x(1)])
      fix t'
      assume t': "sameArrays t t'"
      then have "pad_ok t' cs d" using pad_ok_grows [OF t(1) sameArrays_grows [OF t' wf]] by simp
      then show "wp (ret (if truthyEntry (content t name x) then Some (entryText (content t name x)) else None)) ?Q t'"
        using c ne t' by (simp add: wps entryText_def views)
    qed
  qed
  then show ?thesis
    using n x start by (auto simp: getCoarseChangeset_def wps Let_def x_def name_def)
qed

subsection \<open>Saving and forgetting\<close>

lemma save_arrays:
  fixes s :: "'e padState_scheme"
  assumes "arrays_ok s"
  shows "wp (forA array_writeToDB names) (\<lambda>_ s'. (\<exists>f g. s' = s\<lparr>pd_arrays := f, db_arrays := g\<rparr>) \<and>
    arrays_ok s' \<and> content s' = content s \<and>
    (\<forall>n. db_arrays s' n = (if n \<in> set names then content s n else db_arrays s n))) s"
  using assms
proof (induction names arbitrary: s)
  case Nil
  have "\<exists>f g. s = s\<lparr>pd_arrays := f, db_arrays := g\<rparr>"
    by (rule exI [of _ "pd_arrays s"], rule exI [of _ "db_arrays s"]) simp
  then show ?case using Nil by (simp add: wps)
next
  case (Cons a names)
  show ?case
    unfolding forA.simps wp_then
  proof (rule wp_mono [OF array_writeToDB_wp [OF Cons.prems]], elim conjE exE)
    fix t :: "'e padState_scheme" and f g
    assume t: "t = s\<lparr>pd_arrays := f, db_arrays := g\<rparr>" "arrays_ok t" "content t = content s"
      "db_arrays t = (db_arrays s)(a := content s a)"
    show "wp (forA array_writeToDB names) (\<lambda>_ s'. (\<exists>f g. s' = s\<lparr>pd_arrays := f, db_arrays := g\<rparr>) \<and>
      arrays_ok s' \<and> content s' = content s \<and>
      (\<forall>n. db_arrays s' n = (if n \<in> set (a # names) then content s n else db_arrays s n))) t"
    proof (rule wp_mono [OF Cons.IH [OF t(2)]], elim conjE exE)
      fix u f' g'
      assume u: "u = t\<lparr>pd_arrays := f', db_arrays := g'\<rparr>" "arrays_ok u" "content u = content t"
        "\<forall>n. db_arrays u n = (if n \<in> set names then content t n else db_arrays t n)"
      have "u = s\<lparr>pd_arrays := f', db_arrays := g'\<rparr>" by (simp add: u(1) t(1))
      then show "(\<exists>f g. u = s\<lparr>pd_arrays := f, db_arrays := g\<rparr>) \<and> arrays_ok u \<and> content u = content s \<and>
          (\<forall>n. db_arrays u n = (if n \<in> set (a # names) then content s n else db_arrays s n))"
        using u(2-4) t(3,4) by auto
    qed
  qed
qed

lemma forget_arrays:
  fixes s :: "'e padState_scheme"
  assumes "arrays_ok s" and "\<forall>n \<in> set names. db_arrays s n = content s n"
  shows "wp (forA forgetArray names) (\<lambda>_ s'. (\<exists>f. s' = s\<lparr>pd_arrays := f\<rparr>) \<and>
    arrays_ok s' \<and> content s' = content s) s"
  using assms
proof (induction names arbitrary: s)
  case Nil
  have "\<exists>f. s = s\<lparr>pd_arrays := f\<rparr>" by (rule exI [of _ "pd_arrays s"]) simp
  then show ?case using Nil by (simp add: wps)
next
  case (Cons a names)
  have a: "db_arrays s a = content s a" using Cons.prems by simp
  show ?case
    unfolding forA.simps wp_then
  proof (rule wp_mono [OF forgetArray_wp [OF Cons.prems(1) a]], elim conjE)
    fix t :: "'e padState_scheme"
    assume t: "t = s\<lparr>pd_arrays := (pd_arrays s)(a := None)\<rparr>" "arrays_ok t" "content t = content s"
    have "\<forall>n \<in> set names. db_arrays t n = content t n" using Cons.prems(2) t(3) by (simp add: t(1))
    from Cons.IH [OF t(2) this]
    show "wp (forA forgetArray names) (\<lambda>_ s'. (\<exists>f. s' = s\<lparr>pd_arrays := f\<rparr>) \<and>
        arrays_ok s' \<and> content s' = content s) t"
    proof (rule wp_mono, elim conjE exE)
      fix u f
      assume u: "u = t\<lparr>pd_arrays := f\<rparr>" "arrays_ok u" "content u = content t"
      have "u = s\<lparr>pd_arrays := f\<rparr>" by (simp add: u(1) t(1))
      with u(2,3) t(3) show "(\<exists>f. u = s\<lparr>pd_arrays := f\<rparr>) \<and> arrays_ok u \<and> content u = content s" by auto
    qed
  qed
qed

text \<open>The database holds what memory holds.\<close>

definition dbPool :: "'e padState_scheme \<Rightarrow> pool" where
  "dbPool s = (case db_apool s of None \<Rightarrow> AttribPool | Some j \<Rightarrow> fromJsonable j)"

definition saved :: "'e padState_scheme \<Rightarrow> bool" where
  "saved s = ((\<forall>n. db_arrays s n = content s n) \<and> pool_le (poolView s) (dbPool s) \<and>
     (\<exists>m. metaVar s = Some m \<and> db_meta s = Some (m\<lparr>mt_status := None\<rparr>)))"

lemma pool_json_le: "pool_wf p \<Longrightarrow> pool_le p (fromJsonable (toJsonable p))"
  by (simp add: pool_le_def pool_json_wf json_getAttrib)

lemma writeToDB_ok:
  assumes ok: "pad_ok s cs d"
  shows "wp writeToDB (\<lambda>_ s'. pad_ok s' cs d \<and> saved s' \<and> metaVar s' = metaVar s) s"
proof -
  let ?Q = "\<lambda>_ s'. pad_ok s' cs d \<and> saved s' \<and> metaVar s' = metaVar s"
  obtain m where m: "metaVar s = Some m" "pad_inv (poolView s) (content s) m (pd_modelCache s) cs d" "arrays_ok s"
    using ok by (auto simp: pad_ok_def)
  have wf: "pool_wf (poolView s)" using m(2) by (simp add: pad_inv_def)
  let ?s1 = "s\<lparr>db_meta := Some (m\<lparr>mt_status := None\<rparr>), pd_external := pd_external s @ [HookWriteToDB]\<rparr>"
  have v1: "metaVar ?s1 = metaVar s" "content ?s1 = content s" "arrays_ok ?s1" "poolView ?s1 = poolView s"
    "tempView ?s1 = tempView s" "pd_modelCache ?s1 = pd_modelCache s"
    using m(3)
    by (simp_all add: metaVar_def content_def fun_eq_iff arrays_ok_def poolView_def tempView_def split: option.split)
  let ?names = "[Revs, Revs10, Revs100, Revs1000, RevMeta, Chat, Authors]"
  have "wp (forA array_writeToDB ?names) (\<lambda>_. wp (bindA getPadAPool (\<lambda>p.
      thenA (modA (\<lambda>s. s\<lparr>db_apool := Some (toJsonable p)\<rparr>))
      (bindA (getA pd_now) (\<lambda>now. externalCall (SqlMetaUpdate (mt_head m) now))))) ?Q) ?s1"
  proof (rule wp_mono [OF save_arrays [OF v1(3)]], elim conjE exE)
    fix t f g
    assume t: "t = ?s1\<lparr>pd_arrays := f, db_arrays := g\<rparr>" "arrays_ok t" "content t = content ?s1"
      "\<forall>n. db_arrays t n = (if n \<in> set ?names then content ?s1 n else db_arrays ?s1 n)"
    have tv: "metaVar t = metaVar s" "poolView t = poolView s" "tempView t = tempView s"
      "pd_modelCache t = pd_modelCache s" "db_meta t = Some (m\<lparr>mt_status := None\<rparr>)"
      by (simp_all add: t(1) metaVar_def poolView_def tempView_def split: option.split)
    have db: "db_arrays t n = content s n" for n using t(4) v1(2) by (cases n) simp_all
    have "?Q () (t\<lparr>pd_apool := Some (poolView t), db_apool := Some (toJsonable (poolView t)), pd_external := l\<rparr>)" for l
    proof -
      let ?u = "t\<lparr>pd_apool := Some (poolView t), db_apool := Some (toJsonable (poolView t)), pd_external := l\<rparr>"
      have "content ?u = content t" "metaVar ?u = metaVar t" "arrays_ok ?u = arrays_ok t" "tempView ?u = tempView t"
        "poolView ?u = poolView t" "dbPool ?u = fromJsonable (toJsonable (poolView t))"
        by (simp_all add: content_def fun_eq_iff metaVar_def arrays_ok_def tempView_def poolView_def dbPool_def
            split: option.split)
      then have u: "metaVar ?u = metaVar s" "content ?u = content s" "arrays_ok ?u" "poolView ?u = poolView s"
        "tempView ?u = tempView s" "pd_modelCache ?u = pd_modelCache s" "db_arrays ?u n = content s n"
        "dbPool ?u = fromJsonable (toJsonable (poolView s))" "db_meta ?u = Some (m\<lparr>mt_status := None\<rparr>)" for n
        using t(2) t(3) [unfolded v1(2)] tv db by simp_all
      show ?thesis
        using ok m(1) pool_json_le [OF wf] db by (simp add: pad_ok_def saved_def u)
    qed
    then show "wp (bindA getPadAPool (\<lambda>p. thenA (modA (\<lambda>s. s\<lparr>db_apool := Some (toJsonable p)\<rparr>))
        (bindA (getA pd_now) (\<lambda>now. externalCall (SqlMetaUpdate (mt_head m) now))))) ?Q t"
      by (simp add: wps wp_apool wp_mod_fun externalCall_def)
  qed
  then show ?thesis using m(1)
    by (simp add: writeToDB_def wp_bind wp_then wp_getMeta wp_mod externalCall_def)
qed

text \<open>A pad at rest, between two accesses: the next access finds it in order.\<close>

definition pad_at_rest :: "'e padState_scheme \<Rightarrow> string list \<Rightarrow> string \<Rightarrow> bool" where
  "pad_at_rest s cs d =
     (arrays_ok s \<and>
      (\<exists>m. (case pd_metaCache s of Some m \<Rightarrow> Some m | None \<Rightarrow> db_meta s) = Some m \<and>
         pad_inv (poolView s) (content s)
           (m\<lparr>mt_status := Some \<lparr>st_validated = False, st_lastAccess = None, st_dirty = False\<rparr>\<rparr>) (pd_modelCache s) cs d) \<and>
      (\<forall>at. tm_atext (tempView s) = Some at \<longrightarrow> at_text at = d \<and> atext_ok (poolView s) at) \<and>
      (cs = [] \<longrightarrow> tm_atext (tempView s) \<noteq> None))"

lemma pad_inv_status: "pad_inv p arr m mc cs d \<Longrightarrow> pad_inv p arr (m\<lparr>mt_status := Some st\<rparr>) mc cs d"
  by (simp add: pad_inv_def)

lemma beginAccess_ok:
  fixes s :: "'e padState_scheme"
  assumes rest: "pad_at_rest s cs d"
  shows "wp (beginAccess mode) (\<lambda>_ s'. pad_ok s' cs d) s"
proof -
  let ?s = "s\<lparr>pd_detached := None\<rparr>"
  obtain m where m: "(case pd_metaCache s of Some m \<Rightarrow> Some m | None \<Rightarrow> db_meta s) = Some m"
    "pad_inv (poolView s) (content s)
       (m\<lparr>mt_status := Some \<lparr>st_validated = False, st_lastAccess = None, st_dirty = False\<rparr>\<rparr>) (pd_modelCache s) cs d"
    using rest by (auto simp: pad_at_rest_def)
  let ?t = "s\<lparr>pd_detached := None, pd_metaCache := Some m\<rparr>"
  have v: "metaVar ?t = Some m" "content ?t = content s" "arrays_ok ?t = arrays_ok s" "poolView ?t = poolView s"
    "tempView ?t = tempView s"
    by (simp_all add: metaVar_def content_def fun_eq_iff arrays_ok_def poolView_def tempView_def split: option.split)
  have get: "wp getPadMetaData Q ?s = Q (Some m) ?t" for Q
  proof (cases "pd_metaCache s")
    case (Some m')
    then have e: "?s = ?t" using m(1) by simp
    show ?thesis using Some m(1) by (simp add: getPadMetaData_def wps e [symmetric])
  next
    case None
    with m(1) show ?thesis by (simp add: getPadMetaData_def wps)
  qed
  have ok: "pad_ok (setMeta (m\<lparr>mt_status := Some st\<rparr>) ?t) cs d" for st
    using rest pad_inv_status [OF m(2), of st] by (simp add: pad_at_rest_def pad_ok_def views v)
  have okS: "pad_ok ?t cs d" if "mt_status m = Some st" for st
  proof -
    have "m\<lparr>mt_status := Some st\<rparr> = m" using that by simp
    then have "pad_inv (poolView s) (content s) m (pd_modelCache s) cs d"
      using pad_inv_status [OF m(2), of st] by simp
    then show ?thesis using rest by (simp add: pad_at_rest_def pad_ok_def v)
  qed
  have access: "wp (whenA (mode \<noteq> ReadOnly) (bindA (getA pd_now) (\<lambda>now.
      modStatus (\<lambda>t. t\<lparr>st_lastAccess := Some now\<rparr>)))) (\<lambda>_ s'. pad_ok s' cs d) u"
    if u: "pad_ok u cs d" for u :: "'e padState_scheme"
  proof -
    obtain m' st where m': "metaVar u = Some m'" "mt_status m' = Some st"
      using u by (auto simp: pad_ok_def pad_inv_def)
    have "pad_ok (setMeta (m'\<lparr>mt_status := Some st'\<rparr>) u) cs d" for st'
      by (rule pad_ok_setMeta [OF u m'(1)]) simp_all
    then show ?thesis using u by (simp add: wps wp_modStatus [OF m'])
  qed
  have "wp (thenA (whenA (mt_status m = None) (modMeta (\<lambda>m. m\<lparr>mt_status :=
             Some \<lparr>st_validated = False, st_lastAccess = None, st_dirty = False\<rparr>\<rparr>)))
      (whenA (mode \<noteq> ReadOnly) (bindA (getA pd_now) (\<lambda>now. modStatus (\<lambda>t. t\<lparr>st_lastAccess := Some now\<rparr>)))))
      (\<lambda>_ s'. pad_ok s' cs d) ?t"
  proof (cases "mt_status m")
    case None
    then show ?thesis using access [OF ok] by (simp add: wp_then wp_when [of _ "modMeta _"] wp_modMeta [OF v(1)])
  next
    case (Some st)
    then show ?thesis using access [OF okS [OF Some]] by (simp add: wp_then wp_when [of _ "modMeta _"])
  qed
  then show ?thesis by (simp add: beginAccess_def wp_then wp_mod wp_bind get)
qed

lemma endAccess_ok:
  assumes ok: "pad_ok s cs d" and det: "pd_detached s = None"
  shows "wp (endAccess mode) (\<lambda>_ s'. pad_at_rest s' cs d) s"
proof -
  obtain m st where m: "metaVar s = Some m" "mt_status m = Some st" "pad_inv (poolView s) (content s) m (pd_modelCache s) cs d"
    using ok by (auto simp: pad_ok_def pad_inv_def)
  have rest: "pad_at_rest u cs d" if u: "pad_ok u cs d" "pd_detached u = None" for u
  proof -
    have "metaVar u = pd_metaCache u" using u(2) by (simp add: metaVar_def)
    then show ?thesis using u(1) pad_inv_status by (fastforce simp: pad_ok_def pad_at_rest_def)
  qed
  have "pad_ok (setMeta (m\<lparr>mt_status := Some st'\<rparr>) s) cs d" for st'
    by (rule pad_ok_setMeta [OF ok m(1)]) simp_all
  then have ext: "pad_at_rest (setMeta (m\<lparr>mt_status := Some st'\<rparr>) s\<lparr>pd_external := l\<rparr>) cs d"
    "pad_at_rest (setMeta (m\<lparr>mt_status := Some st'\<rparr>) s) cs d" "pad_at_rest (s\<lparr>pd_external := l\<rparr>) cs d" "pad_at_rest s cs d" for st' l
    using ok det by (auto intro!: rest simp: pad_ok_def views setMeta_def)
  show ?thesis
    using ext by (simp add: endAccess_def wps m wp_modStatus [OF m(1,2)] wp_getMeta [OF m(1)] views
        wp_getMeta [of "setMeta _ s"] externalCall_def)
qed

lemma removeFromMemory_ok:
  fixes s :: "'e padState_scheme"
  assumes ok: "pad_ok s cs d" and sv: "saved s"
  shows "wp (removeFromMemory k) (\<lambda>_ s'. pad_at_rest s' cs d) s"
proof -
  obtain m where m: "metaVar s = Some m" "db_meta s = Some (m\<lparr>mt_status := None\<rparr>)"
    "pad_inv (poolView s) (content s) m (pd_modelCache s) cs d" "arrays_ok s"
    using ok sv by (auto simp: pad_ok_def saved_def)
  let ?s1 = "s\<lparr>pd_detached := metaVar s, pd_metaCache := None\<rparr>"
  have v1: "content ?s1 = content s" "arrays_ok ?s1" "poolView ?s1 = poolView s" "tempView ?s1 = tempView s"
    using m(4) by (simp_all add: content_def fun_eq_iff arrays_ok_def poolView_def tempView_def split: option.split)
  have db: "\<forall>n \<in> set [Revs, Revs10, Revs100, Revs1000, Chat, RevMeta]. db_arrays ?s1 n = content ?s1 n"
    using sv by (simp add: saved_def v1)
  have le: "pool_le (poolView s) (dbPool s)" using sv by (simp add: saved_def)
  have "wp (forA forgetArray [Revs, Revs10, Revs100, Revs1000, Chat, RevMeta])
    (\<lambda>_ t. wp (collab_removeFromMemory k) (\<lambda>_ s'. pad_at_rest s' cs d) (t\<lparr>pd_apool := None\<rparr>)) ?s1"
  proof (rule wp_mono [OF forget_arrays [OF v1(2) db]], elim conjE exE)
    fix t f
    assume t: "t = ?s1\<lparr>pd_arrays := f\<rparr>" "arrays_ok t" "content t = content ?s1"
    have rest: "pad_at_rest u cs d" if u: "arrays_ok u" "content u = content s" "poolView u = dbPool s"
      "tm_atext (tempView u) = tm_atext (tempView s)" "pd_metaCache u = None"
      "db_meta u = Some (m\<lparr>mt_status := None\<rparr>)" "pd_modelCache u = pd_modelCache s" for u :: "'e padState_scheme"
    proof -
      have "pad_inv (dbPool s) (content s) (m\<lparr>mt_status := None, mt_status :=
          Some \<lparr>st_validated = False, st_lastAccess = None, st_dirty = False\<rparr>\<rparr>) (pd_modelCache s) cs d"
        using pad_inv_status [OF pad_inv_le [OF le m(3)]] by simp
      then show ?thesis using ok u atext_ok_le [OF le] by (simp add: pad_at_rest_def pad_ok_def)
    qed
    let ?u = "t\<lparr>pd_apool := None\<rparr>"
    have u: "arrays_ok ?u" "content ?u = content s" "poolView ?u = dbPool s" "tempView ?u = tempView s"
      "pd_metaCache ?u = None" "db_meta ?u = Some (m\<lparr>mt_status := None\<rparr>)" "pd_modelCache ?u = pd_modelCache s"
      using t(2) t(3) [unfolded v1(1)] m(2)
      by (simp_all add: views) (simp_all add: t(1) poolView_def dbPool_def tempView_def)
    have "pad_at_rest (?u\<lparr>pd_temp := Some (tempView ?u\<lparr>tm_revisionSockets := Some []\<rparr>)\<rparr>) cs d"
      by (rule rest) (use u in \<open>simp_all add: views\<close>)
    moreover have "pad_at_rest ?u cs d" by (rule rest) (use u in simp_all)
    ultimately show "wp (collab_removeFromMemory k) (\<lambda>_ s'. pad_at_rest s' cs d) ?u"
      by (simp add: collab_removeFromMemory_def wps wp_modTemp)
  qed
  then show ?thesis by (simp add: removeFromMemory_def wp_then wp_mod wp_mod_fun)
qed

lemma writePadNow_flush:
  assumes ok: "pad_ok s cs d" and m: "metaVar s = Some m" "mt_status m = Some st"
    and c: "st_dirty st \<or> saved s"
  shows "wp (writePadNow True k) (\<lambda>r s'. r = (st_dirty st, True) \<and> pad_at_rest s' cs d) s"
proof -
  have ok': "pad_ok (setMeta (m\<lparr>mt_status := Some (st\<lparr>st_dirty := False\<rparr>)\<rparr>) s) cs d"
    by (rule pad_ok_setMeta [OF ok m(1)]) simp_all
  have rm: "wp (removeFromMemory k) (\<lambda>_ s'. pad_at_rest s' cs d) t" if "pad_ok t cs d \<and> saved t" for t
    using removeFromMemory_ok that by blast
  have w: "wp writeToDB (\<lambda>_ t. wp (removeFromMemory k) (\<lambda>_ s'. pad_at_rest s' cs d) t)
      (setMeta (m\<lparr>mt_status := Some (st\<lparr>st_dirty := False\<rparr>)\<rparr>) s)"
    by (rule wp_mono [OF writeToDB_ok [OF ok']]) (use rm in blast)
  show ?thesis
  proof (cases "st_dirty st")
    case True
    then show ?thesis using w
      by (simp add: writePadNow_def pad_exists_def whenA_def wps wp_ret_fun wp_getMeta [OF m(1)] m wp_modStatus [OF m])
  next
    case False
    then show ?thesis using rm [of s] ok c
      by (simp add: writePadNow_def pad_exists_def whenA_def wps wp_ret_fun wp_getMeta [OF m(1)] m)
  qed
qed

subsection \<open>What the operations leave alone\<close>

text \<open>
  A condition that no change of the cached arrays, the pool, the temporary object and the meta object
  touches, and no new entry of the cache of texts, holds after every operation on a pad, however it ends.
\<close>

locale pad_condition =
  fixes I :: "'e padState_scheme \<Rightarrow> bool"
  assumes meta: "I s \<Longrightarrow> I (setMeta m s)"
    and apool: "I s \<Longrightarrow> I (s\<lparr>pd_apool := p\<rparr>)"
    and temp: "I s \<Longrightarrow> I (s\<lparr>pd_temp := t\<rparr>)"
    and arrays: "I s \<Longrightarrow> I (s\<lparr>pd_arrays := f\<rparr>)"
    and cache: "I s \<Longrightarrow> obj_get (pd_modelCache s) r = None \<Longrightarrow>
      preserves I (modA (\<lambda>t. t\<lparr>pd_modelCache := obj_put (pd_modelCache t) r at\<rparr>))"
begin

lemma option_case: "preserves I m \<Longrightarrow> (\<And>x. preserves I (f x)) \<Longrightarrow> preserves I (case y of None \<Rightarrow> m | Some x \<Rightarrow> f x)"
  by (cases y) simp_all

lemma foldA: "(\<And>x a. preserves I (f x a)) \<Longrightarrow> preserves I (foldA f xs a)"
proof (induction xs arbitrary: a)
  case Nil
  then show ?case by (simp add: preserves_basic)
next
  case (Cons x xs)
  have "preserves I (bindA (f x a) (foldA f xs))" by (rule preserves_bind [OF Cons.prems]) (rule Cons.IH [OF Cons.prems])
  then show ?case by simp
qed

lemma basic:
  "preserves I getMeta" "preserves I (modMeta g)" "preserves I getPadAPool"
  "preserves I getPadTemp" "preserves I (getEntry name n)" "preserves I (setEntry name n v)"
  using meta apool temp arrays
  by (auto simp: preserves_def getMeta_def modMeta_def getPadAPool_def getPadTemp_def getEntry_def setEntry_def
      getPadStringArray_def setArray_def bindA_def thenA_def getA_def modA_def ret_def throwA_def Let_def setMeta_def
      split: option.splits sum.splits if_splits)

lemma modTemp: "preserves I (modTemp f)"
  unfolding modTemp_def by (rule preserves_bind [OF basic(4)]) (rule preserves_mod, rule temp)

lemma withPadPool: "preserves I (withPadPool f)"
  unfolding withPadPool_def
  by (rule preserves_bind [OF basic(3)], rule preserves_bind)
    (auto intro!: pres apool split: prod.split)

lemma modStatus: "preserves I (modStatus f)"
  unfolding modStatus_def by (rule preserves_bind [OF basic(1)]) (auto intro!: pres basic split: option.split)

lemma changesetEntry: "preserves I (getChangesetEntry name r)"
  unfolding getChangesetEntry_def by (intro pres basic)

lemma revMeta: "preserves I (getRevMeta r)"
  unfolding getRevMeta_def by (rule preserves_bind [OF basic(5)]) (auto intro!: pres split: option.split entry.split)

lemma numbers:
  "preserves I getHeadRevisionNumber" "preserves I (getKeyRevisionNumber r)"
  unfolding getHeadRevisionNumber_def getKeyRevisionNumber_def by (intro pres basic)+

lemma applyRev: "preserves I (applyRevision r a)"
  unfolding applyRevision_def getRevisionChangeset_def
  by (intro preserves_bind [OF changesetEntry] option_case pres withPadPool)

lemma numForAuthor: "preserves I (getNumForAuthor author b)"
  unfolding getNumForAuthor_def
  by (rule preserves_bind [OF basic(3)]) (auto intro!: pres apool split: prod.split)

lemma revisionAText: "preserves I (getInternalRevisionAText r)"
proof (rule preservesI)
  fix s
  assume s: "I s"
  show "I (snd (getInternalRevisionAText r s))"
  proof (cases "obj_get (pd_modelCache s) r")
    case (Some at)
    with s show ?thesis by (simp add: getInternalRevisionAText_def bindA_def getA_def ret_def)
  next
    case None
    note put = cache [OF s None]
    have "preserves I (bindA (getKeyRevisionNumber r) (\<lambda>keyRev.
          bindA (getRevMeta keyRev) (\<lambda>rm.
          (case rm of
             None \<Rightarrow> throwA (TypeError ''revmeta is undefined'')
           | Some m \<Rightarrow>
               bindA getPadAPool (\<lambda>_.
               bindA (foldA applyRevision [keyRev + 1 .. r] (rm_atext m)) (\<lambda>atext.
               (case atext of
                  None \<Rightarrow> throwA (TypeError ''atext is undefined'')
                | Some at \<Rightarrow>
                    thenA (modA (\<lambda>s. s\<lparr>pd_modelCache := obj_put (pd_modelCache s) r (cloneAText at)\<rparr>))
                      (ret at))))))))"
      by (intro option_case foldA preserves_bind [OF numbers(2)] preserves_bind [OF revMeta] applyRev
          preserves_then [OF put] pres basic)
    with s None show ?thesis
      by (simp add: getInternalRevisionAText_def bindA_def [of "getA _"] getA_def preserves_def)
  qed
qed

lemma currentAText: "preserves I getCurrentAText"
  unfolding getCurrentAText_def
  by (intro option_case pres basic numbers modTemp revisionAText)

lemma ten: "preserves I (composeTen l f c x)"
  unfolding composeTen_def modCoarseHead_def
  by (intro foldA pres basic changesetEntry withPadPool)

lemma level: "preserves I (updateLevel l dirty)"
  unfolding updateLevel_def
  by (cases l) (auto simp: Let_def intro!: pres basic ten split: sum.split option.split)

lemma coarse: "preserves I (updateCoarseChangesets b)"
  unfolding updateCoarseChangesets_def
  by (intro pres foldA basic level modStatus)

lemma getCoarse: "preserves I (getCoarseChangeset r n)"
  unfolding getCoarseChangeset_def Let_def by (intro pres coarse basic)

lemma addRev: "preserves I (addRevision c author t)"
  unfolding addRevision_def Let_def
  by (intro pres currentAText withPadPool modTemp basic numForAuthor coarse)

end

text \<open>Apart from creation and removal, \<open>meta\<close> stays the object in the cache.\<close>

abbreviation attached :: "'e padState_scheme \<Rightarrow> bool" where
  "attached s \<equiv> pd_detached s = None"

interpretation att: pad_condition attached
  by unfold_locales (auto simp: setMeta_def intro!: pres)

text \<open>A text in the cache stays there.\<close>

interpretation cached: pad_condition "\<lambda>s. obj_get (pd_modelCache s) r = Some at"
proof unfold_locales
  fix s :: "'e padState_scheme" and r' at'
  assume "obj_get (pd_modelCache s) r = Some at" "obj_get (pd_modelCache s) r' = None"
  then have "r' \<noteq> r" by auto
  then show "preserves (\<lambda>s. obj_get (pd_modelCache s) r = Some at)
      (modA (\<lambda>t. t\<lparr>pd_modelCache := obj_put (pd_modelCache t) r' at'\<rparr>))"
    by (intro pres) simp
qed (simp_all add: setMeta_def)

subsection \<open>Whole accesses\<close>

lemma wp_inTransaction: "wp (inTransaction m) Q s = wp m Q s"
  by (simp add: wp_def inTransaction_def split: prod.split sum.split)

lemma getPadMetaData_attached: "preserves attached getPadMetaData"
  unfolding getPadMetaData_def by (intro att.option_case pres) simp

lemma beginAccess_leaves: "snd (beginAccess mode s) = s' \<Longrightarrow> attached s'"
proof -
  have "preserves attached (bindA getPadMetaData (\<lambda>meta.
     (case meta of
        None \<Rightarrow> ret ()
      | Some m \<Rightarrow>
          thenA (whenA (mt_status m = None) (modMeta (\<lambda>m. m\<lparr>mt_status :=
                   Some \<lparr>st_validated = False, st_lastAccess = None, st_dirty = False\<rparr>\<rparr>)))
            (whenA (mode \<noteq> ReadOnly)
               (bindA (getA pd_now) (\<lambda>now. modStatus (\<lambda>t. t\<lparr>st_lastAccess := Some now\<rparr>)))))))"
    by (intro att.option_case pres getPadMetaData_attached att.basic att.modStatus)
  from preservesD [OF this, of "s\<lparr>pd_detached := None\<rparr>"]
  show "snd (beginAccess mode s) = s' \<Longrightarrow> attached s'"
    by (simp add: beginAccess_def thenA_def bindA_def [of "modA _"] modA_def) (metis prod.collapse)
qed

lemma preserves_option: "preserves I m \<Longrightarrow> (\<And>x. preserves I (f x)) \<Longrightarrow> preserves I (case y of None \<Rightarrow> m | Some x \<Rightarrow> f x)"
  by (cases y) simp_all

lemma beginAccess_pool: "poolView (snd (beginAccess mode s)) = poolView s"
proof -
  let ?I = "\<lambda>t. poolView t = poolView s"
  have b: "preserves ?I getMeta" "preserves ?I (modMeta f)" for f
    by (auto simp: preserves_def getMeta_def modMeta_def bindA_def getA_def modA_def ret_def throwA_def
        poolView_def split: option.splits sum.splits)
  have "preserves ?I (modStatus f)" for f
    unfolding modStatus_def by (intro preserves_option pres b)
  moreover have "preserves ?I getPadMetaData"
    unfolding getPadMetaData_def by (intro preserves_option pres) (simp add: poolView_def cong: option.case_cong)
  ultimately have "preserves ?I (beginAccess mode)"
    unfolding beginAccess_def by (intro preserves_option pres b) (simp_all add: detached_views)
  then show ?thesis unfolding preserves_def by blast
qed

lemma wp_both: "wp m Q s \<Longrightarrow> (\<And>s'. snd (m s) = s' \<Longrightarrow> P s') \<Longrightarrow> wp m (\<lambda>x s'. Q x s' \<and> P s') s"
  by (auto simp: wp_def split: prod.splits sum.splits)

lemma wp_attached: "wp m Q s \<Longrightarrow> preserves attached m \<Longrightarrow> attached s \<Longrightarrow> wp m (\<lambda>x s'. Q x s' \<and> attached s') s"
  by (rule wp_both) (auto simp: preserves_def)

lemma access_ok:
  fixes s :: "'e padState_scheme"
  assumes rest: "pad_at_rest s cs d"
    and f: "\<And>t. pad_ok t cs d \<Longrightarrow> attached t \<Longrightarrow> poolView t = poolView s \<Longrightarrow> wp f (\<lambda>x t'. R x \<and> pad_ok t' cs' d' \<and> attached t') t"
  shows "wp (accessPadGlobal mode f) (\<lambda>x s'. R x \<and> pad_at_rest s' cs' d') s"
  unfolding accessPadGlobal_def wp_inTransaction wp_then
proof (rule wp_mono [OF wp_both [OF beginAccess_ok [OF rest], where P = "\<lambda>t. attached t \<and> poolView t = poolView s"]])
  show "snd (beginAccess mode s) = t \<Longrightarrow> attached t \<and> poolView t = poolView s" for t
    using beginAccess_leaves [of mode s t] beginAccess_pool [of mode s] by auto
next
  fix t :: "'e padState_scheme"
  assume "pad_ok t cs d \<and> attached t \<and> poolView t = poolView s"
  then have t: "pad_ok t cs d" "attached t" "poolView t = poolView s" by simp_all
  have "wp f (\<lambda>x. wp (endAccess mode) (\<lambda>_ s'. R x \<and> pad_at_rest s' cs' d')) t"
  proof (rule wp_mono [OF f [OF t]], elim conjE)
    fix x t'
    assume "R x" "pad_ok t' cs' d'" "attached t'"
    then show "wp (endAccess mode) (\<lambda>_ s'. R x \<and> pad_at_rest s' cs' d') t'"
      by (rule_tac wp_mono [OF endAccess_ok]) simp_all
  qed
  then show "wp (finallyA f (endAccess mode)) (\<lambda>x s'. R x \<and> pad_at_rest s' cs' d') t"
    by (simp add: wp_finally)
qed

lemma create_access_ok:
  assumes "arrays_ok s" and "pool_wf (poolView s)" and "pd_modelCache s = []" and "pd_metaCache s = None" and "db_meta s = None"
    and "makeSplice [nl] 0 0 txt (AttribsPairs []) (Some (poolView s)) = Inr (c, q)"
  shows "wp (accessPadGlobal mode (create padId (CreateText txt)))
    (\<lambda>_ s'. pad_at_rest s' [c] (txt @ [nl])) s"
proof -
  let ?s = "s\<lparr>pd_detached := None\<rparr>"
  have start: "wp (beginAccess mode) Q s = Q () ?s" for Q
    using assms(4,5) by (simp add: beginAccess_def wps getPadMetaData_def wp_mod_fun)
  have "wp (create padId (CreateText txt)) (\<lambda>_. wp (endAccess mode) (\<lambda>_ s'. pad_at_rest s' [c] (txt @ [nl]))) ?s"
  proof (rule wp_mono [OF create_ok [where q = q]])
    fix x t
    assume "pad_ok t [c] (txt @ [nl]) \<and> attached t"
    then show "wp (endAccess mode) (\<lambda>_ s'. pad_at_rest s' [c] (txt @ [nl])) t" using endAccess_ok by blast
  qed (use assms in \<open>simp_all add: detached_views\<close>)
  then show ?thesis
    by (simp add: accessPadGlobal_def wp_inTransaction wp_then start wp_finally)
qed

lemma flush_access_ok:
  assumes rest: "pad_at_rest s cs d"
    and c: "\<And>t m st. pad_ok t cs d \<Longrightarrow> beginAccess ReadOnly s = (Inr (), t) \<Longrightarrow> metaVar t = Some m \<Longrightarrow>
      mt_status m = Some st \<Longrightarrow> st_dirty st \<or> saved t"
  shows "wp (accessPadGlobal ReadOnly (writePadNow True k)) (\<lambda>_ s'. pad_at_rest s' cs d) s"
proof -
  obtain t where t: "beginAccess ReadOnly s = (Inr (), t)" "pad_ok t cs d"
    using wp_returns [OF beginAccess_ok [OF rest, of ReadOnly]] by auto
  obtain m st where m: "metaVar t = Some m" "mt_status m = Some st" using t(2) by (auto simp: pad_ok_def pad_inv_def)
  have "wp (writePadNow True k) (\<lambda>_. wp (endAccess ReadOnly) (\<lambda>_ s'. pad_at_rest s' cs d)) t"
  proof (rule wp_mono [OF writePadNow_flush [OF t(2) m c [OF t(2,1) m]]], elim conjE)
    fix u
    assume u: "pad_at_rest u cs d"
    have "pad_at_rest (u\<lparr>pd_external := l\<rparr>) cs d" for l using u by (simp add: pad_at_rest_def views cong: option.case_cong)
    with u show "wp (endAccess ReadOnly) (\<lambda>_ s'. pad_at_rest s' cs d) u"
      by (cases "metaVar u") (simp_all add: endAccess_def wps wp_getMeta whenA_def wp_ret_fun externalCall_def wp_mod_fun)
  qed
  moreover have "wp (beginAccess ReadOnly) Q s = Q () t" for Q by (simp add: wp_def t(1))
  ultimately show ?thesis by (simp add: accessPadGlobal_def wp_inTransaction wp_then wp_finally)
qed

subsection \<open>The life of a pad\<close>

text \<open>
  Accesses to one pad: it is created, revisions that fit are appended, texts of revisions and coarse
  changesets are read, and it is saved and removed from memory (when it is dirty or the database is up
  to date). Each access is \<open>accessPadGlobal\<close> as a whole.
\<close>

inductive padHistory :: "padState \<Rightarrow> string list \<Rightarrow> string \<Rightarrow> bool" where
  created: "arrays_ok s \<Longrightarrow> pool_wf (poolView s) \<Longrightarrow> pd_modelCache s = [] \<Longrightarrow> pd_metaCache s = None \<Longrightarrow>
    db_meta s = None \<Longrightarrow> accessPadGlobal mode (create padId (CreateText txt)) s = (Inr (), s') \<Longrightarrow>
    makeSplice [nl] 0 0 txt (AttribsPairs []) (Some (poolView s)) = Inr (c, q) \<Longrightarrow>
    padHistory s' [c] (txt @ [nl])"
| appended: "padHistory s cs d \<Longrightarrow> applies (poolView s) c d d' \<Longrightarrow>
    accessPadGlobal mode (appendRevision c author t) s = (r, s') \<Longrightarrow> padHistory s' (cs @ [c]) d'"
| read: "padHistory s cs d \<Longrightarrow> 0 \<le> n \<Longrightarrow> n < int (length cs) \<Longrightarrow>
    accessPadGlobal mode (getInternalRevisionAText n) s = (r, s') \<Longrightarrow> padHistory s' cs d"
| coarse: "padHistory s cs d \<Longrightarrow> n \<in> {10, 100, 1000} \<Longrightarrow> 0 \<le> start \<Longrightarrow> start mod n = 0 \<Longrightarrow>
    start + n \<le> int (length cs) \<Longrightarrow> accessPadGlobal mode (getCoarseChangeset start n) s = (r', s') \<Longrightarrow>
    padHistory s' cs d"
| flushed: "padHistory s cs d \<Longrightarrow>
    (\<And>t m st. beginAccess ReadOnly s = (Inr (), t) \<Longrightarrow> metaVar t = Some m \<Longrightarrow> mt_status m = Some st \<Longrightarrow>
       st_dirty st \<or> saved t) \<Longrightarrow>
    accessPadGlobal ReadOnly (writePadNow True k) s = (r'', s') \<Longrightarrow> padHistory s' cs d"

lemma read_access_ok:
  assumes "pad_at_rest s cs d" and "0 \<le> n" and "n < int (length cs)"
  shows "wp (accessPadGlobal mode (getInternalRevisionAText n))
    (\<lambda>at s'. (\<exists>p. ot.path p (take (nat n + 1) cs) [nl] (at_text at)) \<and> pad_at_rest s' cs d) s"
proof (rule access_ok [OF assms(1)])
  fix t
  assume t: "pad_ok t cs d" "attached t"
  show "wp (getInternalRevisionAText n) (\<lambda>at t'. (\<exists>p. ot.path p (take (nat n + 1) cs) [nl] (at_text at)) \<and>
      pad_ok t' cs d \<and> attached t') t"
    by (rule wp_mono [OF wp_attached [OF getInternalRevisionAText_ok [OF t(1) assms(2,3)] att.revisionAText t(2)]])
      (auto simp: rev_atext_def)
qed

lemma append_access_ok:
  assumes "pad_at_rest s cs d" and "applies (poolView s) c d d'"
  shows "wp (accessPadGlobal mode (appendRevision c author optDatestamp)) (\<lambda>_ s'. pad_at_rest s' (cs @ [c]) d') s"
proof -
  have "wp (accessPadGlobal mode (appendRevision c author optDatestamp)) (\<lambda>_ s'. True \<and> pad_at_rest s' (cs @ [c]) d') s"
  proof (rule access_ok [OF assms(1)])
    fix t
    assume t: "pad_ok t cs d" "attached t" "poolView t = poolView s"
    have "applies (poolView t) c d d'" using assms(2) t(3) by simp
    from wp_attached [OF addRevision_ok [OF t(1) this] att.addRev t(2)]
    show "wp (appendRevision c author optDatestamp) (\<lambda>_ t'. True \<and> pad_ok t' (cs @ [c]) d' \<and> attached t') t"
      unfolding appendRevision_def by (rule wp_mono) simp
  qed
  then show ?thesis by simp
qed

lemma coarse_access_ok:
  assumes "pad_at_rest s cs d" and "n \<in> {10, 100, 1000}" and "0 \<le> start" and "start mod n = 0"
    and "start + n \<le> int (length cs)"
  shows "wp (accessPadGlobal mode (getCoarseChangeset start n))
    (\<lambda>r s'. (\<exists>p c. r = Some c \<and> spans p cs (nat start) (nat n) c) \<and> pad_at_rest s' cs d) s"
proof (rule access_ok [OF assms(1)])
  fix t
  assume t: "pad_ok t cs d" "attached t"
  show "wp (getCoarseChangeset start n) (\<lambda>r t'. (\<exists>p c. r = Some c \<and> spans p cs (nat start) (nat n) c) \<and>
      pad_ok t' cs d \<and> attached t') t"
    by (rule wp_mono [OF wp_attached [OF getCoarseChangeset_ok [OF t(1) assms(2-5)] att.getCoarse t(2)]]) auto
qed

lemma padHistory_rest: "padHistory s cs d \<Longrightarrow> pad_at_rest s cs d"
proof (induction rule: padHistory.induct)
  case (created s mode padId t0 s' c q)
  then show ?case using wp_result [OF create_access_ok] by blast
next
  case (appended s cs d c d' mode author t r s')
  then show ?case using wp_result [OF append_access_ok] by blast
next
  case (read s cs d n mode r s')
  then show ?case using wp_result [OF read_access_ok] by blast
next
  case (coarse s cs d n start mode r' s')
  show ?case using wp_result [OF coarse_access_ok [OF coarse.IH coarse.hyps(2-5)] coarse.hyps(6)] by blast
next
  case (flushed s cs d k r'' s')
  have "wp (accessPadGlobal ReadOnly (writePadNow True k)) (\<lambda>_ s'. pad_at_rest s' cs d) s"
    by (rule flush_access_ok [OF flushed.IH]) (use flushed.hyps(2) in blast)
  from wp_result [OF this flushed.hyps(3)] show ?case by blast
qed

subsection \<open>The properties\<close>

text \<open>The reference: a revision is what the changesets up to it make of a lone newline.\<close>

definition replay :: "string list \<Rightarrow> string \<Rightarrow> string res" where
  "replay cs t = foldE applyToText cs t"

lemma path_replay: "ot.path p cs t t' \<Longrightarrow> replay cs t = Inr t'"
  unfolding replay_def by (induction cs arbitrary: t) (auto dest: applies_text)

lemma pad_text_access:
  assumes "pad_at_rest s cs d"
  shows "wp (accessPadGlobal mode pad_text) (\<lambda>t s'. t = d \<and> pad_at_rest s' cs d) s"
proof (rule access_ok [OF assms])
  fix t
  assume t: "pad_ok t cs d" "attached t"
  show "wp pad_text (\<lambda>x t'. x = d \<and> pad_ok t' cs d \<and> attached t') t"
    unfolding pad_text_def pad_atext_def wp_bind
    by (rule wp_mono [OF wp_attached [OF getCurrentAText_ok [OF t(1)] att.currentAText t(2)]]) (simp add: wps)
qed

text \<open>
  C11. Every revision of a pad can be read: after any history of creation, appended revisions, reads, saves
  and removals from memory, \<open>getInternalRevisionAText\<close> returns, for each revision, an attributed text
  whose text is what replaying the changesets from the first one on gives, whichever cache or key
  revision it was computed from; the text of the pad is that of its last revision.
\<close>

theorem padHistory_revisions:
  assumes "padHistory s cs d" and "0 \<le> n" and "n < int (length cs)"
  shows "(\<exists>at s'. accessPadGlobal mode (getInternalRevisionAText n) s = (Inr at, s') \<and>
      replay (take (nat n + 1) cs) [nl] = Inr (at_text at)) \<and>
    (\<exists>s'. accessPadGlobal mode pad_text s = (Inr d, s')) \<and> replay cs [nl] = Inr d"
proof -
  note rest = padHistory_rest [OF assms(1)]
  have "replay cs [nl] = Inr d" using rest path_replay by (auto simp: pad_at_rest_def pad_inv_def)
  with wp_returns [OF read_access_ok [OF rest assms(2,3), of mode]] wp_returns [OF pad_text_access [OF rest, of mode]]
  show ?thesis using path_replay by blast
qed

text \<open>
  C35. Appending a revision that fits the text of a pad succeeds, from whatever state of its caches, and the
  pad then has the text the changeset makes.
\<close>

theorem appendRevision_appends:
  assumes "padHistory s cs d" and "applies (poolView s) c d d'"
  shows "\<exists>s' s''. accessPadGlobal mode (appendRevision c author optDatestamp) s = (Inr (), s') \<and>
    applyToText c d = Inr d' \<and> accessPadGlobal ReadOnly pad_text s' = (Inr d', s'')"
proof -
  obtain s' where s': "accessPadGlobal mode (appendRevision c author optDatestamp) s = (Inr (), s')"
    "pad_at_rest s' (cs @ [c]) d'"
    using wp_returns [OF append_access_ok [OF padHistory_rest [OF assms(1)] assms(2),
        where mode = mode and author = author and optDatestamp = optDatestamp]] by auto
  with wp_returns [OF pad_text_access [OF s'(2), of ReadOnly]] applies_text [OF assms(2)] show ?thesis by blast
qed

text \<open>
  C16. A coarse changeset is the composition of the revisions it stands for: for each multiple of 10, 100 or
  1000 with enough revisions after it, \<open>getCoarseChangeset\<close> returns a changeset that takes the text
  before these revisions to the text after them.
\<close>

theorem getCoarseChangeset_spans:
  assumes "padHistory s cs d" and "n \<in> {10, 100, 1000}" and "0 \<le> start" and "start mod n = 0"
    and "start + n \<le> int (length cs)"
  shows "\<exists>c s' d1 d2. accessPadGlobal mode (getCoarseChangeset start n) s = (Inr (Some c), s') \<and>
    replay (take (nat start) cs) [nl] = Inr d1 \<and> applyToText c d1 = Inr d2 \<and>
    replay (take (nat start + nat n) cs) [nl] = Inr d2"
proof -
  obtain c s' p where c: "accessPadGlobal mode (getCoarseChangeset start n) s = (Inr (Some c), s')"
    "spans p cs (nat start) (nat n) c"
    using wp_returns [OF coarse_access_ok [OF padHistory_rest [OF assms(1)] assms(2-5), of mode]] by blast
  then obtain d1 d2 where d: "ot.path p (take (nat start) cs) [nl] d1"
    "ot.path p (take (nat n) (drop (nat start) cs)) d1 d2" "applies p c d1 d2"
    by (auto simp: spans_def)
  have "ot.path p (take (nat start + nat n) cs) [nl] d2" using d by (auto simp: take_add ot.path_append)
  with c(1) d path_replay applies_text show ?thesis by blast
qed

text \<open>
  C14. Removing a pad from memory loses nothing: a pad that is dirty, or that the database is up to date
  with, can be written and removed at any time; the next access reads it back with the same text and the
  same revisions.
\<close>

theorem flush_keeps_pad:
  assumes "padHistory s cs d" and "0 \<le> n" and "n < int (length cs)"
    and "\<And>t m st. beginAccess ReadOnly s = (Inr (), t) \<Longrightarrow> metaVar t = Some m \<Longrightarrow> mt_status m = Some st \<Longrightarrow>
       st_dirty st \<or> saved t"
  shows "\<exists>r s' s'' at s'''. accessPadGlobal ReadOnly (writePadNow True k) s = (Inr r, s') \<and>
    accessPadGlobal mode pad_text s' = (Inr d, s'') \<and>
    accessPadGlobal mode (getInternalRevisionAText n) s'' = (Inr at, s''') \<and>
    replay (take (nat n + 1) cs) [nl] = Inr (at_text at)"
proof -
  have "wp (accessPadGlobal ReadOnly (writePadNow True k)) (\<lambda>_ s'. pad_at_rest s' cs d) s"
    by (rule flush_access_ok [OF padHistory_rest [OF assms(1)]]) (use assms(4) in blast)
  from wp_returns [OF this] obtain r s' where 1: "accessPadGlobal ReadOnly (writePadNow True k) s = (Inr r, s')"
    "pad_at_rest s' cs d" by blast
  from wp_returns [OF pad_text_access [OF 1(2), of mode]] obtain s'' where
    2: "accessPadGlobal mode pad_text s' = (Inr d, s'')" "pad_at_rest s'' cs d" by blast
  from wp_returns [OF read_access_ok [OF 2(2) assms(2,3), of mode]] show ?thesis
    using 1(1) 2(1) path_replay by blast
qed

text \<open>
  What is stored about an author is what is read back: after \<open>setAuthorData\<close>, \<open>getAuthorData\<close> returns
  the data, and neither changes anything else in the arrays.
\<close>

theorem authorData_roundtrip:
  assumes "arrays_ok s" and "pool_wf (poolView s)"
  shows "\<exists>n s' s''. setAuthorData author data s = (Inr (), s') \<and> getAuthorData author s' = (Inr (Some data), s'') \<and>
    content s'' = (content s)(Authors := (content s Authors)(n \<mapsto> AuthorEntry data))"
proof -
  obtain n q where n: "putAttrib (''author'', author) False (poolView s) = (n, q)" by fastforce
  have q: "pool_wf q" "putAttrib (''author'', author) False q = (n, q)" "0 \<le> n"
    using ap.put_wf [OF assms(2) n] ap.put_idem [OF assms(2) n] ap.put_nonneg [OF assms(2) n] by blast+
  have again: "putAttrib (''author'', author) True q = (n, q)"
    using q(2,3) by (auto simp: putAttrib_def split: option.splits if_splits dest: arg_cong [where f = nextNum])
  let ?s1 = "s\<lparr>pd_apool := Some q\<rparr>"
  let ?Q = "\<lambda>_ s'. wp (getAuthorData author) (\<lambda>r s''. r = Some data \<and>
    content s'' = (content s)(Authors := (content s Authors)(n \<mapsto> AuthorEntry data))) s'"
  have "wp (setEntry Authors n (AuthorEntry data)) ?Q ?s1"
  proof (rule wp_setEntry)
    show "arrays_ok ?s1" using assms(1) by (simp add: views)
  next
    fix f
    let ?s2 = "?s1\<lparr>pd_arrays := f\<rparr>"
    assume f: "arrays_ok ?s2" "content ?s2 = (content ?s1)(Authors := (content ?s1 Authors)(n \<mapsto> AuthorEntry data))"
    let ?s3 = "?s2\<lparr>pd_apool := Some q\<rparr>"
    have c: "content ?s3 = (content s)(Authors := (content s Authors)(n \<mapsto> AuthorEntry data))"
      by (simp only: apool_views(2) f(2))
    have a: "arrays_ok ?s3" unfolding apool_views(3) by (rule f(1))
    have "wp (getEntry Authors n) (\<lambda>e. wp (case e of None \<Rightarrow> ret None | Some (AuthorEntry d) \<Rightarrow> ret (Some d)
        | _ \<Rightarrow> throwA (JsError ''JSON'')) (\<lambda>r s''. r = Some data \<and>
        content s'' = (content s)(Authors := (content s Authors)(n \<mapsto> AuthorEntry data)))) ?s3"
    proof (rule wp_getEntry [OF a q(3)])
      fix s'
      assume "sameArrays ?s3 s'"
      then have "content s' = (content s)(Authors := (content s Authors)(n \<mapsto> AuthorEntry data))"
        using c by (simp only: sameArrays_views(4))
      then show "wp (case content ?s3 Authors n of None \<Rightarrow> ret None | Some (AuthorEntry d) \<Rightarrow> ret (Some d)
        | _ \<Rightarrow> throwA (JsError ''JSON'')) (\<lambda>r s''. r = Some data \<and>
        content s'' = (content s)(Authors := (content s Authors)(n \<mapsto> AuthorEntry data))) s'"
        unfolding c by (simp add: wps)
    qed
    then show "?Q () ?s2"
      using q(3) by (simp add: getAuthorData_def getNumForAuthor_def wp_bind wp_apool views again wp_then wp_mod
          wp_ret Let_def)
  qed simp
  then have "wp (setAuthorData author data) ?Q s"
    by (simp add: setAuthorData_def getNumForAuthor_def wp_bind wp_apool n wp_then wp_mod wp_ret Let_def)
  from wp_returns [OF this] obtain s' where s': "setAuthorData author data s = (Inr (), s')"
    "wp (getAuthorData author) (\<lambda>r s''. r = Some data \<and>
      content s'' = (content s)(Authors := (content s Authors)(n \<mapsto> AuthorEntry data))) s'" by auto
  from wp_returns [OF s'(2)] s'(1) show ?thesis by blast
qed

text \<open>
  Cleaned text has no carriage returns, tabs or non-breaking spaces left, and cleaning it again changes
  nothing.
\<close>

theorem cleanText_clean:
  "set (cleanText t) \<inter> {CHR 0x0D, CHR 0x09, CHR 0xA0} = {} \<and> cleanText (cleanText t) = cleanText t"
proof -
  have r: "set (replaceChar c r s) \<subseteq> (set s - {c}) \<union> set r" for c r s
    by (auto simp: replaceChar_def)
  have keep: "c \<notin> set s \<Longrightarrow> replaceChar c r s = s" for c r s
    by (induction s) (auto simp: replaceChar_def)
  have crlf: "CHR 0x0D \<notin> set s \<Longrightarrow> replaceCRLF s = s" for s
    by (induction s rule: replaceCRLF.induct) auto
  let ?a = "replaceChar (CHR 0x0D) [nl] (replaceCRLF t)"
  let ?b = "replaceChar (CHR 0x09) ''        '' ?a"
  have "CHR 0x0D \<notin> set ?a" using r [of "CHR 0x0D" "[nl]" "replaceCRLF t"] by auto
  then have "CHR 0x0D \<notin> set ?b" "CHR 0x09 \<notin> set ?b" using r [of "CHR 0x09" "''        ''" ?a] by auto
  then have "CHR 0x0D \<notin> set (cleanText t)" "CHR 0x09 \<notin> set (cleanText t)" "CHR 0xA0 \<notin> set (cleanText t)"
    using r [of "CHR 0xA0" "'' ''" ?b] by (auto simp: cleanText_def)
  then show ?thesis using keep crlf by (auto simp: cleanText_def [of "cleanText t"])
qed

lemma destroy_keeps_cache:
  "preserves (\<lambda>s. obj_get (pd_modelCache s) r = Some at) destroy"
  unfolding destroy_def destroyPadStringArray_def externalCall_def forgetArray_def clearStringArray_def
    removePadMetaData_def removePadAPool_def
  by (intro pres) simp_all

lemma create_keeps_cache:
  "preserves (\<lambda>s. obj_get (pd_modelCache s) r = Some at) (create padId from)"
proof -
  have "preserves (\<lambda>s. obj_get (pd_modelCache s) r = Some at) (firstChangeset from)"
    unfolding firstChangeset_def
    by (cases "from") (auto intro!: pres cached.withPadPool cached.basic)
  then show ?thesis
    unfolding create_def externalCall_def insertPadMetaData_def
    by (intro pres cached.modTemp cached.addRev cached.numbers) simp_all
qed

lemma access_keeps_cache:
  assumes "preserves (\<lambda>s. obj_get (pd_modelCache s) r = Some at) f"
  shows "preserves (\<lambda>s. obj_get (pd_modelCache s) r = Some at) (accessPadGlobal mode f)"
proof -
  let ?I = "\<lambda>s. obj_get (pd_modelCache s) r = Some at"
  have "preserves ?I (beginAccess mode)" "preserves ?I (endAccess mode)"
    unfolding beginAccess_def endAccess_def getPadMetaData_def externalCall_def
    by (intro cached.option_case pres cached.basic cached.modStatus; simp)+
  then have "preserves ?I (thenA (beginAccess mode) (finallyA f (endAccess mode)))"
    using assms by (intro pres)
  then show ?thesis
    by (auto simp: accessPadGlobal_def inTransaction_def preserves_def split: prod.split sum.split)
qed

lemma bindA_Inr: "bindA m f s = (Inr y, u) \<longleftrightarrow> (\<exists>x t. m s = (Inr x, t) \<and> f x t = (Inr y, u))"
  by (auto simp: bindA_def split: prod.splits sum.splits)

lemma bindA_ends: "bindA m f s = (Inr y, u) \<Longrightarrow> (\<And>x t. f x t = (Inr y, u) \<Longrightarrow> P) \<Longrightarrow> P"
  by (auto simp: bindA_Inr)

lemma finallyA_Inr: "finallyA m n s = (Inr x, u) \<Longrightarrow> \<exists>t. m s = (Inr x, t) \<and> n t = (Inr (), u)"
proof -
  assume f: "finallyA m n s = (Inr x, u)"
  obtain r t r' t' where m: "m s = (r, t)" "n t = (r', t')" by fastforce
  show ?thesis
  proof (cases r)
    case (Inl e)
    with f m show ?thesis by (cases e; cases r') (auto simp: finallyA_def)
  next
    case (Inr y)
    with f m show ?thesis by (cases r') (auto simp: finallyA_def)
  qed
qed

lemma access_Inr:
  "accessPadGlobal mode f s = (Inr x, u) \<Longrightarrow>
   \<exists>t t'. beginAccess mode s = (Inr (), t) \<and> f t = (Inr x, t') \<and> endAccess mode t' = (Inr (), u)"
proof -
  assume "accessPadGlobal mode f s = (Inr x, u)"
  then have "thenA (beginAccess mode) (finallyA f (endAccess mode)) s = (Inr x, u)"
    by (simp add: accessPadGlobal_def inTransaction_def split: prod.splits sum.splits)
  then show ?thesis using finallyA_Inr by (fastforce simp: thenA_def bindA_Inr)
qed

lemma reading_caches:
  assumes "getInternalRevisionAText n s = (Inr at, s')"
  shows "obj_get (pd_modelCache s') n = Some at"
proof (cases "obj_get (pd_modelCache s) n")
  case (Some at')
  with assms show ?thesis by (auto simp: getInternalRevisionAText_def bindA_Inr getA_def ret_def)
next
  case None
  from assms [unfolded getInternalRevisionAText_def bindA_def [of "getA _"] getA_def prod.case sum.case None option.case]
  show ?thesis
  proof (elim bindA_ends)
    fix key t rm t'
    assume "(case rm of None \<Rightarrow> throwA (TypeError ''revmeta is undefined'')
           | Some m \<Rightarrow>
               bindA getPadAPool (\<lambda>_.
               bindA (foldA applyRevision [key + 1 .. n] (rm_atext m)) (\<lambda>atext.
               (case atext of
                  None \<Rightarrow> throwA (TypeError ''atext is undefined'')
                | Some at \<Rightarrow>
                    thenA (modA (\<lambda>s. s\<lparr>pd_modelCache := obj_put (pd_modelCache s) n (cloneAText at)\<rparr>))
                      (ret at))))) t' = (Inr at, s')"
    note e = this
    show ?thesis
    proof (cases rm)
      case None
      with e show ?thesis by (simp add: throwA_def)
    next
      case (Some m)
      from e [unfolded Some option.case] show ?thesis
      proof (elim bindA_ends)
        fix p u a u'
        assume "(case a of None \<Rightarrow> throwA (TypeError ''atext is undefined'')
          | Some at \<Rightarrow> thenA (modA (\<lambda>s. s\<lparr>pd_modelCache := obj_put (pd_modelCache s) n (cloneAText at)\<rparr>)) (ret at)) u' =
          (Inr at, s')"
        then show ?thesis
          by (cases a) (auto simp: throwA_def thenA_def bindA_def modA_def ret_def)
      qed
    qed
  qed
qed

text \<open>
  C37. A destroyed pad leaves its texts behind: \<open>destroy\<close> does not clear the cache of texts. Once a revision
  of a pad has been read, a pad created later under the same name reads for this revision the text of
  the old pad, whatever text it was created with.
\<close>

theorem destroyed_text_returns:
  assumes "padHistory s cs d" and "0 \<le> n" and "n < int (length cs)"
    and "accessPadGlobal mode (getInternalRevisionAText n) s = (Inr at, s1)"
    and "accessPadGlobal mode' destroy s1 = (r2, s2)"
    and "accessPadGlobal mode'' (create padId from) s2 = (r3, s3)"
  shows "replay (take (nat n + 1) cs) [nl] = Inr (at_text at) \<and>
    (\<exists>s4. getInternalRevisionAText n s3 = (Inr at, s4))"
proof -
  note rest = padHistory_rest [OF assms(1)]
  obtain t t' where t: "getInternalRevisionAText n t = (Inr at, t')" "endAccess mode t' = (Inr (), s1)"
    using access_Inr [OF assms(4)] by blast
  let ?I = "\<lambda>s. obj_get (pd_modelCache s) n = Some at"
  have "preserves ?I (endAccess mode)"
    unfolding endAccess_def externalCall_def
    by (intro cached.option_case pres cached.basic cached.modStatus) simp
  then have "?I s1" by (rule preservesD [where I = ?I and m = "endAccess mode" and s = t' and s' = s1 and r = "Inr ()", OF _ reading_caches [OF t(1)] t(2)])
  then have "?I s2" by (rule preservesD [where I = ?I and s = s1 and s' = s2, OF access_keeps_cache [OF destroy_keeps_cache] _ assms(5)])
  then have "?I s3" by (rule preservesD [where I = ?I and s = s2 and s' = s3, OF access_keeps_cache [OF create_keeps_cache] _ assms(6)])
  then have "\<exists>s4. getInternalRevisionAText n s3 = (Inr at, s4)"
    by (simp add: getInternalRevisionAText_def bindA_def getA_def ret_def)
  moreover have "replay (take (nat n + 1) cs) [nl] = Inr (at_text at)"
    using wp_result [OF read_access_ok [OF rest assms(2,3)] assms(4)] path_replay by auto
  ultimately show ?thesis by blast
qed

subsection \<open>A sample pad\<close>

definition samplePad1 :: padState where
  "samplePad1 = snd (accessPadGlobal ReadWrite (create ''pad'' (CreateText ''ab'')) emptyPad)"

definition samplePad :: padState where
  "samplePad = snd (accessPadGlobal ReadWrite (appendRevision ''Z:3>1=1+1$x'' ''a.1'' None) samplePad1)"

lemma empty_pool_le: "pool_wf q \<Longrightarrow> pool_le AttribPool q"
  by (simp add: pool_le_def AttribPool_def getAttrib_def)

lemma sample_pad1: "padHistory samplePad1 [''Z:1>2+2$ab''] (''ab'' @ [nl])"
proof -
  have e: "arrays_ok emptyPad" "poolView emptyPad = AttribPool" "pd_modelCache emptyPad = []"
    "pd_metaCache emptyPad = None" "db_meta emptyPad = None"
    by (simp_all add: emptyPad_def arrays_ok_def poolView_def)
  have mk: "makeSplice [nl] 0 0 ''ab'' (AttribsPairs []) (Some (poolView emptyPad)) = Inr (''Z:1>2+2$ab'', Some AttribPool)"
    unfolding e(2) by code_simp
  have wf: "pool_wf (poolView emptyPad)" by (simp add: e(2) pool_wf_empty)
  show ?thesis
  proof (rule padHistory.created [OF e(1) wf e(3-5) _ mk])
    from wp_returns [OF create_access_ok [OF e(1) wf e(3-5) mk, of ReadWrite "''pad''"]] obtain s' where
      "accessPadGlobal ReadWrite (create ''pad'' (CreateText ''ab'')) emptyPad = (Inr (), s')" by auto
    then show "accessPadGlobal ReadWrite (create ''pad'' (CreateText ''ab'')) emptyPad = (Inr (), samplePad1)"
      by (simp add: samplePad1_def)
  qed
qed

lemma sample_pad:
  "padHistory samplePad [''Z:1>2+2$ab'', ''Z:3>1=1+1$x''] (''axb'' @ [nl])"
proof -
  note h1 = sample_pad1
  have "pool_wf (poolView samplePad1)"
    using padHistory_rest [OF h1] by (auto simp: pad_at_rest_def pad_inv_def)
  then have a: "applies (poolView samplePad1) ''Z:3>1=1+1$x'' (''ab'' @ [nl]) (''axb'' @ [nl])"
    using applies_pool_le [OF empty_pool_le sample_applies(1)] by blast
  have "padHistory samplePad ([''Z:1>2+2$ab''] @ [''Z:3>1=1+1$x'']) (''axb'' @ [nl])"
    by (rule padHistory.appended [OF h1 a]) (unfold samplePad_def, rule surjective_pairing)
  then show ?thesis by simp
qed

theorem padHistory_revisions_witness:
  "\<exists>at s'. accessPadGlobal ReadOnly (getInternalRevisionAText 0) samplePad = (Inr at, s') \<and> at_text at = ''ab'' @ [nl]"
proof -
  have "replay (take (nat 0 + 1) [''Z:1>2+2$ab'', ''Z:3>1=1+1$x'']) [nl] = Inr (''ab'' @ [nl])" by code_simp
  with padHistory_revisions [OF sample_pad, of 0 ReadOnly] show ?thesis by auto
qed

theorem appendRevision_appends_witness:
  "\<exists>s' s''. accessPadGlobal ReadWrite (appendRevision (identity 4) '''' None) samplePad = (Inr (), s') \<and>
    accessPadGlobal ReadOnly pad_text s' = (Inr (''axb'' @ [nl]), s'')"
proof -
  have "pool_wf (poolView samplePad)"
    using padHistory_rest [OF sample_pad] by (auto simp: pad_at_rest_def pad_inv_def)
  from applies_identity [OF this, of "''axb'' @ [nl]"]
  have "applies (poolView samplePad) (identity 4) (''axb'' @ [nl]) (''axb'' @ [nl])" by simp
  from appendRevision_appends [OF sample_pad this] show ?thesis by blast
qed

definition markedDirty :: "'e padState_scheme \<Rightarrow> bool" where
  "markedDirty s = (\<exists>m st. pd_metaCache s = Some m \<and> mt_status m = Some st \<and> st_dirty st)"

lemma endAccess_dirty:
  assumes ok: "pad_ok s cs d" and det: "attached s"
  shows "wp (endAccess ReadWrite) (\<lambda>_ s'. markedDirty s') s"
proof -
  obtain m st where m: "metaVar s = Some m" "mt_status m = Some st"
    using ok by (auto simp: pad_ok_def pad_inv_def)
  let ?m = "m\<lparr>mt_status := Some (st\<lparr>st_dirty := True\<rparr>)\<rparr>"
  have s: "setMeta ?m s = s\<lparr>pd_metaCache := Some ?m\<rparr>" "metaVar (s\<lparr>pd_metaCache := Some ?m\<rparr>) = Some ?m"
    using det by (simp_all add: setMeta_def metaVar_def)
  show ?thesis
    by (simp add: endAccess_def wps m wp_modStatus [OF m] s wp_getMeta [OF s(2)] externalCall_def
        wp_mod_fun markedDirty_def)
qed

lemma append_access_dirty:
  assumes rest: "pad_at_rest s cs d" and c: "applies (poolView s) c d d'"
  shows "wp (accessPadGlobal ReadWrite (appendRevision c author optDatestamp)) (\<lambda>_ s'. markedDirty s') s"
  unfolding accessPadGlobal_def wp_inTransaction wp_then
proof (rule wp_mono [OF wp_both [OF beginAccess_ok [OF rest], where P = "\<lambda>t. attached t \<and> poolView t = poolView s"]])
  show "snd (beginAccess ReadWrite s) = t \<Longrightarrow> attached t \<and> poolView t = poolView s" for t
    using beginAccess_leaves [of ReadWrite s t] beginAccess_pool [of ReadWrite s] by auto
next
  fix t
  assume "pad_ok t cs d \<and> attached t \<and> poolView t = poolView s"
  then have t: "pad_ok t cs d" "attached t" "applies (poolView t) c d d'" using c by simp_all
  have "wp (appendRevision c author optDatestamp) (\<lambda>_. wp (endAccess ReadWrite) (\<lambda>_. markedDirty)) t"
    unfolding appendRevision_def
    by (rule wp_mono [OF wp_attached [OF addRevision_ok [OF t(1,3)] att.addRev t(2)]]) (use endAccess_dirty in blast)
  then show "wp (finallyA (appendRevision c author optDatestamp) (endAccess ReadWrite)) (\<lambda>_. markedDirty) t"
    by (simp add: wp_finally)
qed

lemma beginAccess_dirty:
  assumes "markedDirty s" and "beginAccess ReadOnly s = (Inr (), t)" and "metaVar t = Some m" and "mt_status m = Some st"
  shows "st_dirty st"
  using assms
  by (auto simp: markedDirty_def beginAccess_def getPadMetaData_def thenA_def bindA_def modA_def getA_def ret_def
      whenA_def metaVar_def)

lemma sample_dirty: "markedDirty samplePad"
proof -
  have h1: "padHistory samplePad1 [''Z:1>2+2$ab''] (''ab'' @ [nl])" by (rule sample_pad1)
  have "pool_wf (poolView samplePad1)"
    using padHistory_rest [OF h1] by (auto simp: pad_at_rest_def pad_inv_def)
  then have "applies (poolView samplePad1) ''Z:3>1=1+1$x'' (''ab'' @ [nl]) (''axb'' @ [nl])"
    using applies_pool_le [OF empty_pool_le sample_applies(1)] by blast
  from wp_returns [OF append_access_dirty [OF padHistory_rest [OF h1] this]] show ?thesis
    by (metis samplePad_def snd_conv)
qed

theorem flush_keeps_pad_witness:
  "\<exists>r s' s''. accessPadGlobal ReadOnly (writePadNow True 0) samplePad = (Inr r, s') \<and>
    accessPadGlobal ReadOnly pad_text s' = (Inr (''axb'' @ [nl]), s'')"
proof -
  have "st_dirty st \<or> saved t" if "beginAccess ReadOnly samplePad = (Inr (), t)" "metaVar t = Some m"
    "mt_status m = Some st" for t m st
    using beginAccess_dirty [OF sample_dirty that] by simp
  from flush_keeps_pad [OF sample_pad, of 0, OF _ _ this] show ?thesis by fastforce
qed

theorem authorData_roundtrip_witness:
  "\<exists>s' s''. setAuthorData ''a.1'' \<lparr>ad_colorId = Some 3, ad_name = Some ''Ann''\<rparr> emptyPad = (Inr (), s') \<and>
    getAuthorData ''a.1'' s' = (Inr (Some \<lparr>ad_colorId = Some 3, ad_name = Some ''Ann''\<rparr>), s'')"
proof -
  have "arrays_ok emptyPad" "pool_wf (poolView emptyPad)"
    by (simp_all add: emptyPad_def arrays_ok_def poolView_def pool_wf_empty)
  from authorData_roundtrip [OF this] show ?thesis by blast
qed

lemma padHistory_identities:
  assumes "padHistory s cs d"
  shows "\<exists>s'. padHistory s' (cs @ replicate n (identity (int (length d)))) d"
proof (induction n)
  case 0
  with assms show ?case by auto
next
  case (Suc n)
  let ?i = "identity (int (length d))"
  obtain s' where s': "padHistory s' (cs @ replicate n ?i) d" using Suc by blast
  have "pool_wf (poolView s')" using padHistory_rest [OF s'] by (auto simp: pad_at_rest_def pad_inv_def)
  from padHistory.appended [OF s' applies_identity [OF this] surjective_pairing]
  have "padHistory (snd (accessPadGlobal ReadWrite (appendRevision ?i '''' None) s')) ((cs @ replicate n ?i) @ [?i]) d" .
  then show ?case by (auto simp: replicate_append_same)
qed

theorem getCoarseChangeset_spans_witness:
  "\<exists>(s :: padState) c s'. accessPadGlobal ReadOnly (getCoarseChangeset 0 10) s = (Inr (Some c), s') \<and>
    applyToText c [nl] = Inr (''axb'' @ [nl])"
proof -
  let ?i = "identity (int (length (''axb'' @ [nl])))"
  obtain s where s: "padHistory s ([''Z:1>2+2$ab'', ''Z:3>1=1+1$x''] @ replicate 8 ?i) (''axb'' @ [nl])"
    using padHistory_identities [OF sample_pad, of 8] by blast
  have "replay (take (nat 0 + nat 10) ([''Z:1>2+2$ab'', ''Z:3>1=1+1$x''] @ replicate 8 ?i)) [nl] = Inr (''axb'' @ [nl])"
    by code_simp
  note r = this
  have "0 + 10 \<le> int (length ([''Z:1>2+2$ab'', ''Z:3>1=1+1$x''] @ replicate 8 ?i))" by simp
  from getCoarseChangeset_spans [OF s _ _ _ this, of ReadOnly] obtain c s' d1 d2 where
    c: "accessPadGlobal ReadOnly (getCoarseChangeset 0 10) s = (Inr (Some c), s')"
    "replay (take (nat 0) ([''Z:1>2+2$ab'', ''Z:3>1=1+1$x''] @ replicate 8 ?i)) [nl] = Inr d1"
    "applyToText c d1 = Inr d2"
    "replay (take (nat 0 + nat 10) ([''Z:1>2+2$ab'', ''Z:3>1=1+1$x''] @ replicate 8 ?i)) [nl] = Inr d2" by auto
  have "d1 = [nl]" using c(2) by (simp add: replay_def)
  moreover have "d2 = ''axb'' @ [nl]" using c(4) unfolding r by simp
  ultimately show ?thesis using c(1,3) by blast
qed

theorem destroyed_text_returns_witness:
  "\<exists>s1 at s4. at_text at = ''ab'' @ [nl] \<and>
    accessPadGlobal ReadOnly (getInternalRevisionAText 0) samplePad = (Inr at, s1) \<and>
    getInternalRevisionAText 0 (snd (accessPadGlobal ReadWrite (create ''pad'' (CreateText ''new''))
      (snd (accessPadGlobal ReadWrite destroy s1)))) = (Inr at, s4)"
proof -
  have r: "replay (take (nat 0 + 1) [''Z:1>2+2$ab'', ''Z:3>1=1+1$x'']) [nl] = Inr (''ab'' @ [nl])" by code_simp
  from wp_returns [OF read_access_ok [OF padHistory_rest [OF sample_pad], of 0 ReadOnly]] obtain at s1 where
    s1: "accessPadGlobal ReadOnly (getInternalRevisionAText 0) samplePad = (Inr at, s1)" by auto
  from destroyed_text_returns [OF sample_pad _ _ s1 surjective_pairing surjective_pairing] r s1 show ?thesis by auto
qed

end
