(* ===== verification/PadIds.thy ===== *)
theory PadIds
  imports PadProps
begin

text \<open>
  The names of pads: \<open>etherpad/src/etherpad/collab/server_utils.js\<close>, which turns a pad id into the id of
  its read-only view and back, and the ids of pads in domains of
  \<open>etherpad/src/etherpad/pad/padutils.js\<close>. The values \<open>nextInt(64)\<close> of a \<open>java.util.Random\<close> are a
  parameter: \<open>nextInt seed k\<close> is the \<open>k\<close>-th value of the generator with this seed.
\<close>

subsection \<open>Read-only ids\<close>

definition baseRandomNumber :: int where
  "baseRandomNumber = 0x123123"

definition between :: "int \<Rightarrow> int \<Rightarrow> int \<Rightarrow> bool" where
  "between charcode a b \<longleftrightarrow> a \<le> charcode \<and> charcode \<le> b"

definition strToArray_char :: "char \<Rightarrow> int" where
  "strToArray_char c =
     (let k = (of_char c :: int) in
      if between k (of_char (CHR ''0'')) (of_char (CHR ''9'')) then k - of_char (CHR ''0'')
      else if between k (of_char (CHR ''A'')) (of_char (CHR ''Z'')) then k - of_char (CHR ''A'') + 10
      else if between k (of_char (CHR ''a'')) (of_char (CHR ''z'')) then k - of_char (CHR ''a'') + 36
      else if k = of_char (CHR ''$'') then 62
      else 63)"

definition strToArray :: "string \<Rightarrow> int list" where
  "strToArray str = map strToArray_char str"

definition arrayToStr_char :: "int \<Rightarrow> char" where
  "arrayToStr_char n =
     (if between n 0 9 then char_of (n + of_char (CHR ''0''))
      else if between n 10 35 then char_of (n - 10 + of_char (CHR ''A''))
      else if between n 36 61 then char_of (n - 36 + of_char (CHR ''a''))
      else if n = 62 then CHR ''$''
      else CHR ''-'')"

definition arrayToStr :: "int list \<Rightarrow> string" where
  "arrayToStr array = map arrayToStr_char array"

definition isReadOnlyId :: "string \<Rightarrow> bool" where
  "isReadOnlyId str \<longleftrightarrow> js_indexOf str ''ro.'' 0 = 0"

text \<open>The random numbers are drawn in the order of the array.\<close>

definition mapRandom :: "(int \<Rightarrow> nat \<Rightarrow> int) \<Rightarrow> int \<Rightarrow> (int \<Rightarrow> int \<Rightarrow> int) \<Rightarrow> int list \<Rightarrow> int list" where
  "mapRandom nextInt seed f codes = map (\<lambda>(i, elem). f elem (nextInt seed i)) (enumerate 0 codes)"

definition padIdToReadonly :: "(int \<Rightarrow> nat \<Rightarrow> int) \<Rightarrow> string \<Rightarrow> string" where
  "padIdToReadonly nextInt padid =
     (let codes = strToArray padid;
          sum = (if length padid > 1 then fold (\<lambda>r sum. (sum + r + 1) mod 64) codes 0 else 64);
          seed = baseRandomNumber + sum;
          codes' = mapRandom nextInt seed (\<lambda>elem randnum. (elem + randnum) mod 64) codes
      in ''ro.'' @ arrayToStr (codes' @ [sum]))"

text \<open>\<open>null\<close> is \<open>None\<close>.\<close>

definition readonlyToPadId :: "(int \<Rightarrow> nat \<Rightarrow> int) \<Rightarrow> string \<Rightarrow> string option" where
  "readonlyToPadId nextInt readOnlyHash =
     (if \<not> isReadOnlyId readOnlyHash then None
      else
        (let codes = strToArray (js_substring readOnlyHash 3 (int (length readOnlyHash))) in
         if codes = [] then Some ''''
         else
           (let sum = last codes; seed = baseRandomNumber + sum in
            Some (arrayToStr (mapRandom nextInt seed (\<lambda>elem randnum. (64 + elem - randnum) mod 64)
                    (butlast codes))))))"

subsection \<open>Local and global ids\<close>

text \<open>\<open>split('$')\<close>.\<close>

fun splitDollar :: "string \<Rightarrow> string list" where
  "splitDollar [] = ['''']"
| "splitDollar (c # s) =
     (if c = CHR ''$'' then '''' # splitDollar s
      else (case splitDollar s of [] \<Rightarrow> [[c]] | p # ps \<Rightarrow> (c # p) # ps))"

text \<open>\<open>domain\<close> is the printed id of the pro domain of the request, if it has one.\<close>

definition makeGlobalId :: "string \<Rightarrow> string \<Rightarrow> string" where
  "makeGlobalId domainId localPadId = domainId @ ''$'' @ localPadId"

definition getGlobalPadId :: "string option \<Rightarrow> string \<Rightarrow> string" where
  "getGlobalPadId domain localPadId =
     (case domain of Some d \<Rightarrow> makeGlobalId d localPadId | None \<Rightarrow> localPadId)"

definition globalToLocalId :: "string \<Rightarrow> string" where
  "globalToLocalId globalId =
     (let parts = splitDollar globalId in if length parts = 1 then parts ! 0 else parts ! 1)"

definition isProPadId :: "string \<Rightarrow> bool" where
  "isProPadId globalPadId \<longleftrightarrow> 0 < js_indexOf globalPadId ''$'' 0"

definition makeValidLocalPadId :: "string \<Rightarrow> string" where
  "makeValidLocalPadId str =
     map (\<lambda>c. let k = (of_char c :: int) in
        if between k 48 57 \<or> between k 65 90 \<or> between k 97 122 \<or> c = CHR ''-'' then c else CHR ''-'') str"

record urlId =
  ur_localPadId :: string
  ur_viewId :: string
  ur_isReadOnly :: bool
  ur_roPadId :: string
  ur_globalPadId :: string

text \<open>\<open>response.forbid()\<close> ends the request by an exception.\<close>

definition parseUrlId :: "(int \<Rightarrow> nat \<Rightarrow> int) \<Rightarrow> string option \<Rightarrow> string \<Rightarrow> urlId res" where
  "parseUrlId nextInt domain readOnlyIdOrLocalPadId =
     (case (if isReadOnlyId readOnlyIdOrLocalPadId
            then readonlyToPadId nextInt readOnlyIdOrLocalPadId else None) of
        Some globalPadId \<Rightarrow>
          (let localPadId = globalToLocalId globalPadId;
               globalPadIdCheck = getGlobalPadId domain localPadId in
           if globalPadId \<noteq> globalPadIdCheck then Inl (JsError ''forbid'')
           else Inr \<lparr>ur_localPadId = localPadId, ur_viewId = readOnlyIdOrLocalPadId,
                     ur_isReadOnly = True, ur_roPadId = readOnlyIdOrLocalPadId,
                     ur_globalPadId = globalPadId\<rparr>)
      | None \<Rightarrow>
          (let localPadId = readOnlyIdOrLocalPadId;
               globalPadId = getGlobalPadId domain localPadId in
           Inr \<lparr>ur_localPadId = localPadId, ur_viewId = globalPadId, ur_isReadOnly = False,
                ur_roPadId = padIdToReadonly nextInt globalPadId, ur_globalPadId = globalPadId\<rparr>))"

subsection \<open>The round trip\<close>

lemma alphabet:
  assumes "0 \<le> n" and "n < 64"
  shows "strToArray_char (arrayToStr_char n) = n"
  using assms by (auto simp: strToArray_char_def arrayToStr_char_def between_def Let_def)

lemma strToArray_char_range: "0 \<le> strToArray_char c \<and> strToArray_char c < 64"
  unfolding strToArray_char_def between_def Let_def by simp

text \<open>A valid character of an id is the one its number stands for.\<close>

definition idChar :: "char \<Rightarrow> bool" where
  "idChar c = (arrayToStr_char (strToArray_char c) = c)"

lemma idChar_cases:
  "between (of_char c) 48 57 \<or> between (of_char c) 65 90 \<or> between (of_char c) 97 122 \<Longrightarrow> idChar c"
  "idChar (CHR ''-'')" "idChar (CHR ''$'')"
  by (auto simp: idChar_def strToArray_char_def arrayToStr_char_def between_def Let_def)

lemma valid_idChar: "list_all idChar (makeValidLocalPadId str)"
  by (auto simp: makeValidLocalPadId_def list_all_iff Let_def idChar_cases)

lemma unshift: "(64 + (a + b) mod 64 - b) mod 64 = a mod (64 :: int)"
proof -
  have "(64 + (a + b) mod 64 - b) mod 64 = ((64 + (a + b) mod 64) mod 64 - b) mod 64"
    by (simp only: mod_diff_left_eq)
  also have "(64 + (a + b) mod 64) mod 64 = (a + b) mod 64" by simp
  also have "((a + b) mod 64 - b) mod 64 = a mod 64" by (simp only: mod_diff_left_eq) simp
  finally show ?thesis .
qed

lemma mapRandom_append_last:
  "mapRandom nextInt seed f codes = map (\<lambda>i. f (codes ! i) (nextInt seed i)) [0..<length codes]"
  by (auto simp: mapRandom_def enumerate_eq_zip intro: nth_equalityI)

lemma sum_range:
  "\<forall>r \<in> set codes. 0 \<le> r \<Longrightarrow> 0 \<le> a \<Longrightarrow> a < 64 \<Longrightarrow>
   0 \<le> fold (\<lambda>r sum. (sum + r + 1) mod 64) codes a \<and> fold (\<lambda>r sum. (sum + r + 1) mod (64::int)) codes a < 64"
  by (induction codes arbitrary: a) auto

lemma readonly_roundtrip:
  assumes "length padid > 1" and "list_all idChar padid"
    and "\<And>seed k. 0 \<le> nextInt seed k \<and> nextInt seed k < 64"
  shows "readonlyToPadId nextInt (padIdToReadonly nextInt padid) = Some padid"
proof -
  define codes where "codes = strToArray padid"
  define s where "s = fold (\<lambda>r sum. (sum + r + 1) mod 64) codes 0"
  define seed where "seed = baseRandomNumber + s"
  define enc where "enc = mapRandom nextInt seed (\<lambda>elem randnum. (elem + randnum) mod 64) codes"
  have codes: "\<forall>r \<in> set codes. 0 \<le> r \<and> r < 64"
    using strToArray_char_range by (auto simp: codes_def strToArray_def)
  then have s: "0 \<le> s" "s < 64" using sum_range [of codes 0] by (auto simp: s_def)
  have enc: "\<forall>r \<in> set enc. 0 \<le> r \<and> r < 64" by (auto simp: enc_def mapRandom_append_last)
  have ro: "padIdToReadonly nextInt padid = ''ro.'' @ arrayToStr (enc @ [s])"
    using assms(1) by (simp add: padIdToReadonly_def Let_def codes_def [symmetric] s_def [symmetric] seed_def enc_def)
  have back_ro: "strToArray (arrayToStr (enc @ [s])) = enc @ [s]"
  proof -
    have "strToArray_char (arrayToStr_char r) = r" if "r \<in> set (enc @ [s])" for r
      using that enc s alphabet by auto
    then show ?thesis unfolding strToArray_def arrayToStr_def unfolding map_map by (intro map_idI) simp
  qed
  have dec: "mapRandom nextInt seed (\<lambda>elem randnum. (64 + elem - randnum) mod 64) enc = codes"
  proof (rule nth_equalityI)
    fix i assume "i < length (mapRandom nextInt seed (\<lambda>elem randnum. (64 + elem - randnum) mod 64) enc)"
    then have i: "i < length codes" by (simp add: mapRandom_append_last enc_def)
    then have "0 \<le> codes ! i" "codes ! i < 64" using codes by auto
    moreover have "(64 + (codes ! i + nextInt seed i) mod 64 - nextInt seed i) mod 64 = codes ! i mod 64"
      using unshift by simp
    ultimately show "mapRandom nextInt seed (\<lambda>elem randnum. (64 + elem - randnum) mod 64) enc ! i = codes ! i"
      using i by (simp add: mapRandom_append_last enc_def)
  qed (simp add: mapRandom_append_last enc_def)
  have out: "arrayToStr codes = padid"
    using assms(2) unfolding codes_def arrayToStr_def strToArray_def by (auto simp: list_all_iff idChar_def intro!: map_idI)
  have "isReadOnlyId (''ro.'' @ t)" for t by (simp add: isReadOnlyId_def jsstr)
  moreover have "js_substring (''ro.'' @ t) 3 (int (length (''ro.'' @ t))) = t" for t
    by (simp add: jsstr)
  ultimately show ?thesis
    unfolding readonlyToPadId_def ro by (simp add: back_ro Let_def seed_def [symmetric] dec out)
qed

text \<open>
  The id of a single character is not read back: the check sum 64 is written as a hyphen, which reads as 63,
  and the generator is seeded with another number.
\<close>

lemma readonly_short:
  assumes "idChar c" and "\<And>seed k. 0 \<le> nextInt seed k \<and> nextInt seed k < 64"
  shows "readonlyToPadId nextInt (padIdToReadonly nextInt [c]) = Some [c] \<longleftrightarrow>
    nextInt (baseRandomNumber + 63) 0 = nextInt (baseRandomNumber + 64) 0"
proof -
  define v r1 r2 where "v = strToArray_char c" and "r1 = nextInt (baseRandomNumber + 64) 0"
    and "r2 = nextInt (baseRandomNumber + 63) 0"
  have v: "0 \<le> v" "v < 64" using strToArray_char_range by (auto simp: v_def)
  have c: "c = arrayToStr_char v" using assms(1) by (simp add: idChar_def v_def)
  have r: "0 \<le> r1" "r1 < 64" "0 \<le> r2" "r2 < 64" using assms(2) by (auto simp: r1_def r2_def)
  have "readonlyToPadId nextInt (padIdToReadonly nextInt [c]) =
      Some [arrayToStr_char ((64 + (v + r1) mod 64 - r2) mod 64)]"
    by (simp add: padIdToReadonly_def readonlyToPadId_def isReadOnlyId_def jsstr strToArray_def arrayToStr_def
        mapRandom_append_last alphabet strToArray_char_def [of "CHR ''-''"] arrayToStr_char_def [of 64] between_def
        v_def [symmetric] r1_def [symmetric] r2_def [symmetric])
  moreover have "arrayToStr_char x = c \<longleftrightarrow> x = v" if "0 \<le> x" "x < 64" for x
    using alphabet [OF that] alphabet [OF v] c by metis
  moreover have "(64 + (v + r1) mod 64 - r2) mod 64 = v \<longleftrightarrow> r2 = r1"
  proof
    assume a: "(64 + (v + r1) mod 64 - r2) mod 64 = v"
    have "(64 + (v + r1) mod 64 - r2) mod 64 = (v + (r1 - r2)) mod 64"
      by (metis add_diff_eq mod_add_self1 mod_diff_left_eq mod_add_right_eq)
    with a v have "(v + (r1 - r2)) mod 64 = v mod 64" by simp
    then have "64 dvd r1 - r2" by (simp add: mod_eq_dvd_iff)
    then obtain q where "r1 - r2 = 64 * q" by (auto simp: dvd_def)
    with r show "r2 = r1" by presburger
  next
    assume "r2 = r1"
    then show "(64 + (v + r1) mod 64 - r2) mod 64 = v" using unshift [of v r1] v by simp
  qed
  ultimately show ?thesis by (simp add: r1_def r2_def)
qed

lemma splitDollar_none: "CHR ''$'' \<notin> set s \<Longrightarrow> splitDollar s = [s]"
  by (induction s) auto

lemma splitDollar_cons: "CHR ''$'' \<notin> set s \<Longrightarrow> splitDollar (s @ CHR ''$'' # t) = s # splitDollar t"
  by (induction s) auto

lemma local_global:
  assumes "CHR ''$'' \<notin> set localPadId" and "\<And>d. domain = Some d \<Longrightarrow> CHR ''$'' \<notin> set d"
  shows "globalToLocalId (getGlobalPadId domain localPadId) = localPadId"
  using assms by (cases domain) (auto simp: globalToLocalId_def getGlobalPadId_def makeGlobalId_def
    splitDollar_none splitDollar_cons)

lemma isReadOnlyId_made: "isReadOnlyId (padIdToReadonly nextInt padid)"
  by (simp add: padIdToReadonly_def isReadOnlyId_def jsstr Let_def)



end
