(* ===== verification/Rooms.thy ===== *)
theory Rooms
  imports PadIds
begin

text \<open>
  The rooms of the collaboration server (\<open>etherpad/src/etherpad/collab/collabroom_server.js\<close>): which
  connection is in which room, what is sent to which socket, and access to a pad while a request runs.
  The state is what the server keeps between and during requests; the comet server, the accounts and
  the plugins are \<open>sv_env\<close>, which may be another one at every request. Code of other modules that only
  records or notifies is the list \<open>sv_calls\<close>.
\<close>

subsection \<open>State\<close>

text \<open>\<open>userInfo.colorId\<close>: a number, or another value and what \<open>Number\<close> makes of it.\<close>

datatype colorValue = ColorNumber int | ColorOther "int option"

record userInfo =
  ui_userId :: string
  ui_colorId :: colorValue
  ui_name :: "string option"
  ui_specialKey :: "string option"

record connData =
  cd_userInfo :: userInfo
  cd_lastRev :: "int option"

record connection =
  cn_roomName :: string
  cn_connectionId :: string
  cn_socketId :: string
  cn_data :: connData

record room =
  ro_connections :: "string list"
  ro_type :: string

text \<open>The payload of a \<open>CLIENT_MESSAGE\<close>: one the server makes, or a client's with its \<open>authId\<close>.\<close>

datatype payload =
    PadTitle string
  | PadPassword "string option"
  | PadOptions "string option"
  | ClientPayload "string option" string

datatype serverPayload =
    GuestPrompt string string
  | OtherServerMessage string

datatype message =
    ACCEPT_COMMIT int
  | NEW_CHANGES int string pool "string option"
  | VIEW_CHANGES int string string poolJson "string option" int
  | NEW_AUTHORDATA string "int option" "string option"
  | NEW_SAVEDREV "(string, string) obj"
  | SERVER_MESSAGE serverPayload
  | CLIENT_MESSAGE payload
  | USER_NEWINFO userInfo
  | USER_LEAVE userInfo
  | NO_COMMIT_PENDING
  | DISCONNECT_REASON string

datatype cometCall = CometSend string message | CometDisconnect string

datatype serverCall =
    ScheduleDisconnect string string
  | Warn string
  | LogClientStats string
  | AnswerKnock string string string
  | OnUserJoin string userInfo
  | OnUserLeave string userInfo
  | OnUserInfoChange string userInfo
  | OnClientMessage string userInfo payload
  | NotifyUserData authorData

record environment =
  en_isConnected :: "string \<Rightarrow> bool"
  en_guestUserId :: string
  en_userId :: string
  en_nameForUserId :: "string \<Rightarrow> string option"
  en_accessDenied :: "string \<Rightarrow> accessMode \<Rightarrow> js_error option"
  en_pluginChecks :: "string \<Rightarrow> bool list"
  en_nextInt :: "int \<Rightarrow> nat \<Rightarrow> int"
  en_guestsAllowed :: bool
  en_padTitle :: "string \<Rightarrow> string"
  en_padPassword :: "string \<Rightarrow> string option"

text \<open>
  \<open>en_nextInt\<close> gives the values of \<open>nextInt(64)\<close> of a generator with a given seed.
  \<open>sv_accessing\<close> is \<open>appjet.requestCache.padsAccessing\<close>, \<open>sv_attributes\<close> the comet attribute
  \<open>connectionId\<close> of the sockets, \<open>sv_comet\<close> what was sent to and asked of the comet server.
\<close>

record serverState =
  sv_pads :: "string \<Rightarrow> padState"
  sv_accessing :: "string list"
  sv_rooms :: "(string, room) obj"
  sv_allConnections :: "(string, connection) obj"
  sv_attributes :: "(string, string) obj"
  sv_comet :: "cometCall list"
  sv_calls :: "serverCall list"
  sv_env :: environment

definition cometCall :: "cometCall \<Rightarrow> (serverState, unit) act" where
  "cometCall c = modA (\<lambda>s. s\<lparr>sv_comet := sv_comet s @ [c]\<rparr>)"

definition serverCall :: "serverCall \<Rightarrow> (serverState, unit) act" where
  "serverCall c = modA (\<lambda>s. s\<lparr>sv_calls := sv_calls s @ [c]\<rparr>)"

definition env :: "(environment \<Rightarrow> 'a) \<Rightarrow> (serverState, 'a) act" where
  "env f = getA (\<lambda>s. f (sv_env s))"

subsection \<open>Pads\<close>

definition onPad :: "string \<Rightarrow> (padState, 'a) act \<Rightarrow> (serverState, 'a) act" where
  "onPad padId f s = (case f (sv_pads s padId) of (r, p) \<Rightarrow> (r, s\<lparr>sv_pads := (sv_pads s)(padId := p)\<rparr>))"

definition serverTransaction :: "(serverState, 'a) act \<Rightarrow> (serverState, 'a) act" where
  "serverTransaction f s =
     (case f s of
        (Inl e, s') \<Rightarrow> (Inl e, s'\<lparr>sv_pads := \<lambda>p. (sv_pads s' p)\<lparr>db_arrays := db_arrays (sv_pads s p),
            db_meta := db_meta (sv_pads s p), db_apool := db_apool (sv_pads s p)\<rparr>\<rparr>)
      | (Inr x, s') \<Rightarrow> (Inr x, s'))"

text \<open>
  \<open>accessPadGlobal\<close> of \<open>model.js\<close> for the pads of the server: a nested access to a pad that is being
  accessed, or a new one.
\<close>

definition accessPad :: "string \<Rightarrow> accessMode \<Rightarrow> (serverState, 'a) act \<Rightarrow> (serverState, 'a) act" where
  "accessPad padId mode padFunc =
     bindA (env (\<lambda>e. en_accessDenied e padId mode)) (\<lambda>denied.
     (case denied of
        Some e \<Rightarrow> throwA e
      | None \<Rightarrow>
          bindA (getA (\<lambda>s. padId \<in> set (sv_accessing s))) (\<lambda>nested.
          if nested then thenA (onPad padId (nestedAccess mode (ret ()))) padFunc
          else
            serverTransaction
              (thenA (onPad padId (beginAccess mode))
                (finallyA
                  (thenA (modA (\<lambda>s. s\<lparr>sv_accessing := padId # sv_accessing s\<rparr>)) padFunc)
                  (thenA (modA (\<lambda>s. s\<lparr>sv_accessing := removeAll padId (sv_accessing s)\<rparr>))
                    (onPad padId (endAccess mode))))))))"

subsection \<open>Connections\<close>

text \<open>Reads return deep copies, so connections are values. Absent or \<open>null\<close> is \<open>None\<close>.\<close>

text \<open>\<open>add\<close> of a \<open>CopyOnWriteArraySet\<close>, which iterates in the order of insertion.\<close>

definition addMember :: "string \<Rightarrow> string list \<Rightarrow> string list" where
  "addMember cid ids = (if cid \<in> set ids then ids else ids @ [cid])"

definition putConnection :: "connection \<Rightarrow> string option \<Rightarrow> (serverState, unit) act" where
  "putConnection conn roomType =
     (let roomName = cn_roomName conn; cid = cn_connectionId conn in
      bindA (getA (\<lambda>s. obj_get (sv_rooms s) roomName)) (\<lambda>thisRoom.
      if thisRoom = None \<and> \<not> truthy roomType then ret ()
      else
        thenA (whenA (thisRoom = None)
           (modA (\<lambda>s. s\<lparr>sv_rooms := obj_put (sv_rooms s) roomName
              \<lparr>ro_connections = [], ro_type = the roomType\<rparr>\<rparr>)))
          (if truthy roomType then
             thenA (modA (\<lambda>s. s\<lparr>sv_rooms := (case obj_get (sv_rooms s) roomName of
                      None \<Rightarrow> sv_rooms s
                    | Some r \<Rightarrow> obj_put (sv_rooms s) roomName
                        (r\<lparr>ro_connections := addMember cid (ro_connections r)\<rparr>))\<rparr>))
               (modA (\<lambda>s. s\<lparr>sv_allConnections := obj_put (sv_allConnections s) cid conn\<rparr>))
           else
             modA (\<lambda>s. if obj_get (sv_allConnections s) cid = None then s
                       else s\<lparr>sv_allConnections := obj_put (sv_allConnections s) cid conn\<rparr>))))"

definition removeConnection :: "connection \<Rightarrow> (serverState, unit) act" where
  "removeConnection conn =
     (let thisRoom = cn_roomName conn; thisConnectionId = cn_connectionId conn in
      thenA (modA (\<lambda>s. (case obj_get (sv_rooms s) thisRoom of
           None \<Rightarrow> s
         | Some r \<Rightarrow>
             (let roomConnections = removeAll thisConnectionId (ro_connections r) in
              if roomConnections = [] then s\<lparr>sv_rooms := obj_delete (sv_rooms s) thisRoom\<rparr>
              else s\<lparr>sv_rooms := obj_put (sv_rooms s) thisRoom (r\<lparr>ro_connections := roomConnections\<rparr>)\<rparr>))))
        (modA (\<lambda>s. s\<lparr>sv_allConnections := obj_delete (sv_allConnections s) thisConnectionId\<rparr>)))"

definition getConnection :: "string \<Rightarrow> (serverState, connection option) act" where
  "getConnection connectionId = getA (\<lambda>s. obj_get (sv_allConnections s) connectionId)"

definition roomMembers :: "serverState \<Rightarrow> string \<Rightarrow> connection list" where
  "roomMembers s roomName =
     (case obj_get (sv_rooms s) roomName of
        None \<Rightarrow> []
      | Some r \<Rightarrow> List.map_filter (obj_get (sv_allConnections s)) (ro_connections r))"

definition getRoomConnections :: "string \<Rightarrow> (serverState, connection list) act" where
  "getRoomConnections roomName = getA (\<lambda>s. roomMembers s roomName)"

definition updateRoomConnectionData :: "string \<Rightarrow> connData \<Rightarrow> (serverState, unit) act" where
  "updateRoomConnectionData connectionId data =
     bindA (getConnection connectionId) (\<lambda>conn.
     (case conn of
        None \<Rightarrow> ret ()
      | Some c \<Rightarrow> putConnection (c\<lparr>cn_data := data\<rparr>) None))"

text \<open>The rooms of the skip list come in the order of their names.\<close>

definition getAllRoomsOfType :: "string \<Rightarrow> (serverState, string list) act" where
  "getAllRoomsOfType roomType =
     getA (\<lambda>s. filter (\<lambda>n. map_option ro_type (obj_get (sv_rooms s) n) = Some roomType)
       (sort (map fst (sv_rooms s))))"

definition getSocketConnectionId :: "string \<Rightarrow> (serverState, string option) act" where
  "getSocketConnectionId socketId = getA (\<lambda>s. obj_get (sv_attributes s) socketId)"

subsection \<open>Sending\<close>

definition sendMessageToSocket :: "string \<Rightarrow> message \<Rightarrow> (serverState, unit) act" where
  "sendMessageToSocket socketId msg = cometCall (CometSend socketId msg)"

definition sendMessage :: "string \<Rightarrow> message \<Rightarrow> (serverState, unit) act" where
  "sendMessage connectionId msg =
     bindA (getConnection connectionId) (\<lambda>connection.
     (case connection of
        None \<Rightarrow> ret ()
      | Some c \<Rightarrow>
          thenA (sendMessageToSocket (cn_socketId c) msg)
         (bindA (env (\<lambda>e. en_isConnected e (cn_socketId c))) (\<lambda>connected.
          whenA (\<not> connected) (serverCall (ScheduleDisconnect (cn_connectionId c) (cn_socketId c)))))))"

definition bootSocket :: "string \<Rightarrow> string option \<Rightarrow> (serverState, unit) act" where
  "bootSocket socketId reason =
     thenA (whenA (truthy reason) (sendMessageToSocket socketId (DISCONNECT_REASON (the reason))))
       (cometCall (CometDisconnect socketId))"

end
