(* ===== verification/CollabServer.thy ===== *)
theory CollabServer
  imports Rooms
begin

text \<open>
  What the collaboration server does with a pad: \<open>etherpad/src/etherpad/collab/collab_server.js\<close> and
  \<open>readonly_server.js\<close>, which brings the read-only views up to date. A pad is named by its id; its
  operations are those of \<open>PadModel\<close> through \<open>onPad\<close>.
\<close>

subsection \<open>Read-only views\<close>

definition viewIdToRoom :: "string \<Rightarrow> string" where
  "viewIdToRoom padId = ''padview/'' @ padId"

definition getPadLines :: "string \<Rightarrow> int \<Rightarrow> (serverState, string list \<times> string list) act" where
  "getPadLines padId revNum =
     bindA (if 0 \<le> revNum then onPad padId (getInternalRevisionAText revNum)
            else liftA (makeAText [nl] '''')) (\<lambda>atext.
     bindA (liftA (case splitTextLines (at_text atext) of
               None \<Rightarrow> Inl (TypeError ''textlines is null'') | Some ls \<Rightarrow> Inr ls)) (\<lambda>textlines.
     bindA (liftA (splitAttributionLines (at_attribs atext) (at_text atext))) (\<lambda>alines.
     ret (textlines, alines))))"

definition revTime :: "string \<Rightarrow> int \<Rightarrow> (serverState, int) act" where
  "revTime padId r = bindA (onPad padId (getRevisionDate r)) (\<lambda>date. ret (date div 1000))"

definition sendViewRevision :: "string \<Rightarrow> string \<Rightarrow> int \<Rightarrow> (serverState, unit) act" where
  "sendViewRevision padId connectionId r =
     bindA (onPad padId (getRevisionAuthor r)) (\<lambda>author.
     bindA (getPadLines padId (r - 1)) (\<lambda>(textlines, alines).
     bindA (onPad padId (getRevisionChangeset r)) (\<lambda>forwards.
     bindA (onPad padId (withPadPool (inverse forwards textlines alines))) (\<lambda>backwards.
     bindA (onPad padId getPadAPool) (\<lambda>apool.
     bindA (liftA (moveOpsToNewPool forwards apool AttribPool)) (\<lambda>(forwards2, wirePool).
     bindA (liftA (moveOpsToNewPool backwards apool wirePool)) (\<lambda>(backwards2, wirePool).
     bindA (revTime padId r) (\<lambda>t1.
     bindA (revTime padId (r - 1)) (\<lambda>t0.
     sendMessage connectionId
       (VIEW_CHANGES r forwards2 backwards2 (toJsonable wirePool) author (t1 - t0)))))))))))"

text \<open>\<open>undefined < head\<close> is false: a connection that has not said where it is gets no changes.\<close>

definition revisionsAfter :: "int option \<Rightarrow> int \<Rightarrow> int list" where
  "revisionsAfter lastRev head = (case lastRev of None \<Rightarrow> [] | Some r \<Rightarrow> [r + 1 .. head])"

definition view_updateClient :: "string \<Rightarrow> string \<Rightarrow> (serverState, unit) act" where
  "view_updateClient padId connectionId =
     bindA (getConnection connectionId) (\<lambda>conn.
     (case conn of
        None \<Rightarrow> ret ()
      | Some c \<Rightarrow>
          bindA (onPad padId getHeadRevisionNumber) (\<lambda>head.
          thenA (forA (sendViewRevision padId connectionId)
                  (revisionsAfter (cd_lastRev (cn_data c)) head))
            (updateRoomConnectionData connectionId ((cn_data c)\<lparr>cd_lastRev := Some head\<rparr>)))))"

definition view_connections :: "string \<Rightarrow> (string \<Rightarrow> (serverState, unit) act) \<Rightarrow> (serverState, unit) act" where
  "view_connections padId update =
     bindA (env en_nextInt) (\<lambda>nextInt.
     (let roId = padIdToReadonly nextInt padId in
      thenA (bindA (getRoomConnections (viewIdToRoom padId)) (forA (\<lambda>c. update (cn_connectionId c))))
        (bindA (getRoomConnections (viewIdToRoom roId)) (forA (\<lambda>c. update (cn_connectionId c))))))"

definition view_updatePadClients :: "string \<Rightarrow> (serverState, unit) act" where
  "view_updatePadClients padId = view_connections padId (view_updateClient padId)"

definition sendMessageToPadConnections :: "string \<Rightarrow> message \<Rightarrow> (serverState, unit) act" where
  "sendMessageToPadConnections padId msg = view_connections padId (\<lambda>cid. sendMessage cid msg)"

definition view_updateUserInfo :: "string \<Rightarrow> userInfo \<Rightarrow> (serverState, unit) act" where
  "view_updateUserInfo padId ui =
     (let colorId = (case ui_colorId ui of ColorNumber n \<Rightarrow> Some n | ColorOther _ \<Rightarrow> None);
          name = (if truthy (ui_name ui) then ui_name ui else None)
      in whenA (colorId \<noteq> None \<or> name \<noteq> None)
           (sendMessageToPadConnections padId (NEW_AUTHORDATA (ui_userId ui) colorId name)))"

definition broadcastNewRevision :: "string \<Rightarrow> (string, string) obj \<Rightarrow> (serverState, unit) act" where
  "broadcastNewRevision padId revObj =
     sendMessageToPadConnections padId (NEW_SAVEDREV (obj_delete revObj ''ip''))"

subsection \<open>Rooms and users\<close>

definition PADPAGE_ROOMTYPE :: string where "PADPAGE_ROOMTYPE = ''padpage''"

definition PADVIEW_ROOMTYPE :: string where "PADVIEW_ROOMTYPE = ''padview''"

definition padIdToRoom :: "string \<Rightarrow> string" where
  "padIdToRoom padId = ''padpage/'' @ padId"

definition roomToPadId :: "string \<Rightarrow> string" where
  "roomToPadId roomName = js_from roomName (js_indexOf roomName ''/'' 0 + 1)"

definition getPadConnections :: "string \<Rightarrow> (serverState, connection list) act" where
  "getPadConnections padId = getRoomConnections (padIdToRoom padId)"

definition isGuest :: "string \<Rightarrow> bool" where
  "isGuest uid \<longleftrightarrow> take 1 uid = ''g''"

definition userId :: "connection \<Rightarrow> string" where
  "userId conn = ui_userId (cd_userInfo (cn_data conn))"

definition guestKnock :: "string \<Rightarrow> string \<Rightarrow> string \<Rightarrow> (serverState, unit) act" where
  "guestKnock globalPadId guestId displayName =
     bindA (accessPad globalPadId ReadWrite
        (bindA (getPadConnections globalPadId) (\<lambda>connections.
         (let pros = filter (\<lambda>c. \<not> isGuest (userId c)) connections in
          thenA (forA (\<lambda>c. sendMessage (cn_connectionId c) (SERVER_MESSAGE (GuestPrompt guestId displayName))) pros)
            (ret (pros \<noteq> [])))))) (\<lambda>askedSomeone.
     whenA (\<not> askedSomeone) (serverCall (AnswerKnock guestId globalPadId ''denied'')))"

definition verifyUserId :: "string \<Rightarrow> (serverState, bool) act" where
  "verifyUserId uid =
     env (\<lambda>e. if isGuest uid then uid = en_guestUserId e else uid = en_userId e)"

definition checkChangesetAndPool :: "string \<Rightarrow> pool \<Rightarrow> unit res" where
  "checkChangesetAndPool cs p =
     bindE (checkRep cs) (\<lambda>_.
     eachAttribNumber cs (\<lambda>n u. if getAttrib p n = None
        then Inl (JsError ''Attribute pool is missing attribute'') else Inr u) ())"

definition getNumConnections :: "string \<Rightarrow> (serverState, int) act" where
  "getNumConnections padId = bindA (getPadConnections padId) (\<lambda>cs. ret (int (length cs)))"

definition getConnectedUsers :: "string \<Rightarrow> (serverState, userInfo list) act" where
  "getConnectedUsers padId =
     bindA (getPadConnections padId) (\<lambda>cs. ret (map (\<lambda>c. cd_userInfo (cn_data c)) cs))"

definition getAllPadsWithConnections :: "(serverState, string list) act" where
  "getAllPadsWithConnections = bindA (getAllRoomsOfType PADPAGE_ROOMTYPE) (\<lambda>rs. ret (map roomToPadId rs))"

definition broadcastServerMessage :: "serverPayload \<Rightarrow> (serverState, unit) act" where
  "broadcastServerMessage msgObj =
     bindA (getAllRoomsOfType PADPAGE_ROOMTYPE) (forA (\<lambda>roomName.
       bindA (getRoomConnections roomName) (forA (\<lambda>c.
         sendMessage (cn_connectionId c) (SERVER_MESSAGE msgObj)))))"

subsection \<open>Bringing clients up to date\<close>

definition getPadRevisionSockets :: "string \<Rightarrow> (serverState, (int, string) obj) act" where
  "getPadRevisionSockets padId =
     bindA (onPad padId getPadTemp) (\<lambda>t.
     (case tm_revisionSockets t of
        Some m \<Rightarrow> ret m
      | None \<Rightarrow> thenA (onPad padId (modTemp (\<lambda>t. t\<lparr>tm_revisionSockets := Some []\<rparr>))) (ret [])))"

definition setRevisionSocket :: "string \<Rightarrow> int \<Rightarrow> string \<Rightarrow> (serverState, unit) act" where
  "setRevisionSocket padId r socketId =
     bindA (getPadRevisionSockets padId) (\<lambda>m.
     onPad padId (modTemp (\<lambda>t. t\<lparr>tm_revisionSockets := Some (obj_put m r socketId)\<rparr>)))"

definition sendRevision :: "string \<Rightarrow> string \<Rightarrow> string \<Rightarrow> int \<Rightarrow> (serverState, unit) act" where
  "sendRevision padId connectionId socketId r =
     bindA (onPad padId (getRevisionAuthor r)) (\<lambda>author.
     bindA (getPadRevisionSockets padId) (\<lambda>revisionSockets.
     if obj_get revisionSockets r = Some socketId then sendMessage connectionId (ACCEPT_COMMIT r)
     else
       bindA (onPad padId (getRevisionChangeset r)) (\<lambda>cs.
       bindA (onPad padId getPadAPool) (\<lambda>apool.
       bindA (liftA (prepareForWire cs apool)) (\<lambda>(translated, wirePool).
       sendMessage connectionId (NEW_CHANGES r translated wirePool author))))))"

definition updateClient :: "string \<Rightarrow> string \<Rightarrow> (serverState, unit) act" where
  "updateClient padId connectionId =
     bindA (getConnection connectionId) (\<lambda>conn.
     (case conn of
        None \<Rightarrow> ret ()
      | Some c \<Rightarrow>
          bindA (onPad padId getHeadRevisionNumber) (\<lambda>head.
          thenA (forA (sendRevision padId connectionId (cn_socketId c))
                  (revisionsAfter (cd_lastRev (cn_data c)) head))
            (updateRoomConnectionData connectionId ((cn_data c)\<lparr>cd_lastRev := Some head\<rparr>)))))"

definition updatePadClients :: "string \<Rightarrow> (serverState, unit) act" where
  "updatePadClients padId =
     thenA (bindA (getPadConnections padId) (forA (\<lambda>c. updateClient padId (cn_connectionId c))))
       (view_updatePadClients padId)"

subsection \<open>Line markers\<close>

text \<open>
  \<open>collectMarkers\<close> is one step of the first loop of \<open>_correctMarkersInPad\<close>: the position in the text, and
  the positions so far of characters with the attribute \<open>list\<close> that are not at the start of a line.
\<close>

definition collectMarkers :: "string \<Rightarrow> pool \<Rightarrow> op \<Rightarrow> int \<times> int list \<Rightarrow> (int \<times> int list) res" where
  "collectMarkers text apool o1 = (\<lambda>(offset, badMarkers).
     bindE (opAttributeValue o1 ''list'' (Some apool)) (\<lambda>listValue.
     Inr (if listValue \<noteq> '''' then
            fold (\<lambda>_ (offset, badMarkers).
                (offset + 1, if 0 < offset \<and> js_substring text (offset - 1) offset \<noteq> [nl]
                             then badMarkers @ [offset] else badMarkers))
              [0 ..< nat (chars o1)] (offset, badMarkers)
          else (offset + chars o1, badMarkers))))"

definition removeMarker :: "string \<Rightarrow> int \<Rightarrow> int \<times> builder \<Rightarrow> (int \<times> builder) res" where
  "removeMarker text pos = (\<lambda>(offset, b).
     bindE (bu_keepText (js_substring text offset pos) NoAttribs None b) (\<lambda>(b, _).
     Inr (pos + 1, bu_remove 1 0 b)))"

text \<open>\<open>null\<close> is \<open>None\<close>.\<close>

definition correctMarkersInPad :: "atext \<Rightarrow> pool \<Rightarrow> string option res" where
  "correctMarkersInPad atext apool =
     (let text = at_text atext in
      bindE (opIterator (at_attribs atext) 0) (\<lambda>iter.
      bindE (forOps iter (collectMarkers text apool) (0, [])) (\<lambda>(_, badMarkers).
      if badMarkers = [] then Inr None
      else
        bindE (foldE (removeMarker text) badMarkers (0, builder_new (int (length text)))) (\<lambda>(_, b).
        Inr (Some (bu_toString b))))))"

subsection \<open>Changes of users\<close>

text \<open>One step of the loop that carries a changeset over the revisions its author had not seen.\<close>

definition rebaseOver :: "string \<Rightarrow> int \<Rightarrow> string \<Rightarrow> (serverState, string) act" where
  "rebaseOver padId r changeset =
     bindA (onPad padId (getRevisionChangeset r)) (\<lambda>c.
     onPad padId (withPadPool (follow c changeset False)))"

definition changeAuthor :: "string option \<Rightarrow> string option \<Rightarrow> (serverState, string) act" where
  "changeAuthor optSocketId optAuthor =
     bindA (if truthy optSocketId then getSocketConnectionId (the optSocketId) else ret None) (\<lambda>connectionId.
     bindA (if truthy connectionId then getConnection (the connectionId) else ret None) (\<lambda>connection.
     ret (if truthy optAuthor then the optAuthor
          else (case connection of None \<Rightarrow> '''' | Some c \<Rightarrow> userId c))))"

definition appendCorrections :: "string \<Rightarrow> (serverState, unit) act" where
  "appendCorrections padId =
     bindA (onPad padId pad_atext) (\<lambda>at.
     bindA (onPad padId getPadAPool) (\<lambda>apool.
     bindA (liftA (correctMarkersInPad at apool)) (\<lambda>correctionChangeset.
     (case correctionChangeset of
        None \<Rightarrow> ret ()
      | Some cs \<Rightarrow> onPad padId (appendRevision cs '''' None)))))"

definition appendBlankLine :: "string \<Rightarrow> (serverState, unit) act" where
  "appendBlankLine padId =
     bindA (onPad padId pad_text) (\<lambda>text.
     whenA (js_lastIndexOf text [nl, nl] (int (length text)) \<noteq> int (length text) - 2)
       (bindA (liftA (makeSplice text (int (length text) - 1) 0 [nl] NoAttribs None)) (\<lambda>(nlChangeset, _).
        onPad padId (appendRevision nlChangeset '''' None))))"

text \<open>
  A rebased changeset becomes a revision; the result is its author, or \<open>None\<close> where the changes do not fit
  and are dropped.
\<close>

definition commitChanges ::
  "string \<Rightarrow> string option \<Rightarrow> string option \<Rightarrow> string \<Rightarrow> (serverState, string option) act" where
  "commitChanges padId optSocketId optAuthor changeset =
     bindA (onPad padId pad_text) (\<lambda>prevText.
     bindA (liftA (oldLen changeset)) (\<lambda>n.
     if n \<noteq> int (length prevText) then
       thenA (serverCall (Warn ''Can't apply USER_CHANGES'')) (ret None)
     else
       bindA (changeAuthor optSocketId optAuthor) (\<lambda>thisAuthor.
       thenA (onPad padId (appendRevision changeset thisAuthor None))
      (bindA (onPad padId getHeadRevisionNumber) (\<lambda>newRev.
       thenA (whenA (truthy optSocketId) (setRevisionSocket padId newRev (the optSocketId)))
         (ret (Some thisAuthor)))))))"

text \<open>\<open>applyUserChanges\<close> up to and with the revision of the user.\<close>

definition mergeUserChanges ::
  "string \<Rightarrow> int \<Rightarrow> string \<Rightarrow> string option \<Rightarrow> string option \<Rightarrow> (serverState, string option) act" where
  "mergeUserChanges padId baseRev changeset optSocketId optAuthor =
     bindA (onPad padId getPadAPool) (\<lambda>_.
     bindA (onPad padId getHeadRevisionNumber) (\<lambda>head.
     bindA (foldA (rebaseOver padId) [baseRev + 1 .. head] changeset)
       (commitChanges padId optSocketId optAuthor)))"

definition applyUserChanges ::
  "string \<Rightarrow> int \<Rightarrow> string \<Rightarrow> string option \<Rightarrow> string option \<Rightarrow> (serverState, unit) act" where
  "applyUserChanges padId baseRev changeset optSocketId optAuthor =
     bindA (mergeUserChanges padId baseRev changeset optSocketId optAuthor) (\<lambda>author.
     (case author of
        None \<Rightarrow> ret ()
      | Some thisAuthor \<Rightarrow>
          thenA (appendCorrections padId)
         (thenA (appendBlankLine padId)
         (thenA (updatePadClients padId)
         (thenA (onPad padId (externalCall ActivePadsTouch))
            (onPad padId (externalCall (OnEditPad thisAuthor))))))))"

text \<open>
  What a client that was disconnected sends for the changes it could not commit; a changeset comes with its
  pool.
\<close>

record missedChanges =
  mc_userInfo :: userInfo
  mc_baseRev :: int
  mc_committedChangeset :: "string option"
  mc_committedChangesetAPool :: poolJson
  mc_committedChangesetSocketId :: "string option"
  mc_furtherChangeset :: "string option"
  mc_furtherChangesetAPool :: poolJson

text \<open>
  The search for a later changeset of the socket: whether the commit was missed, or \<open>None\<close> where the
  sender of a revision is not known any more.
\<close>

fun commitMissed :: "(int, string) obj \<Rightarrow> string option \<Rightarrow> int list \<Rightarrow> bool option" where
  "commitMissed revisionSockets commitSocketId [] = Some True"
| "commitMissed revisionSockets commitSocketId (r # rs) =
     (let s = obj_get revisionSockets r in
      if \<not> truthy s then None
      else if s = commitSocketId then Some False
      else commitMissed revisionSockets commitSocketId rs)"

definition adoptMissed :: "string \<Rightarrow> string option \<Rightarrow> poolJson \<Rightarrow> (serverState, string option) act" where
  "adoptMissed padId changeset apool =
     (if truthy changeset then
        (let wireApool = fromJsonable apool in
         thenA (liftA (checkChangesetAndPool (the changeset) wireApool))
           (bindA (onPad padId (adoptChangesetAttribs (the changeset) wireApool)) (\<lambda>c. ret (Some c))))
      else ret None)"

definition applyMissedChanges :: "string \<Rightarrow> missedChanges \<Rightarrow> (serverState, unit) act" where
  "applyMissedChanges padId mc =
     bindA (onPad padId getPadAPool) (\<lambda>_.
     bindA (verifyUserId (ui_userId (mc_userInfo mc))) (\<lambda>verified.
     if \<not> verified then ret ()
     else
       bindA (adoptMissed padId (mc_committedChangeset mc) (mc_committedChangesetAPool mc)) (\<lambda>committed.
       bindA (adoptMissed padId (mc_furtherChangeset mc) (mc_furtherChangesetAPool mc)) (\<lambda>further.
       bindA (if \<not> truthy committed then ret (Some False)
              else
                bindA (getPadRevisionSockets padId) (\<lambda>revisionSockets.
                bindA (onPad padId getHeadRevisionNumber) (\<lambda>head.
                ret (commitMissed revisionSockets (mc_committedChangesetSocketId mc)
                       [mc_baseRev mc + 1 .. head])))) (\<lambda>missed.
       (case missed of
          None \<Rightarrow> ret ()
        | Some commitWasMissed \<Rightarrow>
            (let committed = (if commitWasMissed then committed else None) in
             bindA (if truthy committed \<and> truthy further
                    then bindA (onPad padId (withPadPool (compose (the committed) (the further))))
                           (\<lambda>c. ret (Some c))
                    else ret (if truthy committed then committed else further)) (\<lambda>changeset.
             whenA (truthy changeset)
               (applyUserChanges padId (mc_baseRev mc) (the changeset) None
                  (Some (ui_userId (mc_userInfo mc))))))))))))"

subsection \<open>Changes by the server\<close>

definition applyChangeset :: "string \<Rightarrow> string \<Rightarrow> (serverState, unit) act" where
  "applyChangeset padId changeset =
     thenA (onPad padId (appendRevision changeset '''' None)) (updatePadClients padId)"

definition applyChangesetToPad :: "string \<Rightarrow> string \<Rightarrow> (serverState, unit) act" where
  "applyChangesetToPad padId changeset =
     thenA (liftA (checkRep changeset)) (applyChangeset padId changeset)"

definition appendPadText :: "string \<Rightarrow> string \<Rightarrow> (serverState, unit) act" where
  "appendPadText padId text =
     bindA (onPad padId pad_text) (\<lambda>oldFullText.
     bindA (liftA (makeSplice oldFullText (int (length oldFullText) - 1) 0 (cleanText text) NoAttribs None))
       (\<lambda>(cs, _). applyChangeset padId cs))"

definition setPadText :: "string \<Rightarrow> string \<Rightarrow> (serverState, unit) act" where
  "setPadText padId text =
     bindA (onPad padId pad_text) (\<lambda>oldFullText.
     bindA (liftA (makeSplice oldFullText 0 (int (length oldFullText) - 1) (cleanText text) NoAttribs None))
       (\<lambda>(cs, _). applyChangeset padId cs))"

definition setPadAText :: "string \<Rightarrow> atext \<Rightarrow> (serverState, unit) act" where
  "setPadAText padId atext =
     bindA (onPad padId pad_text) (\<lambda>oldFullText.
     bindA (liftA (makeSplice oldFullText 0 (int (length oldFullText) - 1) '''' NoAttribs None)) (\<lambda>(deletion, _).
     bindA (liftA (appendATextToAssembler atext smartOpAssembler)) (\<lambda>assem.
     (let charBank = js_slice (at_text atext) 0 (- 1) in
      bindA (liftA (checkRep (pack 1 (int (length (at_text atext))) (fst (sa_toString assem)) charBank))) (\<lambda>insertion.
      bindA (onPad padId (withPadPool (compose deletion insertion))) (\<lambda>cs.
      thenA (liftA (checkRep cs)) (applyChangeset padId cs)))))))"

subsection \<open>Authors and what a client starts with\<close>

definition getHistoricalAuthorData :: "string \<Rightarrow> string \<Rightarrow> (serverState, authorData option) act" where
  "getHistoricalAuthorData padId author =
     bindA (onPad padId (getAuthorData author)) (\<lambda>authorData.
     (case authorData of
        None \<Rightarrow> ret None
      | Some d \<Rightarrow>
          if truthy (ad_name d) then ret (Some \<lparr>ad_colorId = ad_colorId d, ad_name = ad_name d\<rparr>)
          else
            bindA (env (\<lambda>e. en_nameForUserId e author)) (\<lambda>uname.
            ret (Some \<lparr>ad_colorId = ad_colorId d, ad_name = (if truthy uname then uname else None)\<rparr>))))"

definition addHistoricalAuthor ::
  "string \<Rightarrow> string \<Rightarrow> (string, authorData) obj \<Rightarrow> (serverState, (string, authorData) obj) act" where
  "addHistoricalAuthor padId author m =
     bindA (getHistoricalAuthorData padId author) (\<lambda>data.
     ret (case data of None \<Rightarrow> m | Some d \<Rightarrow> obj_put m author d))"

definition buildHistoricalAuthorDataMapFromAText :: "string \<Rightarrow> atext \<Rightarrow> (serverState, (string, authorData) obj) act" where
  "buildHistoricalAuthorDataMapFromAText padId atext =
     bindA (onPad padId (eachATextAuthor atext)) (\<lambda>authors.
     foldA (\<lambda>(author, authorNum). addHistoricalAuthor padId author) authors [])"

definition buildHistoricalAuthorDataMapForPadHistory :: "string \<Rightarrow> (serverState, (string, authorData) obj) act" where
  "buildHistoricalAuthorDataMapForPadHistory padId =
     bindA (onPad padId getPadAPool) (\<lambda>apool.
     foldA (\<lambda>(key, value). if key = ''author'' then addHistoricalAuthor padId value else ret)
       (rev (eachAttrib apool (\<lambda>key value attribs. (key, value) # attribs) [])) [])"

record atextForWire =
  aw_atext :: atext
  aw_apool :: poolJson
  aw_historicalAuthorData :: "(string, authorData) obj"

definition getATextForWire :: "string \<Rightarrow> int option \<Rightarrow> (serverState, atextForWire) act" where
  "getATextForWire padId optRev =
     bindA (case optRev of
              Some r \<Rightarrow> onPad padId (getInternalRevisionAText r)
            | None \<Rightarrow> onPad padId pad_atext) (\<lambda>atext.
     bindA (buildHistoricalAuthorDataMapFromAText padId atext) (\<lambda>historicalAuthorData.
     bindA (onPad padId getPadAPool) (\<lambda>p.
     bindA (liftA (prepareForWire (at_attribs atext) p)) (\<lambda>(translated, apool).
     ret \<lparr>aw_atext = atext\<lparr>at_attribs := translated\<rparr>, aw_apool = toJsonable apool,
          aw_historicalAuthorData = historicalAuthorData\<rparr>))))"

record collabClientVars =
  cv_initialAttributedText :: atext
  cv_rev :: int
  cv_padId :: string
  cv_globalPadId :: string
  cv_historicalAuthorData :: "(string, authorData) obj"
  cv_apool :: poolJson

definition getCollabClientVars :: "string \<Rightarrow> (serverState, collabClientVars) act" where
  "getCollabClientVars padId =
     bindA (getATextForWire padId None) (\<lambda>forWire.
     bindA (onPad padId getHeadRevisionNumber) (\<lambda>head.
     ret \<lparr>cv_initialAttributedText = aw_atext forWire, cv_rev = head, cv_padId = globalToLocalId padId,
          cv_globalPadId = padId, cv_historicalAuthorData = aw_historicalAuthorData forWire,
          cv_apool = aw_apool forWire\<rparr>))"

end
