(* ===== verification/RoomServer.thy ===== *)
theory RoomServer
  imports CollabServer
begin

text \<open>
  Joining and leaving rooms and the messages of clients: \<open>collabroom_server.js\<close> with the callbacks that
  \<open>collab_server.js\<close> and \<open>readonly_server.js\<close> give it for their rooms. The callbacks of a room are named
  by the kind of room; \<open>getCallbacksForRoom\<close> chooses them.
\<close>

subsection \<open>Users\<close>

definition specialKeys :: "(string \<times> string) list" where
  "specialKeys = [(''x375b'', ''invisible'')]"

definition translateSpecialKey :: "string option \<Rightarrow> string option" where
  "translateSpecialKey specialKey =
     map_option snd (find (\<lambda>(code, _). Some code = specialKey) specialKeys)"

definition getSpecialKey :: "string \<Rightarrow> string option" where
  "getSpecialKey name = map_option fst (find (\<lambda>(_, n). n = name) specialKeys)"

definition sendUserInfoMessage :: "string \<Rightarrow> (userInfo \<Rightarrow> message) \<Rightarrow> userInfo \<Rightarrow> (serverState, unit) act" where
  "sendUserInfoMessage connectionId type ui =
     whenA (translateSpecialKey (ui_specialKey ui) \<noteq> Some ''invisible'') (sendMessage connectionId (type ui))"

definition handlePadUserInfo :: "string \<Rightarrow> userInfo \<Rightarrow> (serverState, unit) act" where
  "handlePadUserInfo padId ui =
     (let author = ui_userId ui;
          colorId = (case ui_colorId ui of ColorNumber n \<Rightarrow> Some n | ColorOther v \<Rightarrow> v);
          data = \<lparr>ad_colorId = colorId, ad_name = (if truthy (ui_name ui) then ui_name ui else None)\<rparr>
      in whenA (author \<noteq> '''')
           (thenA (onPad padId (setAuthorData author data)) (serverCall (NotifyUserData data))))"

definition accessExistingPad ::
  "string \<Rightarrow> string \<Rightarrow> (serverState, unit) act \<Rightarrow> bool \<Rightarrow> (serverState, unit) act" where
  "accessExistingPad padId accessType padFunc dontRequireExist =
     accessPad padId ReadWrite
       (bindA (onPad padId pad_exists) (\<lambda>exists.
        if \<not> exists then whenA (\<not> dontRequireExist) (serverCall (Warn accessType))
        else padFunc))"

text \<open>The warning about a missing pad id names a variable \<open>socketId\<close> that does not exist there.\<close>

definition accessCollabPad ::
  "string option \<Rightarrow> string \<Rightarrow> (string \<Rightarrow> (serverState, unit) act) \<Rightarrow> bool \<Rightarrow> (serverState, unit) act" where
  "accessCollabPad padId accessType padFunc dontRequirePad =
     (if \<not> truthy padId then
        (if \<not> dontRequirePad then throwA (ReferenceError ''socketId'') else ret ())
      else accessExistingPad (the padId) accessType (padFunc (the padId)) dontRequirePad)"

definition accessConnectionPad ::
  "connection \<Rightarrow> string \<Rightarrow> (string \<Rightarrow> (serverState, unit) act) \<Rightarrow> (serverState, unit) act" where
  "accessConnectionPad conn accessType padFunc =
     accessCollabPad (Some (roomToPadId (cn_roomName conn))) accessType padFunc False"

definition socketConnection :: "string \<Rightarrow> (serverState, connection option) act" where
  "socketConnection socketId =
     bindA (getSocketConnectionId socketId) (\<lambda>connectionId.
     if truthy connectionId then getConnection (the connectionId) else ret None)"

definition getPadIdForSocket :: "string \<Rightarrow> (serverState, string option) act" where
  "getPadIdForSocket socketId =
     bindA (socketConnection socketId) (\<lambda>conn. ret (map_option (\<lambda>c. roomToPadId (cn_roomName c)) conn))"

definition getUserIdForSocket :: "string \<Rightarrow> (serverState, string option) act" where
  "getUserIdForSocket socketId =
     bindA (socketConnection socketId) (\<lambda>conn. ret (map_option userId conn))"

definition accessSocketPad ::
  "string \<Rightarrow> string \<Rightarrow> (string \<Rightarrow> (serverState, unit) act) \<Rightarrow> bool \<Rightarrow> (serverState, unit) act" where
  "accessSocketPad socketId accessType padFunc dontRequirePad =
     bindA (getPadIdForSocket socketId) (\<lambda>padId. accessCollabPad padId accessType padFunc dontRequirePad)"

subsection \<open>Callbacks of a room\<close>

text \<open>\<open>roomName\<close> is the argument with which \<open>collab_server.getRoomCallbacks\<close> made the callbacks.\<close>

datatype callbacks = PadpageCallbacks string | PadviewCallbacks | EmptyCallbacks

definition getCallbacksForRoom :: "string \<Rightarrow> string option \<Rightarrow> (serverState, callbacks) act" where
  "getCallbacksForRoom roomName roomType0 =
     bindA (if truthy roomType0 then ret roomType0
            else getA (\<lambda>s. map_option ro_type (obj_get (sv_rooms s) roomName))) (\<lambda>roomType.
     ret (if roomType = Some PADPAGE_ROOMTYPE then PadpageCallbacks roomName
          else if roomType = Some PADVIEW_ROOMTYPE then PadviewCallbacks
          else EmptyCallbacks))"

definition introduceUsers :: "callbacks \<Rightarrow> connection \<Rightarrow> connection \<Rightarrow> (serverState, unit) act" where
  "introduceUsers cb joiningConnection existingConnection =
     (case cb of
        PadpageCallbacks _ \<Rightarrow>
          thenA (sendUserInfoMessage (cn_connectionId existingConnection) USER_NEWINFO
                   (cd_userInfo (cn_data joiningConnection)))
            (sendUserInfoMessage (cn_connectionId joiningConnection) USER_NEWINFO
                   (cd_userInfo (cn_data existingConnection)))
      | _ \<Rightarrow> ret ())"

definition extroduceUsers :: "callbacks \<Rightarrow> connection \<Rightarrow> connection \<Rightarrow> (serverState, unit) act" where
  "extroduceUsers cb leavingConnection existingConnection =
     (case cb of
        PadpageCallbacks _ \<Rightarrow>
          sendUserInfoMessage (cn_connectionId existingConnection) USER_LEAVE
            (cd_userInfo (cn_data leavingConnection))
      | _ \<Rightarrow> ret ())"

definition onAddConnection :: "callbacks \<Rightarrow> connData \<Rightarrow> (serverState, unit) act" where
  "onAddConnection cb data =
     (case cb of
        PadpageCallbacks roomName \<Rightarrow>
          (let padId = roomToPadId roomName in
           accessPad padId ReadWrite
             (thenA (handlePadUserInfo padId (cd_userInfo data))
             (thenA (serverCall (OnUserJoin padId (cd_userInfo data)))
                (view_updateUserInfo padId (cd_userInfo data)))))
      | _ \<Rightarrow> ret ())"

definition onRemoveConnection :: "callbacks \<Rightarrow> connData \<Rightarrow> (serverState, unit) act" where
  "onRemoveConnection cb data =
     (case cb of
        PadpageCallbacks roomName \<Rightarrow>
          (let padId = roomToPadId roomName in
           accessPad padId ReadWrite (serverCall (OnUserLeave padId (cd_userInfo data))))
      | _ \<Rightarrow> ret ())"

text \<open>
  What a client sends with \<open>CLIENT_READY\<close>. \<open>isReconnectOf\<close> names the socket the client had before; the
  handler reads it into a variable and makes no use of it.
\<close>

record readyData =
  rd_userInfo :: "userInfo option"
  rd_lastRev :: "int option"
  rd_isReconnectOf :: "string option"
  rd_isCommitPending :: bool
  rd_stats :: "string option"

definition handleConnect :: "callbacks \<Rightarrow> readyData \<Rightarrow> (serverState, userInfo option) act" where
  "handleConnect cb data =
     (case cb of
        PadpageCallbacks roomName \<Rightarrow>
          if js_indexOf roomName ''padpage/'' 0 \<noteq> 0 then ret None
          else
            (case rd_userInfo data of
               None \<Rightarrow> ret None
             | Some ui \<Rightarrow>
                 if ui_userId ui = '''' then ret None
                 else bindA (verifyUserId (ui_userId ui)) (\<lambda>ok. ret (if ok then Some ui else None)))
      | PadviewCallbacks \<Rightarrow>
          ret (case rd_userInfo data of
               None \<Rightarrow> None
             | Some ui \<Rightarrow> if ui_userId ui \<noteq> '''' then Some ui else None)
      | EmptyCallbacks \<Rightarrow> ret None)"

definition padpage_clientReady :: "connection \<Rightarrow> readyData \<Rightarrow> (serverState, unit) act" where
  "padpage_clientReady newConnection data =
     (let padId = roomToPadId (cn_roomName newConnection);
          connectionId = cn_connectionId newConnection in
      thenA (whenA (truthy (rd_stats data)) (serverCall (LogClientStats padId)))
     (thenA (updateRoomConnectionData connectionId ((cn_data newConnection)\<lparr>cd_lastRev := rd_lastRev data\<rparr>))
     (thenA (whenA (isProPadId padId)
        (bindA (env (\<lambda>e. (en_padTitle e padId, en_padPassword e padId))) (\<lambda>(title, password).
         thenA (sendMessage connectionId (CLIENT_MESSAGE (PadTitle title)))
           (sendMessage connectionId (CLIENT_MESSAGE (PadPassword password))))))
     (thenA (accessExistingPad padId ''CLIENT_READY''
        (bindA (env en_guestsAllowed) (\<lambda>allowed.
         bindA (onPad padId (getPadOptionsObj allowed)) (\<lambda>opts.
         thenA (sendMessage connectionId (CLIENT_MESSAGE (PadOptions opts)))
           (updateClient padId connectionId)))) False)
        (whenA (rd_isCommitPending data) (sendMessage connectionId NO_COMMIT_PENDING))))))"

definition clientReady :: "callbacks \<Rightarrow> connection \<Rightarrow> readyData \<Rightarrow> (serverState, unit) act" where
  "clientReady cb newConnection data =
     (case cb of
        PadpageCallbacks _ \<Rightarrow> padpage_clientReady newConnection data
      | PadviewCallbacks \<Rightarrow>
          updateRoomConnectionData (cn_connectionId newConnection)
            ((cn_data newConnection)\<lparr>cd_lastRev := rd_lastRev data\<rparr>)
      | EmptyCallbacks \<Rightarrow> ret ())"

subsection \<open>Joining and leaving\<close>

definition removeRoomConnection :: "string \<Rightarrow> (serverState, unit) act" where
  "removeRoomConnection connectionId =
     bindA (getConnection connectionId) (\<lambda>leavingConnection.
     (case leavingConnection of
        None \<Rightarrow> ret ()
      | Some leaving \<Rightarrow>
          bindA (getCallbacksForRoom (cn_roomName leaving) None) (\<lambda>cb.
          thenA (removeConnection leaving)
         (thenA (bindA (getRoomConnections (cn_roomName leaving)) (forA (\<lambda>c. extroduceUsers cb leaving c)))
            (onRemoveConnection cb (cn_data leaving))))))"

definition disconnectDefunctSocket :: "string \<Rightarrow> string \<Rightarrow> (serverState, unit) act" where
  "disconnectDefunctSocket connectionId socketId =
     bindA (getConnection connectionId) (\<lambda>conn.
     (case conn of
        None \<Rightarrow> ret ()
      | Some c \<Rightarrow> whenA (cn_socketId c = socketId) (removeRoomConnection connectionId)))"

definition bootConnection :: "string \<Rightarrow> string option \<Rightarrow> (serverState, unit) act" where
  "bootConnection connectionId reason =
     bindA (getConnection connectionId) (\<lambda>conn.
     (case conn of
        None \<Rightarrow> ret ()
      | Some c \<Rightarrow> thenA (bootSocket (cn_socketId c) reason) (removeRoomConnection connectionId)))"

definition meetConnection :: "callbacks \<Rightarrow> connection \<Rightarrow> connection \<Rightarrow> (serverState, unit) act" where
  "meetConnection cb joiningConnection conn =
     whenA (cn_socketId conn \<noteq> cn_socketId joiningConnection)
       (if userId conn = userId joiningConnection
        then bootConnection (cn_connectionId conn) (Some ''userdup'')
        else introduceUsers cb joiningConnection conn)"

definition addRoomConnection ::
  "string \<Rightarrow> string \<Rightarrow> string \<Rightarrow> string \<Rightarrow> connData \<Rightarrow> (serverState, connection) act" where
  "addRoomConnection roomName roomType connectionId socketId data =
     bindA (getCallbacksForRoom roomName (Some roomType)) (\<lambda>cb.
     thenA (modA (\<lambda>s. s\<lparr>sv_attributes := obj_put (sv_attributes s) socketId connectionId\<rparr>))
    (thenA (bootConnection connectionId (Some ''userdup''))
       (let joiningConnection = \<lparr>cn_roomName = roomName, cn_connectionId = connectionId,
              cn_socketId = socketId, cn_data = data\<rparr> in
        thenA (putConnection joiningConnection (Some roomType))
       (thenA (bindA (getRoomConnections roomName) (forA (meetConnection cb joiningConnection)))
       (thenA (onAddConnection cb data)
          (ret joiningConnection))))))"

definition bootUsersFromPad :: "string \<Rightarrow> string \<Rightarrow> (userInfo \<Rightarrow> bool) \<Rightarrow> (serverState, userInfo list) act" where
  "bootUsersFromPad padId reason userInfoFilter =
     bindA (getPadConnections padId) (\<lambda>connections.
     (let booted = filter (\<lambda>c. userInfoFilter (cd_userInfo (cn_data c))) connections in
      thenA (forA (\<lambda>c. bootConnection (cn_connectionId c) None) booted)
        (ret (map (\<lambda>c. cd_userInfo (cn_data c)) booted))))"

definition bootAllUsersFromPad :: "string \<Rightarrow> string \<Rightarrow> (serverState, userInfo list) act" where
  "bootAllUsersFromPad padId reason = bootUsersFromPad padId reason (\<lambda>_. True)"

subsection \<open>Messages of clients\<close>

datatype clientMessage =
    UserChanges int "string option" poolJson
  | UserinfoUpdate userInfo
  | ClientMessage "string option" payload
  | UnknownMessage

definition updateDocumentConnectionUserInfo :: "string \<Rightarrow> string \<Rightarrow> userInfo \<Rightarrow> (serverState, unit) act" where
  "updateDocumentConnectionUserInfo padId socketId ui =
     bindA (getSocketConnectionId socketId) (\<lambda>connectionId.
     whenA (truthy connectionId)
       (bindA (getConnection (the connectionId)) (\<lambda>conn.
        (case conn of
           None \<Rightarrow> throwA (TypeError ''updatingConnection is null'')
         | Some updating \<Rightarrow>
             thenA (updateRoomConnectionData (the connectionId) ((cn_data updating)\<lparr>cd_userInfo := ui\<rparr>))
            (thenA (bindA (getPadConnections padId) (forA (\<lambda>c.
               whenA (cn_socketId c \<noteq> cn_socketId updating)
                 (sendUserInfoMessage (cn_connectionId c) USER_NEWINFO ui))))
            (thenA (handlePadUserInfo padId ui)
            (thenA (serverCall (OnUserInfoChange padId ui))
               (view_updateUserInfo padId ui))))))))"

definition handleUserChanges :: "connection \<Rightarrow> int \<Rightarrow> string option \<Rightarrow> poolJson \<Rightarrow> (serverState, unit) act" where
  "handleUserChanges conn baseRev changeset apool =
     bindA (env (\<lambda>e. en_pluginChecks e (roomToPadId (cn_roomName conn)))) (\<lambda>plugin_checks.
     if False \<in> set plugin_checks then ret ()
     else
       accessConnectionPad conn ''USER_CHANGES'' (\<lambda>padId.
         (let wireApool = fromJsonable apool in
          whenA (truthy changeset)
            (thenA (liftA (checkChangesetAndPool (the changeset) wireApool))
            (bindA (onPad padId (adoptChangesetAttribs (the changeset) wireApool)) (\<lambda>cs.
             applyUserChanges padId baseRev cs (Some (cn_socketId conn)) None))))))"

definition catchEasysync :: "(serverState, unit) act \<Rightarrow> (serverState, unit) act" where
  "catchEasysync f =
     catchA f (\<lambda>e. case e of
        Easysync _ \<Rightarrow> serverCall (Warn ''Changeset error handling USER_CHANGES'')
      | _ \<Rightarrow> throwA e)"

definition handleClientMessage :: "connection \<Rightarrow> string option \<Rightarrow> payload \<Rightarrow> (serverState, unit) act" where
  "handleClientMessage conn authId payload =
     accessConnectionPad conn ''CLIENT_MESSAGE'' (\<lambda>padId.
       whenA (\<not> (truthy authId \<and> authId \<noteq> Some (userId conn)))
         (thenA (bindA (getRoomConnections (cn_roomName conn)) (forA (\<lambda>c.
            whenA (cn_socketId c \<noteq> cn_socketId conn)
              (sendMessage (cn_connectionId c) (CLIENT_MESSAGE payload)))))
            (serverCall (OnClientMessage padId (cd_userInfo (cn_data conn)) payload))))"

definition handleCometMessage :: "connection \<Rightarrow> clientMessage \<Rightarrow> (serverState, unit) act" where
  "handleCometMessage conn msg =
     bindA (if userId conn = '''' then ret False else verifyUserId (userId conn)) (\<lambda>verified.
     thenA (whenA (\<not> verified) (bootConnection (cn_connectionId conn) (Some ''unauth'')))
       (case msg of
          UserChanges baseRev changeset apool \<Rightarrow> catchEasysync (handleUserChanges conn baseRev changeset apool)
        | UserinfoUpdate ui \<Rightarrow>
            accessConnectionPad conn ''USERINFO_UPDATE'' (\<lambda>padId.
              whenA (ui_userId ui = userId conn)
                (updateDocumentConnectionUserInfo padId (cn_socketId conn) ui))
        | ClientMessage authId payload \<Rightarrow> handleClientMessage conn authId payload
        | UnknownMessage \<Rightarrow> ret ()))"

definition handleMessage :: "callbacks \<Rightarrow> connection \<Rightarrow> clientMessage \<Rightarrow> (serverState, unit) act" where
  "handleMessage cb conn msg = (case cb of PadpageCallbacks _ \<Rightarrow> handleCometMessage conn msg | _ \<Rightarrow> ret ())"

datatype cometMessage =
    ClientReady "string option" "string option" "readyData option"
  | RoomMessage clientMessage

datatype cometEvent = CometDisconnected | CometMessage cometMessage | CometOther

text \<open>\<open>response.stop()\<close> ends the request by an exception.\<close>

definition stopResponse :: "(serverState, 'a) act" where
  "stopResponse = throwA (JsError ''stop'')"

definition requireTruthy :: "string \<Rightarrow> bool \<Rightarrow> (serverState, unit) act" where
  "requireTruthy messageSocketId x =
     whenA (\<not> x)
       (thenA (serverCall (Warn ''Collab operation rejected due to missing value''))
       (thenA (whenA (messageSocketId \<noteq> '''') (cometCall (CometDisconnect messageSocketId)))
          stopResponse))"

definition handleClientReady ::
  "string \<Rightarrow> string option \<Rightarrow> string option \<Rightarrow> readyData option \<Rightarrow> (serverState, unit) act" where
  "handleClientReady socketId roomType roomName data =
     thenA (requireTruthy socketId (truthy roomType))
    (thenA (requireTruthy socketId (truthy roomName))
    (thenA (requireTruthy socketId (data \<noteq> None))
    (bindA (getCallbacksForRoom (the roomName) roomType) (\<lambda>cb.
     bindA (handleConnect cb (the data)) (\<lambda>ui.
     thenA (requireTruthy socketId (ui \<noteq> None))
    (bindA (addRoomConnection (the roomName) (the roomType) socketId socketId
              \<lparr>cd_userInfo = the ui, cd_lastRev = None\<rparr>) (\<lambda>newConnection.
     clientReady cb newConnection (the data))))))))"

definition handleComet :: "cometEvent \<Rightarrow> string \<Rightarrow> (serverState, unit) act" where
  "handleComet cometOp cometId =
     (case cometOp of
        CometOther \<Rightarrow> stopResponse
      | _ \<Rightarrow>
          thenA (requireTruthy '''' (cometId \<noteq> ''''))
         (bindA (getSocketConnectionId cometId) (\<lambda>messageConnectionId.
          (case cometOp of
             CometDisconnected \<Rightarrow>
               whenA (truthy messageConnectionId) (removeRoomConnection (the messageConnectionId))
           | CometMessage (ClientReady roomType roomName data) \<Rightarrow>
               handleClientReady cometId roomType roomName data
           | CometMessage (RoomMessage msg) \<Rightarrow>
               whenA (truthy messageConnectionId)
                 (bindA (getConnection (the messageConnectionId)) (\<lambda>conn.
                  (case conn of
                     None \<Rightarrow> ret ()
                   | Some c \<Rightarrow>
                       bindA (getCallbacksForRoom (cn_roomName c) None) (\<lambda>cb. handleMessage cb c msg))))
           | CometOther \<Rightarrow> stopResponse))))"

end
