(* ===== verification/RoomLaws.thy ===== *)
theory RoomLaws
  imports RoomServer
begin

text \<open>
  What the rooms guarantee, whatever the clients send and however a request ends: the table of rooms and
  the table of connections describe each other, and a user is in a room at most once. The \<open>skeleton\<close> of
  the server's state is the part this is about; most operations leave it alone.
\<close>

subsection \<open>The skeleton\<close>

text \<open>Room, id, socket and user of a connection.\<close>

type_synonym membership = "string \<times> string \<times> string \<times> string"

definition membership :: "connection \<Rightarrow> membership" where
  "membership c = (cn_roomName c, cn_connectionId c, cn_socketId c, userId c)"

definition member :: "serverState \<Rightarrow> string \<Rightarrow> membership option" where
  "member s cid = map_option membership (obj_get (sv_allConnections s) cid)"

type_synonym skeleton = "(string, room) obj \<times> (string, string) obj \<times> (string \<Rightarrow> membership option)"

definition skeleton :: "serverState \<Rightarrow> skeleton" where
  "skeleton s = (sv_rooms s, sv_attributes s, member s)"

abbreviation same :: "skeleton \<Rightarrow> serverState \<Rightarrow> bool" where
  "same k \<equiv> \<lambda>s. skeleton s = k"

text \<open>Connections are stored under their ids.\<close>

definition keyed :: "skeleton \<Rightarrow> bool" where
  "keyed k = (\<forall>cid x. snd (snd k) cid = Some x \<longrightarrow> fst (snd x) = cid)"

lemma skeleton_updates [simp]:
  "skeleton (s\<lparr>sv_pads := p\<rparr>) = skeleton s" "skeleton (s\<lparr>sv_accessing := a\<rparr>) = skeleton s"
  "skeleton (s\<lparr>sv_comet := c\<rparr>) = skeleton s" "skeleton (s\<lparr>sv_calls := l\<rparr>) = skeleton s"
  "skeleton (s\<lparr>sv_env := e\<rparr>) = skeleton s"
  by (simp_all add: skeleton_def member_def fun_eq_iff)

lemma bind_getA: "bindA (getA g) f s = f (g s) s"
  by (simp add: bindA_def getA_def)

lemma then_modA: "thenA (modA f) m s = m (f s)"
  by (simp add: thenA_def bindA_def modA_def)

lemma then_whenA_modA: "thenA (whenA b (modA f)) m s = m (if b then f s else s)"
  by (simp add: thenA_def bindA_def modA_def whenA_def ret_def)

lemma then_ret: "thenA (ret x) m s = m s"
  by (simp add: thenA_def bindA_def ret_def)

lemma then_ret_fun: "thenA (ret x) m = m"
  by (rule ext) (simp add: then_ret)

lemma bind_ret_fun: "bindA (ret x) f = f x"
  by (rule ext) (simp add: bindA_def ret_def)

lemma in_map_filter: "y \<in> set (List.map_filter f xs) \<longleftrightarrow> (\<exists>x \<in> set xs. f x = Some y)"
  by (induction xs) (auto simp: List.map_filter_simps split: option.splits)

lemma in_roomMembers:
  "c \<in> set (roomMembers s n) \<longleftrightarrow> (\<exists>r id. obj_get (sv_rooms s) n = Some r \<and> id \<in> set (ro_connections r) \<and>
     obj_get (sv_allConnections s) id = Some c)"
  by (cases "obj_get (sv_rooms s) n") (auto simp: roomMembers_def in_map_filter)

lemma then_run: "m s = (Inr x, t) \<Longrightarrow> thenA m n s = n t"
  by (simp add: thenA_def bindA_def)

lemma bind_run: "m s = (Inr x, t) \<Longrightarrow> bindA m f s = f x t"
  by (simp add: bindA_def)

lemmas runs = bind_getA then_modA then_whenA_modA then_ret

lemma whenA_simps [simp]: "whenA True m = m" "whenA False m = ret ()"
  by (simp_all add: whenA_def)

named_theorems keeps \<open>operations that leave the skeleton alone\<close>

lemma keeps_mod [keeps]: "(\<And>s. skeleton (f s) = skeleton s) \<Longrightarrow> preserves (same k) (modA f)"
  by (rule preserves_mod) simp

lemma keeps_foldA [keeps]: "(\<And>x a. preserves I (f x a)) \<Longrightarrow> preserves I (foldA f xs a)"
proof (induction xs arbitrary: a)
  case Nil
  then show ?case by (simp add: preserves_basic)
next
  case (Cons x xs)
  have "preserves I (bindA (f x a) (foldA f xs))" by (rule preserves_bind [OF Cons.prems]) (rule Cons.IH [OF Cons.prems])
  then show ?case by simp
qed

lemma keeps_option [keeps]:
  "preserves I m \<Longrightarrow> (\<And>x. preserves I (f x)) \<Longrightarrow> preserves I (case y of None \<Rightarrow> m | Some x \<Rightarrow> f x)"
  by (cases y) simp_all

lemma keeps_pair [keeps]: "(\<And>a b. preserves I (f a b)) \<Longrightarrow> preserves I (case x of (a, b) \<Rightarrow> f a b)"
  by (cases x) simp

lemma keeps_let [keeps]: "preserves I (f x) \<Longrightarrow> preserves I (let y = x in f y)"
  by simp

lemma keeps_onPad [keeps]: "preserves (same k) (onPad padId f)"
  by (rule preservesI) (simp add: onPad_def split: prod.split)

lemma keeps_transaction: "preserves (same k) f \<Longrightarrow> preserves (same k) (serverTransaction f)"
proof (rule preservesI)
  fix s
  assume f: "preserves (same k) f" and s: "skeleton s = k"
  obtain r s' where r: "f s = (r, s')" by fastforce
  with f s have "skeleton s' = k" using preservesD [of "same k" f s r s'] by simp
  with r show "skeleton (snd (serverTransaction f s)) = k" by (cases r) (simp_all add: serverTransaction_def)
qed

lemma keeps_env [keeps]: "preserves I (env f)"
  unfolding env_def by (rule pres)

lemma keeps_calls [keeps]:
  "preserves (same k) (cometCall c)" "preserves (same k) (serverCall d)"
  unfolding cometCall_def serverCall_def by (rule keeps; simp)+

lemma keeps_access [keeps]: "preserves (same k) f \<Longrightarrow> preserves (same k) (accessPad padId mode f)"
  unfolding accessPad_def
  by (intro pres keeps keeps_transaction | simp)+

lemma keeps_reads [keeps]:
  "preserves I (getConnection cid)" "preserves I (getRoomConnections r)" "preserves I (getAllRoomsOfType ty)"
  "preserves I (getSocketConnectionId sid)" "preserves I (getPadConnections padId)" "preserves I (verifyUserId u)"
  "preserves I (getCallbacksForRoom r ty0)"
  unfolding getConnection_def getRoomConnections_def getAllRoomsOfType_def getSocketConnectionId_def
    getPadConnections_def verifyUserId_def getCallbacksForRoom_def
  by (intro pres keeps | simp)+

lemma keeps_toSocket [keeps]: "preserves (same k) (sendMessageToSocket sid m)"
  unfolding sendMessageToSocket_def by (rule keeps)

lemma keeps_send [keeps]: "preserves (same k) (sendMessage cid m)"
  unfolding sendMessage_def by (intro pres keeps)

lemma keeps_bootSocket [keeps]: "preserves (same k) (bootSocket sid r)"
  unfolding bootSocket_def by (intro pres keeps)

lemma keeps_sendInfo [keeps]: "preserves (same k) (sendUserInfoMessage cid ty ui)"
  unfolding sendUserInfoMessage_def by (intro pres keeps)

text \<open>New data for a connection of the same user changes nothing.\<close>

lemma keeps_data:
  assumes "keyed k" and "\<And>x. snd (snd k) cid = Some x \<Longrightarrow> snd (snd (snd x)) = ui_userId (cd_userInfo data)"
  shows "preserves (same k) (updateRoomConnectionData cid data)"
proof (rule preservesI)
  fix s
  assume s: "skeleton s = k"
  show "skeleton (snd (updateRoomConnectionData cid data s)) = k"
  proof (cases "obj_get (sv_allConnections s) cid")
    case None
    then show ?thesis using s by (simp add: updateRoomConnectionData_def bindA_def getConnection_def getA_def ret_def)
  next
    case (Some c)
    then have k: "snd (snd k) cid = Some (membership c)" using s by (auto simp: skeleton_def member_def)
    then have "cn_connectionId c = cid" "ui_userId (cd_userInfo data) = userId c"
      using assms(1) [unfolded keyed_def, rule_format, OF k] assms(2) [OF k] by (simp_all add: membership_def)
    then have "membership (c\<lparr>cn_data := data\<rparr>) = membership c" by (simp add: membership_def userId_def)
    then have "member (s\<lparr>sv_allConnections := obj_put (sv_allConnections s) cid (c\<lparr>cn_data := data\<rparr>)\<rparr>) = member s"
      using Some by (auto simp: member_def fun_eq_iff)
    with s \<open>cn_connectionId c = cid\<close> Some show ?thesis
      by (auto simp: updateRoomConnectionData_def bindA_def thenA_def getConnection_def getA_def ret_def
        putConnection_def truthy_def modA_def whenA_def Let_def skeleton_def)
  qed
qed

text \<open>Operations on pads send messages; what they change of a connection is how far it has come.\<close>

lemma keeps_sendRevision [keeps]: "preserves (same k) (sendRevision padId cid sid r)"
  unfolding sendRevision_def getPadRevisionSockets_def by (intro pres keeps)

lemma keeps_sendViewRevision [keeps]: "preserves (same k) (sendViewRevision padId cid r)"
  unfolding sendViewRevision_def getPadLines_def revTime_def by (intro pres keeps)

lemma keeps_update:
  assumes "keyed k" and "\<And>c r. preserves (same k) (send c r)"
  shows "preserves (same k) (bindA (getConnection cid) (\<lambda>conn.
     (case conn of
        None \<Rightarrow> ret ()
      | Some c \<Rightarrow>
          bindA (onPad padId getHeadRevisionNumber) (\<lambda>head.
          thenA (forA (send c) (revisionsAfter (cd_lastRev (cn_data c)) head))
            (updateRoomConnectionData cid ((cn_data c)\<lparr>cd_lastRev := Some head\<rparr>))))))"
proof (rule preservesI)
  fix s
  assume s: "skeleton s = k"
  let ?body = "\<lambda>c. bindA (onPad padId getHeadRevisionNumber) (\<lambda>head.
          thenA (forA (send c) (revisionsAfter (cd_lastRev (cn_data c)) head))
            (updateRoomConnectionData cid ((cn_data c)\<lparr>cd_lastRev := Some head\<rparr>)))"
  show "skeleton (snd (bindA (getConnection cid) (\<lambda>conn. case conn of None \<Rightarrow> ret () | Some c \<Rightarrow> ?body c) s)) = k"
  proof (cases "obj_get (sv_allConnections s) cid")
    case None
    with s show ?thesis by (simp add: bindA_def getConnection_def getA_def ret_def)
  next
    case (Some c)
    have "preserves (same k) (?body c)"
    proof (intro pres keeps assms(2) keeps_data [OF assms(1)])
      fix x head
      assume "snd (snd k) cid = Some x"
      with s Some have "x = membership c" by (auto simp: skeleton_def member_def)
      then show "snd (snd (snd x)) = ui_userId (cd_userInfo ((cn_data c)\<lparr>cd_lastRev := Some head\<rparr>))"
        by (simp add: membership_def userId_def)
    qed
    with s have "skeleton (snd (?body c s)) = k" by (simp add: preserves_def)
    with Some show ?thesis by (simp add: getConnection_def bind_getA)
  qed
qed

lemma keeps_updateClient [keeps]: "keyed k \<Longrightarrow> preserves (same k) (updateClient padId cid)"
  unfolding updateClient_def by (rule keeps_update) (assumption | rule keeps)+

lemma keeps_view_updateClient [keeps]: "keyed k \<Longrightarrow> preserves (same k) (view_updateClient padId cid)"
  unfolding view_updateClient_def by (rule keeps_update) (assumption | rule keeps)+

lemma keeps_view_connections [keeps]:
  "(\<And>cid. preserves (same k) (f cid)) \<Longrightarrow> preserves (same k) (view_connections padId f)"
  unfolding view_connections_def by (intro pres keeps)

lemma keeps_updatePadClients [keeps]: "keyed k \<Longrightarrow> preserves (same k) (updatePadClients padId)"
  unfolding updatePadClients_def view_updatePadClients_def by (intro pres keeps)

lemma keeps_setRevisionSocket [keeps]: "preserves (same k) (setRevisionSocket padId r sid)"
  unfolding setRevisionSocket_def getPadRevisionSockets_def by (intro pres keeps)

lemma keeps_appendCorrections [keeps]: "preserves (same k) (appendCorrections padId)"
  unfolding appendCorrections_def by (intro pres keeps)

lemma keeps_appendBlankLine [keeps]: "preserves (same k) (appendBlankLine padId)"
  unfolding appendBlankLine_def by (intro pres keeps)

lemma keeps_rebaseOver [keeps]: "preserves (same k) (rebaseOver padId r cs)"
  unfolding rebaseOver_def by (intro pres keeps)

lemma keeps_changeAuthor [keeps]: "preserves (same k) (changeAuthor sid a)"
  unfolding changeAuthor_def by (intro pres keeps)

lemma keeps_commitChanges [keeps]: "preserves (same k) (commitChanges padId sid a cs)"
  unfolding commitChanges_def by (intro pres keeps)

lemma keeps_mergeUserChanges [keeps]: "preserves (same k) (mergeUserChanges padId b cs sid a)"
  unfolding mergeUserChanges_def by (intro pres keeps)

lemma keeps_applyUserChanges [keeps]: "keyed k \<Longrightarrow> preserves (same k) (applyUserChanges padId b cs sid a)"
  unfolding applyUserChanges_def by (intro pres keeps)

lemma keeps_adoptMissed [keeps]: "preserves (same k) (adoptMissed padId c p)"
  unfolding adoptMissed_def by (intro pres keeps)

lemma keeps_applyMissedChanges [keeps]: "keyed k \<Longrightarrow> preserves (same k) (applyMissedChanges padId mc)"
  unfolding applyMissedChanges_def getPadRevisionSockets_def by (intro pres keeps)

lemma keeps_applyChangeset [keeps]: "keyed k \<Longrightarrow> preserves (same k) (applyChangeset padId cs)"
  unfolding applyChangeset_def by (intro pres keeps)

lemma keeps_serverTexts:
  assumes "keyed k"
  shows "preserves (same k) (applyChangesetToPad padId cs)" and "preserves (same k) (appendPadText padId t)"
    and "preserves (same k) (setPadText padId t)" and "preserves (same k) (setPadAText padId at)"
proof -
  show "preserves (same k) (applyChangesetToPad padId cs)"
    unfolding applyChangesetToPad_def by (intro pres keeps assms)
  show "preserves (same k) (appendPadText padId t)" unfolding appendPadText_def by (intro pres keeps assms)
  show "preserves (same k) (setPadText padId t)" unfolding setPadText_def by (intro pres keeps assms)
  show "preserves (same k) (setPadAText padId at)" unfolding setPadAText_def by (intro pres keeps assms)
qed

lemma keeps_handlePadUserInfo [keeps]: "preserves (same k) (handlePadUserInfo padId ui)"
  unfolding handlePadUserInfo_def by (intro pres keeps)

lemma keeps_sendToPad [keeps]: "preserves (same k) (sendMessageToPadConnections padId m)"
  unfolding sendMessageToPadConnections_def by (intro pres keeps)

lemma keeps_view_updateUserInfo [keeps]: "preserves (same k) (view_updateUserInfo padId ui)"
  unfolding view_updateUserInfo_def by (intro pres keeps)

lemma keeps_existingPad [keeps]: "preserves (same k) f \<Longrightarrow> preserves (same k) (accessExistingPad padId ty f b)"
  unfolding accessExistingPad_def by (intro pres keeps)

lemma keeps_connectionPad [keeps]:
  "(\<And>padId. preserves (same k) (f padId)) \<Longrightarrow> preserves (same k) (accessConnectionPad conn ty f)"
  unfolding accessConnectionPad_def accessCollabPad_def by (intro pres keeps)

lemma keeps_callbacks [keeps]:
  "preserves I a \<Longrightarrow> preserves I b \<Longrightarrow> (\<And>n. preserves I (f n)) \<Longrightarrow>
   preserves I (case cb of PadpageCallbacks n \<Rightarrow> f n | PadviewCallbacks \<Rightarrow> a | EmptyCallbacks \<Rightarrow> b)"
  by (cases cb) simp_all

lemma keeps_introduce [keeps]: "preserves (same k) (introduceUsers cb a b)"
  unfolding introduceUsers_def by (intro pres keeps)

lemma keeps_extroduce [keeps]: "preserves (same k) (extroduceUsers cb a b)"
  unfolding extroduceUsers_def by (intro pres keeps)

lemma keeps_onAdd [keeps]: "preserves (same k) (onAddConnection cb d)"
  unfolding onAddConnection_def by (intro pres keeps)

lemma keeps_onRemove [keeps]: "preserves (same k) (onRemoveConnection cb d)"
  unfolding onRemoveConnection_def by (intro pres keeps)

lemma keeps_handleConnect [keeps]: "preserves I (handleConnect cb d)"
  unfolding handleConnect_def by (intro pres keeps)

lemma keeps_guestKnock [keeps]: "preserves (same k) (guestKnock padId g n)"
  unfolding guestKnock_def by (intro pres keeps)

lemma keeps_broadcast [keeps]: "preserves (same k) (broadcastServerMessage m)"
  unfolding broadcastServerMessage_def by (intro pres keeps)

lemma keeps_newRevision [keeps]: "preserves (same k) (broadcastNewRevision padId ob)"
  unfolding broadcastNewRevision_def by (intro pres keeps)

lemma keeps_requireTruthy [keeps]: "preserves (same k) (requireTruthy sid b)"
  unfolding requireTruthy_def stopResponse_def by (intro pres keeps)

lemma keeps_clientReady:
  assumes "keyed k" and "\<And>x. snd (snd k) (cn_connectionId conn) = Some x \<Longrightarrow> snd (snd (snd x)) = userId conn"
  shows "preserves (same k) (clientReady cb conn data)"
proof -
  have d: "preserves (same k) (updateRoomConnectionData (cn_connectionId conn) ((cn_data conn)\<lparr>cd_lastRev := r\<rparr>))" for r
    by (rule keeps_data [OF assms(1)]) (use assms(2) in \<open>simp add: userId_def\<close>)
  show ?thesis unfolding clientReady_def padpage_clientReady_def by (intro pres keeps d assms(1))
qed

lemma keeps_handleUserChanges [keeps]: "keyed k \<Longrightarrow> preserves (same k) (handleUserChanges conn b cs p)"
  unfolding handleUserChanges_def by (intro pres keeps)

lemma keeps_error [keeps]:
  "(\<And>s. preserves I (a s)) \<Longrightarrow> (\<And>s. preserves I (b s)) \<Longrightarrow> (\<And>s. preserves I (c s)) \<Longrightarrow>
   (\<And>s. preserves I (d s)) \<Longrightarrow> preserves I f \<Longrightarrow>
   preserves I (case e of Easysync s \<Rightarrow> a s | JsError s \<Rightarrow> b s | TypeError s \<Rightarrow> c s | ReferenceError s \<Rightarrow> d s | Diverges \<Rightarrow> f)"
  by (cases e) simp_all

lemma keeps_catchEasysync [keeps]: "preserves (same k) f \<Longrightarrow> preserves (same k) (catchEasysync f)"
  unfolding catchEasysync_def by (intro pres keeps)

lemma keeps_handleClientMessage [keeps]: "preserves (same k) (handleClientMessage conn a p)"
  unfolding handleClientMessage_def by (intro pres keeps)

text \<open>A user who updates his information stays the same user.\<close>

lemma keeps_updateDocument:
  assumes "keyed k"
    and "\<And>cid x. obj_get (fst (snd k)) sid = Some cid \<Longrightarrow> snd (snd k) cid = Some x \<Longrightarrow>
      snd (snd (snd x)) = ui_userId ui"
  shows "preserves (same k) (updateDocumentConnectionUserInfo padId sid ui)"
proof (rule preservesI)
  fix s
  assume s: "skeleton s = k"
  let ?rest = "\<lambda>cid updating. thenA (updateRoomConnectionData cid ((cn_data updating)\<lparr>cd_userInfo := ui\<rparr>))
            (thenA (bindA (getPadConnections padId) (forA (\<lambda>c.
               whenA (cn_socketId c \<noteq> cn_socketId updating)
                 (sendUserInfoMessage (cn_connectionId c) USER_NEWINFO ui))))
            (thenA (handlePadUserInfo padId ui)
            (thenA (serverCall (OnUserInfoChange padId ui))
               (view_updateUserInfo padId ui))))"
  have p: "preserves (same k) (?rest cid updating)" if "obj_get (sv_attributes s) sid = Some cid" for cid updating
    by (intro pres keeps keeps_data [OF assms(1)]) (use that s assms(2) in \<open>auto simp: skeleton_def\<close>)
  have "skeleton (snd (?rest cid updating s)) = k" if "obj_get (sv_attributes s) sid = Some cid" for cid updating
    using p [OF that, of updating] s by (simp add: preserves_def)
  note r = this
  show "skeleton (snd (updateDocumentConnectionUserInfo padId sid ui s)) = k"
  proof (cases "\<exists>cid c. obj_get (sv_attributes s) sid = Some cid \<and> cid \<noteq> '''' \<and> obj_get (sv_allConnections s) cid = Some c")
    case True
    then obtain cid c where c: "obj_get (sv_attributes s) sid = Some cid" "cid \<noteq> ''''"
      "obj_get (sv_allConnections s) cid = Some c" by blast
    then have "updateDocumentConnectionUserInfo padId sid ui s = ?rest cid c s"
      by (simp add: updateDocumentConnectionUserInfo_def getSocketConnectionId_def getConnection_def bind_getA truthy_def)
    then show ?thesis using r [OF c(1), of c] by simp
  next
    case False
    then show ?thesis using s
      by (auto simp: updateDocumentConnectionUserInfo_def getSocketConnectionId_def getConnection_def bind_getA
        whenA_def truthy_def ret_def throwA_def split: option.split)
  qed
qed

end
