(* ===== verification/RoomRuns.thy ===== *)
theory RoomRuns
  imports RoomLaws
begin

text \<open>
  Joining and leaving, and the runs of the server: \<open>rooms_ok\<close> holds after any sequence of requests and
  tasks, however each of them ends. Then what the rooms do not guarantee: who may join.
\<close>

subsection \<open>Well-formed rooms\<close>

text \<open>
  \<open>tables\<close>: no room is empty or lists a connection twice; the connections of a room are there and belong
  to it, and each connection is in its room, under its own id, which is its socket's. \<open>once\<close>: two
  connections of a room, apart from those in \<open>X\<close>, belong to different users.
\<close>

definition tables :: "skeleton \<Rightarrow> bool" where
  "tables k = (case k of (rooms, attrs, mem) \<Rightarrow>
     (\<forall>n r. obj_get rooms n = Some r \<longrightarrow> ro_connections r \<noteq> [] \<and> distinct (ro_connections r) \<and>
        (\<forall>cid \<in> set (ro_connections r). \<exists>x. mem cid = Some x \<and> fst x = n)) \<and>
     (\<forall>cid n i so u. mem cid = Some (n, i, so, u) \<longrightarrow> i = cid \<and> so = cid \<and>
        (\<exists>r. obj_get rooms n = Some r \<and> cid \<in> set (ro_connections r))) \<and>
     (\<forall>a v. obj_get attrs a = Some v \<longrightarrow> v = a))"

definition once :: "string set \<Rightarrow> skeleton \<Rightarrow> bool" where
  "once X k = (\<forall>cid cid' n u i so i' so'. snd (snd k) cid = Some (n, i, so, u) \<longrightarrow>
     snd (snd k) cid' = Some (n, i', so', u) \<longrightarrow> cid \<notin> X \<longrightarrow> cid' \<notin> X \<longrightarrow> cid = cid')"

definition rooms_ok :: "skeleton \<Rightarrow> bool" where
  "rooms_ok k = (tables k \<and> once {} k)"

lemma tables_keyed: "tables k \<Longrightarrow> keyed k"
  by (fastforce simp: tables_def keyed_def split: prod.splits)

locale room_condition =
  fixes I :: "skeleton \<Rightarrow> bool"
  assumes keyed: "I k \<Longrightarrow> keyed k"
begin

lemma kept: "(\<And>k. I k \<Longrightarrow> preserves (same k) m) \<Longrightarrow> preserves (\<lambda>s. I (skeleton s)) m"
  unfolding preserves_def by metis

lemma pads: "preserves (\<lambda>s. I (skeleton s)) (applyUserChanges padId b cs sid a)"
  "preserves (\<lambda>s. I (skeleton s)) (applyMissedChanges padId mc)"
  "preserves (\<lambda>s. I (skeleton s)) (applyChangesetToPad padId cs)"
  "preserves (\<lambda>s. I (skeleton s)) (appendPadText padId t)"
  "preserves (\<lambda>s. I (skeleton s)) (setPadText padId t)"
  "preserves (\<lambda>s. I (skeleton s)) (setPadAText padId at)"
  by (rule kept, (rule keeps keeps_serverTexts), erule keyed)+

lemma messages: "preserves (\<lambda>s. I (skeleton s)) (guestKnock padId g n)"
  "preserves (\<lambda>s. I (skeleton s)) (broadcastServerMessage m)"
  "preserves (\<lambda>s. I (skeleton s)) (broadcastNewRevision padId ob)"
  by (rule kept, rule keeps)+

lemma access: "(\<And>k. preserves (same k) f) \<Longrightarrow> preserves (\<lambda>s. I (skeleton s)) (accessPad padId mode f)"
  by (rule kept, rule keeps)

end

interpretation rooms: room_condition rooms_ok
  by unfold_locales (simp add: rooms_ok_def tables_keyed)

subsection \<open>Leaving and joining\<close>

definition gone :: "string \<Rightarrow> string \<Rightarrow> skeleton \<Rightarrow> skeleton" where
  "gone n cid k = (case k of (rooms, attrs, mem) \<Rightarrow>
     ((case obj_get rooms n of
         None \<Rightarrow> rooms
       | Some r \<Rightarrow>
           if removeAll cid (ro_connections r) = [] then obj_delete rooms n
           else obj_put rooms n (r\<lparr>ro_connections := removeAll cid (ro_connections r)\<rparr>)),
      attrs, mem(cid := None)))"

definition joined :: "string \<Rightarrow> string \<Rightarrow> string \<Rightarrow> string \<Rightarrow> skeleton \<Rightarrow> skeleton" where
  "joined n ty cid u k = (case k of (rooms, attrs, mem) \<Rightarrow>
     (let r = (case obj_get rooms n of None \<Rightarrow> \<lparr>ro_connections = [], ro_type = ty\<rparr> | Some r \<Rightarrow> r)
      in obj_put rooms n (r\<lparr>ro_connections := addMember cid (ro_connections r)\<rparr>),
      attrs, mem(cid := Some (n, cid, cid, u))))"

lemma obj_put_put: "obj_put (obj_put ob k v) k w = obj_put ob k w"
  unfolding obj_put_def by (induction ob) auto

lemma skeleton_remove:
  "skeleton (snd (removeConnection c s)) = gone (cn_roomName c) (cn_connectionId c) (skeleton s) \<and>
   fst (removeConnection c s) = Inr ()"
  by (auto simp: removeConnection_def thenA_def bindA_def modA_def Let_def skeleton_def gone_def member_def fun_eq_iff
    split: option.split)

lemma skeleton_put:
  assumes "ty \<noteq> ''''" and "cn_socketId c = cn_connectionId c"
  shows "skeleton (snd (putConnection c (Some ty) s)) =
      joined (cn_roomName c) ty (cn_connectionId c) (userId c) (skeleton s) \<and>
    fst (putConnection c (Some ty) s) = Inr ()"
  using assms
  by (cases "obj_get (sv_rooms s) (cn_roomName c)")
    (auto simp: putConnection_def runs modA_def truthy_def Let_def skeleton_def
      joined_def member_def membership_def fun_eq_iff obj_put_put)

lemma gone_tables:
  assumes t: "tables k" and c: "snd (snd k) cid = Some (n, i, so, u)"
  shows "tables (gone n cid k)"
proof -
  obtain rooms attrs mem where k: "k = (rooms, attrs, mem)" by (cases k)
  from t k have t1: "\<And>n r. obj_get rooms n = Some r \<Longrightarrow> ro_connections r \<noteq> [] \<and> distinct (ro_connections r) \<and>
      (\<forall>cid \<in> set (ro_connections r). \<exists>x. mem cid = Some x \<and> fst x = n)"
    and t2: "\<And>cid n i so u. mem cid = Some (n, i, so, u) \<Longrightarrow> i = cid \<and> so = cid \<and>
      (\<exists>r. obj_get rooms n = Some r \<and> cid \<in> set (ro_connections r))"
    and t3: "\<And>a v. obj_get attrs a = Some v \<Longrightarrow> v = a" by (auto simp: tables_def)
  obtain r where r: "obj_get rooms n = Some r" using t2 [of cid n i so u] c k by auto
  have d: "distinct (removeAll x (ro_connections r))" for x using t1 [OF r] by (simp add: distinct_removeAll)
  let ?g = "gone n cid k"
  have mem': "snd (snd ?g) = mem(cid := None)" "fst (snd ?g) = attrs" by (simp_all add: gone_def k)
  have rooms': "obj_get (fst ?g) m = (if m = n then (if removeAll cid (ro_connections r) = [] then None
      else Some (r\<lparr>ro_connections := removeAll cid (ro_connections r)\<rparr>)) else obj_get rooms m)" for m
    by (simp add: gone_def k r)
  have 1: "ro_connections r' \<noteq> [] \<and> distinct (ro_connections r') \<and>
      (\<forall>cid' \<in> set (ro_connections r'). \<exists>x. snd (snd ?g) cid' = Some x \<and> fst x = m)"
    if "obj_get (fst ?g) m = Some r'" for m r'
  proof (cases "m = n")
    case True
    with that have "r' = r\<lparr>ro_connections := removeAll cid (ro_connections r)\<rparr>" "removeAll cid (ro_connections r) \<noteq> []"
      by (auto simp: rooms' split: if_splits)
    with True t1 [OF r] d show ?thesis by (auto simp: mem')
  next
    case False
    with that have r': "obj_get rooms m = Some r'" by (simp add: rooms')
    have "cid \<notin> set (ro_connections r')"
    proof
      assume "cid \<in> set (ro_connections r')"
      with t1 [OF r'] obtain x where "mem cid = Some x" "fst x = m" by blast
      with c k False show False by simp
    qed
    with t1 [OF r'] show ?thesis by (auto simp: mem')
  qed
  have 2: "i' = cid' \<and> so' = cid' \<and> (\<exists>r'. obj_get (fst ?g) m = Some r' \<and> cid' \<in> set (ro_connections r'))"
    if "snd (snd ?g) cid' = Some (m, i', so', u')" for cid' m i' so' u'
  proof -
    from that have m: "mem cid' = Some (m, i', so', u')" "cid' \<noteq> cid" by (auto simp: mem' split: if_splits)
    then obtain r' where r': "obj_get rooms m = Some r'" "cid' \<in> set (ro_connections r')" using t2 by blast
    have "\<exists>r'. obj_get (fst ?g) m = Some r' \<and> cid' \<in> set (ro_connections r')"
    proof (cases "m = n")
      case True
      with r' r m(2) have "cid' \<in> set (removeAll cid (ro_connections r))" by simp
      then have "removeAll cid (ro_connections r) \<noteq> []" by (metis empty_iff empty_set)
      with True \<open>cid' \<in> set (removeAll cid (ro_connections r))\<close> show ?thesis by (simp add: rooms')
    next
      case False
      with r' show ?thesis by (simp add: rooms')
    qed
    with t2 [OF m(1)] show ?thesis by blast
  qed
  have "tables (fst ?g, fst (snd ?g), snd (snd ?g))"
    unfolding tables_def prod.case using 1 2 t3 mem'(2) by blast
  then show ?thesis by simp
qed

lemma gone_once: "once X k \<Longrightarrow> once X (gone n cid k)"
  by (cases k) (fastforce simp: once_def gone_def split: if_splits)

lemma joined_tables:
  assumes t: "tables k" and c: "snd (snd k) cid = None"
  shows "tables (joined n ty cid u k)"
proof -
  obtain rooms attrs mem where k: "k = (rooms, attrs, mem)" by (cases k)
  from t k have t1: "\<And>n r. obj_get rooms n = Some r \<Longrightarrow> ro_connections r \<noteq> [] \<and> distinct (ro_connections r) \<and>
      (\<forall>cid \<in> set (ro_connections r). \<exists>x. mem cid = Some x \<and> fst x = n)"
    and t2: "\<And>cid n i so u. mem cid = Some (n, i, so, u) \<Longrightarrow> i = cid \<and> so = cid \<and>
      (\<exists>r. obj_get rooms n = Some r \<and> cid \<in> set (ro_connections r))"
    and t3: "\<And>a v. obj_get attrs a = Some v \<Longrightarrow> v = a" by (auto simp: tables_def)
  define old where "old = (case obj_get rooms n of None \<Rightarrow> [] | Some r \<Rightarrow> ro_connections r)"
  have o: "distinct old" "\<And>cid'. cid' \<in> set old \<Longrightarrow> \<exists>x. mem cid' = Some x \<and> fst x = n"
    using t1 by (cases "obj_get rooms n"; fastforce simp: old_def)+
  have new: "cid \<notin> set old" using o(2) [of cid] c k by auto
  let ?g = "joined n ty cid u k"
  have mem': "snd (snd ?g) = mem(cid := Some (n, cid, cid, u))" "fst (snd ?g) = attrs" by (simp_all add: joined_def k)
  obtain r0 where r0: "obj_get (fst ?g) n = Some r0" "ro_connections r0 = old @ [cid]"
    using new by (auto simp: joined_def k Let_def old_def addMember_def split: option.splits)
  have rooms': "m \<noteq> n \<Longrightarrow> obj_get (fst ?g) m = obj_get rooms m" for m by (simp add: joined_def k Let_def)
  have 1: "ro_connections r' \<noteq> [] \<and> distinct (ro_connections r') \<and>
      (\<forall>cid' \<in> set (ro_connections r'). \<exists>x. snd (snd ?g) cid' = Some x \<and> fst x = m)"
    if "obj_get (fst ?g) m = Some r'" for m r'
  proof (cases "m = n")
    case True
    with that r0 have "ro_connections r' = old @ [cid]" by simp
    with True o new show ?thesis by (auto simp: mem')
  next
    case False
    with that have r': "obj_get rooms m = Some r'" by (simp add: rooms')
    have "cid \<notin> set (ro_connections r')" using t1 [OF r'] c k by auto
    with t1 [OF r'] show ?thesis by (auto simp: mem')
  qed
  have 2: "i' = cid' \<and> so' = cid' \<and> (\<exists>r'. obj_get (fst ?g) m = Some r' \<and> cid' \<in> set (ro_connections r'))"
    if a: "snd (snd ?g) cid' = Some (m, i', so', u')" for cid' m i' so' u'
  proof (cases "cid' = cid")
    case True
    with a r0 show ?thesis by (auto simp: mem')
  next
    case False
    with a have m: "mem cid' = Some (m, i', so', u')" by (simp add: mem')
    then obtain r' where r': "obj_get rooms m = Some r'" "cid' \<in> set (ro_connections r')" using t2 by blast
    have "\<exists>r'. obj_get (fst ?g) m = Some r' \<and> cid' \<in> set (ro_connections r')"
      by (cases "m = n") (use r' r0 in \<open>auto simp: rooms' old_def\<close>)
    with t2 [OF m] show ?thesis by blast
  qed
  have "tables (fst ?g, fst (snd ?g), snd (snd ?g))"
    unfolding tables_def prod.case using 1 2 t3 mem'(2) by blast
  then show ?thesis by simp
qed

lemma joined_once: "once {} k \<Longrightarrow> once {cid} (joined n ty cid u k)"
  by (cases k) (fastforce simp: once_def joined_def split: if_splits)

subsection \<open>Booting\<close>

text \<open>
  \<open>ends m I Q s\<close>: from \<open>s\<close>, \<open>m\<close> returns in a state with \<open>Q\<close> or throws in one with \<open>I\<close>.
\<close>

definition ends :: "('s, 'a) act \<Rightarrow> ('s \<Rightarrow> bool) \<Rightarrow> ('a \<Rightarrow> 's \<Rightarrow> bool) \<Rightarrow> 's \<Rightarrow> bool" where
  "ends m I Q s = (case m s of (Inl _, t) \<Rightarrow> I t | (Inr x, t) \<Rightarrow> Q x t)"

lemma ends_bind: "ends (bindA m f) I Q s = ends m I (\<lambda>x. ends (f x) I Q) s"
  by (auto simp: ends_def bindA_def split: prod.splits sum.splits)

lemma ends_then: "ends (thenA m n) I Q s = ends m I (\<lambda>_. ends n I Q) s"
  by (simp add: thenA_def ends_bind)

lemma ends_ret: "ends (ret x) I Q s = Q x s"
  by (simp add: ends_def ret_def)

lemma ends_mod: "ends (modA f) I Q s = Q () (f s)"
  by (simp add: ends_def modA_def)

lemma ends_get: "ends (getA f) I Q s = Q (f s) s"
  by (simp add: ends_def getA_def)

lemma ends_mono: "ends m J P s \<Longrightarrow> (\<And>t. J t \<Longrightarrow> I t) \<Longrightarrow> (\<And>x t. P x t \<Longrightarrow> Q x t) \<Longrightarrow> ends m I Q s"
  by (auto simp: ends_def split: prod.splits sum.splits)

lemma ends_preserves: "preserves J m \<Longrightarrow> J s \<Longrightarrow> ends m J (\<lambda>_. J) s"
  by (auto simp: ends_def dest: preservesD [of J m s] split: prod.splits sum.splits)

lemma ends_preservesI: "(\<And>s. J s \<Longrightarrow> ends m J (\<lambda>_. J) s) \<Longrightarrow> preserves J m"
  unfolding preserves_def ends_def by (fastforce split: prod.splits sum.splits)

lemma ends_same: "preserves (same (skeleton s)) m \<Longrightarrow> (\<And>t. skeleton t = skeleton s \<Longrightarrow> I t) \<Longrightarrow>
    (\<And>x t. skeleton t = skeleton s \<Longrightarrow> Q x t) \<Longrightarrow> ends m I Q s"
  using ends_mono [OF ends_preserves [of "same (skeleton s)" m s]] by blast

lemmas ends_steps = ends_bind ends_then ends_ret ends_mod ends_get

lemma callbacks_pure: "\<exists>cb. getCallbacksForRoom r ty0 s = (Inr cb, s)"
  by (auto simp: getCallbacksForRoom_def bindA_def getA_def ret_def)

text \<open>A connection that leaves is gone before anything can fail.\<close>

lemma removeRoom_ends:
  assumes "keyed (skeleton s)" and "obj_get (sv_allConnections s) cid = Some c"
  shows "ends (removeRoomConnection cid) (same (gone (cn_roomName c) cid (skeleton s)))
    (\<lambda>_. same (gone (cn_roomName c) cid (skeleton s))) s"
proof -
  have id: "cn_connectionId c = cid"
  proof -
    have "snd (snd (skeleton s)) cid = Some (membership c)" using assms(2) by (simp add: skeleton_def member_def)
    from assms(1) [unfolded keyed_def, rule_format, OF this] show ?thesis by (simp add: membership_def)
  qed
  let ?k = "gone (cn_roomName c) cid (skeleton s)"
  obtain t where t: "removeConnection c s = (Inr (), t)" "skeleton t = ?k"
    using skeleton_remove [of c s] id by (cases "removeConnection c s") auto
  have rest: "ends (thenA (bindA (getRoomConnections (cn_roomName c)) (forA (\<lambda>x. extroduceUsers cb c x)))
      (onRemoveConnection cb (cn_data c))) (same ?k) (\<lambda>_. same ?k) t" for cb
    by (rule ends_preserves [where J = "same ?k"], intro pres keeps) (rule t(2))
  obtain cb where cb: "getCallbacksForRoom (cn_roomName c) None s = (Inr cb, s)" using callbacks_pure by blast
  have "removeRoomConnection cid s = thenA (removeConnection c)
      (thenA (bindA (getRoomConnections (cn_roomName c)) (forA (\<lambda>x. extroduceUsers cb c x)))
        (onRemoveConnection cb (cn_data c))) s"
    using assms(2) by (simp add: removeRoomConnection_def getConnection_def bind_getA bind_run [where t = s and x = cb] cb)
  also have "\<dots> = thenA (bindA (getRoomConnections (cn_roomName c)) (forA (\<lambda>x. extroduceUsers cb c x)))
        (onRemoveConnection cb (cn_data c)) t"
    by (simp add: then_run [where t = t and x = "()"] t(1))
  finally show ?thesis using rest [of cb] by (simp add: ends_def)
qed

lemma removeRoom_none: "obj_get (sv_allConnections s) cid = None \<Longrightarrow> removeRoomConnection cid s = (Inr (), s)"
  by (simp add: removeRoomConnection_def getConnection_def bind_getA ret_def)

lemma boot_ends:
  assumes "keyed (skeleton s)" and "obj_get (sv_allConnections s) cid = Some c"
  shows "ends (bootConnection cid reason) (same (gone (cn_roomName c) cid (skeleton s)))
    (\<lambda>_. same (gone (cn_roomName c) cid (skeleton s))) s"
proof -
  obtain t where t: "bootSocket (cn_socketId c) reason s = (Inr (), t)" "skeleton t = skeleton s"
    "sv_allConnections t = sv_allConnections s"
    by (auto simp: bootSocket_def sendMessageToSocket_def cometCall_def runs modA_def)
  have "bootConnection cid reason s = removeRoomConnection cid t"
    using assms(2) t(1) by (simp add: bootConnection_def getConnection_def bind_getA then_run [where t = t and x = "()"])
  moreover have "ends (removeRoomConnection cid) (same (gone (cn_roomName c) cid (skeleton s)))
      (\<lambda>_. same (gone (cn_roomName c) cid (skeleton s))) t"
    using removeRoom_ends [of t cid c] assms t(2,3) by simp
  ultimately show ?thesis by (simp add: ends_def)
qed

lemma boot_none: "obj_get (sv_allConnections s) cid = None \<Longrightarrow> bootConnection cid reason s = (Inr (), s)"
  by (simp add: bootConnection_def getConnection_def bind_getA ret_def)

lemma stored:
  "snd (snd (skeleton s)) cid = None \<longleftrightarrow> obj_get (sv_allConnections s) cid = None"
  "obj_get (sv_allConnections s) cid = Some c \<Longrightarrow> snd (snd (skeleton s)) cid = Some (membership c)"
  by (simp_all add: skeleton_def member_def)

lemma gone_mem: "snd (snd (gone n cid k)) = (snd (snd k))(cid := None)"
  by (cases k) (simp add: gone_def)

lemma gone_ok: "rooms_ok k \<Longrightarrow> snd (snd k) cid = Some (n, i, so, u) \<Longrightarrow> rooms_ok (gone n cid k)"
  unfolding rooms_ok_def by (blast intro: gone_tables gone_once)

lemma boot_ok:
  assumes "rooms_ok (skeleton s)"
  shows "ends (bootConnection cid reason) (\<lambda>t. rooms_ok (skeleton t))
    (\<lambda>_ t. rooms_ok (skeleton t) \<and> snd (snd (skeleton t)) cid = None) s"
proof (cases "obj_get (sv_allConnections s) cid")
  case None
  then show ?thesis using assms stored(1) by (simp add: ends_def boot_none)
next
  case (Some c)
  then have "rooms_ok (gone (cn_roomName c) cid (skeleton s))"
    using gone_ok [OF assms] stored(2) [OF Some] by (simp add: membership_def)
  then show ?thesis
    by (intro ends_mono [OF boot_ends [OF rooms.keyed [OF assms] Some]]) (simp_all add: gone_mem)
qed

lemma removeRoom_ok: "preserves (\<lambda>s. rooms_ok (skeleton s)) (removeRoomConnection cid)"
proof (rule ends_preservesI)
  fix s
  assume s: "rooms_ok (skeleton s)"
  show "ends (removeRoomConnection cid) (\<lambda>s. rooms_ok (skeleton s)) (\<lambda>_ s. rooms_ok (skeleton s)) s"
  proof (cases "obj_get (sv_allConnections s) cid")
    case None
    then show ?thesis using s by (simp add: ends_def removeRoom_none)
  next
    case (Some c)
    then have "rooms_ok (gone (cn_roomName c) cid (skeleton s))"
      using gone_ok [OF s] stored(2) [OF Some] by (simp add: membership_def)
    then show ?thesis by (intro ends_mono [OF removeRoom_ends [OF rooms.keyed [OF s] Some]]) simp_all
  qed
qed

subsection \<open>Joining a room\<close>

text \<open>
  While the members \<open>cs\<close> of the room have yet to be met, the user may also be there under one of their
  connections.
\<close>

definition joining :: "string \<Rightarrow> string \<Rightarrow> string \<Rightarrow> connection list \<Rightarrow> skeleton \<Rightarrow> bool" where
  "joining n u cid cs k =
     (tables k \<and> once {cid} k \<and> snd (snd k) cid = Some (n, cid, cid, u) \<and>
      (\<forall>c \<in> set cs. \<forall>x. snd (snd k) (cn_connectionId c) = Some x \<longrightarrow> x = membership c \<and> cn_roomName c = n) \<and>
      (\<forall>cid' i so. cid' \<noteq> cid \<longrightarrow> snd (snd k) cid' = Some (n, i, so, u) \<longrightarrow> cid' \<in> cn_connectionId ` set cs))"

lemma joining_done:
  assumes "joining n u cid [] k"
  shows "rooms_ok k"
proof -
  from assms have t: "tables k" "once {cid} k" "snd (snd k) cid = Some (n, cid, cid, u)"
    and none: "\<And>cid' i so. cid' \<noteq> cid \<Longrightarrow> snd (snd k) cid' \<noteq> Some (n, i, so, u)"
    by (auto simp: joining_def)
  have "a = b" if m: "snd (snd k) a = Some (m, i, so, v)" "snd (snd k) b = Some (m, i', so', v)" for a b m i so v i' so'
  proof (cases "a = cid \<or> b = cid")
    case True
    with m t(3) have "m = n \<and> v = u" by auto
    with m none True show ?thesis by metis
  next
    case False
    with t(2) m show ?thesis unfolding once_def by blast
  qed
  with t(1) show ?thesis unfolding rooms_ok_def once_def by blast
qed

lemma tables_mem: "tables k \<Longrightarrow> snd (snd k) cid = Some (n, i, so, u) \<Longrightarrow> i = cid \<and> so = cid"
  by (cases k) (fastforce simp: tables_def)

lemma joining_skip:
  assumes "joining n u cid (c # cs) k"
    and "cn_socketId c = cid \<or> userId c \<noteq> u \<or> snd (snd k) (cn_connectionId c) = None"
  shows "joining n u cid cs k"
proof -
  have "cid' \<in> cn_connectionId ` set cs" if "cid' \<noteq> cid" "snd (snd k) cid' = Some (n, i, so, u)" for cid' i so
  proof -
    have "cid' \<noteq> cn_connectionId c"
    proof
      assume e: "cid' = cn_connectionId c"
      with assms(1) that(2) have m: "(n, i, so, u) = membership c" by (auto simp: joining_def)
      have "tables k" using assms(1) by (simp add: joining_def)
      from tables_mem [OF this that(2)] have "so = cid'" by simp
      with m e assms(2) that show False by (auto simp: membership_def)
    qed
    with assms(1) that show ?thesis by (auto simp: joining_def)
  qed
  with assms(1) show ?thesis by (auto simp: joining_def)
qed

lemma joining_boot:
  assumes j: "joining n u cid (c # cs) k" and "cn_socketId c \<noteq> cid" and "userId c = u"
    and m: "snd (snd k) (cn_connectionId c) \<noteq> None"
  shows "joining n u cid cs (gone (cn_roomName c) (cn_connectionId c) k)"
    and "joining n u cid [] (gone (cn_roomName c) (cn_connectionId c) k)"
proof -
  let ?id = "cn_connectionId c"
  have mc: "snd (snd k) ?id = Some (membership c)" "cn_roomName c = n" using j m by (auto simp: joining_def)
  then have mc': "snd (snd k) ?id = Some (n, ?id, cn_socketId c, u)" using assms(3) by (simp add: membership_def)
  have t: "tables k" using j by (simp add: joining_def)
  have ne: "?id \<noteq> cid" using tables_mem [OF t mc'] assms(2) by simp
  have only: "cid' = ?id" if "cid' \<noteq> cid" "snd (snd k) cid' = Some (n, i, so, u)" for cid' i so
    using j mc' ne that unfolding joining_def once_def by (metis singletonD)
  have g: "tables (gone n ?id k)" "once {cid} (gone n ?id k)"
    using gone_tables [OF t mc'] gone_once j by (auto simp: joining_def)
  show "joining n u cid [] (gone (cn_roomName c) ?id k)"
    using j g ne only unfolding joining_def mc(2) gone_mem by auto
  then show "joining n u cid cs (gone (cn_roomName c) ?id k)"
    using j unfolding joining_def gone_mem by auto
qed

lemma meet_ends:
  assumes j: "joining n u cid (c # cs) (skeleton s)"
    and conn: "cn_socketId conn = cid" "userId conn = u"
  shows "ends (meetConnection cb conn c) (\<lambda>t. rooms_ok (skeleton t)) (\<lambda>_ t. joining n u cid cs (skeleton t)) s"
proof (cases "cn_socketId c = cid \<or> userId c \<noteq> u")
  case True
  then have js: "joining n u cid cs (skeleton s)" using joining_skip [OF j] by blast
  show ?thesis
  proof (cases "cn_socketId c = cid")
    case True
    then show ?thesis using js conn by (simp add: meetConnection_def ends_ret)
  next
    case False
    with True have "meetConnection cb conn c = introduceUsers cb conn c"
      using conn by (auto simp: meetConnection_def)
    moreover have "ends (introduceUsers cb conn c) (\<lambda>t. False) (\<lambda>_ t. joining n u cid cs (skeleton t)) s"
    proof -
      have "\<exists>t. introduceUsers cb conn c s = (Inr (), t)"
        by (cases cb) (auto simp: introduceUsers_def sendUserInfoMessage_def sendMessage_def sendMessageToSocket_def
          cometCall_def serverCall_def env_def getConnection_def thenA_def bindA_def getA_def modA_def ret_def whenA_def
          split: option.split)
      then obtain t where t: "introduceUsers cb conn c s = (Inr (), t)" by blast
      have "skeleton t = skeleton s"
        using preservesD [where I = "same (skeleton s)", OF keeps_introduce _ t] by simp
      with t js show ?thesis by (simp add: ends_def)
    qed
    ultimately show ?thesis by (simp add: ends_mono [where J = "\<lambda>_. False"])
  qed
next
  case False
  then have m: "meetConnection cb conn c = bootConnection (cn_connectionId c) (Some ''userdup'')"
    using conn by (simp add: meetConnection_def)
  have k: "keyed (skeleton s)" using j by (simp add: joining_def tables_keyed)
  show ?thesis
  proof (cases "obj_get (sv_allConnections s) (cn_connectionId c)")
    case None
    have "joining n u cid cs (skeleton s)" by (rule joining_skip [OF j]) (use None stored(1) in simp)
    with None show ?thesis by (simp add: m ends_def boot_none)
  next
    case (Some c')
    have mc: "snd (snd (skeleton s)) (cn_connectionId c) = Some (membership c')" by (rule stored(2) [OF Some])
    then have "membership c' = membership c" using j by (auto simp: joining_def)
    then have "cn_roomName c' = cn_roomName c" by (simp add: membership_def)
    with joining_boot [OF j] False mc joining_done show ?thesis
      unfolding m by (intro ends_mono [OF boot_ends [OF k Some]]) auto
  qed
qed

lemma meet_all_ends:
  assumes "joining n u cid cs (skeleton s)" and conn: "cn_socketId conn = cid" "userId conn = u"
  shows "ends (forA (meetConnection cb conn) cs) (\<lambda>t. rooms_ok (skeleton t))
    (\<lambda>_ t. joining n u cid [] (skeleton t)) s"
  using assms(1)
proof (induction cs arbitrary: s)
  case Nil
  then show ?case by (simp add: ends_ret)
next
  case (Cons c cs)
  show ?case
    unfolding forA.simps ends_then
    by (rule ends_mono [OF meet_ends [OF Cons.prems conn]]) (simp_all add: Cons.IH)
qed

lemma joining_start:
  assumes ok: "rooms_ok k" and new: "snd (snd k) cid = None" and s: "skeleton s = joined n ty cid u k"
  shows "joining n u cid (roomMembers s n) (skeleton s)"
proof -
  have t: "tables (skeleton s)" "once {cid} (skeleton s)"
    using ok new joined_tables joined_once unfolding s rooms_ok_def by blast+
  have m: "snd (snd (skeleton s)) cid = Some (n, cid, cid, u)" by (cases k) (simp add: s joined_def)
  obtain r where r: "obj_get (sv_rooms s) n = Some r"
    using s by (cases k) (auto simp: skeleton_def joined_def Let_def)
  have t1: "\<And>c. c \<in> set (ro_connections r) \<Longrightarrow> \<exists>x. member s c = Some x \<and> fst x = n"
    and t2: "\<And>cid i so u. member s cid = Some (n, i, so, u) \<Longrightarrow> cid \<in> set (ro_connections r)"
    using t(1) r unfolding tables_def skeleton_def prod.case by (blast, fastforce)
  have cs: "c \<in> set (roomMembers s n) \<longleftrightarrow> (\<exists>id \<in> set (ro_connections r). obj_get (sv_allConnections s) id = Some c)" for c
    using r by (auto simp: in_roomMembers)
  have k: "cn_connectionId c = id" if "obj_get (sv_allConnections s) id = Some c" for id c
    using tables_keyed [OF t(1)] stored(2) [OF that] by (fastforce simp: keyed_def membership_def)
  have "x = membership c \<and> cn_roomName c = n"
    if "c \<in> set (roomMembers s n)" "snd (snd (skeleton s)) (cn_connectionId c) = Some x" for c x
  proof -
    from that(1) cs obtain id where id: "id \<in> set (ro_connections r)" "obj_get (sv_allConnections s) id = Some c" by blast
    with that(2) k [OF id(2)] t1 [OF id(1)] show ?thesis by (auto simp: skeleton_def member_def membership_def)
  qed
  moreover have "cid' \<in> cn_connectionId ` set (roomMembers s n)" if "snd (snd (skeleton s)) cid' = Some (n, i, so, u)"
    for cid' i so
  proof -
    from that have mm: "member s cid' = Some (n, i, so, u)" by (simp add: skeleton_def)
    then obtain c where c: "obj_get (sv_allConnections s) cid' = Some c" by (auto simp: member_def)
    with t2 [OF mm] cs k [OF c] show ?thesis by force
  qed
  ultimately show ?thesis using t m unfolding joining_def by blast
qed

lemma addRoomConnection_ends:
  assumes "rooms_ok (skeleton s)" and "ty \<noteq> ''''"
  shows "ends (addRoomConnection n ty cid cid data) (\<lambda>t. rooms_ok (skeleton t))
    (\<lambda>c t. rooms_ok (skeleton t) \<and> cn_connectionId c = cid \<and>
       snd (snd (skeleton t)) cid = Some (n, cid, cid, userId c)) s"
proof -
  let ?conn = "\<lparr>cn_roomName = n, cn_connectionId = cid, cn_socketId = cid, cn_data = data\<rparr>"
  let ?u = "userId ?conn"
  let ?I = "\<lambda>t. rooms_ok (skeleton t)"
  let ?Q = "\<lambda>c t. rooms_ok (skeleton t) \<and> cn_connectionId c = cid \<and>
       snd (snd (skeleton t)) cid = Some (n, cid, cid, userId c)"
  let ?s1 = "s\<lparr>sv_attributes := obj_put (sv_attributes s) cid cid\<rparr>"
  obtain cb where cb: "getCallbacksForRoom n (Some ty) s = (Inr cb, s)" using callbacks_pure by blast
  have s1: "rooms_ok (skeleton ?s1)"
    using assms(1) by (auto simp: rooms_ok_def tables_def once_def skeleton_def member_def)
  have tail: "ends (thenA (onAddConnection cb data) (ret ?conn)) ?I ?Q t"
    if t: "joining n ?u cid [] (skeleton t)" for t
    unfolding ends_then
    by (rule ends_same [OF keeps_onAdd])
      (use joining_done [OF t] t in \<open>simp_all add: ends_ret joining_def\<close>)
  have "ends (thenA (putConnection ?conn (Some ty))
     (thenA (bindA (getRoomConnections n) (forA (meetConnection cb ?conn)))
     (thenA (onAddConnection cb data) (ret ?conn)))) ?I ?Q t"
    if t: "rooms_ok (skeleton t)" "snd (snd (skeleton t)) cid = None" for t
  proof -
    obtain t' where t': "putConnection ?conn (Some ty) t = (Inr (), t')"
      "skeleton t' = joined n ty cid ?u (skeleton t)"
      using skeleton_put [OF assms(2), of ?conn t] by (cases "putConnection ?conn (Some ty) t") auto
    have "ends (thenA (bindA (getRoomConnections n) (forA (meetConnection cb ?conn)))
       (thenA (onAddConnection cb data) (ret ?conn))) ?I ?Q t'"
      unfolding ends_then [of "bindA _ _"] ends_bind getRoomConnections_def ends_get
      by (rule ends_mono [OF meet_all_ends [OF joining_start [OF t t'(2)]]]) (simp_all add: tail)
    then show ?thesis by (simp add: ends_def then_run [where t = t' and x = "()"] t'(1))
  qed
  then have "ends (thenA (bootConnection cid (Some ''userdup''))
     (thenA (putConnection ?conn (Some ty))
     (thenA (bindA (getRoomConnections n) (forA (meetConnection cb ?conn)))
     (thenA (onAddConnection cb data) (ret ?conn))))) ?I ?Q ?s1"
    unfolding ends_then [of "bootConnection _ _"] by (intro ends_mono [OF boot_ok [OF s1]]) auto
  then show ?thesis
    by (simp add: ends_def addRoomConnection_def bind_run [where t = s and x = cb] cb runs Let_def)
qed

subsection \<open>Requests and tasks\<close>

lemma ends_keeps:
  assumes "\<And>k. rooms_ok k \<Longrightarrow> preserves (same k) m" and "rooms_ok (skeleton s)"
  shows "ends m (\<lambda>t. rooms_ok (skeleton t)) (\<lambda>_ t. skeleton t = skeleton s) s"
  by (rule ends_same [OF assms(1) [OF assms(2)]]) (simp_all add: assms(2))

lemma handleClientReady_ok: "preserves (\<lambda>s. rooms_ok (skeleton s)) (handleClientReady cid ty n data)"
proof (rule ends_preservesI)
  fix s
  assume s: "rooms_ok (skeleton s)"
  let ?I = "\<lambda>t. rooms_ok (skeleton t)"
  have req: "ends (requireTruthy sid b) ?I (\<lambda>_ t. b \<and> Q t) t" if "?I t" "\<And>t. ?I t \<Longrightarrow> Q t" for sid b Q t
  proof (cases b)
    case True
    then show ?thesis using that by (simp add: requireTruthy_def ends_ret)
  next
    case False
    have "ends (requireTruthy sid b) ?I (\<lambda>_ t. ?I t \<and> False) t"
    proof -
      have "preserves ?I (requireTruthy sid b)" by (rule rooms.kept) (rule keeps)
      then have "?I (snd (requireTruthy sid b t))" using that(1) by (simp add: preserves_def)
      moreover have "\<exists>e t'. requireTruthy sid b t = (Inl e, t')"
        using False by (auto simp: requireTruthy_def stopResponse_def serverCall_def cometCall_def runs throwA_def)
      ultimately show ?thesis by (auto simp: ends_def)
    qed
    then show ?thesis by (rule ends_mono) auto
  qed
  have last: "ends (bindA (addRoomConnection (the n) (the ty) cid cid d) (\<lambda>c. clientReady cb c (the data))) ?I (\<lambda>_. ?I) t"
    if t: "?I t" and ty: "truthy ty" for t cb d
    unfolding ends_bind
  proof (rule ends_mono [OF addRoomConnection_ends [OF t]], goal_cases)
    case 1
    then show ?case using ty by (auto simp: truthy_def)
  next
    case (3 c u)
    then have "preserves (same (skeleton u)) (clientReady cb c (the data))"
      by (intro keeps_clientReady rooms.keyed) auto
    then show ?case by (rule ends_same) (use 3 in auto)
  qed
  have mid: "ends (bindA (getCallbacksForRoom (the n) ty) (\<lambda>cb. bindA (handleConnect cb (the data)) (\<lambda>ui.
     thenA (requireTruthy cid (ui \<noteq> None))
    (bindA (addRoomConnection (the n) (the ty) cid cid \<lparr>cd_userInfo = the ui, cd_lastRev = None\<rparr>)
      (\<lambda>c. clientReady cb c (the data)))))) ?I (\<lambda>_. ?I) t"
    if t: "?I t" and ty: "truthy ty" for t
    unfolding ends_bind [of "getCallbacksForRoom _ _"]
  proof (rule ends_mono [OF ends_preserves [where J = ?I, OF keeps_reads(7) t]])
    fix cb and u :: serverState
    assume u: "?I u"
    show "ends (bindA (handleConnect cb (the data)) (\<lambda>ui. thenA (requireTruthy cid (ui \<noteq> None))
      (bindA (addRoomConnection (the n) (the ty) cid cid \<lparr>cd_userInfo = the ui, cd_lastRev = None\<rparr>)
        (\<lambda>c. clientReady cb c (the data))))) ?I (\<lambda>_. ?I) u"
      unfolding ends_bind [of "handleConnect _ _"]
    proof (rule ends_mono [OF ends_preserves [where J = ?I, OF keeps_handleConnect u]])
      fix ui and v :: serverState
      assume v: "?I v"
      show "ends (thenA (requireTruthy cid (ui \<noteq> None))
        (bindA (addRoomConnection (the n) (the ty) cid cid \<lparr>cd_userInfo = the ui, cd_lastRev = None\<rparr>)
          (\<lambda>c. clientReady cb c (the data)))) ?I (\<lambda>_. ?I) v"
        unfolding ends_then by (rule ends_mono [OF req [OF v, where Q = ?I]]) (simp_all add: last ty)
    qed simp
  qed simp
  show "ends (handleClientReady cid ty n data) ?I (\<lambda>_. ?I) s"
    unfolding handleClientReady_def ends_then [of "requireTruthy _ (truthy _)"]
  proof (rule ends_mono [OF req [OF s, where Q = ?I]])
    fix t
    assume t: "truthy ty \<and> ?I t"
    show "ends (requireTruthy cid (truthy n)) ?I (\<lambda>_. ends (thenA (requireTruthy cid (data \<noteq> None))
      (bindA (getCallbacksForRoom (the n) ty) (\<lambda>cb. bindA (handleConnect cb (the data)) (\<lambda>ui.
        thenA (requireTruthy cid (ui \<noteq> None))
       (bindA (addRoomConnection (the n) (the ty) cid cid \<lparr>cd_userInfo = the ui, cd_lastRev = None\<rparr>)
         (\<lambda>c. clientReady cb c (the data))))))) ?I (\<lambda>_. ?I)) t"
      unfolding ends_then [of "requireTruthy _ (data \<noteq> None)"]
      by (rule ends_mono [OF req [where Q = ?I]])
        (use t mid in \<open>auto intro!: ends_mono [OF req [where Q = ?I]]\<close>)
  qed simp_all
qed

lemma clientMessage_keeps:
  assumes "rooms_ok k" and "\<And>x. snd (snd k) (cn_socketId conn) = Some x \<Longrightarrow> snd (snd (snd x)) = userId conn"
  shows "preserves (same k) (case msg of
          UserChanges baseRev changeset apool \<Rightarrow> catchEasysync (handleUserChanges conn baseRev changeset apool)
        | UserinfoUpdate ui \<Rightarrow>
            accessConnectionPad conn ''USERINFO_UPDATE'' (\<lambda>padId.
              whenA (ui_userId ui = userId conn)
                (updateDocumentConnectionUserInfo padId (cn_socketId conn) ui))
        | ClientMessage authId payload \<Rightarrow> handleClientMessage conn authId payload
        | UnknownMessage \<Rightarrow> ret ())"
proof (cases msg)
  case (UserChanges b c p)
  then show ?thesis using rooms.keyed [OF assms(1)] by (simp add: keeps)
next
  case (UserinfoUpdate ui)
  have "preserves (same k) (whenA (ui_userId ui = userId conn)
      (updateDocumentConnectionUserInfo padId (cn_socketId conn) ui))" for padId
  proof (cases "ui_userId ui = userId conn")
    case True
    have "attr = cn_socketId conn" if "obj_get (fst (snd k)) (cn_socketId conn) = Some attr" for attr
      using assms(1) that by (cases k) (auto simp: rooms_ok_def tables_def)
    with True assms show ?thesis by (auto intro!: keeps_updateDocument rooms.keyed)
  qed (simp add: pres)
  then show ?thesis unfolding UserinfoUpdate by (simp add: keeps_connectionPad)
next
  case (ClientMessage a p)
  then show ?thesis by (simp add: keeps)
next
  case UnknownMessage
  then show ?thesis by (simp add: pres)
qed

lemma handleCometMessage_ends:
  assumes s: "rooms_ok (skeleton s)" and c: "obj_get (sv_allConnections s) cid = Some conn"
  shows "ends (handleCometMessage conn msg) (\<lambda>t. rooms_ok (skeleton t)) (\<lambda>_ t. rooms_ok (skeleton t)) s"
proof -
  let ?I = "\<lambda>t. rooms_ok (skeleton t)"
  have m: "snd (snd (skeleton s)) cid = Some (membership conn)" by (rule stored(2) [OF c])
  have t: "tables (skeleton s)" using s by (simp add: rooms_ok_def)
  have id: "cn_connectionId conn = cid" "cn_socketId conn = cid"
    using tables_mem [OF t m [unfolded membership_def]] by simp_all
  have rest: "ends (case msg of
          UserChanges baseRev changeset apool \<Rightarrow> catchEasysync (handleUserChanges conn baseRev changeset apool)
        | UserinfoUpdate ui \<Rightarrow>
            accessConnectionPad conn ''USERINFO_UPDATE'' (\<lambda>padId.
              whenA (ui_userId ui = userId conn)
                (updateDocumentConnectionUserInfo padId (cn_socketId conn) ui))
        | ClientMessage authId payload \<Rightarrow> handleClientMessage conn authId payload
        | UnknownMessage \<Rightarrow> ret ()) ?I (\<lambda>_. ?I) u"
    if "?I u" "\<And>x. snd (snd (skeleton u)) cid = Some x \<Longrightarrow> snd (snd (snd x)) = userId conn" for u
    by (rule ends_same [OF clientMessage_keeps]) (use that id in auto)
  have boot: "ends (whenA (\<not> v) (bootConnection (cn_connectionId conn) (Some ''unauth''))) ?I
      (\<lambda>_ t. ?I t \<and> (\<forall>x. snd (snd (skeleton t)) cid = Some x \<longrightarrow> snd (snd (snd x)) = userId conn)) s" for v
  proof (cases v)
    case True
    then show ?thesis using s m by (simp add: ends_ret membership_def)
  next
    case False
    then show ?thesis using ends_mono [OF boot_ok [OF s, of cid]] id by simp
  qed
  have "\<exists>v. (if userId conn = '''' then ret False else verifyUserId (userId conn)) s = (Inr v, s)"
    by (auto simp: ret_def verifyUserId_def env_def getA_def)
  then obtain v where v: "(if userId conn = '''' then ret False else verifyUserId (userId conn)) s = (Inr v, s)"
    by blast
  have "ends (thenA (whenA (\<not> v) (bootConnection (cn_connectionId conn) (Some ''unauth''))) (case msg of
          UserChanges baseRev changeset apool \<Rightarrow> catchEasysync (handleUserChanges conn baseRev changeset apool)
        | UserinfoUpdate ui \<Rightarrow>
            accessConnectionPad conn ''USERINFO_UPDATE'' (\<lambda>padId.
              whenA (ui_userId ui = userId conn)
                (updateDocumentConnectionUserInfo padId (cn_socketId conn) ui))
        | ClientMessage authId payload \<Rightarrow> handleClientMessage conn authId payload
        | UnknownMessage \<Rightarrow> ret ())) ?I (\<lambda>_. ?I) s"
    unfolding ends_then by (rule ends_mono [OF boot]) (use rest in auto)
  then show ?thesis by (simp add: handleCometMessage_def ends_def bind_run [where t = s and x = v] v)
qed

lemma handleComet_ok: "preserves (\<lambda>s. rooms_ok (skeleton s)) (handleComet ev cometId)"
proof (rule ends_preservesI)
  fix s
  assume s: "rooms_ok (skeleton s)"
  let ?I = "\<lambda>t. rooms_ok (skeleton t)"
  show "ends (handleComet ev cometId) ?I (\<lambda>_. ?I) s"
  proof (cases "ev = CometOther \<or> cometId = ''''")
    case True
    have "preserves ?I (handleComet ev cometId)" if "ev = CometOther"
      using that by (simp add: handleComet_def stopResponse_def pres)
    moreover have "preserves ?I (handleComet ev cometId)" if "cometId = ''''"
    proof -
      have "\<exists>e. skeleton (snd (handleComet ev '''' u)) = skeleton u" for u
        by (cases ev) (auto simp: handleComet_def stopResponse_def throwA_def requireTruthy_def runs serverCall_def
          thenA_def bindA_def modA_def whenA_def ret_def)
      then show ?thesis using that by (simp add: preserves_def)
    qed
    ultimately have "preserves ?I (handleComet ev cometId)" using True by blast
    then show ?thesis by (rule ends_preserves) (rule s)
  next
    case False
    have pre: "thenA (requireTruthy '''' (cometId \<noteq> '''')) m = m" for m :: "(serverState, unit) act"
      using False by (simp add: requireTruthy_def thenA_def bindA_def ret_def fun_eq_iff)
    have boot: "ends (removeRoomConnection c) ?I (\<lambda>_. ?I) s" for c
      by (rule ends_preserves [where J = ?I, OF removeRoom_ok s])
    show ?thesis
    proof (cases ev)
      case CometDisconnected
      then show ?thesis using boot s
        by (auto simp: handleComet_def pre getSocketConnectionId_def ends_bind ends_get whenA_def ends_ret)
    next
      case (CometMessage m)
      show ?thesis
      proof (cases m)
        case (ClientReady ty n data)
        have "ends (handleClientReady cometId ty n data) ?I (\<lambda>_. ?I) s"
          by (rule ends_preserves [where J = ?I, OF handleClientReady_ok s])
        then show ?thesis
          by (simp add: CometMessage ClientReady handleComet_def pre getSocketConnectionId_def ends_bind ends_get)
      next
        case (RoomMessage msg)
        have "ends (bindA (getCallbacksForRoom r None) (\<lambda>cb. handleMessage cb c msg)) ?I (\<lambda>_. ?I) s"
          if c: "obj_get (sv_allConnections s) cid = Some c" for c cid r
        proof -
          obtain cb where cb: "getCallbacksForRoom r None s = (Inr cb, s)" using callbacks_pure by blast
          have "ends (handleMessage cb c msg) ?I (\<lambda>_. ?I) s"
            using handleCometMessage_ends [OF s c] s by (cases cb) (simp_all add: handleMessage_def ends_ret)
          then show ?thesis by (simp add: ends_def bind_run [where t = s and x = cb] cb)
        qed
        then show ?thesis using s
          by (auto simp: CometMessage RoomMessage handleComet_def pre getSocketConnectionId_def getConnection_def ends_bind
            ends_get whenA_def ends_ret split: option.split)
      qed
    qed (use False in simp)
  qed
qed

subsection \<open>Runs of the server\<close>

text \<open>
  What happens to the server: a comet event, the task for a defunct socket, and the calls of other modules,
  which access the pad first. Every step has an environment of its own and starts with an empty request
  cache; other modules may change the pads in between.
\<close>

datatype serverOp =
    Comet cometEvent string
  | DefunctSocket string string
  | GuestKnock string string string
  | Broadcast serverPayload
  | SavedRevision string "(string, string) obj"
  | BootUsers string "userInfo \<Rightarrow> bool"
  | MissedChanges string missedChanges
  | AppendText string string
  | SetText string string
  | SetAText string atext
  | ApplyChangeset string string

fun perform :: "serverOp \<Rightarrow> (serverState, unit) act" where
  "perform (Comet ev cometId) = handleComet ev cometId"
| "perform (DefunctSocket cid sid) = disconnectDefunctSocket cid sid"
| "perform (GuestKnock padId guestId name) = guestKnock padId guestId name"
| "perform (Broadcast m) = broadcastServerMessage m"
| "perform (SavedRevision padId ob) = accessPad padId ReadWrite (broadcastNewRevision padId ob)"
| "perform (BootUsers padId f) = bindA (bootUsersFromPad padId '''' f) (\<lambda>_. ret ())"
| "perform (MissedChanges padId mc) = accessPad padId ReadWrite (applyMissedChanges padId mc)"
| "perform (AppendText padId t) = accessPad padId ReadWrite (appendPadText padId t)"
| "perform (SetText padId t) = accessPad padId ReadWrite (setPadText padId t)"
| "perform (SetAText padId at) = accessPad padId ReadWrite (setPadAText padId at)"
| "perform (ApplyChangeset padId cs) = accessPad padId ReadWrite (applyChangesetToPad padId cs)"

inductive serverRun :: "serverState \<Rightarrow> bool" where
  start: "sv_rooms s = [] \<Longrightarrow> sv_allConnections s = [] \<Longrightarrow> sv_attributes s = [] \<Longrightarrow> serverRun s"
| step: "serverRun s \<Longrightarrow> perform op (s\<lparr>sv_env := e, sv_accessing := []\<rparr>) = (r, s') \<Longrightarrow> serverRun s'"
| pads: "serverRun s \<Longrightarrow> serverRun (s\<lparr>sv_pads := p\<rparr>)"

lemma pad_access_ok:
  assumes "\<And>k. keyed k \<Longrightarrow> preserves (same k) f"
  shows "preserves (\<lambda>s. rooms_ok (skeleton s)) (accessPad padId mode f)"
  by (rule rooms.kept) (use assms rooms.keyed keeps_access in blast)

lemma boot_users_ok: "preserves (\<lambda>s. rooms_ok (skeleton s)) (bootUsersFromPad padId r f)"
proof -
  have "preserves (\<lambda>s. rooms_ok (skeleton s)) (bootConnection cid x)" for cid x
    by (rule ends_preservesI) (rule ends_mono [OF boot_ok], simp_all)
  then show ?thesis unfolding bootUsersFromPad_def by (intro pres keeps)
qed

lemma perform_ok: "preserves (\<lambda>s. rooms_ok (skeleton s)) (perform op)"
proof (cases op)
  case (DefunctSocket cid sid)
  have "preserves (\<lambda>s. rooms_ok (skeleton s)) (disconnectDefunctSocket cid sid)"
    unfolding disconnectDefunctSocket_def by (intro pres keeps removeRoom_ok)
  then show ?thesis by (simp add: DefunctSocket)
next
  case (BootUsers padId f)
  then show ?thesis by (simp add: boot_users_ok pres)
qed (use rooms.messages handleComet_ok in \<open>simp_all add: pad_access_ok keeps keeps_serverTexts\<close>)

lemma serverRun_ok: "serverRun s \<Longrightarrow> rooms_ok (skeleton s)"
proof (induction rule: serverRun.induct)
  case (start s)
  then show ?case by (simp add: rooms_ok_def tables_def once_def skeleton_def member_def)
next
  case (step s op e r s')
  then have "rooms_ok (skeleton (s\<lparr>sv_env := e, sv_accessing := []\<rparr>))" by simp
  from preservesD [where I = "\<lambda>s. rooms_ok (skeleton s)", OF perform_ok this step.hyps(2)] show ?case .
qed simp

lemma room_members:
  assumes "tables (skeleton s)"
  shows "c \<in> set (roomMembers s n) \<longleftrightarrow>
    obj_get (sv_allConnections s) (cn_connectionId c) = Some c \<and> cn_roomName c = n"
proof -
  have t: "(\<And>n r. obj_get (sv_rooms s) n = Some r \<Longrightarrow> (\<forall>cid \<in> set (ro_connections r). \<exists>x. member s cid = Some x \<and> fst x = n))"
    "(\<And>cid n i so u. member s cid = Some (n, i, so, u) \<Longrightarrow> i = cid \<and>
        (\<exists>r. obj_get (sv_rooms s) n = Some r \<and> cid \<in> set (ro_connections r)))"
    using assms unfolding tables_def skeleton_def prod.case by (blast, metis)
  show ?thesis
  proof
    assume "c \<in> set (roomMembers s n)"
    then obtain r id where r: "obj_get (sv_rooms s) n = Some r" "id \<in> set (ro_connections r)"
      "obj_get (sv_allConnections s) id = Some c" using in_roomMembers by blast
    then have "member s id = Some (membership c)" by (simp add: member_def)
    with t(1) [OF r(1)] t(2) [of id] r show "obj_get (sv_allConnections s) (cn_connectionId c) = Some c \<and> cn_roomName c = n"
      by (fastforce simp: membership_def)
  next
    assume c: "obj_get (sv_allConnections s) (cn_connectionId c) = Some c \<and> cn_roomName c = n"
    then have "member s (cn_connectionId c) = Some (n, cn_connectionId c, cn_socketId c, userId c)"
      by (simp add: member_def membership_def)
    with t(2) obtain r where "obj_get (sv_rooms s) n = Some r" "cn_connectionId c \<in> set (ro_connections r)" by blast
    with c show "c \<in> set (roomMembers s n)" by (auto simp: in_roomMembers)
  qed
qed

text \<open>
  C38. The rooms are what they are declared to be, whatever clients send and however their requests end: a
  room is never empty and lists each connection once, everyone listed is a stored connection of that
  room, under its own id, which is its socket's, and every stored connection is listed in its room.
\<close>

theorem rooms_wellformed:
  assumes "serverRun s"
  shows "(\<forall>n r. obj_get (sv_rooms s) n = Some r \<longrightarrow> ro_connections r \<noteq> [] \<and> distinct (ro_connections r) \<and>
      (\<forall>cid \<in> set (ro_connections r). \<exists>c. obj_get (sv_allConnections s) cid = Some c \<and>
         cn_connectionId c = cid \<and> cn_socketId c = cid \<and> cn_roomName c = n)) \<and>
    (\<forall>cid c. obj_get (sv_allConnections s) cid = Some c \<longrightarrow> c \<in> set (roomMembers s (cn_roomName c)))"
proof -
  have t: "tables (skeleton s)" using serverRun_ok [OF assms] by (simp add: rooms_ok_def)
  have m: "member s cid = Some (cn_roomName c, cn_connectionId c, cn_socketId c, userId c)"
    "cn_connectionId c = cid" "cn_socketId c = cid" if "obj_get (sv_allConnections s) cid = Some c" for cid c
  proof -
    show m: "member s cid = Some (cn_roomName c, cn_connectionId c, cn_socketId c, userId c)"
      using that by (simp add: member_def membership_def)
    then have "snd (snd (skeleton s)) cid = Some (cn_roomName c, cn_connectionId c, cn_socketId c, userId c)"
      by (simp add: skeleton_def)
    from tables_mem [OF t this] show "cn_connectionId c = cid" "cn_socketId c = cid" by simp_all
  qed
  have "\<exists>c. obj_get (sv_allConnections s) cid = Some c \<and> cn_connectionId c = cid \<and> cn_socketId c = cid \<and> cn_roomName c = n"
    if "obj_get (sv_rooms s) n = Some r" "cid \<in> set (ro_connections r)" for n r cid
  proof -
    have "\<exists>x. member s cid = Some x \<and> fst x = n" using t that unfolding tables_def skeleton_def prod.case by blast
    then obtain c where c: "obj_get (sv_allConnections s) cid = Some c" "cn_roomName c = n"
      by (auto simp: member_def membership_def)
    with m [OF c(1)] show ?thesis by blast
  qed
  moreover have "ro_connections r \<noteq> [] \<and> distinct (ro_connections r)" if "obj_get (sv_rooms s) n = Some r" for n r
    using t that unfolding tables_def skeleton_def prod.case by blast
  moreover have "c \<in> set (roomMembers s (cn_roomName c))" if "obj_get (sv_allConnections s) cid = Some c" for cid c
    using that m [OF that] room_members [OF t] by simp
  ultimately show ?thesis by blast
qed

text \<open>
  C5. Nobody is in a room twice: two connections of a room that belong to the same user are one and the
  same, after any requests; a new connection of a user boots his old one, also where a request ends with an
  exception.
\<close>

theorem room_user_once:
  assumes "serverRun s" and "c \<in> set (roomMembers s n)" and "c' \<in> set (roomMembers s n)" and "userId c = userId c'"
  shows "c = c'"
proof -
  have ok: "tables (skeleton s)" "once {} (skeleton s)" using serverRun_ok [OF assms(1)] by (simp_all add: rooms_ok_def)
  have c: "obj_get (sv_allConnections s) (cn_connectionId c) = Some c" "cn_roomName c = n"
    "obj_get (sv_allConnections s) (cn_connectionId c') = Some c'" "cn_roomName c' = n"
    using assms(2,3) room_members [OF ok(1)] by auto
  have "snd (snd (skeleton s)) (cn_connectionId c) = Some (n, cn_connectionId c, cn_socketId c, userId c)"
    "snd (snd (skeleton s)) (cn_connectionId c') = Some (n, cn_connectionId c', cn_socketId c', userId c)"
    using stored(2) [OF c(1)] stored(2) [OF c(3)] c(2,4) assms(4) by (simp_all add: membership_def)
  from ok(2) [unfolded once_def, rule_format, OF this] have "cn_connectionId c = cn_connectionId c'" by simp
  then have "Some c = Some c'" using c(1,3) by metis
  then show ?thesis by (rule option.inject [THEN iffD1])
qed

end
