(* ===== verification/RoomProps.thy ===== *)
theory RoomProps
  imports RoomRuns
begin

text \<open>
  Concrete runs of the rooms, and what the rooms do not guarantee: a client that asks for a read-only room
  under the name of an editors' room is let in.
\<close>

definition sampleEnv :: environment where
  "sampleEnv = \<lparr>en_isConnected = (\<lambda>_. True), en_guestUserId = ''g.1'', en_userId = ''g.1'',
     en_nameForUserId = (\<lambda>_. None), en_accessDenied = (\<lambda>_ _. None), en_pluginChecks = (\<lambda>_. []),
     en_nextInt = (\<lambda>seed k. 0), en_guestsAllowed = True, en_padTitle = (\<lambda>p. p), en_padPassword = (\<lambda>_. None)\<rparr>"

definition emptyServer :: serverState where
  "emptyServer = \<lparr>sv_pads = (\<lambda>_. emptyPad), sv_accessing = [], sv_rooms = [], sv_allConnections = [],
     sv_attributes = [], sv_comet = [], sv_calls = [], sv_env = sampleEnv\<rparr>"

definition guest :: "string \<Rightarrow> userInfo" where
  "guest uid = \<lparr>ui_userId = uid, ui_colorId = ColorNumber 3, ui_name = None, ui_specialKey = None\<rparr>"

definition viewReady :: "string \<Rightarrow> string \<Rightarrow> string \<Rightarrow> serverOp" where
  "viewReady room uid sid = Comet (CometMessage (ClientReady (Some ''padview'') (Some room)
     (Some \<lparr>rd_userInfo = Some (guest uid), rd_lastRev = Some 0, rd_isReconnectOf = None, rd_isCommitPending = False, rd_stats = None\<rparr>))) sid"

definition twoJoins :: serverState where
  "twoJoins = snd (perform (viewReady ''padview/x'' ''g.1'' ''s2'')
     (snd (perform (viewReady ''padview/x'' ''g.1'' ''s1'') emptyServer)))"

lemma serverRun_step_same:
  assumes "serverRun s" and "sv_accessing s = []"
  shows "serverRun (snd (perform op s))"
proof (rule serverRun.step [OF assms(1)])
  have "s\<lparr>sv_env := sv_env s, sv_accessing := []\<rparr> = s" using assms(2) by (cases s) simp
  then show "perform op (s\<lparr>sv_env := sv_env s, sv_accessing := []\<rparr>) = (fst (perform op s), snd (perform op s))"
    by simp
qed

lemma twoJoins_run: "serverRun twoJoins"
proof -
  have "serverRun emptyServer" by (rule serverRun.start) (simp_all add: emptyServer_def)
  moreover have "sv_accessing emptyServer = []" by (simp add: emptyServer_def)
  ultimately have "serverRun (snd (perform (viewReady ''padview/x'' ''g.1'' ''s1'') emptyServer))"
    by (rule serverRun_step_same)
  moreover have "sv_accessing (snd (perform (viewReady ''padview/x'' ''g.1'' ''s1'') emptyServer)) = []" by code_simp
  ultimately show ?thesis unfolding twoJoins_def by (rule serverRun_step_same)
qed

lemma twoJoins_members: "map cn_socketId (roomMembers twoJoins ''padview/x'') = [''s2''] \<and>
    map userId (roomMembers twoJoins ''padview/x'') = [''g.1'']"
  by code_simp

theorem rooms_wellformed_witness:
  "\<exists>c. c \<in> set (roomMembers twoJoins ''padview/x'') \<and>
    obj_get (sv_allConnections twoJoins) ''s2'' = Some c \<and> obj_get (sv_allConnections twoJoins) ''s1'' = None"
proof -
  have "cn_roomName ` set (map snd (sv_allConnections twoJoins)) = {''padview/x''}" by code_simp
  moreover have "map_option cn_socketId (obj_get (sv_allConnections twoJoins) ''s2'') = Some ''s2''" by code_simp
  then have "\<exists>c. obj_get (sv_allConnections twoJoins) ''s2'' = Some c" by auto
  moreover have "map_option cn_socketId (obj_get (sv_allConnections twoJoins) ''s1'') = None" by code_simp
  then have "obj_get (sv_allConnections twoJoins) ''s1'' = None" by simp
  moreover have "c \<in> set (map snd (sv_allConnections twoJoins))" if "obj_get (sv_allConnections twoJoins) x = Some c" for x c
    using that map_of_SomeD unfolding obj_get_def by force
  ultimately show ?thesis using rooms_wellformed [OF twoJoins_run] by (metis imageI singletonD)
qed

theorem room_user_once_witness:
  "\<exists>c \<in> set (roomMembers twoJoins ''padview/x''). cn_socketId c = ''s2'' \<and>
    (\<forall>c' \<in> set (roomMembers twoJoins ''padview/x''). userId c' = userId c \<longrightarrow> c' = c)"
proof -
  have "map cn_socketId (roomMembers twoJoins ''padview/x'') = [''s2'']" by (rule twoJoins_members [THEN conjunct1])
  then obtain c where "roomMembers twoJoins ''padview/x'' = [c]" "cn_socketId c = ''s2''" by (auto simp: map_eq_Cons_conv)
  then show ?thesis using room_user_once [OF twoJoins_run] by (metis list.set_intros(1))
qed

subsection \<open>An editors' room is open to viewers\<close>

lemma forA_ret: "(\<And>x. x \<in> set xs \<Longrightarrow> f x = ret ()) \<Longrightarrow> forA f xs = ret ()"
  by (induction xs) (auto simp: thenA_def bindA_def ret_def fun_eq_iff)

lemma view_addRoomConnection:
  assumes ok: "rooms_ok (skeleton s)" and r: "obj_get (sv_rooms s) n = Some r"
    and new: "obj_get (sv_allConnections s) cid = None"
    and other: "\<And>c. c \<in> set (roomMembers s n) \<Longrightarrow> userId c \<noteq> ui_userId (cd_userInfo data)"
  shows "\<exists>s'. addRoomConnection n ''padview'' cid cid data s =
      (Inr \<lparr>cn_roomName = n, cn_connectionId = cid, cn_socketId = cid, cn_data = data\<rparr>, s') \<and>
    obj_get (sv_allConnections s') cid = Some \<lparr>cn_roomName = n, cn_connectionId = cid, cn_socketId = cid, cn_data = data\<rparr> \<and>
    sv_pads s' = sv_pads s \<and> rooms_ok (skeleton s')"
proof -
  let ?conn = "\<lparr>cn_roomName = n, cn_connectionId = cid, cn_socketId = cid, cn_data = data\<rparr>"
  let ?s1 = "s\<lparr>sv_attributes := obj_put (sv_attributes s) cid cid\<rparr>"
  let ?s2 = "snd (putConnection ?conn (Some ''padview'') ?s1)"
  have cb: "getCallbacksForRoom n (Some ''padview'') s = (Inr PadviewCallbacks, s)"
    by (simp add: getCallbacksForRoom_def truthy_def bindA_def ret_def PADPAGE_ROOMTYPE_def PADVIEW_ROOMTYPE_def)
  have put: "putConnection ?conn (Some ''padview'') ?s1 = (Inr (), ?s2)"
    using r by (simp add: putConnection_def runs truthy_def modA_def Let_def)
  have conn: "obj_get (sv_allConnections ?s2) = (obj_get (sv_allConnections s))(cid := Some ?conn)" "sv_pads ?s2 = sv_pads s"
    "sv_rooms ?s2 = obj_put (sv_rooms s) n (r\<lparr>ro_connections := addMember cid (ro_connections r)\<rparr>)"
    using r by (simp_all add: putConnection_def runs truthy_def modA_def Let_def fun_eq_iff)
  have meet: "meetConnection PadviewCallbacks ?conn c = ret ()" if "c \<in> set (roomMembers ?s2 n)" for c
  proof (cases "cn_socketId c = cid")
    case False
    from that have "c = ?conn \<or> c \<in> set (roomMembers s n)"
      using r by (auto simp: in_roomMembers conn addMember_def split: if_splits)
    with False other have "userId c \<noteq> userId ?conn" by (auto simp: userId_def)
    with False show ?thesis by (simp add: meetConnection_def introduceUsers_def)
  qed (simp add: meetConnection_def)
  have run: "addRoomConnection n ''padview'' cid cid data s = (Inr ?conn, ?s2)"
    using new by (simp add: addRoomConnection_def bind_run [where t = s and x = PadviewCallbacks] cb runs Let_def
      then_run [where x = "()" and m = "bootConnection _ _"] boot_none
      then_run [where x = "()" and m = "putConnection _ _", OF put] getRoomConnections_def forA_ret [OF meet]
      then_run [where x = "()" and t = ?s2] bind_getA ret_def onAddConnection_def)
  have "rooms_ok (skeleton ?s2)"
    using addRoomConnection_ends [OF ok, of "''padview''" n cid data] by (simp add: ends_def run)
  with run conn show ?thesis by simp
qed

text \<open>
  C39. The editors' room of a pad can be entered without being checked: a client that sends the type
  \<open>padview\<close> with the name of an editors' room that is in use becomes a member of it, whoever it claims to
  be, whether or not \<open>_verifyUserId\<close> and the pad's access control would let it in (unless a member of the
  room has this identity already, who would be booted); neither is asked, and
  \<open>updatePadClients\<close> sends it the changes of the pad from the revision it names.
\<close>

theorem view_joins_editors:
  assumes "serverRun s" and "sv_accessing s = []" and "obj_get (sv_rooms s) (padIdToRoom padId) = Some r"
    and "obj_get (sv_allConnections s) sid = None" and "sid \<noteq> ''''" and "ui_userId ui \<noteq> ''''"
    and "\<forall>c \<in> set (roomMembers s (padIdToRoom padId)). userId c \<noteq> ui_userId ui"
    and "data = \<lparr>rd_userInfo = Some ui, rd_lastRev = lastRev, rd_isReconnectOf = old, rd_isCommitPending = p, rd_stats = st\<rparr>"
  shows "\<exists>s' c. handleComet (CometMessage (ClientReady (Some ''padview'') (Some (padIdToRoom padId)) (Some data))) sid s =
      (Inr (), s') \<and>
    c \<in> set (roomMembers s' (padIdToRoom padId)) \<and> cn_socketId c = sid \<and>
    cn_data c = \<lparr>cd_userInfo = ui, cd_lastRev = lastRev\<rparr> \<and> sv_pads s' = sv_pads s"
proof -
  let ?n = "padIdToRoom padId"
  let ?data = "\<lparr>cd_userInfo = ui, cd_lastRev = None\<rparr>"
  let ?conn = "\<lparr>cn_roomName = ?n, cn_connectionId = sid, cn_socketId = sid, cn_data = ?data\<rparr>"
  note ok = serverRun_ok [OF assms(1)]
  obtain s1 where s1: "addRoomConnection ?n ''padview'' sid sid ?data s = (Inr ?conn, s1)"
    "obj_get (sv_allConnections s1) sid = Some ?conn" "sv_pads s1 = sv_pads s" "rooms_ok (skeleton s1)"
    using view_addRoomConnection [OF ok assms(3,4), of ?data] assms(7) by auto
  let ?d = "?data\<lparr>cd_lastRev := lastRev\<rparr>"
  let ?s2 = "snd (updateRoomConnectionData sid ?d s1)"
  have t: "tables (skeleton s1)" using s1(4) by (simp add: rooms_ok_def)
  obtain r1 where r1: "obj_get (sv_rooms s1) ?n = Some r1" "sid \<in> set (ro_connections r1)"
  proof -
    have "member s1 sid = Some (?n, sid, sid, userId ?conn)" using s1(2) by (simp add: member_def membership_def)
    with t that show ?thesis unfolding tables_def skeleton_def prod.case by blast
  qed
  have up: "updateRoomConnectionData sid ?d s1 = (Inr (), ?s2)"
    "?s2 = s1\<lparr>sv_allConnections := obj_put (sv_allConnections s1) sid (?conn\<lparr>cn_data := ?d\<rparr>)\<rparr>"
    using r1 s1(2) by (simp_all add: updateRoomConnectionData_def getConnection_def bind_getA putConnection_def runs
      truthy_def Let_def modA_def)
  have mem: "?conn\<lparr>cn_data := ?d\<rparr> \<in> set (roomMembers ?s2 ?n)"
    using r1 unfolding up(2) by (auto simp: in_roomMembers)
  have ne: "?n \<noteq> ''''" by (simp add: padIdToRoom_def)
  have cb: "getCallbacksForRoom ?n (Some ''padview'') s = (Inr PadviewCallbacks, s)"
    by (simp add: getCallbacksForRoom_def truthy_def bindA_def ret_def PADPAGE_ROOMTYPE_def PADVIEW_ROOMTYPE_def)
  have "handleClientReady sid (Some ''padview'') (Some ?n) (Some data) s = (Inr (), ?s2)"
  proof -
    have t: "truthy (Some ''padview'')" "truthy (Some ?n)" using ne by (simp_all add: truthy_def)
    have h: "handleConnect PadviewCallbacks data = ret (Some ui)" using assms(6,8) by (simp add: handleConnect_def)
    have "handleClientReady sid (Some ''padview'') (Some ?n) (Some data) s =
        bindA (addRoomConnection ?n ''padview'' sid sid ?data) (\<lambda>c. clientReady PadviewCallbacks c data) s"
      unfolding handleClientReady_def requireTruthy_def
      by (simp add: t then_ret_fun bind_run [where t = s and x = PadviewCallbacks] cb h bind_ret_fun)
    also have "\<dots> = clientReady PadviewCallbacks ?conn data s1" by (rule bind_run) (rule s1(1))
    also have "\<dots> = (Inr (), ?s2)" using up(1) assms(8) by (simp add: clientReady_def)
    finally show ?thesis .
  qed
  then have "handleComet (CometMessage (ClientReady (Some ''padview'') (Some ?n) (Some data))) sid s = (Inr (), ?s2)"
    using assms(5) by (simp add: handleComet_def requireTruthy_def runs getSocketConnectionId_def)
  moreover have "sv_pads ?s2 = sv_pads s" using s1(3) unfolding up(2) by simp
  ultimately show ?thesis using mem by (intro exI [of _ ?s2] exI [of _ "?conn\<lparr>cn_data := ?d\<rparr>"]) simp
qed

definition padReady :: "string \<Rightarrow> string \<Rightarrow> string \<Rightarrow> serverOp" where
  "padReady padId uid sid = Comet (CometMessage (ClientReady (Some ''padpage'') (Some (padIdToRoom padId))
     (Some \<lparr>rd_userInfo = Some (guest uid), rd_lastRev = Some 0, rd_isReconnectOf = None, rd_isCommitPending = False, rd_stats = None\<rparr>))) sid"

definition oneEditor :: serverState where
  "oneEditor = snd (perform (padReady ''p'' ''g.1'' ''s1'') emptyServer)"

lemma oneEditor_run: "serverRun oneEditor"
proof -
  have "serverRun emptyServer" by (rule serverRun.start) (simp_all add: emptyServer_def)
  moreover have "sv_accessing emptyServer = []" by (simp add: emptyServer_def)
  ultimately show ?thesis unfolding oneEditor_def by (rule serverRun_step_same)
qed

lemma oneEditor_members:
  "map cn_socketId (roomMembers oneEditor ''padpage/p'') = [''s1'']" 
  "map userId (roomMembers oneEditor ''padpage/p'') = [''g.1'']"
  "sv_accessing oneEditor = []" 
  "map_option ro_type (obj_get (sv_rooms oneEditor) ''padpage/p'') = Some ''padpage''"
  "map_option cn_socketId (obj_get (sv_allConnections oneEditor) ''s9'') = None"
  by (code_simp, code_simp, code_simp, code_simp, code_simp)

theorem view_joins_editors_witness:
  "\<exists>s' c. handleComet (CometMessage (ClientReady (Some ''padview'') (Some ''padpage/p'')
      (Some \<lparr>rd_userInfo = Some (guest ''p.7''), rd_lastRev = Some 0, rd_isReconnectOf = None, rd_isCommitPending = False, rd_stats = None\<rparr>)))
      ''s9'' oneEditor = (Inr (), s') \<and>
    c \<in> set (roomMembers s' ''padpage/p'') \<and> userId c = ''p.7''"
proof -
  have n: "padIdToRoom ''p'' = ''padpage/p''" by (simp add: padIdToRoom_def)
  obtain r where r: "obj_get (sv_rooms oneEditor) (padIdToRoom ''p'') = Some r" using oneEditor_members(4) n by auto
  have im: "userId ` set (roomMembers oneEditor ''padpage/p'') = {''g.1''}"
    using arg_cong [OF oneEditor_members(2), of set] by simp
  have "userId c \<noteq> ui_userId (guest ''p.7'')" if "c \<in> set (roomMembers oneEditor (padIdToRoom ''p''))" for c
  proof -
    have "userId c \<in> {''g.1''}" using imageI [OF that, of userId] unfolding n im .
    then show ?thesis by (simp add: guest_def)
  qed
  then have "\<forall>c \<in> set (roomMembers oneEditor (padIdToRoom ''p'')). userId c \<noteq> ui_userId (guest ''p.7'')" by blast
  moreover have "obj_get (sv_allConnections oneEditor) ''s9'' = None" using oneEditor_members(5) by simp
  moreover have "ui_userId (guest ''p.7'') = ''p.7''" by (simp add: guest_def)
  ultimately obtain s' c where c: "handleComet (CometMessage (ClientReady (Some ''padview'') (Some (padIdToRoom ''p''))
      (Some \<lparr>rd_userInfo = Some (guest ''p.7''), rd_lastRev = Some 0, rd_isReconnectOf = None, rd_isCommitPending = False, rd_stats = None\<rparr>)))
      ''s9'' oneEditor = (Inr (), s')" "c \<in> set (roomMembers s' (padIdToRoom ''p''))"
    "cn_data c = \<lparr>cd_userInfo = guest ''p.7'', cd_lastRev = Some 0\<rparr>"
    using view_joins_editors [OF oneEditor_run oneEditor_members(3) r, of "''s9''" "guest ''p.7''"
      "\<lparr>rd_userInfo = Some (guest ''p.7''), rd_lastRev = Some 0, rd_isReconnectOf = None, rd_isCommitPending = False, rd_stats = None\<rparr>"
      "Some 0" None False None] by auto
  then have "userId c = ''p.7''" by (simp add: userId_def guest_def)
  with c show ?thesis unfolding n by blast
qed

end
