(* ===== verification/CollabLaws.thy ===== *)
theory CollabLaws
  imports RoomProps
begin

text \<open>
  What the collaboration server does with the changes of a pad that satisfies \<open>pad_ok\<close>: it merges a
  change over the revisions its author had not seen, and brings every connection up to date, revision by
  revision.
\<close>

subsection \<open>Steps on one pad\<close>

lemma wp_onPad: "wp (onPad padId f) Q s = wp f (\<lambda>x t. Q x (s\<lparr>sv_pads := (sv_pads s)(padId := t)\<rparr>)) (sv_pads s padId)"
  by (simp add: wp_def onPad_def split: prod.split)

lemma wp_env: "wp (env f) Q s = Q (f (sv_env s)) s"
  by (simp add: env_def wps)

definition sockets :: "padState \<Rightarrow> (int, string) obj" where
  "sockets t = (case tm_revisionSockets (tempView t) of None \<Rightarrow> [] | Some m \<Rightarrow> m)"

text \<open>\<open>reads t t'\<close>: a step that adds nothing to the pad but pages, cached texts and attributes.\<close>

definition reads :: "padState \<Rightarrow> padState \<Rightarrow> bool" where
  "reads t t' = ((\<forall>cs d. pad_ok t cs d \<longrightarrow> pad_ok t' cs d) \<and> pool_le (poolView t) (poolView t') \<and>
     sockets t' = sockets t \<and> metaVar t' = metaVar t)"

lemma reads_trans: "reads t u \<Longrightarrow> reads u v \<Longrightarrow> reads t v"
  unfolding reads_def using pool_le_trans by metis

lemma pad_ok_wf: "pad_ok t cs d \<Longrightarrow> pool_wf (poolView t)"
  by (auto simp: pad_ok_def pad_inv_def)

lemma reads_refl: "pool_wf (poolView t) \<Longrightarrow> reads t t"
  by (simp add: reads_def pool_le_refl)

lemma grows_reads: "grows t t' \<Longrightarrow> reads t t'"
  unfolding reads_def using pad_ok_grows by (auto simp: grows_def sockets_def)

text \<open>\<open>steps padId s s'\<close>: the same for the server; rooms and connections stay.\<close>

definition steps :: "string \<Rightarrow> serverState \<Rightarrow> serverState \<Rightarrow> bool" where
  "steps padId s s' = (reads (sv_pads s padId) (sv_pads s' padId) \<and>
     (\<forall>q. q \<noteq> padId \<longrightarrow> sv_pads s' q = sv_pads s q) \<and> sv_rooms s' = sv_rooms s \<and>
     sv_allConnections s' = sv_allConnections s \<and> sv_attributes s' = sv_attributes s \<and> sv_env s' = sv_env s \<and>
     sv_accessing s' = sv_accessing s)"

lemma steps_trans: "steps padId s t \<Longrightarrow> steps padId t u \<Longrightarrow> steps padId s u"
  unfolding steps_def using reads_trans by auto

lemma steps_refl: "pool_wf (poolView (sv_pads s padId)) \<Longrightarrow> steps padId s s"
  by (simp add: steps_def reads_refl)

lemma steps_pad: "reads (sv_pads s padId) t \<Longrightarrow> steps padId s (s\<lparr>sv_pads := (sv_pads s)(padId := t)\<rparr>)"
  by (simp add: steps_def)

lemma steps_ok: "steps padId s s' \<Longrightarrow> pad_ok (sv_pads s padId) cs d \<Longrightarrow> pad_ok (sv_pads s' padId) cs d"
  by (simp add: steps_def reads_def)

lemma wp_reading:
  assumes "wp f (\<lambda>x t. reads (sv_pads s padId) t \<and> R x t) (sv_pads s padId)"
    and "\<And>x t. reads (sv_pads s padId) t \<Longrightarrow> R x t \<Longrightarrow>
      Q x (s\<lparr>sv_pads := (sv_pads s)(padId := t)\<rparr>)"
  shows "wp (onPad padId f) Q s"
  unfolding wp_onPad by (rule wp_mono [OF assms(1)]) (use assms(2) in blast)

subsection \<open>Reading revisions\<close>

lemma getRevisionAuthor_ok:
  assumes ok: "pad_ok t cs d" and r: "0 \<le> r" "r < int (length cs)"
  shows "wp (getRevisionAuthor r) (\<lambda>_. reads t) t"
proof -
  obtain m where m: "arrays_ok t" "pad_inv (poolView t) (content t) m (pd_modelCache t) cs d"
    using ok by (auto simp: pad_ok_def)
  have wf: "pool_wf (poolView t)" by (rule pad_ok_wf [OF ok])
  obtain rm where rm: "content t RevMeta r = Some (RevMetaEntry rm)" using pad_inv_revmeta [OF m(2) r] by blast
  show ?thesis
    unfolding getRevisionAuthor_def wp_bind
  proof (rule wp_getRevMeta [OF m(1) r(1) rm])
    fix t'
    assume t': "sameArrays t t'"
    have g: "grows t t'" by (rule sameArrays_grows [OF t' wf])
    have "grows t' (t'\<lparr>pd_apool := Some (poolView t')\<rparr>)"
      using t' wf by (intro pool_grows) (simp_all add: views pool_le_refl)
    then have "reads t (t'\<lparr>pd_apool := Some (poolView t')\<rparr>)" by (intro grows_reads grows_trans [OF g])
    then show "wp (case Some rm of None \<Rightarrow> throwA (TypeError ''revmeta is undefined'') | Some m \<Rightarrow> getAuthorForNum (rm_a m))
        (\<lambda>_. reads t) t'"
      by (simp add: getAuthorForNum_def wps pad_wps)
  qed
qed

lemma getRevisionChangeset_ok:
  assumes ok: "pad_ok t cs d" and r: "0 \<le> r" "r < int (length cs)"
  shows "wp (getRevisionChangeset r) (\<lambda>c t'. reads t t' \<and> c = cs ! nat r) t"
proof -
  obtain m where m: "arrays_ok t" "pad_inv (poolView t) (content t) m (pd_modelCache t) cs d"
    using ok by (auto simp: pad_ok_def)
  show ?thesis
    unfolding getRevisionChangeset_def
    by (rule wp_getChangeset [OF m(1) r(1) pad_inv_rev [OF m(2) r]])
      (simp add: grows_reads sameArrays_grows pad_ok_wf [OF ok])
qed

lemma getPadAPool_ok: "pad_ok t cs d \<Longrightarrow> wp getPadAPool (\<lambda>p t'. reads t t' \<and> p = poolView t) t"
  using grows_reads [OF pool_grows [of t "poolView t"]] pad_ok_wf [of t cs d]
  by (auto simp: wp_apool pool_le_refl pad_ok_def)

lemma head_ok:
  assumes "pad_ok t cs d"
  shows "wp getHeadRevisionNumber (\<lambda>h t'. t' = t \<and> h = int (length cs) - 1) t"
  using assms by (auto simp: pad_ok_def pad_inv_def wp_head)

lemma reads_sockets:
  assumes "pad_ok t cs d"
  shows "reads t (t\<lparr>pd_temp := Some ((tempView t)\<lparr>tm_revisionSockets := Some (sockets t)\<rparr>)\<rparr>)"
proof -
  have "pool_wf (poolView t)" by (rule pad_ok_wf [OF assms])
  moreover have "pad_ok (t\<lparr>pd_temp := Some ((tempView t)\<lparr>tm_revisionSockets := Some (sockets t)\<rparr>)\<rparr>) cs' d'"
    if "pad_ok t cs' d'" for cs' d'
    using that by (simp add: pad_ok_def views)
  ultimately show ?thesis by (simp add: reads_def views sockets_def pool_le_refl)
qed

lemma reads_temp:
  assumes "pad_ok t cs d"
  shows "reads t (t\<lparr>pd_temp := Some (tempView t)\<rparr>)"
proof -
  have "pad_ok (t\<lparr>pd_temp := Some (tempView t)\<rparr>) cs' d'" if "pad_ok t cs' d'" for cs' d'
    using that by (simp add: pad_ok_def views)
  then show ?thesis using pad_ok_wf [OF assms] by (simp add: reads_def views sockets_def pool_le_refl)
qed

lemma revisionSockets_ok:
  assumes ok: "pad_ok (sv_pads s padId) cs d"
  shows "wp (getPadRevisionSockets padId) (\<lambda>m s'. steps padId s s' \<and> m = sockets (sv_pads s padId) \<and>
    sv_comet s' = sv_comet s \<and> sv_calls s' = sv_calls s) s"
proof (cases "tm_revisionSockets (tempView (sv_pads s padId))")
  case None
  then show ?thesis
    using steps_pad [OF reads_sockets [OF ok]]
    by (simp add: getPadRevisionSockets_def wps wp_onPad wp_temp wp_modTemp views sockets_def)
next
  case (Some m)
  then show ?thesis
    using steps_pad [OF reads_temp [OF ok]]
    by (simp add: getPadRevisionSockets_def wps wp_onPad wp_temp sockets_def)
qed

subsection \<open>Bringing a client up to date\<close>

text \<open>
  What the message about revision \<open>r\<close> has to be for a socket: an acknowledgement if it is the socket's own
  revision, and otherwise the revision itself over a pool of the message, edit by edit, so that it takes
  the text before the revision to the text after it.
\<close>

definition delivers :: "pool \<Rightarrow> string list \<Rightarrow> (int, string) obj \<Rightarrow> string \<Rightarrow> int \<Rightarrow> message \<Rightarrow> bool" where
  "delivers p cs own sid r m =
     (if obj_get own r = Some sid then m = ACCEPT_COMMIT r
      else (\<exists>c w author d1 d2 es fs. m = NEW_CHANGES r c w author \<and>
        ot.path p (take (nat r) cs) [nl] d1 \<and> ot.path p (take (Suc (nat r)) cs) [nl] d2 \<and>
        applies w c d1 d2 \<and> cs_on (cs ! nat r) d1 es \<and> known p es \<and> cs_on c d1 fs \<and>
        list_all2 (sameEdit p w) es fs \<and> sameOps p w (cs ! nat r) c))"

lemma sameEdit_le:
  assumes "pool_le p q" and "known p es" and "list_all2 (sameEdit p w) es fs"
  shows "list_all2 (sameEdit q w) es fs"
  by (rule list.rel_mono_strong [OF assms(3)])
    (use assms(1,2) in \<open>auto simp: sameEdit_def renamed_def known_def list_all_iff att_pairs_le\<close>)

lemma delivers_le:
  assumes le: "pool_le p q" and d: "delivers p cs own sid r m"
  shows "delivers q cs own sid r m"
proof (cases "obj_get own r = Some sid")
  case False
  with d obtain c w author d1 d2 es fs where m: "m = NEW_CHANGES r c w author"
    "ot.path p (take (nat r) cs) [nl] d1" "ot.path p (take (Suc (nat r)) cs) [nl] d2" "applies w c d1 d2"
    "cs_on (cs ! nat r) d1 es" "known p es" "cs_on c d1 fs" "list_all2 (sameEdit p w) es fs" "sameOps p w (cs ! nat r) c"
    by (auto simp: delivers_def)
  note m' = path_pool_le [OF le m(2)] path_pool_le [OF le m(3)] known_le [OF le m(6)] sameEdit_le [OF le m(6,8)]
    sameOps_le [OF le m(5,6,9)]
  from False m(1) m' m(4,5,7) show ?thesis unfolding delivers_def by auto
qed (use d in \<open>simp add: delivers_def\<close>)

text \<open>A socket that does not answer is scheduled to be disconnected; the message is sent all the same.\<close>

lemma sendMessage_ok:
  assumes "obj_get (sv_allConnections s) cid = Some c"
  shows "wp (sendMessage cid m) (\<lambda>_ s'. s' = s\<lparr>sv_comet := sv_comet s @ [CometSend (cn_socketId c) m], sv_calls := sv_calls s'\<rparr>) s"
  by (cases "en_isConnected (sv_env s) (cn_socketId c)")
    (use assms in \<open>simp_all add: sendMessage_def wps getConnection_def sendMessageToSocket_def cometCall_def wp_env
        serverCall_def\<close>)

lemma send_steps:
  assumes "obj_get (sv_allConnections s) cid = Some c"
    and "\<And>l. Q () (s\<lparr>sv_comet := sv_comet s @ [CometSend (cn_socketId c) m], sv_calls := l\<rparr>)"
  shows "wp (sendMessage cid m) Q s"
proof (rule wp_mono [OF sendMessage_ok [OF assms(1), of m]])
  fix x s'
  assume s': "s' = s\<lparr>sv_comet := sv_comet s @ [CometSend (cn_socketId c) m], sv_calls := sv_calls s'\<rparr>"
  show "Q x s'" by (subst s') (use assms(2) in simp)
qed

lemma revision_wire:
  assumes "applies p c d1 d2"
  shows "\<exists>c' w es fs. prepareForWire c p = Inr (c', w) \<and> applies w c' d1 d2 \<and> cs_on c d1 es \<and> known p es \<and>
    cs_on c' d1 fs \<and> list_all2 (sameEdit p w) es fs \<and> sameOps p w c c'"
proof -
  obtain es where es: "canonical c" "cs_on c d1 es" "known p es" "d2 = result d1 es"
    using assms by (auto simp: applies_def)
  obtain c' w fs where m: "prepareForWire c p = Inr (c', w)" "pool_le AttribPool w" "canonical c'" "cs_on c' d1 fs"
    "list_all2 (sameEdit p w) es fs" "sameOps p w c c'"
    using moveOpsToNewPool_script [OF es(1-3) pool_wf_empty] unfolding prepareForWire_def by blast
  have "applies w c' d1 (result d1 fs)"
    by (rule appliesI [OF pool_le_wf [OF m(2)] m(3,4) sameEdit_known [OF m(5)]])
  moreover have "result d1 fs = d2" using sameEdit_text [OF m(5)] es(4) by (simp add: result_def)
  ultimately show ?thesis using m es(2,3) by blast
qed

lemma path_at:
  assumes "ot.path p cs [nl] d" and "0 \<le> r" and "r < int (length cs)"
  obtains d1 d2 where "ot.path p (take (nat r) cs) [nl] d1" "applies p (cs ! nat r) d1 d2"
    "ot.path p (take (Suc (nat r)) cs) [nl] d2"
proof -
  obtain d1 where d1: "ot.path p (take (nat r) cs) [nl] d1" using path_prefix [OF assms(1)] by blast
  have "nat r < length cs" using assms(2,3) by auto
  from path_step [OF assms(1) this d1] that [OF d1] show ?thesis by blast
qed

lemma pad_ok_path: "pad_ok t cs d \<Longrightarrow> ot.path (poolView t) cs [nl] d"
  by (auto simp: pad_ok_def pad_inv_def)

lemma steps_messages [simp]:
  "steps padId s (s'\<lparr>sv_comet := a\<rparr>) = steps padId s s'" "steps padId s (s'\<lparr>sv_calls := b\<rparr>) = steps padId s s'"
  by (simp_all add: steps_def)

lemma sendRevision_ok:
  assumes ok: "pad_ok (sv_pads s padId) cs d" and r: "0 \<le> r" "r < int (length cs)"
    and c: "obj_get (sv_allConnections s) cid = Some c"
  shows "wp (sendRevision padId cid (cn_socketId c) r) (\<lambda>_ s'. steps padId s s' \<and>
    (\<exists>m. sv_comet s' = sv_comet s @ [CometSend (cn_socketId c) m] \<and>
       delivers (poolView (sv_pads s' padId)) cs (sockets (sv_pads s padId)) (cn_socketId c) r m)) s"
  unfolding sendRevision_def wp_bind
proof (rule wp_reading [where R = "\<lambda>_ _. True"])
  show "wp (getRevisionAuthor r) (\<lambda>_ t. reads (sv_pads s padId) t \<and> True) (sv_pads s padId)"
    using getRevisionAuthor_ok [OF ok r] by simp
next
  fix author t
  assume t: "reads (sv_pads s padId) t"
  let ?s = "s\<lparr>sv_pads := (sv_pads s)(padId := t)\<rparr>"
  have s1: "steps padId s ?s" by (rule steps_pad [OF t])
  note ok1 = steps_ok [OF s1 ok]
  show "wp (getPadRevisionSockets padId) (\<lambda>m. wp (if obj_get m r = Some (cn_socketId c) then sendMessage cid (ACCEPT_COMMIT r)
     else bindA (onPad padId (getRevisionChangeset r)) (\<lambda>cs.
       bindA (onPad padId getPadAPool) (\<lambda>apool.
       bindA (liftA (prepareForWire cs apool)) (\<lambda>(translated, wirePool).
       sendMessage cid (NEW_CHANGES r translated wirePool author))))) (\<lambda>_ s'. steps padId s s' \<and>
    (\<exists>m. sv_comet s' = sv_comet s @ [CometSend (cn_socketId c) m] \<and>
       delivers (poolView (sv_pads s' padId)) cs (sockets (sv_pads s padId)) (cn_socketId c) r m))) ?s"
  proof (rule wp_mono [OF revisionSockets_ok [OF ok1]], elim conjE)
    fix m s2
    assume s2: "steps padId ?s s2" "m = sockets (sv_pads ?s padId)" "sv_comet s2 = sv_comet ?s"
    have m: "m = sockets (sv_pads s padId)" using s1 s2(2) by (simp add: steps_def reads_def)
    have st: "steps padId s s2" by (rule steps_trans [OF s1 s2(1)])
    note ok2 = steps_ok [OF st ok]
    have c2: "obj_get (sv_allConnections s2) cid = Some c" using st c by (simp add: steps_def)
    let ?Q = "\<lambda>_ s'. steps padId s s' \<and> (\<exists>m. sv_comet s' = sv_comet s @ [CometSend (cn_socketId c) m] \<and>
       delivers (poolView (sv_pads s' padId)) cs (sockets (sv_pads s padId)) (cn_socketId c) r m)"
    show "wp (if obj_get m r = Some (cn_socketId c) then sendMessage cid (ACCEPT_COMMIT r)
       else bindA (onPad padId (getRevisionChangeset r)) (\<lambda>cs.
         bindA (onPad padId getPadAPool) (\<lambda>apool.
         bindA (liftA (prepareForWire cs apool)) (\<lambda>(translated, wirePool).
         sendMessage cid (NEW_CHANGES r translated wirePool author))))) ?Q s2"
    proof (cases "obj_get m r = Some (cn_socketId c)")
      case True
      then show ?thesis
        by simp (rule send_steps [OF c2], use True st s2(3) m in \<open>simp add: delivers_def\<close>)
    next
      case False
      have "wp (bindA (onPad padId (getRevisionChangeset r)) (\<lambda>cs.
         bindA (onPad padId getPadAPool) (\<lambda>apool.
         bindA (liftA (prepareForWire cs apool)) (\<lambda>(translated, wirePool).
         sendMessage cid (NEW_CHANGES r translated wirePool author))))) ?Q s2"
        unfolding wp_bind
      proof (rule wp_reading [OF getRevisionChangeset_ok [OF ok2 r]])
        fix x t3
        assume t3: "reads (sv_pads s2 padId) t3" and x: "x = cs ! nat r"
        let ?s3 = "s2\<lparr>sv_pads := (sv_pads s2)(padId := t3)\<rparr>"
        have st3: "steps padId s ?s3" by (rule steps_trans [OF st steps_pad [OF t3]])
        note ok3 = steps_ok [OF st3 ok]
        show "wp (onPad padId getPadAPool) (\<lambda>apool. wp (liftA (prepareForWire x apool)) (\<lambda>y. wp (case y of
            (translated, wirePool) \<Rightarrow> sendMessage cid (NEW_CHANGES r translated wirePool author)) ?Q)) ?s3"
        proof (rule wp_reading [OF getPadAPool_ok [OF ok3]])
          fix apool t4
          assume t4: "reads (sv_pads ?s3 padId) t4" and a: "apool = poolView (sv_pads ?s3 padId)"
          let ?s4 = "?s3\<lparr>sv_pads := (sv_pads ?s3)(padId := t4)\<rparr>"
          have st4: "steps padId s ?s4" by (rule steps_trans [OF st3 steps_pad [OF t4]])
          have le: "pool_le apool (poolView (sv_pads ?s4 padId))" using t4 a by (simp add: reads_def)
          obtain d1 d2 where d: "ot.path apool (take (nat r) cs) [nl] d1" "applies apool (cs ! nat r) d1 d2"
            "ot.path apool (take (Suc (nat r)) cs) [nl] d2"
            using path_at [OF pad_ok_path [OF ok3] r] unfolding a by metis
          obtain x' w es fs where w: "prepareForWire x apool = Inr (x', w)" "applies w x' d1 d2" "cs_on x d1 es"
            "known apool es" "cs_on x' d1 fs" "list_all2 (sameEdit apool w) es fs"
            "sameOps apool w x x'"
            using revision_wire [OF d(2)] x by blast
          have "delivers apool cs m (cn_socketId c) r (NEW_CHANGES r x' w author)"
            using False d w x unfolding delivers_def by auto
          from delivers_le [OF le this]
          have del: "delivers (poolView (sv_pads ?s4 padId)) cs (sockets (sv_pads s padId)) (cn_socketId c) r
            (NEW_CHANGES r x' w author)" by (simp add: m)
          have c4: "obj_get (sv_allConnections ?s4) cid = Some c" using c2 by simp
          have "sv_comet ?s4 = sv_comet s" using s2(3) by simp
          with st4 del show "wp (liftA (prepareForWire x apool)) (\<lambda>y. wp (case y of
            (translated, wirePool) \<Rightarrow> sendMessage cid (NEW_CHANGES r translated wirePool author)) ?Q) ?s4"
            unfolding w(1) wps prod.case
            by (intro send_steps [OF c4]) auto
        qed
      qed
      with False show ?thesis by simp
    qed
  qed
qed

lemma steps_sockets: "steps padId s s' \<Longrightarrow> sockets (sv_pads s' padId) = sockets (sv_pads s padId)"
  by (simp add: steps_def reads_def)

lemma steps_pool: "steps padId s s' \<Longrightarrow> pool_le (poolView (sv_pads s padId)) (poolView (sv_pads s' padId))"
  by (simp add: steps_def reads_def)

lemma sendRevisions_ok:
  assumes ok: "pad_ok (sv_pads s padId) cs d" and r: "\<forall>r \<in> set rs. 0 \<le> r \<and> r < int (length cs)"
    and c: "obj_get (sv_allConnections s) cid = Some c"
  shows "wp (forA (sendRevision padId cid (cn_socketId c)) rs) (\<lambda>_ s'. steps padId s s' \<and>
    (\<exists>ms. sv_comet s' = sv_comet s @ map (CometSend (cn_socketId c)) ms \<and>
       list_all2 (delivers (poolView (sv_pads s' padId)) cs (sockets (sv_pads s padId)) (cn_socketId c)) rs ms)) s"
  using assms
proof (induction rs arbitrary: s)
  case Nil
  then show ?case by (simp add: wps steps_refl [OF pad_ok_wf])
next
  case (Cons r rs)
  show ?case
    unfolding forA.simps wp_then
  proof (rule wp_mono [OF sendRevision_ok [OF Cons.prems(1) _ _ Cons.prems(3)]], use Cons.prems(2) in simp,
      use Cons.prems(2) in simp, elim conjE exE)
    fix s1 m
    assume s1: "steps padId s s1" "sv_comet s1 = sv_comet s @ [CometSend (cn_socketId c) m]"
      "delivers (poolView (sv_pads s1 padId)) cs (sockets (sv_pads s padId)) (cn_socketId c) r m"
    have c1: "obj_get (sv_allConnections s1) cid = Some c" using s1(1) Cons.prems(3) by (simp add: steps_def)
    have "wp (forA (sendRevision padId cid (cn_socketId c)) rs) (\<lambda>_ s'. steps padId s1 s' \<and>
      (\<exists>ms. sv_comet s' = sv_comet s1 @ map (CometSend (cn_socketId c)) ms \<and>
       list_all2 (delivers (poolView (sv_pads s' padId)) cs (sockets (sv_pads s1 padId)) (cn_socketId c)) rs ms)) s1"
      by (rule Cons.IH [OF steps_ok [OF s1(1) Cons.prems(1)] _ c1]) (use Cons.prems(2) in simp)
    then show "wp (forA (sendRevision padId cid (cn_socketId c)) rs) (\<lambda>_ s'. steps padId s s' \<and>
      (\<exists>ms. sv_comet s' = sv_comet s @ map (CometSend (cn_socketId c)) ms \<and>
       list_all2 (delivers (poolView (sv_pads s' padId)) cs (sockets (sv_pads s padId)) (cn_socketId c)) (r # rs) ms)) s1"
    proof (rule wp_mono, elim conjE exE)
      fix s2 ms
      assume s2: "steps padId s1 s2" "sv_comet s2 = sv_comet s1 @ map (CometSend (cn_socketId c)) ms"
        "list_all2 (delivers (poolView (sv_pads s2 padId)) cs (sockets (sv_pads s1 padId)) (cn_socketId c)) rs ms"
      have "delivers (poolView (sv_pads s2 padId)) cs (sockets (sv_pads s padId)) (cn_socketId c) r m"
        by (rule delivers_le [OF steps_pool [OF s2(1)] s1(3)])
      with s2(3) have "list_all2 (delivers (poolView (sv_pads s2 padId)) cs (sockets (sv_pads s padId)) (cn_socketId c))
          (r # rs) (m # ms)" by (simp add: steps_sockets [OF s1(1)])
      moreover have "sv_comet s2 = sv_comet s @ map (CometSend (cn_socketId c)) (m # ms)" using s1(2) s2(2) by simp
      ultimately show "steps padId s s2 \<and> (\<exists>ms. sv_comet s2 = sv_comet s @ map (CometSend (cn_socketId c)) ms \<and>
        list_all2 (delivers (poolView (sv_pads s2 padId)) cs (sockets (sv_pads s padId)) (cn_socketId c)) (r # rs) ms)"
        using steps_trans [OF s1(1) s2(1)] by blast
    qed
  qed
qed

text \<open>\<open>sentTo sid l\<close>: the messages of \<open>l\<close> to a socket, in their order.\<close>

definition sentTo :: "string \<Rightarrow> cometCall list \<Rightarrow> message list" where
  "sentTo sid l = concat (map (\<lambda>x. (case x of CometSend so m \<Rightarrow> if so = sid then [m] else [] | _ \<Rightarrow> [])) l)"

lemma sentTo_append [simp]: "sentTo sid (a @ b) = sentTo sid a @ sentTo sid b"
  by (simp add: sentTo_def)

lemma sentTo_map [simp]: "sentTo sid (map (CometSend so) ms) = (if so = sid then ms else [])"
  by (induction ms) (simp_all add: sentTo_def)

definition revised :: "int \<Rightarrow> connection \<Rightarrow> connection" where
  "revised head c = c\<lparr>cn_data := (cn_data c)\<lparr>cd_lastRev := Some head\<rparr>\<rparr>"

definition caughtUp :: "string \<Rightarrow> string list \<Rightarrow> serverState \<Rightarrow> serverState \<Rightarrow> connection \<Rightarrow> bool" where
  "caughtUp padId cs s s' c =
     (obj_get (sv_allConnections s') (cn_connectionId c) = Some (revised (int (length cs) - 1) c) \<and>
      (\<exists>ms. sentTo (cn_socketId c) (sv_comet s') = sentTo (cn_socketId c) (sv_comet s) @ ms \<and>
        list_all2 (delivers (poolView (sv_pads s' padId)) cs (sockets (sv_pads s padId)) (cn_socketId c))
          (revisionsAfter (cd_lastRev (cn_data c)) (int (length cs) - 1)) ms))"

text \<open>\<open>touches padId ids s s'\<close>: a step on a pad that concerns no connections but those of \<open>ids\<close>.\<close>

definition touches :: "string \<Rightarrow> string set \<Rightarrow> serverState \<Rightarrow> serverState \<Rightarrow> bool" where
  "touches padId ids s s' = (reads (sv_pads s padId) (sv_pads s' padId) \<and> sv_rooms s' = sv_rooms s \<and>
     sv_env s' = sv_env s \<and>
     (\<forall>cid. cid \<notin> ids \<longrightarrow> obj_get (sv_allConnections s') cid = obj_get (sv_allConnections s) cid \<and>
        sentTo cid (sv_comet s') = sentTo cid (sv_comet s)))"

definition ready :: "string \<Rightarrow> serverState \<Rightarrow> connection \<Rightarrow> bool" where
  "ready padId s c = (obj_get (sv_allConnections s) (cn_connectionId c) = Some c \<and>
     cn_socketId c = cn_connectionId c \<and> obj_get (sv_rooms s) (cn_roomName c) \<noteq> None \<and>
     (\<forall>r. cd_lastRev (cn_data c) = Some r \<longrightarrow> - 1 \<le> r))"

lemma updateClient_ok:
  assumes ok: "pad_ok (sv_pads s padId) cs d" and c: "ready padId s c"
  shows "wp (updateClient padId (cn_connectionId c)) (\<lambda>_ s'. touches padId {cn_connectionId c} s s' \<and>
    caughtUp padId cs s s' c) s"
proof -
  let ?id = "cn_connectionId c" let ?h = "int (length cs) - 1"
  let ?rs = "revisionsAfter (cd_lastRev (cn_data c)) ?h"
  have c': "obj_get (sv_allConnections s) ?id = Some c" "cn_socketId c = ?id" using c by (simp_all add: ready_def)
  have rs: "\<forall>r \<in> set ?rs. 0 \<le> r \<and> r < int (length cs)"
    using c by (cases "cd_lastRev (cn_data c)") (auto simp: revisionsAfter_def ready_def)
  let ?Q = "\<lambda>_ s'. touches padId {?id} s s' \<and> caughtUp padId cs s s' c"
  have loop: "wp (thenA (forA (sendRevision padId ?id (cn_socketId c)) ?rs)
      (updateRoomConnectionData ?id ((cn_data c)\<lparr>cd_lastRev := Some ?h\<rparr>))) ?Q s"
    unfolding wp_then
  proof (rule wp_mono [OF sendRevisions_ok [OF ok rs c'(1)]], elim conjE exE)
    fix s1 ms
    assume s1: "steps padId s s1" "sv_comet s1 = sv_comet s @ map (CometSend (cn_socketId c)) ms"
      "list_all2 (delivers (poolView (sv_pads s1 padId)) cs (sockets (sv_pads s padId)) (cn_socketId c)) ?rs ms"
    have e: "obj_get (sv_allConnections s1) ?id = Some c" "\<exists>r. obj_get (sv_rooms s1) (cn_roomName c) = Some r"
      using s1(1) c by (auto simp: steps_def ready_def)
    then have "wp (updateRoomConnectionData ?id ((cn_data c)\<lparr>cd_lastRev := Some ?h\<rparr>)) (\<lambda>_ s'. s' =
        s1\<lparr>sv_allConnections := obj_put (sv_allConnections s1) ?id (revised ?h c)\<rparr>) s1"
      by (auto simp: updateRoomConnectionData_def getConnection_def putConnection_def wps revised_def truthy_def Let_def)
    then show "wp (updateRoomConnectionData ?id ((cn_data c)\<lparr>cd_lastRev := Some ?h\<rparr>)) ?Q s1"
    proof (rule wp_mono)
      fix s2
      assume s2: "s2 = s1\<lparr>sv_allConnections := obj_put (sv_allConnections s1) ?id (revised ?h c)\<rparr>"
      have "touches padId {?id} s s2" using s1(1,2) c'(2) s2 by (simp add: touches_def steps_def)
      moreover have "caughtUp padId cs s s2 c" using s1(2,3) s2 by (auto simp: caughtUp_def)
      ultimately show "touches padId {?id} s s2 \<and> caughtUp padId cs s s2 c" ..
    qed
  qed
  have same: "s\<lparr>sv_pads := (sv_pads s)(padId := sv_pads s padId)\<rparr> = s" by simp
  have head: "wp getHeadRevisionNumber (\<lambda>h t'. t' = sv_pads s padId \<and> h = ?h) (sv_pads s padId)"
    by (rule head_ok [OF ok])
  show ?thesis
    unfolding updateClient_def wp_bind getConnection_def wp_get c'(1) option.case wp_onPad
    by (rule wp_mono [OF head]) (use loop same in simp)
qed

lemma touches_trans: "touches padId A s t \<Longrightarrow> touches padId B t u \<Longrightarrow> touches padId (A \<union> B) s u"
  unfolding touches_def using reads_trans by auto

lemma touches_ok: "touches padId A s t \<Longrightarrow> pad_ok (sv_pads s padId) cs d \<Longrightarrow> pad_ok (sv_pads t padId) cs d"
  by (simp add: touches_def reads_def)

lemma touches_ready:
  assumes "touches padId A s t" and "ready padId s c" and "cn_connectionId c \<notin> A"
  shows "ready padId t c"
  using assms by (simp add: touches_def ready_def)

lemma caughtUp_then:
  assumes "caughtUp padId cs s t c" and "touches padId A t u" and "cn_connectionId c \<notin> A"
    and "cn_socketId c = cn_connectionId c"
  shows "caughtUp padId cs s u c"
proof -
  have "pool_le (poolView (sv_pads t padId)) (poolView (sv_pads u padId))"
    using assms(2) by (simp add: touches_def reads_def)
  note le = delivers_le [OF this]
  from assms(1) obtain ms where ms: "sentTo (cn_socketId c) (sv_comet t) = sentTo (cn_socketId c) (sv_comet s) @ ms"
    "list_all2 (delivers (poolView (sv_pads t padId)) cs (sockets (sv_pads s padId)) (cn_socketId c))
          (revisionsAfter (cd_lastRev (cn_data c)) (int (length cs) - 1)) ms"
    "obj_get (sv_allConnections t) (cn_connectionId c) = Some (revised (int (length cs) - 1) c)"
    by (auto simp: caughtUp_def)
  have "list_all2 (delivers (poolView (sv_pads u padId)) cs (sockets (sv_pads s padId)) (cn_socketId c))
          (revisionsAfter (cd_lastRev (cn_data c)) (int (length cs) - 1)) ms"
    by (rule list_all2_mono [OF ms(2) le])
  with ms assms(2-4) show ?thesis by (simp add: caughtUp_def touches_def)
qed

lemma caughtUp_before:
  assumes "touches padId A s t" and "caughtUp padId cs t u c" and "cn_connectionId c \<notin> A"
    and "cn_socketId c = cn_connectionId c"
  shows "caughtUp padId cs s u c"
  using assms by (auto simp: caughtUp_def touches_def reads_def)

lemma updateClients_ok:
  assumes ok: "pad_ok (sv_pads s padId) cs d" and c: "\<forall>c \<in> set L. ready padId s c"
    and d: "distinct (map cn_connectionId L)"
  shows "wp (forA (\<lambda>c. updateClient padId (cn_connectionId c)) L) (\<lambda>_ s'.
    touches padId (cn_connectionId ` set L) s s' \<and> (\<forall>c \<in> set L. caughtUp padId cs s s' c)) s"
  using assms
proof (induction L arbitrary: s)
  case Nil
  then show ?case by (simp add: wps touches_def reads_refl [OF pad_ok_wf])
next
  case (Cons c L)
  let ?A = "cn_connectionId ` set L"
  have id: "cn_connectionId c \<notin> ?A" "\<forall>c' \<in> set (c # L). cn_socketId c' = cn_connectionId c'"
    using Cons.prems(2,3) by (auto simp: ready_def)
  show ?case
    unfolding forA.simps wp_then
  proof (rule wp_mono [OF updateClient_ok [OF Cons.prems(1)]], use Cons.prems(2) in simp, elim conjE)
    fix s1
    assume s1: "touches padId {cn_connectionId c} s s1" "caughtUp padId cs s s1 c"
    have L: "\<forall>c' \<in> set L. ready padId s1 c'"
    proof
      fix c'
      assume c': "c' \<in> set L"
      with id(1) have "cn_connectionId c' \<notin> {cn_connectionId c}" by (metis imageI singletonD)
      with Cons.prems(2) c' show "ready padId s1 c'" by (intro touches_ready [OF s1(1)]) simp_all
    qed
    have "wp (forA (\<lambda>c. updateClient padId (cn_connectionId c)) L) (\<lambda>_ s'.
        touches padId ?A s1 s' \<and> (\<forall>c \<in> set L. caughtUp padId cs s1 s' c)) s1"
      by (rule Cons.IH [OF touches_ok [OF s1(1) Cons.prems(1)] L]) (use Cons.prems(3) in simp)
    then show "wp (forA (\<lambda>c. updateClient padId (cn_connectionId c)) L) (\<lambda>_ s'.
        touches padId (cn_connectionId ` set (c # L)) s s' \<and> (\<forall>c \<in> set (c # L). caughtUp padId cs s s' c)) s1"
    proof (rule wp_mono, elim conjE)
      fix s2
      assume s2: "touches padId ?A s1 s2" "\<forall>c \<in> set L. caughtUp padId cs s1 s2 c"
      have "touches padId (cn_connectionId ` set (c # L)) s s2" using touches_trans [OF s1(1) s2(1)] by simp
      moreover have "caughtUp padId cs s s2 c" using caughtUp_then [OF s1(2) s2(1) id(1)] id(2) by simp
      moreover have "caughtUp padId cs s s2 c'" if "c' \<in> set L" for c'
      proof -
        from id(1) that have "cn_connectionId c' \<notin> {cn_connectionId c}" by (metis imageI singletonD)
        with s2(2) that id(2) show ?thesis by (intro caughtUp_before [OF s1(1)]) simp_all
      qed
      ultimately show "touches padId (cn_connectionId ` set (c # L)) s s2 \<and>
        (\<forall>c \<in> set (c # L). caughtUp padId cs s s2 c)" by simp
    qed
  qed
qed

lemma members_distinct:
  assumes "rooms_ok (skeleton s)"
  shows "distinct (map cn_connectionId (roomMembers s n))"
proof -
  have t: "tables (skeleton s)" using assms by (simp add: rooms_ok_def)
  have id: "cn_connectionId c = cid" if "obj_get (sv_allConnections s) cid = Some c" for cid c
  proof -
    have "snd (snd (skeleton s)) cid = Some (membership c)" using that by (simp add: skeleton_def member_def)
    then have "snd (snd (skeleton s)) cid = Some (cn_roomName c, cn_connectionId c, cn_socketId c, userId c)"
      by (simp add: membership_def)
    from tables_mem [OF t this] show ?thesis by simp
  qed
  have "distinct (map cn_connectionId (List.map_filter (obj_get (sv_allConnections s)) ids))" if "distinct ids" for ids
    using that
  proof (induction ids)
    case (Cons x xs)
    have "cn_connectionId c \<in> set xs" if "c \<in> set (List.map_filter (obj_get (sv_allConnections s)) xs)" for c
      using that id by (auto simp: in_map_filter)
    with Cons id [of x] show ?case by (auto simp: List.map_filter_simps split: option.split)
  qed (simp add: List.map_filter_simps)
  with t show ?thesis by (fastforce simp: roomMembers_def tables_def skeleton_def split: option.split)
qed

lemma ready_member:
  assumes "tables (skeleton s)" and "c \<in> set (roomMembers s n)" and "\<forall>r. cd_lastRev (cn_data c) = Some r \<longrightarrow> - 1 \<le> r"
  shows "ready padId s c"
proof -
  obtain cid where cid: "obj_get (sv_allConnections s) cid = Some c"
    using assms(2) by (auto simp: roomMembers_def in_map_filter split: option.splits)
  then have "snd (snd (skeleton s)) cid = Some (cn_roomName c, cn_connectionId c, cn_socketId c, userId c)"
    by (simp add: skeleton_def member_def membership_def)
  from assms(1) [unfolded tables_def] this have "cn_connectionId c = cid \<and> cn_socketId c = cid \<and>
      (\<exists>r. obj_get (fst (skeleton s)) (cn_roomName c) = Some r)" by (fastforce split: prod.splits)
  with cid assms(3) show ?thesis by (auto simp: ready_def skeleton_def)
qed

text \<open>What \<open>updatePadClients\<close> does, for use with the clients.\<close>

lemma updatePadClients_ok:
  assumes ok: "pad_ok (sv_pads s padId) cs d" and rooms: "rooms_ok (skeleton s)"
    and known: "\<forall>c \<in> set (roomMembers s (padIdToRoom padId)). \<forall>r. cd_lastRev (cn_data c) = Some r \<longrightarrow> - 1 \<le> r"
    and views: "obj_get (sv_rooms s) (viewIdToRoom padId) = None"
      "obj_get (sv_rooms s) (viewIdToRoom (padIdToReadonly (en_nextInt (sv_env s)) padId)) = None"
  shows "wp (updatePadClients padId) (\<lambda>_ s'. pad_ok (sv_pads s' padId) cs d \<and>
      pool_le (poolView (sv_pads s padId)) (poolView (sv_pads s' padId)) \<and>
      (\<forall>c \<in> set (roomMembers s (padIdToRoom padId)). caughtUp padId cs s s' c)) s"
proof -
  let ?L = "roomMembers s (padIdToRoom padId)"
  have t: "tables (skeleton s)" using rooms by (simp add: rooms_ok_def)
  have "ready padId s c" if "c \<in> set ?L" for c
    by (rule ready_member [OF t that]) (use known that in blast)
  then have loop: "wp (forA (\<lambda>c. updateClient padId (cn_connectionId c)) ?L) (\<lambda>_ s'.
      touches padId (cn_connectionId ` set ?L) s s' \<and> (\<forall>c \<in> set ?L. caughtUp padId cs s s' c)) s"
    by (intro updateClients_ok [OF ok _ members_distinct [OF rooms]]) blast
  have views': "wp (view_updatePadClients padId) (\<lambda>_ s''. s'' = s') s'"
    if "touches padId (cn_connectionId ` set ?L) s s'" for s'
  proof -
    have none: "roomMembers s' (viewIdToRoom padId) = []"
      "roomMembers s' (viewIdToRoom (padIdToReadonly (en_nextInt (sv_env s')) padId)) = []"
      using that views by (auto simp: roomMembers_def touches_def)
    show ?thesis
      by (simp add: view_updatePadClients_def view_connections_def wps wp_env Let_def getRoomConnections_def none)
  qed
  show ?thesis
    unfolding updatePadClients_def wp_then wp_bind getPadConnections_def getRoomConnections_def wp_get
  proof (rule wp_mono [OF loop], elim conjE)
    fix s1
    assume s1: "touches padId (cn_connectionId ` set ?L) s s1" "\<forall>c \<in> set ?L. caughtUp padId cs s s1 c"
    show "wp (view_updatePadClients padId) (\<lambda>_ s'. pad_ok (sv_pads s' padId) cs d \<and>
      pool_le (poolView (sv_pads s padId)) (poolView (sv_pads s' padId)) \<and> (\<forall>c \<in> set ?L. caughtUp padId cs s s' c)) s1"
      by (rule wp_mono [OF views' [OF s1(1)]]) (use s1 touches_ok [OF s1(1) ok] in \<open>simp add: touches_def reads_def\<close>)
  qed
qed

text \<open>
  C10. A pad that has changed brings its editors up to date: with no read-only room open, \<open>updatePadClients\<close>
  returns with the pad as it was, and each connection of the room has been sent, after what it was sent
  before, in order one message for each revision after the last it knew: for a revision of its own the
  acknowledgement, for any other the revision over a pool of its own, edit by edit the same and taking
  the text before the revision to the text after it. The connection is then at the head revision.
\<close>

theorem updatePadClients_delivers:
  assumes ok: "pad_ok (sv_pads s padId) cs d" and rooms: "rooms_ok (skeleton s)"
    and known: "\<forall>c \<in> set (roomMembers s (padIdToRoom padId)). \<forall>r. cd_lastRev (cn_data c) = Some r \<longrightarrow> - 1 \<le> r"
    and views: "obj_get (sv_rooms s) (viewIdToRoom padId) = None"
      "obj_get (sv_rooms s) (viewIdToRoom (padIdToReadonly (en_nextInt (sv_env s)) padId)) = None"
  shows "\<exists>s'. updatePadClients padId s = (Inr (), s') \<and> pad_ok (sv_pads s' padId) cs d \<and>
    (\<forall>c \<in> set (roomMembers s (padIdToRoom padId)).
      obj_get (sv_allConnections s') (cn_connectionId c) = Some (revised (int (length cs) - 1) c) \<and>
      (\<exists>ms. sentTo (cn_socketId c) (sv_comet s') = sentTo (cn_socketId c) (sv_comet s) @ ms \<and>
        list_all2 (delivers (poolView (sv_pads s' padId)) cs (sockets (sv_pads s padId)) (cn_socketId c))
          (revisionsAfter (cd_lastRev (cn_data c)) (int (length cs) - 1)) ms))"
  using wp_returns [OF updatePadClients_ok [OF assms]] by (auto simp: caughtUp_def)

subsection \<open>A sample run\<close>

text \<open>An editor at revision 0 of a pad whose head is revision 1, the pad in an access.\<close>

definition lateEditor :: serverState where
  "lateEditor = oneEditor\<lparr>sv_pads := (sv_pads oneEditor)(''p'' := snd (beginAccess ReadWrite samplePad))\<rparr>"

lemma lateEditor_pad: "pad_ok (sv_pads lateEditor ''p'') [''Z:1>2+2$ab'', ''Z:3>1=1+1$x''] (''axb'' @ [nl])"
proof -
  obtain t where "beginAccess ReadWrite samplePad = (Inr (), t)" "pad_ok t [''Z:1>2+2$ab'', ''Z:3>1=1+1$x''] (''axb'' @ [nl])"
    using wp_returns [OF beginAccess_ok [OF padHistory_rest [OF sample_pad]], of ReadWrite] by auto
  then show ?thesis by (simp add: lateEditor_def)
qed

lemma lateEditor_rooms: "rooms_ok (skeleton lateEditor)"
  unfolding lateEditor_def by (rule serverRun_ok [OF serverRun.pads [OF oneEditor_run]])

lemma lateEditor_room:
  "map (\<lambda>c. (cn_socketId c, cd_lastRev (cn_data c))) (roomMembers oneEditor (padIdToRoom ''p'')) = [(''s1'', Some 0)]"
  "obj_get (map (\<lambda>(n, r). (n, ())) (sv_rooms oneEditor)) (viewIdToRoom ''p'') = None"
  "obj_get (map (\<lambda>(n, r). (n, ())) (sv_rooms oneEditor))
     (viewIdToRoom (padIdToReadonly (en_nextInt (sv_env oneEditor)) ''p'')) = None"
  by (code_simp, code_simp, code_simp)

theorem updatePadClients_delivers_witness:
  "\<exists>s' m. updatePadClients ''p'' lateEditor = (Inr (), s') \<and>
    sentTo ''s1'' (sv_comet s') = sentTo ''s1'' (sv_comet lateEditor) @ [m]"
proof -
  have none: "obj_get (map (\<lambda>(n, r). (n, ())) ob) k = None \<Longrightarrow> obj_get ob k = None" for ob :: "(string, room) obj" and k
    by (induction ob) (auto simp: obj_get_def)
  have rm: "roomMembers lateEditor n = roomMembers oneEditor n" "sv_rooms lateEditor = sv_rooms oneEditor"
    "sv_env lateEditor = sv_env oneEditor" for n
    by (simp_all add: lateEditor_def roomMembers_def cong: option.case_cong)
  obtain c where c: "roomMembers lateEditor (padIdToRoom ''p'') = [c]" "cn_socketId c = ''s1''" "cd_lastRev (cn_data c) = Some 0"
    using lateEditor_room(1) unfolding rm by auto
  have k: "\<forall>c \<in> set (roomMembers lateEditor (padIdToRoom ''p'')). \<forall>r. cd_lastRev (cn_data c) = Some r \<longrightarrow> - 1 \<le> r"
    using c by simp
  have up: "[0 + 1 .. int (length [''Z:1>2+2$ab'', ''Z:3>1=1+1$x'']) - 1] = [1]" by simp
  from updatePadClients_delivers [OF lateEditor_pad lateEditor_rooms k]
  obtain s' ms where "updatePadClients ''p'' lateEditor = (Inr (), s')"
    "sentTo ''s1'' (sv_comet s') = sentTo ''s1'' (sv_comet lateEditor) @ ms" "length ms = 1"
    using none [OF lateEditor_room(2)] none [OF lateEditor_room(3)] c rm up
    by (auto simp: revisionsAfter_def dest: list_all2_lengthD)
  then show ?thesis by (cases ms) auto
qed

end
