(* ===== verification/MergeLaws.thy ===== *)
theory MergeLaws
  imports CollabLaws
begin

text \<open>
  The changes of users: \<open>mergeUserChanges\<close> carries a change over the revisions its author had not seen, so
  that his document and the server's meet, and \<open>appendBlankLine\<close> keeps a blank line at the end.
\<close>

subsection \<open>Both sides of a rebase\<close>

text \<open>
  The revisions as the author of \<open>c\<close> applies them to a document that has \<open>c\<close> already: each follows his
  change, and his change follows it.
\<close>

fun pastChange :: "string list \<Rightarrow> bool \<Rightarrow> string \<Rightarrow> pool \<Rightarrow> string list res" where
  "pastChange [] r c p = Inr []"
| "pastChange (x # xs) r c p =
     bindE (followIn x c r p) (\<lambda>(c', q).
     bindE (followIn c x (\<not> r) q) (\<lambda>(x', _).
     bindE (pastChange xs r c' q) (\<lambda>xs'. Inr (x' # xs'))))"

lemma sides_meet:
  assumes "ot.path p xs d dn" and "applies p c d dc"
  shows "\<exists>c' p' xs' d'. ot.rebased xs r c p = Inr (c', p') \<and> pool_le p p' \<and> applies p' c' dn d' \<and>
    pastChange xs r c p = Inr xs' \<and> replay xs' dc = Inr d'"
  using assms
proof (induction xs arbitrary: c p d dc)
  case Nil
  then show ?case using pool_le_refl [OF applies_wf] by (auto simp: replay_def)
next
  case (Cons x xs)
  then obtain e where e: "applies p x d e" "ot.path p xs e dn" by auto
  obtain c1 p1 x' p2 d1 where f: "followIn x c r p = Inr (c1, p1)" "pool_wf p \<longrightarrow> pool_le p p1" "applies p1 c1 e d1"
    "followIn c x (\<not> r) p1 = Inr (x', p2)" "pool_wf p1 \<longrightarrow> pool_le p1 p2" "applies p2 x' dc d1"
    using ot.fol_both [OF e(1) Cons.prems(2), of r] by metis
  have le: "pool_le p p1" using f(2) applies_wf [OF e(1)] by simp
  obtain c' p' xs' d' where g: "ot.rebased xs r c1 p1 = Inr (c', p')" "pool_le p1 p'" "applies p' c' dn d'"
    "pastChange xs r c1 p1 = Inr xs'" "replay xs' d1 = Inr d'"
    using Cons.IH [OF path_pool_le [OF le e(2)] f(3)] by metis
  have "replay (x' # xs') dc = Inr d'" using g(5) applies_text [OF f(6)] by (simp add: replay_def)
  with f(1,4) g pool_le_trans [OF le g(2)] show ?case by auto
qed

subsection \<open>Merging\<close>

lemma rebaseOver_ok:
  assumes ok: "pad_ok (sv_pads s padId) cs d" and r: "0 \<le> r" "r < int (length cs)"
    and f: "followIn (cs ! nat r) c False (poolView (sv_pads s padId)) = Inr (c', q)" "pool_le (poolView (sv_pads s padId)) q"
  shows "wp (rebaseOver padId r c) (\<lambda>x s'. x = c' \<and> poolView (sv_pads s' padId) = q \<and> steps padId s s') s"
proof -
  obtain m where m: "arrays_ok (sv_pads s padId)"
    "pad_inv (poolView (sv_pads s padId)) (content (sv_pads s padId)) m (pd_modelCache (sv_pads s padId)) cs d"
    using ok by (auto simp: pad_ok_def)
  have "wp (getRevisionChangeset r) (\<lambda>x t. reads (sv_pads s padId) t \<and> x = cs ! nat r \<and> arrays_ok t \<and>
      poolView t = poolView (sv_pads s padId)) (sv_pads s padId)"
    unfolding getRevisionChangeset_def
    by (rule wp_getChangeset [OF m(1) r(1) pad_inv_rev [OF m(2) r]])
      (simp add: grows_reads sameArrays_grows pad_ok_wf [OF ok] views)
  then show ?thesis
    unfolding rebaseOver_def wp_bind
  proof (rule wp_reading)
    fix x t
    assume t: "reads (sv_pads s padId) t" "x = cs ! nat r \<and> arrays_ok t \<and> poolView t = poolView (sv_pads s padId)"
    let ?s = "s\<lparr>sv_pads := (sv_pads s)(padId := t)\<rparr>"
    have fo: "follow x c False (Some (poolView t)) = Inr (c', Some q)" using f(1) t(2) by (simp add: followIn_def)
    have "reads t (t\<lparr>pd_apool := Some q\<rparr>)"
      using t(2) f(2) by (intro grows_reads pool_grows) simp_all
    then have "steps padId s (?s\<lparr>sv_pads := (sv_pads ?s)(padId := t\<lparr>pd_apool := Some q\<rparr>)\<rparr>)"
      by (intro steps_trans [OF steps_pad [OF t(1)] steps_pad]) simp
    then show "wp (onPad padId (withPadPool (follow x c False))) (\<lambda>x s'. x = c' \<and> poolView (sv_pads s' padId) = q \<and> steps padId s s') ?s"
      by (simp add: wp_onPad wp_withPadPool [where f = "follow x c False" and s = t, OF fo] views)
  qed
qed

lemma rebase_ok:
  assumes ok: "pad_ok (sv_pads s padId) cs d" and rs: "\<forall>r \<in> set rs. 0 \<le> r \<and> r < int (length cs)"
    and p: "ot.path (poolView (sv_pads s padId)) (map (\<lambda>r. cs ! nat r) rs) e dn"
      "applies (poolView (sv_pads s padId)) c e dc"
    and b: "ot.rebased (map (\<lambda>r. cs ! nat r) rs) False c (poolView (sv_pads s padId)) = Inr (c', q)"
  shows "wp (foldA (rebaseOver padId) rs c) (\<lambda>x s'. x = c' \<and> poolView (sv_pads s' padId) = q \<and> steps padId s s') s"
  using assms
proof (induction rs arbitrary: s c e dc)
  case Nil
  then show ?case by (simp add: wps steps_refl [OF pad_ok_wf])
next
  case (Cons r rs)
  let ?p = "poolView (sv_pads s padId)" let ?x = "cs ! nat r"
  from Cons.prems(3) obtain e1 where e1: "applies ?p ?x e e1" "ot.path ?p (map (\<lambda>r. cs ! nat r) rs) e1 dn" by auto
  obtain c1 p1 d1 where f: "followIn ?x c False ?p = Inr (c1, p1)" "pool_wf ?p \<longrightarrow> pool_le ?p p1" "applies p1 c1 e1 d1"
    using ot.fol_both [OF e1(1) Cons.prems(4), of False] by metis
  have le: "pool_le ?p p1" using f(2) applies_wf [OF e1(1)] by simp
  have b: "ot.rebased (map (\<lambda>r. cs ! nat r) rs) False c1 p1 = Inr (c', q)" using Cons.prems(5) f(1) by simp
  show ?case
    unfolding foldA.simps wp_bind
  proof (rule wp_mono [OF rebaseOver_ok [OF Cons.prems(1) _ _ f(1) le]], use Cons.prems(2) in simp,
      use Cons.prems(2) in simp, elim conjE)
    fix x s1
    assume s1: "x = c1" "poolView (sv_pads s1 padId) = p1" "steps padId s s1"
    have "wp (foldA (rebaseOver padId) rs c1) (\<lambda>x s'. x = c' \<and> poolView (sv_pads s' padId) = q \<and> steps padId s1 s') s1"
      by (rule Cons.IH [OF steps_ok [OF s1(3) Cons.prems(1)]])
        (use Cons.prems(2) s1(2) path_pool_le [OF le e1(2)] f(3) b in simp_all)
    then show "wp (foldA (rebaseOver padId) rs x) (\<lambda>x s'. x = c' \<and> poolView (sv_pads s' padId) = q \<and> steps padId s s') s1"
      unfolding s1(1) by (rule wp_mono) (use steps_trans [OF s1(3)] in blast)
  qed
qed

lemma applies_oldLen: "applies p c d d' \<Longrightarrow> oldLen c = Inr (int (length d))"
  by (cases "unpack c"; cases "parse_ops (up_ops (projr (unpack c)))") (auto simp: applies_def cs_on_def oldLen_def)

lemma changeAuthor_ok: "wp (changeAuthor sid a) (\<lambda>_ s'. s' = s) s"
  by (simp add: changeAuthor_def wps getSocketConnectionId_def getConnection_def)

lemma pad_text_ok:
  assumes "pad_ok t cs d"
  shows "wp pad_text (\<lambda>x t'. x = d \<and> pad_ok t' cs d \<and> pool_le (poolView t) (poolView t') \<and> sockets t' = sockets t) t"
  unfolding pad_text_def pad_atext_def wp_bind
  by (rule wp_mono [OF getCurrentAText_ok [OF assms]]) (simp add: wps cloneAText_def sockets_def)

lemma upto_drop: "- 1 \<le> b \<Longrightarrow> map (\<lambda>r. xs ! nat r) [b + 1 .. int (length xs) - 1] = drop (nat (b + 1)) xs"
  by (rule nth_equalityI) (auto simp: nat_diff_distrib nat_add_distrib)

lemma setRevisionSocket_ok:
  assumes ok: "pad_ok (sv_pads s padId) cs d"
  shows "wp (setRevisionSocket padId r sid) (\<lambda>_ s'. pad_ok (sv_pads s' padId) cs d \<and>
    pool_le (poolView (sv_pads s padId)) (poolView (sv_pads s' padId)) \<and>
    sockets (sv_pads s' padId) = obj_put (sockets (sv_pads s padId)) r sid) s"
  unfolding setRevisionSocket_def wp_bind
proof (rule wp_mono [OF revisionSockets_ok [OF ok]], elim conjE)
  fix m s1
  assume s1: "steps padId s s1" "m = sockets (sv_pads s padId)"
  then have "pad_ok (sv_pads s1 padId) cs d" "pool_le (poolView (sv_pads s padId)) (poolView (sv_pads s1 padId))"
    using steps_ok [OF _ ok] by (auto simp: steps_def reads_def)
  with s1(2) show "wp (onPad padId (modTemp (\<lambda>t. t\<lparr>tm_revisionSockets := Some (obj_put m r sid)\<rparr>)))
      (\<lambda>_ s'. pad_ok (sv_pads s' padId) cs d \<and> pool_le (poolView (sv_pads s padId)) (poolView (sv_pads s' padId)) \<and>
        sockets (sv_pads s' padId) = obj_put (sockets (sv_pads s padId)) r sid) s1"
    by (simp add: wp_onPad wp_modTemp pad_ok_def views sockets_def)
qed

text \<open>A revision was added, and the socket it came from recorded.\<close>

definition committed :: "string \<Rightarrow> string list \<Rightarrow> string \<Rightarrow> string \<Rightarrow> string option \<Rightarrow> serverState \<Rightarrow> serverState \<Rightarrow> bool" where
  "committed padId cs c d' sid s s' = (pad_ok (sv_pads s' padId) (cs @ [c]) d' \<and>
     pool_le (poolView (sv_pads s padId)) (poolView (sv_pads s' padId)) \<and>
     sockets (sv_pads s' padId) = (if truthy sid then obj_put (sockets (sv_pads s padId)) (int (length cs)) (the sid)
       else sockets (sv_pads s padId)))"

lemma committed_after:
  "pool_le (poolView (sv_pads s padId)) (poolView (sv_pads t padId)) \<Longrightarrow> sockets (sv_pads t padId) = sockets (sv_pads s padId) \<Longrightarrow>
   committed padId cs c d' sid t s' \<Longrightarrow> committed padId cs c d' sid s s'"
  unfolding committed_def using pool_le_trans by metis

lemma merge_end:
  assumes ok: "pad_ok (sv_pads s padId) cs d" and c: "applies (poolView (sv_pads s padId)) c d d'"
  shows "wp (thenA (onPad padId (appendRevision c author None))
      (bindA (onPad padId getHeadRevisionNumber) (\<lambda>newRev.
       thenA (whenA (truthy sid) (setRevisionSocket padId newRev (the sid))) (ret (Some author)))))
     (\<lambda>a s'. a = Some author \<and> committed padId cs c d' sid s s') s"
  unfolding wp_then wp_onPad appendRevision_def wp_bind
proof (rule wp_mono [OF addRevision_ok [OF ok c]], elim conjE)
  fix x and t :: padState
  assume t: "pad_ok t (cs @ [c]) d'" "pool_le (poolView (sv_pads s padId)) (poolView t)"
    "tm_revisionSockets (tempView t) = tm_revisionSockets (tempView (sv_pads s padId))"
  let ?s = "s\<lparr>sv_pads := (sv_pads s)(padId := t)\<rparr>"
  let ?Q = "\<lambda>a s'. a = Some author \<and> committed padId cs c d' sid s s'"
  have sk: "sockets t = sockets (sv_pads s padId)" using t(3) by (simp add: sockets_def)
  have after: "committed padId cs c d' sid s s'" if "committed padId cs c d' sid ?s s'" for s'
    by (rule committed_after [OF _ _ that]) (use t(2) sk in simp_all)
  have same: "?s\<lparr>sv_pads := (sv_pads ?s)(padId := t)\<rparr> = ?s" by simp
  have ok': "pad_ok (sv_pads ?s padId) (cs @ [c]) d'" using t(1) by simp
  have rest: "wp (whenA (truthy sid) (setRevisionSocket padId (int (length cs)) (the sid))) (\<lambda>_. wp (ret (Some author)) ?Q) ?s"
  proof (cases "truthy sid")
    case True
    then obtain x where x: "sid = Some x" by (cases sid) (auto simp: truthy_def)
    have "wp (setRevisionSocket padId (int (length cs)) x) (\<lambda>_. wp (ret (Some author)) ?Q) ?s"
    proof (rule wp_mono [OF setRevisionSocket_ok [OF ok']])
      fix y and s' :: serverState
      assume "pad_ok (sv_pads s' padId) (cs @ [c]) d' \<and> pool_le (poolView (sv_pads ?s padId)) (poolView (sv_pads s' padId)) \<and>
        sockets (sv_pads s' padId) = obj_put (sockets (sv_pads ?s padId)) (int (length cs)) x"
      then have "committed padId cs c d' sid ?s s'" using True x by (simp add: committed_def)
      then show "wp (ret (Some author)) ?Q s'" using after by (simp add: wps)
    qed
    with True x show ?thesis by simp
  next
    case False
    have "committed padId cs c d' sid ?s ?s" using False ok' pool_le_refl [OF pad_ok_wf [OF ok']] by (simp add: committed_def)
    with False show ?thesis using after by (simp add: wps)
  qed
  show "wp getHeadRevisionNumber (\<lambda>h t'. wp (whenA (truthy sid) (setRevisionSocket padId h (the sid)))
      (\<lambda>_. wp (ret (Some author)) ?Q) (?s\<lparr>sv_pads := (sv_pads ?s)(padId := t')\<rparr>)) (sv_pads ?s padId)"
    by (rule wp_mono [OF head_ok [OF ok']]) (use rest same in simp)
qed

lemma commitChanges_ok:
  assumes ok: "pad_ok (sv_pads s padId) cs d" and c: "applies (poolView (sv_pads s padId)) c d d'"
  shows "wp (commitChanges padId sid a c) (\<lambda>x s'. (\<exists>author. x = Some author) \<and> committed padId cs c d' sid s s') s"
proof -
  let ?Q = "\<lambda>x s'. (\<exists>author. x = Some author) \<and> committed padId cs c d' sid s s'"
  show ?thesis
    unfolding commitChanges_def wp_bind [of "onPad padId pad_text"] wp_onPad [of padId pad_text]
  proof (rule wp_mono [OF pad_text_ok [OF ok]], elim conjE)
    fix y and t :: padState
    assume t: "y = d" "pad_ok t cs d" "pool_le (poolView (sv_pads s padId)) (poolView t)"
      "sockets t = sockets (sv_pads s padId)"
    let ?s = "s\<lparr>sv_pads := (sv_pads s)(padId := t)\<rparr>"
    have after: "committed padId cs c d' sid ?s s' \<Longrightarrow> committed padId cs c d' sid s s'" for s'
      using committed_after [of s padId ?s] t(3,4) by simp
    have a: "applies (poolView (sv_pads ?s padId)) c d d'" using applies_pool_le [OF t(3) c] by simp
    have ok': "pad_ok (sv_pads ?s padId) cs d" using t(2) by simp
    have "wp (changeAuthor sid a) (\<lambda>author. wp (thenA (onPad padId (appendRevision c author None))
      (bindA (onPad padId getHeadRevisionNumber) (\<lambda>newRev.
       thenA (whenA (truthy sid) (setRevisionSocket padId newRev (the sid)))
       (ret (Some author))))) ?Q) ?s"
      by (rule wp_mono [OF changeAuthor_ok]) (simp only:, rule wp_mono [OF merge_end [OF ok' a]], use after in blast)
    then show "wp (bindA (liftA (oldLen c)) (\<lambda>n.
        if n \<noteq> int (length y) then thenA (serverCall (Warn ''Can't apply USER_CHANGES'')) (ret None)
        else
         bindA (changeAuthor sid a) (\<lambda>thisAuthor.
         thenA (onPad padId (appendRevision c thisAuthor None))
        (bindA (onPad padId getHeadRevisionNumber) (\<lambda>newRev.
         thenA (whenA (truthy sid) (setRevisionSocket padId newRev (the sid)))
         (ret (Some thisAuthor))))))) ?Q ?s"
      unfolding t(1) applies_oldLen [OF a] by (simp add: wp_lift wp_bind)
  qed
qed

lemma wp_onPad_pool:
  assumes ok: "pad_ok (sv_pads s padId) cs d"
    and "\<And>s'. pad_ok (sv_pads s' padId) cs d \<Longrightarrow> poolView (sv_pads s' padId) = poolView (sv_pads s padId) \<Longrightarrow>
      sockets (sv_pads s' padId) = sockets (sv_pads s padId) \<Longrightarrow> Q (poolView (sv_pads s padId)) s'"
  shows "wp (onPad padId getPadAPool) Q s"
  unfolding wp_onPad wp_apool
proof (rule assms(2))
  let ?t = "(sv_pads s padId)\<lparr>pd_apool := Some (poolView (sv_pads s padId))\<rparr>"
  have "grows (sv_pads s padId) ?t"
    using ok pad_ok_wf [OF ok] by (intro pool_grows pool_le_refl) (auto simp: pad_ok_def)
  from pad_ok_grows [OF ok this]
  show "pad_ok (sv_pads (s\<lparr>sv_pads := (sv_pads s)(padId := ?t)\<rparr>) padId) cs d" by simp
  show "poolView (sv_pads (s\<lparr>sv_pads := (sv_pads s)(padId := ?t)\<rparr>) padId) = poolView (sv_pads s padId)"
    "sockets (sv_pads (s\<lparr>sv_pads := (sv_pads s)(padId := ?t)\<rparr>) padId) = sockets (sv_pads s padId)"
    by (simp_all add: views sockets_def)
qed

lemma wp_onPad_head:
  assumes ok: "pad_ok (sv_pads s padId) cs d" and Q: "Q (int (length cs) - 1) s"
  shows "wp (onPad padId getHeadRevisionNumber) Q s"
  unfolding wp_onPad by (rule wp_mono [OF head_ok [OF ok]]) (use Q in simp)

lemma mergeUserChanges_ok:
  assumes ok: "pad_ok (sv_pads s padId) cs d" and b: "- 1 \<le> baseRev" "baseRev < int (length cs)"
    and e: "ot.path (poolView (sv_pads s padId)) (drop (nat (baseRev + 1)) cs) e d"
    and c: "applies (poolView (sv_pads s padId)) c e dc"
    and m: "ot.rebased (drop (nat (baseRev + 1)) cs) False c (poolView (sv_pads s padId)) = Inr (c', q)"
      "pool_le (poolView (sv_pads s padId)) q" "applies q c' d d'"
  shows "wp (mergeUserChanges padId baseRev c sid a) (\<lambda>x s'. (\<exists>author. x = Some author) \<and> committed padId cs c' d' sid s s') s"
proof -
  let ?p = "poolView (sv_pads s padId)"
  let ?Q = "\<lambda>x s'. (\<exists>author. x = Some author) \<and> committed padId cs c' d' sid s s'"
  let ?rs = "[baseRev + 1 .. int (length cs) - 1]"
  note rs = upto_drop [OF b(1), of cs]
  have rest: "wp (foldA (rebaseOver padId) ?rs c) (\<lambda>x. wp (commitChanges padId sid a x) ?Q) s1"
    if s1: "pad_ok (sv_pads s1 padId) cs d" "poolView (sv_pads s1 padId) = ?p" "sockets (sv_pads s1 padId) = sockets (sv_pads s padId)" for s1
  proof (rule wp_mono [OF rebase_ok [OF s1(1), where c' = c' and q = q]])
    show "\<forall>r \<in> set ?rs. 0 \<le> r \<and> r < int (length cs)" using b by auto
    show "ot.path (poolView (sv_pads s1 padId)) (map (\<lambda>r. cs ! nat r) ?rs) e d" using e s1(2) rs by simp
    show "applies (poolView (sv_pads s1 padId)) c e dc" using c s1(2) by simp
    show "ot.rebased (map (\<lambda>r. cs ! nat r) ?rs) False c (poolView (sv_pads s1 padId)) = Inr (c', q)"
      using m(1) s1(2) rs by simp
  next
    fix x s2
    assume s2: "x = c' \<and> poolView (sv_pads s2 padId) = q \<and> steps padId s1 s2"
    then have ok2: "pad_ok (sv_pads s2 padId) cs d" using steps_ok [OF _ s1(1)] by blast
    have sk: "sockets (sv_pads s2 padId) = sockets (sv_pads s padId)" using s2 s1(3) by (simp add: steps_def reads_def)
    from s2 have s2': "x = c'" "poolView (sv_pads s2 padId) = q" by simp_all
    have a: "applies (poolView (sv_pads s2 padId)) c' d d'" using m(3) s2'(2) by simp
    have le: "pool_le ?p (poolView (sv_pads s2 padId))" using m(2) s2'(2) by simp
    show "wp (commitChanges padId sid a x) ?Q s2"
      unfolding s2'(1) by (rule wp_mono [OF commitChanges_ok [OF ok2 a]]) (use committed_after [OF le sk] in blast)
  qed
  have step: "wp (bindA (onPad padId getHeadRevisionNumber) (\<lambda>head. bindA (foldA (rebaseOver padId) [baseRev + 1 .. head] c)
      (commitChanges padId sid a))) ?Q s1"
    if s1: "pad_ok (sv_pads s1 padId) cs d" "poolView (sv_pads s1 padId) = ?p" "sockets (sv_pads s1 padId) = sockets (sv_pads s padId)" for s1
    unfolding wp_bind by (rule wp_onPad_head [OF s1(1)]) (rule rest [OF s1])
  show ?thesis
    unfolding mergeUserChanges_def wp_bind [of "onPad padId getPadAPool"]
    by (rule wp_onPad_pool [OF ok]) (rule step)
qed

text \<open>
  C3. The server and the author of a change meet: a change that fits the text of the revision it is based on
  is merged, whatever was appended since; the pad gets one revision, the change rebased over those its
  author had not seen, and the text then is the one the author gets by applying to his own the unseen
  revisions, each past his change. A socket is recorded as the revision's sender.
\<close>

theorem mergeUserChanges_meets:
  assumes ok: "pad_ok (sv_pads s padId) cs d" and b: "- 1 \<le> baseRev" "baseRev < int (length cs)"
    and base: "replay (take (nat (baseRev + 1)) cs) [nl] = Inr e"
    and c: "applies (poolView (sv_pads s padId)) c e dc"
  shows "\<exists>author s' c' q xs' d'. mergeUserChanges padId baseRev c optSocketId optAuthor s = (Inr (Some author), s') \<and>
    pad_ok (sv_pads s' padId) (cs @ [c']) d' \<and>
    ot.rebased (drop (nat (baseRev + 1)) cs) False c (poolView (sv_pads s padId)) = Inr (c', q) \<and>
    pastChange (drop (nat (baseRev + 1)) cs) False c (poolView (sv_pads s padId)) = Inr xs' \<and>
    replay xs' dc = Inr d' \<and>
    (truthy optSocketId \<longrightarrow> obj_get (sockets (sv_pads s' padId)) (int (length cs)) = optSocketId)"
proof -
  let ?p = "poolView (sv_pads s padId)" let ?xs = "drop (nat (baseRev + 1)) cs"
  obtain e' where e': "ot.path ?p (take (nat (baseRev + 1)) cs) [nl] e'" "ot.path ?p ?xs e' d"
    using path_prefix [OF pad_ok_path [OF ok]] by blast
  have "e' = e" using path_replay [OF e'(1)] base by simp
  note e = e'(2) [unfolded this]
  obtain c' q xs' d' where m: "ot.rebased ?xs False c ?p = Inr (c', q)" "pool_le ?p q" "applies q c' d d'"
    "pastChange ?xs False c ?p = Inr xs'" "replay xs' dc = Inr d'"
    using sides_meet [OF e c, of False] by blast
  obtain author s' where s': "mergeUserChanges padId baseRev c optSocketId optAuthor s = (Inr (Some author), s')"
    "committed padId cs c' d' optSocketId s s'"
    using wp_returns [OF mergeUserChanges_ok [OF ok b e c m(1-3), of optSocketId optAuthor]] by blast
  have "truthy optSocketId \<longrightarrow> obj_get (sockets (sv_pads s' padId)) (int (length cs)) = optSocketId"
    using s'(2) by (cases optSocketId) (auto simp: committed_def truthy_def)
  with s' m show ?thesis by (auto simp: committed_def)
qed

subsection \<open>The blank line at the end\<close>

lemma makeSplice_none:
  assumes "makeSplice t i n new NoAttribs (Some p) = Inr (c, q)"
  shows "makeSplice t i n new NoAttribs None = Inr (c, None)"
  using assms by (simp add: makeSplice_def sa_appendOpWithText_def makeAttribsString_def Let_def)

lemma rfind_sub_le: "rfind_sub p s i \<le> int i"
  by (induction i) auto

lemma rfind_sub_here: "rfind_sub p s i = int i \<longleftrightarrow> take (length p) (drop i s) = p"
proof (cases i)
  case (Suc j)
  then show ?thesis using rfind_sub_le [of p s j] by auto
qed simp

lemma blank_end:
  assumes "2 \<le> length t"
  shows "js_lastIndexOf t [nl, nl] (int (length t)) = int (length t) - 2 \<longleftrightarrow> drop (length t - 2) t = [nl, nl]"
proof -
  have "nat (int (length t) - 2) = length t - 2" using assms by simp
  with rfind_sub_here [of "[nl, nl]" t "length t - 2"] assms show ?thesis
    by (simp add: js_lastIndexOf_def of_nat_diff)
qed

text \<open>
  C34. The text of a pad is made to end with a blank line: if it does not, \<open>appendBlankLine\<close> appends one newline,
  as a revision that applies, and otherwise it leaves the pad as it was. An empty document, a lone
  newline, is left alone too: \<open>lastIndexOf\<close> finds no blank line at \<open>-1\<close>, where the code looks for it.
\<close>

theorem appendBlankLine_ends:
  assumes ok: "pad_ok (sv_pads s padId) cs (x @ [nl])"
  shows "\<exists>s' cs' d'. appendBlankLine padId s = (Inr (), s') \<and> pad_ok (sv_pads s' padId) cs' d' \<and>
    (if x = [] \<or> last x = nl then cs' = cs \<and> d' = x @ [nl]
     else \<exists>c. cs' = cs @ [c] \<and> d' = x @ [nl, nl])"
proof -
  let ?d = "x @ [nl]"
  let ?Q = "\<lambda>_ s'. \<exists>cs' d'. pad_ok (sv_pads s' padId) cs' d' \<and>
    (if x = [] \<or> last x = nl then cs' = cs \<and> d' = x @ [nl] else \<exists>c. cs' = cs @ [c] \<and> d' = x @ [nl, nl])"
  have blank: "js_lastIndexOf ?d [nl, nl] (int (length ?d)) = int (length ?d) - 2 \<longleftrightarrow> x = [] \<or> last x = nl"
  proof (cases "x = []")
    case True
    then show ?thesis by (simp add: js_lastIndexOf_def)
  next
    case False
    have e: "?d = butlast x @ [last x, nl]" using append_butlast_last_id [OF False] by (metis append.assoc append_Cons append_Nil)
    have "length ?d - 2 = length (butlast x)" by simp
    with e have "drop (length ?d - 2) ?d = [last x, nl]" by (metis append_eq_conv_conj)
    moreover have "2 \<le> length ?d" using False by (cases x) auto
    ultimately show ?thesis using blank_end [of ?d] False by simp
  qed
  have "wp (appendBlankLine padId) ?Q s"
    unfolding appendBlankLine_def wp_bind [of "onPad padId pad_text"] wp_onPad [of padId pad_text]
  proof (rule wp_mono [OF pad_text_ok [OF ok]], elim conjE)
    fix y and t :: padState
    assume t: "y = ?d" "pad_ok t cs ?d"
    let ?s = "s\<lparr>sv_pads := (sv_pads s)(padId := t)\<rparr>"
    show "wp (whenA (js_lastIndexOf y [nl, nl] (int (length y)) \<noteq> int (length y) - 2)
       (bindA (liftA (makeSplice y (int (length y) - 1) 0 [nl] NoAttribs None)) (\<lambda>(nlChangeset, _).
        onPad padId (appendRevision nlChangeset '''' None)))) ?Q ?s"
    proof (cases "x = [] \<or> last x = nl")
      case True
      with blank t show ?thesis by (simp add: wps)
    next
      case False
      then have n: "js_lastIndexOf y [nl, nl] (int (length y)) \<noteq> int (length y) - 2" using blank t(1) by simp
      obtain c where c: "makeSplice y (int (length x)) (int (length [])) [nl] NoAttribs (Some (poolView t)) = Inr (c, Some (poolView t))"
        "applies (poolView t) c y (x @ [nl] @ [nl])"
        using makeSplice_applies [of y x "[]" "[nl]" NoAttribs "poolView t" "[nl]"] t(1) pad_ok_wf [OF t(2)] by auto
      have m: "makeSplice y (int (length y) - 1) 0 [nl] NoAttribs None = Inr (c, None)"
        using makeSplice_none [OF c(1)] t(1) by simp
      have "wp (addRevision c '''' None) (\<lambda>_ t'. pad_ok t' (cs @ [c]) (x @ [nl] @ [nl])) t"
        by (rule wp_mono [OF addRevision_ok [OF t(2)]]) (use c(2) t(1) in auto)
      then have add: "wp (addRevision c '''' None) (\<lambda>_ t'. pad_ok t' (cs @ [c]) (x @ [nl] @ [nl])) (sv_pads ?s padId)"
        by simp
      have "wp (onPad padId (appendRevision c '''' None)) ?Q ?s"
        unfolding wp_onPad appendRevision_def by (rule wp_mono [OF add]) (use False in auto)
      with n m show ?thesis by (simp add: wps)
    qed
  qed
  from wp_returns [OF this] obtain u s' cs' d' where r: "appendBlankLine padId s = (Inr u, s')"
    "pad_ok (sv_pads s' padId) cs' d'"
    "if x = [] \<or> last x = nl then cs' = cs \<and> d' = x @ [nl] else \<exists>c. cs' = cs @ [c] \<and> d' = x @ [nl, nl]"
    by (elim exE conjE) (rule that)
  have "appendBlankLine padId s = (Inr (), s')" using r(1) by simp
  with r(2,3) show ?thesis by (intro exI conjI)
qed

subsection \<open>Sample runs\<close>

theorem mergeUserChanges_meets_witness:
  "\<exists>author s' c' d'. mergeUserChanges ''p'' 0 ''Z:3>1=1+1$x'' (Some ''s1'') None lateEditor = (Inr (Some author), s') \<and>
    pad_ok (sv_pads s' ''p'') [''Z:1>2+2$ab'', ''Z:3>1=1+1$x'', c'] d' \<and>
    obj_get (sockets (sv_pads s' ''p'')) 2 = Some ''s1''"
proof -
  have r: "replay (take (nat (0 + 1)) [''Z:1>2+2$ab'', ''Z:3>1=1+1$x'']) [nl] = Inr (''ab'' @ [nl])" by code_simp
  have a: "applies (poolView (sv_pads lateEditor ''p'')) ''Z:3>1=1+1$x'' (''ab'' @ [nl]) (''axb'' @ [nl])"
    by (rule applies_pool_le [OF empty_pool_le [OF pad_ok_wf [OF lateEditor_pad]] sample_applies(1)])
  from mergeUserChanges_meets [OF lateEditor_pad _ _ r a, of "Some ''s1''" None]
  show ?thesis by (fastforce simp: truthy_def)
qed

theorem appendBlankLine_ends_witness:
  "\<exists>s' c. appendBlankLine ''p'' lateEditor = (Inr (), s') \<and>
    pad_ok (sv_pads s' ''p'') [''Z:1>2+2$ab'', ''Z:3>1=1+1$x'', c] (''axb'' @ [nl, nl])"
  using appendBlankLine_ends [OF lateEditor_pad] by auto

end
