(* ===== verification/CollabClient.thy ===== *)
theory CollabClient
  imports MergeLaws
begin

text \<open>
  The client's end of the connection: \<open>etherpad/src/static/js/collab_client.js\<close>. It sends the changes of the
  editor one commit at a time, hands the server's changes to the editor and keeps the connection up.

  The variables of the closure are the state; the editor is the tracker of \<open>Tracker\<close> with what the editor
  \<open>ed\<close> keeps around it, loaded. The rest of the page and the comet client are reached through \<open>callPage\<close>,
  which records a call and may throw; they call back as events of their own, not within a call. The clock,
  the random numbers and the state of the window are \<open>cl_world\<close>, which may be another one at every event.
  \<open>dmesg\<close> keeps its own list only, not \<open>window.ajlog\<close>; what \<open>getDiagnosticInfo\<close> reports to the developers
  is left out.
\<close>

subsection \<open>State\<close>

datatype commitState = Idle | Committing

datatype channelState = Connecting | Connected | Reconnecting | Disconnected

text \<open>What is posted to a socket.\<close>

datatype posted = Posted cometMessage

datatype pageCall =
    NewWebSocket string
  | SocketConnect string
  | SocketPost string posted
  | SocketDisconnect string
  | SetUserAuthor string
  | SetAuthorInfo string string bool
  | UserJoined userInfo
  | UserLeft userInfo
  | UserUpdated userInfo
  | ChannelStateChanged channelState "string option"
  | ClientMessageReceived payload
  | InternalAction string
  | ConnectionTrouble string
  | ServerMessageReceived serverPayload
  | IdleFunc nat

datatype timer = TimerUserChanges | TimerSetUpSocket | TimerIdleFuncs

record clientWorld =
  wo_now :: int
  wo_random :: string
  wo_windowLoaded :: bool
  wo_stats :: string
  wo_throws :: "pageCall \<Rightarrow> js_error option"

text \<open>
  \<open>cl_socket\<close> is the id of the socket, \<open>cl_muted\<close> the sockets whose handlers for hiccups and closing were
  replaced, \<open>cl_reconnectOf\<close> what a socket's \<open>onopen\<close> knows of the socket before it. A function given to
  \<open>callWhenNotCommitting\<close> is a number.
\<close>

record 'e collabClient =
  cl_editor :: "'e tracker_scheme"
  cl_rev :: int
  cl_globalPadId :: string
  cl_state :: commitState
  cl_stateMessage :: "(string \<times> poolJson) option"
  cl_stateMessageSocketId :: "string option"
  cl_channelState :: channelState
  cl_appLevelDisconnectReason :: "string option"
  cl_lastCommitTime :: int
  cl_initialStartConnectTime :: int
  cl_userId :: string
  cl_socketId :: "string option"
  cl_socket :: "string option"
  cl_muted :: "string list"
  cl_reconnectOf :: "(string, string option) obj"
  cl_userSet :: "(string, userInfo) obj"
  cl_reconnectTimes :: "int list"
  cl_caughtErrors :: "(js_error \<times> string \<times> int) list"
  cl_debugMessages :: "string list"
  cl_hiccupCount :: int
  cl_deferredActions :: "(userInfo \<times> string option) list"
  cl_idleFuncs :: "nat list"
  cl_timers :: "(timer \<times> int) list"
  cl_calls :: "pageCall list"
  cl_colorPalette :: "(int, string) obj"
  cl_world :: clientWorld

subsection \<open>Effects\<close>

definition onEditor :: "('e tracker_scheme, 'a) act \<Rightarrow> ('e collabClient, 'a) act" where
  "onEditor f s = (case f (cl_editor s) of (r, t) \<Rightarrow> (r, s\<lparr>cl_editor := t\<rparr>))"

definition world :: "(clientWorld \<Rightarrow> 'a) \<Rightarrow> ('e collabClient, 'a) act" where
  "world f = getA (\<lambda>s. f (cl_world s))"

definition callPage :: "pageCall \<Rightarrow> ('e collabClient, unit) act" where
  "callPage c =
     thenA (modA (\<lambda>s. s\<lparr>cl_calls := cl_calls s @ [c]\<rparr>))
       (bindA (world (\<lambda>w. wo_throws w c)) (\<lambda>e.
        (case e of None \<Rightarrow> ret () | Some e \<Rightarrow> throwA e)))"

definition setTimeout :: "timer \<Rightarrow> int \<Rightarrow> ('e collabClient, unit) act" where
  "setTimeout t delay = modA (\<lambda>s. s\<lparr>cl_timers := cl_timers s @ [(t, delay)]\<rparr>)"

definition dmesg :: "string \<Rightarrow> ('e collabClient, unit) act" where
  "dmesg str = modA (\<lambda>s. s\<lparr>cl_debugMessages := cl_debugMessages s @ [str]\<rparr>)"

definition wrapRecordingErrors :: "string \<Rightarrow> ('e collabClient, 'a) act \<Rightarrow> ('e collabClient, 'a) act" where
  "wrapRecordingErrors catcher func =
     catchA func (\<lambda>e.
       bindA (world wo_now) (\<lambda>now.
       thenA (modA (\<lambda>s. s\<lparr>cl_caughtErrors := cl_caughtErrors s @ [(e, catcher, now)]\<rparr>)) (throwA e)))"

text \<open>A number as a string.\<close>

fun decimal :: "nat \<Rightarrow> string" where
  "decimal n = (if n < 10 then [''0123456789'' ! n] else decimal (n div 10) @ [''0123456789'' ! (n mod 10)])"

declare decimal.simps [simp del]

definition intString :: "int \<Rightarrow> string" where
  "intString i = (if i < 0 then ''-'' @ decimal (nat (- i)) else decimal (nat i))"

text \<open>Whether the function went through; the error is absorbed.\<close>

definition callCatchingErrors :: "string \<Rightarrow> ('e collabClient, unit) act \<Rightarrow> ('e collabClient, bool) act" where
  "callCatchingErrors catcher func =
     catchA (thenA (wrapRecordingErrors catcher func) (ret True)) (\<lambda>_. ret False)"

subsection \<open>The socket\<close>

text \<open>A method of the variable \<open>socket\<close>, which may be \<open>null\<close>.\<close>

definition onSocket :: "(string \<Rightarrow> pageCall) \<Rightarrow> ('e collabClient, unit) act" where
  "onSocket f =
     bindA (getA cl_socket) (\<lambda>socket.
     (case socket of None \<Rightarrow> throwA (TypeError ''socket is null'') | Some sid \<Rightarrow> callPage (f sid)))"

definition client_sendMessage :: "posted \<Rightarrow> ('e collabClient, unit) act" where
  "client_sendMessage msg = onSocket (\<lambda>sid. SocketPost sid msg)"

definition muteSocket :: "string \<Rightarrow> ('e collabClient, unit) act" where
  "muteSocket sid = modA (\<lambda>s. s\<lparr>cl_muted := sid # cl_muted s\<rparr>)"

definition setChannelState :: "channelState \<Rightarrow> string option \<Rightarrow> ('e collabClient, unit) act" where
  "setChannelState newChannelState moreInfo =
     bindA (getA cl_channelState) (\<lambda>channelState.
     whenA (newChannelState \<noteq> channelState)
       (thenA (modA (\<lambda>s. s\<lparr>cl_channelState := newChannelState\<rparr>))
          (callPage (ChannelStateChanged newChannelState moreInfo))))"

definition abandonConnection :: "string \<Rightarrow> ('e collabClient, unit) act" where
  "abandonConnection reason =
     bindA (getA cl_socket) (\<lambda>socket.
     thenA (case socket of
              None \<Rightarrow> ret ()
            | Some sid \<Rightarrow> thenA (muteSocket sid) (callPage (SocketDisconnect sid)))
    (thenA (modA (\<lambda>s. s\<lparr>cl_socket := None\<rparr>))
       (setChannelState Disconnected (Some reason))))"

text \<open>The handler of \<open>unload\<close>.\<close>

definition windowUnload :: "('e collabClient, unit) act" where
  "windowUnload =
     bindA (getA cl_socket) (\<lambda>socket.
     (case socket of
        None \<Rightarrow> ret ()
      | Some sid \<Rightarrow> thenA (muteSocket sid) (callPage (SocketDisconnect sid))))"

subsection \<open>Users\<close>

text \<open>
  The guard of \<open>tellAceAuthorInfo\<close> and its \<open>Number(colorId)\<close>: \<open>null\<close>, the empty string and what is no number
  are \<open>None\<close>; of the values other than numbers that \<open>Number\<close> makes zero, only a string of zeros would pass.
\<close>

definition colorNumber :: "colorValue \<Rightarrow> int option" where
  "colorNumber c = (case c of ColorNumber n \<Rightarrow> Some n | ColorOther (Some n) \<Rightarrow> (if n = 0 then None else Some n)
     | ColorOther None \<Rightarrow> None)"

definition tellAceAuthorInfo :: "string \<Rightarrow> int option \<Rightarrow> bool \<Rightarrow> ('e collabClient, unit) act" where
  "tellAceAuthorInfo uid colorId inactive =
     (case colorId of
        None \<Rightarrow> ret ()
      | Some n \<Rightarrow>
          bindA (getA (\<lambda>s. obj_get (cl_colorPalette s) n)) (\<lambda>cssColor.
          whenA (truthy cssColor) (callPage (SetAuthorInfo uid (the cssColor) inactive))))"

definition tellAceActiveAuthorInfo :: "userInfo \<Rightarrow> ('e collabClient, unit) act" where
  "tellAceActiveAuthorInfo ui = tellAceAuthorInfo (ui_userId ui) (colorNumber (ui_colorId ui)) False"

definition fadeAceAuthorInfo :: "userInfo \<Rightarrow> ('e collabClient, unit) act" where
  "fadeAceAuthorInfo ui = tellAceAuthorInfo (ui_userId ui) (colorNumber (ui_colorId ui)) True"

definition tellAceAboutHistoricalAuthors :: "(string, authorData) obj \<Rightarrow> ('e collabClient, unit) act" where
  "tellAceAboutHistoricalAuthors hadata =
     forA (\<lambda>(author, data).
       bindA (getA (\<lambda>s. obj_get (cl_userSet s) author)) (\<lambda>user.
       whenA (user = None) (tellAceAuthorInfo author (ad_colorId data) True))) hadata"

definition client_getConnectedUsers :: "('e collabClient, userInfo list) act" where
  "client_getConnectedUsers = getA (\<lambda>s. map snd (cl_userSet s))"

definition client_updateUserInfo :: "userInfo \<Rightarrow> ('e collabClient, unit) act" where
  "client_updateUserInfo ui0 =
     bindA (getA cl_userId) (\<lambda>userId.
     (let ui = ui0\<lparr>ui_userId := userId\<rparr> in
      thenA (modA (\<lambda>s. s\<lparr>cl_userSet := obj_put (cl_userSet s) userId ui\<rparr>))
     (thenA (tellAceActiveAuthorInfo ui)
     (bindA (getA cl_socket) (\<lambda>socket.
      whenA (socket \<noteq> None) (client_sendMessage (Posted (RoomMessage (UserinfoUpdate ui)))))))))"

text \<open>\<open>updateUserInfo\<close> as it is exported: put off until the socket is connected for the first time.\<close>

definition deferUpdateUserInfo :: "userInfo \<Rightarrow> string option \<Rightarrow> ('e collabClient, unit) act" where
  "deferUpdateUserInfo ui tag =
     bindA (getA cl_channelState) (\<lambda>channelState.
     if channelState = Connecting
     then modA (\<lambda>s. s\<lparr>cl_deferredActions := cl_deferredActions s @ [(ui, tag)]\<rparr>)
     else client_updateUserInfo ui)"

definition doDeferredActions :: "string option \<Rightarrow> ('e collabClient, unit) act" where
  "doDeferredActions tag =
     (let due = (\<lambda>(_, t). \<not> truthy tag \<or> tag = t) in
      bindA (getA cl_deferredActions) (\<lambda>actions.
      thenA (forA (\<lambda>(ui, _). client_updateUserInfo ui) (filter due actions))
        (modA (\<lambda>s. s\<lparr>cl_deferredActions := filter (\<lambda>a. \<not> due a) actions\<rparr>))))"

subsection \<open>Commits\<close>

definition schedulePerhapsCallIdleFuncs :: "('e collabClient, unit) act" where
  "schedulePerhapsCallIdleFuncs = setTimeout TimerIdleFuncs 0"

definition perhapsCallIdleFuncs :: "('e collabClient, unit) act" where
  "perhapsCallIdleFuncs =
     bindA (getA (\<lambda>s. (cl_state s, cl_idleFuncs s))) (\<lambda>(state, idleFuncs).
     whenA (state = Idle)
       (forA (\<lambda>f. thenA (modA (\<lambda>s. s\<lparr>cl_idleFuncs := tl (cl_idleFuncs s)\<rparr>)) (callPage (IdleFunc f))) idleFuncs))"

definition callWhenNotCommitting :: "nat \<Rightarrow> ('e collabClient, unit) act" where
  "callWhenNotCommitting func =
     thenA (modA (\<lambda>s. s\<lparr>cl_idleFuncs := cl_idleFuncs s @ [func]\<rparr>)) schedulePerhapsCallIdleFuncs"

definition setStateIdle :: "('e collabClient, unit) act" where
  "setStateIdle =
     thenA (modA (\<lambda>s. s\<lparr>cl_state := Idle\<rparr>))
    (thenA (callPage (InternalAction ''newlyIdle'')) schedulePerhapsCallIdleFuncs)"

text \<open>The end of \<open>handleUserChanges\<close>: what the editor has to submit is sent.\<close>

definition commitUserChanges :: "('e collabClient, unit) act" where
  "commitUserChanges =
     bindA (world wo_now) (\<lambda>t.
     bindA (onEditor prepareUserChangeset) (\<lambda>userChangesData.
     whenA (truthy (sm_changeset userChangesData))
       (let cs = the (sm_changeset userChangesData); apool = the (sm_apool userChangesData) in
        thenA (modA (\<lambda>s. s\<lparr>cl_lastCommitTime := t, cl_state := Committing, cl_stateMessage := Some (cs, apool),
                 cl_stateMessageSocketId := cl_socketId s\<rparr>))
       (bindA (getA cl_rev) (\<lambda>r.
        thenA (client_sendMessage (Posted (RoomMessage (UserChanges r (Some cs) apool))))
       (thenA (callPage (InternalAction ''commitPerformed''))
          (setTimeout TimerUserChanges 3000)))))))"

definition client_handleUserChanges :: "('e collabClient, unit) act" where
  "client_handleUserChanges =
     bindA (getA (\<lambda>s. s)) (\<lambda>s.
     bindA (world wo_now) (\<lambda>t.
     if cl_socket s = None \<or> cl_channelState s = Connecting then
       (if cl_channelState s = Connecting \<and> t - cl_initialStartConnectTime s > 20000
        then abandonConnection ''initsocketfail''
        else setTimeout TimerUserChanges 1000)
     else if cl_state s \<noteq> Idle then
       (if t - cl_lastCommitTime s > 20000 then
          thenA (modA (\<lambda>s. s\<lparr>cl_appLevelDisconnectReason := Some ''slowcommit''\<rparr>)) (onSocket SocketDisconnect)
        else if t - cl_lastCommitTime s > 5000 then callPage (ConnectionTrouble ''SLOW'')
        else setTimeout TimerUserChanges 3000)
     else
       (let earliestCommit = cl_lastCommitTime s + 500 in
        if t < earliestCommit then setTimeout TimerUserChanges (earliestCommit - t)
        else commitUserChanges)))"

subsection \<open>Connecting\<close>

definition openSocket :: "('e collabClient, unit) act" where
  "openSocket =
     bindA (getA cl_socketId) (\<lambda>oldSocketId.
     bindA (world wo_random) (\<lambda>sid.
     thenA (modA (\<lambda>s. s\<lparr>cl_appLevelDisconnectReason := None, cl_socketId := Some sid\<rparr>))
    (thenA (callPage (NewWebSocket sid))
    (thenA (modA (\<lambda>s. s\<lparr>cl_socket := Some sid, cl_reconnectOf := obj_put (cl_reconnectOf s) sid oldSocketId\<rparr>))
       (callPage (SocketConnect sid))))))"

definition setUpSocket :: "('e collabClient, unit) act" where
  "setUpSocket =
     bindA (callCatchingErrors ''setUpSocket'' openSocket) (\<lambda>success.
     if success
     then bindA (world wo_now) (\<lambda>now. modA (\<lambda>s. s\<lparr>cl_initialStartConnectTime := now\<rparr>))
     else abandonConnection ''initsocketfail'')"

definition setUpSocketWhenWindowLoaded :: "('e collabClient, unit) act" where
  "setUpSocketWhenWindowLoaded =
     bindA (world wo_windowLoaded) (\<lambda>loaded.
     if loaded then setUpSocket else setTimeout TimerSetUpSocket 200)"

text \<open>The data of the \<open>CLIENT_READY\<close> of the socket \<open>sid\<close>.\<close>

definition clientReadyData :: "string \<Rightarrow> string \<Rightarrow> 'e collabClient \<Rightarrow> readyData" where
  "clientReadyData sid stats s =
     (let oldSocketId = (case obj_get (cl_reconnectOf s) sid of None \<Rightarrow> None | Some old \<Rightarrow> old);
          reconnect = truthy oldSocketId
      in \<lparr>rd_userInfo = obj_get (cl_userSet s) (cl_userId s), rd_lastRev = Some (cl_rev s),
          rd_isReconnectOf = (if reconnect then oldSocketId else None),
          rd_isCommitPending = (reconnect \<and> cl_state s = Committing), rd_stats = Some stats\<rparr>)"

text \<open>The handler \<open>onopen\<close> of the socket \<open>sid\<close>.\<close>

definition socketOpened :: "string \<Rightarrow> ('e collabClient, unit) act" where
  "socketOpened sid =
     wrapRecordingErrors ''socket.onopen''
       (thenA (modA (\<lambda>s. s\<lparr>cl_hiccupCount := 0\<rparr>))
       (thenA (setChannelState Connected None)
       (bindA (world wo_stats) (\<lambda>stats.
        bindA (getA (\<lambda>s. s)) (\<lambda>s.
        thenA (client_sendMessage (Posted (ClientReady (Some ''padpage'') (Some (''padpage/'' @ cl_globalPadId s))
            (Some (clientReadyData sid stats s)))))
          (doDeferredActions None))))))"

definition handleCometHiccup :: "bool \<Rightarrow> ('e collabClient, unit) act" where
  "handleCometHiccup connectedNow =
     thenA (dmesg (''HICCUP (connected:'' @ (if connectedNow then ''true'' else ''false'') @ '')''))
       (if \<not> connectedNow then
          thenA (modA (\<lambda>s. s\<lparr>cl_hiccupCount := cl_hiccupCount s + 1\<rparr>))
            (bindA (getA cl_hiccupCount) (\<lambda>n. whenA (n > 1) (setChannelState Reconnecting None)))
        else
          thenA (modA (\<lambda>s. s\<lparr>cl_hiccupCount := 0\<rparr>)) (setChannelState Connected None))"

definition forgetUser :: "string \<Rightarrow> ('e collabClient, unit) act" where
  "forgetUser uid =
     bindA (getA (\<lambda>s. (cl_userId s, obj_get (cl_userSet s) uid))) (\<lambda>(userId, ui).
     (case ui of
        None \<Rightarrow> ret ()
      | Some ui \<Rightarrow>
          whenA (uid \<noteq> userId)
            (thenA (modA (\<lambda>s. s\<lparr>cl_userSet := obj_delete (cl_userSet s) uid\<rparr>)) (callPage (UserLeft ui)))))"

definition handleSocketClosed :: "string option \<Rightarrow> bool \<Rightarrow> ('e collabClient, unit) act" where
  "handleSocketClosed paramsReason shouldReconnect =
     thenA (modA (\<lambda>s. s\<lparr>cl_socket := None\<rparr>))
    (bindA (getA (\<lambda>s. map fst (cl_userSet s))) (\<lambda>uids.
     thenA (forA forgetUser uids)
    (bindA (getA cl_appLevelDisconnectReason) (\<lambda>appLevel.
     (let reason = (if truthy appLevel then appLevel else paramsReason) in
      if \<not> shouldReconnect then setChannelState Disconnected reason
      else
        bindA (world wo_now) (\<lambda>now.
        thenA (modA (\<lambda>s. s\<lparr>cl_reconnectTimes := cl_reconnectTimes s @ [now]\<rparr>))
       (bindA (getA cl_reconnectTimes) (\<lambda>times.
        if length times \<ge> 8 \<and> now - times ! (length times - 8) < 10000
        then setChannelState Disconnected (Some ''looping'')
        else thenA (setChannelState Reconnecting reason) setUpSocket))))))))"

subsection \<open>Messages\<close>

datatype fromServer = NoData | OtherType | Collab message

text \<open>A revision that is not the next one ends the connection.\<close>

definition nextRevision :: "int \<Rightarrow> string \<Rightarrow> ('e collabClient, unit) act \<Rightarrow> ('e collabClient, unit) act" where
  "nextRevision newRev complaint f =
     bindA (getA cl_rev) (\<lambda>r.
     if newRev \<noteq> r + 1
     then thenA (dmesg (complaint @ '': '' @ intString newRev @ '' not '' @ intString (r + 1))) (onSocket SocketDisconnect)
     else thenA (modA (\<lambda>s. s\<lparr>cl_rev := newRev\<rparr>)) f)"

definition userNewInfo :: "userInfo \<Rightarrow> ('e collabClient, unit) act" where
  "userNewInfo ui =
     bindA (getA (\<lambda>s. obj_get (cl_userSet s) (ui_userId ui))) (\<lambda>known.
     thenA (modA (\<lambda>s. s\<lparr>cl_userSet := obj_put (cl_userSet s) (ui_userId ui) ui\<rparr>))
    (thenA (callPage (if known \<noteq> None then UserUpdated ui else UserJoined ui))
       (tellAceActiveAuthorInfo ui)))"

definition userLeave :: "userInfo \<Rightarrow> ('e collabClient, unit) act" where
  "userLeave ui =
     bindA (getA (\<lambda>s. obj_get (cl_userSet s) (ui_userId ui))) (\<lambda>known.
     whenA (known \<noteq> None)
       (thenA (modA (\<lambda>s. s\<lparr>cl_userSet := obj_delete (cl_userSet s) (ui_userId ui)\<rparr>))
       (thenA (fadeAceAuthorInfo ui) (callPage (UserLeft ui)))))"

definition acceptCommit :: "int \<Rightarrow> ('e collabClient, unit) act" where
  "acceptCommit newRev =
     nextRevision newRev ''bad message revision on ACCEPT_COMMIT''
       (thenA (onEditor applyPreparedChangesetToBase)
       (thenA setStateIdle
       (bindA (callCatchingErrors ''onInternalAction'' (callPage (InternalAction ''commitAcceptedByServer''))) (\<lambda>_.
        bindA (callCatchingErrors ''onConnectionTrouble'' (callPage (ConnectionTrouble ''OK''))) (\<lambda>_.
        client_handleUserChanges)))))"

definition handleMessageFromServer :: "'e editor \<Rightarrow> fromServer \<Rightarrow> ('e collabClient, unit) act" where
  "handleMessageFromServer ed evt =
     bindA (getA (\<lambda>s. (cl_socket s, cl_state s))) (\<lambda>(socket, state).
     if socket = None then ret ()
     else
       (case evt of
          Collab (NEW_CHANGES newRev cs apool author) \<Rightarrow>
            nextRevision newRev ''bad message revision on NEW_CHANGES''
              (onEditor (applyChangesToBase ed cs (Some (toJsonable apool))))
        | Collab (ACCEPT_COMMIT newRev) \<Rightarrow> acceptCommit newRev
        | Collab NO_COMMIT_PENDING \<Rightarrow>
            whenA (state = Committing) (thenA setStateIdle client_handleUserChanges)
        | Collab (USER_NEWINFO ui) \<Rightarrow> userNewInfo ui
        | Collab (USER_LEAVE ui) \<Rightarrow> userLeave ui
        | Collab (DISCONNECT_REASON reason) \<Rightarrow>
            modA (\<lambda>s. s\<lparr>cl_appLevelDisconnectReason := Some reason\<rparr>)
        | Collab (CLIENT_MESSAGE payload) \<Rightarrow> callPage (ClientMessageReceived payload)
        | Collab (SERVER_MESSAGE payload) \<Rightarrow> callPage (ServerMessageReceived payload)
        | _ \<Rightarrow> ret ()))"

definition sendClientMessage :: "payload \<Rightarrow> ('e collabClient, unit) act" where
  "sendClientMessage msg = client_sendMessage (Posted (RoomMessage (ClientMessage None msg)))"

definition getCurrentRevisionNumber :: "('e collabClient, int) act" where
  "getCurrentRevisionNumber = getA cl_rev"

subsection \<open>Missed changes\<close>

record missedReport =
  mi_userInfo :: "userInfo option"
  mi_baseRev :: int
  mi_committed :: "(string \<times> poolJson \<times> string option) option"
  mi_further :: "(string \<times> poolJson) option"

definition getMissedChanges :: "('e collabClient, missedReport) act" where
  "getMissedChanges =
     bindA (getA (\<lambda>s. s)) (\<lambda>s.
     bindA (if cl_state s = Committing \<and> cl_stateMessage s \<noteq> None then
              thenA (onEditor applyPreparedChangesetToBase)
                (ret (map_option (\<lambda>(cs, apool). (cs, apool, cl_stateMessageSocketId s)) (cl_stateMessage s)))
            else ret None) (\<lambda>committed.
     bindA (onEditor prepareUserChangeset) (\<lambda>userChangesData.
     ret \<lparr>mi_userInfo = obj_get (cl_userSet s) (cl_userId s), mi_baseRev = cl_rev s, mi_committed = committed,
          mi_further = (if truthy (sm_changeset userChangesData)
            then Some (the (sm_changeset userChangesData), the (sm_apool userChangesData)) else None)\<rparr>)))"

subsection \<open>Starting, and events\<close>

text \<open>\<open>getCollabClient\<close>, from a state whose variables have their initial values.\<close>

definition initialClient ::
  "'e tracker_scheme \<Rightarrow> collabClientVars \<Rightarrow> userInfo \<Rightarrow> (int, string) obj \<Rightarrow> clientWorld \<Rightarrow> 'e collabClient" where
  "initialClient editor serverVars ui palette w =
     \<lparr>cl_editor = editor, cl_rev = cv_rev serverVars, cl_globalPadId = cv_globalPadId serverVars, cl_state = Idle,
      cl_stateMessage = None, cl_stateMessageSocketId = None, cl_channelState = Connecting,
      cl_appLevelDisconnectReason = None, cl_lastCommitTime = 0, cl_initialStartConnectTime = 0,
      cl_userId = ui_userId ui, cl_socketId = None, cl_socket = None, cl_muted = [], cl_reconnectOf = [],
      cl_userSet = [(ui_userId ui, ui)], cl_reconnectTimes = [], cl_caughtErrors = [], cl_debugMessages = [],
      cl_hiccupCount = 0, cl_deferredActions = [], cl_idleFuncs = [], cl_timers = [], cl_calls = [],
      cl_colorPalette = palette, cl_world = w\<rparr>"

definition getCollabClient :: "'e editor \<Rightarrow> collabClientVars \<Rightarrow> userInfo \<Rightarrow> ('e collabClient, unit) act" where
  "getCollabClient ed serverVars initialUserInfo =
     thenA (tellAceAboutHistoricalAuthors (cv_historicalAuthorData serverVars))
    (thenA (tellAceActiveAuthorInfo initialUserInfo)
    (thenA (callPage (SetUserAuthor (ui_userId initialUserInfo)))
    (thenA (onEditor (setBaseAttributedText ed (cv_initialAttributedText serverVars) (Some (cv_apool serverVars))))
    (thenA (onEditor (setUserChangeNotificationCallback True))
       (setTimeout TimerSetUpSocket 0)))))"

definition timerFired :: "timer \<Rightarrow> ('e collabClient, unit) act" where
  "timerFired t =
     (case t of
        TimerUserChanges \<Rightarrow> wrapRecordingErrors ''setTimeout(handleUserChanges)'' client_handleUserChanges
      | TimerSetUpSocket \<Rightarrow> setUpSocketWhenWindowLoaded
      | TimerIdleFuncs \<Rightarrow> perhapsCallIdleFuncs)"

text \<open>The editor's notification, which \<open>timeoutFired\<close> of the tracker calls.\<close>

definition editorNotifies :: "('e collabClient, unit) act" where
  "editorNotifies =
     finallyA (wrapRecordingErrors ''handleUserChanges'' client_handleUserChanges)
       (onEditor (modA (\<lambda>s. s\<lparr>tr_timeout := False\<rparr>)))"

text \<open>A handler of a socket runs unless it was replaced.\<close>

definition socketHiccup :: "string \<Rightarrow> bool \<Rightarrow> ('e collabClient, unit) act" where
  "socketHiccup sid connected =
     bindA (getA (\<lambda>s. sid \<in> set (cl_muted s))) (\<lambda>muted.
     whenA (\<not> muted) (wrapRecordingErrors ''socket.onhiccup'' (handleCometHiccup connected)))"

definition socketClosed :: "string \<Rightarrow> string option \<Rightarrow> bool \<Rightarrow> ('e collabClient, unit) act" where
  "socketClosed sid reason reconnect =
     bindA (getA (\<lambda>s. sid \<in> set (cl_muted s))) (\<lambda>muted.
     whenA (\<not> muted) (wrapRecordingErrors ''socket.onclosed'' (handleSocketClosed reason reconnect)))"

definition socketMessage :: "'e editor \<Rightarrow> fromServer \<Rightarrow> ('e collabClient, unit) act" where
  "socketMessage ed evt = wrapRecordingErrors ''socket.onmessage'' (handleMessageFromServer ed evt)"

end
