(* ===== verification/ClientLaws.thy ===== *)
theory ClientLaws
  imports CollabClient
begin

text \<open>
  The client's end of the protocol, with the editor of \<open>Tracker\<close> that holds its document as a text: what it
  sends, whatever the network and the page do, and how it takes in what the server sends.
\<close>

type_synonym docClient = "unit doc_tracker_ext collabClient"

subsection \<open>The invariant of a client\<close>

text \<open>The editor is in order, and while a commit is pending the tracker has something submitted.\<close>

definition client_ok :: "docClient \<Rightarrow> bool" where
  "client_ok s = (consistent (cl_editor s) (dt_doc (cl_editor s)) \<and>
     (cl_state s = Committing \<longrightarrow> tr_submitted (cl_editor s) \<noteq> None))"

definition userChanges :: "pageCall \<Rightarrow> (int \<times> string option \<times> poolJson) option" where
  "userChanges x = (case x of SocketPost sid (Posted (RoomMessage (UserChanges r cs j))) \<Rightarrow> Some (r, cs, j) | _ \<Rightarrow> None)"

text \<open>\<open>quiet n s\<close>: no changes were sent since there were \<open>n\<close> calls; \<open>commits n s\<close>: those sent since are right.\<close>

definition quiet :: "nat \<Rightarrow> docClient \<Rightarrow> bool" where
  "quiet n s = (client_ok s \<and> n \<le> length (cl_calls s) \<and> (\<forall>x \<in> set (drop n (cl_calls s)). userChanges x = None))"

text \<open>What is sent is what is submitted, over a pool of its own.\<close>

definition onWire :: "'e tracker_scheme \<Rightarrow> string \<Rightarrow> poolJson \<Rightarrow> bool" where
  "onWire s c j = (\<exists>x w. tr_submitted s = Some x \<and> prepareForWire x (tr_apool s) = Inr (c, w) \<and> j = toJsonable w)"

lemma onWire_timeout [simp]: "onWire (s\<lparr>tr_timeout := b\<rparr>) c j = onWire s c j"
  by (simp add: onWire_def)

definition right :: "docClient \<Rightarrow> pageCall \<Rightarrow> bool" where
  "right s x = (\<forall>r cs j. userChanges x = Some (r, cs, j) \<longrightarrow> r = cl_rev s \<and> cl_state s = Committing \<and>
     (\<exists>c. cs = Some c \<and> applies (fromJsonable j) c (at_text (tr_base (cl_editor s))) (dt_doc (cl_editor s)) \<and>
       onWire (cl_editor s) c j))"

definition commits :: "nat \<Rightarrow> docClient \<Rightarrow> bool" where
  "commits n s = (client_ok s \<and> n \<le> length (cl_calls s) \<and> (\<forall>x \<in> set (drop n (cl_calls s)). right s x))"

lemma quiet_commits: "quiet n s \<Longrightarrow> commits n s"
  by (auto simp: quiet_def commits_def right_def)

text \<open>Changes of other parts of the state.\<close>

lemma client_ok_frame [simp]:
  "client_ok (s\<lparr>cl_rev := a\<rparr>) = client_ok s" "client_ok (s\<lparr>cl_channelState := b\<rparr>) = client_ok s"
  "client_ok (s\<lparr>cl_appLevelDisconnectReason := c\<rparr>) = client_ok s"
  "client_ok (s\<lparr>cl_initialStartConnectTime := e\<rparr>) = client_ok s" "client_ok (s\<lparr>cl_socketId := f\<rparr>) = client_ok s"
  "client_ok (s\<lparr>cl_socket := g\<rparr>) = client_ok s" "client_ok (s\<lparr>cl_muted := h\<rparr>) = client_ok s"
  "client_ok (s\<lparr>cl_reconnectOf := i\<rparr>) = client_ok s" "client_ok (s\<lparr>cl_userSet := j\<rparr>) = client_ok s"
  "client_ok (s\<lparr>cl_reconnectTimes := k\<rparr>) = client_ok s" "client_ok (s\<lparr>cl_caughtErrors := l\<rparr>) = client_ok s"
  "client_ok (s\<lparr>cl_debugMessages := m\<rparr>) = client_ok s" "client_ok (s\<lparr>cl_hiccupCount := n\<rparr>) = client_ok s"
  "client_ok (s\<lparr>cl_deferredActions := p\<rparr>) = client_ok s" "client_ok (s\<lparr>cl_idleFuncs := q\<rparr>) = client_ok s"
  "client_ok (s\<lparr>cl_timers := r\<rparr>) = client_ok s" "client_ok (s\<lparr>cl_calls := t\<rparr>) = client_ok s"
  "client_ok (s\<lparr>cl_world := w\<rparr>) = client_ok s"
  by (simp_all add: client_ok_def)

named_theorems calm \<open>operations that keep the client's invariant and send no changes\<close>

lemma calm_world [calm]: "preserves I (world f)"
  unfolding world_def by (intro pres)

lemma calm_option [calm]: "(\<And>x. preserves I (f x)) \<Longrightarrow> preserves I m \<Longrightarrow> preserves I (case y of None \<Rightarrow> m | Some x \<Rightarrow> f x)"
  by (cases y) simp_all

lemma calm_pair [calm]: "(\<And>a b. preserves I (f a b)) \<Longrightarrow> preserves I (case x of (a, b) \<Rightarrow> f a b)"
  by (cases x) simp

lemma calm_let [calm]: "preserves I (f x) \<Longrightarrow> preserves I (let y = x in f y)"
  by simp

lemma calm_page: "userChanges x = None \<Longrightarrow> preserves (quiet n) (callPage x)"
  unfolding callPage_def by (intro pres calm) (auto simp: quiet_def)

lemma calm_calls [calm]:
  "preserves (quiet n) (callPage (NewWebSocket a))" "preserves (quiet n) (callPage (SocketConnect a))"
  "preserves (quiet n) (callPage (SocketDisconnect a))" "preserves (quiet n) (callPage (SetUserAuthor a))"
  "preserves (quiet n) (callPage (SetAuthorInfo a b c))" "preserves (quiet n) (callPage (UserJoined u))"
  "preserves (quiet n) (callPage (UserLeft u))" "preserves (quiet n) (callPage (UserUpdated u))"
  "preserves (quiet n) (callPage (ChannelStateChanged ch r))" "preserves (quiet n) (callPage (ClientMessageReceived p))"
  "preserves (quiet n) (callPage (InternalAction a))" "preserves (quiet n) (callPage (ConnectionTrouble a))"
  "preserves (quiet n) (callPage (ServerMessageReceived q))" "preserves (quiet n) (callPage (IdleFunc k))"
  by (rule calm_page; simp add: userChanges_def)+

lemma calm_mods [calm]:
  "preserves (quiet n) (setTimeout t d)" "preserves (quiet n) (dmesg m)" "preserves (quiet n) (muteSocket sid)"
  unfolding setTimeout_def dmesg_def muteSocket_def by (intro pres; simp add: quiet_def)+

lemma calm_wrap [calm]: "preserves (quiet n) f \<Longrightarrow> preserves (quiet n) (wrapRecordingErrors c f)"
  unfolding wrapRecordingErrors_def by (intro pres calm) (simp_all add: quiet_def)

lemma calm_catch [calm]: "preserves (quiet n) f \<Longrightarrow> preserves (quiet n) (callCatchingErrors c f)"
  unfolding callCatchingErrors_def by (intro pres calm)

lemma calm_socket: "(\<And>sid. userChanges (f sid) = None) \<Longrightarrow> preserves (quiet n) (onSocket f)"
  unfolding onSocket_def by (intro pres calm calm_page) simp

lemma calm_disconnect [calm]: "preserves (quiet n) (onSocket SocketDisconnect)"
  by (rule calm_socket) (simp add: userChanges_def)

lemma calm_send:
  "(\<And>r cs j. m \<noteq> Posted (RoomMessage (UserChanges r cs j))) \<Longrightarrow> preserves (quiet n) (client_sendMessage m)"
  unfolding client_sendMessage_def
  by (rule calm_socket) (auto simp: userChanges_def split: posted.split cometMessage.split clientMessage.split)

lemma calm_channel [calm]: "preserves (quiet n) (setChannelState c r)"
  unfolding setChannelState_def by (intro pres calm) (simp add: quiet_def)

lemma calm_abandon [calm]: "preserves (quiet n) (abandonConnection r)"
  unfolding abandonConnection_def by (intro pres calm) (simp add: quiet_def)

lemma calm_unload [calm]: "preserves (quiet n) windowUnload"
  unfolding windowUnload_def by (intro pres calm)

lemma calm_author [calm]:
  "preserves (quiet n) (tellAceAuthorInfo u c b)" "preserves (quiet n) (tellAceActiveAuthorInfo ui)"
  "preserves (quiet n) (fadeAceAuthorInfo ui)"
  unfolding tellAceActiveAuthorInfo_def fadeAceAuthorInfo_def tellAceAuthorInfo_def by (intro pres calm)+

lemma calm_historical [calm]: "preserves (quiet n) (tellAceAboutHistoricalAuthors h)"
  unfolding tellAceAboutHistoricalAuthors_def by (intro pres calm)

lemma calm_userInfo [calm]: "preserves (quiet n) (client_updateUserInfo ui)"
  unfolding client_updateUserInfo_def by (intro pres calm calm_send) (simp_all add: quiet_def)

lemma calm_defer [calm]: "preserves (quiet n) (deferUpdateUserInfo ui tag)"
  unfolding deferUpdateUserInfo_def by (intro pres calm) (simp add: quiet_def)

lemma calm_deferred [calm]: "preserves (quiet n) (doDeferredActions tag)"
  unfolding doDeferredActions_def by (intro pres calm) (simp add: quiet_def)

lemma calm_idle [calm]:
  "preserves (quiet n) perhapsCallIdleFuncs" "preserves (quiet n) (callWhenNotCommitting k)"
  "preserves (quiet n) schedulePerhapsCallIdleFuncs"
  unfolding perhapsCallIdleFuncs_def callWhenNotCommitting_def schedulePerhapsCallIdleFuncs_def
  by (intro pres calm; simp add: quiet_def)+

lemma calm_setUp [calm]: "preserves (quiet n) setUpSocket" "preserves (quiet n) setUpSocketWhenWindowLoaded"
  unfolding setUpSocketWhenWindowLoaded_def setUpSocket_def openSocket_def
  by (intro pres calm; simp add: quiet_def)+

lemma calm_opened [calm]: "preserves (quiet n) (socketOpened sid)"
  unfolding socketOpened_def by (intro pres calm calm_send) (simp_all add: quiet_def)

lemma calm_closed [calm]: "preserves (quiet n) (socketClosed sid r b)"
  unfolding socketClosed_def handleSocketClosed_def forgetUser_def by (intro pres calm) (simp_all add: quiet_def)

lemma calm_hiccup [calm]: "preserves (quiet n) (socketHiccup sid b)"
  unfolding socketHiccup_def handleCometHiccup_def by (intro pres calm) (simp_all add: quiet_def)

lemma calm_users [calm]: "preserves (quiet n) (userNewInfo ui)" "preserves (quiet n) (userLeave ui)"
  unfolding userNewInfo_def userLeave_def
  by ((intro pres calm calm_page; simp add: quiet_def userChanges_def), (intro pres calm; simp add: quiet_def))

lemma calm_clientMessage [calm]: "preserves (quiet n) (sendClientMessage m)"
  unfolding sendClientMessage_def by (intro calm_send) simp

subsection \<open>Commits\<close>

lemma ends_onEditor: "ends (onEditor f) I Q s =
    ends f (\<lambda>t. I (s\<lparr>cl_editor := t\<rparr>)) (\<lambda>x t. Q x (s\<lparr>cl_editor := t\<rparr>)) (cl_editor s)"
  by (simp add: ends_def onEditor_def split: prod.split)

lemma wp_ends: "wp m Q s \<Longrightarrow> ends m I Q s"
  by (auto simp: wp_def ends_def split: prod.splits sum.splits)

lemma ends_calm:
  assumes "preserves (quiet n) m" and "quiet n s"
  shows "ends m (commits n) (\<lambda>_. quiet n) s"
  by (rule ends_mono [OF ends_preserves [OF assms]]) (rule quiet_commits)

lemma prepare_doc: "prepareUserChangeset s = (r, s') \<Longrightarrow> dt_doc s' = dt_doc s"
  by (auto simp: prepareUserChangeset_def bindA_def thenA_def getA_def liftA_def modA_def
        ret_def withPool_def split: prod.splits sum.splits option.splits if_splits)

lemma prepare_submitted:
  "prepareUserChangeset s = (Inr r, s') \<Longrightarrow> truthy (sm_changeset r) \<or> tr_submitted s \<noteq> None \<Longrightarrow> tr_submitted s' \<noteq> None"
  by (auto simp: prepareUserChangeset_def bindA_def thenA_def getA_def liftA_def modA_def truthy_def
        ret_def withPool_def split: prod.splits sum.splits option.splits if_splits)

lemma prepare_onWire:
  "prepareUserChangeset s = (Inr r, s') \<Longrightarrow> truthy (sm_changeset r) \<Longrightarrow>
   \<exists>c j. sm_changeset r = Some c \<and> sm_apool r = Some j \<and> onWire s' c j"
  by (auto simp: prepareUserChangeset_def bindA_def thenA_def getA_def liftA_def modA_def truthy_def onWire_def
        ret_def withPool_def split: prod.splits sum.splits option.splits if_splits)

lemma prepare_all:
  fixes s :: doc_tracker
  assumes "consistent s (dt_doc s)"
  shows "wp prepareUserChangeset (\<lambda>r t. consistent t (dt_doc t) \<and> tr_base t = tr_base s \<and> dt_doc t = dt_doc s \<and>
    submits r (at_text (tr_base s)) (dt_doc s) \<and>
    (truthy (sm_changeset r) \<or> tr_submitted s \<noteq> None \<longrightarrow> tr_submitted t \<noteq> None) \<and>
    (truthy (sm_changeset r) \<longrightarrow> onWire t (the (sm_changeset r)) (the (sm_apool r)))) s"
proof -
  obtain r t where r: "prepareUserChangeset s = (Inr r, t)" "consistent t (dt_doc s)" "tr_base t = tr_base s"
    "submits r (at_text (tr_base s)) (dt_doc s)" using wp_returns [OF prepare_wp [OF assms]] by blast
  show ?thesis by (rule wpI [where m = prepareUserChangeset, OF r(1)]) (use r(2-4) prepare_doc [OF r(1)] prepare_submitted [OF r(1)] prepare_onWire [OF r(1)] in auto)
qed

lemma right_calls [simp]: "right (s\<lparr>cl_calls := l\<rparr>) x = right s x"
  by (simp add: right_def)

lemma commits_page:
  assumes "commits n s" and "right s x"
  shows "ends (callPage x) (commits n) (\<lambda>_. commits n) s"
proof -
  have "commits n (s\<lparr>cl_calls := cl_calls s @ [x]\<rparr>)" using assms by (auto simp: commits_def)
  then show ?thesis
    unfolding callPage_def world_def ends_then ends_mod ends_bind ends_get
    by (cases "wo_throws (cl_world s) x") (simp_all add: ends_def ret_def throwA_def)
qed

lemma right_none: "userChanges x = None \<Longrightarrow> right s x"
  by (simp add: right_def)

lemma commits_timer: "commits n s \<Longrightarrow> ends (setTimeout t d) (commits n) (\<lambda>_. commits n) s"
  by (simp add: setTimeout_def ends_mod commits_def right_def client_ok_def)

lemma commitUserChanges_ends:
  assumes q: "quiet n s"
  shows "ends commitUserChanges (commits n) (\<lambda>_. commits n) s"
proof -
  have c: "consistent (cl_editor s) (dt_doc (cl_editor s))" using q by (simp add: quiet_def client_ok_def)
  show ?thesis
    unfolding commitUserChanges_def world_def ends_bind ends_get ends_onEditor
  proof (rule wp_ends [OF wp_mono [OF prepare_all [OF c]]], elim conjE)
    fix r and t :: doc_tracker
    assume t: "consistent t (dt_doc t)" "tr_base t = tr_base (cl_editor s)" "dt_doc t = dt_doc (cl_editor s)"
      "submits r (at_text (tr_base (cl_editor s))) (dt_doc (cl_editor s))"
      "truthy (sm_changeset r) \<or> tr_submitted (cl_editor s) \<noteq> None \<longrightarrow> tr_submitted t \<noteq> None"
      "truthy (sm_changeset r) \<longrightarrow> onWire t (the (sm_changeset r)) (the (sm_apool r))"
    let ?s = "s\<lparr>cl_editor := t\<rparr>"
    show "ends (whenA (truthy (sm_changeset r))
       (let cs = the (sm_changeset r); apool = the (sm_apool r) in
        thenA (modA (\<lambda>u. u\<lparr>cl_lastCommitTime := wo_now (cl_world s), cl_state := Committing,
                 cl_stateMessage := Some (cs, apool), cl_stateMessageSocketId := cl_socketId u\<rparr>))
       (bindA (getA cl_rev) (\<lambda>k.
        thenA (client_sendMessage (Posted (RoomMessage (UserChanges k (Some cs) apool))))
       (thenA (callPage (InternalAction ''commitPerformed''))
          (setTimeout TimerUserChanges 3000)))))) (commits n) (\<lambda>_. commits n) ?s"
    proof (cases "truthy (sm_changeset r)")
      case False
      have "quiet n ?s" using q t by (auto simp: quiet_def client_ok_def)
      with False show ?thesis using quiet_commits by (simp add: ends_ret)
    next
      case True
      then obtain c where cs: "sm_changeset r = Some c" by (cases "sm_changeset r") (auto simp: truthy_def)
      with t(4) obtain j where j: "sm_apool r = Some j" "applies (fromJsonable j) c (at_text (tr_base t)) (dt_doc t)"
        using t(2,3) by (auto simp: submits_def split: option.splits)
      let ?u = "?s\<lparr>cl_lastCommitTime := wo_now (cl_world s), cl_state := Committing, cl_stateMessage := Some (c, j),
        cl_stateMessageSocketId := cl_socketId s\<rparr>"
      have u: "commits n ?u"
        using q t(1,5) True by (auto simp: quiet_def commits_def client_ok_def right_def)
      have "right ?u (SocketPost sid (Posted (RoomMessage (UserChanges (cl_rev s) (Some c) j))))" for sid
        using j t(6) True cs by (simp add: right_def userChanges_def)
      then have "ends (client_sendMessage (Posted (RoomMessage (UserChanges (cl_rev s) (Some c) j)))) (commits n)
          (\<lambda>_. commits n) ?u"
        using u by (cases "cl_socket s")
          (simp_all add: client_sendMessage_def onSocket_def ends_steps commits_page, simp add: ends_def throwA_def)
      then have "ends (thenA (client_sendMessage (Posted (RoomMessage (UserChanges (cl_rev s) (Some c) j))))
       (thenA (callPage (InternalAction ''commitPerformed'')) (setTimeout TimerUserChanges 3000))) (commits n)
          (\<lambda>_. commits n) ?u"
        unfolding ends_then
        by (rule ends_mono, simp) (rule ends_mono [OF commits_page], simp, simp add: right_def userChanges_def,
          simp, rule commits_timer, simp)
      with True show ?thesis by (simp add: ends_steps cs j(1))
    qed
  qed
qed

lemma handleUserChanges_ends:
  assumes q: "quiet n s"
  shows "ends client_handleUserChanges (commits n) (\<lambda>_. commits n) s"
proof -
  have calm': "ends m (commits n) (\<lambda>_. commits n) s" if "preserves (quiet n) m" for m :: "(docClient, unit) act"
    by (rule ends_mono [OF ends_calm [OF that q]]) (simp_all add: quiet_commits)
  show ?thesis
    unfolding client_handleUserChanges_def world_def ends_bind ends_get Let_def
    using commitUserChanges_ends [OF q]
    by (auto intro!: calm' pres calm simp: quiet_def)
qed

lemma ends_quiet: "preserves (quiet n) m \<Longrightarrow> quiet n s \<Longrightarrow> ends m (commits n) (\<lambda>_. commits n) s"
  by (rule ends_mono [OF ends_calm], assumption+) (simp_all add: quiet_commits)

lemma ends_calm_then:
  assumes "preserves (quiet n) m" and "quiet n s" and "\<And>x t. quiet n t \<Longrightarrow> ends (f x) (commits n) Q t"
  shows "ends (bindA m f) (commits n) Q s"
  unfolding ends_bind by (rule ends_mono [OF ends_calm [OF assms(1,2)]]) (use assms(3) in simp_all)

lemma applyPrepared_doc: "applyPreparedChangesetToBase s = (r, s') \<Longrightarrow> dt_doc s' = dt_doc s"
  by (auto simp: applyPreparedChangesetToBase_def bindA_def thenA_def getA_def throwA_def modA_def withPool_def
      split: prod.splits sum.splits option.splits if_splits)

text \<open>After an acknowledgement: the base is the old one with what was submitted, and the client is free again.\<close>

lemma idleAgain_ends:
  assumes c: "consistent (cl_editor s) (dt_doc (cl_editor s))" and n: "n \<le> length (cl_calls s)"
    and x: "\<forall>x \<in> set (drop n (cl_calls s)). userChanges x = None"
  shows "ends (thenA setStateIdle
       (bindA (callCatchingErrors ''onInternalAction'' (callPage (InternalAction ''commitAcceptedByServer''))) (\<lambda>_.
        bindA (callCatchingErrors ''onConnectionTrouble'' (callPage (ConnectionTrouble ''OK''))) (\<lambda>_.
        client_handleUserChanges)))) (commits n) (\<lambda>_. commits n) s"
proof -
  let ?s = "s\<lparr>cl_state := Idle\<rparr>"
  have q: "quiet n ?s" using assms by (simp add: quiet_def client_ok_def)
  have "ends (thenA (callPage (InternalAction ''newlyIdle'')) schedulePerhapsCallIdleFuncs) (commits n) (\<lambda>_. quiet n) ?s"
    by (rule ends_calm [OF _ q]) (intro pres calm)
  then show ?thesis
    unfolding setStateIdle_def ends_then ends_mod
    by (rule ends_mono, simp) (rule ends_mono, assumption, simp, intro ends_calm_then calm handleUserChanges_ends)
qed

lemma acceptCommit_ends:
  assumes q: "quiet n s"
  shows "ends (acceptCommit r) (commits n) (\<lambda>_. commits n) s"
proof (cases "r = cl_rev s + 1")
  case False
  have "ends (thenA (dmesg m) (onSocket SocketDisconnect)) (commits n) (\<lambda>_. commits n) s" for m
    by (rule ends_quiet [OF _ q]) (intro pres calm)
  with False show ?thesis by (simp add: acceptCommit_def nextRevision_def ends_bind ends_get)
next
  case True
  let ?s = "s\<lparr>cl_rev := r\<rparr>" let ?e = "cl_editor s"
  have c: "consistent ?e (dt_doc ?e)" using q by (simp add: quiet_def client_ok_def)
  have "ends (thenA (onEditor applyPreparedChangesetToBase) (thenA setStateIdle
       (bindA (callCatchingErrors ''onInternalAction'' (callPage (InternalAction ''commitAcceptedByServer''))) (\<lambda>_.
        bindA (callCatchingErrors ''onConnectionTrouble'' (callPage (ConnectionTrouble ''OK''))) (\<lambda>_.
        client_handleUserChanges))))) (commits n) (\<lambda>_. commits n) ?s"
  proof (cases "tr_submitted ?e")
    case None
    have "quiet n ?s" using q by (simp add: quiet_def)
    with None show ?thesis
      unfolding ends_then ends_onEditor
      by (simp add: applyPreparedChangesetToBase_def ends_bind ends_get truthy_def quiet_commits)
        (simp add: ends_def throwA_def quiet_commits)
  next
    case (Some x)
    obtain t where t: "applyPreparedChangesetToBase ?e = (Inr (), t)" "consistent t (dt_doc ?e)"
      using wp_returns [OF applyPrepared_wp [OF c]] Some by auto
    have "consistent t (dt_doc t)" using t applyPrepared_doc [OF t(1)] by simp
    then have "ends (thenA setStateIdle
       (bindA (callCatchingErrors ''onInternalAction'' (callPage (InternalAction ''commitAcceptedByServer''))) (\<lambda>_.
        bindA (callCatchingErrors ''onConnectionTrouble'' (callPage (ConnectionTrouble ''OK''))) (\<lambda>_.
        client_handleUserChanges)))) (commits n) (\<lambda>_. commits n) (?s\<lparr>cl_editor := t\<rparr>)"
      using q by (intro idleAgain_ends) (simp_all add: quiet_def)
    moreover have "ends (onEditor applyPreparedChangesetToBase) I Q ?s = Q () (?s\<lparr>cl_editor := t\<rparr>)" for I Q
      by (simp add: ends_def onEditor_def t(1))
    ultimately show ?thesis by (simp add: ends_then)
  qed
  with True show ?thesis by (simp add: acceptCommit_def nextRevision_def ends_steps)
qed

subsection \<open>Changes from the server\<close>

lemma newChanges_wp:
  assumes c: "client_ok s" and sock: "cl_socket s \<noteq> None"
    and m: "applies w cs (at_text (tr_base (cl_editor s))) b'" "r = cl_rev s + 1"
  shows "wp (handleMessageFromServer docEditor (Collab (NEW_CHANGES r cs w a))) (\<lambda>_ s'. \<exists>t.
    s' = s\<lparr>cl_rev := r, cl_editor := t\<rparr> \<and> client_ok s' \<and> at_text (tr_base t) = b' \<and>
    (tr_submitted t = None) = (tr_submitted (cl_editor s) = None) \<and> carried cs (Some (toJsonable w)) (cl_editor s) t) s"
proof -
  have c': "consistent (cl_editor s) (dt_doc (cl_editor s))" using c by (simp add: client_ok_def)
  have i: "incoming (tr_apool (cl_editor s)) cs (Some (toJsonable w)) (at_text (tr_base (cl_editor s))) b'"
    using applies_json [OF applies_wf [OF m(1)] m(1)] by (simp add: incoming_def)
  obtain t where t: "applyChangesToBase docEditor cs (Some (toJsonable w)) (cl_editor s) = (Inr (), t)"
    "consistent t (dt_doc t)" "at_text (tr_base t) = b'" "(tr_submitted t = None) = (tr_submitted (cl_editor s) = None)"
    "carried cs (Some (toJsonable w)) (cl_editor s) t"
    using wp_returns [OF applyChangesToBase_wp [OF c' i]] by auto
  have "client_ok (s\<lparr>cl_rev := r, cl_editor := t\<rparr>)" using c t(2,4) by (simp add: client_ok_def)
  moreover have "wp (onEditor (applyChangesToBase docEditor cs (Some (toJsonable w)))) Q u = Q () (u\<lparr>cl_editor := t\<rparr>)"
    if "cl_editor u = cl_editor s" for Q and u :: docClient
    using that t(1) by (simp add: wp_def onEditor_def)
  ultimately show ?thesis
    using sock m(2) t(3-5) by (auto simp: handleMessageFromServer_def nextRevision_def wps)
qed

text \<open>A message is legitimate if the changes in it, where they are the next ones, fit the client's base text.\<close>

definition fitting :: "docClient \<Rightarrow> fromServer \<Rightarrow> bool" where
  "fitting s evt = (\<forall>r cs w a. evt = Collab (NEW_CHANGES r cs w a) \<and> r = cl_rev s + 1 \<longrightarrow>
     (\<exists>b'. applies w cs (at_text (tr_base (cl_editor s))) b'))"

lemma handleMessage_ends:
  assumes q: "quiet n s" and m: "fitting s evt"
  shows "ends (handleMessageFromServer docEditor evt) (commits n) (\<lambda>_. commits n) s"
proof (cases "cl_socket s = None")
  case True
  then show ?thesis using quiet_commits [OF q] by (simp add: handleMessageFromServer_def ends_steps)
next
  case sock0: False
  then obtain y where sock: "cl_socket s = Some y" by blast
  have start: "ends (bindA (getA (\<lambda>s. (cl_socket s, cl_state s))) f) I Q s = ends (f (cl_socket s, cl_state s)) I Q s" for f I Q
    by (simp add: ends_steps)
  have calm': "ends m (commits n) (\<lambda>_. commits n) s" if "preserves (quiet n) m" for m :: "(docClient, unit) act"
    by (rule ends_quiet [OF that q])
  show ?thesis
  proof (cases evt)
    case (Collab msg)
    show ?thesis
    proof (cases msg)
      case (NEW_CHANGES r cs w a)
      show ?thesis
      proof (cases "r = cl_rev s + 1")
        case True
        then obtain b' where b: "applies w cs (at_text (tr_base (cl_editor s))) b'"
          using m Collab NEW_CHANGES by (auto simp: fitting_def)
        have ok: "client_ok s" using q by (simp add: quiet_def)
        show ?thesis
          unfolding Collab NEW_CHANGES
          by (rule wp_ends [OF wp_mono [OF newChanges_wp [OF ok sock0 b True]]])
            (use q in \<open>auto intro!: quiet_commits simp: quiet_def\<close>)
      next
        case False
        have "ends (thenA (dmesg m) (onSocket SocketDisconnect)) (commits n) (\<lambda>_. commits n) s" for m
          by (rule calm') (intro pres calm)
        with False Collab NEW_CHANGES sock show ?thesis
          by (simp add: handleMessageFromServer_def nextRevision_def ends_steps quiet_commits [OF q])
      qed
    next
      case (ACCEPT_COMMIT r)
      then show ?thesis using Collab sock acceptCommit_ends [OF q] by (simp add: handleMessageFromServer_def start)
    next
      case NO_COMMIT_PENDING
      have "ends (thenA setStateIdle client_handleUserChanges) (commits n) (\<lambda>_. commits n) s"
        unfolding thenA_def
        by (rule ends_calm_then [OF _ q])
          (auto intro!: handleUserChanges_ends pres calm simp: setStateIdle_def quiet_def client_ok_def)
      then show ?thesis
        using NO_COMMIT_PENDING Collab sock quiet_commits [OF q]
        by (cases "cl_state s") (simp_all add: handleMessageFromServer_def start ends_ret)
    next
      case (DISCONNECT_REASON r)
      have "ends (modA (\<lambda>s. s\<lparr>cl_appLevelDisconnectReason := Some r\<rparr>)) (commits n) (\<lambda>_. commits n) s"
        by (rule calm') (intro pres, simp add: quiet_def)
      then show ?thesis using DISCONNECT_REASON Collab sock by (simp add: handleMessageFromServer_def start)
    qed (use Collab sock calm' [OF calm_users(1)] calm' [OF calm_users(2)] quiet_commits [OF q]
        calm' [OF calm_calls(10)] calm' [OF calm_calls(13)] in
      \<open>simp_all add: handleMessageFromServer_def start ends_ret\<close>)
  qed (use sock quiet_commits [OF q] in \<open>simp_all add: handleMessageFromServer_def start ends_ret\<close>)
qed

subsection \<open>Runs of a client\<close>

text \<open>What the user, the timers, the socket and the page do to a client.\<close>

datatype clientEvent =
    UserEdits string
  | EditorNotifies
  | TimerFires timer
  | SocketOpens string
  | SocketHiccups string bool
  | SocketCloses string "string option" bool
  | SocketReceives fromServer
  | PageUpdatesUserInfo userInfo
  | PageSendsMessage payload
  | PageWaits nat
  | PageAddsAuthors "(string, authorData) obj"
  | WindowUnloads

definition clientDo :: "clientEvent \<Rightarrow> (docClient, unit) act" where
  "clientDo e =
     (case e of
        UserEdits c \<Rightarrow> onEditor (userEdit c)
      | EditorNotifies \<Rightarrow> editorNotifies
      | TimerFires t \<Rightarrow> timerFired t
      | SocketOpens sid \<Rightarrow> socketOpened sid
      | SocketHiccups sid connected \<Rightarrow> socketHiccup sid connected
      | SocketCloses sid reason reconnect \<Rightarrow> socketClosed sid reason reconnect
      | SocketReceives evt \<Rightarrow> socketMessage docEditor evt
      | PageUpdatesUserInfo ui \<Rightarrow> deferUpdateUserInfo ui None
      | PageSendsMessage m \<Rightarrow> sendClientMessage m
      | PageWaits k \<Rightarrow> callWhenNotCommitting k
      | PageAddsAuthors h \<Rightarrow> tellAceAboutHistoricalAuthors h
      | WindowUnloads \<Rightarrow> windowUnload)"

definition legitimate :: "docClient \<Rightarrow> clientEvent \<Rightarrow> bool" where
  "legitimate s e =
     (case e of
        UserEdits c \<Rightarrow> (\<exists>d'. applies (tr_apool (cl_editor s)) c (dt_doc (cl_editor s)) d')
      | SocketReceives evt \<Rightarrow> fitting s evt
      | _ \<Rightarrow> True)"

text \<open>
  A run: the client starts idle on a document; then, in any order, its user types, timers fire, the socket
  opens, fails, closes and brings messages, and the page calls it. An event may end with an exception of the
  page.
\<close>

inductive clientRun :: "docClient \<Rightarrow> bool" where
  start: "client (cl_editor s) \<Longrightarrow> cl_state s = Idle \<Longrightarrow> clientRun s"
| step: "clientRun s \<Longrightarrow> legitimate s e \<Longrightarrow> clientDo e (s\<lparr>cl_world := w\<rparr>) = (r, s') \<Longrightarrow> clientRun s'"

lemma commits_wrap:
  assumes "ends m (commits n) (\<lambda>_. commits n) s"
  shows "ends (wrapRecordingErrors c m) (commits n) (\<lambda>_. commits n) s"
proof -
  have "commits n (t\<lparr>cl_caughtErrors := x\<rparr>)" if "commits n t" for t x
    using that by (simp add: commits_def right_def)
  with assms show ?thesis
    by (auto simp: wrapRecordingErrors_def world_def ends_def catchA_def bindA_def thenA_def getA_def modA_def
        throwA_def split: prod.splits sum.splits)
qed

lemma clientDo_ends:
  assumes q: "quiet n s" and l: "legitimate s e"
  shows "ends (clientDo e) (commits n) (\<lambda>_. commits n) s"
proof -
  note calm' = ends_quiet [OF _ q]
  show ?thesis
  proof (cases e)
    case (UserEdits c)
    then obtain d' where d: "applies (tr_apool (cl_editor s)) c (dt_doc (cl_editor s)) d'"
      using l by (auto simp: legitimate_def)
    have c: "consistent (cl_editor s) (dt_doc (cl_editor s))" using q by (simp add: quiet_def client_ok_def)
    obtain t where t: "userEdit c (cl_editor s) = (Inr (), t)" "consistent t (dt_doc t)"
      using wp_returns [OF userEdit_wp [OF c d]] by auto
    have "tr_submitted t = tr_submitted (cl_editor s)"
      using t(1) by (auto simp: userEdit_def composeUserChangeset_def bindA_def thenA_def getA_def liftA_def modA_def
          ret_def withPool_def setChangeCallbackTimeout_def split: prod.splits sum.splits option.splits if_splits)
    then have "quiet n (s\<lparr>cl_editor := t\<rparr>)" using q t(2) by (simp add: quiet_def client_ok_def)
    then show ?thesis using UserEdits t(1) quiet_commits by (simp add: clientDo_def ends_def onEditor_def)
  next
    case EditorNotifies
    have "commits n (t\<lparr>cl_editor := (cl_editor t)\<lparr>tr_timeout := False\<rparr>\<rparr>)" if "commits n t" for t
      using that by (simp add: commits_def client_ok_def right_def)
    moreover obtain r t where "wrapRecordingErrors ''handleUserChanges'' client_handleUserChanges s = (r, t)" by fastforce
    moreover have "commits n t" using commits_wrap [OF handleUserChanges_ends [OF q], of "''handleUserChanges''"] calculation(2)
      by (auto simp: ends_def split: sum.splits)
    ultimately show ?thesis
      unfolding EditorNotifies clientDo_def clientEvent.case editorNotifies_def
      by (auto simp: ends_def finallyA_def onEditor_def modA_def split: prod.splits sum.splits js_error.splits)
  next
    case (TimerFires t)
    have "ends (timerFired t) (commits n) (\<lambda>_. commits n) s"
    proof (cases t)
      case TimerUserChanges
      then show ?thesis by (simp add: timerFired_def commits_wrap handleUserChanges_ends [OF q])
    qed (simp_all add: timerFired_def calm' calm)
    with TimerFires show ?thesis by (simp add: clientDo_def)
  next
    case (SocketReceives evt)
    then show ?thesis
      using l by (simp add: clientDo_def socketMessage_def legitimate_def commits_wrap handleMessage_ends [OF q])
  qed (simp_all add: clientDo_def calm' calm)
qed

lemma legitimate_world [simp]: "legitimate (s\<lparr>cl_world := w\<rparr>) e = legitimate s e"
  by (simp add: legitimate_def fitting_def split: clientEvent.split)

lemma clientDo_commits:
  assumes "client_ok s" and "legitimate s e" and "clientDo e (s\<lparr>cl_world := w\<rparr>) = (r, s')"
  shows "commits (length (cl_calls s)) s'"
proof -
  have "quiet (length (cl_calls s)) (s\<lparr>cl_world := w\<rparr>)" using assms(1) by (simp add: quiet_def)
  from clientDo_ends [OF this, of e] assms(2,3) show ?thesis by (auto simp: ends_def split: sum.splits)
qed

lemma clientRun_ok: "clientRun s \<Longrightarrow> client_ok s"
proof (induction rule: clientRun.induct)
  case (start s)
  then show ?case using client_consistent by (simp add: client_ok_def)
next
  case (step s e w r s')
  then show ?case using clientDo_commits by (auto simp: commits_def)
qed

text \<open>
  C7. What a client commits is its document: whatever happens to a client, and however the page's callbacks
  end, changes it sends name the revision it is at and, over the pool sent with them, lead from the text of
  that revision to the document in the editor; the client then is committing, with a submission to be
  acknowledged.
\<close>

theorem client_commits_document:
  assumes "clientRun s" and "legitimate s e" and "clientDo e (s\<lparr>cl_world := w\<rparr>) = (r, s')"
    and "SocketPost sid (Posted (RoomMessage (UserChanges baseRev cs apool))) \<in> set (drop (length (cl_calls s)) (cl_calls s'))"
  shows "baseRev = cl_rev s' \<and> cl_state s' = Committing \<and> tr_submitted (cl_editor s') \<noteq> None \<and>
    (\<exists>c. cs = Some c \<and> applyToText c (at_text (tr_base (cl_editor s'))) = Inr (dt_doc (cl_editor s')))"
proof -
  have c: "commits (length (cl_calls s)) s'" by (rule clientDo_commits [OF clientRun_ok [OF assms(1)] assms(2,3)])
  then have "right s' (SocketPost sid (Posted (RoomMessage (UserChanges baseRev cs apool))))"
    using assms(4) by (auto simp: commits_def)
  moreover have "client_ok s'" using c by (simp add: commits_def)
  ultimately show ?thesis using applies_text by (fastforce simp: right_def userChanges_def client_ok_def)
qed

subsection \<open>Client and server\<close>

text \<open>
  \<open>atRevision cs s\<close>: the client's base text is the text of the revision it is at, in the history \<open>cs\<close>.
\<close>

definition atRevision :: "string list \<Rightarrow> docClient \<Rightarrow> bool" where
  "atRevision cs s = (- 1 \<le> cl_rev s \<and>
     replay (take (nat (cl_rev s + 1)) cs) [nl] = Inr (at_text (tr_base (cl_editor s))))"

lemma receive_wp:
  assumes ok: "client_ok s" "cl_socket s \<noteq> None" "atRevision cs s"
    and d: "delivers p cs own sid (cl_rev s + 1) m" and other: "obj_get own (cl_rev s + 1) \<noteq> Some sid"
  shows "wp (socketMessage docEditor (Collab m)) (\<lambda>_ s'. client_ok s' \<and> cl_socket s' = cl_socket s \<and> atRevision cs s' \<and>
    cl_rev s' = cl_rev s + 1 \<and> cl_state s' = cl_state s \<and> cl_calls s' = cl_calls s \<and>
    (tr_submitted (cl_editor s') = None) = (tr_submitted (cl_editor s) = None)) s"
proof -
  obtain c w a d1 d2 where m: "m = NEW_CHANGES (cl_rev s + 1) c w a" "applies w c d1 d2"
    "ot.path p (take (nat (cl_rev s + 1)) cs) [nl] d1" "ot.path p (take (Suc (nat (cl_rev s + 1))) cs) [nl] d2"
    using d other by (auto simp: delivers_def)
  have "- 1 \<le> cl_rev s" using ok(3) by (simp add: atRevision_def)
  then have r: "nat (cl_rev s + 1 + 1) = Suc (nat (cl_rev s + 1))" by arith
  have b: "at_text (tr_base (cl_editor s)) = d1" using path_replay [OF m(3)] ok(3) by (simp add: atRevision_def)
  have "wp (handleMessageFromServer docEditor (Collab m)) (\<lambda>_ s'. client_ok s' \<and> cl_socket s' = cl_socket s \<and> atRevision cs s' \<and>
    cl_rev s' = cl_rev s + 1 \<and> cl_state s' = cl_state s \<and> cl_calls s' = cl_calls s \<and>
    (tr_submitted (cl_editor s') = None) = (tr_submitted (cl_editor s) = None)) s"
    unfolding m(1)
    by (rule wp_mono [OF newChanges_wp [OF ok(1,2) m(2) [folded b] refl]])
      (use ok(3) path_replay [OF m(4)] r in \<open>auto simp: atRevision_def\<close>)
  then show ?thesis unfolding socketMessage_def wrapRecordingErrors_def by (rule wp_catch)
qed

lemma receiveAll_wp:
  assumes "client_ok s" and "cl_socket s \<noteq> None" and "atRevision cs s"
    and "list_all2 (delivers p cs own sid) [cl_rev s + 1 .. h] ms" and "cl_rev s \<le> h"
    and "\<forall>r \<in> {cl_rev s + 1 .. h}. obj_get own r \<noteq> Some sid"
  shows "wp (forA (\<lambda>m. socketMessage docEditor (Collab m)) ms) (\<lambda>_ s'. client_ok s' \<and> atRevision cs s' \<and> cl_rev s' = h \<and>
    cl_state s' = cl_state s \<and> cl_calls s' = cl_calls s \<and>
    (tr_submitted (cl_editor s') = None) = (tr_submitted (cl_editor s) = None)) s"
  using assms
proof (induction ms arbitrary: s)
  case Nil
  then have "cl_rev s = h" by (cases "cl_rev s + 1 \<le> h") (auto simp: upto.simps)
  with Nil show ?case by (simp add: wps)
next
  case (Cons m ms)
  from Cons.prems(4) have le: "cl_rev s + 1 \<le> h" by (cases "cl_rev s + 1 \<le> h") auto
  then have up: "[cl_rev s + 1 .. h] = (cl_rev s + 1) # [cl_rev s + 1 + 1 .. h]" by (simp add: upto_rec1)
  have d: "delivers p cs own sid (cl_rev s + 1) m" "list_all2 (delivers p cs own sid) [cl_rev s + 1 + 1 .. h] ms"
    using Cons.prems(4) unfolding up by simp_all
  have o: "obj_get own (cl_rev s + 1) \<noteq> Some sid" using Cons.prems(6) le by simp
  show ?case
    unfolding forA.simps wp_then
  proof (rule wp_mono [OF receive_wp [OF Cons.prems(1-3) d(1) o]], elim conjE)
    fix s1
    assume s1: "client_ok s1" "cl_socket s1 = cl_socket s" "atRevision cs s1" "cl_rev s1 = cl_rev s + 1"
      "cl_state s1 = cl_state s" "cl_calls s1 = cl_calls s"
      "(tr_submitted (cl_editor s1) = None) = (tr_submitted (cl_editor s) = None)"
    show "wp (forA (\<lambda>m. socketMessage docEditor (Collab m)) ms) (\<lambda>_ s'. client_ok s' \<and> atRevision cs s' \<and> cl_rev s' = h \<and>
      cl_state s' = cl_state s \<and> cl_calls s' = cl_calls s \<and>
      (tr_submitted (cl_editor s') = None) = (tr_submitted (cl_editor s) = None)) s1"
      by (rule wp_mono [OF Cons.IH [OF s1(1) _ s1(3)]])
        (use s1 d(2) Cons.prems(2,6) le in auto)
  qed
qed

end
