(* ===== verification/Reconnecting.thy ===== *)
theory Reconnecting
  imports ClientLaws
begin

text \<open>
  Connecting again: what a client posts when its socket opens, and what the server does with a
  \<open>CLIENT_READY\<close>, from the access to the pad to the last message it sends.
\<close>

subsection \<open>Access to a pad of the server\<close>

lemma beginAccess_sockets: "sockets (snd (beginAccess mode s)) = sockets s"
proof -
  let ?I = "\<lambda>t. sockets t = sockets s"
  have b: "preserves ?I getMeta" "preserves ?I (modMeta f)" for f
    by (auto simp: preserves_def getMeta_def modMeta_def bindA_def getA_def modA_def ret_def throwA_def
        sockets_def tempView_def split: option.splits sum.splits)
  have "preserves ?I (modStatus f)" for f
    unfolding modStatus_def by (intro preserves_option pres b)
  moreover have "preserves ?I getPadMetaData"
    unfolding getPadMetaData_def
    by (intro preserves_option pres) (simp add: sockets_def tempView_def cong: option.case_cong)
  ultimately have "preserves ?I (beginAccess mode)"
    unfolding beginAccess_def
    by (intro preserves_option pres b) (simp_all add: sockets_def tempView_def cong: option.case_cong)
  then show ?thesis unfolding preserves_def by blast
qed

lemma endAccess_keeps:
  assumes ok: "pad_ok s cs d"
  shows "wp (endAccess mode) (\<lambda>_ s'. pad_ok s' cs d) s"
proof -
  obtain m st where m: "metaVar s = Some m" "mt_status m = Some st"
    using ok by (auto simp: pad_ok_def pad_inv_def)
  have "pad_ok (setMeta (m\<lparr>mt_status := Some st'\<rparr>) s) cs d" for st'
    by (rule pad_ok_setMeta [OF ok m(1)]) simp_all
  then have "pad_ok (setMeta (m\<lparr>mt_status := Some st'\<rparr>) s\<lparr>pd_external := l\<rparr>) cs d"
    "pad_ok (setMeta (m\<lparr>mt_status := Some st'\<rparr>) s) cs d" "pad_ok (s\<lparr>pd_external := l\<rparr>) cs d" "pad_ok s cs d" for st' l
    using ok by (auto simp: pad_ok_def views)
  then show ?thesis
    by (simp add: endAccess_def wps m wp_modStatus [OF m(1,2)] wp_getMeta [OF m(1)] views
        wp_getMeta [of "setMeta _ s"] externalCall_def)
qed

lemma getPadOptions_ok:
  assumes ok: "pad_ok t cs d"
  shows "wp (getPadOptionsObj allowed) (\<lambda>_ t'. pad_ok t' cs d \<and> sockets t' = sockets t) t"
proof -
  obtain m where m: "metaVar t = Some m" "mt_status m \<noteq> None" using ok by (auto simp: pad_ok_def pad_inv_def)
  have s: "sockets (setMeta m' u) = sockets u" for m' u by (simp add: sockets_def views)
  have o: "pad_ok (setMeta (m\<lparr>mt_dataRoot := x\<rparr>) u) cs d \<and> metaVar (setMeta (m\<lparr>mt_dataRoot := x\<rparr>) u) = Some (m\<lparr>mt_dataRoot := x\<rparr>)"
    if "pad_ok u cs d" "metaVar u = Some (m\<lparr>mt_dataRoot := y\<rparr>)" for x y u
    using pad_ok_setMeta [OF that, of "m\<lparr>mt_dataRoot := x\<rparr>"] m(2) by (simp add: views)
  have same: "m\<lparr>mt_dataRoot := mt_dataRoot m\<rparr> = m" by simp
  have m0: "metaVar t = Some (m\<lparr>mt_dataRoot := mt_dataRoot m\<rparr>)" using m(1) by simp
  note o1 = o [OF ok m0]
  note o2 = o [OF conjunct1 [OF o1] conjunct2 [OF o1]]
  show ?thesis
    using o1 o2 by (simp add: getPadOptionsObj_def getDataRoot_def wps pad_wps m s Let_def views split: option.split)
qed

text \<open>A new access to a pad: what is done within it sees the pad with the sockets of its revisions.\<close>

lemma accessPad_ok:
  fixes f :: "(serverState, unit) act"
  assumes rest: "pad_at_rest (sv_pads s padId) cs d"
    and free: "en_accessDenied (sv_env s) padId mode = None" "padId \<notin> set (sv_accessing s)"
    and f: "\<And>t s1. pad_ok t cs d \<Longrightarrow> sockets t = sockets (sv_pads s padId) \<Longrightarrow>
      s1 = s\<lparr>sv_pads := (sv_pads s)(padId := t), sv_accessing := padId # sv_accessing s\<rparr> \<Longrightarrow>
      wp f (\<lambda>_ s2. R (sv_comet s2) (sv_allConnections s2) \<and> pad_ok (sv_pads s2 padId) cs' d') s1"
  shows "wp (accessPad padId mode f) (\<lambda>_ s'. R (sv_comet s') (sv_allConnections s') \<and> pad_ok (sv_pads s' padId) cs' d') s"
proof -
  have tr: "wp (serverTransaction m) Q s = wp m Q s" for m :: "(serverState, unit) act" and Q
    by (simp add: wp_def serverTransaction_def split: prod.split sum.split)
  let ?Q = "\<lambda>_ s'. R (sv_comet s') (sv_allConnections s') \<and> pad_ok (sv_pads s' padId) cs' d'"
  have "wp (beginAccess mode) (\<lambda>_ t. wp (finallyA
      (thenA (modA (\<lambda>s. s\<lparr>sv_accessing := padId # sv_accessing s\<rparr>)) f)
      (thenA (modA (\<lambda>s. s\<lparr>sv_accessing := removeAll padId (sv_accessing s)\<rparr>))
         (onPad padId (endAccess mode)))) ?Q (s\<lparr>sv_pads := (sv_pads s)(padId := t)\<rparr>)) (sv_pads s padId)"
  proof (rule wp_mono [OF wp_both [OF beginAccess_ok [OF rest], where P = "\<lambda>t. sockets t = sockets (sv_pads s padId)"]])
    show "snd (beginAccess mode (sv_pads s padId)) = t \<Longrightarrow> sockets t = sockets (sv_pads s padId)" for t
      using beginAccess_sockets [of mode "sv_pads s padId"] by simp
  next
    fix t
    assume t: "pad_ok t cs d \<and> sockets t = sockets (sv_pads s padId)"
    let ?s1 = "s\<lparr>sv_pads := (sv_pads s)(padId := t), sv_accessing := padId # sv_accessing s\<rparr>"
    have "wp f (\<lambda>_ s2. wp (endAccess mode) (\<lambda>_ u. R (sv_comet s2) (sv_allConnections s2) \<and> pad_ok u cs' d')
        (sv_pads s2 padId)) ?s1"
      by (rule wp_mono [OF f [OF conjunct1 [OF t] conjunct2 [OF t] refl]], elim conjE)
        (rule wp_mono [OF endAccess_keeps], assumption, simp)
    then show "wp (finallyA
      (thenA (modA (\<lambda>s. s\<lparr>sv_accessing := padId # sv_accessing s\<rparr>)) f)
      (thenA (modA (\<lambda>s. s\<lparr>sv_accessing := removeAll padId (sv_accessing s)\<rparr>))
         (onPad padId (endAccess mode)))) ?Q (s\<lparr>sv_pads := (sv_pads s)(padId := t)\<rparr>)"
      by (simp add: wp_finally wp_then wp_mod wp_mod_fun wp_onPad)
  qed
  then show ?thesis
    using free by (simp add: accessPad_def wp_bind wp_env wp_get tr wp_then wp_onPad)
qed

subsection \<open>What the server does with a CLIENT_READY\<close>

lemma member_facts:
  assumes "rooms_ok (skeleton s)" and "c \<in> set (roomMembers s n)"
  shows "obj_get (sv_allConnections s) (cn_connectionId c) = Some c" and "cn_roomName c = n"
    and "cn_socketId c = cn_connectionId c" and "obj_get (sv_rooms s) (cn_roomName c) \<noteq> None"
proof -
  have t: "tables (skeleton s)" using assms(1) by (simp add: rooms_ok_def)
  obtain r where r: "obj_get (sv_rooms s) n = Some r"
    using assms(2) by (cases "obj_get (sv_rooms s) n") (auto simp: roomMembers_def)
  with assms(2) obtain cid where "cid \<in> set (ro_connections r)" "obj_get (sv_allConnections s) cid = Some c"
    by (auto simp: roomMembers_def in_map_filter)
  note cid = r this
  then have m: "member s cid = Some (cn_roomName c, cn_connectionId c, cn_socketId c, userId c)"
    by (simp add: member_def membership_def)
  from t cid(1,2) have "\<exists>x. member s cid = Some x \<and> fst x = n"
    unfolding tables_def skeleton_def prod.case by blast
  with m have n: "cn_roomName c = n" by auto
  from t m have "cn_connectionId c = cid \<and> cn_socketId c = cid"
    unfolding tables_def skeleton_def prod.case by blast
  with cid n show "obj_get (sv_allConnections s) (cn_connectionId c) = Some c" "cn_roomName c = n"
    "cn_socketId c = cn_connectionId c" "obj_get (sv_rooms s) (cn_roomName c) \<noteq> None" by simp_all
qed

lemma roomToPadId_room: "roomToPadId (padIdToRoom padId) = padId"
proof -
  have "js_indexOf (padIdToRoom padId) ''/'' 0 = 7" by (simp add: padIdToRoom_def js_indexOf_def)
  moreover have "js_from (''padpage/'' @ padId) (int (length ''padpage/'')) = padId" by (rule js_from_append)
  ultimately show ?thesis by (simp add: roomToPadId_def padIdToRoom_def)
qed

fun isClientMessage :: "message \<Rightarrow> bool" where
  "isClientMessage (CLIENT_MESSAGE _) = True"
| "isClientMessage _ = False"

text \<open>\<open>greeted s c pre s'\<close>: only messages of the page were sent since \<open>s\<close> to the socket of the connection \<open>c\<close>, which is stored.\<close>

definition greeted :: "serverState \<Rightarrow> connection \<Rightarrow> message list \<Rightarrow> serverState \<Rightarrow> bool" where
  "greeted s c pre s' =
     (sv_pads s' = sv_pads s \<and> sv_accessing s' = sv_accessing s \<and> sv_rooms s' = sv_rooms s \<and> sv_env s' = sv_env s \<and>
      obj_get (sv_allConnections s') (cn_connectionId c) = Some c \<and>
      sentTo (cn_socketId c) (sv_comet s') = sentTo (cn_socketId c) (sv_comet s) @ pre \<and> list_all isClientMessage pre)"

lemma greet_more:
  assumes "greeted s c pre t"
  shows "wp (sendMessage (cn_connectionId c) (CLIENT_MESSAGE x)) (\<lambda>_. greeted s c (pre @ [CLIENT_MESSAGE x])) t"
  by (rule send_steps) (use assms in \<open>auto simp: greeted_def sentTo_def\<close>)

lemma clientReady_updates:
  assumes "obj_get (sv_allConnections s) (cn_connectionId c) = Some c" and "obj_get (sv_rooms s) (cn_roomName c) \<noteq> None"
  shows "wp (updateRoomConnectionData (cn_connectionId c) d) (\<lambda>_. greeted s (c\<lparr>cn_data := d\<rparr>) []) s"
  using assms
  by (auto simp: updateRoomConnectionData_def getConnection_def putConnection_def wps Let_def truthy_def greeted_def)

lemma padpage_clientReady_ok:
  assumes rest: "pad_at_rest (sv_pads s padId) cs d"
    and free: "en_accessDenied (sv_env s) padId ReadWrite = None" "padId \<notin> set (sv_accessing s)"
    and c: "obj_get (sv_allConnections s) (cn_connectionId c) = Some c" "cn_roomName c = padIdToRoom padId"
      "cn_socketId c = cn_connectionId c" "obj_get (sv_rooms s) (cn_roomName c) \<noteq> None"
    and r: "rd_lastRev data = Some r" "- 1 \<le> r"
  shows "wp (padpage_clientReady c data) (\<lambda>_ s'. pad_ok (sv_pads s' padId) cs d \<and>
    (\<exists>pre p ms. sentTo (cn_socketId c) (sv_comet s') = sentTo (cn_socketId c) (sv_comet s) @ pre @ ms @
        (if rd_isCommitPending data then [NO_COMMIT_PENDING] else []) \<and> list_all isClientMessage pre \<and>
      list_all2 (delivers p cs (sockets (sv_pads s padId)) (cn_socketId c)) [r + 1 .. int (length cs) - 1] ms)) s"
    (is "wp _ ?Q s")
proof -
  let ?id = "cn_connectionId c"
  let ?c = "c\<lparr>cn_data := (cn_data c)\<lparr>cd_lastRev := rd_lastRev data\<rparr>\<rparr>"
  have idc: "cn_connectionId ?c = ?id" "cn_socketId ?c = cn_socketId c" by simp_all
  text \<open>What is sent in the access to the pad, and after it.\<close>
  have inside: "wp (bindA (env en_guestsAllowed) (\<lambda>allowed.
         bindA (onPad padId (getPadOptionsObj allowed)) (\<lambda>opts.
         thenA (sendMessage ?id (CLIENT_MESSAGE (PadOptions opts))) (updateClient padId ?id))))
      (\<lambda>_ s'. (\<exists>pre p ms c'. sentTo (cn_socketId c) (sv_comet s') = sentTo (cn_socketId c) (sv_comet s) @ pre @ ms \<and>
         list_all isClientMessage pre \<and> obj_get (sv_allConnections s') ?id = Some c' \<and> cn_socketId c' = cn_socketId c \<and>
         list_all2 (delivers p cs (sockets (sv_pads s padId)) (cn_socketId c)) [r + 1 .. int (length cs) - 1] ms) \<and>
       pad_ok (sv_pads s' padId) cs d) u"
    if t: "greeted s ?c pre t" "pad_ok v cs d" "sockets v = sockets (sv_pads t padId)"
      "u = t\<lparr>sv_pads := (sv_pads t)(padId := v), sv_accessing := padId # sv_accessing t\<rparr>" for pre t v u
  proof -
    have "wp (thenA (sendMessage ?id (CLIENT_MESSAGE (PadOptions opts))) (updateClient padId ?id))
      (\<lambda>_ s'. (\<exists>pre p ms c'. sentTo (cn_socketId c) (sv_comet s') = sentTo (cn_socketId c) (sv_comet s) @ pre @ ms \<and>
         list_all isClientMessage pre \<and> obj_get (sv_allConnections s') ?id = Some c' \<and> cn_socketId c' = cn_socketId c \<and>
         list_all2 (delivers p cs (sockets (sv_pads s padId)) (cn_socketId c)) [r + 1 .. int (length cs) - 1] ms) \<and>
       pad_ok (sv_pads s' padId) cs d) (u\<lparr>sv_pads := (sv_pads u)(padId := w)\<rparr>)"
      if w: "pad_ok w cs d" "sockets w = sockets v" for opts w
      unfolding wp_then
    proof (rule send_steps)
      show "obj_get (sv_allConnections (u\<lparr>sv_pads := (sv_pads u)(padId := w)\<rparr>)) ?id = Some ?c"
        using t(1,4) by (simp add: greeted_def)
    next
      fix l
      let ?s = "u\<lparr>sv_pads := (sv_pads u)(padId := w)\<rparr>"
      let ?t = "?s\<lparr>sv_comet := sv_comet ?s @ [CometSend (cn_socketId ?c) (CLIENT_MESSAGE (PadOptions opts))], sv_calls := l\<rparr>"
      have ok: "pad_ok (sv_pads ?t padId) cs d" using w(1) by simp
      have rd: "ready padId ?t ?c" using t(1,4) c r by (simp add: ready_def greeted_def)
      have upd: "wp (updateClient padId ?id) (\<lambda>_ s'. touches padId {?id} ?t s' \<and> caughtUp padId cs ?t s' ?c) ?t"
        using updateClient_ok [OF ok rd] by simp
      show "wp (updateClient padId ?id)
        (\<lambda>_ s'. (\<exists>pre p ms c'. sentTo (cn_socketId c) (sv_comet s') = sentTo (cn_socketId c) (sv_comet s) @ pre @ ms \<and>
           list_all isClientMessage pre \<and> obj_get (sv_allConnections s') ?id = Some c' \<and> cn_socketId c' = cn_socketId c \<and>
           list_all2 (delivers p cs (sockets (sv_pads s padId)) (cn_socketId c)) [r + 1 .. int (length cs) - 1] ms) \<and>
         pad_ok (sv_pads s' padId) cs d) ?t"
      proof (rule wp_mono [OF upd], elim conjE)
        fix s'
        assume s': "touches padId {?id} ?t s'" "caughtUp padId cs ?t s' ?c"
        from s'(2) obtain ms where ms: "sentTo (cn_socketId c) (sv_comet s') = sentTo (cn_socketId c) (sv_comet ?t) @ ms"
          "list_all2 (delivers (poolView (sv_pads s' padId)) cs (sockets (sv_pads ?t padId)) (cn_socketId c))
            [r + 1 .. int (length cs) - 1] ms"
          "obj_get (sv_allConnections s') ?id = Some (revised (int (length cs) - 1) ?c)"
          unfolding caughtUp_def using r by (auto simp: revisionsAfter_def)
        have so: "sockets (sv_pads ?t padId) = sockets (sv_pads s padId)"
          using t(1,3) w(2) by (simp add: greeted_def)
        have se: "sentTo (cn_socketId c) (sv_comet ?t) = sentTo (cn_socketId c) (sv_comet s) @ pre @ [CLIENT_MESSAGE (PadOptions opts)]"
          using t(1,4) by (simp add: greeted_def) (simp add: sentTo_def)
        have cm: "list_all isClientMessage (pre @ [CLIENT_MESSAGE (PadOptions opts)])" using t(1) by (simp add: greeted_def)
        have "sentTo (cn_socketId c) (sv_comet s') = sentTo (cn_socketId c) (sv_comet s) @
            (pre @ [CLIENT_MESSAGE (PadOptions opts)]) @ ms" using ms(1) se by simp
        moreover have "cn_socketId (revised (int (length cs) - 1) ?c) = cn_socketId c" by (simp add: revised_def)
        moreover have "pad_ok (sv_pads s' padId) cs d" using s'(1) ok by (simp add: touches_def reads_def)
        ultimately show "(\<exists>pre p ms c'. sentTo (cn_socketId c) (sv_comet s') = sentTo (cn_socketId c) (sv_comet s) @ pre @ ms \<and>
           list_all isClientMessage pre \<and> obj_get (sv_allConnections s') ?id = Some c' \<and> cn_socketId c' = cn_socketId c \<and>
           list_all2 (delivers p cs (sockets (sv_pads s padId)) (cn_socketId c)) [r + 1 .. int (length cs) - 1] ms) \<and>
         pad_ok (sv_pads s' padId) cs d"
          using cm ms(2,3) unfolding so by blast
      qed
    qed
    then show ?thesis
      unfolding wp_bind wp_env wp_onPad
      by (rule_tac wp_mono [OF getPadOptions_ok [of "sv_pads u padId" cs d]]) (use t(2,4) in auto)
  qed
  have access: "wp (thenA (accessExistingPad padId ''CLIENT_READY''
        (bindA (env en_guestsAllowed) (\<lambda>allowed.
         bindA (onPad padId (getPadOptionsObj allowed)) (\<lambda>opts.
         thenA (sendMessage ?id (CLIENT_MESSAGE (PadOptions opts))) (updateClient padId ?id)))) False)
      (whenA (rd_isCommitPending data) (sendMessage ?id NO_COMMIT_PENDING))) ?Q t"
    if t: "greeted s ?c pre t" for pre t
  proof -
    let ?R = "\<lambda>comet conns. \<exists>pre p ms c'. sentTo (cn_socketId c) comet = sentTo (cn_socketId c) (sv_comet s) @ pre @ ms \<and>
         list_all isClientMessage pre \<and> obj_get conns ?id = Some c' \<and> cn_socketId c' = cn_socketId c \<and>
         list_all2 (delivers p cs (sockets (sv_pads s padId)) (cn_socketId c)) [r + 1 .. int (length cs) - 1] ms"
    have p: "pad_at_rest (sv_pads t padId) cs d" "en_accessDenied (sv_env t) padId ReadWrite = None"
      "padId \<notin> set (sv_accessing t)" using t rest free by (simp_all add: greeted_def)
    have "wp (accessExistingPad padId ''CLIENT_READY''
        (bindA (env en_guestsAllowed) (\<lambda>allowed.
         bindA (onPad padId (getPadOptionsObj allowed)) (\<lambda>opts.
         thenA (sendMessage ?id (CLIENT_MESSAGE (PadOptions opts))) (updateClient padId ?id)))) False)
      (\<lambda>_ s'. ?R (sv_comet s') (sv_allConnections s') \<and> pad_ok (sv_pads s' padId) cs d) t"
      unfolding accessExistingPad_def
    proof (rule accessPad_ok [OF p, where R = ?R])
      fix v u
      assume v: "pad_ok v cs d" "sockets v = sockets (sv_pads t padId)"
        "u = t\<lparr>sv_pads := (sv_pads t)(padId := v), sv_accessing := padId # sv_accessing t\<rparr>"
      have "metaVar v \<noteq> None" using v(1) by (auto simp: pad_ok_def)
      moreover have "sv_pads u padId = v" using v(3) by simp
      moreover from this have "u\<lparr>sv_pads := (sv_pads u)(padId := v)\<rparr> = u" by (cases u) auto
      ultimately have ex: "wp (onPad padId pad_exists) Q u = Q True u" for Q
        by (simp add: wp_onPad pad_exists_def wps)
      show "wp (bindA (onPad padId pad_exists) (\<lambda>exists.
        if \<not> exists then whenA (\<not> False) (serverCall (Warn ''CLIENT_READY''))
        else bindA (env en_guestsAllowed) (\<lambda>allowed.
         bindA (onPad padId (getPadOptionsObj allowed)) (\<lambda>opts.
         thenA (sendMessage ?id (CLIENT_MESSAGE (PadOptions opts))) (updateClient padId ?id)))))
        (\<lambda>_ s2. ?R (sv_comet s2) (sv_allConnections s2) \<and> pad_ok (sv_pads s2 padId) cs d) u"
        unfolding wp_bind [of "onPad padId pad_exists"] ex using inside [OF t v] by simp
    qed
    then show ?thesis
      unfolding wp_then
    proof (rule wp_mono, elim conjE exE)
      fix s' :: serverState and pre p ms c'
      assume s': "sentTo (cn_socketId c) (sv_comet s') = sentTo (cn_socketId c) (sv_comet s) @ pre @ ms"
        "list_all isClientMessage pre" "obj_get (sv_allConnections s') ?id = Some c'" "cn_socketId c' = cn_socketId c"
        "list_all2 (delivers p cs (sockets (sv_pads s padId)) (cn_socketId c)) [r + 1 .. int (length cs) - 1] ms"
        "pad_ok (sv_pads s' padId) cs d"
      show "wp (whenA (rd_isCommitPending data) (sendMessage ?id NO_COMMIT_PENDING)) ?Q s'"
      proof (cases "rd_isCommitPending data")
        case True
        have "?Q () (s'\<lparr>sv_comet := sv_comet s' @ [CometSend (cn_socketId c') NO_COMMIT_PENDING], sv_calls := l\<rparr>)" for l
          using s' True by (intro conjI exI [of _ pre] exI [of _ p] exI [of _ ms]) (simp_all, simp add: sentTo_def)
        then show ?thesis unfolding wp_when if_P [OF True] by (rule send_steps [OF s'(3)])
      next
        case False
        then show ?thesis unfolding wp_when using s' by auto
      qed
    qed
  qed
  have pro: "wp (whenA (isProPadId padId)
        (bindA (env (\<lambda>e. (en_padTitle e padId, en_padPassword e padId))) (\<lambda>(title, password).
         thenA (sendMessage ?id (CLIENT_MESSAGE (PadTitle title)))
           (sendMessage ?id (CLIENT_MESSAGE (PadPassword password))))))
      (\<lambda>_ s'. \<exists>pre. greeted s ?c pre s') t" if t: "greeted s ?c [] t" for t
  proof -
    have g: "greeted s ?c l u \<Longrightarrow> wp (sendMessage ?id (CLIENT_MESSAGE x)) (\<lambda>_. greeted s ?c (l @ [CLIENT_MESSAGE x])) u" for l u x
      using greet_more [of s ?c l u x] by simp
    have "wp (thenA (sendMessage ?id (CLIENT_MESSAGE x)) (sendMessage ?id (CLIENT_MESSAGE y)))
        (\<lambda>_ s'. \<exists>pre. greeted s ?c pre s') t" for x y
      unfolding wp_then
      by (rule wp_mono [OF g [OF t]], rule wp_mono [OF g], assumption) blast
    with t show ?thesis by (auto simp: wps wp_env)
  qed
  have up: "wp (updateRoomConnectionData ?id ((cn_data c)\<lparr>cd_lastRev := rd_lastRev data\<rparr>)) (\<lambda>_. greeted s ?c []) (s\<lparr>sv_calls := l\<rparr>)" for l
    by (rule wp_mono [OF clientReady_updates]) (use c(1,4) in \<open>simp_all add: greeted_def\<close>)
  have calls: "s\<lparr>sv_calls := sv_calls s\<rparr> = s" by simp
  have "wp (thenA (updateRoomConnectionData ?id ((cn_data c)\<lparr>cd_lastRev := rd_lastRev data\<rparr>))
     (thenA (whenA (isProPadId padId)
        (bindA (env (\<lambda>e. (en_padTitle e padId, en_padPassword e padId))) (\<lambda>(title, password).
         thenA (sendMessage ?id (CLIENT_MESSAGE (PadTitle title)))
           (sendMessage ?id (CLIENT_MESSAGE (PadPassword password))))))
     (thenA (accessExistingPad padId ''CLIENT_READY''
        (bindA (env en_guestsAllowed) (\<lambda>allowed.
         bindA (onPad padId (getPadOptionsObj allowed)) (\<lambda>opts.
         thenA (sendMessage ?id (CLIENT_MESSAGE (PadOptions opts)))
           (updateClient padId ?id)))) False)
        (whenA (rd_isCommitPending data) (sendMessage ?id NO_COMMIT_PENDING))))) ?Q (s\<lparr>sv_calls := l\<rparr>)" for l
    unfolding wp_then [of "updateRoomConnectionData _ _"] wp_then [of "whenA (isProPadId _) _"]
    by (rule wp_mono [OF up], rule wp_mono [OF pro], assumption, elim exE, rule access)
  from this [of "sv_calls s"] this [of "sv_calls s @ [LogClientStats padId]"] show ?thesis
    unfolding padpage_clientReady_def c(2) roomToPadId_room Let_def
    by (simp add: wp_then [of "whenA (truthy _) _"] wp_when [of "truthy _"] serverCall_def wp_mod calls del: if_cancel)
qed

subsection \<open>What a client posts when its socket opens\<close>

lemma callPage_wp: "wo_throws (cl_world s) = (\<lambda>_. None) \<Longrightarrow> wp (callPage x) Q s = Q () (s\<lparr>cl_calls := cl_calls s @ [x]\<rparr>)"
  by (simp add: callPage_def wps world_def)

text \<open>\<open>sameEditor k k'\<close>: nothing that the commit depends on has changed.\<close>

definition sameEditor :: "docClient \<Rightarrow> docClient \<Rightarrow> bool" where
  "sameEditor k k' = (cl_editor k' = cl_editor k \<and> cl_rev k' = cl_rev k \<and> cl_state k' = cl_state k \<and>
     cl_socket k' = cl_socket k \<and> cl_channelState k' = cl_channelState k \<and>
     cl_lastCommitTime k' = cl_lastCommitTime k \<and> cl_world k' = cl_world k)"

lemma updateUserInfo_ok:
  assumes "sameEditor k t \<and> x \<in> set (cl_calls t)" and "cl_socket k = Some sid" and "wo_throws (cl_world k) = (\<lambda>_. None)"
  shows "wp (client_updateUserInfo ui) (\<lambda>_ t'. sameEditor k t' \<and> x \<in> set (cl_calls t')) t"
proof -
  have q: "cl_socket t = Some sid" "wo_throws (cl_world t) = (\<lambda>_. None)" using assms by (simp_all add: sameEditor_def)
  show ?thesis
    using assms(1) q
    by (auto simp: client_updateUserInfo_def tellAceActiveAuthorInfo_def tellAceAuthorInfo_def wps Let_def callPage_wp
        client_sendMessage_def onSocket_def sameEditor_def split: option.splits)
qed

lemma socketOpened_ok:
  assumes s: "cl_socket k = Some sid" and w: "wo_throws (cl_world k) = (\<lambda>_. None)"
  shows "wp (socketOpened sid) (\<lambda>_ k'. sameEditor (k\<lparr>cl_channelState := Connected\<rparr>) k' \<and>
    SocketPost sid (Posted (ClientReady (Some ''padpage'') (Some (''padpage/'' @ cl_globalPadId k))
      (Some (clientReadyData sid (wo_stats (cl_world k)) k)))) \<in> set (cl_calls k')) k"
proof -
  let ?p = "SocketPost sid (Posted (ClientReady (Some ''padpage'') (Some (''padpage/'' @ cl_globalPadId k))
      (Some (clientReadyData sid (wo_stats (cl_world k)) k))))"
  let ?c = "k\<lparr>cl_channelState := Connected\<rparr>"
  let ?I = "\<lambda>k'. sameEditor ?c k' \<and> ?p \<in> set (cl_calls k')"
  have sw: "cl_socket ?c = Some sid" "wo_throws (cl_world ?c) = (\<lambda>_. None)" using s w by simp_all
  have def: "wp (doDeferredActions None) (\<lambda>_. ?I) t" if t: "?I t" for t
  proof -
    have "wp (forA (\<lambda>(ui, _). client_updateUserInfo ui) (filter (\<lambda>(_, t). \<not> truthy None \<or> None = t) (cl_deferredActions t)))
        (\<lambda>_. ?I) t"
      by (rule wp_forA [where I = ?I]) (use t updateUserInfo_ok [OF _ sw] in \<open>simp_all split: prod.split\<close>)
    then show ?thesis
      unfolding doDeferredActions_def Let_def wp_bind wp_get wp_then wp_mod_fun
      by (rule wp_mono) (simp add: sameEditor_def)
  qed
  let ?k1 = "k\<lparr>cl_hiccupCount := 0\<rparr>"
  have rd: "clientReadyData sid st (k\<lparr>cl_hiccupCount := 0, cl_channelState := Connected, cl_calls := l\<rparr>) = clientReadyData sid st k" for st l
    by (simp add: clientReadyData_def)
  have ch: "wp (setChannelState Connected None) (\<lambda>_ t. \<exists>l. t = k\<lparr>cl_hiccupCount := 0, cl_channelState := Connected, cl_calls := l\<rparr>) ?k1"
  proof (cases "cl_channelState k = Connected")
    case True
    then have "k\<lparr>cl_hiccupCount := 0\<rparr> = k\<lparr>cl_hiccupCount := 0, cl_channelState := Connected, cl_calls := cl_calls k\<rparr>"
      by (cases k) simp
    then have "\<exists>l. k\<lparr>cl_hiccupCount := 0\<rparr> = k\<lparr>cl_hiccupCount := 0, cl_channelState := Connected, cl_calls := l\<rparr>" by blast
    with True show ?thesis by (simp add: setChannelState_def wps)
  next
    case False
    with w show ?thesis by (auto simp: setChannelState_def wps callPage_wp)
  qed
  show ?thesis
    unfolding socketOpened_def wrapRecordingErrors_def
  proof (rule wp_catch, unfold wp_then [of "modA _"] wp_mod wp_then [of "setChannelState _ _"], rule wp_mono [OF ch], elim exE)
    fix u t l
    assume t: "t = k\<lparr>cl_hiccupCount := 0, cl_channelState := Connected, cl_calls := l\<rparr>"
    have "?I (t\<lparr>cl_calls := cl_calls t @ [?p]\<rparr>)" by (simp add: t sameEditor_def)
    from def [OF this]
    show "wp (bindA (world wo_stats) (\<lambda>stats. bindA (getA (\<lambda>s. s)) (\<lambda>s.
        thenA (client_sendMessage (Posted (ClientReady (Some ''padpage'') (Some (''padpage/'' @ cl_globalPadId s))
            (Some (clientReadyData sid stats s))))) (doDeferredActions None)))) (\<lambda>_. ?I) t"
      using s w by (simp add: t wp_bind world_def wp_get wp_then client_sendMessage_def onSocket_def callPage_wp rd)
  qed
qed

subsection \<open>What the client makes of the answer\<close>

lemma wp_forA_append: "wp (forA f (xs @ ys)) Q = wp (forA f xs) (\<lambda>_. wp (forA f ys) Q)"
  by (induction xs) (simp_all add: wps wp_ret_fun)

lemma takes_clientMessages:
  assumes "list_all isClientMessage ms" and "cl_socket k \<noteq> None" and "wo_throws (cl_world k) = (\<lambda>_. None)"
    and "sameEditor k t"
  shows "wp (forA (\<lambda>m. socketMessage docEditor (Collab m)) ms) (\<lambda>_. sameEditor k) t"
proof (rule wp_forA [where I = "sameEditor k"])
  fix m t
  assume i: "m \<in> set ms" and t: "sameEditor k t"
  have "isClientMessage m" using assms(1) i by (simp add: list_all_iff)
  then obtain p where m: "m = CLIENT_MESSAGE p" by (cases m) simp_all
  have "cl_socket t \<noteq> None" "wo_throws (cl_world t) = (\<lambda>_. None)" using t assms(2,3) by (simp_all add: sameEditor_def)
  then show "wp (socketMessage docEditor (Collab m)) (\<lambda>_. sameEditor k) t"
    unfolding socketMessage_def wrapRecordingErrors_def m
    by (intro wp_catch) (use t in \<open>simp add: handleMessageFromServer_def wps callPage_wp sameEditor_def\<close>)
qed (rule assms(4))

lemma sameEditor_ok: "sameEditor k t \<Longrightarrow> client_ok t = client_ok k" "sameEditor k t \<Longrightarrow> atRevision cs t = atRevision cs k"
  by (simp_all add: sameEditor_def client_ok_def atRevision_def)

text \<open>Its changes stay submitted when it is told that no commit is pending, and it submits them again.\<close>

lemma wp_onEditor: "wp (onEditor f) Q s = wp f (\<lambda>x t. Q x (s\<lparr>cl_editor := t\<rparr>)) (cl_editor s)"
  by (simp add: wp_def onEditor_def split: prod.split)

lemma prepare_again:
  fixes s :: doc_tracker
  assumes c: "consistent s (dt_doc s)" and sub: "tr_submitted s \<noteq> None"
  shows "wp prepareUserChangeset (\<lambda>r t. dt_doc t = dt_doc s \<and> (\<exists>cs j. r = \<lparr>sm_changeset = Some cs, sm_apool = Some j\<rparr> \<and>
    truthy (Some cs) \<and> applies (fromJsonable j) cs (at_text (tr_base s)) (dt_doc s))) s"
proof -
  obtain r t where r: "prepareUserChangeset s = (Inr r, t)" "submits r (at_text (tr_base s)) (dt_doc s)"
    "sm_changeset r = None \<longrightarrow> tr_submitted t = None" using wp_returns [OF prepare_wp [OF c]] by (elim exE conjE) (rule that; assumption)
  have "dt_doc t = dt_doc s" "tr_submitted t \<noteq> None"
    using wp_result [OF prepare_all [OF c] r(1)] sub by auto
  moreover from this r(3) obtain cs where cs: "sm_changeset r = Some cs" by auto
  moreover from this r(2) obtain j where j: "sm_apool r = Some j" "applies (fromJsonable j) cs (at_text (tr_base s)) (dt_doc s)"
    by (auto simp: submits_def split: option.splits)
  moreover have "r = \<lparr>sm_changeset = Some cs, sm_apool = Some j\<rparr>" using cs j(1) by (cases r) simp
  ultimately show ?thesis using applies_truthy [OF j(2)] by (intro wpI [where m = prepareUserChangeset, OF r(1)]) blast
qed

lemma told_no_commit:
  assumes ok: "client_ok s" and st: "cl_state s = Committing" "cl_socket s = Some sid" "cl_channelState s = Connected"
    and w: "wo_throws (cl_world s) = (\<lambda>_. None)" "cl_lastCommitTime s + 500 \<le> wo_now (cl_world s)"
  shows "wp (socketMessage docEditor (Collab NO_COMMIT_PENDING)) (\<lambda>_ s'. dt_doc (cl_editor s') = dt_doc (cl_editor s) \<and>
    (\<exists>c j. SocketPost sid (Posted (RoomMessage (UserChanges (cl_rev s) (Some c) j))) \<in> set (drop (length (cl_calls s)) (cl_calls s')) \<and>
       applies (fromJsonable j) c (at_text (tr_base (cl_editor s))) (dt_doc (cl_editor s)))) s"
    (is "wp _ ?Q s")
proof -
  have c: "consistent (cl_editor s) (dt_doc (cl_editor s))" "tr_submitted (cl_editor s) \<noteq> None"
    using ok st(1) by (simp_all add: client_ok_def)
  let ?s = "s\<lparr>cl_state := Idle, cl_calls := cl_calls s @ [InternalAction ''newlyIdle''], cl_timers := cl_timers s @ [(TimerIdleFuncs, 0)]\<rparr>"
  have pa: "wp prepareUserChangeset (\<lambda>r t. dt_doc t = dt_doc (cl_editor s) \<and> (\<exists>cs j. r = \<lparr>sm_changeset = Some cs, sm_apool = Some j\<rparr> \<and>
      truthy (Some cs) \<and> applies (fromJsonable j) cs (at_text (tr_base (cl_editor s))) (dt_doc (cl_editor s)))) (cl_editor ?s)"
    using prepare_again [OF c] by simp
  have "wp commitUserChanges ?Q ?s"
    unfolding commitUserChanges_def world_def wp_bind wp_get wp_onEditor
  proof (rule wp_mono [OF pa], elim conjE exE)
    fix r cs j and t :: doc_tracker
    assume t: "dt_doc t = dt_doc (cl_editor s)" "r = \<lparr>sm_changeset = Some cs, sm_apool = Some j\<rparr>" "truthy (Some cs)"
      "applies (fromJsonable j) cs (at_text (tr_base (cl_editor s))) (dt_doc (cl_editor s))"
    show "wp (whenA (truthy (sm_changeset r))
       (let cs = the (sm_changeset r); apool = the (sm_apool r) in
        thenA (modA (\<lambda>u. u\<lparr>cl_lastCommitTime := wo_now (cl_world ?s), cl_state := Committing,
                 cl_stateMessage := Some (cs, apool), cl_stateMessageSocketId := cl_socketId u\<rparr>))
       (bindA (getA cl_rev) (\<lambda>k.
        thenA (client_sendMessage (Posted (RoomMessage (UserChanges k (Some cs) apool))))
       (thenA (callPage (InternalAction ''commitPerformed''))
          (setTimeout TimerUserChanges 3000)))))) ?Q (?s\<lparr>cl_editor := t\<rparr>)"
      using t st w
      by (simp add: wps Let_def client_sendMessage_def onSocket_def callPage_wp setTimeout_def)
  qed
  then show ?thesis
    unfolding socketMessage_def wrapRecordingErrors_def
    by (intro wp_catch) (use st w in \<open>simp add: handleMessageFromServer_def setStateIdle_def wps callPage_wp
        schedulePerhapsCallIdleFuncs_def setTimeout_def client_handleUserChanges_def world_def\<close>)
qed

lemma newChanges_frame:
  "preserves (\<lambda>t. cl_channelState t = a \<and> cl_lastCommitTime t = b \<and> cl_world t = w)
    (socketMessage docEditor (Collab (NEW_CHANGES n c p author)))"
proof -
  let ?I = "\<lambda>t. cl_channelState t = a \<and> cl_lastCommitTime t = b \<and> cl_world t = w"
  have ed: "preserves ?I (onEditor f)" for f by (auto simp: preserves_def onEditor_def split: prod.split)
  have page: "preserves ?I (callPage x)" for x
    unfolding callPage_def world_def by (intro pres preserves_option) simp_all
  show ?thesis
    unfolding socketMessage_def wrapRecordingErrors_def handleMessageFromServer_def nextRevision_def onSocket_def
      world_def dmesg_def prod.case fromServer.case message.case
    by (intro pres ed page preserves_option) (auto simp: split_beta intro!: pres ed page preserves_option)
qed

text \<open>A client that takes in messages of the page and then a revision of another socket is one revision further.\<close>

lemma takes_revision_after:
  assumes ok: "client_ok k" "atRevision cs k" and k: "cl_socket k = Some sid" "wo_throws (cl_world k) = (\<lambda>_. None)" "sameEditor k k1"
    and pre: "list_all isClientMessage pre" and new: "m = NEW_CHANGES r cset w author"
    and m: "delivers p cs socks sid (cl_rev k + 1) m" "obj_get socks (cl_rev k + 1) \<noteq> Some sid"
  shows "wp (forA (\<lambda>m. socketMessage docEditor (Collab m)) (pre @ [m])) (\<lambda>_ k'. (client_ok k' \<and> cl_socket k' = Some sid \<and>
      atRevision cs k' \<and> cl_rev k' = cl_rev k + 1 \<and> cl_state k' = cl_state k) \<and>
      cl_channelState k' = cl_channelState k \<and> cl_lastCommitTime k' = cl_lastCommitTime k \<and> cl_world k' = cl_world k) k1"
    (is "wp _ (\<lambda>_ k'. ?P k' \<and> ?now k') k1")
  unfolding wp_forA_append
proof (rule wp_mono [OF takes_clientMessages [OF pre _ k(2,3)]])
  show "cl_socket k \<noteq> None" using k(1) by simp
next
  fix u t
  assume t: "sameEditor k t"
  have t': "client_ok t" "cl_socket t = Some sid" "atRevision cs t" "cl_rev t = cl_rev k" "cl_state t = cl_state k" "?now t"
    using t k ok sameEditor_ok [OF t] by (simp_all add: sameEditor_def atRevision_def)
  have "delivers p cs socks sid (cl_rev t + 1) m" "obj_get socks (cl_rev t + 1) \<noteq> Some sid" using m t'(4) by simp_all
  from wp_both [OF receive_wp [OF t'(1) _ t'(3) this], of ?now]
  have "wp (socketMessage docEditor (Collab m)) (\<lambda>_ k'. ?P k' \<and> ?now k') t"
  proof (rule wp_mono)
    show "cl_socket t \<noteq> None" using t'(2) by simp
  next
    show "snd (socketMessage docEditor (Collab m) t) = k' \<Longrightarrow> ?now k'" for k'
      using newChanges_frame t'(6) unfolding new preserves_def by blast
  qed (use t' in simp)
  then show "wp (forA (\<lambda>m. socketMessage docEditor (Collab m)) [m]) (\<lambda>_ k'. ?P k' \<and> ?now k') t"
    by (simp add: wps wp_ret_fun)
qed

text \<open>Told that no commit is pending, a client that is committing submits its document again.\<close>

lemma submits_again:
  assumes ok: "client_ok k" and st: "cl_state k = Committing" "cl_socket k = Some sid" "cl_channelState k = Connected"
    and w: "wo_throws (cl_world k) = (\<lambda>_. None)" "cl_lastCommitTime k + 500 \<le> wo_now (cl_world k)"
    and base: "at_text (tr_base (cl_editor k)) = d"
  obtains k' c j x e where "socketMessage docEditor (Collab NO_COMMIT_PENDING) k = (Inr (), k')"
    "SocketPost sid (Posted (RoomMessage (UserChanges (cl_rev k) (Some c) j))) \<in> set (drop (length (cl_calls k)) (cl_calls k'))"
    "applyToText c d = Inr (dt_doc (cl_editor k'))" "tr_submitted (cl_editor k) = Some x" "applyToText x d = Inr e"
    "applyToText (tr_user (cl_editor k)) e = Inr (dt_doc (cl_editor k))"
proof -
  from wp_returns [OF told_no_commit [OF ok st w]] obtain k' c j where
    k': "socketMessage docEditor (Collab NO_COMMIT_PENDING) k = (Inr (), k')" "dt_doc (cl_editor k') = dt_doc (cl_editor k)"
      "SocketPost sid (Posted (RoomMessage (UserChanges (cl_rev k) (Some c) j))) \<in> set (drop (length (cl_calls k)) (cl_calls k'))"
      "applies (fromJsonable j) c d (dt_doc (cl_editor k))" using base by auto
  obtain e where e: "pending (cl_editor k) e" "applies (tr_apool (cl_editor k)) (tr_user (cl_editor k)) e (dt_doc (cl_editor k))"
    using ok by (auto simp: client_ok_def consistent_def)
  obtain x where x: "tr_submitted (cl_editor k) = Some x" using ok st(1) by (auto simp: client_ok_def)
  have xe: "applyToText x d = Inr e" using e(1) x base applies_text by (auto simp: pending_def)
  have "applyToText c d = Inr (dt_doc (cl_editor k'))" using applies_text [OF k'(4)] k'(2) by simp
  from that [OF k'(1,3) this x xe applies_text [OF e(2)]] show thesis .
qed

end
