(* ===== verification/ClientServer.thy ===== *)
theory ClientServer
  imports Reconnecting
begin

text \<open>
  Client and server together: what the server sends brings a client to the head of the pad, and what goes
  wrong when a client connects again while a commit is pending.
\<close>

subsection \<open>Catching up\<close>

text \<open>
  C4. A client follows the pad: when a pad has changed and no read-only room is open, what \<open>updatePadClients\<close> sends to the socket of a
  client, whose revision the server knows and who has no revision of his own among the new ones, is taken in
  message by message; the client then is at the head revision, its base text is the text of the pad, its
  commit is as pending as before, and the document in the editor still is the base text with the client's
  changes on it.
\<close>

theorem client_catches_up:
  assumes "pad_ok (sv_pads s padId) cs d" and "rooms_ok (skeleton s)"
    and "\<forall>c \<in> set (roomMembers s (padIdToRoom padId)). \<forall>r. cd_lastRev (cn_data c) = Some r \<longrightarrow> - 1 \<le> r"
    and "obj_get (sv_rooms s) (viewIdToRoom padId) = None"
      "obj_get (sv_rooms s) (viewIdToRoom (padIdToReadonly (en_nextInt (sv_env s)) padId)) = None"
    and conn: "c \<in> set (roomMembers s (padIdToRoom padId))"
    and client: "clientRun k" "cl_socket k = Some (cn_socketId c)" "cd_lastRev (cn_data c) = Some (cl_rev k)"
      "atRevision cs k" "cl_rev k < int (length cs)"
    and others: "\<forall>r. cl_rev k < r \<longrightarrow> obj_get (sockets (sv_pads s padId)) r \<noteq> Some (cn_socketId c)"
  shows "\<exists>s' ms k'. updatePadClients padId s = (Inr (), s') \<and>
    sentTo (cn_socketId c) (sv_comet s') = sentTo (cn_socketId c) (sv_comet s) @ ms \<and>
    forA (\<lambda>m. socketMessage docEditor (Collab m)) ms k = (Inr (), k') \<and>
    cl_rev k' = int (length cs) - 1 \<and> at_text (tr_base (cl_editor k')) = d \<and> cl_state k' = cl_state k \<and>
    (\<exists>m. (case tr_submitted (cl_editor k') of None \<Rightarrow> m = d | Some x \<Rightarrow> applyToText x d = Inr m) \<and>
       applyToText (tr_user (cl_editor k')) m = Inr (dt_doc (cl_editor k')))"
proof -
  obtain s' where s': "updatePadClients padId s = (Inr (), s')" "pad_ok (sv_pads s' padId) cs d" "caughtUp padId cs s s' c"
    using wp_returns [OF updatePadClients_ok [OF assms(1-5)]] conn by auto
  then obtain ms where ms: "sentTo (cn_socketId c) (sv_comet s') = sentTo (cn_socketId c) (sv_comet s) @ ms"
    "list_all2 (delivers (poolView (sv_pads s' padId)) cs (sockets (sv_pads s padId)) (cn_socketId c))
      [cl_rev k + 1 .. int (length cs) - 1] ms"
    using client(3) by (auto simp: caughtUp_def revisionsAfter_def)
  have "wp (forA (\<lambda>m. socketMessage docEditor (Collab m)) ms) (\<lambda>_ k'. client_ok k' \<and> atRevision cs k' \<and>
      cl_rev k' = int (length cs) - 1 \<and> cl_state k' = cl_state k \<and> cl_calls k' = cl_calls k \<and>
      (tr_submitted (cl_editor k') = None) = (tr_submitted (cl_editor k) = None)) k"
    by (rule receiveAll_wp [OF clientRun_ok [OF client(1)] _ client(4) ms(2)]) (use client(2,5) others in auto)
  from wp_returns [OF this] obtain k' where k': "forA (\<lambda>m. socketMessage docEditor (Collab m)) ms k = (Inr (), k')" "client_ok k'"
    "atRevision cs k'" "cl_rev k' = int (length cs) - 1" "cl_state k' = cl_state k" by auto
  have "replay cs [nl] = Inr d" using path_replay [OF pad_ok_path [OF s'(2)]] .
  then have base: "at_text (tr_base (cl_editor k')) = d" using k'(3,4) by (simp add: atRevision_def)
  obtain m where "pending (cl_editor k') m" "applies (tr_apool (cl_editor k')) (tr_user (cl_editor k')) m (dt_doc (cl_editor k'))"
    using k'(2) by (auto simp: client_ok_def consistent_def)
  then have "(case tr_submitted (cl_editor k') of None \<Rightarrow> m = d | Some x \<Rightarrow> applyToText x d = Inr m) \<and>
      applyToText (tr_user (cl_editor k')) m = Inr (dt_doc (cl_editor k'))"
    using applies_text base by (auto simp: pending_def split: option.splits)
  with s'(1) ms(1) k'(1,4,5) base show ?thesis by blast
qed

subsection \<open>Connecting again\<close>

text \<open>
  C8. A commit is applied twice when its acknowledgement is lost. Suppose the head revision of the pad is the
  commit of a client that lost its socket before the \<open>ACCEPT_COMMIT\<close>: the revision is the one after the
  client's, came from the socket over which the client committed, and its text is what the submitted changes
  make of the client's base text. The client connects again; its \<open>CLIENT_READY\<close> names that socket as
  \<open>isReconnectOf\<close>. The server (access allowed, the pad not in use by the request already) answers with the
  messages of the page, the client's own commit as \<open>NEW_CHANGES\<close>, and \<open>NO_COMMIT_PENDING\<close>: it compares the
  revision's socket with the new one only. The client takes the first messages in and is at the head revision with
  the same changes still submitted, now on top of a text that contains them; told that no commit is pending (half a
  second or more after its last commit, by a page that throws nothing) it commits them once more.
\<close>

theorem reconnect_resends:
  assumes pad: "pad_at_rest (sv_pads s padId) cs d"
    and access: "en_accessDenied (sv_env s) padId ReadWrite = None" "padId \<notin> set (sv_accessing s)"
    and conn: "rooms_ok (skeleton s)" "c \<in> set (roomMembers s (padIdToRoom padId))"
    and client: "clientRun k0" "cl_socket k0 = Some (cn_socketId c)" "cl_globalPadId k0 = padId"
      "obj_get (cl_reconnectOf k0) (cn_socketId c) = Some (Some oldSid)" "oldSid \<noteq> ''''" "oldSid \<noteq> cn_socketId c"
      "wo_throws (cl_world k0) = (\<lambda>_. None)" "cl_lastCommitTime k0 + 500 \<le> wo_now (cl_world k0)"
    and commit: "cl_state k0 = Committing" "cl_stateMessageSocketId k0 = Some oldSid"
      "tr_submitted (cl_editor k0) = Some x" "applyToText x (at_text (tr_base (cl_editor k0))) = Inr d"
    and head: "atRevision cs k0" "cl_rev k0 + 2 = int (length cs)"
      "obj_get (sockets (sv_pads s padId)) (cl_rev k0 + 1) = cl_stateMessageSocketId k0"
  shows "\<exists>k data s' pre cset w author k' x' e k'' c2 j2.
    socketOpened (cn_socketId c) k0 = (Inr (), k) \<and>
    SocketPost (cn_socketId c) (Posted (ClientReady (Some ''padpage'') (Some (cn_roomName c)) (Some data))) \<in> set (cl_calls k) \<and>
    rd_isReconnectOf data = cl_stateMessageSocketId k0 \<and> rd_isCommitPending data \<and>
    padpage_clientReady c data s = (Inr (), s') \<and> pad_ok (sv_pads s' padId) cs d \<and>
    sentTo (cn_socketId c) (sv_comet s') = sentTo (cn_socketId c) (sv_comet s) @
      pre @ [NEW_CHANGES (cl_rev k0 + 1) cset w author, NO_COMMIT_PENDING] \<and> list_all isClientMessage pre \<and>
    forA (\<lambda>m. socketMessage docEditor (Collab m)) (pre @ [NEW_CHANGES (cl_rev k0 + 1) cset w author]) k = (Inr (), k') \<and>
    cl_rev k' = cl_rev k0 + 1 \<and> at_text (tr_base (cl_editor k')) = d \<and> cl_state k' = Committing \<and>
    tr_submitted (cl_editor k') = Some x' \<and> applyToText x' d = Inr e \<and>
    applyToText (tr_user (cl_editor k')) e = Inr (dt_doc (cl_editor k')) \<and>
    socketMessage docEditor (Collab NO_COMMIT_PENDING) k' = (Inr (), k'') \<and>
    SocketPost (cn_socketId c) (Posted (RoomMessage (UserChanges (cl_rev k0 + 1) (Some c2) j2))) \<in>
      set (drop (length (cl_calls k')) (cl_calls k'')) \<and>
    applyToText c2 d = Inr (dt_doc (cl_editor k''))"
proof -
  let ?sid = "cn_socketId c" and ?k = "k0\<lparr>cl_channelState := Connected\<rparr>"
  obtain k where k: "socketOpened ?sid k0 = (Inr (), k)" "sameEditor ?k k"
    "SocketPost ?sid (Posted (ClientReady (Some ''padpage'') (Some (''padpage/'' @ cl_globalPadId k0))
      (Some (clientReadyData ?sid (wo_stats (cl_world k0)) k0)))) \<in> set (cl_calls k)"
    using wp_returns [OF socketOpened_ok [OF client(2,7)]] by auto
  let ?data = "clientReadyData ?sid (wo_stats (cl_world k0)) k0"
  have data: "rd_isReconnectOf ?data = Some oldSid" "rd_isCommitPending ?data" "rd_lastRev ?data = Some (cl_rev k0)"
    using client(4,5) commit(1) by (simp_all add: clientReadyData_def Let_def truthy_def)
  note c1 = member_facts [OF conn]
  have room: "''padpage/'' @ cl_globalPadId k0 = cn_roomName c" using c1(2) client(3) by (simp add: padIdToRoom_def)
  have r: "- 1 \<le> cl_rev k0" using head(1) by (simp add: atRevision_def)
  from wp_returns [OF padpage_clientReady_ok [OF pad access c1 data(3) r]]
  obtain s' pre p ms where s': "padpage_clientReady c ?data s = (Inr (), s')" "pad_ok (sv_pads s' padId) cs d"
    "sentTo ?sid (sv_comet s') = sentTo ?sid (sv_comet s) @ pre @ ms @ [NO_COMMIT_PENDING]" "list_all isClientMessage pre"
    "list_all2 (delivers p cs (sockets (sv_pads s padId)) ?sid) [cl_rev k0 + 1 .. int (length cs) - 1] ms"
    using data(2) by auto
  have "int (length cs) - 1 = cl_rev k0 + 1" using head(2) by simp
  then have up: "[cl_rev k0 + 1 .. int (length cs) - 1] = [cl_rev k0 + 1]" by (simp only: upto_single)
  from s'(5) obtain m where m: "ms = [m]" "delivers p cs (sockets (sv_pads s padId)) ?sid (cl_rev k0 + 1) m"
    unfolding up by (auto simp: list_all2_Cons1)
  have other: "obj_get (sockets (sv_pads s padId)) (cl_rev k0 + 1) \<noteq> Some ?sid" using head(3) commit(2) client(6) by simp
  obtain cset w author where new: "m = NEW_CHANGES (cl_rev k0 + 1) cset w author"
    using m(2) other by (auto simp: delivers_def)
  have ck: "client_ok ?k" "atRevision cs ?k" "cl_socket ?k = Some ?sid" "wo_throws (cl_world ?k) = (\<lambda>_. None)"
    using clientRun_ok [OF client(1)] client(2,7) head(1) by (simp_all add: atRevision_def)
  from wp_returns [OF takes_revision_after [OF ck k(2) s'(4) new]] m(2) other
  obtain k' where k': "forA (\<lambda>m. socketMessage docEditor (Collab m)) (pre @ [m]) k = (Inr (), k')" "client_ok k'"
    "atRevision cs k'" "cl_rev k' = cl_rev k0 + 1" "cl_state k' = Committing" "cl_socket k' = Some ?sid"
    "cl_channelState k' = Connected" "cl_lastCommitTime k' = cl_lastCommitTime k0" "cl_world k' = cl_world k0"
    using commit(1) by fastforce
  have "replay cs [nl] = Inr d" using path_replay [OF pad_ok_path [OF s'(2)]] .
  moreover have "nat (cl_rev k' + 1) = length cs" using k'(4) head(2) r by simp
  ultimately have base: "at_text (tr_base (cl_editor k')) = d" using k'(3) by (simp add: atRevision_def)
  have "wo_throws (cl_world k') = (\<lambda>_. None)" "cl_lastCommitTime k' + 500 \<le> wo_now (cl_world k')"
    using k'(8,9) client(7,8) by simp_all
  from submits_again [OF k'(2,5,6,7) this base] obtain k'' c2 j2 x' e where
    k2: "socketMessage docEditor (Collab NO_COMMIT_PENDING) k' = (Inr (), k'')"
      "SocketPost ?sid (Posted (RoomMessage (UserChanges (cl_rev k') (Some c2) j2))) \<in> set (drop (length (cl_calls k')) (cl_calls k''))"
    and t: "applyToText c2 d = Inr (dt_doc (cl_editor k''))" "tr_submitted (cl_editor k') = Some x'" "applyToText x' d = Inr e"
      "applyToText (tr_user (cl_editor k')) e = Inr (dt_doc (cl_editor k'))" .
  have sent: "sentTo ?sid (sv_comet s') = sentTo ?sid (sv_comet s) @ pre @ [NEW_CHANGES (cl_rev k0 + 1) cset w author, NO_COMMIT_PENDING]"
    using s'(3) m(1) new by simp
  show ?thesis
    by (rule exI [of _ k], rule exI [of _ ?data], rule exI [of _ s'], rule exI [of _ pre], rule exI [of _ cset],
        rule exI [of _ w], rule exI [of _ author], rule exI [of _ k'], rule exI [of _ x'], rule exI [of _ e],
        rule exI [of _ k''], rule exI [of _ c2], rule exI [of _ j2])
      (use k(1) k(3) [unfolded room] data(1,2) commit(2) s'(1,2,4) sent k'(1) [unfolded new] k'(4,5) base t k2(1)
        k2(2) [unfolded k'(4)] in simp)
qed

subsection \<open>A sample client\<close>

definition sampleWorld :: clientWorld where
  "sampleWorld = \<lparr>wo_now = 1000, wo_random = ''7'', wo_windowLoaded = True, wo_stats = '''', wo_throws = (\<lambda>_. None)\<rparr>"

definition sampleVars :: collabClientVars where
  "sampleVars = \<lparr>cv_initialAttributedText = \<lparr>at_text = ''ab'' @ [nl], at_attribs = ''|1+3''\<rparr>, cv_rev = 0, cv_padId = ''p'',
     cv_globalPadId = ''p'', cv_historicalAuthorData = [], cv_apool = toJsonable AttribPool\<rparr>"

text \<open>Its user has typed an \<open>x\<close>, which is not committed yet.\<close>

definition typing :: docClient where
  "typing = (initialClient sampleClient sampleVars (guest ''g.1'') [] sampleWorld)
     \<lparr>cl_socket := Some ''s1'', cl_socketId := Some ''s1'', cl_channelState := Connected\<rparr>"

definition committing :: docClient where
  "committing = snd (clientDo (TimerFires TimerUserChanges) (typing\<lparr>cl_world := sampleWorld\<rparr>))"

lemma typing_run: "clientRun typing"
  by (rule clientRun.start) (simp_all add: typing_def initialClient_def sample_client(1))

lemma committing_run: "clientRun committing"
  unfolding committing_def
  by (rule clientRun.step [OF typing_run, where e = "TimerFires TimerUserChanges"])
    (simp add: legitimate_def, rule surjective_pairing)

lemma committing_facts:
  "cl_state committing = Committing" "cl_socket committing = Some ''s1''" "cl_rev committing = 0"
  "at_text (tr_base (cl_editor committing)) = ''ab'' @ [nl]"
  "drop (length (cl_calls typing)) (cl_calls committing) =
     [SocketPost ''s1'' (Posted (RoomMessage (UserChanges 0 (Some ''Z:3>1=1+1$x'') (toJsonable AttribPool)))),
      InternalAction ''commitPerformed'']"
  by (code_simp, code_simp, code_simp, code_simp, code_simp)

theorem client_commits_document_witness:
  "applyToText ''Z:3>1=1+1$x'' (at_text (tr_base (cl_editor committing))) = Inr (dt_doc (cl_editor committing))"
proof -
  have s: "clientDo (TimerFires TimerUserChanges) (typing\<lparr>cl_world := sampleWorld\<rparr>) =
      (fst (clientDo (TimerFires TimerUserChanges) (typing\<lparr>cl_world := sampleWorld\<rparr>)), committing)"
    by (simp add: committing_def)
  have l: "legitimate typing (TimerFires TimerUserChanges)" by (simp add: legitimate_def)
  have "SocketPost ''s1'' (Posted (RoomMessage (UserChanges 0 (Some ''Z:3>1=1+1$x'') (toJsonable AttribPool)))) \<in>
      set (drop (length (cl_calls typing)) (cl_calls committing))" by (simp add: committing_facts(5))
  from client_commits_document [OF typing_run l s this] show ?thesis by simp
qed

lemma history_replay: "replay (take (nat (0 + 1)) [''Z:1>2+2$ab'', ''Z:3>1=1+1$x'']) [nl] = Inr (''ab'' @ [nl])"
  by code_simp

lemma committing_at: "atRevision [''Z:1>2+2$ab'', ''Z:3>1=1+1$x''] committing"
  using history_replay by (simp add: atRevision_def committing_facts)

text \<open>
  The server of \<open>lateEditor\<close>, where the second revision of the pad came from the socket \<open>sid\<close>.
\<close>

definition lateServer :: "string \<Rightarrow> serverState" where
  "lateServer sid = lateEditor\<lparr>sv_pads := (sv_pads lateEditor)(''p'' := (sv_pads lateEditor ''p'')
     \<lparr>pd_temp := Some ((tempView (sv_pads lateEditor ''p''))\<lparr>tm_revisionSockets := Some [(1, sid)]\<rparr>)\<rparr>)\<rparr>"

lemma lateServer_pad: "pad_ok (sv_pads (lateServer sid) ''p'') [''Z:1>2+2$ab'', ''Z:3>1=1+1$x''] (''axb'' @ [nl])"
  using lateEditor_pad by (simp add: lateServer_def pad_ok_def views)

lemma lateServer_sockets: "sockets (sv_pads (lateServer sid) ''p'') = [(1, sid)]"
  by (simp add: lateServer_def sockets_def views)

lemma lateServer_rooms: "rooms_ok (skeleton (lateServer sid))"
  using lateEditor_rooms by (simp add: lateServer_def)

lemma lateServer_room:
  obtains c where "roomMembers (lateServer sid) (padIdToRoom ''p'') = [c]" "cn_socketId c = ''s1''"
    "cd_lastRev (cn_data c) = Some 0"
proof -
  have rm: "roomMembers (lateServer sid) n = roomMembers oneEditor n" for n
    by (simp add: lateServer_def lateEditor_def roomMembers_def cong: option.case_cong)
  show ?thesis using lateEditor_room(1) that unfolding rm by auto
qed

lemma lateServer_views:
  "obj_get (sv_rooms (lateServer sid)) (viewIdToRoom ''p'') = None"
  "obj_get (sv_rooms (lateServer sid)) (viewIdToRoom (padIdToReadonly (en_nextInt (sv_env (lateServer sid))) ''p'')) = None"
proof -
  have none: "obj_get (map (\<lambda>(n, r). (n, ())) ob) k = None \<Longrightarrow> obj_get ob k = None" for ob :: "(string, room) obj" and k
    by (induction ob) (auto simp: obj_get_def)
  have "sv_rooms (lateServer sid) = sv_rooms oneEditor" "sv_env (lateServer sid) = sv_env oneEditor"
    by (simp_all add: lateServer_def lateEditor_def)
  then show "obj_get (sv_rooms (lateServer sid)) (viewIdToRoom ''p'') = None"
    "obj_get (sv_rooms (lateServer sid)) (viewIdToRoom (padIdToReadonly (en_nextInt (sv_env (lateServer sid))) ''p'')) = None"
    using none [OF lateEditor_room(2)] none [OF lateEditor_room(3)] by simp_all
qed

text \<open>
  A client that has committed its \<open>x\<close> over the socket \<open>s0\<close>, has lost that socket, and has set up \<open>s1\<close>; and
  the server with the \<open>x\<close> as the revision of \<open>s0\<close>, and a connection over \<open>s1\<close>.
\<close>

definition lost :: docClient where
  "lost = snd (clientDo (TimerFires TimerUserChanges)
     ((typing\<lparr>cl_socket := Some ''s0'', cl_socketId := Some ''s0''\<rparr>)\<lparr>cl_world := sampleWorld\<rparr>))"

definition reconnecting :: docClient where
  "reconnecting = snd (clientDo (SocketCloses ''s0'' None True)
     (lost\<lparr>cl_world := sampleWorld\<lparr>wo_now := 9000, wo_random := ''s1''\<rparr>\<rparr>))"

lemma reconnecting_run: "clientRun reconnecting"
proof -
  let ?t = "typing\<lparr>cl_socket := Some ''s0'', cl_socketId := Some ''s0''\<rparr>"
  have "clientRun ?t" by (rule clientRun.start) (simp_all add: typing_def initialClient_def sample_client(1))
  then have "clientRun lost"
    unfolding lost_def
    by (rule clientRun.step [where e = "TimerFires TimerUserChanges"]) (simp add: legitimate_def, rule surjective_pairing)
  then show ?thesis
    unfolding reconnecting_def
    by (rule clientRun.step [where e = "SocketCloses ''s0'' None True"]) (simp add: legitimate_def, rule surjective_pairing)
qed

lemma reconnecting_facts:
  "cl_socket reconnecting = Some ''s1''" "cl_globalPadId reconnecting = ''p''"
  "obj_get (cl_reconnectOf reconnecting) ''s1'' = Some (Some ''s0'')" "cl_state reconnecting = Committing"
  "cl_stateMessageSocketId reconnecting = Some ''s0''" "tr_submitted (cl_editor reconnecting) = Some ''Z:3>1=1+1$x''"
  "at_text (tr_base (cl_editor reconnecting)) = ''ab'' @ [nl]" "cl_rev reconnecting = 0"
  "cl_lastCommitTime reconnecting = 1000" "wo_now (cl_world reconnecting) = 9000"
  by (code_simp, code_simp, code_simp, code_simp, code_simp, code_simp, code_simp, code_simp, code_simp, code_simp)

lemma reconnecting_world: "wo_throws (cl_world reconnecting) = (\<lambda>_. None)"
proof
  show "wo_throws (cl_world reconnecting) x = None" for x by code_simp
qed

lemma oneEditor_access: "en_accessDenied (sv_env oneEditor) ''p'' ReadWrite = None"
  by code_simp

definition restServer :: "string \<Rightarrow> serverState" where
  "restServer sid = oneEditor\<lparr>sv_pads := (sv_pads oneEditor)(''p'' := samplePad
     \<lparr>pd_temp := Some ((tempView samplePad)\<lparr>tm_revisionSockets := Some [(1, sid)]\<rparr>)\<rparr>)\<rparr>"

lemma restServer_pad:
  "pad_at_rest (sv_pads (restServer sid) ''p'') [''Z:1>2+2$ab'', ''Z:3>1=1+1$x''] (''axb'' @ [nl])"
  "sockets (sv_pads (restServer sid) ''p'') = [(1, sid)]"
  using padHistory_rest [OF sample_pad]
  by (simp_all add: restServer_def pad_at_rest_def sockets_def views cong: option.case_cong)

lemma restServer_rooms: "rooms_ok (skeleton (restServer sid))"
  unfolding restServer_def by (rule serverRun_ok [OF serverRun.pads [OF oneEditor_run]])

theorem reconnect_resends_witness:
  "\<exists>k data s' c ms k' k'' cs j. socketOpened ''s1'' reconnecting = (Inr (), k) \<and> rd_isReconnectOf data = Some ''s0'' \<and>
    padpage_clientReady c data (restServer ''s0'') = (Inr (), s') \<and>
    sentTo ''s1'' (sv_comet s') = sentTo ''s1'' (sv_comet (restServer ''s0'')) @ ms @ [NO_COMMIT_PENDING] \<and>
    forA (\<lambda>m. socketMessage docEditor (Collab m)) ms k = (Inr (), k') \<and> at_text (tr_base (cl_editor k')) = ''axb'' @ [nl] \<and>
    socketMessage docEditor (Collab NO_COMMIT_PENDING) k' = (Inr (), k'') \<and>
    SocketPost ''s1'' (Posted (RoomMessage (UserChanges 1 (Some cs) j))) \<in> set (cl_calls k'') \<and>
    applyToText cs (''axb'' @ [nl]) = Inr (dt_doc (cl_editor k''))"
proof -
  have rm: "roomMembers (restServer ''s0'') n = roomMembers oneEditor n" for n
    by (simp add: restServer_def roomMembers_def cong: option.case_cong)
  obtain c where c: "roomMembers (restServer ''s0'') (padIdToRoom ''p'') = [c]" "cn_socketId c = ''s1''"
    using lateEditor_room(1) unfolding rm by auto
  have m: "c \<in> set (roomMembers (restServer ''s0'') (padIdToRoom ''p''))" using c(1) by simp
  have a: "en_accessDenied (sv_env (restServer ''s0'')) ''p'' ReadWrite = None" "''p'' \<notin> set (sv_accessing (restServer ''s0''))"
    using oneEditor_members(3) by (simp_all add: restServer_def oneEditor_access)
  have x: "applyToText ''Z:3>1=1+1$x'' (at_text (tr_base (cl_editor reconnecting))) = Inr (''axb'' @ [nl])"
    unfolding reconnecting_facts by code_simp
  have at: "atRevision [''Z:1>2+2$ab'', ''Z:3>1=1+1$x''] reconnecting"
    using history_replay by (simp add: atRevision_def reconnecting_facts)
  have f: "cl_socket reconnecting = Some (cn_socketId c)" "obj_get (cl_reconnectOf reconnecting) (cn_socketId c) = Some (Some ''s0'')"
    "''s0'' \<noteq> cn_socketId c" "''s0'' \<noteq> ''''" "cl_lastCommitTime reconnecting + 500 \<le> wo_now (cl_world reconnecting)"
    "cl_rev reconnecting + 2 = int (length [''Z:1>2+2$ab'', ''Z:3>1=1+1$x''])"
    "obj_get (sockets (sv_pads (restServer ''s0'') ''p'')) (cl_rev reconnecting + 1) = cl_stateMessageSocketId reconnecting"
    by (simp_all add: reconnecting_facts c(2) restServer_pad(2) obj_get_def [of "[(1, ''s0'')]"])
  from reconnect_resends [OF restServer_pad(1) a restServer_rooms m reconnecting_run f(1) reconnecting_facts(2) f(2,4,3)
      reconnecting_world f(5) reconnecting_facts(4,5,6) x at f(6,7)]
  obtain k data s' pre cset w author k' k'' cs j where r: "socketOpened (cn_socketId c) reconnecting = (Inr (), k)"
    "rd_isReconnectOf data = cl_stateMessageSocketId reconnecting"
    "padpage_clientReady c data (restServer ''s0'') = (Inr (), s')"
    "sentTo (cn_socketId c) (sv_comet s') = sentTo (cn_socketId c) (sv_comet (restServer ''s0'')) @
      pre @ [NEW_CHANGES (cl_rev reconnecting + 1) cset w author, NO_COMMIT_PENDING]"
    "forA (\<lambda>m. socketMessage docEditor (Collab m)) (pre @ [NEW_CHANGES (cl_rev reconnecting + 1) cset w author]) k = (Inr (), k')"
    "at_text (tr_base (cl_editor k')) = ''axb'' @ [nl]"
    "socketMessage docEditor (Collab NO_COMMIT_PENDING) k' = (Inr (), k'')"
    "SocketPost (cn_socketId c) (Posted (RoomMessage (UserChanges (cl_rev reconnecting + 1) (Some cs) j))) \<in>
      set (drop (length (cl_calls k')) (cl_calls k''))"
    "applyToText cs (''axb'' @ [nl]) = Inr (dt_doc (cl_editor k''))" by (elim exE conjE) (rule that; assumption)
  have "SocketPost (cn_socketId c) (Posted (RoomMessage (UserChanges 1 (Some cs) j))) \<in> set (cl_calls k'')"
    using in_set_dropD [OF r(8)] by (simp add: reconnecting_facts)
  with r(1-7,9) c(2) show ?thesis
    by (intro exI [of _ k] exI [of _ data] exI [of _ s'] exI [of _ c] exI [of _ "pre @ [NEW_CHANGES (cl_rev reconnecting + 1) cset w author]"]
        exI [of _ k'] exI [of _ k''] exI [of _ cs] exI [of _ j]) (simp add: reconnecting_facts)
qed

text \<open>
  The same evaluated for the sample client, given the message in which its own commit comes back: the \<open>x\<close> is
  in the document twice, and is committed once more.
\<close>

definition again :: docClient where
  "again = snd (clientDo (SocketReceives (Collab (NEW_CHANGES 1 ''Z:3>1=1+1$x'' AttribPool (Some ''g.1''))))
     (committing\<lparr>cl_world := sampleWorld\<rparr>))"

lemma reconnect_doubles:
  "dt_doc (cl_editor again) = ''axxb'' @ [nl]"
  "drop (length (cl_calls again)) (cl_calls (snd (clientDo (SocketReceives (Collab NO_COMMIT_PENDING))
      (again\<lparr>cl_world := sampleWorld\<lparr>wo_now := 9000\<rparr>\<rparr>)))) =
    [InternalAction ''newlyIdle'',
     SocketPost ''s1'' (Posted (RoomMessage (UserChanges 1 (Some ''Z:4>1=2+1$x'') (toJsonable AttribPool)))),
     InternalAction ''commitPerformed'']"
  by (code_simp, code_simp)

theorem client_catches_up_witness:
  "\<exists>s' ms k'. updatePadClients ''p'' (lateServer ''s0'') = (Inr (), s') \<and>
    forA (\<lambda>m. socketMessage docEditor (Collab m)) ms typing = (Inr (), k') \<and>
    cl_rev k' = 1 \<and> at_text (tr_base (cl_editor k')) = ''axb'' @ [nl]"
proof -
  obtain c where c: "roomMembers (lateServer ''s0'') (padIdToRoom ''p'') = [c]" "cn_socketId c = ''s1''"
    "cd_lastRev (cn_data c) = Some 0" by (rule lateServer_room)
  have t: "cl_socket typing = Some (cn_socketId c)" "cl_rev typing = 0" "at_text (tr_base (cl_editor typing)) = ''ab'' @ [nl]"
    by (simp_all add: typing_def initialClient_def sampleVars_def sample_client(3) c(2))
  have a: "atRevision [''Z:1>2+2$ab'', ''Z:3>1=1+1$x''] typing" using history_replay by (simp add: atRevision_def t)
  have k: "\<forall>c \<in> set (roomMembers (lateServer ''s0'') (padIdToRoom ''p'')). \<forall>r. cd_lastRev (cn_data c) = Some r \<longrightarrow> - 1 \<le> r"
    and m: "c \<in> set (roomMembers (lateServer ''s0'') (padIdToRoom ''p''))" using c by simp_all
  have o: "\<forall>r. cl_rev typing < r \<longrightarrow> obj_get (sockets (sv_pads (lateServer ''s0'') ''p'')) r \<noteq> Some (cn_socketId c)"
    by (simp add: lateServer_sockets obj_get_def c(2))
  from client_catches_up [OF lateServer_pad lateServer_rooms k lateServer_views m typing_run t(1) _ a _ o] c(3)
  show ?thesis by (auto simp: t(2))
qed

subsection \<open>Waiting for an acknowledgement\<close>

text \<open>
  A commit that takes between five and twenty seconds is reported as slow once, and then nothing looks at it
  any more: this branch sets no timer, so that the limit of twenty seconds is not noticed before the user
  types again.
\<close>

lemma slow_commit_unwatched:
  assumes "cl_socket s \<noteq> None" and "cl_channelState s = Connected" and "cl_state s = Committing"
    and "5000 < wo_now (cl_world s) - cl_lastCommitTime s" and "wo_now (cl_world s) - cl_lastCommitTime s \<le> 20000"
  shows "snd (client_handleUserChanges s) = s\<lparr>cl_calls := cl_calls s @ [ConnectionTrouble ''SLOW'']\<rparr>"
  using assms by (auto simp: client_handleUserChanges_def world_def callPage_def bindA_def thenA_def getA_def modA_def
      ret_def throwA_def split: option.split)

end
