(* ===== verification/CrossPool.thy ===== *)
theory CrossPool
  imports Wire
begin
text \<open>
  The same changeset over two pools. A client and the server number the attributes of a pad differently;
  what \<open>follow\<close> makes of changesets that are the same up to this has the same effect on both sides: the
  numbers do not decide the order of insertions.
\<close>

subsection \<open>Attribute strings that name the same attributes\<close>

definition alike :: "pool \<Rightarrow> pool \<Rightarrow> string \<Rightarrow> string \<Rightarrow> bool" where
  "alike p q a b = (numbered a \<and> att_known p a \<and> numbered b \<and> att_known q b \<and>
     map attribStr (att_pairs p a) = map attribStr (att_pairs q b))"

lemma attsStr_matches:
  "list_all (\<lambda>n. 0 \<le> n) ns \<Longrightarrow> star_matches (attsStr ns) = map numToString ns"
  using attsStr_read by blast

lemma numbered_is_attribs: "numbered a \<Longrightarrow> is_attribs a"
  using attsStr_read by (auto simp: numbered_def)

text \<open>In a pool the attributes determine the numbers.\<close>

lemma numbered_unique:
  assumes wf: "pool_wf p" and "numbered a" "att_known p a" "numbered b" "att_known p b"
    and eq: "map attribStr (att_pairs p a) = map attribStr (att_pairs p b)"
  shows "a = b"
proof -
  obtain ns ms where n: "a = attsStr ns" "b = attsStr ms" "list_all (\<lambda>n. 0 \<le> n) ns" "list_all (\<lambda>n. 0 \<le> n) ms"
    using assms(2,4) by (auto simp: numbered_def)
  let ?f = "\<lambda>n. obj_get (attribToNum p) (attribStr (the (getAttrib p n)))"
  have f: "?f n = Some n" if "n \<in> set ns \<union> set ms" for n
    using that assms(3,5) n pool_wf_num [OF wf, of n]
    by (auto simp: att_known_def attsStr_matches list_all_iff)
  have "map (obj_get (attribToNum p)) (map attribStr (att_pairs p a)) =
      map (obj_get (attribToNum p)) (map attribStr (att_pairs p b))" using eq by simp
  then have "map ?f ns = map ?f ms"
    using n by (simp add: att_pairs_def attsStr_matches list_all_iff comp_def cong: map_cong)
  then have "map Some ns = map Some ms" using f by (metis (mono_tags, lifting) UnCI map_eq_conv)
  then show ?thesis using n by (simp add: inj_map_eq_map)
qed

lemma alike_eq:
  assumes "pool_wf p" "pool_wf q" and "alike p q a b" "alike p q a' b'"
  shows "a = a' \<longleftrightarrow> b = b'"
  using assms(3,4) numbered_unique [OF assms(1), of a a'] numbered_unique [OF assms(2), of b b']
  by (auto simp: alike_def)

lemma alike_Nil [simp]: "alike p q [] []"
  by (simp add: alike_def att_pairs_def)

lemma alike_le: "pool_le p p' \<Longrightarrow> pool_le q q' \<Longrightarrow> alike p q a b \<Longrightarrow> alike p' q' a b"
  by (simp add: alike_def att_known_le att_pairs_le)

lemma alike_sym: "alike p q a b \<Longrightarrow> alike q p b a"
  by (simp add: alike_def)

lemma alike_trans: "alike p q a b \<Longrightarrow> alike q r b c \<Longrightarrow> alike p r a c"
  by (simp add: alike_def)

lemma alike_renamed: "numbered a \<Longrightarrow> att_known p a \<Longrightarrow> renamed p q a b \<Longrightarrow> alike p q a b"
  by (simp add: alike_def renamed_def)

text \<open>The attribute that decides between two insertions is found by what it says, not by its number.\<close>

lemma re_test_skip: "list_all is_alnum xs \<Longrightarrow> re_test num (xs @ ys) = re_test num ys"
proof (induction xs)
  case (Cons x xs)
  then have "x \<noteq> CHR ''*''" by auto
  with Cons show ?case by simp
qed simp

lemma re_test_attsStr:
  assumes "list_all (\<lambda>n. 0 \<le> n) ns" and "0 \<le> k"
  shows "re_test (numToString k) (attsStr ns) \<longleftrightarrow> k \<in> set ns"
  using assms(1)
proof (induction ns)
  case (Cons n ns)
  have n: "0 \<le> n" using Cons.prems by simp
  let ?s = "numToString n @ attsStr ns"
  have al: "list_all is_alnum (numToString n)" "list_all is_alnum (numToString k)"
    using numToString_alnum n assms(2) by blast+
  have "take (length (numToString k)) ?s = numToString k \<and>
        (case drop (length (numToString k)) ?s of [] \<Rightarrow> True | d # _ \<Rightarrow> \<not> is_word d) \<longleftrightarrow> k = n"
  proof
    assume t: "take (length (numToString k)) ?s = numToString k \<and>
        (case drop (length (numToString k)) ?s of [] \<Rightarrow> True | d # _ \<Rightarrow> \<not> is_word d)"
    then have s: "?s = numToString k @ drop (length (numToString k)) ?s" by (metis append_take_drop_id)
    have "stops (drop (length (numToString k)) ?s)"
      using t by (auto simp: stops_def is_word_def Let_def split: list.splits)
    from takeWhile_alnum_append [OF al(2) this] s have "takeWhile is_alnum ?s = numToString k" by metis
    then have "numToString n = numToString k" by (simp add: takeWhile_alnum_append [OF al(1) attsStr_stops])
    then show "k = n" using parseNum_numToString n assms(2) by metis
  next
    assume "k = n"
    moreover have "case attsStr ns of [] \<Rightarrow> True | d # _ \<Rightarrow> \<not> is_word d"
      by (cases ns) (simp_all add: is_word_def Let_def)
    ultimately show "take (length (numToString k)) ?s = numToString k \<and>
        (case drop (length (numToString k)) ?s of [] \<Rightarrow> True | d # _ \<Rightarrow> \<not> is_word d)" by simp
  qed
  with Cons re_test_skip [OF al(1), of "numToString k" "attsStr ns"] show ?case by auto
qed simp

lemma attributeTester_numbered:
  assumes wf: "pool_wf p" and a: "numbered a" "att_known p a"
  shows "attributeTester pair (Some p) a \<longleftrightarrow> attribStr pair \<in> set (map attribStr (att_pairs p a))"
proof -
  obtain ns where n: "a = attsStr ns" "list_all (\<lambda>n. 0 \<le> n) ns" using a(1) by (auto simp: numbered_def)
  have pairs: "att_pairs p a = map (\<lambda>n. the (getAttrib p n)) ns"
    using n by (simp add: att_pairs_def attsStr_matches list_all_iff)
  have known: "obj_get (attribToNum p) (attribStr (the (getAttrib p n))) = Some n" if "n \<in> set ns" for n
    using that a(2) n pool_wf_num [OF wf, of n] by (auto simp: att_known_def attsStr_matches list_all_iff)
  show ?thesis
  proof (cases "obj_get (attribToNum p) (attribStr pair)")
    case None
    have "attribStr pair \<noteq> attribStr (the (getAttrib p n))" if "n \<in> set ns" for n
      using known [OF that] None by (metis option.distinct(1))
    with None show ?thesis by (auto simp: attributeTester_def putAttrib_def pairs)
  next
    case (Some k)
    obtain b where b: "getAttrib p k = Some b" "attribStr b = attribStr pair" using pool_wf_attrib [OF wf Some] by blast
    have k: "0 \<le> k" using pool_wf_bound [OF wf b(1)] by simp
    have "attributeTester pair (Some p) a \<longleftrightarrow> k \<in> set ns"
      using Some k re_test_attsStr [OF n(2) k] by (simp add: attributeTester_def putAttrib_def n(1))
    moreover have "k \<in> set ns \<longleftrightarrow> attribStr pair \<in> set (map attribStr (att_pairs p a))"
    proof
      assume "k \<in> set ns"
      then show "attribStr pair \<in> set (map attribStr (att_pairs p a))"
        using b by (auto simp: pairs intro!: image_eqI [of _ _ k])
    next
      assume "attribStr pair \<in> set (map attribStr (att_pairs p a))"
      then obtain n where "n \<in> set ns" "attribStr (the (getAttrib p n)) = attribStr pair" by (auto simp: pairs)
      with known Some show "k \<in> set ns" by fastforce
    qed
    ultimately show ?thesis by simp
  qed
qed

lemma firstIns_alike:
  assumes "pool_wf p" "pool_wf q" and "alike p q a a'" "alike p q b b'"
  shows "firstIns (insFirst p) r a x b y = firstIns (insFirst q) r a' x b' y"
proof -
  have "insFirst p a = insFirst q a'" "insFirst p b = insFirst q b'"
    using assms
    unfolding alike_def using attributeTester_numbered by metis+
  then show ?thesis by (simp add: firstIns_def followWhich_def)
qed

subsection \<open>Insertions as operations, the rest character by character\<close>

text \<open>
  Only the cut of the insertions matters to \<open>follow\<close>, and attributes on what is kept do not change the text.
  \<open>full t ps\<close> is a stream without them, up to the end of the text \<open>t\<close>.
\<close>

fun units :: "piece list \<Rightarrow> piece list" where
  "units [] = []"
| "units ((k, a, x) # ps) = (if k = Ins then [(Ins, a, x)] else map (\<lambda>c. (k, [], [c])) x) @ units ps"

definition keeps :: "string \<Rightarrow> piece list" where
  "keeps r = map (\<lambda>c. (Keep, [], [c])) r"

definition full :: "string \<Rightarrow> piece list \<Rightarrow> piece list" where
  "full t ps = units ps @ keeps (drop (length (src (flat ps))) t)"

definition erase :: "script \<Rightarrow> script" where
  "erase es = map (\<lambda>e. if ed_op e = Ins then e else Edit (ed_op e) [] (ed_char e)) es"

abbreviation noAtt :: "string \<Rightarrow> string \<Rightarrow> string \<Rightarrow> bool" where
  "noAtt a b c \<equiv> c = []"

definition solid :: "piece list \<Rightarrow> bool" where
  "solid ps = (\<forall>(k, a, x) \<in> set ps. x \<noteq> [])"

lemma solid_simps [simp]: "solid []" "solid ((k, a, x) # ps) = (x \<noteq> [] \<and> solid ps)"
  by (auto simp: solid_def)

lemma pieces_solid: "pieces os ps \<Longrightarrow> solid ps"
  unfolding pieces_def by (induction rule: list_all2_induct) (auto simp: is_piece_def fits_def)

lemma keeps_simps [simp]: "keeps [] = []" "keeps (c # r) = (Keep, [], [c]) # keeps r" "keeps (r @ r') = keeps r @ keeps r'"
  by (simp_all add: keeps_def)

lemma flat_keeps [simp]: "flat (keeps r) = run Keep [] r"
  by (induction r) (simp_all add: run_def)

lemma flat_append [simp]: "flat (ps @ qs) = flat ps @ flat qs"
  by (simp add: flat_def)

lemma units_append [simp]: "units (ps @ qs) = units ps @ units qs"
  by (induction ps rule: units.induct) simp_all

lemma erase_simps [simp]:
  "erase [] = []" "erase (es @ fs) = erase es @ erase fs" "erase (run k a x) = run k (if k = Ins then a else []) x"
  by (simp_all add: erase_def run_def)

lemma erase_text [simp]: "src (erase es) = src es" "dst (erase es) = dst es" "inserted (erase es) = inserted es"
  by (induction es) (auto simp: erase_def)

lemma flat_units: "flat (units ps) = erase (flat ps)"
proof (induction ps rule: units.induct)
  case (2 k a x ps)
  have "flat (map (\<lambda>c. (k, [], [c])) x) = run k [] x" by (induction x) (simp_all add: run_def)
  with 2 show ?case by simp
qed simp

lemma units_rest: "units (rest k a x ps) = (if k = Ins then (if x = [] then [] else [(Ins, a, x)]) else map (\<lambda>c. (k, [], [c])) x) @ units ps"
  by (simp add: rest_def)

lemma solid_rest: "solid ps \<Longrightarrow> solid (rest k a x ps)"
  by (simp add: rest_def)

lemma units_front:
  assumes "solid qs" and "units qs @ keeps r = (Ins, b, y) # vs"
  obtains qs' where "qs = (Ins, b, y) # qs'"
proof (cases qs)
  case Nil
  with assms show ?thesis by (cases r) simp_all
next
  case (Cons q qs')
  then obtain k a x where q: "qs = (k, a, x) # qs'" by (cases q) auto
  with assms that show ?thesis by (cases x) (auto split: if_splits)
qed

text \<open>Steps through a run, one character at a time.\<close>

lemma fols_del: "fols W noAtt us vs gs \<Longrightarrow> l = Del \<or> l = Keep \<Longrightarrow>
  fols W noAtt (map (\<lambda>c. (Del, [], [c])) x @ us) (map (\<lambda>c. (l, [], [c])) x @ vs) gs"
proof (induction x)
  case (Cons c x)
  have "fstep W noAtt ((Del, [], [c] @ []) # map (\<lambda>c. (Del, [], [c])) x @ us) ((l, [], [c] @ []) # map (\<lambda>c. (l, [], [c])) x @ vs)
      (rest Del [] [] (map (\<lambda>c. (Del, [], [c])) x @ us)) (rest l [] [] (map (\<lambda>c. (l, [], [c])) x @ vs)) []"
    using Cons.prems(2) by (intro fstep.del1) simp_all
  from fols.fcons [OF this] Cons show ?case by (simp add: rest_def)
qed simp

lemma fols_keep: "fols W noAtt us vs gs \<Longrightarrow> l = Del \<or> l = Keep \<Longrightarrow>
  fols W noAtt (map (\<lambda>c. (Keep, [], [c])) x @ us) (map (\<lambda>c. (l, [], [c])) x @ vs) (run l [] x @ gs)"
proof (induction x)
  case (Cons c x)
  have "fstep W noAtt ((Keep, [], [c] @ []) # map (\<lambda>c. (Keep, [], [c])) x @ us) ((l, [], [c] @ []) # map (\<lambda>c. (l, [], [c])) x @ vs)
      (rest Keep [] [] (map (\<lambda>c. (Keep, [], [c])) x @ us)) (rest l [] [] (map (\<lambda>c. (l, [], [c])) x @ vs)) (run l [] [c])"
    using Cons.prems(2) fstep.keep_del [where ?x2.0 = "[]" and ?y2.0 = "[]" and F = noAtt and a = "[]" and x = "[c]" and b = "[]"]
      fstep.keep_keep [where ?x2.0 = "[]" and ?y2.0 = "[]" and F = noAtt and a = "[]" and x = "[c]" and b = "[]" and c = "[]"]
    by (elim disjE) simp_all
  from fols.fcons [OF this] Cons show ?case by (simp add: rest_def run_def)
qed (simp add: run_def)

lemma fols_units:
  "fols W F ps qs gs \<Longrightarrow> solid ps \<Longrightarrow> solid qs \<Longrightarrow> src (flat ps) @ r1 = src (flat qs) @ r2 \<Longrightarrow>
   \<exists>r3. dst (flat ps) @ r1 = src gs @ r3 \<and>
     fols W noAtt (units ps @ keeps r1) (units qs @ keeps r2) (erase gs @ run Keep [] r3)"
proof (induction arbitrary: r1 r2 rule: fols.induct)
  case fnil
  then show ?case
    using fols_keep [OF fols.fnil, of Keep W r1] by (intro exI [of _ r1]) (simp add: keeps_def)
next
  case (fcons ps qs ps' qs' g gs)
  from fcons.hyps(1) show ?case
  proof (cases rule: fstep.cases)
    case (ins1 a x)
    from fcons.IH [of r1 r2] fcons.prems ins1 obtain r3 where r3: "dst (flat ps') @ r1 = src gs @ r3"
      "fols W noAtt (units ps' @ keeps r1) (units qs' @ keeps r2) (erase gs @ run Keep [] r3)" by auto
    have "fstep W noAtt ((Ins, a, x) # units ps' @ keeps r1) (units qs' @ keeps r2) (units ps' @ keeps r1) (units qs' @ keeps r2)
        (run Keep [] x)"
      by (rule fstep.ins1) (use units_front [OF fcons.prems(2)] ins1 in blast)
    from fols.fcons [OF this r3(2)] r3(1) ins1 show ?thesis by auto
  next
    case (ins2 b y)
    from fcons.IH [of r1 r2] fcons.prems ins2 obtain r3 where r3: "dst (flat ps') @ r1 = src gs @ r3"
      "fols W noAtt (units ps' @ keeps r1) (units qs' @ keeps r2) (erase gs @ run Keep [] r3)" by auto
    have "fstep W noAtt (units ps' @ keeps r1) ((Ins, b, y) # units qs' @ keeps r2) (units ps' @ keeps r1) (units qs' @ keeps r2)
        (run Ins b y)"
      by (rule fstep.ins2) (use units_front [OF fcons.prems(1)] ins2 in blast)
    from fols.fcons [OF this r3(2)] r3(1) ins2 show ?thesis by auto
  next
    case (del1 l x2 y2 a x ps0 b qs0)
    from fcons.IH [of r1 r2] fcons.prems del1 obtain r3 where r3: "dst (flat ps') @ r1 = src gs @ r3"
      "fols W noAtt (units ps' @ keeps r1) (units qs' @ keeps r2) (erase gs @ run Keep [] r3)"
      by (auto simp: solid_rest)
    from fols_del [OF r3(2), of l x] r3(1) del1 show ?thesis by (auto simp: units_rest)
  next
    case (keep_del x2 y2 a x ps0 b qs0)
    from fcons.IH [of r1 r2] fcons.prems keep_del obtain r3 where r3: "dst (flat ps') @ r1 = src gs @ r3"
      "fols W noAtt (units ps' @ keeps r1) (units qs' @ keeps r2) (erase gs @ run Keep [] r3)"
      by (auto simp: solid_rest)
    from fols_keep [OF r3(2), of Del x] r3(1) keep_del show ?thesis by (auto simp: units_rest)
  next
    case (keep_keep x2 y2 a b c x ps0 qs0)
    from fcons.IH [of r1 r2] fcons.prems keep_keep obtain r3 where r3: "dst (flat ps') @ r1 = src gs @ r3"
      "fols W noAtt (units ps' @ keeps r1) (units qs' @ keeps r2) (erase gs @ run Keep [] r3)"
      by (auto simp: solid_rest)
    from fols_keep [OF r3(2), of Keep x] r3(1) keep_keep show ?thesis by (auto simp: units_rest)
  next
    case (end1_del a x)
    then have r2: "r2 = x @ (src (flat ps') @ r1)" using fcons.prems by simp
    from fcons.IH [of r1 "src (flat ps') @ r1"] fcons.prems end1_del obtain r3 where r3: "dst (flat ps') @ r1 = src gs @ r3"
      "fols W noAtt (units ps' @ keeps r1) (units qs' @ keeps (src (flat ps') @ r1)) (erase gs @ run Keep [] r3)" by auto
    from fols_del [OF r3(2), of Keep x] r3(1) end1_del r2 show ?thesis by (auto simp: keeps_def)
  next
    case (end1_keep a x)
    then have r2: "r2 = x @ (src (flat ps') @ r1)" using fcons.prems by simp
    from fcons.IH [of r1 "src (flat ps') @ r1"] fcons.prems end1_keep obtain r3 where r3: "dst (flat ps') @ r1 = src gs @ r3"
      "fols W noAtt (units ps' @ keeps r1) (units qs' @ keeps (src (flat ps') @ r1)) (erase gs @ run Keep [] r3)" by auto
    from fols_keep [OF r3(2), of Keep x] r3(1) end1_keep r2 show ?thesis by (auto simp: keeps_def)
  next
    case (end2 k b y)
    obtain z where z: "z = src (flat qs') @ r2" by blast
    then have r1: "r1 = y @ z" using fcons.prems end2 by auto
    have "\<exists>r3. dst (flat ps') @ z = src gs @ r3 \<and>
        fols W noAtt (units ps' @ keeps z) (units qs' @ keeps r2) (erase gs @ run Keep [] r3)"
      by (rule fcons.IH) (use fcons.prems(2) end2 z in auto)
    then obtain r3 where r3: "dst (flat ps') @ z = src gs @ r3"
      "fols W noAtt (units ps' @ keeps z) (units qs' @ keeps r2) (erase gs @ run Keep [] r3)" by blast
    from fols_keep [OF r3(2), of k y] r3(1) end2 r1 show ?thesis by (auto simp: keeps_def)
  qed
qed

subsection \<open>Merging streams that are alike\<close>

definition unitAlike :: "pool \<Rightarrow> pool \<Rightarrow> piece \<Rightarrow> piece \<Rightarrow> bool" where
  "unitAlike p q u v = (case (u, v) of ((k, a, x), (l, b, y)) \<Rightarrow>
     k = l \<and> x = y \<and> (if k = Ins then alike p q a b else a = [] \<and> b = []))"

definition editAlike :: "pool \<Rightarrow> pool \<Rightarrow> edit \<Rightarrow> edit \<Rightarrow> bool" where
  "editAlike p q e f = (ed_op f = ed_op e \<and> ed_char f = ed_char e \<and>
     (if ed_op e = Ins then alike p q (ed_att e) (ed_att f) else ed_att e = [] \<and> ed_att f = []))"

lemma unitAlike_simps [simp]:
  "unitAlike p q (k, a, x) (l, b, y) = (k = l \<and> x = y \<and> (if k = Ins then alike p q a b else a = [] \<and> b = []))"
  by (simp add: unitAlike_def)

lemma run_alike: "(if k = Ins then alike p q a b else a = [] \<and> b = []) \<Longrightarrow> list_all2 (editAlike p q) (run k a x) (run k b x)"
  by (induction x) (auto simp: run_def editAlike_def)

lemma rest_alike:
  "list_all2 (unitAlike p q) us us' \<Longrightarrow> (if k = Ins then alike p q a b else a = [] \<and> b = []) \<Longrightarrow>
   list_all2 (unitAlike p q) (rest k a x us) (rest k b x us')"
  by (simp add: rest_def)

lemma unit_ConsE:
  assumes "list_all2 (unitAlike p q) ((k, a, x) # us) us'"
  obtains b us2 where "us' = (k, b, x) # us2" "if k = Ins then alike p q a b else a = [] \<and> b = []"
    "list_all2 (unitAlike p q) us us2"
  using assms by (cases us') (auto simp: unitAlike_def split: prod.splits)

lemma fstep_alike:
  assumes f: "fstep W noAtt us vs us1 vs1 g" and g: "fstep W' noAtt us' vs' us1' vs1' g'"
    and u: "list_all2 (unitAlike p q) us us'" and v: "list_all2 (unitAlike p q) vs vs'"
    and w: "\<And>a a' b b' x y. alike p q a a' \<Longrightarrow> alike p q b b' \<Longrightarrow> W a x b y = W' a' x b' y"
  shows "list_all2 (unitAlike p q) us1 us1' \<and> list_all2 (unitAlike p q) vs1 vs1' \<and> list_all2 (editAlike p q) g g'"
  using f
proof (cases rule: fstep.cases)
  case (ins1 a x)
  from u [unfolded ins1] obtain a' us2 where a': "us' = (Ins, a', x) # us2" "alike p q a a'"
    "list_all2 (unitAlike p q) us1 us2" by (rule unit_ConsE) simp
  have "False" if "vs' = (Ins, b', y) # vs2" "\<not> W' a' x b' y" for b' y vs2
  proof -
    from that v obtain b where b: "vs = (Ins, b, y) # tl vs" "alike p q b b'"
      by (cases vs) (auto simp: unitAlike_def split: if_splits)
    from that(2) ins1(4) [OF b(1)] w [OF a'(2) b(2)] show False by simp
  qed
  then have "us1' = us2 \<and> vs1' = vs' \<and> g' = run Keep [] x"
    using g unfolding a'(1) by (elim fstep_ins1E) auto
  then show ?thesis using a' v ins1 by (auto intro!: run_alike)
next
  case (ins2 b y)
  from v [unfolded ins2] obtain b' vs2 where b': "vs' = (Ins, b', y) # vs2" "alike p q b b'"
    "list_all2 (unitAlike p q) vs1 vs2" by (rule unit_ConsE) simp
  have "False" if "us' = (Ins, a', x) # us2" "W' a' x b' y" for a' x us2
  proof -
    from that u obtain a where a: "us = (Ins, a, x) # tl us" "alike p q a a'"
      by (cases us) (auto simp: unitAlike_def split: if_splits)
    from that(2) ins2(4) [OF a(1)] w [OF a(2) b'(2)] show False by simp
  qed
  then have "us1' = us' \<and> vs1' = vs2 \<and> g' = run Ins b' y"
    using g unfolding b'(1) by (elim fstep_ins2E) auto
  then show ?thesis using b' u ins2 by (auto intro!: run_alike)
next
  case (del1 l x2 y2 a x ps b qs)
  from u [unfolded del1] obtain a' us2 where a': "us' = (Del, a', x @ x2) # us2" "a = [] \<and> a' = []"
    "list_all2 (unitAlike p q) ps us2" by (rule unit_ConsE) simp
  from v [unfolded del1] obtain b' vs2 where b': "vs' = (l, b', x @ y2) # vs2" "b = [] \<and> b' = []"
    "list_all2 (unitAlike p q) qs vs2" by (rule unit_ConsE) (use del1 in auto)
  show ?thesis
    using fstep_both [OF g [unfolded a'(1) b'(1)] \<open>x2 = [] \<or> y2 = []\<close>] a'(2,3) b'(2,3) del1
    by (auto intro!: rest_alike)
next
  case (keep_del x2 y2 a x ps b qs)
  from u [unfolded keep_del] obtain a' us2 where a': "us' = (Keep, a', x @ x2) # us2" "a = [] \<and> a' = []"
    "list_all2 (unitAlike p q) ps us2" by (rule unit_ConsE) simp
  from v [unfolded keep_del] obtain b' vs2 where b': "vs' = (Del, b', x @ y2) # vs2" "b = [] \<and> b' = []"
    "list_all2 (unitAlike p q) qs vs2" by (rule unit_ConsE) simp
  show ?thesis
    using fstep_both [OF g [unfolded a'(1) b'(1)] \<open>x2 = [] \<or> y2 = []\<close>] a'(2,3) b'(2,3) keep_del
    by (auto intro!: rest_alike run_alike)
next
  case (keep_keep x2 y2 a b c x ps qs)
  from u [unfolded keep_keep] obtain a' us2 where a': "us' = (Keep, a', x @ x2) # us2" "a = [] \<and> a' = []"
    "list_all2 (unitAlike p q) ps us2" by (rule unit_ConsE) simp
  from v [unfolded keep_keep] obtain b' vs2 where b': "vs' = (Keep, b', x @ y2) # vs2" "b = [] \<and> b' = []"
    "list_all2 (unitAlike p q) qs vs2" by (rule unit_ConsE) simp
  show ?thesis
    using fstep_both [OF g [unfolded a'(1) b'(1)] \<open>x2 = [] \<or> y2 = []\<close>] a'(2,3) b'(2,3) keep_keep
    by (auto intro!: rest_alike run_alike)
next
  case (end1_del a x)
  from u [unfolded end1_del] obtain a' us2 where a': "us' = (Del, a', x) # us2" "a = [] \<and> a' = []"
    "list_all2 (unitAlike p q) us1 us2" by (rule unit_ConsE) simp
  have "vs' = []" using v end1_del by simp
  from g [unfolded a'(1) this] show ?thesis using a' end1_del by (auto elim: fstep_end1E)
next
  case (end1_keep a x)
  from u [unfolded end1_keep] obtain a' us2 where a': "us' = (Keep, a', x) # us2" "a = [] \<and> a' = []"
    "list_all2 (unitAlike p q) us1 us2" by (rule unit_ConsE) simp
  have "vs' = []" using v end1_keep by simp
  from g [unfolded a'(1) this] show ?thesis using a' end1_keep by (auto elim!: fstep_end1E intro!: run_alike)
next
  case (end2 k b y)
  from v [unfolded end2] obtain b' vs2 where b': "vs' = (k, b', y) # vs2" "b = [] \<and> b' = []"
    "list_all2 (unitAlike p q) vs1 vs2" by (rule unit_ConsE) (use end2 in auto)
  have "us' = []" using u end2 by simp
  from g [unfolded b'(1) this] show ?thesis using b' end2 by (auto elim!: fstep_end2E intro!: run_alike)
qed

lemma fols_alike:
  "fols W noAtt us vs gs \<Longrightarrow> fols W' noAtt us' vs' gs' \<Longrightarrow> list_all2 (unitAlike p q) us us' \<Longrightarrow> list_all2 (unitAlike p q) vs vs'
   \<Longrightarrow> (\<And>a a' b b' x y. alike p q a a' \<Longrightarrow> alike p q b b' \<Longrightarrow> W a x b y = W' a' x b' y) \<Longrightarrow> list_all2 (editAlike p q) gs gs'"
proof (induction arbitrary: us' vs' gs' rule: fols.induct)
  case fnil
  then have "us' = []" "vs' = []" by simp_all
  with fnil.prems(1) show ?case by (auto elim!: fols_NilE fstep_NilE)
next
  case (fcons us vs us1 vs1 g gs)
  note fstep = fcons.hyps(1) and alike = fcons.prems(2-4) and rest = fcons.IH [OF _ _ _ fcons.prems(4)]
  from fcons.prems(1) show ?case
  proof (cases rule: fols.cases)
    case fnil
    with fcons.prems(2,3) have "us = []" "vs = []" by simp_all
    with fcons.hyps(1) show ?thesis by (auto elim: fstep_NilE)
  next
    case first: (fcons us1' vs1' g' gs2)
    note s = fstep_alike [OF fstep first(2) alike]
    show ?thesis using s first(1,3) rest by (auto intro: list_all2_appendI)
  qed
qed

end
