(* ===== verification/CrossFollow.thy ===== *)
theory CrossFollow
  imports CrossPool
begin

text \<open>
  What \<open>follow\<close> makes of two changesets that are the same over two pools: what the assemblers print of
  scripts that are alike is alike again, and so are the changesets \<open>follow\<close> returns.
\<close>

subsection \<open>The assembler on scripts that are alike\<close>

definition opAlike :: "pool \<Rightarrow> pool \<Rightarrow> op \<Rightarrow> op \<Rightarrow> bool" where
  "opAlike p q o1 o2 = (0 \<le> chars o1 \<and> 0 \<le> lines o1 \<and> alike p q (attribs o1) (attribs o2) \<and>
     opcode o2 = opcode o1 \<and> chars o2 = chars o1 \<and> lines o2 = lines o1)"

definition outAlike :: "pool \<Rightarrow> pool \<Rightarrow> string \<Rightarrow> string \<Rightarrow> bool" where
  "outAlike p q x x' = (\<exists>os os'. x = encode os \<and> x' = encode os' \<and> list_all2 (opAlike p q) os os' \<and>
     list_all (\<lambda>o1. opcode o1 \<noteq> NoOp) os)"

definition asmAlike :: "pool \<Rightarrow> pool \<Rightarrow> mergeAssem \<Rightarrow> mergeAssem \<Rightarrow> bool" where
  "asmAlike p q m m' = (opAlike p q (ma_bufOp m) (ma_bufOp m') \<and> ma_addl m' = ma_addl m \<and> 0 \<le> ma_addl m \<and>
     outAlike p q (concat (ma_assem m)) (concat (ma_assem m')))"

lemma outAlike_Nil: "outAlike p q [] []"
  by (auto simp: outAlike_def intro!: exI [of _ "[]"])

lemma outAlike_snoc:
  assumes "outAlike p q x x'" and "opAlike p q o1 o2" and "opcode o1 \<noteq> NoOp"
  shows "outAlike p q (x @ opStr o1) (x' @ opStr o2)"
proof -
  obtain os os' where "x = encode os" "x' = encode os'" "list_all2 (opAlike p q) os os'"
    "list_all (\<lambda>o1. opcode o1 \<noteq> NoOp) os" using assms(1) by (auto simp: outAlike_def)
  with assms(2,3) show ?thesis
    unfolding outAlike_def by (intro exI [of _ "os @ [o1]"] exI [of _ "os' @ [o2]"]) (simp add: list_all2_appendI)
qed

lemma flush_alike: "asmAlike p q m m' \<Longrightarrow> asmAlike p q (ma_flush False m) (ma_flush False m') \<and>
    ma_addl (ma_flush False m') = ma_addl (ma_flush False m)"
  using outAlike_snoc [of p q "concat (ma_assem m)" "concat (ma_assem m')" "ma_bufOp m" "ma_bufOp m'"]
    outAlike_snoc [of p q "concat (ma_assem m) @ opStr (ma_bufOp m)" "concat (ma_assem m') @ opStr (ma_bufOp m')"
      "(ma_bufOp m)\<lparr>chars := ma_addl m, lines := 0\<rparr>" "(ma_bufOp m')\<lparr>chars := ma_addl m, lines := 0\<rparr>"]
  by (auto simp: asmAlike_def ma_flush_def opAlike_def Let_def)

lemma append_alike:
  assumes "pool_wf p" "pool_wf q" and m: "asmAlike p q m m'" and e: "editAlike p q e f" "ed_op e = Ins"
  shows "asmAlike p q (ma_append (unit_op e) m) (ma_append (unit_op f) m')"
proof -
  have same: "ed_op f = Ins" "ed_char f = ed_char e" "alike p q (ed_att e) (ed_att f)" using e by (auto simp: editAlike_def)
  have b: "alike p q (attribs (ma_bufOp m)) (attribs (ma_bufOp m'))" using m by (simp add: asmAlike_def opAlike_def)
  have iff: "attribs (ma_bufOp m) = ed_att e \<longleftrightarrow> attribs (ma_bufOp m') = ed_att f"
    by (rule alike_eq [OF assms(1,2) b same(3)])
  have fl: "asmAlike p q (ma_flush False m) (ma_flush False m')" using flush_alike [OF m] by blast
  show ?thesis
    using m fl iff same e(2) by (auto simp: ma_append_def unit_op_def asmAlike_def opAlike_def Let_def copyOp_def)
qed

lemma units_alike:
  assumes "pool_wf p" "pool_wf q"
  shows "list_all2 (editAlike p q) es fs \<Longrightarrow> list_all (\<lambda>e. ed_op e = Ins) es \<Longrightarrow> asmAlike p q m m' \<Longrightarrow>
    asmAlike p q (fold (\<lambda>e. ma_append (unit_op e)) es m) (fold (\<lambda>e. ma_append (unit_op e)) fs m')"
  by (induction es fs arbitrary: m m' rule: list_all2_induct) (simp_all add: append_alike [OF assms])

lemma ma_print_alike:
  assumes "pool_wf p" "pool_wf q" and "list_all2 (editAlike p q) es fs" "list_all (\<lambda>e. ed_op e = Ins) es"
  shows "outAlike p q (ma_print es) (ma_print fs)"
proof -
  have "asmAlike p q mergingOpAssembler mergingOpAssembler"
    using outAlike_Nil by (simp add: asmAlike_def opAlike_def mergingOpAssembler_def newOp_def opAssembler_def)
  from units_alike [OF assms this] have "asmAlike p q (ma_units es) (ma_units fs)" by (simp add: ma_units_def)
  from flush_alike [OF this] show ?thesis
    by (simp add: ma_print_def ma_toString_def asmAlike_def Let_def oa_toString_def)
qed

subsection \<open>A script in units\<close>

fun cut :: "op list \<Rightarrow> script \<Rightarrow> piece list" where
  "cut [] es = []"
| "cut (o1 # os) es =
     (opcode o1, attribs o1, map ed_char (take (nat (chars o1)) es)) # cut os (drop (nat (chars o1)) es)"

definition insUnits :: "script \<Rightarrow> piece list" where
  "insUnits ins = cut (projr (parse_ops (ma_print ins))) ins"

definition charUnits :: "script \<Rightarrow> piece list" where
  "charUnits es = map (\<lambda>e. (ed_op e, [], [ed_char e])) es"

fun unit_step :: "edit \<Rightarrow> piece list \<times> script \<times> script \<Rightarrow> piece list \<times> script \<times> script" where
  "unit_step e (out, ds, ins) =
     (case ed_op e of
        Del \<Rightarrow> (out, ds @ [e], ins)
      | Ins \<Rightarrow> (out, ds, ins @ [e])
      | Keep \<Rightarrow> (out @ charUnits ds @ insUnits ins @ charUnits [e], [], [])
      | NoOp \<Rightarrow> (out, ds, ins))"

definition scriptUnits :: "script \<Rightarrow> piece list" where
  "scriptUnits es = (let (out, ds, ins) = fold unit_step es ([], [], []) in out @ charUnits ds @ insUnits ins)"

lemma charUnits_simps [simp]:
  "charUnits [] = []" "charUnits (e # es) = (ed_op e, [], [ed_char e]) # charUnits es"
  "charUnits (es @ fs) = charUnits es @ charUnits fs"
  by (simp_all add: charUnits_def)

lemma cut_pieces: "pieces os ps \<Longrightarrow> cut os (flat ps) = ps"
proof (induction os arbitrary: ps)
  case (Cons o1 os)
  from Cons.prems obtain cs ps' where p: "ps = (opcode o1, attribs o1, cs) # ps'" "fits o1 cs" "pieces os ps'"
    by (rule pieces_ConsE)
  with Cons.IH [OF p(3)] show ?case by (simp add: fits_def)
qed simp

lemma ma_print_pieces:
  assumes "script_ok es"
  shows "\<exists>os ps. ma_print es = encode os \<and> pieces os ps \<and> flat ps = es"
  using ma_print_denotes [of es] denotes_pieces script_ok_no_NoOp [OF assms] unfolding no_NoOp_def by metis

lemma insUnits_pieces:
  assumes "script_ok es" and "ma_print es = encode os" and "pieces os ps" and "flat ps = es"
  shows "insUnits es = ps"
proof -
  have "list_all lexable os" using denotes_lexable [OF pieces_denotes [OF assms(3)]] assms(1,4) by simp
  then have "parse_ops (encode os) = Inr os" using opIterator_encode by (auto intro: parse_opsI)
  then show ?thesis using cut_pieces [OF assms(3)] by (simp add: insUnits_def assms(2,4))
qed

lemma insUnits_Nil [simp]: "insUnits [] = []"
  using insUnits_pieces [of "[]" "[]" "[]"] by (simp add: script_ok_def)

lemma units_charUnits: "list_all (\<lambda>e. ed_op e \<noteq> Ins) (flat ps) \<Longrightarrow> solid ps \<Longrightarrow> units ps = charUnits (flat ps)"
proof (induction ps rule: units.induct)
  case (2 k a x ps)
  then have "k \<noteq> Ins" by (cases x) (simp_all add: run_def)
  then show ?case using 2 by (simp add: charUnits_def run_def comp_def)
qed simp

lemma units_insUnits: "list_all (\<lambda>e. ed_op e = Ins) (flat ps) \<Longrightarrow> solid ps \<Longrightarrow> units ps = ps"
proof (induction ps rule: units.induct)
  case (2 k a x ps)
  then have "k = Ins" by (cases x) (simp_all add: run_def)
  then show ?case using 2 by simp
qed simp

lemma charUnits_keeps: "list_all (\<lambda>e. ed_op e = Keep) es \<Longrightarrow> charUnits es = keeps (map ed_char es)"
  by (induction es) simp_all

lemma ins_alike:
  assumes wf: "pool_wf p" "pool_wf q" and a: "list_all2 (editAlike p q) es fs" "list_all (\<lambda>e. ed_op e = Ins) es"
    and ok: "script_ok es" "script_ok fs"
  shows "list_all2 (unitAlike p q) (insUnits es) (insUnits fs)"
proof -
  obtain os os' where o: "ma_print es = encode os" "ma_print fs = encode os'" "list_all2 (opAlike p q) os os'"
    "list_all (\<lambda>o1. opcode o1 \<noteq> NoOp) os" using ma_print_alike [OF wf a] by (auto simp: outAlike_def)
  have lex: "list_all lexable os" "list_all lexable os'"
    using o(3,4) by (induction rule: list_all2_induct) (auto simp: opAlike_def lexable_def alike_def numbered_is_attribs)
  obtain ps where ps: "ma_print es = encode ps" "denotes ps es"
    using ma_print_denotes [of es] script_ok_no_NoOp [OF ok(1)] by (auto simp: no_NoOp_def)
  have "parse_ops (encode os) = Inr os" "parse_ops (encode os') = Inr os'" "parse_ops (encode ps) = Inr ps"
    using opIterator_encode lex denotes_lexable [OF ps(2) ok(1)] by (auto intro: parse_opsI)
  then have i: "insUnits es = cut os es" "insUnits fs = cut os' fs" and d: "denotes os es"
    using o(1,2) ps by (auto simp: insUnits_def)
  have "list_all2 (unitAlike p q) (cut os es) (cut os' fs)"
    using o(3) a d
  proof (induction os os' arbitrary: es fs rule: list_all2_induct)
    case (Cons o1 os o2 os')
    obtain xs ys where e: "es = xs @ ys" "covers o1 xs" "denotes os ys" using Cons.prems(3) by (rule denotes_ConsE)
    note n = coversD(2) [OF e(2)]
    obtain xs' ys' where f: "fs = xs' @ ys'" "list_all2 (editAlike p q) xs xs'" "list_all2 (editAlike p q) ys ys'"
      using Cons.prems(1) unfolding e(1) list_all2_append1 by blast
    have "map ed_char xs' = map ed_char xs" using f(2) by (induction rule: list_all2_induct) (auto simp: editAlike_def)
    moreover have "opcode o1 = Ins" using e(1,2) Cons.prems(2) by (cases xs) (auto simp: covers_def)
    moreover have "length xs' = length xs" using f(2) by (simp add: list_all2_lengthD)
    ultimately show ?case
      using Cons.hyps(1) Cons.IH [OF f(3) _ e(3)] Cons.prems(2) n by (simp add: e(1) f(1) opAlike_def)
  qed simp
  with i show ?thesis by simp
qed

lemma char_alike:
  "list_all2 (editAlike p q) es fs \<Longrightarrow> list_all (\<lambda>e. ed_op e \<noteq> Ins) es \<Longrightarrow> list_all2 (unitAlike p q) (charUnits es) (charUnits fs)"
  by (induction rule: list_all2_induct) (auto simp: editAlike_def)

text \<open>The state in which the units of a script are collected.\<close>

lemma unit_step_state:
  "no_NoOp es \<Longrightarrow> \<exists>out ds ins. fold unit_step es ([], [], []) = (out, ds, ins) \<and>
     list_all (\<lambda>e. ed_op e = Del) ds \<and> list_all (\<lambda>e. ed_op e = Ins) ins \<and> set ds \<union> set ins \<subseteq> set es"
proof (induction es rule: rev_induct)
  case (snoc e es)
  then obtain out ds ins where "fold unit_step es ([], [], []) = (out, ds, ins)"
     "list_all (\<lambda>e. ed_op e = Del) ds" "list_all (\<lambda>e. ed_op e = Ins) ins" "set ds \<union> set ins \<subseteq> set es" by auto
  with snoc.prems show ?case by (cases "ed_op e") auto
qed simp

lemma scriptUnits_alike:
  assumes wf: "pool_wf p" "pool_wf q" and a: "list_all2 (editAlike p q) es fs" and ok: "script_ok es" "script_ok fs"
  shows "list_all2 (unitAlike p q) (scriptUnits es) (scriptUnits fs)"
proof -
  have "\<exists>out ds ins out' ds' ins'. fold unit_step es ([], [], []) = (out, ds, ins) \<and>
      fold unit_step fs ([], [], []) = (out', ds', ins') \<and> list_all2 (unitAlike p q) out out' \<and>
      list_all2 (editAlike p q) ds ds' \<and> list_all2 (editAlike p q) ins ins' \<and>
      list_all (\<lambda>e. ed_op e = Del) ds \<and> list_all (\<lambda>e. ed_op e = Ins) ins \<and> script_ok ins \<and> script_ok ins'"
    using a ok
  proof (induction es arbitrary: fs rule: rev_induct)
    case (snoc e es)
    then obtain fs' f where f: "fs = fs' @ [f]" "list_all2 (editAlike p q) es fs'" "editAlike p q e f"
      by (auto simp: list_all2_append1 list_all2_Cons1)
    have ok': "script_ok es" "script_ok fs'" using snoc.prems(2,3) f(1) by (simp_all add: script_ok_def)
    from snoc.IH [OF f(2) ok'] obtain out ds ins out' ds' ins' where st: "fold unit_step es ([], [], []) = (out, ds, ins)"
      "fold unit_step fs' ([], [], []) = (out', ds', ins')" "list_all2 (unitAlike p q) out out'"
      "list_all2 (editAlike p q) ds ds'" "list_all2 (editAlike p q) ins ins'" "list_all (\<lambda>e. ed_op e = Del) ds"
      "list_all (\<lambda>e. ed_op e = Ins) ins" "script_ok ins" "script_ok ins'"
      by blast
    have op: "ed_op f = ed_op e" "ed_char f = ed_char e" using f(3) by (simp_all add: editAlike_def)
    have "list_all (\<lambda>e. ed_op e \<noteq> Ins) ds" using st(6) by (simp add: list_all_iff)
    note u = char_alike [OF st(4) this] ins_alike [OF wf st(5,7,8,9)]
    show ?case
      using snoc.prems(2,3) f st u op
      by (cases "ed_op e") (auto simp: script_ok_def intro!: list_all2_appendI)
  qed (simp add: script_ok_def)
  then obtain out ds ins out' ds' ins' where st: "fold unit_step es ([], [], []) = (out, ds, ins)"
      "fold unit_step fs ([], [], []) = (out', ds', ins')" "list_all2 (unitAlike p q) out out'"
      "list_all2 (editAlike p q) ds ds'" "list_all2 (editAlike p q) ins ins'" "list_all (\<lambda>e. ed_op e = Del) ds"
      "list_all (\<lambda>e. ed_op e = Ins) ins" "script_ok ins" "script_ok ins'" by blast
  have "list_all (\<lambda>e. ed_op e \<noteq> Ins) ds" using st(6) by (simp add: list_all_iff)
  then show ?thesis
    using st by (simp add: scriptUnits_def list_all2_appendI char_alike ins_alike [OF wf])
qed

lemma scriptUnits_erase: "scriptUnits (erase es) = scriptUnits es"
proof -
  have c: "charUnits (erase ds) = charUnits ds" for ds by (induction ds) (simp_all add: erase_def)
  have "fold unit_step (erase es) ([], [], []) =
      (case fold unit_step es ([], [], []) of (out, ds, ins) \<Rightarrow> (out, erase ds, ins))"
  proof (induction es rule: rev_induct)
    case (snoc e es)
    obtain out ds ins where "fold unit_step es ([], [], []) = (out, ds, ins)" by (metis prod_cases3)
    with snoc c show ?case by (cases "ed_op e") (simp_all add: erase_def)
  qed simp
  then show ?thesis by (simp add: scriptUnits_def c split: prod.splits)
qed

lemma scriptUnits_keeps: "scriptUnits (es @ run Keep [] r) = scriptUnits es @ keeps r"
proof (induction r rule: rev_induct)
  case (snoc c r)
  obtain out ds ins where st: "fold unit_step (es @ run Keep [] r) ([], [], []) = (out, ds, ins)" by (metis prod_cases3)
  have "scriptUnits ((es @ run Keep [] r) @ [Edit Keep [] c]) = scriptUnits (es @ run Keep [] r) @ [(Keep, [], [c])]"
    using st by (simp add: scriptUnits_def del: append_assoc)
  then show ?case using snoc by (simp add: run_def)
qed (simp add: run_def)

text \<open>What the smart assembler prints has the units of the script, up to final keeps.\<close>

definition unitState :: "smart_state \<Rightarrow> script \<Rightarrow> piece list \<times> script \<times> script \<Rightarrow> bool" where
  "unitState st sc un =
     (case (st, un) of ((out, ds, ins, ks), (nout, nds, nins)) \<Rightarrow>
        script_ok ds \<and> script_ok ins \<and> script_ok ks \<and>
        list_all (\<lambda>e. ed_op e = Del) ds \<and> list_all (\<lambda>e. ed_op e = Ins) ins \<and> list_all (\<lambda>e. ed_op e = Keep) ks \<and>
        (\<exists>os ps. out = encode os \<and> pieces os ps \<and> flat ps = sc \<and>
           (if ks = [] then nout = units ps \<and> nds = ds \<and> nins = ins
            else nout = units ps @ charUnits ks \<and> nds = [] \<and> nins = [] \<and> ds = [] \<and> ins = [])))"

text \<open>The units of a run of one kind.\<close>

lemma run_units:
  assumes "script_ok es"
  shows "list_all (\<lambda>e. ed_op e \<noteq> Ins) es \<Longrightarrow> ma_print es = encode os \<Longrightarrow> pieces os ps \<Longrightarrow> flat ps = es \<Longrightarrow> units ps = charUnits es"
    and "list_all (\<lambda>e. ed_op e = Ins) es \<Longrightarrow> ma_print es = encode os \<Longrightarrow> pieces os ps \<Longrightarrow> flat ps = es \<Longrightarrow> units ps = insUnits es"
  using units_charUnits [of ps] units_insUnits [of ps] pieces_solid [of os ps] insUnits_pieces [OF assms] by auto

lemma pieces_append: "pieces os ps \<Longrightarrow> pieces os' ps' \<Longrightarrow> pieces (os @ os') (ps @ ps')"
  by (simp add: pieces_def list_all2_appendI)

lemma unitState_step:
  assumes st: "unitState (out, ds, ins, ks) sc (nout, nds, nins)" and e: "script_ok [e]"
    and n: "fst (norm_step e (sc, ds, ins, ks)) = sc'"
  shows "unitState (smart_step e (out, ds, ins, ks)) sc' (unit_step e (nout, nds, nins))"
proof -
  obtain os ps where out: "out = encode os" "pieces os ps" "flat ps = sc"
    and un: "if ks = [] then nout = units ps \<and> nds = ds \<and> nins = ins
     else nout = units ps @ charUnits ks \<and> nds = [] \<and> nins = [] \<and> ds = [] \<and> ins = []"
    and ok: "script_ok ds" "script_ok ins" "script_ok ks"
    and k: "list_all (\<lambda>e. ed_op e = Del) ds" "list_all (\<lambda>e. ed_op e = Ins) ins" "list_all (\<lambda>e. ed_op e = Keep) ks"
    using st unfolding unitState_def by auto
  have ne: "list_all (\<lambda>e. ed_op e \<noteq> Ins) ds" "list_all (\<lambda>e. ed_op e \<noteq> Ins) ks" using k by (simp_all add: list_all_iff)
  obtain od pd where d: "ma_print ds = encode od" "pieces od pd" "flat pd = ds" "units pd = charUnits ds"
    using ma_print_pieces [OF ok(1)] run_units(1) [OF ok(1) ne(1)] by blast
  obtain oi pi where i: "ma_print ins = encode oi" "pieces oi pi" "flat pi = ins" "units pi = insUnits ins"
    using ma_print_pieces [OF ok(2)] run_units(2) [OF ok(2) k(2)] by blast
  obtain ok' pk where kk: "ma_print ks = encode ok'" "pieces ok' pk" "flat pk = ks" "units pk = charUnits ks"
    using ma_print_pieces [OF ok(3)] run_units(1) [OF ok(3) ne(2)] by blast
  have pk: "out @ ma_print ks = encode (os @ ok')" "pieces (os @ ok') (ps @ pk)" "flat (ps @ pk) = sc @ ks"
      "units (ps @ pk) = units ps @ charUnits ks"
    and pd: "out @ ma_print ds @ ma_print ins = encode (os @ od @ oi)" "pieces (os @ od @ oi) (ps @ pd @ pi)"
      "flat (ps @ pd @ pi) = sc @ ds @ ins" "units (ps @ pd @ pi) = units ps @ charUnits ds @ insUnits ins"
    using out d i kk by (simp_all add: pieces_append)
  have okd: "script_ok (ds @ [e])" "script_ok (ins @ [e])" "script_ok (ks @ [e])"
    using ok e by (simp_all add: script_ok_def)
  show ?thesis
  proof (cases "ed_op e")
    case Keep
    show ?thesis
    proof (cases "ks = []")
      case True
      have "\<exists>os' ps'. out @ ma_print ds @ ma_print ins = encode os' \<and> pieces os' ps' \<and> flat ps' = sc @ ds @ ins \<and>
          nout @ charUnits nds @ insUnits nins @ charUnits [e] = units ps' @ charUnits [e]"
        using pd un True by (intro exI [of _ "os @ od @ oi"] exI [of _ "ps @ pd @ pi"]) simp
      with Keep True n e show ?thesis by (auto simp: unitState_def script_ok_def)
    next
      case False
      then show ?thesis using Keep un out okd k n by (auto simp: unitState_def script_ok_def)
    qed
  next
    case Del
    have "\<exists>os' ps'. out @ ma_print ks = encode os' \<and> pieces os' ps' \<and> flat ps' = sc @ ks \<and> nout = units ps' \<and> nds = ds \<and> nins = ins"
      using pk un by (intro exI [of _ "os @ ok'"] exI [of _ "ps @ pk"]) (simp split: if_splits)
    with Del n okd ok k show ?thesis by (auto simp: unitState_def script_ok_def)
  next
    case Ins
    have "\<exists>os' ps'. out @ ma_print ks = encode os' \<and> pieces os' ps' \<and> flat ps' = sc @ ks \<and> nout = units ps' \<and> nds = ds \<and> nins = ins"
      using pk un by (intro exI [of _ "os @ ok'"] exI [of _ "ps @ pk"]) (simp split: if_splits)
    with Ins n okd ok k show ?thesis by (auto simp: unitState_def script_ok_def)
  next
    case NoOp
    then show ?thesis using e by (simp add: script_ok_def)
  qed
qed

lemma smart_state_units:
  assumes "script_ok es"
  shows "\<exists>out sc ds ins ks. fold smart_step es ([], [], [], []) = (out, ds, ins, ks) \<and>
    fold norm_step es ([], [], [], []) = (sc, ds, ins, ks) \<and>
    unitState (out, ds, ins, ks) sc (fold unit_step es ([], [], []))"
  using assms
proof (induction es rule: rev_induct)
  case Nil
  then show ?case by (auto simp: unitState_def script_ok_def intro!: exI [of _ "[]"])
next
  case (snoc e es)
  have "script_ok es" and e: "script_ok [e]" using snoc.prems by (simp_all add: script_ok_def)
  from snoc.IH [OF this(1)] obtain out sc ds ins ks where
    st: "fold smart_step es ([], [], [], []) = (out, ds, ins, ks)" "fold norm_step es ([], [], [], []) = (sc, ds, ins, ks)"
      "unitState (out, ds, ins, ks) sc (fold unit_step es ([], [], []))" by blast
  obtain nout nds nins where n: "fold unit_step es ([], [], []) = (nout, nds, nins)" by (metis prod_cases3)
  obtain out' ds' ins' ks' where s: "smart_step e (out, ds, ins, ks) = (out', ds', ins', ks')" by (metis prod_cases4)
  obtain sc' where m: "norm_step e (sc, ds, ins, ks) = (sc', ds', ins', ks')"
    using s by (cases "ed_op e") auto
  from unitState_step [OF st(3) [unfolded n] e, of sc'] s m st(1,2) n show ?case by simp
qed

lemma smart_string_units:
  assumes "script_ok es"
  shows "\<exists>os ps r. smart_string es = encode os \<and> pieces os ps \<and> flat ps = smart_norm es \<and>
    units ps @ keeps r = scriptUnits es \<and> src es = src (smart_norm es) @ r"
proof -
  obtain nout nds nins where n: "fold unit_step es ([], [], []) = (nout, nds, nins)" by (metis prod_cases3)
  from smart_state_units [OF assms] obtain out sc ds ins ks where
    st: "fold smart_step es ([], [], [], []) = (out, ds, ins, ks)" "fold norm_step es ([], [], [], []) = (sc, ds, ins, ks)"
      "unitState (out, ds, ins, ks) sc (nout, nds, nins)" unfolding n by blast
  obtain os ps where out: "out = encode os" "pieces os ps" "flat ps = sc"
    and un: "if ks = [] then nout = units ps \<and> nds = ds \<and> nins = ins
     else nout = units ps @ charUnits ks \<and> nds = [] \<and> nins = [] \<and> ds = [] \<and> ins = []"
    and ok: "script_ok ds" "script_ok ins" "script_ok ks"
    and kind: "list_all (\<lambda>e. ed_op e = Del) ds" "list_all (\<lambda>e. ed_op e = Ins) ins" "list_all (\<lambda>e. ed_op e = Keep) ks"
    using st(3) unfolding unitState_def by auto
  have "list_all (\<lambda>e. ed_op e \<noteq> Ins) ds" using kind(1) by (simp add: list_all_iff)
  then obtain od pd where d: "ma_print ds = encode od" "pieces od pd" "flat pd = ds" "units pd = charUnits ds"
    using ma_print_pieces [OF ok(1)] run_units(1) [OF ok(1)] by blast
  obtain oi pi where i: "ma_print ins = encode oi" "pieces oi pi" "flat pi = ins" "units pi = insUnits ins"
    using ma_print_pieces [OF ok(2)] run_units(2) [OF ok(2) kind(2)] by blast
  obtain ok' pk where k: "ma_print_end ks = encode ok'" "pieces ok' pk" "flat pk = strip ks"
    using ma_print_end_denotes [of ks] denotes_pieces script_ok_no_NoOp [OF ok(3)] unfolding no_NoOp_def by metis
  obtain rest where r: "ks = strip ks @ rest" using strip_split by blast
  have kk: "list_all (\<lambda>e. ed_op e = Keep) (strip ks)" "list_all (\<lambda>e. ed_op e = Keep) rest"
    using kind(3) r list_all_append by metis+
  have "list_all (\<lambda>e. ed_op e \<noteq> Ins) (flat pk)" using kk(1) k(3) by (simp add: list_all_iff)
  then have u: "units pk = charUnits (strip ks)"
    using units_charUnits pieces_solid [OF k(2)] k(3) by auto
  have "charUnits ks = units pk @ keeps (map ed_char rest)"
    using arg_cong [OF r, of charUnits] u charUnits_keeps [OF kk(2)] by simp
  then have "units (ps @ pd @ pi @ pk) @ keeps (map ed_char rest) = scriptUnits es"
    using un d(4) i(4) by (simp add: scriptUnits_def n split: if_splits)
  moreover have "pieces (os @ od @ oi @ ok') (ps @ pd @ pi @ pk)"
    using out(2) d(2) i(2) k(2) by (intro pieces_append)
  moreover have "flat (ps @ pd @ pi @ pk) = smart_norm es" using st(2) out(3) d(3) i(3) k(3) by (simp add: smart_norm_def)
  moreover have "smart_string es = encode (os @ od @ oi @ ok')"
    using st(1) out(1) d(1) i(1) k(1) by (simp add: smart_string_def)
  moreover have "src es = src (smart_norm es) @ map ed_char rest"
  proof -
    have "src es = src (sc @ ds @ ins @ ks)" using norm_step_inv [OF script_ok_no_NoOp [OF assms]] st(2) by auto
    moreover have "src ks = src (strip ks) @ src rest" using arg_cong [OF r, of src] by simp
    moreover have "src rest = map ed_char rest" using kk(2) by (induction rest) simp_all
    ultimately show ?thesis using st(2) by (simp add: smart_norm_def)
  qed
  ultimately show ?thesis by blast
qed

subsection \<open>The same changeset over two pools\<close>

definition sameChange :: "pool \<Rightarrow> string \<Rightarrow> pool \<Rightarrow> string \<Rightarrow> string \<Rightarrow> bool" where
  "sameChange p c q c' t = (\<exists>ps ps'. cs_on c t (flat ps) \<and> cs_pieces c ps \<and> known p (flat ps) \<and>
     cs_on c' t (flat ps') \<and> cs_pieces c' ps' \<and> known q (flat ps') \<and>
     list_all2 (unitAlike p q) (full t ps) (full t ps'))"

lemma sameChangeE:
  assumes "sameChange p c q c' t"
  obtains ps ps' where "cs_on c t (flat ps)" "cs_pieces c ps" "known p (flat ps)" "cs_on c' t (flat ps')"
    "cs_pieces c' ps'" "known q (flat ps')" "list_all2 (unitAlike p q) (full t ps) (full t ps')"
  using assms unfolding sameChange_def by blast

lemma unitAlike_le: "pool_le p p' \<Longrightarrow> pool_le q q' \<Longrightarrow> unitAlike p q u v \<Longrightarrow> unitAlike p' q' u v"
  by (auto simp: unitAlike_def alike_le split: prod.splits)

lemma editAlike_le: "pool_le p p' \<Longrightarrow> pool_le q q' \<Longrightarrow> editAlike p q e f \<Longrightarrow> editAlike p' q' e f"
  by (auto simp: editAlike_def alike_le)

lemma sameChange_le:
  assumes "pool_le p p'" "pool_le q q'" and "sameChange p c q c' t"
  shows "sameChange p' c q' c' t"
  using assms(3)
proof (rule sameChangeE)
  fix ps ps'
  assume a: "cs_on c t (flat ps)" "cs_pieces c ps" "known p (flat ps)" "cs_on c' t (flat ps')"
    "cs_pieces c' ps'" "known q (flat ps')" "list_all2 (unitAlike p q) (full t ps) (full t ps')"
  have "list_all2 (unitAlike p' q') (full t ps) (full t ps')"
    by (rule list.rel_mono_strong [OF a(7)]) (rule unitAlike_le [OF assms(1,2)])
  with a known_le [OF assms(1)] known_le [OF assms(2)] show ?thesis unfolding sameChange_def by blast
qed

lemma unitAlike_text: "list_all2 (unitAlike p q) us vs \<Longrightarrow> dst (flat us) = dst (flat vs)"
  by (induction rule: list_all2_induct) (auto simp: unitAlike_def split: prod.splits)

lemma full_text:
  assumes "cs_on c t (flat ps)"
  shows "\<exists>r. t = src (flat ps) @ r \<and> full t ps = units ps @ keeps r \<and> dst (flat (full t ps)) = result t (flat ps)"
proof -
  obtain r where "t = src (flat ps) @ r" using assms by (elim cs_onE) (auto simp: on_text_iff)
  then show ?thesis by (intro exI [of _ r]) (simp add: full_def flat_units)
qed

text \<open>Both do the same to the text.\<close>

lemma sameChange_text: "sameChange p c q c' t \<Longrightarrow> applyToText c' t = applyToText c t"
  using full_text unitAlike_text applyToText_result by (elim sameChangeE) metis

lemma packed_units:
  assumes "no_NoOp gs" and "known p gs" and "t = src gs @ r"
  shows "\<exists>ps. cs_on (packed t gs) t (flat ps) \<and> cs_pieces (packed t gs) ps \<and> known p (flat ps) \<and>
    full t ps = scriptUnits (erase gs @ run Keep [] r)"
proof -
  have ok: "script_ok gs" by (rule known_script_ok [OF assms(1,2)])
  obtain os ps r0 where u: "smart_string gs = encode os" "pieces os ps" "flat ps = smart_norm gs"
    "units ps @ keeps r0 = scriptUnits gs" "src gs = src (smart_norm gs) @ r0" using smart_string_units [OF ok] by blast
  have kn: "known p (smart_norm gs)" using smart_norm_text [OF assms(1)] assms(2) by (auto simp: known_def list_all_iff)
  have ok': "script_ok (smart_norm gs)" using smart_norm_text [OF assms(1)] ok by (auto simp: script_ok_def list_all_iff)
  have on: "cs_on (packed t gs) t (smart_norm gs)"
    using cs_on_smart [OF ok assms(3)] packed_eq [of gs r] assms(3) by simp
  have lex: "list_all lexable os" using denotes_lexable [OF pieces_denotes [OF u(2)]] ok' u(3) by simp
  then have "parse_ops (encode os) = Inr os" using opIterator_encode by (auto intro: parse_opsI)
  with lex have "cs_pieces (packed t gs) ps"
    using u(2) by (simp add: cs_pieces_def packed_def u(1) unpack_pack_encode)
  moreover have "full t ps = scriptUnits (erase gs @ run Keep [] r)"
  proof -
    have "full t ps = units ps @ keeps (r0 @ r)" by (simp add: full_def u(3) assms(3) u(5))
    also have "\<dots> = scriptUnits gs @ keeps r" using u(4) by simp
    also have "\<dots> = scriptUnits (erase (gs @ run Keep [] r))" by (simp only: scriptUnits_erase scriptUnits_keeps)
    finally show ?thesis by simp
  qed
  ultimately show ?thesis using on kn u(3) by metis
qed

lemma erase_ok: "script_ok gs \<Longrightarrow> script_ok (erase gs @ run Keep [] r)"
  by (auto simp: script_ok_def erase_def run_def list_all_iff)

text \<open>What \<open>follow\<close> makes of changesets that are the same is the same again.\<close>

lemma follow_same:
  assumes wf: "pool_wf p" "pool_wf q" and a: "sameChange p a q a' t" and b: "sameChange p b q b' t"
    and d: "applyToText a t = Inr d"
  shows "\<exists>c p1 c' q1. followIn a b ro p = Inr (c, p1) \<and> pool_le p p1 \<and>
    followIn a' b' ro q = Inr (c', q1) \<and> pool_le q q1 \<and> sameChange p1 c q1 c' d"
proof -
  obtain ps ps' where ps: "cs_on a t (flat ps)" "cs_pieces a ps" "known p (flat ps)" "cs_on a' t (flat ps')"
    "cs_pieces a' ps'" "known q (flat ps')" "list_all2 (unitAlike p q) (full t ps) (full t ps')" using a by (rule sameChangeE)
  obtain qs qs' where qs: "cs_on b t (flat qs)" "cs_pieces b qs" "known p (flat qs)" "cs_on b' t (flat qs')"
    "cs_pieces b' qs'" "known q (flat qs')" "list_all2 (unitAlike p q) (full t qs) (full t qs')" using b by (rule sameChangeE)
  have solid: "solid ps" "solid qs" "solid ps'" "solid qs'"
    using ps(2,5) qs(2,5) pieces_solid by (auto simp: cs_pieces_def split: sum.splits)
  have res: "result t (flat ps) = d" "result t (flat ps') = d"
    using applyToText_result [OF ps(1)] applyToText_result [OF ps(4)] sameChange_text [OF a] d by simp_all
  have run: "\<exists>c p1 gs r. followIn x y ro w = Inr (c, p1) \<and> pool_le w p1 \<and> known p1 gs \<and> no_NoOp gs \<and> c = packed d gs \<and>
      d = src gs @ r \<and> fols (firstIns (insFirst w) ro) noAtt (full t us) (full t vs) (erase gs @ run Keep [] r)"
    if h: "pool_wf w" "cs_on x t (flat us)" "cs_pieces x us" "known w (flat us)" "cs_on y t (flat vs)" "cs_pieces y vs"
      "known w (flat vs)" "solid us" "solid vs" "result t (flat us) = d" for x y w us vs
  proof -
    from follow_script [OF h(2,3,5,6) h(1,4,7), of ro] obtain c p1 gs where
      f: "follow x y ro (Some w) = Inr (c, Some p1)" "pool_le w p1" "fols (firstIns (insFirst w) ro) (attF p1) us vs gs"
      "known p1 gs" "no_NoOp gs" "c = packed (result t (flat us)) gs" by blast
    obtain r1 where r1: "t = src (flat us) @ r1" "full t us = units us @ keeps r1" using full_text [OF h(2)] by blast
    obtain r2 where r2: "t = src (flat vs) @ r2" "full t vs = units vs @ keeps r2" using full_text [OF h(5)] by blast
    have "src (flat us) @ r1 = src (flat vs) @ r2" using r1(1) r2(1) by simp
    from fols_units [OF f(3) h(8,9) this] obtain r3 where r3: "dst (flat us) @ r1 = src gs @ r3"
      "fols (firstIns (insFirst w) ro) noAtt (units us @ keeps r1) (units vs @ keeps r2) (erase gs @ run Keep [] r3)" by blast
    have "d = dst (flat us) @ r1" using h(10) r1(1) by simp
    with f r1(2) r2(2) r3 h(10) show ?thesis by (auto simp: followIn_def)
  qed
  obtain c p1 gs r where g: "followIn a b ro p = Inr (c, p1)" "pool_le p p1" "known p1 gs" "no_NoOp gs" "c = packed d gs"
    "d = src gs @ r" "fols (firstIns (insFirst p) ro) noAtt (full t ps) (full t qs) (erase gs @ run Keep [] r)"
    using run [OF wf(1) ps(1-3) qs(1-3) solid(1,2) res(1)] by blast
  obtain c' q1 gs' r' where g': "followIn a' b' ro q = Inr (c', q1)" "pool_le q q1" "known q1 gs'" "no_NoOp gs'" "c' = packed d gs'"
    "d = src gs' @ r'" "fols (firstIns (insFirst q) ro) noAtt (full t ps') (full t qs') (erase gs' @ run Keep [] r')"
    using run [OF wf(2) ps(4-6) qs(4-6) solid(3,4) res(2)] by blast
  have "list_all2 (editAlike p q) (erase gs @ run Keep [] r) (erase gs' @ run Keep [] r')"
    by (rule fols_alike [OF g(7) g'(7) ps(7) qs(7)]) (rule firstIns_alike [OF wf])
  then have e: "list_all2 (editAlike p1 q1) (erase gs @ run Keep [] r) (erase gs' @ run Keep [] r')"
    by (rule list.rel_mono_strong) (rule editAlike_le [OF g(2) g'(2)])
  have ok: "script_ok (erase gs @ run Keep [] r)" "script_ok (erase gs' @ run Keep [] r')"
    using erase_ok known_script_ok g(3,4) g'(3,4) by blast+
  have u: "list_all2 (unitAlike p1 q1) (scriptUnits (erase gs @ run Keep [] r)) (scriptUnits (erase gs' @ run Keep [] r'))"
    by (rule scriptUnits_alike [OF pool_le_wf [OF g(2)] pool_le_wf [OF g'(2)] e ok])
  obtain us where us: "cs_on c d (flat us)" "cs_pieces c us" "known p1 (flat us)" "full d us = scriptUnits (erase gs @ run Keep [] r)"
    using packed_units [OF g(4,3,6)] g(5) by blast
  obtain vs where vs: "cs_on c' d (flat vs)" "cs_pieces c' vs" "known q1 (flat vs)" "full d vs = scriptUnits (erase gs' @ run Keep [] r')"
    using packed_units [OF g'(4,3,6)] g'(5) by blast
  have "sameChange p1 c q1 c' d" unfolding sameChange_def using us vs u by metis
  with g(1,2) g'(1,2) show ?thesis by blast
qed

subsection \<open>A changeset moved to another pool\<close>

text \<open>The attributes of the insertions are written as the code writes them.\<close>

definition numberedIns :: "string \<Rightarrow> bool" where
  "numberedIns c = list_all (\<lambda>o1. opcode o1 = Ins \<longrightarrow> numbered (attribs o1)) (csOps c)"

definition pieceAlike :: "pool \<Rightarrow> pool \<Rightarrow> piece \<Rightarrow> piece \<Rightarrow> bool" where
  "pieceAlike p q u v = (case (u, v) of ((k, a, x), (l, b, y)) \<Rightarrow> k = l \<and> x = y \<and> (k = Ins \<longrightarrow> alike p q a b))"

lemma pieceAlike_simp [simp]: "pieceAlike p q (k, a, x) (l, b, y) = (k = l \<and> x = y \<and> (k = Ins \<longrightarrow> alike p q a b))"
  by (simp add: pieceAlike_def)

lemma units_pieceAlike: "list_all2 (pieceAlike p q) ps ps' \<Longrightarrow> list_all2 (unitAlike p q) (units ps) (units ps')"
proof (induction rule: list_all2_induct)
  case (Cons u ps v ps')
  obtain k a x where u: "u = (k, a, x)" by (cases u)
  then obtain b where v: "v = (k, b, x)" "k = Ins \<longrightarrow> alike p q a b" using Cons(1) by (cases v) (auto simp: pieceAlike_def)
  have "list_all2 (unitAlike p q) (map (\<lambda>c. (k, [], [c])) x) (map (\<lambda>c. (k, [], [c])) x)" if "k \<noteq> Ins"
    using that by (simp add: list_all2_conv_all_nth)
  with u v Cons(3) show ?case by (auto intro!: list_all2_appendI)
qed simp

lemma run_same:
  "list_all2 (sameEdit p q) (run k a x @ es) (run k b y @ fs) \<Longrightarrow> length x = length y \<Longrightarrow>
   x = y \<and> list_all2 (sameEdit p q) es fs"
  by (induction x y rule: list_induct2') (auto simp: run_def sameEdit_def)

lemma moved_pieces:
  assumes "list_all2 (opRenamed p q) os os'" and "pieces os ps" and "pieces os' ps'"
    and "list_all2 (sameEdit p q) (flat ps) (flat ps')" and "known p (flat ps)"
    and "list_all (\<lambda>o1. opcode o1 = Ins \<longrightarrow> numbered (attribs o1)) os"
  shows "list_all2 (pieceAlike p q) ps ps'"
  using assms
proof (induction os os' arbitrary: ps ps' rule: list_all2_induct)
  case (Cons o1 os o2 os')
  obtain b where b: "o2 = o1\<lparr>attribs := b\<rparr>" "renamed p q (attribs o1) b" using Cons(1) by (auto simp: opRenamed_def)
  obtain x qs where u: "ps = (opcode o1, attribs o1, x) # qs" "fits o1 x" "pieces os qs"
    using Cons.prems(1) by (auto simp: pieces_def list_all2_Cons1 is_piece_def)
  obtain y qs' where v: "ps' = (opcode o1, b, y) # qs'" "fits o2 y" "pieces os' qs'"
    using Cons.prems(2) b(1) by (auto simp: pieces_def list_all2_Cons1 is_piece_def)
  have "length x = length y" using u(2) v(2) b(1) by (simp add: fits_def)
  then have s: "x = y" "list_all2 (sameEdit p q) (flat qs) (flat qs')"
    using run_same [of p q "opcode o1" "attribs o1" x "flat qs" b y "flat qs'"] Cons.prems(3) u(1) v(1) by auto
  have k: "att_known p (attribs o1)" "known p (flat qs)"
    using Cons.prems(4) u(1,2) by (cases x; auto simp: known_def fits_def run_def)+
  have "list_all2 (pieceAlike p q) qs qs'"
    using Cons.IH u(3) v(3) s(2) k(2) Cons.prems(5) by simp
  moreover have "opcode o1 = Ins \<longrightarrow> alike p q (attribs o1) b" using alike_renamed [OF _ k(1) b(2)] Cons.prems(5) by simp
  ultimately show ?case using u(1) v(1) s(1) by simp
qed (simp add: pieces_def)

lemma csOps_pieces: "cs_on c t es \<Longrightarrow> cs_pieces c ps \<Longrightarrow> pieces (csOps c) ps"
  by (auto simp: cs_on_def cs_pieces_def csOps_def split: sum.splits)

lemma same_moved:
  assumes o: "sameOps p q c c'" and c: "cs_on c t es" "known p es" and c': "cs_on c' t fs"
    and e: "list_all2 (sameEdit p q) es fs" and n: "numberedIns c"
  shows "sameChange p c q c' t"
proof -
  obtain ps where ps: "cs_pieces c ps" "es = flat ps" using cs_on_pieces [OF c(1)] by blast
  obtain ps' where ps': "cs_pieces c' ps'" "fs = flat ps'" using cs_on_pieces [OF c'] by blast
  have "list_all2 (pieceAlike p q) ps ps'"
    by (rule moved_pieces [OF o [unfolded sameOps_def] csOps_pieces [OF c(1) ps(1)] csOps_pieces [OF c' ps'(1)]])
      (use e c(2) ps(2) ps'(2) n in \<open>simp_all add: numberedIns_def\<close>)
  moreover have "length (src (flat ps')) = length (src (flat ps))" using sameEdit_text [OF e] ps(2) ps'(2) by simp
  ultimately have "list_all2 (unitAlike p q) (full t ps) (full t ps')"
    by (auto simp: full_def keeps_def list_all2_conv_all_nth [of _ "map _ _"] intro!: list_all2_appendI units_pieceAlike)
  then show ?thesis using c c' ps ps' sameEdit_known [OF e] unfolding sameChange_def by blast
qed

lemma unitAlike_sym: "unitAlike p q u v \<Longrightarrow> unitAlike q p v u"
  by (cases u; cases v) (auto simp: alike_sym split: if_splits)

lemma sameChange_sym:
  assumes "sameChange p c q c' t"
  shows "sameChange q c' p c t"
proof -
  obtain ps ps' where ps: "cs_on c t (flat ps)" "cs_pieces c ps" "known p (flat ps)" "cs_on c' t (flat ps')"
    "cs_pieces c' ps'" "known q (flat ps')" "list_all2 (unitAlike p q) (full t ps) (full t ps')"
    using assms by (rule sameChangeE)
  have "list_all2 (unitAlike q p) (full t ps') (full t ps)"
    using ps(7) unitAlike_sym by (simp add: list_all2_conv_all_nth)
  with ps show ?thesis unfolding sameChange_def by blast
qed

subsection \<open>Pools in between\<close>

lemma renamed_trans:
  "renamed p w a b \<Longrightarrow> renamed j q b c \<Longrightarrow> (\<And>x. att_pairs j x = att_pairs w x) \<Longrightarrow> renamed p q a c"
  by (simp add: renamed_def)

lemma sameEdit_trans:
  assumes "list_all2 (sameEdit p w) es fs" "list_all2 (sameEdit j q) fs gs" and "\<And>x. att_pairs j x = att_pairs w x"
  shows "list_all2 (sameEdit p q) es gs"
  by (rule list_all2_trans [OF _ assms(1,2)]) (auto simp: sameEdit_def renamed_trans [OF _ _ assms(3)])

lemma sameOps_trans:
  assumes "sameOps p w a b" "sameOps j q b c" and "\<And>x. att_pairs j x = att_pairs w x"
  shows "sameOps p q a c"
  unfolding sameOps_def
  by (rule list_all2_trans [OF _ assms(1,2) [unfolded sameOps_def]])
    (auto simp: opRenamed_def renamed_trans [OF _ _ assms(3)])

text \<open>A change that came over the wire, in its pool or from it through JSON, is the sender's.\<close>

lemma overWire:
  assumes s: "cs_on c t es" "known p es" "sameOps p w c cw" "list_all2 (sameEdit p w) es fs" "cs_on cw t fs"
    and n: "numberedIns c" and w: "canonical cw" and q: "pool_wf q"
  shows "\<exists>c' q'. moveOpsToNewPool cw (fromJsonable (toJsonable w)) q = Inr (c', q') \<and> pool_le q q' \<and> sameChange p c q' c' t"
proof -
  let ?j = "fromJsonable (toJsonable w)"
  have j: "att_known ?j a = att_known w a" "att_pairs ?j a = att_pairs w a" for a
    by (simp_all add: att_known_def att_pairs_def json_getAttrib)
  then have k: "known ?j fs" using sameEdit_known [OF s(4)] by (simp add: known_def)
  obtain c' q' gs where m: "moveOpsToNewPool cw ?j q = Inr (c', q')" "pool_le q q'" "cs_on c' t gs"
    "list_all2 (sameEdit ?j q') fs gs" "sameOps ?j q' cw c'"
    using moveOpsToNewPool_script [OF w s(5) k q] by blast
  have "sameChange p c q' c' t"
    by (rule same_moved [OF sameOps_trans [OF s(3) m(5) j(2)] s(1,2) m(3) sameEdit_trans [OF s(4) m(4) j(2)] n])
  with m show ?thesis by blast
qed

end
