(* ===== verification/InFlight.thy ===== *)
theory InFlight
  imports ClientServer CrossFollow
begin

text \<open>
  A client whose change is on its way: whatever revisions reach it first, what it has submitted stays, up to
  the numbers of the attributes, the change the server is rebasing; the acknowledgement then brings its base
  text to the server's.
\<close>

subsection \<open>A client whose change is in flight\<close>

lemma denotes_known: "denotes os es \<Longrightarrow> list_all (opKnown p) os \<Longrightarrow> known p es"
proof (induction os arbitrary: es)
  case (Cons o1 os)
  from Cons.prems(1) obtain xs ys where e: "es = xs @ ys" "covers o1 xs" "denotes os ys" by (rule denotes_ConsE)
  then have "known p ys" using Cons by simp
  moreover have "known p xs" using e(2) Cons.prems(2) by (auto simp: known_def covers_def opKnown_def lexable_def list_all_iff)
  ultimately show ?case by (simp add: e(1) known_def)
qed (simp add: known_def)

lemma cs_on_known:
  assumes "cs_on c t es" "known p es" "cs_on c t fs"
  shows "known p fs"
proof -
  obtain os where "csOps c = os" "denotes os es" "script_ok es" using assms(1) by (elim cs_onE) (simp add: csOps_def)
  moreover obtain os' where "csOps c = os'" "denotes os' fs" using assms(3) by (elim cs_onE) (simp add: csOps_def)
  ultimately show ?thesis using denotes_opKnown assms(2) denotes_known by blast
qed

lemma sameEdit_ge:
  assumes "pool_le p q" and "known p es" and "list_all2 (sameEdit q w) es fs"
  shows "list_all2 (sameEdit p w) es fs"
  by (rule list.rel_mono_strong [OF assms(3)])
    (use assms(1,2) in \<open>auto simp: sameEdit_def renamed_def known_def list_all_iff att_pairs_le\<close>)

lemma sameOps_ge:
  assumes "pool_le p q" and "cs_on c t es" and "known p es" and "sameOps q w c c'"
  shows "sameOps p w c c'"
proof -
  from assms(2) obtain os where "csOps c = os" "denotes os es" "script_ok es"
    by (elim cs_onE) (simp add: csOps_def)
  with denotes_opKnown assms(3) have "list_all (opKnown p) (csOps c)" by blast
  then show ?thesis
    unfolding sameOps_def
    by (intro list.rel_mono_strong [OF assms(4) [unfolded sameOps_def]])
      (auto simp: opRenamed_def renamed_def opKnown_def list_all_iff att_pairs_le [OF assms(1)])
qed

text \<open>What the client has submitted is, over the server's pool, the change \<open>c\<close>.\<close>

definition inFlight :: "pool \<Rightarrow> string \<Rightarrow> docClient \<Rightarrow> bool" where
  "inFlight p c k = (\<exists>x. tr_submitted (cl_editor k) = Some x \<and>
     sameChange p c (tr_apool (cl_editor k)) x (at_text (tr_base (cl_editor k))))"

lemma carried_follows:
  assumes f: "inFlight p c k" and c: "carried cw (Some (toJsonable w)) (cl_editor k) t" and wf: "pool_wf p" "pool_wf (tr_apool (cl_editor k))"
    and x: "cs_on x d1 es" "known p es" "sameOps p w x cw" "list_all2 (sameEdit p w) es fs" "cs_on cw d1 fs"
      "numberedIns x" "canonical cw"
    and d: "at_text (tr_base (cl_editor k)) = d1" "applyToText x d1 = Inr d2" "at_text (tr_base t) = d2"
  shows "\<exists>c' p'. followIn x c False p = Inr (c', p') \<and> pool_le p p' \<and> (\<exists>y. tr_submitted t = Some y \<and> sameChange p' c' (tr_apool t) y d2)"
proof -
  let ?q = "tr_apool (cl_editor k)"
  obtain S where S: "tr_submitted (cl_editor k) = Some S" "sameChange p c ?q S d1" using f d(1) by (auto simp: inFlight_def)
  obtain x' q' where m: "moveOpsToNewPool cw (fromJsonable (toJsonable w)) ?q = Inr (x', q')" "pool_le ?q q'"
    "sameChange p x q' x' d1" using overWire [OF x wf(2)] by blast
  obtain q2 y q1 where g: "pool_le q' q2" "followIn x' S False q2 = Inr (y, q1)" "pool_le q1 (tr_apool t)" "tr_submitted t = Some y"
    using c m(1) S(1) by (auto simp: carried_def followed_def)
  have le: "pool_le ?q q2" by (rule pool_le_trans [OF m(2) g(1)])
  have "sameChange p x q2 x' d1" "sameChange p c q2 S d1"
    using sameChange_le [OF pool_le_refl [OF wf(1)] g(1) m(3)] sameChange_le [OF pool_le_refl [OF wf(1)] le S(2)] .
  from follow_same [OF wf(1) pool_le_wf [OF g(1)] this d(2), of False] obtain c' p' where
    "followIn x c False p = Inr (c', p')" "pool_le p p'" "sameChange p' c' q1 y d2" using g(2) by auto
  then show ?thesis using sameChange_le [OF pool_le_refl [OF pool_le_wf] g(3)] g(4) by blast
qed

lemma receive_inFlight:
  assumes ok: "client_ok k" "cl_socket k \<noteq> None" "atRevision cs k" and f: "inFlight p c k"
    and d: "delivers P cs own sid (cl_rev k + 1) m" and other: "obj_get own (cl_rev k + 1) \<noteq> Some sid"
    and le: "pool_le p0 p" "pool_le p0 P" and x: "applies p0 (cs ! nat (cl_rev k + 1)) (at_text (tr_base (cl_editor k))) d2"
    and n: "numberedIns (cs ! nat (cl_rev k + 1))"
  shows "wp (socketMessage docEditor (Collab m)) (\<lambda>_ k'. client_ok k' \<and> cl_socket k' = cl_socket k \<and> atRevision cs k' \<and>
    cl_rev k' = cl_rev k + 1 \<and> cl_state k' = cl_state k \<and> at_text (tr_base (cl_editor k')) = d2 \<and>
    (\<exists>c' p'. followIn (cs ! nat (cl_rev k + 1)) c False p = Inr (c', p') \<and> pool_le p p' \<and> inFlight p' c' k')) k"
proof -
  let ?x = "cs ! nat (cl_rev k + 1)"
  obtain cw w a d1 d2' es fs where m: "m = NEW_CHANGES (cl_rev k + 1) cw w a" "applies w cw d1 d2'"
    "ot.path P (take (nat (cl_rev k + 1)) cs) [nl] d1" "ot.path P (take (Suc (nat (cl_rev k + 1))) cs) [nl] d2'"
    "cs_on ?x d1 es" "cs_on cw d1 fs" "list_all2 (sameEdit P w) es fs" "sameOps P w ?x cw"
    using d other by (auto simp: delivers_def)
  have "- 1 \<le> cl_rev k" using ok(3) by (simp add: atRevision_def)
  then have r: "nat (cl_rev k + 1 + 1) = Suc (nat (cl_rev k + 1))" by arith
  have b: "at_text (tr_base (cl_editor k)) = d1" using path_replay [OF m(3)] ok(3) by (simp add: atRevision_def)
  obtain es' where "cs_on ?x d1 es'" "known p0 es'" using x b by (auto simp: applies_def)
  then have k0: "known p0 es" using cs_on_known m(5) by blast
  have e: "list_all2 (sameEdit p w) es fs" by (rule sameEdit_le [OF le(1) k0 sameEdit_ge [OF le(2) k0 m(7)]])
  have o: "sameOps p w ?x cw" by (rule sameOps_le [OF le(1) m(5) k0 sameOps_ge [OF le(2) m(5) k0 m(8)]])
  have t: "applyToText ?x d1 = Inr d2" using applies_text [OF x] b by simp
  have "d2' = d2"
    using applies_text [OF m(2)] t sameEdit_text [OF m(7)] applyToText_result [OF m(5)] applyToText_result [OF m(6)]
    by (simp add: result_def)
  note m2 = m(2) [unfolded this] and m4 = m(4) [unfolded this]
  have can: "canonical cw" using m(2) by (simp add: applies_def)
  have wf: "pool_wf (tr_apool (cl_editor k))" using ok(1) by (auto simp: client_ok_def consistent_def)
  have "wp (handleMessageFromServer docEditor (Collab m)) (\<lambda>_ k'. client_ok k' \<and> cl_socket k' = cl_socket k \<and> atRevision cs k' \<and>
    cl_rev k' = cl_rev k + 1 \<and> cl_state k' = cl_state k \<and> at_text (tr_base (cl_editor k')) = d2 \<and>
    (\<exists>c' p'. followIn ?x c False p = Inr (c', p') \<and> pool_le p p' \<and> inFlight p' c' k')) k"
    unfolding m(1)
  proof (rule wp_mono [OF newChanges_wp [OF ok(1,2) m2 [folded b] refl]], elim exE conjE)
    fix y :: unit and k' :: docClient and t
    assume k': "k' = k\<lparr>cl_rev := cl_rev k + 1, cl_editor := t\<rparr>" "client_ok k'" "at_text (tr_base t) = d2"
      "carried cw (Some (toJsonable w)) (cl_editor k) t"
    obtain c' p' where "followIn ?x c False p = Inr (c', p')" "pool_le p p'"
      "\<exists>y. tr_submitted t = Some y \<and> sameChange p' c' (tr_apool t) y d2"
      using carried_follows [OF f k'(4) pool_le_wf [OF le(1)] wf m(5) known_le [OF le(1) k0] o e m(6) n can b _ k'(3)]
        t by blast
    with k' r path_replay [OF m4] ok(3) show "client_ok k' \<and> cl_socket k' = cl_socket k \<and> atRevision cs k' \<and>
      cl_rev k' = cl_rev k + 1 \<and> cl_state k' = cl_state k \<and> at_text (tr_base (cl_editor k')) = d2 \<and>
      (\<exists>c' p'. followIn ?x c False p = Inr (c', p') \<and> pool_le p p' \<and> inFlight p' c' k')"
      by (auto simp: atRevision_def inFlight_def)
  qed
  then show ?thesis unfolding socketMessage_def wrapRecordingErrors_def by (rule wp_catch)
qed

text \<open>Revision after revision, the client does what the server did.\<close>

lemma receiveAll_inFlight:
  assumes "client_ok k" "cl_socket k \<noteq> None" "atRevision cs k" and "inFlight p c k"
    and "list_all2 (delivers P cs own sid) [cl_rev k + 1 .. h] ms" and "cl_rev k \<le> h" "h < int (length cs)"
    and "\<forall>r \<in> {cl_rev k + 1 .. h}. obj_get own r \<noteq> Some sid"
    and "pool_le p0 p" "pool_le p0 P" and "ot.path p0 (map (\<lambda>r. cs ! nat r) [cl_rev k + 1 .. h]) (at_text (tr_base (cl_editor k))) d"
    and "\<forall>r \<in> {cl_rev k + 1 .. h}. numberedIns (cs ! nat r)"
    and "ot.rebased (map (\<lambda>r. cs ! nat r) [cl_rev k + 1 .. h]) False c p = Inr (c', q)"
  shows "wp (forA (\<lambda>m. socketMessage docEditor (Collab m)) ms) (\<lambda>_ k'. client_ok k' \<and> cl_socket k' = cl_socket k \<and>
    cl_rev k' = h \<and> cl_state k' = cl_state k \<and> at_text (tr_base (cl_editor k')) = d \<and> inFlight q c' k') k"
  using assms
proof (induction ms arbitrary: k c p)
  case Nil
  then have h: "cl_rev k = h" by (cases "cl_rev k + 1 \<le> h") (auto simp: upto.simps)
  then have "[cl_rev k + 1 .. h] = []" by simp
  with Nil h show ?case by (simp add: wps)
next
  case (Cons m ms)
  from Cons.prems(5) have le: "cl_rev k + 1 \<le> h" by (cases "cl_rev k + 1 \<le> h") auto
  then have up: "[cl_rev k + 1 .. h] = (cl_rev k + 1) # [cl_rev k + 1 + 1 .. h]" by (simp add: upto_rec1)
  let ?x = "cs ! nat (cl_rev k + 1)"
  have d: "delivers P cs own sid (cl_rev k + 1) m" "list_all2 (delivers P cs own sid) [cl_rev k + 1 + 1 .. h] ms"
    using Cons.prems(5) unfolding up by simp_all
  have o: "obj_get own (cl_rev k + 1) \<noteq> Some sid" using Cons.prems(8) le by simp
  obtain d2 where d2: "applies p0 ?x (at_text (tr_base (cl_editor k))) d2"
    "ot.path p0 (map (\<lambda>r. cs ! nat r) [cl_rev k + 1 + 1 .. h]) d2 d" using Cons.prems(11) unfolding up by auto
  have n: "numberedIns ?x" using Cons.prems(12) le by simp
  show ?case
    unfolding forA.simps wp_then
  proof (rule wp_mono [OF receive_inFlight [OF Cons.prems(1-4) d(1) o Cons.prems(9,10) d2(1) n]], elim conjE exE)
    fix y :: unit and k1 :: docClient and c1 p1
    assume k1: "client_ok k1" "cl_socket k1 = cl_socket k" "atRevision cs k1" "cl_rev k1 = cl_rev k + 1"
      "cl_state k1 = cl_state k" "at_text (tr_base (cl_editor k1)) = d2"
      "followIn ?x c False p = Inr (c1, p1)" "pool_le p p1" "inFlight p1 c1 k1"
    note up1 = k1(4) [symmetric]
    have 1: "cl_socket k1 \<noteq> None" using Cons.prems(2) k1(2) by simp
    have 2: "list_all2 (delivers P cs own sid) [cl_rev k1 + 1 .. h] ms" using d(2) unfolding up1 .
    have 3: "cl_rev k1 \<le> h" using le k1(4) by simp
    have 4: "\<forall>r \<in> {cl_rev k1 + 1 .. h}. obj_get own r \<noteq> Some sid" using Cons.prems(8) k1(4) by simp
    have 5: "pool_le p0 p1" by (rule pool_le_trans [OF Cons.prems(9) k1(8)])
    have 6: "ot.path p0 (map (\<lambda>r. cs ! nat r) [cl_rev k1 + 1 .. h]) (at_text (tr_base (cl_editor k1))) d"
      using d2(2) unfolding up1 k1(6) .
    have 7: "ot.rebased (map (\<lambda>r. cs ! nat r) [cl_rev k1 + 1 .. h]) False c1 p1 = Inr (c', q)"
    proof -
      have "ot.rebased (map (\<lambda>r. cs ! nat r) [cl_rev k + 1 + 1 .. h]) False c1 p1 = Inr (c', q)"
        using Cons.prems(13) k1(7) unfolding up by simp
      then show ?thesis unfolding up1 .
    qed
    have 8: "\<forall>r \<in> {cl_rev k1 + 1 .. h}. numberedIns (cs ! nat r)" using Cons.prems(12) k1(4) by simp
    show "wp (forA (\<lambda>m. socketMessage docEditor (Collab m)) ms) (\<lambda>_ k'. client_ok k' \<and> cl_socket k' = cl_socket k \<and>
      cl_rev k' = h \<and> cl_state k' = cl_state k \<and> at_text (tr_base (cl_editor k')) = d \<and> inFlight q c' k') k1"
      using Cons.IH [OF k1(1) 1 k1(3,9) 2 3 Cons.prems(7) 4 5 Cons.prems(10) 6 8 7] unfolding k1(2,5) .
  qed
qed

subsection \<open>The acknowledgement\<close>

definition settled :: "string \<Rightarrow> int \<Rightarrow> docClient \<Rightarrow> bool" where
  "settled b r k = (at_text (tr_base (cl_editor k)) = b \<and> cl_rev k = r)"

lemma prepare_base: "prepareUserChangeset s = (r, s') \<Longrightarrow> tr_base s' = tr_base s"
  by (auto simp: prepareUserChangeset_def bindA_def thenA_def getA_def liftA_def modA_def
        ret_def withPool_def split: prod.splits sum.splits option.splits if_splits)

lemma settled_page: "preserves (settled b r) (callPage x)"
  unfolding callPage_def by (intro pres calm) (simp add: settled_def)

lemma settled_mods:
  "preserves (settled b r) (setTimeout t n)" "preserves (settled b r) (muteSocket sid)"
  "preserves (settled b r) (modA (\<lambda>s. s\<lparr>cl_socket := y\<rparr>))"
  unfolding setTimeout_def muteSocket_def by (rule preserves_mod, simp add: settled_def)+

lemma settled_prepare: "preserves (settled b r) (onEditor prepareUserChangeset)"
  by (auto simp: preserves_def settled_def onEditor_def dest!: prepare_base split: prod.split)

lemma settled_socket: "preserves (settled b r) (onSocket f)"
  unfolding onSocket_def by (intro pres calm settled_page)

lemma settled_abandon: "preserves (settled b r) (abandonConnection reason)"
  unfolding abandonConnection_def setChannelState_def
  by (intro pres calm settled_page settled_mods) (simp add: settled_def)

lemma settled_commit: "preserves (settled b r) commitUserChanges"
  unfolding commitUserChanges_def client_sendMessage_def
  by (intro pres calm settled_page settled_mods settled_socket settled_prepare) (simp add: settled_def)

lemma settled_handle: "preserves (settled b r) client_handleUserChanges"
  unfolding client_handleUserChanges_def
  by (intro pres calm settled_page settled_mods settled_socket settled_abandon settled_commit) (simp add: settled_def)

lemma settled_idle: "preserves (settled b r) setStateIdle"
  unfolding setStateIdle_def schedulePerhapsCallIdleFuncs_def
  by (intro pres settled_page settled_mods) (simp add: settled_def)

lemma settled_catching: "preserves (settled b r) f \<Longrightarrow> preserves (settled b r) (wrapRecordingErrors c f)"
  unfolding wrapRecordingErrors_def by (intro pres calm) (simp_all add: settled_def)

lemma settled_call: "preserves (settled b r) f \<Longrightarrow> preserves (settled b r) (callCatchingErrors c f)"
  unfolding callCatchingErrors_def by (intro pres settled_catching)

lemma act_get: "bindA (getA f) g s = g (f s) s"
  by (simp add: bindA_def getA_def)

lemma act_mod: "thenA (modA f) g s = g (f s)"
  by (simp add: thenA_def bindA_def modA_def)

lemma act_then: "m s = (Inr x, s') \<Longrightarrow> thenA m n s = n s'"
  by (simp add: thenA_def bindA_def)

text \<open>
  The acknowledgement of what is in flight, whatever the page's callbacks do: the base text is the one the
  server has.
\<close>

lemma acknowledged:
  assumes ok: "client_ok k" "cl_socket k \<noteq> None" and f: "inFlight p c k" and n: "n = cl_rev k + 1"
    and d: "applyToText c (at_text (tr_base (cl_editor k))) = Inr d'"
  shows "settled d' n (snd (socketMessage docEditor (Collab (ACCEPT_COMMIT n)) k))"
proof -
  obtain x where x: "tr_submitted (cl_editor k) = Some x" "applyToText x (at_text (tr_base (cl_editor k))) = Inr d'"
    using f d sameChange_text by (fastforce simp: inFlight_def)
  have "consistent (cl_editor k) (dt_doc (cl_editor k))" using ok(1) by (simp add: client_ok_def)
  from wp_returns [OF applyPrepared_wp [OF this]] obtain t where
    t: "applyPreparedChangesetToBase (cl_editor k) = (Inr (), t)" "pending (cl_editor k) (at_text (tr_base t))" using x(1) by auto
  then have b: "at_text (tr_base t) = d'" using x applies_text by (fastforce simp: pending_def)
  let ?rest = "thenA setStateIdle
       (bindA (callCatchingErrors ''onInternalAction'' (callPage (InternalAction ''commitAcceptedByServer''))) (\<lambda>_.
        bindA (callCatchingErrors ''onConnectionTrouble'' (callPage (ConnectionTrouble ''OK''))) (\<lambda>_.
        client_handleUserChanges)))"
  let ?k = "k\<lparr>cl_rev := n, cl_editor := t\<rparr>"
  have rest: "preserves (settled d' n) ?rest"
    by (intro pres settled_idle settled_call settled_page settled_handle)
  have start: "handleMessageFromServer docEditor (Collab (ACCEPT_COMMIT n)) k = ?rest ?k"
  proof -
    have "thenA (onEditor applyPreparedChangesetToBase) ?rest (k\<lparr>cl_rev := n\<rparr>) = ?rest ?k"
      by (rule act_then) (simp add: onEditor_def t(1))
    then show ?thesis using ok(2) n by (auto simp: handleMessageFromServer_def acceptCommit_def nextRevision_def act_get act_mod)
  qed
  have "socketMessage docEditor (Collab (ACCEPT_COMMIT n)) k = wrapRecordingErrors ''socket.onmessage'' ?rest ?k"
    by (simp add: socketMessage_def wrapRecordingErrors_def catchA_def start)
  moreover have "settled d' n ?k" using b by (simp add: settled_def)
  ultimately show ?thesis using settled_catching [OF rest] by (simp add: preserves_def)
qed

end
