(* ===== verification/Agreement.thy ===== *)
theory Agreement
  imports InFlight
begin

text \<open>
  A commit from end to end: the client's message, the server's merge, what it sends, and what the client makes
  of it.
\<close>

subsection \<open>Both sides\<close>

text \<open>A step of the server that leaves rooms and connections, and sends nothing.\<close>

definition silent :: "serverState \<Rightarrow> serverState \<Rightarrow> bool" where
  "silent s s' = (sv_rooms s' = sv_rooms s \<and> sv_allConnections s' = sv_allConnections s \<and>
     sv_attributes s' = sv_attributes s \<and> sv_comet s' = sv_comet s \<and> sv_env s' = sv_env s)"

lemma silent_rooms:
  assumes "silent s t"
  shows "roomMembers t n = roomMembers s n" "skeleton t = skeleton s" "sv_rooms t = sv_rooms s" "sv_env t = sv_env s"
    "sv_comet t = sv_comet s"
  using assms by (simp_all add: silent_def roomMembers_def skeleton_def member_def fun_eq_iff cong: option.case_cong)

lemma silent_onPad: "preserves (silent s) (onPad padId f)"
  by (simp add: preserves_def silent_def onPad_def split: prod.split)

lemma silent_call: "preserves (silent s) (serverCall x)"
  unfolding serverCall_def by (intro pres) (simp add: silent_def)

lemma preserves_foldA: "(\<And>x a. preserves I (f x a)) \<Longrightarrow> preserves I (foldA f xs a)"
  by (induction xs arbitrary: a) (auto intro: pres)

lemma silent_sockets:
  "preserves (silent s) (getPadRevisionSockets padId)" "preserves (silent s) (setRevisionSocket padId r sid)"
  unfolding setRevisionSocket_def getPadRevisionSockets_def
  by (intro pres silent_onPad calm_option)+

lemma silent_author: "preserves (silent s) (changeAuthor sid a)"
  unfolding changeAuthor_def getSocketConnectionId_def getConnection_def by (intro pres)

lemma silent_merge: "preserves (silent s) (mergeUserChanges padId r c sid a)"
  unfolding mergeUserChanges_def rebaseOver_def commitChanges_def
  by (intro pres preserves_foldA silent_onPad silent_author silent_call silent_sockets)

lemma adopt_wp:
  assumes ok: "pad_ok (sv_pads s padId) cs d"
    and m: "moveOpsToNewPool c w (poolView (sv_pads s padId)) = Inr (c', q)" "pool_le (poolView (sv_pads s padId)) q"
  shows "wp (onPad padId (adoptChangesetAttribs c w)) (\<lambda>x s'. x = c' \<and> silent s s' \<and> pad_ok (sv_pads s' padId) cs d \<and>
    poolView (sv_pads s' padId) = q \<and> sockets (sv_pads s' padId) = sockets (sv_pads s padId)) s"
proof -
  let ?t = "(sv_pads s padId)\<lparr>pd_apool := Some q\<rparr>"
  have "grows (sv_pads s padId) ?t" using ok m(2) by (intro pool_grows) (auto simp: pad_ok_def)
  from pad_ok_grows [OF ok this] have "pad_ok ?t cs d" .
  then show ?thesis
    unfolding adoptChangesetAttribs_def wp_onPad
    by (subst wp_withPadPool [where x = c' and q = q]) (simp_all add: m(1) silent_def views sockets_def)
qed

text \<open>The client takes in one message after the other, whatever its page makes of them.\<close>

primrec received :: "message list \<Rightarrow> docClient \<Rightarrow> docClient" where
  "received [] k = k"
| "received (m # ms) k = received ms (snd (socketMessage docEditor (Collab m) k))"

lemma received_all: "forA (\<lambda>m. socketMessage docEditor (Collab m)) ms k = (Inr (), k') \<Longrightarrow> received (ms @ ns) k = received ns k'"
  by (induction ms arbitrary: k) (auto simp: thenA_def bindA_def ret_def split: prod.splits sum.splits)

lemma upto_snoc: "a \<le> b \<Longrightarrow> [a .. b] = [a .. b - 1] @ [b]"
  using upto_rec2 by blast

text \<open>The messages to a client whose change was merged: the revisions it has not seen, and the acknowledgement.\<close>

lemma own_messages:
  assumes "list_all2 (delivers P (cs @ [c']) own sid) [b + 1 .. int (length cs)] ms" and "b < int (length cs)" "- 1 \<le> b"
    and "obj_get own (int (length cs)) = Some sid"
  obtains ns where "ms = ns @ [ACCEPT_COMMIT (int (length cs))]"
    "list_all2 (delivers P (cs @ [c']) own sid) [b + 1 .. int (length cs) - 1] ns"
proof -
  from assms(2) have "[b + 1 .. int (length cs)] = [b + 1 .. int (length cs) - 1] @ [int (length cs)]"
    by (intro upto_snoc) simp
  with assms(1) obtain ns m where m: "ms = ns @ [m]" "list_all2 (delivers P (cs @ [c']) own sid) [b + 1 .. int (length cs) - 1] ns"
    "delivers P (cs @ [c']) own sid (int (length cs)) m"
    by (auto simp: list_all2_append1 list_all2_Cons1)
  with assms(4) have "m = ACCEPT_COMMIT (int (length cs))" by (simp add: delivers_def)
  with m(1,2) that show ?thesis by blast
qed

text \<open>What the client has sent, in the server's pool.\<close>

lemma submission_adopted:
  assumes ck: "client_ok k" and wire: "onWire (cl_editor k) cw j" and a: "applies (fromJsonable j) cw (at_text (tr_base (cl_editor k))) m"
    and n: "\<forall>x. tr_submitted (cl_editor k) = Some x \<longrightarrow> numberedIns x" and q: "pool_wf q"
  shows "\<exists>c q'. moveOpsToNewPool cw (fromJsonable j) q = Inr (c, q') \<and> pool_le q q' \<and> inFlight q' c k \<and>
    applies q' c (at_text (tr_base (cl_editor k))) m"
proof -
  let ?p = "tr_apool (cl_editor k)" let ?b = "at_text (tr_base (cl_editor k))"
  obtain x w where x: "tr_submitted (cl_editor k) = Some x" "prepareForWire x ?p = Inr (cw, w)" "j = toJsonable w"
    using wire by (auto simp: onWire_def)
  have "consistent (cl_editor k) (dt_doc (cl_editor k))" using ck by (simp add: client_ok_def)
  then obtain m' where "applies ?p x ?b m'" using x(1) by (auto simp: consistent_def pending_def)
  then obtain es where es: "canonical x" "cs_on x ?b es" "known ?p es" by (auto simp: applies_def)
  obtain fs where fs: "canonical cw" "cs_on cw ?b fs" "list_all2 (sameEdit ?p w) es fs" "sameOps ?p w x cw"
    using moveOpsToNewPool_script [OF es pool_wf_empty] x(2) unfolding prepareForWire_def by auto
  have "numberedIns x" using n x(1) by simp
  from overWire [OF es(2,3) fs(4,3,2) this fs(1) q] obtain c q' where
    c: "moveOpsToNewPool cw (fromJsonable j) q = Inr (c, q')" "pool_le q q'" "sameChange ?p x q' c ?b" using x(3) by auto
  moreover have "applies q' c ?b m" using moveOpsToNewPool_applies [OF a q] c(1) by auto
  ultimately show ?thesis using x(1) sameChange_sym [OF c(3)] by (auto simp: inFlight_def)
qed

text \<open>
  The server's part: a change in the pad's pool is merged, and its sender gets the revisions he has not seen
  and the acknowledgement.
\<close>

lemma server_commits:
  assumes server: "pad_ok (sv_pads s padId) cs d" "rooms_ok (skeleton s)" "- 1 \<le> baseRev" "baseRev < int (length cs)"
      "\<forall>c \<in> set (roomMembers s (padIdToRoom padId)). \<forall>r. cd_lastRev (cn_data c) = Some r \<longrightarrow> - 1 \<le> r"
      "obj_get (sv_rooms s) (viewIdToRoom padId) = None"
      "obj_get (sv_rooms s) (viewIdToRoom (padIdToReadonly (en_nextInt (sv_env s)) padId)) = None"
    and conn: "c \<in> set (roomMembers s (padIdToRoom padId))" "cd_lastRev (cn_data c) = Some baseRev" "cn_socketId c \<noteq> ''''"
    and x: "ot.path (poolView (sv_pads s padId)) (drop (nat (baseRev + 1)) cs) b d" "applies (poolView (sv_pads s padId)) x b m"
  shows "\<exists>s' c' q d' ns. thenA (mergeUserChanges padId baseRev x (Some (cn_socketId c)) None) (updatePadClients padId) s = (Inr (), s') \<and>
    pad_ok (sv_pads s' padId) (cs @ [c']) d' \<and> pool_le (poolView (sv_pads s padId)) (poolView (sv_pads s' padId)) \<and>
    ot.rebased (drop (nat (baseRev + 1)) cs) False x (poolView (sv_pads s padId)) = Inr (c', q) \<and> applies q c' d d' \<and>
    sentTo (cn_socketId c) (sv_comet s') = sentTo (cn_socketId c) (sv_comet s) @ ns @ [ACCEPT_COMMIT (int (length cs))] \<and>
    list_all2 (delivers (poolView (sv_pads s' padId)) (cs @ [c']) (obj_put (sockets (sv_pads s padId)) (int (length cs)) (cn_socketId c))
      (cn_socketId c)) [baseRev + 1 .. int (length cs) - 1] ns"
proof -
  let ?sid = "cn_socketId c" let ?xs = "drop (nat (baseRev + 1)) cs" let ?p = "poolView (sv_pads s padId)"
  obtain c' q d' where c': "ot.rebased ?xs False x ?p = Inr (c', q)" "pool_le ?p q" "applies q c' d d'"
    using sides_meet [OF x, of False] by blast
  obtain author s1 where s1: "mergeUserChanges padId baseRev x (Some ?sid) None s = (Inr (Some author), s1)"
    "committed padId cs c' d' (Some ?sid) s s1"
    using wp_returns [OF mergeUserChanges_ok [OF server(1,3,4) x c', of "Some ?sid" None]] by blast
  have st: "silent s s1" by (rule preservesD [OF silent_merge _ s1(1)]) (simp add: silent_def)
  have ok1: "pad_ok (sv_pads s1 padId) (cs @ [c']) d'" and le1: "pool_le ?p (poolView (sv_pads s1 padId))"
    and own: "sockets (sv_pads s1 padId) = obj_put (sockets (sv_pads s padId)) (int (length cs)) ?sid"
    using s1(2) conn(3) by (auto simp: committed_def truthy_def)
  note rm = silent_rooms [OF st]
  obtain s' where s': "updatePadClients padId s1 = (Inr (), s')" "pad_ok (sv_pads s' padId) (cs @ [c']) d'"
    "pool_le (poolView (sv_pads s1 padId)) (poolView (sv_pads s' padId))" "caughtUp padId (cs @ [c']) s1 s' c"
    using wp_returns [OF updatePadClients_ok [OF ok1, unfolded rm, OF server(2,5-7)]] conn(1) by auto
  obtain ms where ms: "sentTo ?sid (sv_comet s') = sentTo ?sid (sv_comet s) @ ms"
    "list_all2 (delivers (poolView (sv_pads s' padId)) (cs @ [c']) (sockets (sv_pads s1 padId)) ?sid) [baseRev + 1 .. int (length cs)] ms"
    using s'(4) conn(2) rm(5) by (auto simp: caughtUp_def revisionsAfter_def)
  obtain ns where "ms = ns @ [ACCEPT_COMMIT (int (length cs))]"
    "list_all2 (delivers (poolView (sv_pads s' padId)) (cs @ [c']) (sockets (sv_pads s1 padId)) ?sid) [baseRev + 1 .. int (length cs) - 1] ns"
    using own_messages [OF ms(2) server(4,3)] own by auto
  with s1(1) s'(1,2) pool_le_trans [OF le1 s'(3)] c'(1,3) ms(1) own show ?thesis
    by (intro exI [of _ s'] exI [of _ c'] exI [of _ q] exI [of _ d'] exI [of _ ns]) (simp add: thenA_def bindA_def)
qed

text \<open>The client's part: with its submission in flight it takes these messages in.\<close>

lemma client_commits:
  assumes ok: "client_ok k" "cl_socket k \<noteq> None" "atRevision cs k" and f: "inFlight p x k"
    and msgs: "list_all2 (delivers P (cs @ [c']) (obj_put own (int (length cs)) sid) sid) [cl_rev k + 1 .. int (length cs) - 1] ns"
    and r: "cl_rev k < int (length cs)" and others: "\<forall>r. cl_rev k < r \<longrightarrow> obj_get own r \<noteq> Some sid"
    and n: "\<forall>x \<in> set (drop (nat (cl_rev k + 1)) cs). numberedIns x"
    and p: "pool_wf p" "pool_le p P" "ot.path p (drop (nat (cl_rev k + 1)) cs) (at_text (tr_base (cl_editor k))) d"
    and c': "ot.rebased (drop (nat (cl_rev k + 1)) cs) False x p = Inr (c', q)" "applies q c' d d'"
  shows "settled d' (int (length cs)) (received (ns @ [ACCEPT_COMMIT (int (length cs))]) k)"
proof -
  have r1: "- 1 \<le> cl_rev k" using ok(3) by (simp add: atRevision_def)
  have at: "atRevision (cs @ [c']) k" using ok(3) r by (simp add: atRevision_def nat_le_iff)
  have "map (\<lambda>r. (cs @ [c']) ! nat r) [cl_rev k + 1 .. int (length cs) - 1] = map (\<lambda>r. cs ! nat r) [cl_rev k + 1 .. int (length cs) - 1]"
    using r1 by (intro map_cong) (auto simp: nth_append)
  also note upto_drop [OF r1]
  finally have xs: "map (\<lambda>r. (cs @ [c']) ! nat r) [cl_rev k + 1 .. int (length cs) - 1] = drop (nat (cl_rev k + 1)) cs" .
  have n': "\<forall>r \<in> {cl_rev k + 1 .. int (length cs) - 1}. numberedIns ((cs @ [c']) ! nat r)"
    using n [folded xs] by simp
  have o: "\<forall>r \<in> {cl_rev k + 1 .. int (length cs) - 1}. obj_get (obj_put own (int (length cs)) sid) r \<noteq> Some sid"
    using others by simp
  from wp_returns [OF receiveAll_inFlight [OF ok(1,2) at f msgs _ _ o pool_le_refl [OF p(1)] p(2) _ n', where d = d and c' = c' and q = q]]
  obtain k1 where k1: "forA (\<lambda>m. socketMessage docEditor (Collab m)) ns k = (Inr (), k1)" "client_ok k1"
    "cl_socket k1 \<noteq> None" "cl_rev k1 = int (length cs) - 1" "at_text (tr_base (cl_editor k1)) = d" "inFlight q c' k1"
    using r p(3) c'(1) ok(2) xs by auto
  then show ?thesis using acknowledged [OF k1(2,3,6)] applies_text [OF c'(2)] received_all [OF k1(1)] by simp
qed

text \<open>
  C1. A commit goes in on both sides alike: the changes a client sends over the wire are taken into the
  server's pool, merged over the revisions the client had not seen, and every client is brought up to date;
  taking in what the server sends to it, message by message and whatever its page's callbacks do, the client
  ends at the new head revision with the text of the pad as its base text. The client has rebased its
  submission itself, over a pool of its own whose numbers are other than the server's. (The changesets
  rebased over each other have their attributes numbered as the code writes them, \<open>numberedIns\<close>; no
  read-only room is open; the corrections of markers and of the last line that \<open>applyUserChanges\<close> makes
  after the merge are not part of the statement.)
\<close>

theorem commit_agrees:
  assumes client: "clientRun k0" "legitimate k0 e" "clientDo e (k0\<lparr>cl_world := w\<rparr>) = (r, k)"
      "SocketPost sid (Posted (RoomMessage (UserChanges baseRev (Some changeset) apool))) \<in> set (drop (length (cl_calls k0)) (cl_calls k))"
      "atRevision cs k" "cl_socket k \<noteq> None"
    and server: "pad_ok (sv_pads s padId) cs d" "rooms_ok (skeleton s)" "baseRev < int (length cs)"
      "\<forall>c \<in> set (roomMembers s (padIdToRoom padId)). \<forall>r. cd_lastRev (cn_data c) = Some r \<longrightarrow> - 1 \<le> r"
      "obj_get (sv_rooms s) (viewIdToRoom padId) = None"
      "obj_get (sv_rooms s) (viewIdToRoom (padIdToReadonly (en_nextInt (sv_env s)) padId)) = None"
    and conn: "c \<in> set (roomMembers s (padIdToRoom padId))" "cd_lastRev (cn_data c) = Some baseRev" "cn_socketId c \<noteq> ''''"
    and others: "\<forall>r. baseRev < r \<longrightarrow> obj_get (sockets (sv_pads s padId)) r \<noteq> Some (cn_socketId c)"
    and numbers: "\<forall>x \<in> set (drop (nat (baseRev + 1)) cs). numberedIns x"
      "\<forall>x. tr_submitted (cl_editor k) = Some x \<longrightarrow> numberedIns x"
  shows "\<exists>s' c' d' ms. bindA (onPad padId (adoptChangesetAttribs changeset (fromJsonable apool))) (\<lambda>x.
        thenA (mergeUserChanges padId baseRev x (Some (cn_socketId c)) None) (updatePadClients padId)) s = (Inr (), s') \<and>
    pad_ok (sv_pads s' padId) (cs @ [c']) d' \<and>
    sentTo (cn_socketId c) (sv_comet s') = sentTo (cn_socketId c) (sv_comet s) @ ms \<and>
    cl_rev (received ms k) = int (length cs) \<and> at_text (tr_base (cl_editor (received ms k))) = d'"
proof -
  let ?b = "at_text (tr_base (cl_editor k))" let ?xs = "drop (nat (baseRev + 1)) cs"
  have "commits (length (cl_calls k0)) k" by (rule clientDo_commits [OF clientRun_ok [OF client(1)] client(2,3)])
  then have ck: "client_ok k" and rt: "right k (SocketPost sid (Posted (RoomMessage (UserChanges baseRev (Some changeset) apool))))"
    using client(4) by (auto simp: commits_def)
  then have b: "baseRev = cl_rev k" and a: "applies (fromJsonable apool) changeset ?b (dt_doc (cl_editor k))"
    and wire: "onWire (cl_editor k) changeset apool" by (auto simp: right_def userChanges_def)
  obtain x q where m: "moveOpsToNewPool changeset (fromJsonable apool) (poolView (sv_pads s padId)) = Inr (x, q)"
    "pool_le (poolView (sv_pads s padId)) q" "inFlight q x k" "applies q x ?b (dt_doc (cl_editor k))"
    using submission_adopted [OF ck wire a numbers(2) pad_ok_wf [OF server(1)]] by blast
  obtain s1 where s1: "onPad padId (adoptChangesetAttribs changeset (fromJsonable apool)) s = (Inr x, s1)" "silent s s1"
    "pad_ok (sv_pads s1 padId) cs d" "poolView (sv_pads s1 padId) = q" "sockets (sv_pads s1 padId) = sockets (sv_pads s padId)"
    using wp_returns [OF adopt_wp [OF server(1) m(1,2)]] by blast
  note rm = silent_rooms [OF s1(2)]
  have b1: "- 1 \<le> baseRev" using client(5) b by (simp add: atRevision_def)
  have "ot.path q cs [nl] d" using pad_ok_path [OF s1(3)] s1(4) by simp
  then obtain b' where b': "ot.path q (take (nat (baseRev + 1)) cs) [nl] b'" "ot.path q ?xs b' d" using path_prefix by blast
  have "b' = ?b" using path_replay [OF b'(1)] client(5) b by (simp add: atRevision_def)
  note p = b'(2) [unfolded this]
  from server_commits [OF s1(3), unfolded rm s1(4,5), OF server(2) b1 server(3-6) conn p m(4)] obtain s' c' q' d' ns where
    s': "thenA (mergeUserChanges padId baseRev x (Some (cn_socketId c)) None) (updatePadClients padId) s1 = (Inr (), s')"
    "pad_ok (sv_pads s' padId) (cs @ [c']) d'" "pool_le q (poolView (sv_pads s' padId))"
    "ot.rebased ?xs False x q = Inr (c', q')" "applies q' c' d d'"
    "sentTo (cn_socketId c) (sv_comet s') = sentTo (cn_socketId c) (sv_comet s) @ ns @ [ACCEPT_COMMIT (int (length cs))]"
    "list_all2 (delivers (poolView (sv_pads s' padId)) (cs @ [c']) (obj_put (sockets (sv_pads s padId)) (int (length cs)) (cn_socketId c))
      (cn_socketId c)) [baseRev + 1 .. int (length cs) - 1] ns" by blast
  have "settled d' (int (length cs)) (received (ns @ [ACCEPT_COMMIT (int (length cs))]) k)"
    by (rule client_commits [OF ck client(6,5) m(3) s'(7) [unfolded b] _ _ _ applies_wf [OF m(4)] s'(3) p [unfolded b] s'(4) [unfolded b] s'(5)])
      (use server(3) others numbers(1) b in auto)
  with s1(1) s'(1,2,6) show ?thesis
    by (intro exI [of _ s'] exI [of _ c'] exI [of _ d'] exI [of _ "ns @ [ACCEPT_COMMIT (int (length cs))]"])
      (simp add: bindA_def settled_def)
qed

subsection \<open>The sample client\<close>

lemma sample_numbered: "numberedIns ''Z:3>1=1+1$x''" "tr_submitted (cl_editor committing) = Some ''Z:3>1=1+1$x''"
proof -
  have "map (\<lambda>o1. (opcode o1, attribs o1)) (csOps ''Z:3>1=1+1$x'') = [(Keep, []), (Ins, [])]" by code_simp
  then show "numberedIns ''Z:3>1=1+1$x''" by (auto simp: numberedIns_def)
  show "tr_submitted (cl_editor committing) = Some ''Z:3>1=1+1$x''" by code_simp
qed

theorem commit_agrees_witness:
  "\<exists>s' c' d' ms. bindA (onPad ''p'' (adoptChangesetAttribs ''Z:3>1=1+1$x'' (fromJsonable (toJsonable AttribPool)))) (\<lambda>x.
        thenA (mergeUserChanges ''p'' 0 x (Some ''s1'') None) (updatePadClients ''p'')) (lateServer ''s0'') = (Inr (), s') \<and>
    pad_ok (sv_pads s' ''p'') [''Z:1>2+2$ab'', ''Z:3>1=1+1$x'', c'] d' \<and>
    sentTo ''s1'' (sv_comet s') = sentTo ''s1'' (sv_comet (lateServer ''s0'')) @ ms \<and>
    cl_rev (received ms committing) = 2 \<and> at_text (tr_base (cl_editor (received ms committing))) = d'"
proof -
  obtain c where c: "roomMembers (lateServer ''s0'') (padIdToRoom ''p'') = [c]" "cn_socketId c = ''s1''"
    "cd_lastRev (cn_data c) = Some 0" by (rule lateServer_room)
  have s: "clientDo (TimerFires TimerUserChanges) (typing\<lparr>cl_world := sampleWorld\<rparr>) =
      (fst (clientDo (TimerFires TimerUserChanges) (typing\<lparr>cl_world := sampleWorld\<rparr>)), committing)"
    by (simp add: committing_def)
  have l: "legitimate typing (TimerFires TimerUserChanges)" by (simp add: legitimate_def)
  have p: "SocketPost ''s1'' (Posted (RoomMessage (UserChanges 0 (Some ''Z:3>1=1+1$x'') (toJsonable AttribPool)))) \<in>
      set (drop (length (cl_calls typing)) (cl_calls committing))" by (simp add: committing_facts(5))
  have m: "c \<in> set (roomMembers (lateServer ''s0'') (padIdToRoom ''p''))" using c(1) by simp
  have k: "\<forall>c \<in> set (roomMembers (lateServer ''s0'') (padIdToRoom ''p'')). \<forall>r. cd_lastRev (cn_data c) = Some r \<longrightarrow> - 1 \<le> r"
    using c by simp
  have o: "\<forall>r. 0 < r \<longrightarrow> obj_get (sockets (sv_pads (lateServer ''s0'') ''p'')) r \<noteq> Some (cn_socketId c)"
    by (simp add: lateServer_sockets obj_get_def c(2))
  have n: "\<forall>x \<in> set (drop (nat (0 + 1)) [''Z:1>2+2$ab'', ''Z:3>1=1+1$x'']). numberedIns x"
    "\<forall>x. tr_submitted (cl_editor committing) = Some x \<longrightarrow> numberedIns x" using sample_numbered by simp_all
  show ?thesis
    using commit_agrees [OF typing_run l s p committing_at _ lateServer_pad lateServer_rooms _ k lateServer_views m c(3) _ o n]
      c(2) by (simp add: committing_facts(2))
qed

end
