(* ===== verification/LineLaws.thy ===== *)
theory LineLaws
  imports Protocol
begin

text \<open>
  The laws of documents as lines: \<open>textLinesMutator\<close> as a cursor in a list of lines, and \<open>mutateTextLines\<close>
  as \<open>applyToText\<close> on the joined lines.
\<close>

subsection \<open>The mutator as a cursor\<close>

text \<open>
  \<open>cursor m done pre aft\<close>: before the cursor are the lines \<open>done\<close> and the part \<open>pre\<close> of the current line;
  after it the rest of the current line and the further lines, \<open>aft\<close>. A splice in progress has taken the
  place of \<open>mu_del\<close> lines of the array, and the current line is its last or the next after it.
\<close>

definition joined :: "string \<Rightarrow> string list \<Rightarrow> string list" where
  "joined pre aft = (case aft of [] \<Rightarrow> [] | r # rs \<Rightarrow> (pre @ r) # rs)"

definition cursor :: "mutator \<Rightarrow> string list \<Rightarrow> string \<Rightarrow> string list \<Rightarrow> bool" where
  "cursor m don pre aft = (mu_line m = int (length don) \<and> mu_col m = int (length pre) \<and>
     (aft = [] \<longrightarrow> pre = []) \<and> list_all (\<lambda>r. r \<noteq> []) aft \<and>
     (if mu_in m
      then \<exists>a d b ins. mu_lines m = a @ d @ b \<and> mu_start m = int (length a) \<and> mu_del m = int (length d) \<and> don = a @ ins \<and>
        (mu_ins m = ins \<and> pre = [] \<and> aft = b \<or> (\<exists>r. mu_ins m = ins @ [pre @ r] \<and> aft = r # b))
      else mu_start m = 0 \<and> mu_del m = 0 \<and> mu_ins m = [] \<and> mu_lines m = don @ joined pre aft))"

lemma joined_simps [simp]: "joined pre [] = []" "joined pre (r # rs) = (pre @ r) # rs" "joined [] aft = aft"
  by (simp_all add: joined_def split: list.split)

lemma cursor_start: "list_all (\<lambda>r. r \<noteq> []) ls \<Longrightarrow> cursor (textLinesMutator ls) [] [] ls"
  by (simp add: cursor_def textLinesMutator_def)

lemma cursor_inI:
  assumes "mu_in m" "mu_line m = int (length don)" "mu_col m = int (length pre)" "list_all (\<lambda>r. r \<noteq> []) aft"
    "mu_lines m = a @ d @ b" "mu_start m = int (length a)" "mu_del m = int (length d)" "don = a @ ins"
    "mu_ins m = ins \<and> pre = [] \<and> aft = b \<or> (\<exists>r. mu_ins m = ins @ [pre @ r] \<and> aft = r # b)"
  shows "cursor m don pre aft"
proof -
  have "aft = [] \<longrightarrow> pre = []" using assms(9) by auto
  moreover have "\<exists>a d b ins. mu_lines m = a @ d @ b \<and> mu_start m = int (length a) \<and> mu_del m = int (length d) \<and> don = a @ ins \<and>
        (mu_ins m = ins \<and> pre = [] \<and> aft = b \<or> (\<exists>r. mu_ins m = ins @ [pre @ r] \<and> aft = r # b))"
    by (rule exI [of _ a], rule exI [of _ d], rule exI [of _ b], rule exI [of _ ins]) (use assms(5-9) in blast)
  ultimately show ?thesis using assms(1-4) by (simp add: cursor_def)
qed

lemma cursor_inE:
  assumes "cursor m don pre aft" and "mu_in m"
  obtains a d b ins where "mu_line m = int (length don)" "mu_col m = int (length pre)" "list_all (\<lambda>r. r \<noteq> []) aft"
    "mu_lines m = a @ d @ b" "mu_start m = int (length a)" "mu_del m = int (length d)" "don = a @ ins"
    "mu_ins m = ins \<and> pre = [] \<and> aft = b \<or> (\<exists>r. mu_ins m = ins @ [pre @ r] \<and> aft = r # b)"
  using assms unfolding cursor_def by (simp only: if_True) blast

lemma js_nth_append: "n = int (length xs) \<Longrightarrow> js_nth (xs @ y # ys) n = Inr y"
  by (simp add: js_nth_def)

lemma cursor_close: "cursor m don pre aft \<Longrightarrow> mu_lines (mu_close m) = don @ joined pre aft"
  by (auto simp: cursor_def mu_close_def leaveSplice_def lines_applySplice_def js_splice_def split: if_splits)

text \<open>A cursor with the current line in the splice.\<close>

definition placed :: "mutator \<Rightarrow> string list \<Rightarrow> string \<Rightarrow> string list \<Rightarrow> bool" where
  "placed m don pre aft = (mu_in m \<and> mu_line m = int (length don) \<and> mu_col m = int (length pre) \<and> list_all (\<lambda>r. r \<noteq> []) aft \<and>
     (\<exists>a d b ins r. mu_lines m = a @ d @ b \<and> mu_start m = int (length a) \<and> mu_del m = int (length d) \<and> don = a @ ins \<and>
        mu_ins m = ins @ [pre @ r] \<and> aft = r # b))"

lemma placed_cursor: "placed m don pre aft \<Longrightarrow> cursor m don pre aft \<and> mu_in m"
  by (fastforce simp: placed_def cursor_def)

lemma put_placed:
  assumes "cursor m don pre aft" and "mu_in m" and "aft \<noteq> []"
  shows "\<exists>m'. putCurLineInSplice m = Inr (mu_line m - mu_start m, m') \<and> placed m' don pre aft \<and>
    mu_line m' = mu_line m \<and> mu_start m' = mu_start m"
proof -
  obtain a d b ins where m: "mu_line m = int (length don)" "mu_col m = int (length pre)" "list_all (\<lambda>r. r \<noteq> []) aft"
    "mu_lines m = a @ d @ b" "mu_start m = int (length a)" "mu_del m = int (length d)" "don = a @ ins"
    "mu_ins m = ins \<and> pre = [] \<and> aft = b \<or> (\<exists>r. mu_ins m = ins @ [pre @ r] \<and> aft = r # b)"
    using assms(1,2) by (rule cursor_inE)
  show ?thesis
  proof (cases "mu_ins m = ins")
    case True
    with m(8) assms(3) obtain r rs where r: "pre = []" "aft = r # rs" "b = r # rs" by (cases aft) auto
    have "lines_get m (mu_start m + mu_del m) = Inr r"
      using js_nth_append [of _ "a @ d" r rs] by (simp add: lines_get_def m(4-6) r(3))
    then show ?thesis
      using m True r assms(2)
      by (auto simp: putCurLineInSplice_def isCurLineInSplice_def placed_def
        intro!: exI [of _ a] exI [of _ "d @ [r]"])
  next
    case False
    with m show ?thesis using assms(2) by (auto simp: putCurLineInSplice_def isCurLineInSplice_def placed_def)
  qed
qed

lemma ensure_cursor:
  assumes "cursor m don pre aft"
  shows "\<exists>m'. ensureSplice m = Inr m' \<and> cursor m' don pre aft \<and> mu_in m'"
proof (cases "mu_in m")
  case True
  with assms show ?thesis by (simp add: ensureSplice_def)
next
  case False
  note m = assms [unfolded cursor_def, simplified False, simplified]
  show ?thesis
  proof (cases "pre = []")
    case True
    with m False show ?thesis
      by (auto simp: ensureSplice_def enterSplice_def Let_def cursor_def intro!: exI [of _ don] exI [of _ "[]"])
  next
    case pre: False
    with m obtain r rs where r: "aft = r # rs" by (cases aft) auto
    have "lines_get (m\<lparr>mu_start := mu_line m, mu_del := 0\<rparr>) (mu_line m) = Inr (pre @ r)"
      using m js_nth_append [of _ don "pre @ r" rs] by (simp add: lines_get_def r)
    with m False pre r show ?thesis
      by (auto simp: ensureSplice_def enterSplice_def Let_def putCurLineInSplice_def isCurLineInSplice_def cursor_def
        intro!: exI [of _ don] exI [of _ "[pre @ r]"] exI [of _ rs])
  qed
qed

subsection \<open>Moving the cursor\<close>

lemma skip_chars:
  assumes c: "cursor m don pre ((x @ r) # rs)" and x: "x \<noteq> []" "r \<noteq> []"
  shows "\<exists>m'. mu_skip (int (length x)) 0 inc m = Inr m' \<and> cursor m' don (pre @ x) (r # rs)"
proof -
  obtain m1 where m1: "(if inc then ensureSplice m else Inr m) = Inr m1" "cursor m1 don pre ((x @ r) # rs)"
    using ensure_cursor [OF c] c by (cases inc) auto
  show ?thesis
  proof (cases "mu_in m1")
    case True
    obtain m2 where m2: "putCurLineInSplice m1 = Inr (mu_line m1 - mu_start m1, m2)" "placed m2 don pre ((x @ r) # rs)"
      using put_placed [OF m1(2) True] by auto
    have "cursor (m2\<lparr>mu_col := mu_col m2 + int (length x)\<rparr>) don (pre @ x) (r # rs)"
      using m2(2) x(2) by (fastforce simp: placed_def cursor_def)
    with x m1(1) m2(1) True show ?thesis by (simp add: mu_skip_def)
  next
    case False
    with m1(2) x(2) have "cursor (m1\<lparr>mu_col := mu_col m1 + int (length x)\<rparr>) don (pre @ x) (r # rs)"
      by (simp add: cursor_def)
    with x m1(1) False show ?thesis by (simp add: mu_skip_def)
  qed
qed

lemma placed_next:
  assumes "placed m don pre (r # rs)" and "m' = m\<lparr>mu_line := mu_line m + 1, mu_col := 0\<rparr>"
  shows "cursor m' (don @ [pre @ r]) [] rs \<and> mu_in m'"
proof -
  obtain a d ins where m: "mu_in m" "mu_line m = int (length don)" "list_all (\<lambda>r. r \<noteq> []) rs" "mu_lines m = a @ d @ rs"
    "mu_start m = int (length a)" "mu_del m = int (length d)" "don = a @ ins" "mu_ins m = ins @ [pre @ r]"
    using assms(1) by (auto simp: placed_def)
  have "cursor m' (don @ [pre @ r]) [] rs"
    by (rule cursor_inI [where a = a and d = d and b = rs and ins = "ins @ [pre @ r]"]) (use m assms(2) in simp_all)
  with m(1) assms(2) show ?thesis by simp
qed

lemma skip_loop:
  "cursor m don pre (ls @ aft) \<Longrightarrow> mu_in m \<Longrightarrow> ls \<noteq> [] \<Longrightarrow>
   \<exists>m'. skipLines_loop (length ls) m = Inr m' \<and> cursor m' (don @ joined pre ls) [] aft"
proof (induction ls arbitrary: m don pre)
  case (Cons l ls)
  obtain m1 where m1: "putCurLineInSplice m = Inr (mu_line m - mu_start m, m1)" "placed m1 don pre ((l # ls) @ aft)"
    using put_placed [OF Cons.prems(1,2)] by auto
  have col: "putCurLineInSplice (m\<lparr>mu_col := 0\<rparr>) = bindE (putCurLineInSplice m) (\<lambda>(i, m'). Inr (i, m'\<lparr>mu_col := 0\<rparr>))"
    by (simp add: putCurLineInSplice_def isCurLineInSplice_def lines_get_def)
      (cases "js_nth (mu_lines m) (mu_start m + mu_del m)"; simp)
  let ?m = "m1\<lparr>mu_col := 0, mu_line := mu_line m1 + 1\<rparr>"
  have c: "cursor ?m (don @ [pre @ l]) [] (ls @ aft)" and i: "mu_in ?m"
    using placed_next [of m1 don pre l "ls @ aft" ?m] m1(2) by simp_all
  have step: "skipLines_loop (length (l # ls)) m = skipLines_loop (length ls) ?m"
    using m1(1) col by simp
  show ?case
  proof (cases "ls = []")
    case True
    with step c show ?thesis by simp
  next
    case False
    from Cons.IH [OF c i False] step show ?thesis by auto
  qed
qed simp

lemma leave_cursor:
  assumes "cursor m don pre aft" and "mu_in m"
  shows "cursor (leaveSplice m) don pre aft"
  using assms by (auto simp: cursor_def leaveSplice_def lines_applySplice_def js_splice_def)

lemma skip_lines:
  assumes c: "cursor m don pre (ls @ aft)" and l: "ls \<noteq> []"
  shows "\<exists>m'. mu_skipLines (int (length ls)) inc m = Inr m' \<and> cursor m' (don @ joined pre ls) [] aft"
proof (cases inc)
  case True
  obtain m1 where "ensureSplice m = Inr m1" "cursor m1 don pre (ls @ aft)" "mu_in m1" using ensure_cursor [OF c] by blast
  with skip_loop [OF this(2,3) l] l True show ?thesis by (auto simp: mu_skipLines_def)
next
  case False
  obtain l0 ls0 where ls: "ls = l0 # ls0" using l by (cases ls) auto
  have go: "cursor (t\<lparr>mu_line := mu_line t + int (length ls), mu_col := 0\<rparr>) (don @ joined pre ls) [] aft"
    if "cursor t don pre (ls @ aft)" "\<not> mu_in t" for t
    using that by (simp add: cursor_def ls)
  show ?thesis
  proof (cases "mu_in m")
    case True
    show ?thesis
    proof (cases "1 < length ls")
      case long: True
      have "\<not> mu_in (leaveSplice m)" by (simp add: leaveSplice_def)
      from go [OF leave_cursor [OF c True] this] False l True long show ?thesis by (simp add: mu_skipLines_def)
    next
      case short: False
      then have one: "ls = [l0]" using ls by (cases ls0) auto
      obtain m1 where m1: "putCurLineInSplice m = Inr (mu_line m - mu_start m, m1)" "placed m1 don pre (ls @ aft)"
        using put_placed [OF c True] l by auto
      have "cursor (m1\<lparr>mu_line := mu_line m1 + 1, mu_col := 0\<rparr>) (don @ [pre @ l0]) [] aft"
        using placed_next [of m1 don pre l0 aft] m1(2) by (simp add: one)
      with m1(1) False True one show ?thesis by (simp add: mu_skipLines_def)
    qed
  next
    case not_in: False
    with go [OF c not_in] False l show ?thesis by (simp add: mu_skipLines_def)
  qed
qed

subsection \<open>Removing and inserting at the cursor\<close>

lemma placedE:
  assumes "placed m don pre aft"
  obtains a d b ins r where "mu_in m" "mu_line m = int (length don)" "mu_col m = int (length pre)" "list_all (\<lambda>r. r \<noteq> []) aft"
    "mu_lines m = a @ d @ b" "mu_start m = int (length a)" "mu_del m = int (length d)" "don = a @ ins"
    "mu_ins m = ins @ [pre @ r]" "aft = r # b"
  using assms by (auto simp: placed_def)

lemma js_parts:
  "n = int (length x) \<Longrightarrow> js_substring (x @ y) 0 n = x"
  "n = int (length x) \<Longrightarrow> js_from (x @ y) n = y"
  "n = int (length x) \<Longrightarrow> k = int (length x) + int (length y) \<Longrightarrow> js_substring (x @ y @ z) n k = y"
  using js_substring_append [of "[]" x y] js_from_append [of x y] js_substring_append [of x y z] by simp_all

lemma setLine_cursor:
  assumes p: "placed m don pre (r # rs)" and s: "s = pre' @ r'" "r' \<noteq> []" and i: "i = mu_line m - mu_start m"
  shows "cursor ((mu_setLine i s m)\<lparr>mu_col := int (length pre')\<rparr>) don pre' (r' # rs)"
  using p
proof (rule placedE)
  fix a d b ins r0
  assume m: "mu_in m" "mu_line m = int (length don)" "mu_col m = int (length pre)" "list_all (\<lambda>r. r \<noteq> []) (r # rs)"
    "mu_lines m = a @ d @ b" "mu_start m = int (length a)" "mu_del m = int (length d)" "don = a @ ins"
    "mu_ins m = ins @ [pre @ r0]" "r # rs = r0 # b"
  show ?thesis
    by (rule cursor_inI [where a = a and d = d and b = b and ins = ins])
      (use m s i in \<open>simp_all add: mu_setLine_def list_update_append\<close>)
qed

lemma remove_chars:
  assumes c: "cursor m don pre ((x @ r) # rs)" and x: "x \<noteq> []" "r \<noteq> []"
  shows "\<exists>m'. mu_remove (int (length x)) 0 m = Inr (x, m') \<and> cursor m' don pre (r # rs)"
proof -
  obtain m1 where m1: "ensureSplice m = Inr m1" "cursor m1 don pre ((x @ r) # rs)" "mu_in m1" using ensure_cursor [OF c] by blast
  obtain m2 where m2: "putCurLineInSplice m1 = Inr (mu_line m1 - mu_start m1, m2)" "placed m2 don pre ((x @ r) # rs)"
    and m2': "mu_line m1 = mu_line m2" "mu_start m1 = mu_start m2"
    using put_placed [OF m1(2,3)] by auto
  let ?i = "mu_line m1 - mu_start m1"
  have n: "js_nth (mu_ins m2) ?i = Inr (pre @ x @ r)" and col: "mu_col m2 = int (length pre)"
    using m2(2) unfolding m2' by (auto simp: placed_def js_nth_def)
  have s: "js_substring (pre @ x @ r) 0 (int (length pre)) @ js_from (pre @ x @ r) (int (length pre) + int (length x)) = pre @ r"
    using js_parts(1) [of _ pre "x @ r"] js_parts(2) [of _ "pre @ x" r] by simp
  have "cursor ((mu_setLine ?i (pre @ r) m2)\<lparr>mu_col := int (length pre)\<rparr>) don pre (r # rs)"
    by (rule setLine_cursor [OF m2(2)]) (use x m2' in simp_all)
  moreover have "(mu_setLine ?i (pre @ r) m2)\<lparr>mu_col := int (length pre)\<rparr> = mu_setLine ?i (pre @ r) m2"
    using col by (cases m2) (simp add: mu_setLine_def)
  ultimately show ?thesis
    using x(1) m1(1) m2(1) n col s js_parts(3) [of _ pre _ x r] by (simp add: mu_remove_def)
qed

lemma nextKLines:
  assumes "mu_lines m = a @ d @ ls @ b" and "mu_start m = int (length a)" and "mu_del m = int (length d)" and "k = int (length ls)"
  shows "nextKLinesText m k = concat ls"
  using assms by (simp add: nextKLinesText_def lines_slice_def js_slice_def Let_def)

lemma remove_lines:
  assumes c: "cursor m don pre (ls @ aft)" and l: "ls \<noteq> []" and lst: "aft \<noteq> [] \<or> pre = []"
  shows "\<exists>m'. mu_removeLines (int (length ls)) m = Inr (concat ls, m') \<and> cursor m' don pre aft"
proof -
  obtain m1 where m1: "ensureSplice m = Inr m1" "cursor m1 don pre (ls @ aft)" "mu_in m1" using ensure_cursor [OF c] by blast
  obtain l0 ls0 where ls: "ls = l0 # ls0" using l by (cases ls) auto
  obtain a d b ins where m: "mu_line m1 = int (length don)" "mu_col m1 = int (length pre)" "list_all (\<lambda>r. r \<noteq> []) (ls @ aft)"
    "mu_lines m1 = a @ d @ b" "mu_start m1 = int (length a)" "mu_del m1 = int (length d)" "don = a @ ins"
    "mu_ins m1 = ins \<and> pre = [] \<and> ls @ aft = b \<or> (\<exists>r. mu_ins m1 = ins @ [pre @ r] \<and> ls @ aft = r # b)"
    using m1(2,3) by (rule cursor_inE)
  show ?thesis
  proof (cases "mu_ins m1 = ins")
    case True
    with m(8) have b: "pre = []" "b = ls @ aft" by auto
    have "cursor (m1\<lparr>mu_del := mu_del m1 + int (length ls)\<rparr>) don pre aft"
      by (rule cursor_inI [where a = a and d = "d @ ls" and b = aft and ins = ins]) (use m m1(3) b True in simp_all)
    moreover have "nextKLinesText m1 (int (length ls)) = concat ls"
      using nextKLines [of m1 a d ls aft] m(4-6) b(2) by simp
    ultimately show ?thesis
      using m1(1) m l True by (simp add: mu_removeLines_def isCurLineInSplice_def)
  next
    case False
    with m(8) ls have r: "mu_ins m1 = ins @ [pre @ l0]" "b = ls0 @ aft" by auto
    have cur: "isCurLineInSplice m1" "lastInSplice m1 = Inr (pre @ l0)"
      using m r(1) by (simp_all add: isCurLineInSplice_def lastInSplice_def)
    have k: "nextKLinesText t (int (length ls0)) = concat ls0" if "mu_lines t = mu_lines m1" "mu_start t = mu_start m1" "mu_del t = mu_del m1" for t
      using nextKLines [of t a d ls0 aft] m(4-6) r(2) that by simp
    show ?thesis
    proof (cases "pre = []")
      case True
      have "cursor (m1\<lparr>mu_ins := ins, mu_del := mu_del m1 + int (length ls0)\<rparr>) don pre aft"
        by (rule cursor_inI [where a = a and d = "d @ ls0" and b = aft and ins = ins]) (use m m1(3) r True in simp_all)
      with m1(1) cur True m(2) r(1) k [of "m1\<lparr>mu_ins := ins\<rparr>"] show ?thesis
        by (simp add: mu_removeLines_def ls Let_def)
    next
      case pre: False
      with lst obtain n ns where aft: "aft = n # ns" by (cases aft) auto
      let ?m = "m1\<lparr>mu_del := mu_del m1 + int (length ls0)\<rparr>"
      have "lines_get ?m (mu_start ?m + mu_del ?m) = Inr n"
        using js_nth_append [of _ "a @ d @ ls0" n ns] by (simp add: lines_get_def m(4-6) r(2) aft)
      moreover have "cursor (m1\<lparr>mu_ins := ins @ [pre @ n], mu_del := mu_del m1 + int (length ls0) + 1\<rparr>) don pre aft"
        by (rule cursor_inI [where a = a and d = "d @ ls0 @ [n]" and b = ns and ins = ins]) (use m m1(3) r aft in simp_all)
      moreover have "js_from (pre @ l0) (mu_col m1) = l0" "js_substring (pre @ l0) 0 (mu_col m1) = pre"
        using js_parts(1,2) m(2) by simp_all
      ultimately show ?thesis
        using m1(1) cur pre m(2) r(1) k [of m1] by (simp add: mu_removeLines_def ls Let_def)
    qed
  qed
qed

lemma insert_chars:
  assumes c: "cursor m don pre (r # rs)" and x: "x \<noteq> []"
  shows "\<exists>m'. mu_insert x 0 m = Inr m' \<and> cursor m' don (pre @ x) (r # rs)"
proof -
  obtain m1 where m1: "ensureSplice m = Inr m1" "cursor m1 don pre (r # rs)" "mu_in m1" using ensure_cursor [OF c] by blast
  obtain m2 where m2: "putCurLineInSplice m1 = Inr (mu_line m1 - mu_start m1, m2)" "placed m2 don pre (r # rs)"
    and m2': "mu_line m1 = mu_line m2" "mu_start m1 = mu_start m2"
    using put_placed [OF m1(2,3)] by auto
  let ?i = "mu_line m1 - mu_start m1"
  have n: "js_nth (mu_ins m2) ?i = Inr (pre @ r)" and col: "mu_col m2 = int (length pre)" and r: "r \<noteq> []"
    using m2(2) unfolding m2' by (auto simp: placed_def js_nth_def)
  have s: "js_substring (pre @ r) 0 (int (length pre)) @ x @ js_from (pre @ r) (int (length pre)) = pre @ x @ r"
    using js_parts(1,2) [of _ pre r] by simp
  have "cursor ((mu_setLine ?i (pre @ x @ r) m2)\<lparr>mu_col := int (length (pre @ x))\<rparr>) don (pre @ x) (r # rs)"
    by (rule setLine_cursor [OF m2(2)]) (use r m2' in simp_all)
  then show ?thesis
    using x(1) m1(1) m2(1) n col s by (simp add: mu_insert_def)
qed

lemma insert_lines:
  assumes c: "cursor m don pre aft" and x: "splitLines x = n # ns" and lst: "aft \<noteq> [] \<or> pre = []"
  shows "\<exists>m'. mu_insert x (int (length (n # ns))) m = Inr m' \<and> cursor m' (don @ (pre @ n) # ns) [] aft"
proof -
  have ne: "x \<noteq> []" using x by (auto simp: splitLines.simps)
  obtain m1 where m1: "ensureSplice m = Inr m1" "cursor m1 don pre aft" "mu_in m1" using ensure_cursor [OF c] by blast
  obtain a d b ins where m: "mu_line m1 = int (length don)" "mu_col m1 = int (length pre)" "list_all (\<lambda>r. r \<noteq> []) aft"
    "mu_lines m1 = a @ d @ b" "mu_start m1 = int (length a)" "mu_del m1 = int (length d)" "don = a @ ins"
    "mu_ins m1 = ins \<and> pre = [] \<and> aft = b \<or> (\<exists>r. mu_ins m1 = ins @ [pre @ r] \<and> aft = r # b)"
    using m1(2,3) by (rule cursor_inE)
  show ?thesis
  proof (cases "mu_ins m1 = ins")
    case True
    with m(8) have b: "pre = []" "b = aft" by auto
    have "cursor (m1\<lparr>mu_ins := ins @ n # ns, mu_line := mu_line m1 + (1 + int (length ns))\<rparr>) (don @ (pre @ n) # ns) [] aft"
      by (rule cursor_inI [where a = a and d = d and b = aft and ins = "ins @ n # ns"]) (use m m1(3) b True in simp_all)
    with m1(1) m ne True x show ?thesis by (simp add: mu_insert_def isCurLineInSplice_def add.commute)
  next
    case False
    with m(8) obtain r where r: "mu_ins m1 = ins @ [pre @ r]" "aft = r # b" by auto
    have "cursor (m1\<lparr>mu_ins := ins @ (pre @ n) # ns @ [r], mu_line := mu_line m1 + 1 + int (length ns), mu_col := 0\<rparr>)
        (don @ (pre @ n) # ns) [] aft"
      by (rule cursor_inI [where a = a and d = d and b = b and ins = "ins @ (pre @ n) # ns"]) (use m m1(3) r in simp_all)
    moreover have "js_from (pre @ r) (mu_col m1) = r" "js_substring (pre @ r) 0 (mu_col m1) = pre"
      using js_parts(1,2) m(2) by simp_all
    ultimately show ?thesis
      using m1(1) m ne r x by (simp add: mu_insert_def isCurLineInSplice_def lastInSplice_def Let_def)
  qed
qed

subsection \<open>Lines of a text\<close>

definition isLine :: "string \<Rightarrow> bool" where
  "isLine s = (\<exists>y. s = y @ [nl] \<and> nl \<notin> set y)"

lemma splitLines_line: "nl \<notin> set y \<Longrightarrow> splitLines (y @ nl # t) = (y @ [nl]) # splitLines t"
  by (subst splitLines.simps) (simp add: takeWhile_append dropWhile_append Let_def)

lemma splitLines_Nil [simp]: "splitLines [] = []"
  by (simp add: splitLines.simps)

lemma splitLines_concat: "list_all isLine ls \<Longrightarrow> splitLines (concat ls @ t) = ls @ splitLines t"
  by (induction ls) (auto simp: isLine_def splitLines_line)

text \<open>A text that ends with a newline, or is empty.\<close>

definition ended :: "string \<Rightarrow> bool" where
  "ended t = (t = [] \<or> last t = nl)"

lemma ended_append: "t \<noteq> [] \<Longrightarrow> ended (s @ t) = ended t"
  by (simp add: ended_def)

lemma ended_lines: "ended t \<Longrightarrow> \<exists>ls. t = concat ls \<and> list_all isLine ls \<and> int (length ls) = count_nl t"
proof (induction t rule: length_induct)
  case (1 t)
  show ?case
  proof (cases "t = []")
    case False
    with "1.prems" have "nl \<in> set t" using last_in_set by (fastforce simp: ended_def)
    then obtain y s where t: "t = y @ nl # s" "nl \<notin> set y" using split_list_first by fast
    have "ended s" using "1.prems" t by (auto simp: ended_def split: if_splits)
    with "1.IH" [rule_format, of s] t obtain ls where "s = concat ls" "list_all isLine ls" "int (length ls) = count_nl s" by auto
    moreover have "count_nl y = 0" using t(2) count_nl_0_iff [of y] by blast
    ultimately show ?thesis using t by (intro exI [of _ "(y @ [nl]) # ls"]) (auto, auto simp: isLine_def)
  qed (auto intro!: exI [of _ "[]"])
qed

lemma ended_concat: "list_all isLine ls \<Longrightarrow> ended (concat ls)"
  by (induction ls) (auto simp: ended_def isLine_def simp del: concat_eq_Nil_conv split: if_splits)

lemma splitLines_ended:
  assumes "ended t"
  shows "concat (splitLines t) = t \<and> list_all isLine (splitLines t) \<and> int (length (splitLines t)) = count_nl t"
proof -
  obtain ls where "t = concat ls" "list_all isLine ls" "int (length ls) = count_nl t" using ended_lines [OF assms] by blast
  with splitLines_concat [of ls "[]"] show ?thesis by simp
qed

lemma splitLines_append: "ended s \<Longrightarrow> splitLines (s @ t) = splitLines s @ splitLines t"
  using splitLines_concat splitLines_ended by metis

lemma splitLines_prefix:
  assumes "nl \<notin> set x" and "splitLines t = r # rs" and "ended t"
  shows "splitLines (x @ t) = (x @ r) # rs"
proof -
  have "t = concat (r # rs)" "list_all isLine (r # rs)" using splitLines_ended [OF assms(3)] assms(2) by simp_all
  moreover from this have "list_all isLine ((x @ r) # rs)" using assms(1) by (auto simp: isLine_def)
  ultimately show ?thesis using splitLines_concat [of "(x @ r) # rs" "[]"] by simp
qed

lemma splitLines_nonempty: "ended t \<Longrightarrow> t \<noteq> [] \<Longrightarrow> splitLines t \<noteq> [] \<and> list_all (\<lambda>r. r \<noteq> []) (splitLines t)"
  using splitLines_ended [of t] by (fastforce simp: isLine_def list_all_iff)

subsection \<open>mutateTextLines\<close>

text \<open>\<open>textCursor m p t\<close>: the cursor is between the texts \<open>p\<close> and \<open>t\<close>.\<close>

definition textCursor :: "mutator \<Rightarrow> string \<Rightarrow> string \<Rightarrow> bool" where
  "textCursor m p t = (ended t \<and> (\<exists>don pre. p = concat don @ pre \<and> list_all isLine don \<and> nl \<notin> set pre \<and>
     cursor m don pre (splitLines t)))"

lemma textCursor_start: "ended t \<Longrightarrow> textCursor (textLinesMutator (splitLines t)) [] t"
  using cursor_start [of "splitLines t"] splitLines_nonempty [of t]
  unfolding textCursor_def by (cases "t = []") (auto intro!: exI [of _ "[]"])

lemma textCursor_close:
  assumes "textCursor m p t"
  shows "mu_lines (mu_close m) = splitLines (p @ t) \<and> ended (p @ t)"
proof -
  obtain don pre where m: "ended t" "p = concat don @ pre" "list_all isLine don" "nl \<notin> set pre" "cursor m don pre (splitLines t)"
    using assms by (auto simp: textCursor_def)
  show ?thesis
  proof (cases "t = []")
    case True
    with m have "pre = []" by (auto simp: cursor_def)
    with True m cursor_close [OF m(5)] splitLines_concat [OF m(3), of "[]"] ended_concat [OF m(3)] show ?thesis by simp
  next
    case False
    with splitLines_nonempty [OF m(1)] obtain r rs where r: "splitLines t = r # rs" by (cases "splitLines t") auto
    with m splitLines_prefix [OF m(4) r m(1)] cursor_close [OF m(5)] splitLines_concat [OF m(3), of "pre @ t"] False
    show ?thesis by (simp add: ended_append)
  qed
qed

lemma text_skip:
  assumes c: "textCursor m p (x @ t)" and f: "fits o1 x" and t: "ended t" "count_nl x = 0 \<longrightarrow> t \<noteq> []"
  shows "\<exists>m'. mu_skip (chars o1) (lines o1) inc m = Inr m' \<and> textCursor m' (p @ x) t"
proof -
  obtain don pre where m: "p = concat don @ pre" "list_all isLine don" "nl \<notin> set pre" "cursor m don pre (splitLines (x @ t))"
    using c by (auto simp: textCursor_def)
  have x: "x \<noteq> []" "chars o1 = int (length x)" "lines o1 = count_nl x" "0 < count_nl x \<longrightarrow> last x = nl" using f by (auto simp: fits_def)
  show ?thesis
  proof (cases "count_nl x = 0")
    case True
    then have nx: "nl \<notin> set x" using count_nl_0_iff [of x] by blast
    from splitLines_nonempty [OF t(1)] t(2) True obtain r rs where r: "splitLines t = r # rs" "r \<noteq> []" by (cases "splitLines t") auto
    have "splitLines (x @ t) = (x @ r) # rs" by (rule splitLines_prefix [OF nx r(1) t(1)])
    with skip_chars [of m don pre x r rs inc] m(4) x(1) r(2) obtain m' where
      "mu_skip (int (length x)) 0 inc m = Inr m'" "cursor m' don (pre @ x) (r # rs)" by auto
    with True x r m nx t(1) show ?thesis by (auto simp: textCursor_def intro!: exI [of _ don] exI [of _ "pre @ x"])
  next
    case False
    then have e: "ended x" "splitLines (x @ t) = splitLines x @ splitLines t" "splitLines x \<noteq> []"
      using x splitLines_append [of x t] splitLines_nonempty [of x] count_nl_nonneg [of x] by (auto simp: ended_def)
    note l = splitLines_ended [OF e(1)]
    obtain r rs where r: "splitLines x = r # rs" using e(3) by (cases "splitLines x") auto
    obtain m' where m': "mu_skipLines (int (length (splitLines x))) inc m = Inr m'" "cursor m' (don @ joined pre (splitLines x)) [] (splitLines t)"
      using skip_lines [OF m(4) [unfolded e(2)] e(3)] by blast
    have j: "list_all isLine (joined pre (splitLines x))" "concat (joined pre (splitLines x)) = pre @ x"
      using l splitLines_prefix [OF m(3) r e(1)] splitLines_ended [of "pre @ x"] e(1) x(1) by (simp_all add: r ended_append)
    have "textCursor m' (p @ x) t"
      unfolding textCursor_def
      by (rule conjI [OF t(1)], rule exI [of _ "don @ joined pre (splitLines x)"], rule exI [of _ "[]"])
        (use m m'(2) j in simp)
    with m'(1) l False x show ?thesis by (simp add: mu_skip_def)
  qed
qed

lemma text_remove:
  assumes c: "textCursor m p (x @ t)" and f: "fits o1 x" and t: "ended t" "t \<noteq> []"
  shows "\<exists>m'. mu_remove (chars o1) (lines o1) m = Inr (x, m') \<and> textCursor m' p t"
proof -
  obtain don pre where m: "p = concat don @ pre" "list_all isLine don" "nl \<notin> set pre" "cursor m don pre (splitLines (x @ t))"
    using c by (auto simp: textCursor_def)
  have x: "x \<noteq> []" "chars o1 = int (length x)" "lines o1 = count_nl x" "0 < count_nl x \<longrightarrow> last x = nl" using f by (auto simp: fits_def)
  obtain r rs where r: "splitLines t = r # rs" "r \<noteq> []" using splitLines_nonempty [OF t] by (cases "splitLines t") auto
  have "\<exists>m'. mu_remove (chars o1) (lines o1) m = Inr (x, m') \<and> cursor m' don pre (splitLines t)"
  proof (cases "count_nl x = 0")
    case True
    then have "nl \<notin> set x" using count_nl_0_iff [of x] by blast
    from splitLines_prefix [OF this r(1) t(1)] remove_chars [of m don pre x r rs] m(4) x r True show ?thesis by auto
  next
    case False
    then have e: "ended x" "splitLines (x @ t) = splitLines x @ splitLines t" "splitLines x \<noteq> []"
      using x splitLines_append [of x t] splitLines_nonempty [of x] count_nl_nonneg [of x] by (auto simp: ended_def)
    from remove_lines [OF m(4) [unfolded e(2)] e(3)] r splitLines_ended [OF e(1)] x False show ?thesis by (auto simp: mu_remove_def)
  qed
  with m t(1) show ?thesis by (auto simp: textCursor_def)
qed

lemma text_insert:
  assumes c: "textCursor m p t" and f: "fits o1 x" and t: "t \<noteq> []"
  shows "\<exists>m'. mu_insert x (lines o1) m = Inr m' \<and> textCursor m' (p @ x) t"
proof -
  obtain don pre where m: "ended t" "p = concat don @ pre" "list_all isLine don" "nl \<notin> set pre" "cursor m don pre (splitLines t)"
    using c by (auto simp: textCursor_def)
  have x: "x \<noteq> []" "lines o1 = count_nl x" "0 < count_nl x \<longrightarrow> last x = nl" using f by (auto simp: fits_def)
  obtain r rs where r: "splitLines t = r # rs" using splitLines_nonempty [OF m(1) t] by (cases "splitLines t") auto
  show ?thesis
  proof (cases "count_nl x = 0")
    case True
    then have "nl \<notin> set x" using count_nl_0_iff [of x] by blast
    with insert_chars [OF m(5) [unfolded r] x(1)] x(2) True m r show ?thesis
      by (auto simp: textCursor_def intro!: exI [of _ don] exI [of _ "pre @ x"])
  next
    case False
    then have e: "ended x" using x count_nl_nonneg [of x] by (auto simp: ended_def)
    note l = splitLines_ended [OF e]
    obtain n ns where n: "splitLines x = n # ns" using splitLines_nonempty [OF e x(1)] by (cases "splitLines x") auto
    obtain m' where m': "mu_insert x (int (length (n # ns))) m = Inr m'" "cursor m' (don @ (pre @ n) # ns) [] (splitLines t)"
      using insert_lines [OF m(5) n] r by auto
    have j: "list_all isLine ((pre @ n) # ns)" "concat ((pre @ n) # ns) = pre @ x"
      using l splitLines_prefix [OF m(4) n e] splitLines_ended [of "pre @ x"] e x(1) by (simp_all add: n ended_append)
    have "textCursor m' (p @ x) t"
      unfolding textCursor_def
      by (rule conjI [OF m(1)], rule exI [of _ "don @ (pre @ n) # ns"], rule exI [of _ "[]"])
        (use m m'(2) j in simp)
    with m'(1) l n x show ?thesis by simp
  qed
qed

text \<open>
  \<open>keepsEnd es r\<close>: the script \<open>es\<close>, with \<open>r\<close> after it, touches nothing behind the last newline of its text and
  keeps that newline. The code's changesets are like this; the mutator needs it, since it has no line to put
  a character in that comes after the last newline.
\<close>

primrec keepsEnd :: "script \<Rightarrow> string \<Rightarrow> bool" where
  "keepsEnd [] r = True"
| "keepsEnd (e # es) r = ((ed_op e \<noteq> Keep \<longrightarrow> src es @ r \<noteq> []) \<and> keepsEnd es r)"

lemma keepsEnd_append: "keepsEnd (xs @ ys) r = (keepsEnd xs (src ys @ r) \<and> keepsEnd ys r)"
  by (induction xs) auto

lemma keepsEnd_run: "x \<noteq> [] \<Longrightarrow> keepsEnd (run k a x) r \<Longrightarrow> k = Del \<or> k = Ins \<Longrightarrow> r \<noteq> []"
proof (induction x)
  case (Cons c x)
  then show ?case by (cases x) (auto simp: run_def)
qed simp

text \<open>
  This is what \<open>checkRep\<close> asserts: that a deletion stays before the end of the text, and an insertion before
  the end of the new text.
\<close>

lemma keepsEnd_runI: "k = Keep \<or> r \<noteq> [] \<Longrightarrow> keepsEnd (run k a x) r"
  by (induction x) (auto simp: run_def)

lemma keepsEnd_dst: "keepsEnd es r \<Longrightarrow> no_NoOp es \<Longrightarrow> dst es @ r \<noteq> [] \<Longrightarrow> src es @ r \<noteq> []"
  by (induction es) (auto simp: no_NoOp_def split: opcode.splits)

lemma checkRep_ops_keepsEnd:
  "denotes os es \<Longrightarrow> foldE (checkRep_op lo ln) os st = Inr st' \<Longrightarrow>
   lo = ck_oldPos st + int (length (src es @ r)) \<Longrightarrow> ln = ck_calcNewLen st + int (length (dst es @ r)) \<Longrightarrow> keepsEnd es r"
proof (induction os arbitrary: es st)
  case (Cons o1 os)
  from Cons.prems(1) obtain xs ys where es: "es = xs @ ys" "covers o1 xs" "denotes os ys"
    by (rule denotes_ConsE)
  from es(2) obtain x where x: "xs = run (opcode o1) (attribs o1) x" "fits o1 x" using covers_run by blast
  then have n: "chars o1 = int (length x)" "opcode o1 \<noteq> NoOp" by (simp_all add: fits_def)
  from Cons.prems(2) obtain st1 where st1: "checkRep_op lo ln o1 st = Inr st1" "foldE (checkRep_op lo ln) os st1 = Inr st'"
    by (auto simp: bindE_eq_Inr)
  have s: "ck_oldPos st1 = ck_oldPos st + int (length (src xs)) \<and> ck_calcNewLen st1 = ck_calcNewLen st + int (length (dst xs)) \<and>
      (opcode o1 = Del \<longrightarrow> ck_oldPos st1 < lo) \<and> (opcode o1 = Ins \<longrightarrow> ck_calcNewLen st1 < ln)"
    using st1(1) n x(1) by (cases "opcode o1") (auto simp: checkRep_op_def Let_def bindE_eq_Inr assertE_def split: if_splits)
  have k: "keepsEnd ys r" by (rule Cons.IH [OF es(3) st1(2)]) (use Cons.prems(3,4) s es(1) in simp_all)
  have "opcode o1 = Keep \<or> src ys @ r \<noteq> []"
    using s Cons.prems(3,4) es(1) n(2) keepsEnd_dst [OF k denotes_no_NoOp [OF es(3)]] by (cases "opcode o1") auto
  then show ?case using k keepsEnd_runI unfolding es(1) x(1) keepsEnd_append by blast
qed simp

lemma checkRep_keepsEnd:
  assumes "cs_on cs t es" and "checkRep cs = Inr cs'"
  shows "keepsEnd es (drop (length (src es)) t)"
proof -
  from assms(1) obtain os where u: "unpack cs = Inr \<lparr>up_oldLen = int (length t),
      up_newLen = int (length (result t es)), up_ops = up_ops (projr (unpack cs)), up_charBank = inserted es\<rparr>"
    and p: "parse_ops (up_ops (projr (unpack cs))) = Inr os" and d: "denotes os es" and t: "on_text es t"
    by (rule cs_onE)
  from t obtain r where r: "t = src es @ r" by (auto simp: on_text_iff)
  from p obtain it where it: "opIterator (up_ops (projr (unpack cs))) 0 = Inr it" "yields it os" by (rule parse_opsE)
  obtain os' where "unpack cs = Inr \<lparr>up_oldLen = int (length t), up_newLen = int (length (result t es)), up_ops = os',
      up_charBank = inserted es\<rparr>" "opIterator os' 0 = Inr it" using u it(1) by blast
  with assms(2) obtain st' where "foldE (checkRep_op (int (length t)) (int (length (result t es)))) os
      \<lparr>ck_oldPos = 0, ck_calcNewLen = 0, ck_numInserted = 0, ck_assem = smartOpAssembler\<rparr> = Inr st'"
    by (auto simp: checkRep_def forOps_yields [OF it(2)] Let_def bindE_eq_Inr)
  from checkRep_ops_keepsEnd [OF d this, of r] r show ?thesis by simp
qed

lemma mutate_pieces:
  "pieces os ps \<Longrightarrow> textCursor m p (src (flat ps) @ r) \<Longrightarrow> keepsEnd (flat ps) r \<Longrightarrow> si_ahead b (inserted (flat ps)) \<Longrightarrow>
   \<exists>m' b'. foldE mutateTextLines_op os (b, m) = Inr (b', m') \<and> textCursor m' (p @ dst (flat ps)) r"
proof (induction os arbitrary: ps m p b)
  case Nil
  then show ?case by simp
next
  case (Cons o1 os)
  from Cons.prems(1) obtain x qs where ps: "ps = (opcode o1, attribs o1, x) # qs" "fits o1 x" "pieces os qs" by (rule pieces_ConsE)
  define t where "t = src (flat qs) @ r"
  have x: "x \<noteq> []" "opcode o1 \<noteq> NoOp" "chars o1 = int (length x)" using ps(2) by (simp_all add: fits_def)
  have k: "keepsEnd (run (opcode o1) (attribs o1) x) t" "keepsEnd (flat qs) r"
    using Cons.prems(3) ps(1) by (simp_all add: keepsEnd_append t_def)
  have c: "textCursor m p ((if opcode o1 = Ins then [] else x) @ t)"
    using Cons.prems(2) ps(1) by (simp add: t_def split: if_splits)
  have e: "ended t" using c ended_append [of t x] by (cases "t = []") (auto simp: textCursor_def ended_def)
  have "\<exists>m' b'. mutateTextLines_op o1 (b, m) = Inr (b', m') \<and> textCursor m' (p @ dst (run (opcode o1) (attribs o1) x)) t \<and>
      si_ahead b' (inserted (flat qs))"
  proof (cases "opcode o1")
    case Keep
    have "count_nl x = 0 \<longrightarrow> t \<noteq> []"
    proof (intro impI notI)
      assume n: "count_nl x = 0" "t = []"
      from c Keep n(2) x(1) have "last x = nl" by (simp add: textCursor_def ended_def)
      with last_in_set [OF x(1)] n(1) count_nl_0_iff [of x] show False by metis
    qed
    from c Keep have "textCursor m p (x @ t)" by simp
    from text_skip [OF this ps(2) e \<open>count_nl x = 0 \<longrightarrow> t \<noteq> []\<close>, of "attribs o1 \<noteq> ''''"] Keep Cons.prems(4) ps(1)
    show ?thesis by (auto simp: mutateTextLines_op_def)
  next
    case Del
    from c Del have "textCursor m p (x @ t)" by simp
    from text_remove [OF this ps(2) e keepsEnd_run [OF x(1) k(1)]] Del Cons.prems(4) ps(1) show ?thesis
      by (auto simp: mutateTextLines_op_def)
  next
    case Ins
    have "si_ahead b (x @ inserted (flat qs))" using Cons.prems(4) ps(1) Ins by simp
    from si_ahead_step [OF this x(3)] obtain b' where b': "si_take (chars o1) b = Inr (x, b')" "si_ahead b' (inserted (flat qs))" by blast
    from c Ins have "textCursor m p t" by simp
    from text_insert [OF this ps(2) keepsEnd_run [OF x(1) k(1)]] b' Ins show ?thesis by (auto simp: mutateTextLines_op_def)
  qed (use x in simp)
  then obtain m1 b1 where s: "mutateTextLines_op o1 (b, m) = Inr (b1, m1)"
    "textCursor m1 (p @ dst (run (opcode o1) (attribs o1) x)) (src (flat qs) @ r)" "si_ahead b1 (inserted (flat qs))"
    unfolding t_def by blast
  from Cons.IH [OF ps(3) s(2) k(2) s(3)] s(1) ps(1) show ?case by simp
qed

text \<open>
  C15. \<open>mutateTextLines\<close>, which splices an array of lines in place of the document, is \<open>applyToText\<close> on the
  joined lines. For a changeset that \<open>checkRep\<close> accepts and a text that ends in a newline (or is empty) it never
  fails on a missing line, its lines are those of the text the changeset makes, and this text again ends in a
  newline.
\<close>

theorem mutateTextLines_text:
  assumes "cs_on cs t es" and "checkRep cs = Inr cs'" and "ended t"
  shows "mutateTextLines cs (splitLines t) = Inr (splitLines (result t es)) \<and> ended (result t es) \<and>
    concat (splitLines (result t es)) = result t es \<and> applyToText cs t = Inr (result t es)"
proof -
  from assms(1) obtain os where u: "unpack cs = Inr \<lparr>up_oldLen = int (length t),
      up_newLen = int (length (result t es)), up_ops = up_ops (projr (unpack cs)), up_charBank = inserted es\<rparr>"
    and p: "parse_ops (up_ops (projr (unpack cs))) = Inr os" and d: "denotes os es" and t: "on_text es t"
    by (rule cs_onE)
  from t obtain r where r: "t = src es @ r" by (auto simp: on_text_iff)
  from p obtain it where it: "opIterator (up_ops (projr (unpack cs))) 0 = Inr it" "yields it os" by (rule parse_opsE)
  from denotes_pieces [OF d] obtain ps where ps: "pieces os ps" "es = flat ps" by blast
  from mutate_pieces [OF ps(1), of "textLinesMutator (splitLines t)" "[]" r "stringIterator (inserted es)"]
  obtain m b where m: "foldE mutateTextLines_op os (stringIterator (inserted es), textLinesMutator (splitLines t)) = Inr (b, m)"
    "textCursor m (dst es) r"
    using textCursor_start [OF assms(3)] checkRep_keepsEnd [OF assms(1,2)] r ps(2) by auto
  obtain os' where u': "unpack cs = Inr \<lparr>up_oldLen = int (length t), up_newLen = int (length (result t es)), up_ops = os',
      up_charBank = inserted es\<rparr>" "opIterator os' 0 = Inr it" using u it(1) by blast
  with m(1) have "mutateTextLines cs (splitLines t) = Inr (mu_lines (mu_close m))"
    by (simp add: mutateTextLines_def forOps_yields [OF it(2)])
  with textCursor_close [OF m(2)] splitLines_ended [of "result t es"] applyToText_result [OF assms(1)] r show ?thesis
    by simp
qed

theorem mutateTextLines_text_witness:
  "mutateTextLines (''Z:8>0=1|1-3|1+3$xy'' @ [nl]) [''abc'' @ [nl], ''def'' @ [nl]] = Inr [''axy'' @ [nl], ''def'' @ [nl]]"
proof -
  let ?t = "''abc'' @ nl # ''def'' @ [nl]"
  let ?es = "Edit Keep '''' CHR ''a'' # map (Edit Del '''') (''bc'' @ [nl]) @ map (Edit Ins '''') (''xy'' @ [nl])"
  have "cs_on (''Z:8>0=1|1-3|1+3$xy'' @ [nl]) ?t ?es" "ended ?t"
    "checkRep (''Z:8>0=1|1-3|1+3$xy'' @ [nl]) = Inr (''Z:8>0=1|1-3|1+3$xy'' @ [nl])" by code_simp+
  moreover have "splitLines ?t = [''abc'' @ [nl], ''def'' @ [nl]]" "splitLines (result ?t ?es) = [''axy'' @ [nl], ''def'' @ [nl]]"
    using splitLines_concat [of "[''abc'' @ [nl], ''def'' @ [nl]]" "[]"] splitLines_concat [of "[''axy'' @ [nl], ''def'' @ [nl]]" "[]"]
    by (simp_all add: isLine_def result_def)
  ultimately show ?thesis using mutateTextLines_text [of _ ?t ?es] by simp
qed

end
