(* ===== verification/Revisions.thy ===== *)
theory Revisions
  imports Protocol
begin

text \<open>
  \<open>etherpad/src/static/js/broadcast_revisions.js\<close>: the revisions a time slider knows, joined by changesets
  over one revision or many, forward and backward, and the search for a path from one revision to another.
  Next to it the laws of the graph: a path is a chain of its changesets, and it is complete where all single
  steps are known.
\<close>

subsection \<open>Revisions\<close>

text \<open>\<open>changesetWrapper\<close>; \<open>getValue\<close> is the field \<open>de_value\<close>.\<close>

record delta =
  de_rev :: int
  de_time :: int
  de_value :: string

record revision =
  rv_rev :: int
  rv_changesets :: "delta list"

text \<open>The object \<open>revisionInfo\<close>: the revisions under their numbers, and \<open>latest\<close>.\<close>

record revisionInfo =
  ri_revs :: "(int, revision) obj"
  ri_latest :: int

definition new_Revision :: "int \<Rightarrow> revision" where
  "new_Revision revNum = \<lparr>rv_rev = revNum, rv_changesets = []\<rparr>"

text \<open>\<open>clientVars.totalRevs || -1\<close>, which is -1 for a pad with the revision 0 alone.\<close>

definition revisionInfo_init :: "int \<Rightarrow> revisionInfo" where
  "revisionInfo_init totalRevs = \<lparr>ri_revs = [], ri_latest = (if totalRevs = 0 then - 1 else totalRevs)\<rparr>"

text \<open>\<open>sort\<close> by descending \<open>deltaRev\<close>; equal entries stay in order here, where the code leaves it open.\<close>

definition addDelta :: "int \<Rightarrow> string \<Rightarrow> int \<Rightarrow> revision \<Rightarrow> revision" where
  "addDelta destIndex changeset timeDelta rv =
     rv\<lparr>rv_changesets := sort_key (\<lambda>d. - de_rev d)
          (rv_changesets rv @ [\<lparr>de_rev = destIndex - rv_rev rv, de_time = timeDelta, de_value = changeset\<rparr>])\<rparr>"

definition createNew :: "int \<Rightarrow> revisionInfo \<Rightarrow> revisionInfo" where
  "createNew index info =
     info\<lparr>ri_revs := obj_put (ri_revs info) index (new_Revision index), ri_latest := max (ri_latest info) index\<rparr>"

text \<open>\<open>revisionInfo[i] || revisionInfo.createNew(i)\<close>\<close>

definition getOrCreate :: "int \<Rightarrow> revisionInfo \<Rightarrow> revision \<times> revisionInfo" where
  "getOrCreate index info =
     (case obj_get (ri_revs info) index of
        Some rv \<Rightarrow> (rv, info)
      | None \<Rightarrow> (new_Revision index, createNew index info))"

text \<open>\<open>startRevision.addChangeset\<close> and the other are on the objects in the table.\<close>

definition onRevision :: "int \<Rightarrow> (revision \<Rightarrow> revision) \<Rightarrow> revisionInfo \<Rightarrow> revisionInfo" where
  "onRevision index f info =
     (case obj_get (ri_revs info) index of
        None \<Rightarrow> info
      | Some rv \<Rightarrow> info\<lparr>ri_revs := obj_put (ri_revs info) index (f rv)\<rparr>)"

definition addChangeset :: "int \<Rightarrow> int \<Rightarrow> string \<Rightarrow> string \<Rightarrow> int \<Rightarrow> revisionInfo \<Rightarrow> revisionInfo" where
  "addChangeset fromIndex toIndex changeset backChangeset timeDelta info =
     (let info1 = snd (getOrCreate fromIndex info);
          info2 = snd (getOrCreate toIndex info1);
          info3 = onRevision fromIndex (addDelta toIndex changeset timeDelta) info2
      in onRevision toIndex (addDelta fromIndex backChangeset (- 1 * timeDelta)) info3)"

subsection \<open>Paths\<close>

record path =
  pa_fromRev :: int
  pa_rev :: int
  pa_complete :: bool
  pa_changesets :: "string list"
  pa_spans :: "int list"
  pa_times :: "int list"

text \<open>
  The inner loop of \<open>getPath\<close>: forward over the changesets from the longest step down, backward from the
  end of the array. \<open>None\<close> where it chooses nothing, whether it could not continue or came to the end.
\<close>

fun chooseForward :: "int \<Rightarrow> int \<Rightarrow> delta list \<Rightarrow> delta option" where
  "chooseForward r toIndex [] = None"
| "chooseForward r toIndex (d # ds) =
     (if de_rev d < 0 then None
      else if r + de_rev d \<le> toIndex then Some d
      else chooseForward r toIndex ds)"

fun chooseBackward :: "int \<Rightarrow> int \<Rightarrow> delta list \<Rightarrow> delta option" where
  "chooseBackward r toIndex [] = None"
| "chooseBackward r toIndex (d # ds) =
     (if 0 < de_rev d then None
      else if toIndex \<le> r + de_rev d then Some d
      else chooseBackward r toIndex ds)"

definition chooseDelta :: "bool \<Rightarrow> int \<Rightarrow> revision \<Rightarrow> delta option" where
  "chooseDelta reverse toIndex elem =
     (if reverse then chooseBackward (rv_rev elem) toIndex (rev (rv_changesets elem))
      else chooseForward (rv_rev elem) toIndex (rv_changesets elem))"

partial_function (option) pathLoop ::
  "revisionInfo \<Rightarrow> bool \<Rightarrow> int \<Rightarrow> revision \<Rightarrow> delta list \<Rightarrow> (revision \<times> delta list) res option" where
  "pathLoop info reverse toIndex elem acc =
     (if (rv_rev elem < toIndex \<and> \<not> reverse) \<or> (toIndex < rv_rev elem \<and> reverse) then
        (case chooseDelta reverse toIndex elem of
           None \<Rightarrow> Some (Inr (elem, acc))
         | Some d \<Rightarrow>
             (case obj_get (ri_revs info) (rv_rev elem + de_rev d) of
                None \<Rightarrow> Some (Inl (TypeError ''elem is undefined''))
              | Some elem' \<Rightarrow>
                  if rv_rev elem' = rv_rev elem then Some (Inr (elem', acc @ [d]))
                  else pathLoop info reverse toIndex elem' (acc @ [d])))
      else Some (Inr (elem, acc)))"

declare pathLoop.simps [code]

definition getPath :: "int \<Rightarrow> int \<Rightarrow> revisionInfo \<Rightarrow> (path \<times> revisionInfo) res" where
  "getPath fromIndex toIndex info =
     (let (elem, info') = getOrCreate fromIndex info in
      bindE (if rv_changesets elem \<noteq> [] \<and> fromIndex \<noteq> toIndex
             then (case pathLoop info' (\<not> fromIndex < toIndex) toIndex elem [] of
                     None \<Rightarrow> Inl Diverges | Some r \<Rightarrow> r)
             else Inr (elem, [])) (\<lambda>(elem', ds).
      Inr (\<lparr>pa_fromRev = fromIndex, pa_rev = rv_rev elem', pa_complete = (rv_rev elem' = toIndex),
             pa_changesets = map de_value ds, pa_spans = map de_rev ds, pa_times = map de_time ds\<rparr>, info')))"

subsection \<open>The graph of revisions\<close>

text \<open>
  Each revision is under its own number, its changesets lead to revisions of the table and are sorted, and
  \<open>latest\<close> is the highest number or more. \<open>R a b c\<close>: the changeset \<open>c\<close> leads from the revision \<open>a\<close> to \<open>b\<close>.
\<close>

definition info_ok :: "(int \<Rightarrow> int \<Rightarrow> string \<Rightarrow> bool) \<Rightarrow> revisionInfo \<Rightarrow> bool" where
  "info_ok R info = (\<forall>k rv. obj_get (ri_revs info) k = Some rv \<longrightarrow>
     rv_rev rv = k \<and> k \<le> ri_latest info \<and> sorted_wrt (\<lambda>d e. de_rev e \<le> de_rev d) (rv_changesets rv) \<and>
     (\<forall>d\<in>set (rv_changesets rv). obj_get (ri_revs info) (k + de_rev d) \<noteq> None \<and> R k (k + de_rev d) (de_value d)))"

lemma info_okD:
  assumes "info_ok R info" and "obj_get (ri_revs info) k = Some rv"
  shows "rv_rev rv = k" "k \<le> ri_latest info" "sorted_wrt (\<lambda>d e. de_rev e \<le> de_rev d) (rv_changesets rv)"
    "d \<in> set (rv_changesets rv) \<Longrightarrow> obj_get (ri_revs info) (k + de_rev d) \<noteq> None \<and> R k (k + de_rev d) (de_value d)"
  using assms by (auto simp: info_ok_def)

lemma info_ok_init: "info_ok R (revisionInfo_init n)"
  by (simp add: info_ok_def revisionInfo_init_def)

lemma info_ok_mono: "info_ok R info \<Longrightarrow> (\<And>a b c. R a b c \<Longrightarrow> S a b c) \<Longrightarrow> info_ok S info"
  by (auto simp: info_ok_def)

lemma getOrCreate_ok:
  assumes "info_ok R info"
  shows "info_ok R (snd (getOrCreate k info))" "obj_get (ri_revs (snd (getOrCreate k info))) k = Some (fst (getOrCreate k info))"
    "obj_get (ri_revs info) j \<noteq> None \<Longrightarrow> obj_get (ri_revs (snd (getOrCreate k info))) j = obj_get (ri_revs info) j"
    "ri_latest (snd (getOrCreate k info)) = (if obj_get (ri_revs info) k = None then max (ri_latest info) k else ri_latest info)"
proof -
  show "info_ok R (snd (getOrCreate k info))"
  proof (cases "obj_get (ri_revs info) k")
    case None
    then show ?thesis
      using assms unfolding info_ok_def getOrCreate_def createNew_def new_Revision_def
      by (auto split: if_splits) (metis le_max_iff_disj)+
  qed (use assms in \<open>simp add: getOrCreate_def\<close>)
qed (auto simp: getOrCreate_def createNew_def split: option.split)

lemma sorted_desc: "sorted_wrt (\<lambda>d e. de_rev e \<le> de_rev d) (sort_key (\<lambda>d. - de_rev d) ds)"
proof -
  have "sorted_wrt (\<lambda>d e. - de_rev d \<le> - de_rev e) (sort_key (\<lambda>d. - de_rev d) ds)"
    using sorted_sort_key [of "\<lambda>d. - de_rev d" ds] by (simp add: sorted_wrt_map)
  then show ?thesis by simp
qed

lemma onRevision_ok:
  assumes "info_ok R info" and "obj_get (ri_revs info) j \<noteq> None" and "R k j c"
  shows "info_ok R (onRevision k (addDelta j c dt) info)" "ri_latest (onRevision k (addDelta j c dt) info) = ri_latest info"
    "obj_get (ri_revs (onRevision k (addDelta j c dt) info)) i \<noteq> None \<longleftrightarrow> obj_get (ri_revs info) i \<noteq> None"
proof -
  show "info_ok R (onRevision k (addDelta j c dt) info)"
  proof (cases "obj_get (ri_revs info) k")
    case (Some rv)
    with assms info_okD [OF assms(1) Some] sorted_desc show ?thesis
      unfolding info_ok_def onRevision_def addDelta_def by (auto split: if_splits)
  qed (use assms(1) in \<open>simp add: onRevision_def\<close>)
qed (auto simp: onRevision_def split: option.splits)

lemma addChangeset_ok:
  assumes "info_ok R info" and "R a b c" and "R b a c'"
  shows "info_ok R (addChangeset a b c c' dt info)" "ri_latest info \<le> ri_latest (addChangeset a b c c' dt info)"
    "ri_latest (addChangeset a b c c' dt info) \<le> max (ri_latest info) (max a b)"
proof -
  define i1 where "i1 = snd (getOrCreate a info)"
  define i2 where "i2 = snd (getOrCreate b i1)"
  note o1 = getOrCreate_ok [OF assms(1), where k = a, folded i1_def]
  note o2 = getOrCreate_ok [OF o1(1), where k = b, folded i2_def]
  have a: "obj_get (ri_revs i2) a \<noteq> None" using o2(3) [of a] o1(2) by simp
  have b: "obj_get (ri_revs i2) b \<noteq> None" using o2(2) by simp
  note p1 = onRevision_ok [OF o2(1) b, of a c dt, OF assms(2)]
  have a': "obj_get (ri_revs (onRevision a (addDelta b c dt) i2)) a \<noteq> None" using p1(3) a by blast
  note p2 = onRevision_ok [OF p1(1) a', of b c' "- 1 * dt", OF assms(3)]
  have e: "addChangeset a b c c' dt info = onRevision b (addDelta a c' (- 1 * dt)) (onRevision a (addDelta b c dt) i2)"
    by (simp only: addChangeset_def Let_def i1_def i2_def)
  show "info_ok R (addChangeset a b c c' dt info)" unfolding e by (rule p2(1))
  show "ri_latest info \<le> ri_latest (addChangeset a b c c' dt info)"
    "ri_latest (addChangeset a b c c' dt info) \<le> max (ri_latest info) (max a b)"
    unfolding e p2(2) p1(2) using o1(4) o2(4) by auto
qed

subsection \<open>What a path is\<close>

text \<open>The steps of a path, one after the other.\<close>

fun pathChain :: "(int \<Rightarrow> int \<Rightarrow> string \<Rightarrow> bool) \<Rightarrow> int \<Rightarrow> delta list \<Rightarrow> int \<Rightarrow> bool" where
  "pathChain R a [] b = (a = b)"
| "pathChain R a (d # ds) b = (R a (a + de_rev d) (de_value d) \<and> pathChain R (a + de_rev d) ds b)"

lemma pathChain_append: "pathChain R a (ds @ [d]) b \<longleftrightarrow> (\<exists>k. pathChain R a ds k \<and> R k b (de_value d) \<and> b = k + de_rev d)"
  by (induction ds arbitrary: a) auto

text \<open>Every single step from \<open>a\<close> towards \<open>b\<close> is in the table.\<close>

definition stepKnown :: "revisionInfo \<Rightarrow> int \<Rightarrow> int \<Rightarrow> bool" where
  "stepKnown info k n = (case obj_get (ri_revs info) k of None \<Rightarrow> False | Some rv \<Rightarrow> n \<in> de_rev ` set (rv_changesets rv))"

definition stepsKnown :: "revisionInfo \<Rightarrow> int \<Rightarrow> int \<Rightarrow> bool" where
  "stepsKnown info a b = ((\<forall>k\<in>{a..<b}. stepKnown info k 1) \<and> (\<forall>k\<in>{b<..a}. stepKnown info k (- 1)))"

lemma chooseForward_Some:
  "chooseForward r t ds = Some d \<Longrightarrow> d \<in> set ds \<and> 0 \<le> de_rev d \<and> r + de_rev d \<le> t"
  by (induction ds) (auto split: if_splits)

lemma chooseBackward_Some:
  "chooseBackward r t ds = Some d \<Longrightarrow> d \<in> set ds \<and> de_rev d \<le> 0 \<and> t \<le> r + de_rev d"
  by (induction ds) (auto split: if_splits)

lemma chooseForward_step:
  "sorted_wrt (\<lambda>d e. de_rev e \<le> de_rev d) ds \<Longrightarrow> 1 \<in> de_rev ` set ds \<Longrightarrow> r < t \<Longrightarrow>
   \<exists>d. chooseForward r t ds = Some d \<and> 0 < de_rev d"
  by (induction ds) auto

lemma chooseBackward_step:
  "sorted_wrt (\<lambda>d e. de_rev d \<le> de_rev e) ds \<Longrightarrow> - 1 \<in> de_rev ` set ds \<Longrightarrow> t < r \<Longrightarrow>
   \<exists>d. chooseBackward r t ds = Some d \<and> de_rev d < 0"
  by (induction ds) auto

lemma chooseDelta_Some:
  assumes "chooseDelta reverse t elem = Some d" and "r = rv_rev elem"
  shows "d \<in> set (rv_changesets elem) \<and> (if reverse then de_rev d \<le> 0 \<and> t \<le> r + de_rev d else 0 \<le> de_rev d \<and> r + de_rev d \<le> t)"
  using assms chooseForward_Some chooseBackward_Some by (fastforce simp: chooseDelta_def split: if_splits)

lemma chooseDelta_step:
  assumes "sorted_wrt (\<lambda>d e. de_rev e \<le> de_rev d) (rv_changesets elem)"
    and "if reverse then - 1 \<in> de_rev ` set (rv_changesets elem) \<and> t < rv_rev elem
         else 1 \<in> de_rev ` set (rv_changesets elem) \<and> rv_rev elem < t"
  shows "\<exists>d. chooseDelta reverse t elem = Some d \<and> de_rev d \<noteq> 0"
  using assms chooseForward_step [of "rv_changesets elem" "rv_rev elem" t]
    chooseBackward_step [of "rev (rv_changesets elem)" t "rv_rev elem"]
  by (auto simp: chooseDelta_def sorted_wrt_rev split: if_splits)

text \<open>\<open>between reverse a b\<close>: \<open>b\<close> is \<open>a\<close> or further on in the direction of the search.\<close>

definition between :: "bool \<Rightarrow> int \<Rightarrow> int \<Rightarrow> bool" where
  "between reverse a b = (if reverse then b \<le> a else a \<le> b)"

text \<open>One round of the loop.\<close>

lemma pathLoop_stop:
  "(rv_rev elem < t \<and> \<not> reverse) \<or> (t < rv_rev elem \<and> reverse) \<longrightarrow> chooseDelta reverse t elem = None \<Longrightarrow>
   pathLoop info reverse t elem acc = Some (Inr (elem, acc))"
  by (subst pathLoop.simps) auto

lemma pathLoop_step:
  assumes "info_ok R info" and "obj_get (ri_revs info) (rv_rev elem) = Some elem"
    and "(rv_rev elem < t \<and> \<not> reverse) \<or> (t < rv_rev elem \<and> reverse)" and "chooseDelta reverse t elem = Some d"
  shows "\<exists>elem'. obj_get (ri_revs info) (rv_rev elem') = Some elem' \<and> rv_rev elem' = rv_rev elem + de_rev d \<and>
    R (rv_rev elem) (rv_rev elem') (de_value d) \<and>
    between reverse (rv_rev elem) (rv_rev elem') \<and> between reverse (rv_rev elem') t \<and>
    pathLoop info reverse t elem acc = (if de_rev d = 0 then Some (Inr (elem', acc @ [d]))
      else pathLoop info reverse t elem' (acc @ [d]))"
proof -
  note d = chooseDelta_Some [OF assms(4) refl]
  with info_okD(4) [OF assms(1,2)] obtain elem' where e: "obj_get (ri_revs info) (rv_rev elem + de_rev d) = Some elem'"
    "R (rv_rev elem) (rv_rev elem + de_rev d) (de_value d)" by blast
  have rv': "rv_rev elem' = rv_rev elem + de_rev d" by (rule info_okD(1) [OF assms(1) e(1)])
  have "pathLoop info reverse t elem acc = (if de_rev d = 0 then Some (Inr (elem', acc @ [d]))
      else pathLoop info reverse t elem' (acc @ [d]))"
    by (subst pathLoop.simps) (use assms(3,4) e(1) rv' in simp)
  with e rv' d show ?thesis by (intro exI [of _ elem']) (auto simp: between_def split: if_splits)
qed

lemma stepsKnown_choose:
  assumes "info_ok R info" and "obj_get (ri_revs info) (rv_rev elem) = Some elem"
    and "(rv_rev elem < t \<and> \<not> reverse) \<or> (t < rv_rev elem \<and> reverse)" and "stepsKnown info (rv_rev elem) t"
  shows "\<exists>d. chooseDelta reverse t elem = Some d \<and> de_rev d \<noteq> 0"
proof (rule chooseDelta_step [OF info_okD(3) [OF assms(1,2)]])
  have "stepKnown info (rv_rev elem) (if reverse then - 1 else 1)" using assms(3,4) by (auto simp: stepsKnown_def)
  with assms(2,3) show "if reverse then - 1 \<in> de_rev ` set (rv_changesets elem) \<and> t < rv_rev elem
       else 1 \<in> de_rev ` set (rv_changesets elem) \<and> rv_rev elem < t"
    by (auto simp: stepKnown_def split: if_splits)
qed

lemma stepsKnown_on:
  "stepsKnown info a t \<Longrightarrow> between reverse a b \<Longrightarrow> between reverse b t \<Longrightarrow> stepsKnown info b t"
  by (auto simp: stepsKnown_def between_def split: if_splits)

lemma pathLoop_chain:
  assumes i: "info_ok R info"
  shows "obj_get (ri_revs info) (rv_rev elem) = Some elem \<Longrightarrow> between reverse (rv_rev elem) t \<Longrightarrow> pathChain R a acc (rv_rev elem) \<Longrightarrow>
    \<exists>elem' ds. pathLoop info reverse t elem acc = Some (Inr (elem', ds)) \<and> pathChain R a ds (rv_rev elem') \<and>
      between reverse (rv_rev elem) (rv_rev elem') \<and> between reverse (rv_rev elem') t \<and>
      (stepsKnown info (rv_rev elem) t \<longrightarrow> rv_rev elem' = t)"
proof (induction "nat \<bar>t - rv_rev elem\<bar>" arbitrary: elem acc rule: less_induct)
  case less
  let ?go = "(rv_rev elem < t \<and> \<not> reverse) \<or> (t < rv_rev elem \<and> reverse)"
  show ?case
  proof (cases "?go \<longrightarrow> chooseDelta reverse t elem = None")
    case True
    have "rv_rev elem = t" if "stepsKnown info (rv_rev elem) t"
    proof (cases ?go)
      case go: True
      from stepsKnown_choose [OF i less.prems(1) go that] True go show ?thesis by simp
    next
      case False
      with less.prems(2) show ?thesis by (cases reverse) (simp_all add: between_def)
    qed
    moreover have "between reverse (rv_rev elem) (rv_rev elem)" by (simp add: between_def)
    ultimately show ?thesis using pathLoop_stop [OF True] less.prems(2,3) by blast
  next
    case False
    then obtain d where go: ?go and d: "chooseDelta reverse t elem = Some d" by auto
    from pathLoop_step [OF i less.prems(1) go d] obtain elem' where
      e: "obj_get (ri_revs info) (rv_rev elem') = Some elem'" "rv_rev elem' = rv_rev elem + de_rev d"
        "R (rv_rev elem) (rv_rev elem') (de_value d)" "between reverse (rv_rev elem) (rv_rev elem')" "between reverse (rv_rev elem') t"
        "pathLoop info reverse t elem acc = (if de_rev d = 0 then Some (Inr (elem', acc @ [d]))
          else pathLoop info reverse t elem' (acc @ [d]))" by blast
    have c: "pathChain R a (acc @ [d]) (rv_rev elem')" using less.prems(3) e(2,3) by (auto simp: pathChain_append)
    show ?thesis
    proof (cases "de_rev d = 0")
      case True
      with stepsKnown_choose [OF i less.prems(1) go] d have "\<not> stepsKnown info (rv_rev elem) t" by auto
      with True c e show ?thesis by auto
    next
      case False
      have "nat \<bar>t - rv_rev elem'\<bar> < nat \<bar>t - rv_rev elem\<bar>"
        using e(2,4,5) False go by (auto simp: between_def split: if_splits)
      from less.hyps [OF this e(1,5) c] obtain elem2 ds where r: "pathLoop info reverse t elem' (acc @ [d]) = Some (Inr (elem2, ds))"
        "pathChain R a ds (rv_rev elem2)" "between reverse (rv_rev elem') (rv_rev elem2)" "between reverse (rv_rev elem2) t"
        "stepsKnown info (rv_rev elem') t \<longrightarrow> rv_rev elem2 = t" by blast
      have "between reverse (rv_rev elem) (rv_rev elem2)" using e(4) r(3) by (auto simp: between_def split: if_splits)
      with r stepsKnown_on [OF _ e(4,5)] e(6) False show ?thesis by auto
    qed
  qed
qed

text \<open>
  C40. \<open>getPath\<close> finds its way: over any table filled by \<open>addChangeset\<close> it returns changesets that lead, one
  after the other, from the start to the revision it names, which lies between start and goal; and it comes to
  the goal whenever the single steps between are known, whatever longer steps it takes instead.
\<close>

theorem getPath_chain:
  assumes "info_ok R info"
  shows "\<exists>pa info' ds. getPath a b info = Inr (pa, info') \<and> info_ok R info' \<and> pathChain R a ds (pa_rev pa) \<and>
    pa_changesets pa = map de_value ds \<and> pa_spans pa = map de_rev ds \<and> pa_times pa = map de_time ds \<and>
    pa_complete pa = (pa_rev pa = b) \<and> min a b \<le> pa_rev pa \<and> pa_rev pa \<le> max a b \<and>
    (stepsKnown info a b \<longrightarrow> pa_complete pa)"
proof -
  obtain elem info' where e: "getOrCreate a info = (elem, info')" by fastforce
  have i: "info_ok R info'" "obj_get (ri_revs info') a = Some elem" using getOrCreate_ok(1,2) [OF assms, of a] e by simp_all
  have rv: "rv_rev elem = a" by (rule info_okD(1) [OF i])
  have same: "obj_get (ri_revs info') j = obj_get (ri_revs info) j" if "obj_get (ri_revs info) j \<noteq> None" for j
    using getOrCreate_ok(3) [OF assms that, of a] e by simp
  have steps: "stepsKnown info' a b" if "stepsKnown info a b"
    using that same unfolding stepsKnown_def stepKnown_def by (fastforce split: option.splits)
  show ?thesis
  proof (cases "rv_changesets elem \<noteq> [] \<and> a \<noteq> b")
    case True
    have "between (\<not> a < b) a b" by (simp add: between_def)
    from pathLoop_chain [OF i(1), of elem "\<not> a < b" b a "[]", unfolded rv, OF i(2) this] obtain elem' ds where
      l: "pathLoop info' (\<not> a < b) b elem [] = Some (Inr (elem', ds))" "pathChain R a ds (rv_rev elem')"
      "between (\<not> a < b) a (rv_rev elem')" "between (\<not> a < b) (rv_rev elem') b" "stepsKnown info' a b \<longrightarrow> rv_rev elem' = b"
      by auto
    have "min a b \<le> rv_rev elem' \<and> rv_rev elem' \<le> max a b" using l(3,4) by (auto simp: between_def split: if_splits)
    with l True e i(1) steps show ?thesis by (auto simp: getPath_def)
  next
    case False
    have "a = b" if "stepsKnown info a b"
    proof (rule ccontr)
      assume "a \<noteq> b"
      with that have "stepKnown info a (if a < b then 1 else - 1)" by (auto simp: stepsKnown_def)
      with same [of a] i(2) have "rv_changesets elem \<noteq> []" by (auto simp: stepKnown_def split: option.splits)
      with False \<open>a \<noteq> b\<close> show False by simp
    qed
    with False e i(1) rv show ?thesis by (auto simp: getPath_def intro!: exI [of _ "[]"])
  qed
qed

text \<open>The example of the source: five revisions in one step, five more, then three single ones.\<close>

definition sampleInfo :: revisionInfo where
  "sampleInfo = addChangeset 12 13 ''m'' ''M'' 1 (addChangeset 11 12 ''l'' ''L'' 1 (addChangeset 10 11 ''k'' ''K'' 1
     (addChangeset 5 10 ''fghij'' ''FGHIJ'' 5 (addChangeset 0 5 ''abcde'' ''ABCDE'' 5 (revisionInfo_init 13)))))"

definition spans :: "int \<Rightarrow> int \<Rightarrow> string \<Rightarrow> bool" where
  "spans a b c = (int (length c) = \<bar>b - a\<bar>)"

lemma sampleInfo_ok: "info_ok spans sampleInfo"
  unfolding sampleInfo_def by (intro addChangeset_ok(1) info_ok_init) (simp_all add: spans_def)

theorem getPath_chain_witness:
  "\<exists>pa info'. getPath 13 0 sampleInfo = Inr (pa, info') \<and> pa_complete pa \<and>
    pa_changesets pa = [''M'', ''L'', ''K'', ''FGHIJ'', ''ABCDE''] \<and> (\<exists>ds. pathChain spans 13 ds (pa_rev pa) \<and> pa_changesets pa = map de_value ds)"
proof -
  obtain pa info' ds where p: "getPath 13 0 sampleInfo = Inr (pa, info')" "pathChain spans 13 ds (pa_rev pa)" "pa_changesets pa = map de_value ds"
    using getPath_chain [OF sampleInfo_ok, of 13 0] by blast
  have "case getPath 13 0 sampleInfo of Inr (pa, _) \<Rightarrow> pa_complete pa \<and>
      pa_changesets pa = [''M'', ''L'', ''K'', ''FGHIJ'', ''ABCDE''] | Inl _ \<Rightarrow> False" by code_simp
  with p show ?thesis by auto
qed

end
