(* ===== verification/Spec2Isabelle.thy ===== *)
theory Spec2Isabelle
  imports Agreement LineLaws Revisions
begin

text \<open>
  Etherpad lets several people edit one document, a pad, at the same time. Every edit is a changeset; the
  editor of a user applies it at once, and the server orders the changesets of all users into the revisions
  of the pad, transforming each over those its author had not seen. This development models the program's
  core: the algebra of changesets, the client's bookkeeping around it, the pad on the server with its
  storage, and the server that connects them.

  Paths below are relative to the root of the repository; the easysync library is
  \<open>infrastructure/ace/www/easysync2.js\<close>, the server \<open>etherpad/src/etherpad\<close>.

  \<^bold>\<open>Parts and theories\<close>, in the order of the imports:

  \<^item> \<open>Prelude\<close>: values of JavaScript (errors as a sum, the index conventions of strings, numbers in base
    36, objects used as maps) and the automation every theory shares.
  \<^item> The library \<open>easysync2.js\<close>. \<open>Ops\<close>: operations, \<open>opIterator\<close>, \<open>opAssembler\<close>. \<open>AttribPools\<close>: \<open>AttribPool\<close>.
    \<open>Assemblers\<close>: the merging and the smart assembler. \<open>Texts\<close>: \<open>pack\<close>, \<open>unpack\<close>, \<open>applyToText\<close>.
    \<open>Attributes\<close>: attribute strings. \<open>Zips\<close>: \<open>applyZip\<close>, \<open>compose\<close>, \<open>follow\<close>. \<open>Changesets\<close>: \<open>checkRep\<close>,
    \<open>makeSplice\<close>, \<open>toSplices\<close>, \<open>builder\<close>, attributed texts. \<open>Lines\<close>: documents as arrays of lines.
  \<^item> The laws of the library. \<open>NormalForm\<close>, \<open>Zipping\<close>: operation streams as edit scripts (lists of single
    kept, deleted and inserted characters) and the locale \<open>script_zipper\<close>. \<open>AttribLaws\<close>, \<open>FollowLaws\<close>,
    \<open>ComposeLaws\<close>, \<open>Splices\<close>, \<open>Wire\<close>: what \<open>composeAttributes\<close>, \<open>follow\<close>, \<open>compose\<close>, \<open>toSplices\<close> and
    \<open>moveOpsToNewPool\<close> do to scripts. \<open>Protocol\<close>: the locale \<open>ot_algebra\<close>, what clients and servers rely
    on, interpreted on the model's \<open>follow\<close> and \<open>compose\<close>. \<open>CrossPool\<close>, \<open>CrossFollow\<close>: changesets that are
    the same over two pools with different numbers, and that \<open>follow\<close> keeps them the same. \<open>LineLaws\<close>:
    the mutator as a cursor in the lines, and \<open>mutateTextLines\<close> as \<open>applyToText\<close> on the joined lines.
  \<^item> \<open>Effects\<close>: actions, that is, code that changes a state and may throw; \<open>wp\<close> for what it does when it
    returns and \<open>preserves\<close> for what holds however it ends.
  \<^item> \<open>Tracker\<close> (\<open>infrastructure/ace/www/changesettracker.js\<close>): the client's base text, its submitted and its
    unsubmitted changes. \<open>UndoModule\<close> (\<open>undomodule.js\<close>): the undo stack. The editor is a parameter of both.
  \<^item> \<open>PadStore\<close>, \<open>PadModel\<close> (\<open>pad/model.js\<close>, \<open>writePadNow\<close> of \<open>pad/dbwriter.js\<close>, the string arrays of
    \<open>framework-src/modules/sqlbase/sqlbase.js\<close>): the arrays of a pad with their caches over the tables;
    revisions, texts, coarse changesets, authors, access, saving. \<open>PadLaws\<close>, \<open>PadProps\<close>: the invariant
    \<open>pad_ok\<close> of a pad in an access, \<open>pad_at_rest\<close> between accesses, and the histories \<open>padHistory\<close>.
  \<^item> \<open>PadIds\<close> (\<open>collab/server_utils.js\<close>, the id functions of \<open>pad/padutils.js\<close>): names of pads and of their
    read-only views.
  \<^item> \<open>Rooms\<close> (\<open>collab/collabroom_server.js\<close>), \<open>CollabServer\<close> (\<open>collab/collab_server.js\<close>,
    \<open>collab/readonly_server.js\<close>), \<open>RoomServer\<close> (the callbacks of the rooms and the messages of the clients):
    rooms, connections, rebasing and distributing changes, \<open>handleComet\<close>. \<open>RoomLaws\<close>, \<open>RoomRuns\<close>: the tables
    of rooms and connections after any run of requests. \<open>RoomProps\<close>: sample runs and the hole of the
    read-only rooms. \<open>CollabLaws\<close>, \<open>MergeLaws\<close>: bringing clients up to date and merging changes.
  \<^item> \<open>CollabClient\<close> (\<open>etherpad/src/static/js/collab_client.js\<close>): the client's end of the connection around the
    tracker: commits, messages, users, the socket and its timers. \<open>ClientLaws\<close>: runs of a client, what it
    commits, how it takes changes in. \<open>Reconnecting\<close>: what a socket that opens again sends and how the server
    answers it. \<open>ClientServer\<close>: client and server composed, with a sample client.
    \<open>InFlight\<close>, \<open>Agreement\<close>: a commit from end to end.
  \<^item> \<open>Revisions\<close> (\<open>etherpad/src/static/js/broadcast_revisions.js\<close>): the graph of the revisions a time slider
    knows, with its invariant \<open>info_ok\<close>, and \<open>getPath\<close>, whose answer is a chain in it.

  \<^bold>\<open>State and operations.\<close> An object of the code that is mutated is a record passed through the operations; a
  closure over variables (\<open>smartOpAssembler\<close>, \<open>changesettracker\<close>, a pad) is a record of these variables. An
  exception is \<open>Inl\<close> of an error that names its class and message, so that every \<open>throw\<close>, failed assertion
  and access of \<open>undefined\<close> the code can reach is a branch. Server code keeps the state it had reached when it
  threw, except where the code has a database transaction. Calls to modules that are not modelled (the plugin
  hooks, \<open>padevents\<close>, \<open>activepads\<close>, the comet server) are recorded in the state or answered by a parameter
  (\<open>environment\<close>, \<open>nextInt\<close>).

  \<^bold>\<open>What the lemmas show.\<close> The library: printing and parsing are inverse, the smart assembler is canonical,
  \<open>compose\<close> is application in sequence, \<open>follow\<close> converges, both return what \<open>checkRep\<close> accepts, attributes
  keep their meaning in growing pools and on the wire. The client: the document is always the base with the
  client's changes on it, and a legitimate change always goes in; the undo stack always leads to the current
  document. The pad: every revision reads as the replay of its changesets, whatever is cached, saved or
  removed from memory. The server: rooms and connections describe each other and a user is in a room at most
  once; a merged change leads to the text its author arrives at; clients get every revision once, in order.
  Both ends: what a client commits is its document, whatever the network and the page do, and what the server
  sends brings it to the head of the pad; a commit that crossed other revisions becomes, on the client and on
  the server, the same change (\<open>commit_agrees\<close>), for changesets whose attributes are numbered the way the
  code writes them (\<open>numberedIns\<close>).
  Where the code does not do what it means to, the error is a property of its own
  (\<open>checkRep_keep_overrun\<close>, \<open>destroyed_text_returns\<close>, \<open>view_joins_editors\<close>, \<open>reconnect_resends\<close>) or a lemma
  that evaluates a run (\<open>exposeEvent_misses\<close>, \<open>slow_commit_unwatched\<close>, \<open>readonly_short\<close>).
  What attributes mean is said apart from the code: \<open>writeOver\<close> is one map written over another, \<open>stands\<close> that
  an attribute string stands for a map, \<open>restyled\<close> the attributes an edit script gives to a text.

  \<^bold>\<open>Where the model is coarser than the code.\<close> The editor behind the tracker is the parameter \<open>docEditor\<close>, a text
  with \<open>applyToText\<close>; the checks of \<open>ace2_inner.js\<close> around it (\<open>checkRep\<close>, length and lines) are not modelled.
  \<open>accessPadGlobal\<close> leaves out \<open>ensureMigrated\<close> and the access control of \<open>pad_security.js\<close>; for requests the
  latter is the parameter \<open>en_accessDenied\<close> of \<open>Rooms.accessPad\<close>. The model cache of a pad is not bounded
  (the code evicts old entries; \<open>destroyed_text_returns\<close> is about an entry that is still there). A cloned pad gets a copy of the other's pool, where the
  code shares the object \<open>numToAttrib\<close>. \<open>getGlobalPadId\<close> is called within a request only (\<open>request.isDefined\<close>).
  An operation appended without attributes or pool has the attributes \<open>''''\<close> where the code has \<open>undefined\<close>;
  they print alike.

  \<^bold>\<open>Loops and bounds.\<close> There is no fuel. A loop whose end is plain is \<open>fun\<close> or \<open>function\<close> with a measure. A
  loop that ends only because of what it calls (\<open>zipLoop\<close>, \<open>malLoop\<close>, \<open>runsLoop\<close>, \<open>exposeLoop\<close>, \<open>pathLoop\<close>) is a
  \<open>partial_function (option)\<close>, and that it returns is part of what is proved (\<open>zips_terminate\<close> for any input;
  \<open>undoSession_proceeds\<close> for the undo stack, \<open>getPath_chain\<close> for paths). Numbers are unbounded integers: the code's are exact up to
  \<open>2 ^ 53\<close>, which the length of a document does not reach.

  \<^bold>\<open>Not modelled.\<close> The editor in the browser (\<open>ace2_inner.js\<close> and the modules that read and write its DOM) and
  the page around it (\<open>etherpad/src/static/js\<close> apart from \<open>collab_client.js\<close>, of which only the developers'
  report \<open>getDiagnosticInfo\<close> is left out): events and the DOM; the client's calls to it are recorded. The time
  slider apart from its graph of revisions, import and export, accounts, billing, statistics, the plugins and the web pages: requests,
  templates and SQL. The framework's glue to Java, including \<open>sqlobj.js\<close> and \<open>comet.js\<close>. \<open>dbwriter.js\<close> apart
  from \<open>writePadNow\<close>: timers and locks. Requests are run one at a time, as the locks of the code have them for
  one pad; interleavings within a request are not modelled. \<open>dumpStorageToString\<close> of the server is a debugging
  aid. Vendored libraries (jQuery, Firebug, JSLint, processing.js) are no part of the program.
\<close>

end
